(* ===== verification/Prelude.thy ===== *)
theory Prelude
  imports Main
begin

section \<open>Prelude: fallible operations on a state, and tables of rows\<close>

text \<open>
  What every component of the development shares.

  \<^item> \<open>op\<close>: an async method of the backend. It takes the state, may throw, and returns the
    state it leaves behind. A throw does not undo what was written before it
    (\<open>bindOp\<close> keeps the state of the failed step); only \<open>transactionOp\<close>, the model of
    \<^verbatim>\<open>prisma.$transaction\<close>, rolls back.
  \<^item> \<open>keeps I m\<close>: the operation \<open>m\<close> keeps the invariant \<open>I\<close>, on its error paths too. The
    collection \<open>keeps_intros\<close> decomposes a goal along the operation's structure.
  \<^item> \<open>updateWhere\<close>, \<open>deleteWhere\<close>, \<open>countWhere\<close>: what Prisma's \<^verbatim>\<open>updateMany\<close>,
    \<^verbatim>\<open>deleteMany\<close> and \<^verbatim>\<open>count\<close> do to a table, a list of rows. The order of the list
    stands for the order in which the database happens to return rows when no
    \<^verbatim>\<open>orderBy\<close> is given; the theorems hold for every order.
\<close>

named_theorems keeps_intros \<open>decomposition of \<open>keeps\<close> goals\<close>
named_theorems op_simps \<open>unfolding of the operation combinators\<close>

subsection \<open>Operations\<close>

type_synonym ('s, 'e, 'a) op = "'s \<Rightarrow> ('e + 'a) \<times> 's"

definition returnOp :: "'a \<Rightarrow> ('s, 'e, 'a) op" where
  "returnOp x = (\<lambda>s. (Inr x, s))"

definition throwOp :: "'e \<Rightarrow> ('s, 'e, 'a) op" where
  "throwOp e = (\<lambda>s. (Inl e, s))"

definition getsOp :: "('s \<Rightarrow> 'a) \<Rightarrow> ('s, 'e, 'a) op" where
  "getsOp f = (\<lambda>s. (Inr (f s), s))"

definition modifyOp :: "('s \<Rightarrow> 's) \<Rightarrow> ('s, 'e, unit) op" where
  "modifyOp f = (\<lambda>s. (Inr (), f s))"

definition bindOp :: "('s, 'e, 'a) op \<Rightarrow> ('a \<Rightarrow> ('s, 'e, 'b) op) \<Rightarrow> ('s, 'e, 'b) op" where
  "bindOp m k = (\<lambda>s. case m s of (Inl e, s') \<Rightarrow> (Inl e, s') | (Inr x, s') \<Rightarrow> k x s')"

definition thenOp :: "('s, 'e, 'a) op \<Rightarrow> ('s, 'e, 'b) op \<Rightarrow> ('s, 'e, 'b) op" where
  "thenOp m m' = bindOp m (\<lambda>_. m')"

definition transactionOp :: "('s, 'e, 'a) op \<Rightarrow> ('s, 'e, 'a) op" where
  "transactionOp m = (\<lambda>s. case m s of (Inl e, _) \<Rightarrow> (Inl e, s) | (Inr x, s') \<Rightarrow> (Inr x, s'))"

definition catchOp :: "('s, 'e, 'a) op \<Rightarrow> ('e \<Rightarrow> ('s, 'e, 'a) op) \<Rightarrow> ('s, 'e, 'a) op" where
  "catchOp m h = (\<lambda>s. case m s of (Inl e, s') \<Rightarrow> h e s' | (Inr x, s') \<Rightarrow> (Inr x, s'))"

definition unlessOp :: "bool \<Rightarrow> 'e \<Rightarrow> ('s, 'e, unit) op" where
  "unlessOp c e = (if c then returnOp () else throwOp e)"

definition whenOp :: "bool \<Rightarrow> ('s, 'e, unit) op \<Rightarrow> ('s, 'e, unit) op" where
  "whenOp c m = (if c then m else returnOp ())"

fun forEachOp :: "('x \<Rightarrow> ('s, 'e, unit) op) \<Rightarrow> 'x list \<Rightarrow> ('s, 'e, unit) op" where
  "forEachOp f [] = returnOp ()"
| "forEachOp f (x # xs) = thenOp (f x) (forEachOp f xs)"

fun foldOp :: "('x \<Rightarrow> 'a \<Rightarrow> ('s, 'e, 'a) op) \<Rightarrow> 'x list \<Rightarrow> 'a \<Rightarrow> ('s, 'e, 'a) op" where
  "foldOp f [] a = returnOp a"
| "foldOp f (x # xs) a = bindOp (f x a) (foldOp f xs)"

lemmas op_unfold =
  returnOp_def throwOp_def getsOp_def modifyOp_def bindOp_def thenOp_def transactionOp_def
  catchOp_def unlessOp_def whenOp_def

lemma return_apply [op_simps]: "returnOp x s = (Inr x, s)"
  by (simp add: returnOp_def)

lemma throw_apply [op_simps]: "throwOp e s = (Inl e, s)"
  by (simp add: throwOp_def)

lemma gets_apply [op_simps]: "getsOp f s = (Inr (f s), s)"
  by (simp add: getsOp_def)

lemma modify_apply [op_simps]: "modifyOp f s = (Inr (), f s)"
  by (simp add: modifyOp_def)

lemma bind_return [op_simps]: "bindOp (returnOp x) k s = k x s"
  by (simp add: op_unfold)

lemma bind_throw [op_simps]: "bindOp (throwOp e) k s = (Inl e, s)"
  by (simp add: op_unfold)

lemma bind_gets [op_simps]: "bindOp (getsOp f) k s = k (f s) s"
  by (simp add: op_unfold)

lemma bind_modify [op_simps]: "bindOp (modifyOp f) k s = k () (f s)"
  by (simp add: op_unfold)

lemma then_return [op_simps]: "thenOp (returnOp x) k s = k s"
  by (simp add: op_unfold)

lemma then_throw [op_simps]: "thenOp (throwOp e) k s = (Inl e, s)"
  by (simp add: op_unfold)

lemma then_modify [op_simps]: "thenOp (modifyOp f) k s = k (f s)"
  by (simp add: op_unfold)

lemma bind_unless [op_simps]: "thenOp (unlessOp c e) k s = (if c then k s else (Inl e, s))"
  by (simp add: op_unfold)

lemma then_when [op_simps]: "thenOp (whenOp c m) k s = (if c then thenOp m k s else k s)"
  by (simp add: op_unfold)

lemma bind_bind [op_simps]: "bindOp (bindOp m k) l s = bindOp m (\<lambda>x. bindOp (k x) l) s"
  by (simp add: op_unfold split: prod.split sum.split)

lemma bind_then [op_simps]: "bindOp (thenOp m k) l s = thenOp m (bindOp k l) s"
  by (simp add: op_unfold split: prod.split sum.split)

lemma then_bind [op_simps]: "thenOp (bindOp m k) l s = bindOp m (\<lambda>x. thenOp (k x) l) s"
  by (simp add: op_unfold split: prod.split sum.split)

lemma then_then [op_simps]: "thenOp (thenOp m k) l s = thenOp m (thenOp k l) s"
  by (simp add: op_unfold split: prod.split sum.split)

subsection \<open>Invariants of operations\<close>

definition keeps :: "('s \<Rightarrow> bool) \<Rightarrow> ('s, 'e, 'a) op \<Rightarrow> bool" where
  "keeps I m \<longleftrightarrow> (\<forall>s. I s \<longrightarrow> I (snd (m s)))"

lemma keepsI: "(\<And>s. I s \<Longrightarrow> I (snd (m s))) \<Longrightarrow> keeps I m"
  by (simp add: keeps_def)

lemma keepsD: "keeps I m \<Longrightarrow> I s \<Longrightarrow> I (snd (m s))"
  by (simp add: keeps_def)

lemma keeps_result: "keeps I m \<Longrightarrow> I s \<Longrightarrow> m s = (r, s') \<Longrightarrow> I s'"
  using keepsD by fastforce

lemma keeps_return [keeps_intros]: "keeps I (returnOp x)"
  by (simp add: keeps_def op_simps)

lemma keeps_throw [keeps_intros]: "keeps I (throwOp e)"
  by (simp add: keeps_def op_simps)

lemma keeps_gets [keeps_intros]: "keeps I (getsOp f)"
  by (simp add: keeps_def op_simps)

lemma keeps_modify: "(\<And>s. I s \<Longrightarrow> I (f s)) \<Longrightarrow> keeps I (modifyOp f)"
  by (simp add: keeps_def op_simps)

lemma keeps_bind [keeps_intros]:
  assumes "keeps I m" and "\<And>x. keeps I (k x)"
  shows "keeps I (bindOp m k)"
  using assms by (fastforce simp: keeps_def bindOp_def split: prod.split sum.split)

lemma keeps_then [keeps_intros]: "keeps I m \<Longrightarrow> keeps I m' \<Longrightarrow> keeps I (thenOp m m')"
  by (simp add: thenOp_def keeps_bind)

text \<open>A read followed by code that may use what was read.\<close>

lemma keeps_bind_gets:
  assumes "\<And>s. I s \<Longrightarrow> I (snd (k (f s) s))"
  shows "keeps I (bindOp (getsOp f) k)"
  using assms by (simp add: keeps_def op_simps)

lemma keeps_transaction [keeps_intros]: "keeps I m \<Longrightarrow> keeps I (transactionOp m)"
  by (fastforce simp: keeps_def transactionOp_def split: prod.split sum.split)

lemma keeps_catch [keeps_intros]:
  assumes "keeps I m" and "\<And>e. keeps I (h e)"
  shows "keeps I (catchOp m h)"
  using assms by (fastforce simp: keeps_def catchOp_def split: prod.split sum.split)

lemma keeps_unless [keeps_intros]: "keeps I (unlessOp c e)"
  by (simp add: unlessOp_def keeps_return keeps_throw)

lemma keeps_when [keeps_intros]: "(c \<Longrightarrow> keeps I m) \<Longrightarrow> keeps I (whenOp c m)"
  by (simp add: whenOp_def keeps_return)

lemma keeps_if [keeps_intros]:
  "(c \<Longrightarrow> keeps I m) \<Longrightarrow> (\<not> c \<Longrightarrow> keeps I m') \<Longrightarrow> keeps I (if c then m else m')"
  by simp

lemma keeps_case_option [keeps_intros]:
  "(x = None \<Longrightarrow> keeps I m) \<Longrightarrow> (\<And>y. x = Some y \<Longrightarrow> keeps I (k y)) \<Longrightarrow>
   keeps I (case x of None \<Rightarrow> m | Some y \<Rightarrow> k y)"
  by (cases x) simp_all

lemma keeps_forEach [keeps_intros]:
  "(\<And>x. x \<in> set xs \<Longrightarrow> keeps I (f x)) \<Longrightarrow> keeps I (forEachOp f xs)"
  by (induction xs) (simp_all add: keeps_return keeps_then)

lemma keeps_fold [keeps_intros]:
  "(\<And>x a. x \<in> set xs \<Longrightarrow> keeps I (f x a)) \<Longrightarrow> keeps I (foldOp f xs a)"
  by (induction xs arbitrary: a) (simp_all add: keeps_return keeps_bind)

subsection \<open>Results of a run\<close>

lemma bind_result:
  assumes "bindOp m k b = (Inr r, b')"
  obtains x b1 where "m b = (Inr x, b1)" "k x b1 = (Inr r, b')"
  using assms by (cases "m b"; cases "fst (m b)") (auto simp: bindOp_def)

lemma then_result:
  assumes "thenOp m k b = (Inr r, b')"
  obtains u b1 where "m b = (Inr u, b1)" "k b1 = (Inr r, b')"
  using assms by (auto simp: thenOp_def elim!: bind_result)

lemma transaction_error: "transactionOp m b = (Inl e, b') \<Longrightarrow> b' = b"
  by (auto simp: transactionOp_def split: prod.splits sum.splits)

lemma transaction_result: "transactionOp m b = (Inr r, b') \<Longrightarrow> m b = (Inr r, b')"
  by (auto simp: transactionOp_def split: prod.splits sum.splits)

lemma unless_result: "unlessOp c e s = (Inr y, s') \<longleftrightarrow> c \<and> s' = s"
  by (auto simp: unlessOp_def op_simps)

text \<open>A step that only reads comes back with the state it found.\<close>

definition reads :: "('s, 'e, 'a) op \<Rightarrow> bool" where
  "reads m \<longleftrightarrow> (\<forall>b. snd (m b) = b)"

lemma readsI: "(\<And>I. keeps I m) \<Longrightarrow> reads m"
  unfolding reads_def
proof
  fix b assume "\<And>I. keeps I m"
  from keepsD [OF this [of "(=) b"] refl] show "snd (m b) = b" by simp
qed

lemma reads_bind:
  assumes "reads m"
  shows "snd (bindOp m k b) = (case fst (m b) of Inl _ \<Rightarrow> b | Inr x \<Rightarrow> snd (k x b))"
proof (cases "m b")
  case (Pair r b1)
  then have "b1 = b" using assms by (simp add: reads_def) (metis snd_conv)
  with Pair show ?thesis by (cases r) (simp_all add: bindOp_def)
qed

subsection \<open>Tables\<close>

definition updateWhere :: "('r \<Rightarrow> bool) \<Rightarrow> ('r \<Rightarrow> 'r) \<Rightarrow> 'r list \<Rightarrow> 'r list" where
  "updateWhere P f rows = map (\<lambda>r. if P r then f r else r) rows"

definition deleteWhere :: "('r \<Rightarrow> bool) \<Rightarrow> 'r list \<Rightarrow> 'r list" where
  "deleteWhere P rows = filter (\<lambda>r. \<not> P r) rows"

definition countWhere :: "('r \<Rightarrow> bool) \<Rightarrow> 'r list \<Rightarrow> nat" where
  "countWhere P rows = length (filter P rows)"

lemma updateWhere_Nil [simp]: "updateWhere P f [] = []"
  by (simp add: updateWhere_def)

lemma updateWhere_Cons [simp]:
  "updateWhere P f (r # rows) = (if P r then f r else r) # updateWhere P f rows"
  by (simp add: updateWhere_def)

lemma deleteWhere_Nil [simp]: "deleteWhere P [] = []"
  by (simp add: deleteWhere_def)

lemma deleteWhere_Cons [simp]:
  "deleteWhere P (r # rows) = (if P r then deleteWhere P rows else r # deleteWhere P rows)"
  by (simp add: deleteWhere_def)

lemma set_deleteWhere [simp]: "set (deleteWhere P rows) = {r \<in> set rows. \<not> P r}"
  by (auto simp: deleteWhere_def)

lemma set_updateWhere: "set (updateWhere P f rows) = (\<lambda>r. if P r then f r else r) ` set rows"
  by (simp add: updateWhere_def)

lemma length_updateWhere [simp]: "length (updateWhere P f rows) = length rows"
  by (simp add: updateWhere_def)

lemma map_updateWhere_key:
  "(\<And>r. P r \<Longrightarrow> k (f r) = k r) \<Longrightarrow> map k (updateWhere P f rows) = map k rows"
  by (simp add: updateWhere_def)

lemma updateWhere_none: "(\<And>r. r \<in> set rows \<Longrightarrow> \<not> P r) \<Longrightarrow> updateWhere P f rows = rows"
  by (induction rows) auto

lemma find_updateWhere_key:
  assumes "\<And>r. P r \<Longrightarrow> k (f r) = k r"
  shows "find (\<lambda>r. k r = x) (updateWhere P f rows) =
    map_option (\<lambda>r. if P r then f r else r) (find (\<lambda>r. k r = x) rows)"
  using assms by (induction rows) auto

lemma find_updateWhere_same:
  assumes "\<And>r. k (f r) = k r"
  shows "find (\<lambda>r. k r = x) (updateWhere (\<lambda>r. k r = y) f rows) =
    (if x = y then map_option f (find (\<lambda>r. k r = x) rows) else find (\<lambda>r. k r = x) rows)"
  using assms by (induction rows) auto

lemma distinct_map_deleteWhere: "distinct (map k rows) \<Longrightarrow> distinct (map k (deleteWhere P rows))"
  by (induction rows) auto

lemma find_append: "find P (xs @ ys) = (case find P xs of None \<Rightarrow> find P ys | Some x \<Rightarrow> Some x)"
  by (induction xs) auto

lemma find_SomeD: "find P xs = Some x \<Longrightarrow> x \<in> set xs \<and> P x"
  by (induction xs) (auto split: if_splits)

lemma find_NoneD: "find P xs = None \<Longrightarrow> x \<in> set xs \<Longrightarrow> \<not> P x"
  by (auto simp: find_None_iff)

lemma find_key_unique:
  "distinct (map k rows) \<Longrightarrow> r \<in> set rows \<Longrightarrow> find (\<lambda>y. k y = k r) rows = Some r"
  by (induction rows) (auto simp: rev_image_eqI)

lemma sum_list_updateWhere_key:
  fixes g :: "'r \<Rightarrow> int"
  assumes "distinct (map k rows)" and "r \<in> set rows"
  shows "sum_list (map g (updateWhere (\<lambda>y. k y = k r) f rows)) = sum_list (map g rows) - g r + g (f r)"
  using assms
proof (induction rows)
  case Nil
  then show ?case by simp
next
  case (Cons y ys)
  show ?case
  proof (cases "k y = k r")
    case True
    with Cons.prems have "y = r" by (auto simp: rev_image_eqI)
    moreover from Cons.prems True have "updateWhere (\<lambda>y. k y = k r) f ys = ys"
      by (intro updateWhere_none) (auto simp: image_iff)
    ultimately show ?thesis by simp
  next
    case False
    with Cons show ?thesis by auto
  qed
qed

lemma sum_list_deleteWhere:
  fixes g :: "'r \<Rightarrow> int"
  shows "sum_list (map g (deleteWhere P rows)) =
    sum_list (map g rows) - sum_list (map g (filter P rows))"
  by (induction rows) auto

lemma filter_key_single:
  "distinct (map k rows) \<Longrightarrow> r \<in> set rows \<Longrightarrow> filter (\<lambda>y. k y = k r) rows = [r]"
proof (induction rows)
  case Nil
  then show ?case by simp
next
  case (Cons y ys)
  show ?case
  proof (cases "k y = k r")
    case True
    with Cons.prems have "y = r" by (auto simp: rev_image_eqI)
    moreover from Cons.prems True have "filter (\<lambda>y. k y = k r) ys = []"
      by (auto simp: filter_empty_conv image_iff)
    ultimately show ?thesis by simp
  next
    case False
    with Cons show ?thesis by auto
  qed
qed

lemma key_in_filter:
  "distinct (map k rows) \<Longrightarrow> r \<in> set rows \<Longrightarrow> k r \<in> set (map k (filter Q rows)) \<longleftrightarrow> Q r"
  by (auto simp: distinct_map inj_on_def)

lemma find_unique:
  assumes "distinct (map k rows)" and "r \<in> set rows" and "P r" and "\<And>y. P y \<Longrightarrow> k y = k r"
  shows "find P rows = Some r"
proof -
  have "find P rows \<noteq> None" using assms(2,3) by (auto simp: find_None_iff)
  then obtain y where y: "find P rows = Some y" by auto
  from find_SomeD [OF this] assms(4) have "y \<in> set rows" "k y = k r" by auto
  with assms(1,2) have "y = r" by (auto simp: distinct_map inj_on_def)
  with y show ?thesis by simp
qed

end
