(* ===== verification/Schema.thy ===== *)
theory Schema
  imports Prelude
begin

section \<open>The database rows and the backend's state\<close>

text \<open>
  The tables of \<^verbatim>\<open>backend/prisma/schema.prisma\<close> as records (the field prefixes \<open>usr_\<close>,
  \<open>gst_\<close>, \<open>fld_\<close>, \<open>fr_\<close>, \<open>ck_\<close>, \<open>job_\<close>, \<open>crd_\<close> stand for the model names), and the state
  \<open>backend\<close> that every service reads and writes: the tables, the keys held by the temp
  storage, and the external effects emitted so far (\<open>bk_outbox\<close>, oldest first).

  Dates are milliseconds since the epoch, as \<^verbatim>\<open>Date.getTime()\<close> gives them. \<^verbatim>\<open>BigInt\<close> columns
  are unbounded integers. Identifiers that \<^verbatim>\<open>uuid()\<close> or \<^verbatim>\<open>cuid()\<close> draw are arguments of the
  operations that create rows.
\<close>

subsection \<open>Errors\<close>

text \<open>
  The exceptions the services throw. \<open>Diverges\<close> stands for a loop that does not end.
\<close>

datatype backend_error =
    NotFoundException string
  | BadRequestException string
  | ConflictException string
  | NameConflict string "string option" "string option" "string option"
  | UnauthorizedException string
  | ForbiddenException string
  | GoneException string
  | HttpException int string
  | QuotaExceeded string string
  | PrismaP2025
  | PrismaP2002
  | SyntaxError string
  | PlainError string
  | Diverges

subsection \<open>Rows\<close>

datatype visibility = PRIVATE | PUBLIC_LINK | SHARED

datatype user_role = ADMIN | USER

datatype file_status = Uploading | Buffered | Buffer_failed | Complete | Aborted | Upload_timeout

datatype job_status = Job_pending | Job_collecting | Job_zipping | Job_splitting | Job_ready | Job_failed | Job_expired

record user_row =
  usr_id :: string
  usr_username :: string
  usr_email :: "string option"
  usr_password :: string
  usr_role :: user_role
  usr_quota :: int
  usr_usedSpace :: int
  usr_dailyBandwidthLimit :: "int option"
  usr_dailyBandwidthUsed :: int
  usr_lastBandwidthReset :: int
  usr_isCleaningTrash :: bool

record guest_row =
  gst_ipAddress :: string
  gst_dailyBandwidthUsed :: int
  gst_lastBandwidthReset :: int

record folder_row =
  fld_id :: string
  fld_name :: string
  fld_parentId :: "string option"
  fld_userId :: string
  fld_deletedAt :: "int option"
  fld_visibility :: visibility
  fld_shareToken :: "string option"
  fld_s3PublicAccess :: bool
  fld_s3PublicListObjects :: bool
  fld_createdAt :: int

record file_row =
  fr_id :: string
  fr_filename :: string
  fr_size :: int
  fr_mimeType :: string
  fr_telegramFileId :: "string option"
  fr_telegramMessageId :: "int option"
  fr_botId :: int
  fr_isChunked :: bool
  fr_totalChunks :: int
  fr_status :: file_status
  fr_tempStorageKey :: "string option"
  fr_bufferRetries :: int
  fr_visibility :: visibility
  fr_shareToken :: "string option"
  fr_downloadLimit24h :: "int option"
  fr_downloads24h :: int
  fr_bandwidthLimit24h :: "int option"
  fr_bandwidthUsed24h :: int
  fr_lastDownloadReset :: int
  fr_isEncrypted :: bool
  fr_encryptionAlgo :: "string option"
  fr_encryptionIv :: "string option"
  fr_encryptedKey :: "string option"
  fr_etag :: "string option"
  fr_deletedAt :: "int option"
  fr_telegramDeleted :: bool
  fr_telegramDeleteFailed :: bool
  fr_deleteRetryCount :: int
  fr_lastRetryAt :: "int option"
  fr_folderId :: "string option"
  fr_userId :: string
  fr_createdAt :: int
  fr_updatedAt :: int

record chunk_row =
  ck_id :: string
  ck_fileId :: string
  ck_chunkIndex :: int
  ck_size :: int
  ck_telegramFileId :: "string option"
  ck_telegramMessageId :: "int option"
  ck_botId :: int
  ck_encryptionIv :: "string option"
  ck_etag :: "string option"
  ck_tempStorageKey :: "string option"
  ck_status :: file_status

record zip_part =
  zp_key :: string
  zp_size :: int
  zp_index :: int

record job_row =
  job_id :: string
  job_userId :: "string option"
  job_shareToken :: "string option"
  job_status :: job_status
  job_fileIds :: "string list"
  job_folderIds :: "string list"
  job_totalFiles :: int
  job_processedFiles :: int
  job_totalSize :: int
  job_zipParts :: "zip_part list"
  job_errorMessage :: "string option"
  job_expiresAt :: "int option"
  job_createdAt :: int

record cred_row =
  crd_id :: string
  crd_userId :: string
  crd_accessKeyId :: string
  crd_secretAccessKey :: string
  crd_label :: string
  crd_isActive :: bool

text \<open>The \<^verbatim>\<open>@default\<close> values of the schema, for the rows that operations create.\<close>

definition newUserRow :: "string \<Rightarrow> string \<Rightarrow> string \<Rightarrow> int \<Rightarrow> user_row" where
  "newUserRow uid username password now = \<lparr>usr_id = uid, usr_username = username, usr_email = None,
     usr_password = password, usr_role = USER, usr_quota = 15000000000, usr_usedSpace = 0,
     usr_dailyBandwidthLimit = None, usr_dailyBandwidthUsed = 0, usr_lastBandwidthReset = now,
     usr_isCleaningTrash = False\<rparr>"

definition newFolderRow :: "string \<Rightarrow> string \<Rightarrow> string option \<Rightarrow> string \<Rightarrow> int \<Rightarrow> folder_row" where
  "newFolderRow fid name pid uid now = \<lparr>fld_id = fid, fld_name = name, fld_parentId = pid,
     fld_userId = uid, fld_deletedAt = None, fld_visibility = PRIVATE, fld_shareToken = None,
     fld_s3PublicAccess = False, fld_s3PublicListObjects = False, fld_createdAt = now\<rparr>"

definition newFileRow :: "string \<Rightarrow> string \<Rightarrow> int \<Rightarrow> string option \<Rightarrow> string \<Rightarrow> int \<Rightarrow> file_row" where
  "newFileRow fid name sz folder uid now = \<lparr>fr_id = fid, fr_filename = name, fr_size = sz,
     fr_mimeType = ''application/octet-stream'', fr_telegramFileId = None, fr_telegramMessageId = None, fr_botId = 0,
     fr_isChunked = False, fr_totalChunks = 1, fr_status = Complete, fr_tempStorageKey = None,
     fr_bufferRetries = 0, fr_visibility = PRIVATE, fr_shareToken = None, fr_downloadLimit24h = None,
     fr_downloads24h = 0, fr_bandwidthLimit24h = None, fr_bandwidthUsed24h = 0,
     fr_lastDownloadReset = now, fr_isEncrypted = False, fr_encryptionAlgo = None,
     fr_encryptionIv = None, fr_encryptedKey = None, fr_etag = None, fr_deletedAt = None,
     fr_telegramDeleted = False, fr_telegramDeleteFailed = False, fr_deleteRetryCount = 0, fr_lastRetryAt = None,
     fr_folderId = folder, fr_userId = uid, fr_createdAt = now, fr_updatedAt = now\<rparr>"

definition newChunkRow :: "string \<Rightarrow> string \<Rightarrow> int \<Rightarrow> int \<Rightarrow> chunk_row" where
  "newChunkRow cid fid i sz = \<lparr>ck_id = cid, ck_fileId = fid, ck_chunkIndex = i, ck_size = sz,
     ck_telegramFileId = None, ck_telegramMessageId = None, ck_botId = 0, ck_encryptionIv = None,
     ck_etag = None, ck_tempStorageKey = None, ck_status = Complete\<rparr>"

subsection \<open>Effects outside the database\<close>

text \<open>
  What the services send to the systems around them: deletion events for Telegram
  messages, temp-storage deletions that are queued, S3 URLs to purge from the CDN, jobs put on a
  queue, progress events to the user's browser, tokens kept in Redis with what they allow and their seconds to live.
\<close>

datatype effect =
    FileDeleteEvent string "int list" int
  | TelegramPurge "(int \<times> int) list"
  | CdnPurge "string list"
  | QueueJob string string
  | ProgressEvent string string
  | SetHeader string string
  | SyncBandwidth string int "int option" int
  | OneTimeToken string string string string int

subsection \<open>The state\<close>

record backend =
  bk_users :: "user_row list"
  bk_guests :: "guest_row list"
  bk_settings :: "(string \<times> string) list"
  bk_folders :: "folder_row list"
  bk_files :: "file_row list"
  bk_chunks :: "chunk_row list"
  bk_jobs :: "job_row list"
  bk_creds :: "cred_row list"
  bk_temp :: "string list"
  bk_outbox :: "effect list"

definition emptyBackend :: backend where
  "emptyBackend = \<lparr>bk_users = [], bk_guests = [], bk_settings = [], bk_folders = [], bk_files = [],
     bk_chunks = [], bk_jobs = [], bk_creds = [], bk_temp = [], bk_outbox = []\<rparr>"

type_synonym 'a bop = "(backend, backend_error, 'a) op"

subsection \<open>Lookups by primary key and single-row updates\<close>

definition findUser :: "string \<Rightarrow> backend \<Rightarrow> user_row option" where
  "findUser uid b = find (\<lambda>u. usr_id u = uid) (bk_users b)"

definition findGuest :: "string \<Rightarrow> backend \<Rightarrow> guest_row option" where
  "findGuest ip b = find (\<lambda>g. gst_ipAddress g = ip) (bk_guests b)"

definition findFolder :: "string \<Rightarrow> backend \<Rightarrow> folder_row option" where
  "findFolder fid b = find (\<lambda>f. fld_id f = fid) (bk_folders b)"

definition findFile :: "string \<Rightarrow> backend \<Rightarrow> file_row option" where
  "findFile fid b = find (\<lambda>f. fr_id f = fid) (bk_files b)"

definition findSetting :: "string \<Rightarrow> backend \<Rightarrow> string option" where
  "findSetting k b = map_of (bk_settings b) k"

definition setUsers :: "(user_row list \<Rightarrow> user_row list) \<Rightarrow> backend \<Rightarrow> backend" where
  "setUsers f b = b\<lparr>bk_users := f (bk_users b)\<rparr>"

definition setFolders :: "(folder_row list \<Rightarrow> folder_row list) \<Rightarrow> backend \<Rightarrow> backend" where
  "setFolders f b = b\<lparr>bk_folders := f (bk_folders b)\<rparr>"

definition setFiles :: "(file_row list \<Rightarrow> file_row list) \<Rightarrow> backend \<Rightarrow> backend" where
  "setFiles f b = b\<lparr>bk_files := f (bk_files b)\<rparr>"

definition setChunks :: "(chunk_row list \<Rightarrow> chunk_row list) \<Rightarrow> backend \<Rightarrow> backend" where
  "setChunks f b = b\<lparr>bk_chunks := f (bk_chunks b)\<rparr>"

definition emit :: "effect list \<Rightarrow> backend \<Rightarrow> backend" where
  "emit es b = b\<lparr>bk_outbox := bk_outbox b @ es\<rparr>"

text \<open>\<^verbatim>\<open>prisma.user.update\<close> and its kin: \<^verbatim>\<open>P2025\<close> when no row has the key.\<close>

definition updateUser :: "string \<Rightarrow> (user_row \<Rightarrow> user_row) \<Rightarrow> unit bop" where
  "updateUser uid f = bindOp (getsOp (findUser uid)) (\<lambda>u. case u of
     None \<Rightarrow> throwOp PrismaP2025
   | Some _ \<Rightarrow> modifyOp (setUsers (updateWhere (\<lambda>u. usr_id u = uid) f)))"

definition updateGuest :: "string \<Rightarrow> (guest_row \<Rightarrow> guest_row) \<Rightarrow> unit bop" where
  "updateGuest ip f = bindOp (getsOp (findGuest ip)) (\<lambda>g. case g of
     None \<Rightarrow> throwOp PrismaP2025
   | Some _ \<Rightarrow> modifyOp (\<lambda>b. b\<lparr>bk_guests := updateWhere (\<lambda>g. gst_ipAddress g = ip) f (bk_guests b)\<rparr>))"

definition updateFolder :: "string \<Rightarrow> (folder_row \<Rightarrow> folder_row) \<Rightarrow> unit bop" where
  "updateFolder fid f = bindOp (getsOp (findFolder fid)) (\<lambda>x. case x of
     None \<Rightarrow> throwOp PrismaP2025
   | Some _ \<Rightarrow> modifyOp (setFolders (updateWhere (\<lambda>x. fld_id x = fid) f)))"

text \<open>
  The partial unique index \<^verbatim>\<open>file_record_active_unique_key\<close> of the migration
  \<^verbatim>\<open>20260807_partial_unique_active_file_record\<close>: no two live files of a user have the same name
  in the same folder. PostgreSQL takes \<^verbatim>\<open>NULL\<close>s of an index as distinct, so files at the root
  (\<^verbatim>\<open>folderId\<close> null) are not constrained. A write that would break the index fails with \<^verbatim>\<open>P2002\<close>.
\<close>

definition activeKeys :: "file_row list \<Rightarrow> (string \<times> string \<times> string) list" where
  "activeKeys fs = [(fr_userId f, the (fr_folderId f), fr_filename f).
     f \<leftarrow> fs, fr_deletedAt f = None \<and> fr_folderId f \<noteq> None]"

definition activeUnique :: "file_row list \<Rightarrow> bool" where
  "activeUnique fs \<longleftrightarrow> distinct (activeKeys fs)"

definition writeFiles :: "(file_row list \<Rightarrow> file_row list) \<Rightarrow> unit bop" where
  "writeFiles f = bindOp (getsOp (\<lambda>b. activeUnique (f (bk_files b)))) (\<lambda>ok.
     if ok then modifyOp (setFiles f) else throwOp PrismaP2002)"

definition updateFile :: "string \<Rightarrow> (file_row \<Rightarrow> file_row) \<Rightarrow> unit bop" where
  "updateFile fid f = bindOp (getsOp (findFile fid)) (\<lambda>x. case x of
     None \<Rightarrow> throwOp PrismaP2025
   | Some _ \<Rightarrow> writeFiles (updateWhere (\<lambda>x. fr_id x = fid) f))"

definition createFile :: "file_row \<Rightarrow> unit bop" where
  "createFile r = writeFiles (\<lambda>fs. fs @ [r])"

text \<open>
  The foreign key of \<^verbatim>\<open>FileChunk.fileId\<close> cascades: deleting files deletes their chunks.
\<close>

definition deleteFilesWhere :: "(file_row \<Rightarrow> bool) \<Rightarrow> backend \<Rightarrow> backend" where
  "deleteFilesWhere P b =
     (let dead = map fr_id (filter P (bk_files b)) in
      b\<lparr>bk_files := deleteWhere P (bk_files b),
        bk_chunks := deleteWhere (\<lambda>c. ck_fileId c \<in> set dead) (bk_chunks b)\<rparr>)"

lemma writeFiles_apply [op_simps]:
  "writeFiles f b = (if activeUnique (f (bk_files b)) then (Inr (), setFiles f b) else (Inl PrismaP2002, b))"
  by (simp add: writeFiles_def op_simps)

lemma updateUser_apply [op_simps]:
  "updateUser uid f b = (case findUser uid b of None \<Rightarrow> (Inl PrismaP2025, b)
     | Some _ \<Rightarrow> (Inr (), setUsers (updateWhere (\<lambda>u. usr_id u = uid) f) b))"
  by (simp add: updateUser_def op_simps split: option.split)

lemma updateGuest_apply [op_simps]:
  "updateGuest ip f b = (case findGuest ip b of None \<Rightarrow> (Inl PrismaP2025, b)
     | Some _ \<Rightarrow> (Inr (), b\<lparr>bk_guests := updateWhere (\<lambda>g. gst_ipAddress g = ip) f (bk_guests b)\<rparr>))"
  by (simp add: updateGuest_def op_simps split: option.split)

lemma updateFolder_apply [op_simps]:
  "updateFolder fid f b = (case findFolder fid b of None \<Rightarrow> (Inl PrismaP2025, b)
     | Some _ \<Rightarrow> (Inr (), setFolders (updateWhere (\<lambda>x. fld_id x = fid) f) b))"
  by (simp add: updateFolder_def op_simps split: option.split)

lemma updateFile_apply [op_simps]:
  "updateFile fid f b = (case findFile fid b of None \<Rightarrow> (Inl PrismaP2025, b)
     | Some _ \<Rightarrow> writeFiles (updateWhere (\<lambda>x. fr_id x = fid) f) b)"
  by (simp add: updateFile_def op_simps split: option.split)

text \<open>A best-effort write: its failure is logged and ignored.\<close>

definition bestEffort :: "unit bop \<Rightarrow> unit bop" where
  "bestEffort m = catchOp m (\<lambda>_. returnOp ())"

subsection \<open>What the updates leave alone\<close>

lemma set_tables [simp]:
  "bk_users (setUsers f b) = f (bk_users b)" "bk_files (setUsers f b) = bk_files b"
  "bk_folders (setUsers f b) = bk_folders b" "bk_chunks (setUsers f b) = bk_chunks b"
  "bk_users (setFiles g b) = bk_users b" "bk_files (setFiles g b) = g (bk_files b)"
  "bk_folders (setFiles g b) = bk_folders b" "bk_chunks (setFiles g b) = bk_chunks b"
  "bk_users (setFolders h b) = bk_users b" "bk_files (setFolders h b) = bk_files b"
  "bk_folders (setFolders h b) = h (bk_folders b)" "bk_chunks (setFolders h b) = bk_chunks b"
  "bk_users (setChunks k b) = bk_users b" "bk_files (setChunks k b) = bk_files b"
  "bk_folders (setChunks k b) = bk_folders b" "bk_chunks (setChunks k b) = k (bk_chunks b)"
  "bk_users (emit es b) = bk_users b" "bk_files (emit es b) = bk_files b"
  "bk_folders (emit es b) = bk_folders b" "bk_chunks (emit es b) = bk_chunks b"
  "bk_guests (setUsers f b) = bk_guests b" "bk_guests (setFiles g b) = bk_guests b"
  "bk_settings (setUsers f b) = bk_settings b" "bk_settings (setFiles g b) = bk_settings b"
  "bk_outbox (emit es b) = bk_outbox b @ es"
  by (simp_all add: setUsers_def setFiles_def setFolders_def setChunks_def emit_def)

lemma find_tables [simp]:
  "findFile fid (setUsers f b) = findFile fid b" "findFolder did (setUsers f b) = findFolder did b"
  "findUser uid (setFiles g b) = findUser uid b" "findFolder did (setFiles g b) = findFolder did b"
  "findUser uid (setFolders h b) = findUser uid b" "findFile fid (setFolders h b) = findFile fid b"
  "findUser uid (setChunks k b) = findUser uid b" "findFile fid (setChunks k b) = findFile fid b"
  "findUser uid (emit es b) = findUser uid b" "findFile fid (emit es b) = findFile fid b"
  by (simp_all add: findUser_def findFile_def findFolder_def)

lemma findUser_update:
  "(\<And>u. usr_id (f u) = usr_id u) \<Longrightarrow>
   findUser v (setUsers (updateWhere (\<lambda>u. usr_id u = uid) f) b) =
     (if v = uid then map_option f (findUser v b) else findUser v b)"
  by (simp add: findUser_def find_updateWhere_same [where k = usr_id])

lemma findFile_update:
  "(\<And>r. fr_id (f r) = fr_id r) \<Longrightarrow>
   findFile v (setFiles (updateWhere (\<lambda>r. fr_id r = fid) f) b) =
     (if v = fid then map_option f (findFile v b) else findFile v b)"
  by (simp add: findFile_def find_updateWhere_same [where k = fr_id])

lemma findFolder_update:
  "(\<And>r. fld_id (f r) = fld_id r) \<Longrightarrow>
   findFolder v (setFolders (updateWhere (\<lambda>r. fld_id r = fid) f) b) =
     (if v = fid then map_option f (findFolder v b) else findFolder v b)"
  by (simp add: findFolder_def find_updateWhere_same [where k = fld_id])

lemma activeKeys_Nil [simp]: "activeKeys [] = []"
  by (simp add: activeKeys_def)

lemma activeKeys_Cons [simp]: "activeKeys (f # fs) =
  (if fr_deletedAt f = None \<and> fr_folderId f \<noteq> None
   then (fr_userId f, the (fr_folderId f), fr_filename f) # activeKeys fs else activeKeys fs)"
  by (simp add: activeKeys_def)

text \<open>Writes that do not touch the indexed columns do not change the index.\<close>

lemma activeKeys_updateWhere [simp]:
  assumes "\<And>r. fr_userId (f r) = fr_userId r" and "\<And>r. fr_folderId (f r) = fr_folderId r"
    and "\<And>r. fr_filename (f r) = fr_filename r" and "\<And>r. fr_deletedAt (f r) = fr_deletedAt r"
  shows "activeKeys (updateWhere P f fs) = activeKeys fs"
  using assms by (induction fs) auto

end
