(* ===== verification/JsLib.thy ===== *)
theory JsLib
  imports Complex_Main Prelude
begin

section \<open>The parts of the JavaScript library the sources call\<close>

text \<open>
  \<^verbatim>\<open>String.prototype.trim/split/startsWith/includes\<close>, \<^verbatim>\<open>Number(s)\<close>, \<^verbatim>\<open>BigInt(s)\<close>, \<^verbatim>\<open>parseInt(s, 10)\<close>
  and \<^verbatim>\<open>Date.prototype.toISOString\<close>. Numbers read from text keep their exact value: the
  rounding of literals above \<^verbatim>\<open>2^53\<close> to a double is not modelled.
\<close>

subsection \<open>Strings\<close>

text \<open>An optional string that is truthy: neither \<^verbatim>\<open>null\<close> nor \<^verbatim>\<open>undefined\<close> nor empty.\<close>

definition present :: "string option \<Rightarrow> bool" where
  "present x \<longleftrightarrow> x \<noteq> None \<and> x \<noteq> Some []"

definition jsWhite :: "char \<Rightarrow> bool" where
  "jsWhite c \<longleftrightarrow> of_char c \<in> {9, 10, 11, 12, 13, 32, 160 :: nat}"

definition jsTrim :: "string \<Rightarrow> string" where
  "jsTrim s = rev (dropWhile jsWhite (rev (dropWhile jsWhite s)))"

definition jsStartsWith :: "string \<Rightarrow> string \<Rightarrow> bool" where
  "jsStartsWith p s \<longleftrightarrow> take (length p) s = p"

fun jsIncludes :: "string \<Rightarrow> string \<Rightarrow> bool" where
  "jsIncludes p [] = (p = [])"
| "jsIncludes p (c # s) = (jsStartsWith p (c # s) \<or> jsIncludes p s)"

fun jsSplit :: "char \<Rightarrow> string \<Rightarrow> string list" where
  "jsSplit d [] = [[]]"
| "jsSplit d (c # s) = (if c = d then [] # jsSplit d s
     else case jsSplit d s of [] \<Rightarrow> [[c]] | w # ws \<Rightarrow> (c # w) # ws)"

definition jsJoin :: "string \<Rightarrow> string list \<Rightarrow> string" where
  "jsJoin d ws = (case ws of [] \<Rightarrow> [] | w # r \<Rightarrow> w @ concat (map (\<lambda>x. d @ x) r))"

text \<open>The text before and after the first occurrence of a character (\<^verbatim>\<open>indexOf\<close> with \<^verbatim>\<open>slice\<close>).\<close>

fun jsCut :: "char \<Rightarrow> string \<Rightarrow> (string \<times> string) option" where
  "jsCut d [] = None"
| "jsCut d (c # s) = (if c = d then Some ([], s)
     else map_option (\<lambda>(a, b). (c # a, b)) (jsCut d s))"

lemma jsSplit_not_Nil [simp]: "jsSplit d s \<noteq> []"
  by (induction s) (auto split: list.split)

lemma jsSplit_join: "jsJoin [d] (jsSplit d s) = s"
proof (induction s)
  case Nil
  then show ?case by (simp add: jsJoin_def)
next
  case (Cons c s)
  obtain w ws where "jsSplit d s = w # ws"
    by (cases "jsSplit d s") auto
  with Cons show ?case by (auto simp: jsJoin_def)
qed

lemma jsSplit_pieces: "w \<in> set (jsSplit d s) \<Longrightarrow> d \<notin> set w"
proof (induction s arbitrary: w)
  case Nil
  then show ?case by simp
next
  case (Cons c s)
  obtain v vs where "jsSplit d s = v # vs"
    by (cases "jsSplit d s") auto
  with Cons show ?case by (auto split: if_splits)
qed

lemma jsSplit_prefix: "d \<notin> set w \<Longrightarrow> jsSplit d (w @ d # s) = w # jsSplit d s"
  by (induction w) (auto split: list.split)

lemma jsSplit_none: "d \<notin> set w \<Longrightarrow> jsSplit d w = [w]"
  by (induction w) (auto split: list.split)

lemma jsSplit_joined:
  "ws \<noteq> [] \<Longrightarrow> (\<And>w. w \<in> set ws \<Longrightarrow> d \<notin> set w) \<Longrightarrow> jsSplit d (jsJoin [d] ws) = ws"
proof (induction ws)
  case Nil
  then show ?case by simp
next
  case (Cons w ws)
  show ?case
  proof (cases ws)
    case Nil
    with Cons.prems show ?thesis by (simp add: jsJoin_def jsSplit_none)
  next
    case (Cons v vs)
    have "jsJoin [d] (w # ws) = w @ d # jsJoin [d] ws"
      using \<open>ws = v # vs\<close> by (simp add: jsJoin_def)
    with Cons.IH Cons.prems \<open>ws = v # vs\<close> show ?thesis
      by (simp add: jsSplit_prefix)
  qed
qed

lemma jsCut_Some: "jsCut d s = Some (a, b) \<Longrightarrow> s = a @ d # b \<and> d \<notin> set a"
  by (induction s arbitrary: a) (auto split: if_splits)

lemma jsCut_append: "d \<notin> set a \<Longrightarrow> jsCut d (a @ d # b) = Some (a, b)"
  by (induction a) auto

subsection \<open>Digits\<close>

definition jsDigit :: "char \<Rightarrow> bool" where
  "jsDigit c \<longleftrightarrow> 48 \<le> (of_char c :: nat) \<and> (of_char c :: nat) \<le> 57"

definition digitVal :: "char \<Rightarrow> nat" where
  "digitVal c = (let n = of_char c in if n \<le> 57 then n - 48 else if n \<le> 90 then n - 55 else n - 87)"

definition baseDigit :: "nat \<Rightarrow> char \<Rightarrow> bool" where
  "baseDigit b c \<longleftrightarrow> (let n = (of_char c :: nat) in
     (48 \<le> n \<and> n \<le> 57 \<or> 65 \<le> n \<and> n \<le> 90 \<or> 97 \<le> n \<and> n \<le> 122) \<and> digitVal c < b)"

definition baseVal :: "nat \<Rightarrow> string \<Rightarrow> nat" where
  "baseVal b s = foldl (\<lambda>a c. a * b + digitVal c) 0 s"

definition natDigit :: "nat \<Rightarrow> char" where
  "natDigit n = char_of (48 + n mod 10)"

fun showNat :: "nat \<Rightarrow> string" where
  "showNat n = (if n < 10 then [natDigit n] else showNat (n div 10) @ [natDigit n])"

declare showNat.simps [simp del]

definition showInt :: "int \<Rightarrow> string" where
  "showInt i = (if i < 0 then ''-'' @ showNat (nat (- i)) else showNat (nat i))"

lemma natDigit_of_char: "(of_char (natDigit n) :: nat) = 48 + n mod 10"
proof -
  have "n mod 10 < 10" by simp
  then have "48 + n mod 10 < 256" by linarith
  then show ?thesis
    by (simp add: natDigit_def of_char_of take_bit_nat_eq_self)
qed

lemma natDigit_digit [simp]: "jsDigit (natDigit n)"
  by (simp add: jsDigit_def natDigit_of_char)

lemma natDigit_val [simp]: "digitVal (natDigit n) = n mod 10"
proof -
  have "n mod 10 < 10" by simp
  then show ?thesis by (simp add: digitVal_def natDigit_of_char Let_def)
qed

lemma showNat_digits: "c \<in> set (showNat n) \<Longrightarrow> jsDigit c"
  by (induction n rule: showNat.induct) (subst (asm) (2) showNat.simps, auto split: if_splits)

lemma showNat_not_Nil [simp]: "showNat n \<noteq> []"
  by (subst showNat.simps) simp

lemma baseVal_showNat: "baseVal 10 (showNat n) = n"
proof (induction n rule: showNat.induct)
  case (1 n)
  show ?case
  proof (cases "n < 10")
    case True
    then show ?thesis by (subst showNat.simps) (simp add: baseVal_def)
  next
    case False
    with 1 have "baseVal 10 (showNat (n div 10)) = n div 10" by simp
    with False show ?thesis by (subst showNat.simps) (simp add: baseVal_def)
  qed
qed

subsection \<open>\<^verbatim>\<open>encodeURIComponent\<close>\<close>

text \<open>
  Strings that leave the program are their UTF-8 bytes, so every byte outside the unreserved
  characters becomes \<^verbatim>\<open>%XX\<close>.
\<close>

definition hexDigit :: "nat \<Rightarrow> char" where
  "hexDigit n = char_of (if n < 10 then 48 + n else 55 + n)"

definition percentByte :: "char \<Rightarrow> string" where
  "percentByte c = (let n = (of_char c :: nat) in [CHR ''%'', hexDigit (n div 16), hexDigit (n mod 16)])"

definition uriUnreserved :: "char \<Rightarrow> bool" where
  "uriUnreserved c \<longleftrightarrow> (let n = (of_char c :: nat) in 48 \<le> n \<and> n \<le> 57 \<or> 65 \<le> n \<and> n \<le> 90 \<or> 97 \<le> n \<and> n \<le> 122) \<or>
     c \<in> set ''-_.!~*()'' \<or> (of_char c :: nat) = 39"

definition encodeURIComponent :: "string \<Rightarrow> string" where
  "encodeURIComponent s = concat (map (\<lambda>c. if uriUnreserved c then [c] else percentByte c) s)"

lemma encodeURIComponent_Nil [simp]: "encodeURIComponent [] = []"
  by (simp add: encodeURIComponent_def)

subsection \<open>Slices of a fixed size\<close>

text \<open>\<^verbatim>\<open>for (i = 0; i < xs.length; i += n) xs.slice(i, i + n)\<close>\<close>

fun batchesOf :: "nat \<Rightarrow> 'a list \<Rightarrow> 'a list list" where
  "batchesOf n xs = (if n = 0 \<or> xs = [] then [] else take n xs # batchesOf n (drop n xs))"

declare batchesOf.simps [simp del]

lemma concat_batchesOf: "0 < n \<Longrightarrow> concat (batchesOf n xs) = xs"
  by (induction n xs rule: batchesOf.induct) (subst batchesOf.simps, simp)

lemma batchesOf_length: "ys \<in> set (batchesOf n xs) \<Longrightarrow> ys \<noteq> [] \<and> length ys \<le> n"
  by (induction n xs rule: batchesOf.induct) (subst (asm) (2) batchesOf.simps, auto split: if_splits)

subsection \<open>Number literals\<close>

datatype js_num = JsNaN | JsFin rat | JsInf | JsNegInf

text \<open>A run of digits: its value and its length.\<close>

definition takeDigits :: "string \<Rightarrow> string \<times> string" where
  "takeDigits s = (takeWhile jsDigit s, dropWhile jsDigit s)"

definition parseExponent :: "string \<Rightarrow> int option" where
  "parseExponent s = (case s of
     [] \<Rightarrow> Some 0
   | e # r \<Rightarrow> if e \<noteq> CHR ''e'' \<and> e \<noteq> CHR ''E'' then None else
       (let (neg, ds) = (case r of c # q \<Rightarrow> if c = CHR ''-'' then (True, q) else if c = CHR ''+'' then (False, q) else (False, r)
          | [] \<Rightarrow> (False, r)) in
        if ds = [] \<or> \<not> list_all jsDigit ds then None
        else Some (if neg then - int (baseVal 10 ds) else int (baseVal 10 ds))))"

definition scale10 :: "rat \<Rightarrow> int \<Rightarrow> rat" where
  "scale10 x e = (if e < 0 then x / of_int (10 ^ nat (- e)) else x * of_int (10 ^ nat e))"

text \<open>\<^verbatim>\<open>StrUnsignedDecimalLiteral\<close> of ECMA-262.\<close>

definition parseUnsigned :: "string \<Rightarrow> js_num" where
  "parseUnsigned s = (if s = ''Infinity'' then JsInf else
     (let (ip, r) = takeDigits s;
          (fp, r') = (case r of c # q \<Rightarrow> if c = CHR ''.'' then takeDigits q else ([], r) | [] \<Rightarrow> ([], r)) in
      if ip = [] \<and> fp = [] then JsNaN
      else case parseExponent r' of None \<Rightarrow> JsNaN
        | Some e \<Rightarrow> JsFin (scale10 (of_nat (baseVal 10 (ip @ fp))) (e - int (length fp)))))"

definition parsePrefixed :: "string \<Rightarrow> nat option" where
  "parsePrefixed s = (case s of
     z # x # ds \<Rightarrow>
       if z \<noteq> CHR ''0'' \<or> ds = [] then None else
       (let b = (if x = CHR ''x'' \<or> x = CHR ''X'' then 16 else if x = CHR ''o'' \<or> x = CHR ''O'' then 8
                 else if x = CHR ''b'' \<or> x = CHR ''B'' then 2 else 0) in
        if 0 < b \<and> list_all (baseDigit b) ds then Some (baseVal b ds) else None)
   | _ \<Rightarrow> None)"

definition jsNumber :: "string \<Rightarrow> js_num" where
  "jsNumber str = (let s = jsTrim str in
     if s = [] then JsFin 0 else
     case parsePrefixed s of Some n \<Rightarrow> JsFin (of_nat n)
     | None \<Rightarrow> (case s of
         c # r \<Rightarrow> if c = CHR ''-'' then
                   (case parseUnsigned r of JsFin x \<Rightarrow> JsFin (- x) | JsInf \<Rightarrow> JsNegInf | n \<Rightarrow> n)
                 else if c = CHR ''+'' then parseUnsigned r else parseUnsigned s
       | [] \<Rightarrow> JsFin 0))"

definition jsBigInt :: "string \<Rightarrow> int option" where
  "jsBigInt str = (let s = jsTrim str in
     if s = [] then Some 0 else
     case parsePrefixed s of Some n \<Rightarrow> Some (int n)
     | None \<Rightarrow> (let (neg, ds) = (case s of c # r \<Rightarrow> if c = CHR ''-'' then (True, r) else if c = CHR ''+'' then (False, r) else (False, s)
          | [] \<Rightarrow> (False, s)) in
         if ds = [] \<or> \<not> list_all jsDigit ds then None
         else Some (if neg then - int (baseVal 10 ds) else int (baseVal 10 ds))))"

text \<open>\<^verbatim>\<open>parseInt(s, 10)\<close>: leading white space, a sign, and the longest run of digits; \<open>None\<close> is NaN.\<close>

definition jsParseInt :: "string \<Rightarrow> int option" where
  "jsParseInt str = (let s = dropWhile jsWhite str;
      (neg, r) = (case s of c # q \<Rightarrow> if c = CHR ''-'' then (True, q) else if c = CHR ''+'' then (False, q) else (False, s)
          | [] \<Rightarrow> (False, s));
      ds = takeWhile jsDigit r in
      if ds = [] then None else Some (if neg then - int (baseVal 10 ds) else int (baseVal 10 ds)))"

text \<open>Comparison of numbers: every comparison with NaN is false.\<close>

fun jsLess :: "js_num \<Rightarrow> js_num \<Rightarrow> bool" where
  "jsLess JsNaN y = False"
| "jsLess x JsNaN = False"
| "jsLess (JsFin a) (JsFin b) = (a < b)"
| "jsLess JsNegInf y = (y \<noteq> JsNegInf)"
| "jsLess x JsInf = (x \<noteq> JsInf)"
| "jsLess (JsFin a) JsNegInf = False"
| "jsLess JsInf y = False"

text \<open>\<^verbatim>\<open>BigInt(x)\<close> of a number: a \<^verbatim>\<open>RangeError\<close> (\<open>None\<close>) unless it is an integer.\<close>

definition jsToBigInt :: "js_num \<Rightarrow> int option" where
  "jsToBigInt x = (case x of JsFin q \<Rightarrow> if of_int \<lfloor>q\<rfloor> = q then Some \<lfloor>q\<rfloor> else None | _ \<Rightarrow> None)"

lemma jsToBigInt_int [simp]: "jsToBigInt (JsFin (of_int n)) = Some n"
  by (simp add: jsToBigInt_def)

lemma showNat_hd: "0 < n \<Longrightarrow> hd (showNat n) \<noteq> CHR ''0''"
proof (induction n rule: showNat.induct)
  case (1 n)
  show ?case
  proof (cases "n < 10")
    case True
    have "natDigit n \<noteq> CHR ''0''"
      using natDigit_val [of n] True 1(2) by (auto simp: digitVal_def)
    with True show ?thesis by (subst showNat.simps) simp
  next
    case False
    then have "hd (showNat (n div 10)) \<noteq> CHR ''0''" using 1 by simp
    with False show ?thesis by (subst showNat.simps) simp
  qed
qed

lemma showNat_no_prefix: "parsePrefixed (showNat n) = None"
proof (cases "n < 10")
  case True
  then have "showNat n = [natDigit n]" by (subst showNat.simps) simp
  then show ?thesis by (simp add: parsePrefixed_def)
next
  case False
  then have "hd (showNat n) \<noteq> CHR ''0''" by (intro showNat_hd) simp
  then show ?thesis by (auto simp: parsePrefixed_def split: list.split)
qed

lemma jsTrim_showNat: "jsTrim (showNat n) = showNat n"
proof -
  have no: "\<not> jsWhite c" if "jsDigit c" for c
    using that by (auto simp: jsWhite_def jsDigit_def)
  have "dropWhile jsWhite (showNat n) = showNat n"
    using no [OF showNat_digits [of "hd (showNat n)" n]] by (cases "showNat n") auto
  moreover have "dropWhile jsWhite (rev (showNat n)) = rev (showNat n)"
    using no [OF showNat_digits [of "last (showNat n)" n]]
    by (cases "showNat n" rule: rev_cases) auto
  ultimately show ?thesis by (simp add: jsTrim_def)
qed

lemma showNat_digit_char: "jsDigit c \<Longrightarrow> c \<noteq> CHR ''-'' \<and> c \<noteq> CHR ''+'' \<and> c \<noteq> CHR ''I''"
  by (auto simp: jsDigit_def)

lemma takeWhile_digits_showNat:
  "takeWhile jsDigit (showNat n) = showNat n" "dropWhile jsDigit (showNat n) = []"
  by (simp_all add: takeWhile_eq_all_conv dropWhile_eq_Nil_conv showNat_digits)

lemma parseUnsigned_showNat: "parseUnsigned (showNat n) = JsFin (of_nat n)"
proof -
  have "showNat n \<noteq> ''Infinity''"
    using showNat_digits [of "CHR ''I''" n] by (auto simp: jsDigit_def)
  then show ?thesis
    by (simp add: parseUnsigned_def takeDigits_def takeWhile_digits_showNat parseExponent_def scale10_def
        baseVal_showNat)
qed

lemma showNat_Cons:
  obtains c r where "showNat n = c # r" "jsDigit c"
  using showNat_digits [of _ n] by (cases "showNat n") auto

lemma jsNumber_showNat [simp]: "jsNumber (showNat n) = JsFin (of_nat n)"
proof -
  obtain c r where c: "showNat n = c # r" "jsDigit c" by (rule showNat_Cons)
  show ?thesis
    using c showNat_digit_char [OF c(2)] parseUnsigned_showNat [of n] jsTrim_showNat [of n] showNat_no_prefix [of n]
    by (simp add: jsNumber_def Let_def)
qed

lemma jsBigInt_showNat [simp]: "jsBigInt (showNat n) = Some (int n)"
proof -
  obtain c r where c: "showNat n = c # r" "jsDigit c" by (rule showNat_Cons)
  have "list_all jsDigit (showNat n)"
    by (auto simp: list_all_iff showNat_digits)
  with c showNat_digit_char [OF c(2)] baseVal_showNat [of n] jsTrim_showNat [of n] showNat_no_prefix [of n]
  show ?thesis by (simp add: jsBigInt_def Let_def)
qed

lemma jsParseInt_showNat [simp]: "jsParseInt (showNat n) = Some (int n)"
proof -
  obtain c r where c: "showNat n = c # r" "jsDigit c" by (rule showNat_Cons)
  have "\<not> jsWhite c" using c(2) by (auto simp: jsWhite_def jsDigit_def)
  moreover have "takeWhile jsDigit r = r"
    using takeWhile_digits_showNat(1) [of n] c by simp
  ultimately show ?thesis
    using c showNat_digit_char [OF c(2)] baseVal_showNat [of n]
    by (simp add: jsParseInt_def Let_def takeWhile_eq_all_conv [THEN iffD2])
qed

subsection \<open>\<^verbatim>\<open>toISOString\<close>\<close>

text \<open>The proleptic Gregorian date of a day number, by eras of 400 years starting on 1 March.\<close>

definition civilFromDays :: "int \<Rightarrow> int \<times> int \<times> int" where
  "civilFromDays z0 = (let z = z0 + 719468; era = z div 146097; doe = z mod 146097;
      yoe = (doe - doe div 1460 + doe div 36524 - doe div 146096) div 365;
      doy = doe - (365 * yoe + yoe div 4 - yoe div 100);
      mp = (5 * doy + 2) div 153; d = doy - (153 * mp + 2) div 5 + 1;
      m = (if mp < 10 then mp + 3 else mp - 9); y = yoe + era * 400 + (if m \<le> 2 then 1 else 0) in (y, m, d))"

definition pad0 :: "nat \<Rightarrow> int \<Rightarrow> string" where
  "pad0 w n = (let s = showNat (nat n) in replicate (w - length s) (CHR ''0'') @ s)"

definition isoYear :: "int \<Rightarrow> string" where
  "isoYear y = (if 0 \<le> y \<and> y \<le> 9999 then pad0 4 y
     else if y < 0 then ''-'' @ pad0 6 (- y) else ''+'' @ pad0 6 y)"

definition toISOString :: "int \<Rightarrow> string" where
  "toISOString t = (let (y, m, d) = civilFromDays (t div 86400000); r = t mod 86400000 in
     isoYear y @ ''-'' @ pad0 2 m @ ''-'' @ pad0 2 d @ ''T'' @ pad0 2 (r div 3600000) @ '':'' @
     pad0 2 (r div 60000 mod 60) @ '':'' @ pad0 2 (r div 1000 mod 60) @ ''.'' @ pad0 3 (r mod 1000) @ ''Z'')"

text \<open>The part of an ISO date before its first colon: the date and the hour.\<close>

definition isoDateHour :: "int \<Rightarrow> string" where
  "isoDateHour t = (let (y, m, d) = civilFromDays (t div 86400000); r = t mod 86400000 in
     isoYear y @ ''-'' @ pad0 2 m @ ''-'' @ pad0 2 d @ ''T'' @ pad0 2 (r div 3600000))"

lemma pad0_chars: "c \<in> set (pad0 w n) \<Longrightarrow> jsDigit c"
  by (auto simp: pad0_def Let_def jsDigit_def dest: showNat_digits split: if_splits)

lemma isoDateHour_no_colon: "CHR '':'' \<notin> set (isoDateHour t)"
proof -
  have no: "CHR '':'' \<notin> set (pad0 w n)" for w n
    using pad0_chars [of "CHR '':''" w n] by (auto simp: jsDigit_def)
  show ?thesis
    by (simp add: isoDateHour_def isoYear_def Let_def no split: prod.split)
qed

lemma toISOString_hour:
  "\<exists>r. toISOString t = isoDateHour t @ CHR '':'' # r"
  by (simp add: toISOString_def isoDateHour_def Let_def split: prod.split)

end
