(* ===== verification/Bandwidth.thy ===== *)
theory Bandwidth
  imports Schema JsLib
begin

section \<open>Daily bandwidth accounting\<close>

text \<open>
  \<^verbatim>\<open>BandwidthLockService\<close> (backend/src/common/bandwidth-lock.service.ts). A download first
  locks its estimated size against the user's (or the guest IP's) daily window, then gives back
  what was not sent. Times are milliseconds, so the 24 hours of the code are
  \<open>86400000\<close>. The locale \<open>metered_account\<close> states the contract of a lock; it is interpreted
  for user accounts and for guest trackers.
\<close>

subsection \<open>Limits and windows\<close>

definition normalizeBandwidthLimit :: "int option \<Rightarrow> int option" where
  "normalizeBandwidthLimit limit = (case limit of None \<Rightarrow> None
     | Some l \<Rightarrow> if l \<le> 0 then None else Some l)"

definition windowElapsed :: "int \<Rightarrow> int \<Rightarrow> bool" where
  "windowElapsed lastReset now \<longleftrightarrow> now - lastReset \<ge> 24 * 3600000"

definition readBigIntSetting :: "string \<Rightarrow> int option bop" where
  "readBigIntSetting key = bindOp (getsOp (findSetting key)) (\<lambda>setting. case setting of
     None \<Rightarrow> returnOp None
   | Some v \<Rightarrow> (case jsBigInt v of None \<Rightarrow> throwOp (SyntaxError v) | Some l \<Rightarrow> returnOp (Some l)))"

definition throwLimitExceeded :: "string \<Rightarrow> int \<Rightarrow> 'a bop" where
  "throwLimitExceeded code lastReset =
     throwOp (PlainError (code @ '':'' @ toISOString (lastReset + 86400000)))"

text \<open>\<open>resolveUserUsage\<close> gives \<open>(requiresReset, currentUsed, limit)\<close>.\<close>

definition resolveUserUsage :: "user_row \<Rightarrow> int \<Rightarrow> (bool \<times> int \<times> int option) bop" where
  "resolveUserUsage user now =
     bindOp (case usr_dailyBandwidthLimit user of
         None \<Rightarrow> readBigIntSetting ''DEFAULT_DAILY_BANDWIDTH_LIMIT''
       | Some l \<Rightarrow> returnOp (Some l)) (\<lambda>limit.
     returnOp (windowElapsed (usr_lastBandwidthReset user) now,
       if windowElapsed (usr_lastBandwidthReset user) now then 0 else usr_dailyBandwidthUsed user,
       normalizeBandwidthLimit limit))"

definition resolveGuestUsage :: "int \<Rightarrow> int \<Rightarrow> int \<Rightarrow> bool \<times> int" where
  "resolveGuestUsage lastReset currentUsed now =
     (windowElapsed lastReset now, if windowElapsed lastReset now then 0 else currentUsed)"

subsection \<open>Locking\<close>

text \<open>
  The user lock in the two halves that are separated by an await of the database: the read
  with the check, which decides, and the write. A request runs the one and then the other;
  between them other requests may run.
\<close>

definition lockUserCheck :: "string \<Rightarrow> int \<Rightarrow> int \<Rightarrow> (bool \<times> int \<times> int option \<times> int) option bop" where
  "lockUserCheck userId lockSize now = bindOp (getsOp (findUser userId)) (\<lambda>row. case row of
     None \<Rightarrow> returnOp None
   | Some user \<Rightarrow> bindOp (resolveUserUsage user now) (\<lambda>(requiresReset, currentUsed, limit).
       if (case limit of None \<Rightarrow> False | Some l \<Rightarrow> currentUsed + lockSize > l)
       then throwLimitExceeded ''USER_BANDWIDTH_LIMIT'' (usr_lastBandwidthReset user)
       else returnOp (Some (requiresReset, currentUsed, limit, usr_lastBandwidthReset user))))"

definition lockUserWrite ::
  "string \<Rightarrow> int \<Rightarrow> int \<Rightarrow> bool \<times> int \<times> int option \<times> int \<Rightarrow> bool bop" where
  "lockUserWrite userId lockSize now decision = (case decision of
     (requiresReset, currentUsed, limit, lastReset) \<Rightarrow>
       thenOp (if requiresReset then
           updateUser userId (\<lambda>u. u\<lparr>usr_dailyBandwidthUsed := lockSize, usr_lastBandwidthReset := now\<rparr>)
         else if lockSize > 0 then
           updateUser userId (\<lambda>u. u\<lparr>usr_dailyBandwidthUsed := usr_dailyBandwidthUsed u + lockSize\<rparr>)
         else returnOp ())
       (thenOp (modifyOp (emit [SyncBandwidth userId
            (if requiresReset then lockSize else currentUsed + lockSize) limit
            (if requiresReset then now else lastReset)]))
        (returnOp requiresReset)))"

definition lockUserBandwidth :: "string \<Rightarrow> int \<Rightarrow> int \<Rightarrow> bool bop" where
  "lockUserBandwidth userId lockSize now = bindOp (lockUserCheck userId lockSize now) (\<lambda>d. case d of
     None \<Rightarrow> returnOp False
   | Some decision \<Rightarrow> lockUserWrite userId lockSize now decision)"

definition lockGuestBandwidth :: "string \<Rightarrow> int \<Rightarrow> int \<Rightarrow> bool bop" where
  "lockGuestBandwidth ip lockSize now =
     bindOp (readBigIntSetting ''DEFAULT_GUEST_BANDWIDTH'') (\<lambda>setting.
     (let limit = normalizeBandwidthLimit setting in
      bindOp (getsOp (findGuest ip)) (\<lambda>row. case row of
        Some tracker \<Rightarrow>
          (let (requiresReset, currentUsed) =
             resolveGuestUsage (gst_lastBandwidthReset tracker) (gst_dailyBandwidthUsed tracker) now in
           if (case limit of None \<Rightarrow> False | Some l \<Rightarrow> currentUsed + lockSize > l)
           then throwLimitExceeded ''GUEST_BANDWIDTH_LIMIT'' (gst_lastBandwidthReset tracker)
           else thenOp (updateGuest ip (\<lambda>g. if requiresReset
                 then g\<lparr>gst_dailyBandwidthUsed := lockSize, gst_lastBandwidthReset := now\<rparr>
                 else g\<lparr>gst_dailyBandwidthUsed := gst_dailyBandwidthUsed g + lockSize\<rparr>))
               (returnOp requiresReset))
      | None \<Rightarrow>
          if (case limit of None \<Rightarrow> False | Some l \<Rightarrow> lockSize > l)
          then throwLimitExceeded ''GUEST_BANDWIDTH_LIMIT'' now
          else thenOp (whenOp (lockSize > 0) (modifyOp (\<lambda>b. b\<lparr>bk_guests := bk_guests b @
                 [\<lparr>gst_ipAddress = ip, gst_dailyBandwidthUsed = lockSize, gst_lastBandwidthReset = now\<rparr>]\<rparr>)))
               (returnOp False))))"

definition lockBandwidth :: "string option \<Rightarrow> int \<Rightarrow> string \<Rightarrow> int \<Rightarrow> bool bop" where
  "lockBandwidth userId lockSize ip now = (case userId of
     Some u \<Rightarrow> if u = [] then lockGuestBandwidth ip lockSize now else lockUserBandwidth u lockSize now
   | None \<Rightarrow> lockGuestBandwidth ip lockSize now)"

subsection \<open>Snapshot, refund and reports\<close>

record file_quota =
  fq_downloads24h :: int
  fq_downloadLimit24h :: "int option"
  fq_bandwidthUsed24h :: int
  fq_bandwidthLimit24h :: "int option"
  fq_lastDownloadReset :: int

record quota_snapshot =
  qs_dailyUsed :: int
  qs_dailyLimit :: "int option"
  qs_lastReset :: int
  qs_isGuest :: bool
  qs_file :: "file_quota option"

definition snapshotDaily :: "string \<Rightarrow> string \<Rightarrow> int \<Rightarrow> (int \<times> int option \<times> int) bop" where
  "snapshotDaily userId ip now =
     (if userId \<noteq> [] then bindOp (getsOp (findUser userId)) (\<lambda>row. case row of
          None \<Rightarrow> returnOp (0, None, now)
        | Some user \<Rightarrow> bindOp (resolveUserUsage user now) (\<lambda>(requiresReset, currentUsed, limit).
            thenOp (whenOp requiresReset (bestEffort (updateUser userId
                (\<lambda>u. u\<lparr>usr_dailyBandwidthUsed := 0, usr_lastBandwidthReset := now\<rparr>))))
            (returnOp (currentUsed, limit, if requiresReset then now else usr_lastBandwidthReset user))))
      else if ip \<noteq> [] then bindOp (readBigIntSetting ''DEFAULT_GUEST_BANDWIDTH'') (\<lambda>setting.
        bindOp (getsOp (findGuest ip)) (\<lambda>row. case row of
          None \<Rightarrow> returnOp (0, normalizeBandwidthLimit setting, now)
        | Some tracker \<Rightarrow>
           (let (requiresReset, currentUsed) =
              resolveGuestUsage (gst_lastBandwidthReset tracker) (gst_dailyBandwidthUsed tracker) now in
            thenOp (whenOp requiresReset (bestEffort (updateGuest ip
                (\<lambda>g. g\<lparr>gst_dailyBandwidthUsed := 0, gst_lastBandwidthReset := now\<rparr>))))
            (returnOp (currentUsed, normalizeBandwidthLimit setting,
               if requiresReset then now else gst_lastBandwidthReset tracker)))))
      else returnOp (0, None, now))"

definition snapshotFile :: "string \<Rightarrow> int \<Rightarrow> file_quota option bop" where
  "snapshotFile fileId now =
     (if fileId = [] then returnOp None else bindOp (getsOp (findFile fileId)) (\<lambda>row. case row of
        None \<Rightarrow> returnOp None
      | Some f \<Rightarrow> (let requiresReset = windowElapsed (fr_lastDownloadReset f) now in
          thenOp (whenOp requiresReset (bestEffort (updateFile fileId
              (\<lambda>r. r\<lparr>fr_downloads24h := 0, fr_bandwidthUsed24h := 0, fr_lastDownloadReset := now\<rparr>))))
          (returnOp (Some \<lparr>fq_downloads24h = (if requiresReset then 0 else fr_downloads24h f),
             fq_downloadLimit24h = fr_downloadLimit24h f,
             fq_bandwidthUsed24h = (if requiresReset then 0 else fr_bandwidthUsed24h f),
             fq_bandwidthLimit24h = fr_bandwidthLimit24h f,
             fq_lastDownloadReset = (if requiresReset then now else fr_lastDownloadReset f)\<rparr>)))))"

definition getQuotaSnapshot :: "string \<Rightarrow> string \<Rightarrow> string \<Rightarrow> int \<Rightarrow> quota_snapshot bop" where
  "getQuotaSnapshot userId ip fileId now =
     bindOp (snapshotDaily userId ip now) (\<lambda>(dailyUsed, dailyLimit, lastReset).
     bindOp (snapshotFile fileId now) (\<lambda>file.
     returnOp \<lparr>qs_dailyUsed = dailyUsed, qs_dailyLimit = dailyLimit, qs_lastReset = lastReset,
       qs_isGuest = (userId = []), qs_file = file\<rparr>))"

definition refundBandwidth :: "string option \<Rightarrow> int \<Rightarrow> string \<Rightarrow> int \<Rightarrow> bool \<Rightarrow> unit bop" where
  "refundBandwidth userId estimatedSize ip amount requiresReset = (case userId of
     Some u \<Rightarrow> updateUser u (\<lambda>r. r\<lparr>usr_dailyBandwidthUsed :=
       (if requiresReset then estimatedSize - amount else usr_dailyBandwidthUsed r - amount)\<rparr>)
   | None \<Rightarrow> updateGuest ip (\<lambda>r. r\<lparr>gst_dailyBandwidthUsed :=
       (if requiresReset then estimatedSize - amount else gst_dailyBandwidthUsed r - amount)\<rparr>))"

definition reconcilePerFileCounters :: "string \<Rightarrow> int \<Rightarrow> int \<Rightarrow> bool \<Rightarrow> bool \<Rightarrow> unit bop" where
  "reconcilePerFileCounters fileId actualBytes estimatedSize countAsDownload forceCountDownload =
     updateFile fileId (\<lambda>r. r\<lparr>fr_bandwidthUsed24h := fr_bandwidthUsed24h r + actualBytes,
       fr_downloads24h := (if countAsDownload \<and> (forceCountDownload \<or> actualBytes \<ge> estimatedSize)
         then fr_downloads24h r + 1 else fr_downloads24h r)\<rparr>)"

record bw_entry =
  be_userId :: string
  be_fileId :: string
  be_actualBytes :: int
  be_countDownload :: bool

definition reportEntry :: "bw_entry \<Rightarrow> backend \<Rightarrow> backend" where
  "reportEntry e b =
     (let b1 = (if be_actualBytes e > 0 \<and> be_userId e \<noteq> []
        then setUsers (updateWhere (\<lambda>u. usr_id u = be_userId e)
          (\<lambda>u. u\<lparr>usr_dailyBandwidthUsed := usr_dailyBandwidthUsed u + be_actualBytes e\<rparr>)) b else b) in
      setFiles (updateWhere (\<lambda>r. fr_id r = be_fileId e) (\<lambda>r. r\<lparr>
          fr_bandwidthUsed24h := fr_bandwidthUsed24h r + be_actualBytes e,
          fr_downloads24h := (if be_countDownload e then fr_downloads24h r + 1 else fr_downloads24h r)\<rparr>)) b1)"

text \<open>The loop counts every entry: \<^verbatim>\<open>updateMany\<close> does not throw on the rows of the model.\<close>

definition reconcileFromReport :: "bw_entry list \<Rightarrow> int bop" where
  "reconcileFromReport entries =
     thenOp (forEachOp (\<lambda>e. modifyOp (reportEntry e)) entries) (returnOp (int (length entries)))"

subsection \<open>The contract of a metered account\<close>

text \<open>
  A run of lock requests, one after the other, each with its time and size: the sizes that
  were granted and the state at the end.
\<close>

fun chargeAll :: "(int \<Rightarrow> int \<Rightarrow> 's \<Rightarrow> ('e + bool) \<times> 's) \<Rightarrow> (int \<times> int) list \<Rightarrow> 's \<Rightarrow> int list \<times> 's" where
  "chargeAll charge [] s = ([], s)"
| "chargeAll charge ((t, n) # reqs) s = (case charge t n s of
     (Inl _, s') \<Rightarrow> chargeAll charge reqs s'
   | (Inr _, s') \<Rightarrow> (let (granted, s'') = chargeAll charge reqs s' in (n # granted, s'')))"

locale metered_account =
  fixes charge :: "int \<Rightarrow> int \<Rightarrow> 's \<Rightarrow> ('e + bool) \<times> 's"
    and used :: "'s \<Rightarrow> int"
    and limit :: "'s \<Rightarrow> int option"
    and active :: "int \<Rightarrow> 's \<Rightarrow> bool"
  assumes granted: "active t s \<Longrightarrow> 0 \<le> n \<Longrightarrow> charge t n s = (Inr r, s') \<Longrightarrow>
      used s' = used s + n \<and> limit s' = limit s \<and> (\<forall>t'. active t' s \<longrightarrow> active t' s') \<and>
      (\<forall>l. limit s = Some l \<longrightarrow> used s' \<le> l)"
    and refused: "active t s \<Longrightarrow> charge t n s = (Inl e, s') \<Longrightarrow>
      s' = s \<and> (\<exists>l. limit s = Some l \<and> l < used s + n)"
begin

lemma run:
  assumes "chargeAll charge reqs s = (granted_sizes, s')"
    and "\<forall>(t, n) \<in> set reqs. active t s \<and> 0 \<le> n"
  shows "used s' = used s + sum_list granted_sizes \<and> limit s' = limit s \<and>
    (\<forall>l. limit s = Some l \<longrightarrow> used s \<le> l \<longrightarrow> used s' \<le> l)"
  using assms
proof (induction reqs arbitrary: s granted_sizes)
  case Nil
  then show ?case by simp
next
  case (Cons req reqs)
  obtain t n where req: "req = (t, n)" by (cases req)
  obtain r s1 where c: "charge t n s = (r, s1)" by (cases "charge t n s")
  show ?case
  proof (cases r)
    case (Inl e)
    with c Cons.prems req refused [of t s n e s1] have same: "s1 = s" by auto
    have "chargeAll charge reqs s = (granted_sizes, s')"
      using Cons.prems(1) req c Inl same by simp
    from Cons.IH [OF this] Cons.prems(2) show ?thesis by auto
  next
    case (Inr x)
    obtain gs where gs: "chargeAll charge reqs s1 = (gs, s')" "granted_sizes = n # gs"
      using Cons.prems(1) Inr c req by (auto split: prod.splits)
    have one: "used s1 = used s + n" "limit s1 = limit s" "\<forall>t'. active t' s \<longrightarrow> active t' s1"
        "\<forall>l. limit s = Some l \<longrightarrow> used s1 \<le> l"
      using granted [of t s n x s1] c Inr Cons.prems(2) req by auto
    have "used s' = used s1 + sum_list gs \<and> limit s' = limit s1 \<and>
        (\<forall>l. limit s1 = Some l \<longrightarrow> used s1 \<le> l \<longrightarrow> used s' \<le> l)"
      by (rule Cons.IH [OF gs(1)]) (use Cons.prems(2) one(3) req in auto)
    with one gs(2) show ?thesis by auto
  qed
qed

end

subsection \<open>User accounts\<close>

definition userUsed :: "string \<Rightarrow> backend \<Rightarrow> int" where
  "userUsed uid b = (case findUser uid b of None \<Rightarrow> 0 | Some u \<Rightarrow> usr_dailyBandwidthUsed u)"

definition settingLimit :: "string \<Rightarrow> backend \<Rightarrow> int option" where
  "settingLimit key b = Option.bind (findSetting key b) jsBigInt"

definition settingReadable :: "string \<Rightarrow> backend \<Rightarrow> bool" where
  "settingReadable key b \<longleftrightarrow> (case findSetting key b of None \<Rightarrow> True | Some v \<Rightarrow> jsBigInt v \<noteq> None)"

definition userLimit :: "string \<Rightarrow> backend \<Rightarrow> int option" where
  "userLimit uid b = (case findUser uid b of None \<Rightarrow> None
     | Some u \<Rightarrow> normalizeBandwidthLimit (case usr_dailyBandwidthLimit u of
         Some l \<Rightarrow> Some l | None \<Rightarrow> settingLimit ''DEFAULT_DAILY_BANDWIDTH_LIMIT'' b))"

definition userWindowOpen :: "string \<Rightarrow> int \<Rightarrow> backend \<Rightarrow> bool" where
  "userWindowOpen uid now b \<longleftrightarrow> settingReadable ''DEFAULT_DAILY_BANDWIDTH_LIMIT'' b \<and>
     (case findUser uid b of None \<Rightarrow> False | Some u \<Rightarrow> \<not> windowElapsed (usr_lastBandwidthReset u) now)"

lemma readBigIntSetting_apply [op_simps]:
  "settingReadable key b \<Longrightarrow> readBigIntSetting key b = (Inr (settingLimit key b), b)"
  by (auto simp: readBigIntSetting_def settingReadable_def settingLimit_def op_simps split: option.splits)

lemma findSetting_set [simp]:
  "findSetting key (setUsers f b) = findSetting key b" "findSetting key (emit es b) = findSetting key b"
  "findSetting key (setFiles g b) = findSetting key b" "findSetting key (b\<lparr>bk_guests := gs\<rparr>) = findSetting key b"
  by (simp_all add: findSetting_def emit_def)

lemma settings_set [simp]:
  "settingLimit key (setUsers f b) = settingLimit key b" "settingLimit key (emit es b) = settingLimit key b"
  "settingLimit key (b\<lparr>bk_guests := gs\<rparr>) = settingLimit key b"
  "settingReadable key (setUsers f b) = settingReadable key b"
  "settingReadable key (emit es b) = settingReadable key b"
  "settingReadable key (b\<lparr>bk_guests := gs\<rparr>) = settingReadable key b"
  by (simp_all add: settingLimit_def settingReadable_def)

lemma resolveUserUsage_apply:
  assumes "settingReadable ''DEFAULT_DAILY_BANDWIDTH_LIMIT'' b" and "findUser uid b = Some u"
  shows "resolveUserUsage u now b = (Inr (windowElapsed (usr_lastBandwidthReset u) now,
     if windowElapsed (usr_lastBandwidthReset u) now then 0 else usr_dailyBandwidthUsed u, userLimit uid b), b)"
  using assms by (cases "usr_dailyBandwidthLimit u")
    (simp_all add: resolveUserUsage_def userLimit_def op_simps bindOp_def)

lemma userUsed_update:
  "findUser uid b = Some u \<Longrightarrow> (\<And>x. usr_id (f x) = usr_id x) \<Longrightarrow>
   userUsed v (setUsers (updateWhere (\<lambda>x. usr_id x = uid) f) b) =
     (if v = uid then usr_dailyBandwidthUsed (f u) else userUsed v b)"
  by (simp add: userUsed_def findUser_update)

lemma userUsed_found: "findUser uid b = Some u \<Longrightarrow> userUsed uid b = usr_dailyBandwidthUsed u"
  by (simp add: userUsed_def)

lemma user_emit [simp]:
  "userUsed uid (emit es b) = userUsed uid b" "userLimit uid (emit es b) = userLimit uid b"
  "userWindowOpen uid now (emit es b) = userWindowOpen uid now b"
  by (simp_all add: userUsed_def userLimit_def userWindowOpen_def split: option.split)

lemma userLimit_update:
  "(\<And>x. usr_id (f x) = usr_id x) \<Longrightarrow> (\<And>x. usr_dailyBandwidthLimit (f x) = usr_dailyBandwidthLimit x) \<Longrightarrow>
   userLimit v (setUsers (updateWhere (\<lambda>x. usr_id x = uid) f) b) = userLimit v b"
  by (simp add: userLimit_def findUser_update split: option.split)

lemma userWindowOpen_update:
  "(\<And>x. usr_id (f x) = usr_id x) \<Longrightarrow> (\<And>x. usr_lastBandwidthReset (f x) = usr_lastBandwidthReset x) \<Longrightarrow>
   userWindowOpen v now (setUsers (updateWhere (\<lambda>x. usr_id x = uid) f) b) = userWindowOpen v now b"
  by (simp add: userWindowOpen_def findUser_update split: option.split)

text \<open>What a lock does, on both branches of the window and of the limit.\<close>

lemma lockUserBandwidth_apply:
  assumes "settingReadable ''DEFAULT_DAILY_BANDWIDTH_LIMIT'' b" and "findUser uid b = Some u"
  shows "lockUserBandwidth uid n now b =
    (let reset = windowElapsed (usr_lastBandwidthReset u) now;
         used = (if reset then 0 else usr_dailyBandwidthUsed u) in
     if \<exists>l. userLimit uid b = Some l \<and> l < used + n
     then (Inl (PlainError (''USER_BANDWIDTH_LIMIT'' @ '':'' @ toISOString (usr_lastBandwidthReset u + 86400000))), b)
     else (Inr reset, emit [SyncBandwidth uid (used + n) (userLimit uid b)
              (if reset then now else usr_lastBandwidthReset u)]
       (if reset then setUsers (updateWhere (\<lambda>x. usr_id x = uid)
             (\<lambda>x. x\<lparr>usr_dailyBandwidthUsed := n, usr_lastBandwidthReset := now\<rparr>)) b
        else if 0 < n then setUsers (updateWhere (\<lambda>x. usr_id x = uid)
             (\<lambda>x. x\<lparr>usr_dailyBandwidthUsed := usr_dailyBandwidthUsed x + n\<rparr>)) b
        else b)))"
  by (cases "userLimit uid b")
    (auto simp: lockUserBandwidth_def lockUserCheck_def lockUserWrite_def assms op_simps Let_def bindOp_def thenOp_def
      resolveUserUsage_apply [OF assms] throwLimitExceeded_def)

lemma lockUserBandwidth_absent:
  "findUser uid b = None \<Longrightarrow> lockUserBandwidth uid n now b = (Inr False, b)"
  by (simp add: lockUserBandwidth_def lockUserCheck_def op_simps bindOp_def)

interpretation user_account: metered_account "\<lambda>t n. lockUserBandwidth uid n t" "userUsed uid" "userLimit uid" "userWindowOpen uid"
proof
  fix t s n r s'
  assume "userWindowOpen uid t s" and "0 \<le> n" and lock: "lockUserBandwidth uid n t s = (Inr r, s')"
  then obtain u where u: "findUser uid s = Some u" "\<not> windowElapsed (usr_lastBandwidthReset u) t"
      "settingReadable ''DEFAULT_DAILY_BANDWIDTH_LIMIT'' s"
    by (auto simp: userWindowOpen_def split: option.splits)
  show "userUsed uid s' = userUsed uid s + n \<and> userLimit uid s' = userLimit uid s \<and>
      (\<forall>t'. userWindowOpen uid t' s \<longrightarrow> userWindowOpen uid t' s') \<and>
      (\<forall>l. userLimit uid s = Some l \<longrightarrow> userUsed uid s' \<le> l)"
    using lock \<open>0 \<le> n\<close> u
    by (auto simp: lockUserBandwidth_apply Let_def userUsed_update userLimit_update userWindowOpen_update
        not_less userUsed_found split: if_splits)
next
  fix t s n e s'
  assume "userWindowOpen uid t s" and lock: "lockUserBandwidth uid n t s = (Inl e, s')"
  then obtain u where "findUser uid s = Some u" "\<not> windowElapsed (usr_lastBandwidthReset u) t"
      "settingReadable ''DEFAULT_DAILY_BANDWIDTH_LIMIT'' s"
    by (auto simp: userWindowOpen_def split: option.splits)
  with lock show "s' = s \<and> (\<exists>l. userLimit uid s = Some l \<and> l < userUsed uid s + n)"
    by (auto simp: lockUserBandwidth_apply Let_def userUsed_def split: if_splits)
qed

subsection \<open>Guest trackers\<close>

definition guestUsed :: "string \<Rightarrow> backend \<Rightarrow> int" where
  "guestUsed ip b = (case findGuest ip b of None \<Rightarrow> 0 | Some g \<Rightarrow> gst_dailyBandwidthUsed g)"

definition guestLimit :: "backend \<Rightarrow> int option" where
  "guestLimit b = normalizeBandwidthLimit (settingLimit ''DEFAULT_GUEST_BANDWIDTH'' b)"

definition guestWindowOpen :: "string \<Rightarrow> int \<Rightarrow> backend \<Rightarrow> bool" where
  "guestWindowOpen ip now b \<longleftrightarrow> settingReadable ''DEFAULT_GUEST_BANDWIDTH'' b \<and>
     (case findGuest ip b of None \<Rightarrow> False | Some g \<Rightarrow> \<not> windowElapsed (gst_lastBandwidthReset g) now)"

lemma findGuest_update:
  "(\<And>g. gst_ipAddress (f g) = gst_ipAddress g) \<Longrightarrow>
   findGuest v (b\<lparr>bk_guests := updateWhere (\<lambda>g. gst_ipAddress g = ip) f (bk_guests b)\<rparr>) =
     (if v = ip then map_option f (findGuest v b) else findGuest v b)"
  by (simp add: findGuest_def find_updateWhere_same [where k = gst_ipAddress])

lemma guestUsed_found: "findGuest ip b = Some g \<Longrightarrow> guestUsed ip b = gst_dailyBandwidthUsed g"
  by (simp add: guestUsed_def)

lemma guestLimit_guests [simp]: "guestLimit (b\<lparr>bk_guests := gs\<rparr>) = guestLimit b"
  by (simp add: guestLimit_def)

lemma lockGuestBandwidth_apply:
  assumes "settingReadable ''DEFAULT_GUEST_BANDWIDTH'' b" and "findGuest ip b = Some g"
    and "\<not> windowElapsed (gst_lastBandwidthReset g) now"
  shows "lockGuestBandwidth ip n now b =
    (if \<exists>l. guestLimit b = Some l \<and> l < gst_dailyBandwidthUsed g + n
     then (Inl (PlainError (''GUEST_BANDWIDTH_LIMIT'' @ '':'' @ toISOString (gst_lastBandwidthReset g + 86400000))), b)
     else (Inr False, b\<lparr>bk_guests := updateWhere (\<lambda>x. gst_ipAddress x = ip)
             (\<lambda>x. x\<lparr>gst_dailyBandwidthUsed := gst_dailyBandwidthUsed x + n\<rparr>) (bk_guests b)\<rparr>))"
  by (cases "guestLimit b")
    (auto simp: lockGuestBandwidth_def guestLimit_def resolveGuestUsage_def assms op_simps Let_def bindOp_def
      thenOp_def throwLimitExceeded_def)

interpretation guest_account: metered_account "\<lambda>t n. lockGuestBandwidth ip n t" "guestUsed ip" guestLimit "guestWindowOpen ip"
proof
  fix t s n r s'
  assume "guestWindowOpen ip t s" and lock: "lockGuestBandwidth ip n t s = (Inr r, s')"
  then obtain g where g: "findGuest ip s = Some g" "\<not> windowElapsed (gst_lastBandwidthReset g) t"
      "settingReadable ''DEFAULT_GUEST_BANDWIDTH'' s"
    by (auto simp: guestWindowOpen_def split: option.splits)
  have s': "s' = s\<lparr>bk_guests := updateWhere (\<lambda>x. gst_ipAddress x = ip)
             (\<lambda>x. x\<lparr>gst_dailyBandwidthUsed := gst_dailyBandwidthUsed x + n\<rparr>) (bk_guests s)\<rparr>"
      and fits: "\<forall>l. guestLimit s = Some l \<longrightarrow> gst_dailyBandwidthUsed g + n \<le> l"
    using lock g by (auto simp: lockGuestBandwidth_apply not_less split: if_splits)
  have "findGuest ip s' = Some (g\<lparr>gst_dailyBandwidthUsed := gst_dailyBandwidthUsed g + n\<rparr>)"
    using g by (simp add: s' findGuest_update)
  with g fits show "guestUsed ip s' = guestUsed ip s + n \<and> guestLimit s' = guestLimit s \<and>
      (\<forall>t'. guestWindowOpen ip t' s \<longrightarrow> guestWindowOpen ip t' s') \<and>
      (\<forall>l. guestLimit s = Some l \<longrightarrow> guestUsed ip s' \<le> l)"
    by (simp add: guestUsed_found guestWindowOpen_def) (simp add: s')
next
  fix t s n e s'
  assume "guestWindowOpen ip t s" and lock: "lockGuestBandwidth ip n t s = (Inl e, s')"
  then obtain g where "findGuest ip s = Some g" "\<not> windowElapsed (gst_lastBandwidthReset g) t"
      "settingReadable ''DEFAULT_GUEST_BANDWIDTH'' s"
    by (auto simp: guestWindowOpen_def split: option.splits)
  with lock show "s' = s \<and> (\<exists>l. guestLimit s = Some l \<and> l < guestUsed ip s + n)"
    by (auto simp: lockGuestBandwidth_apply guestUsed_found split: if_splits)
qed

subsection \<open>Both kinds of account\<close>

definition accountUsed :: "string option \<Rightarrow> string \<Rightarrow> backend \<Rightarrow> int" where
  "accountUsed userId ip = (case userId of Some u \<Rightarrow> if u = [] then guestUsed ip else userUsed u
     | None \<Rightarrow> guestUsed ip)"

definition accountLimit :: "string option \<Rightarrow> backend \<Rightarrow> int option" where
  "accountLimit userId = (case userId of Some u \<Rightarrow> if u = [] then guestLimit else userLimit u
     | None \<Rightarrow> guestLimit)"

definition accountOpen :: "string option \<Rightarrow> string \<Rightarrow> int \<Rightarrow> backend \<Rightarrow> bool" where
  "accountOpen userId ip = (case userId of Some u \<Rightarrow> if u = [] then guestWindowOpen ip else userWindowOpen u
     | None \<Rightarrow> guestWindowOpen ip)"

interpretation account: metered_account "\<lambda>t n. lockBandwidth userId n ip t" "accountUsed userId ip"
  "accountLimit userId" "accountOpen userId ip"
proof (cases "userId = None \<or> userId = Some []")
  case True
  then have "metered_account (\<lambda>t n. lockBandwidth userId n ip t) (accountUsed userId ip)
      (accountLimit userId) (accountOpen userId ip) =
    metered_account (\<lambda>t n. lockGuestBandwidth ip n t) (guestUsed ip) guestLimit (guestWindowOpen ip)"
    by (auto simp: lockBandwidth_def accountUsed_def accountLimit_def accountOpen_def)
  then show "metered_account (\<lambda>t n. lockBandwidth userId n ip t) (accountUsed userId ip)
      (accountLimit userId) (accountOpen userId ip)"
    using guest_account.metered_account_axioms by simp
next
  case False
  then obtain u where "userId = Some u" "u \<noteq> []" by (cases userId) auto
  then show "metered_account (\<lambda>t n. lockBandwidth userId n ip t) (accountUsed userId ip)
      (accountLimit userId) (accountOpen userId ip)"
    using user_account.metered_account_axioms
    by (simp add: lockBandwidth_def accountUsed_def accountLimit_def accountOpen_def)
qed

subsection \<open>Properties\<close>

definition meteredUser :: "int \<Rightarrow> int option \<Rightarrow> int \<Rightarrow> backend" where
  "meteredUser used limit lastReset = emptyBackend\<lparr>bk_users :=
     [(newUserRow ''u1'' ''alice'' ''x'' 0)\<lparr>usr_dailyBandwidthUsed := used, usr_dailyBandwidthLimit := limit,
        usr_lastBandwidthReset := lastReset\<rparr>]\<rparr>"

text \<open>
  C1. Locks of one account in one 24-hour window, run one after the other, count exactly the
  sizes that were granted, and they never push the account over its limit: an account at or
  below its limit stays so, for users and guests alike.
\<close>
theorem locks_within_limit:
  assumes "chargeAll (\<lambda>t n. lockBandwidth userId n ip t) reqs b = (granted, b')"
    and "\<forall>(t, n) \<in> set reqs. accountOpen userId ip t b \<and> 0 \<le> n"
  shows "accountUsed userId ip b' = accountUsed userId ip b + sum_list granted \<and>
    (\<forall>l. accountLimit userId b = Some l \<longrightarrow> accountUsed userId ip b \<le> l \<longrightarrow> accountUsed userId ip b' \<le> l)"
  using account.run [OF assms] by auto

theorem locks_within_limit_witness:
  "let b = meteredUser 10 (Some 100) 0;
       reqs = [(5, 50), (6, 41), (7, 40)];
       (granted, b') = chargeAll (\<lambda>t n. lockBandwidth (Some ''u1'') n ''10.0.0.1'' t) reqs b in
   granted = [50, 40] \<and> accountUsed (Some ''u1'') ''10.0.0.1'' b' = 100"
proof -
  let ?b = "meteredUser 10 (Some 100) 0"
  let ?reqs = "[(5, 50), (6, 41), (7, 40)] :: (int \<times> int) list"
  obtain b' where run: "chargeAll (\<lambda>t n. lockBandwidth (Some ''u1'') n ''10.0.0.1'' t) ?reqs ?b = ([50, 40], b')"
    by (simp add: meteredUser_def lockBandwidth_def lockUserBandwidth_apply findUser_def newUserRow_def emptyBackend_def
        settingReadable_def findSetting_def windowElapsed_def userLimit_def normalizeBandwidthLimit_def setUsers_def
        emit_def Let_def)
  have open_all: "\<forall>(t, n) \<in> set ?reqs. accountOpen (Some ''u1'') ''10.0.0.1'' t ?b \<and> 0 \<le> n"
    by (simp add: accountOpen_def userWindowOpen_def meteredUser_def findUser_def newUserRow_def emptyBackend_def
        settingReadable_def findSetting_def windowElapsed_def)
  have "accountUsed (Some ''u1'') ''10.0.0.1'' ?b = 10"
    by (simp add: accountUsed_def userUsed_def meteredUser_def findUser_def newUserRow_def emptyBackend_def)
  with run locks_within_limit [OF run open_all] show ?thesis by simp
qed

text \<open>
  The lock is not a guard against concurrent overspending, which the interceptor's comment
  says it is: the check and the increment are separate database calls, and two requests
  that both check before either writes are both granted, past the limit.
\<close>
theorem concurrent_locks_overspend:
  "\<exists>b limit d1 d2 b1 b2. userLimit ''u1'' b = Some limit \<and>
     lockUserCheck ''u1'' 60 5 b = (Inr (Some d1), b) \<and> lockUserCheck ''u1'' 60 6 b = (Inr (Some d2), b) \<and>
     lockUserWrite ''u1'' 60 5 d1 b = (Inr False, b1) \<and> lockUserWrite ''u1'' 60 6 d2 b1 = (Inr False, b2) \<and>
     userUsed ''u1'' b2 > limit"
proof -
  let ?b = "meteredUser 0 (Some 100) 0"
  let ?d = "(False, 0, Some 100, 0)"
  have "userLimit ''u1'' ?b = Some 100"
    by (simp add: userLimit_def meteredUser_def findUser_def newUserRow_def emptyBackend_def normalizeBandwidthLimit_def)
  moreover have check: "lockUserCheck ''u1'' 60 t ?b = (Inr (Some ?d), ?b)" if "t < 100" for t
    using that by (simp add: lockUserCheck_def meteredUser_def findUser_def newUserRow_def emptyBackend_def resolveUserUsage_def
        windowElapsed_def normalizeBandwidthLimit_def op_simps bindOp_def)
  moreover obtain b1 b2 where "lockUserWrite ''u1'' 60 5 ?d ?b = (Inr False, b1)"
      "lockUserWrite ''u1'' 60 6 ?d b1 = (Inr False, b2)" "userUsed ''u1'' b2 = 120"
    by (simp add: lockUserWrite_def meteredUser_def findUser_def newUserRow_def emptyBackend_def op_simps thenOp_def
        bindOp_def setUsers_def emit_def userUsed_def)
  ultimately show ?thesis
    by (intro exI [of _ ?b] exI [of _ 100] exI [of _ ?d] exI [of _ b1] exI [of _ b2]) simp
qed

text \<open>
  In an open window, a granted lock followed by the refund of what was not sent charges
  exactly the bytes sent, and no other user's counter moves.
\<close>
theorem lock_refund_charges_actual:
  assumes "userWindowOpen uid now b" and "0 \<le> actual" and "actual \<le> n"
    and "lockUserBandwidth uid n now b = (Inr requiresReset, b1)"
    and "refundBandwidth (Some uid) n ip (n - actual) requiresReset b1 = (r, b2)"
  shows "r = Inr () \<and> userUsed uid b2 = userUsed uid b + actual \<and>
    (\<forall>v. v \<noteq> uid \<longrightarrow> userUsed v b2 = userUsed v b)"
proof -
  from assms(1) obtain u where u: "findUser uid b = Some u" "\<not> windowElapsed (usr_lastBandwidthReset u) now"
      "settingReadable ''DEFAULT_DAILY_BANDWIDTH_LIMIT'' b"
    by (auto simp: userWindowOpen_def split: option.splits)
  from assms(4) u have reset: "\<not> requiresReset"
    by (auto simp: lockUserBandwidth_apply Let_def split: if_splits)
  from assms(4) u assms(2,3) have b1: "userUsed v b1 = (if v = uid then userUsed v b + n else userUsed v b)" for v
    by (auto simp: lockUserBandwidth_apply Let_def userUsed_update userUsed_found split: if_splits)
  from assms(4) u have "findUser uid b1 \<noteq> None"
    by (auto simp: lockUserBandwidth_apply Let_def findUser_update split: if_splits)
  then obtain u1 where u1: "findUser uid b1 = Some u1" by blast
  with assms(5) reset have r: "r = Inr ()" and b2: "b2 = setUsers (updateWhere (\<lambda>x. usr_id x = uid)
      (\<lambda>x. x\<lparr>usr_dailyBandwidthUsed := usr_dailyBandwidthUsed x - (n - actual)\<rparr>)) b1"
    by (auto simp: refundBandwidth_def op_simps)
  have "userUsed v b2 = (if v = uid then userUsed uid b1 - (n - actual) else userUsed v b1)" for v
    using u1 by (simp add: b2 userUsed_update userUsed_found)
  with b1 r show ?thesis by simp
qed

theorem lock_refund_charges_actual_witness:
  "\<exists>b1 b2. lockUserBandwidth ''u1'' 60 5 (meteredUser 7 (Some 100) 0) = (Inr False, b1) \<and>
     refundBandwidth (Some ''u1'') 60 ''10.0.0.1'' (60 - 20) False b1 = (Inr (), b2) \<and>
     userUsed ''u1'' b2 = userUsed ''u1'' (meteredUser 7 (Some 100) 0) + 20"
proof -
  let ?b = "meteredUser 7 (Some 100) 0"
  have open_b: "userWindowOpen ''u1'' 5 ?b"
    by (simp add: userWindowOpen_def meteredUser_def findUser_def newUserRow_def emptyBackend_def
        settingReadable_def findSetting_def windowElapsed_def)
  obtain b1 where lock: "lockUserBandwidth ''u1'' 60 5 ?b = (Inr False, b1)"
    by (simp add: meteredUser_def lockUserBandwidth_apply findUser_def newUserRow_def emptyBackend_def
        settingReadable_def findSetting_def windowElapsed_def userLimit_def normalizeBandwidthLimit_def Let_def)
  obtain r b2 where refund: "refundBandwidth (Some ''u1'') 60 ''10.0.0.1'' (60 - 20) False b1 = (r, b2)"
    by (cases "refundBandwidth (Some ''u1'') 60 ''10.0.0.1'' (60 - 20) False b1")
  from lock_refund_charges_actual [OF open_b _ _ lock refund] lock refund show ?thesis by auto
qed

text \<open>
  When the lock opened a new window, the refund overwrites the counter with the bytes sent,
  so what a request locked in between is lost: 70 bytes are granted, 40 of them are not counted.
\<close>
theorem refund_after_reset_loses_locks:
  "\<exists>b b1 b2 b3. lockUserBandwidth ''u1'' 30 90000000 b = (Inr True, b1) \<and>
     lockUserBandwidth ''u1'' 40 90000001 b1 = (Inr False, b2) \<and> userUsed ''u1'' b2 = 70 \<and>
     refundBandwidth (Some ''u1'') 30 ''10.0.0.1'' 10 True b2 = (Inr (), b3) \<and> userUsed ''u1'' b3 = 20"
proof -
  let ?b = "meteredUser 5 None 0"
  obtain b1 b2 b3 where "lockUserBandwidth ''u1'' 30 90000000 ?b = (Inr True, b1)"
     "lockUserBandwidth ''u1'' 40 90000001 b1 = (Inr False, b2)" "userUsed ''u1'' b2 = 70"
     "refundBandwidth (Some ''u1'') 30 ''10.0.0.1'' 10 True b2 = (Inr (), b3)" "userUsed ''u1'' b3 = 20"
    by (simp add: meteredUser_def lockUserBandwidth_apply refundBandwidth_def findUser_def newUserRow_def emptyBackend_def
        settingReadable_def settingLimit_def findSetting_def windowElapsed_def userLimit_def normalizeBandwidthLimit_def
        op_simps setUsers_def emit_def userUsed_def Let_def)
  then show ?thesis by blast
qed

lemma snapshotDaily_user:
  assumes "settingReadable ''DEFAULT_DAILY_BANDWIDTH_LIMIT'' b" and "findUser uid b = Some u" and "uid \<noteq> []"
  shows "snapshotDaily uid ip now b = (if windowElapsed (usr_lastBandwidthReset u) now
     then (Inr (0, userLimit uid b, now), setUsers (updateWhere (\<lambda>x. usr_id x = uid)
        (\<lambda>x. x\<lparr>usr_dailyBandwidthUsed := 0, usr_lastBandwidthReset := now\<rparr>)) b)
     else (Inr (usr_dailyBandwidthUsed u, userLimit uid b, usr_lastBandwidthReset u), b))"
  using assms by (auto simp: snapshotDaily_def op_simps bindOp_def thenOp_def whenOp_def bestEffort_def catchOp_def
      resolveUserUsage_apply)

lemma snapshotFile_apply:
  assumes "activeUnique (bk_files b)" and "findFile fid b = Some f" and "fid \<noteq> []"
  shows "snapshotFile fid now b =
    (let reset = windowElapsed (fr_lastDownloadReset f) now in
     (Inr (Some \<lparr>fq_downloads24h = (if reset then 0 else fr_downloads24h f),
        fq_downloadLimit24h = fr_downloadLimit24h f,
        fq_bandwidthUsed24h = (if reset then 0 else fr_bandwidthUsed24h f),
        fq_bandwidthLimit24h = fr_bandwidthLimit24h f,
        fq_lastDownloadReset = (if reset then now else fr_lastDownloadReset f)\<rparr>),
      if reset then setFiles (updateWhere (\<lambda>r. fr_id r = fid)
        (\<lambda>r. r\<lparr>fr_downloads24h := 0, fr_bandwidthUsed24h := 0, fr_lastDownloadReset := now\<rparr>)) b else b))"
  using assms by (auto simp: snapshotFile_def op_simps bindOp_def thenOp_def whenOp_def bestEffort_def catchOp_def
      Let_def activeUnique_def)

lemma snapshotFile_absent: "findFile fid b = None \<or> fid = [] \<Longrightarrow> snapshotFile fid now b = (Inr None, b)"
  by (auto simp: snapshotFile_def op_simps)

lemma settingReadable_setFiles [simp]: "settingReadable key (setFiles g b) = settingReadable key b"
  by (simp add: settingReadable_def)

lemma userLimit_setFiles [simp]: "userLimit uid (setFiles g b) = userLimit uid b"
  by (simp add: userLimit_def settingLimit_def split: option.split)

text \<open>
  A snapshot leaves the user in an open window that holds the values it reported, so one taken in
  the same window repeats it and writes nothing.
\<close>

lemma snapshotDaily_again:
  assumes "settingReadable ''DEFAULT_DAILY_BANDWIDTH_LIMIT'' b" and "findUser uid b = Some u" and "uid \<noteq> []"
    and "snapshotDaily uid ip t b = (Inr (n, l, lr), b1)" and "t' - lr < 86400000"
  shows "settingReadable ''DEFAULT_DAILY_BANDWIDTH_LIMIT'' b1 \<and> bk_files b1 = bk_files b \<and> l = userLimit uid b1 \<and>
    (\<exists>u1. findUser uid b1 = Some u1 \<and> \<not> windowElapsed (usr_lastBandwidthReset u1) t' \<and>
       n = usr_dailyBandwidthUsed u1 \<and> lr = usr_lastBandwidthReset u1)"
proof (cases "windowElapsed (usr_lastBandwidthReset u) t")
  case True
  let ?f = "\<lambda>x. x\<lparr>usr_dailyBandwidthUsed := 0, usr_lastBandwidthReset := t\<rparr>"
  from True assms have b1: "b1 = setUsers (updateWhere (\<lambda>x. usr_id x = uid) ?f) b"
      and res: "n = 0" "l = userLimit uid b" "lr = t"
    by (auto simp: snapshotDaily_user)
  then have "findUser uid b1 = Some (?f u)"
    using assms by (simp add: findUser_update)
  with b1 res assms show ?thesis by (simp add: windowElapsed_def userLimit_update)
next
  case False
  with assms show ?thesis by (auto simp: snapshotDaily_user windowElapsed_def)
qed

lemma snapshotFile_again:
  assumes "activeUnique (bk_files b)" and "snapshotFile fid t b = (Inr q, b1)"
    and "\<forall>f. q = Some f \<longrightarrow> t' - fq_lastDownloadReset f < 86400000"
  shows "snapshotFile fid t' b1 = (Inr q, b1)"
proof (cases "findFile fid b = None \<or> fid = []")
  case True
  with assms(2) show ?thesis by (auto simp: snapshotFile_absent)
next
  case False
  then obtain f where f: "findFile fid b = Some f" "fid \<noteq> []" by auto
  let ?g = "\<lambda>r. r\<lparr>fr_downloads24h := 0, fr_bandwidthUsed24h := 0, fr_lastDownloadReset := t\<rparr>"
  show ?thesis
  proof (cases "windowElapsed (fr_lastDownloadReset f) t")
    case True
    from True assms(1,2) f have b1: "b1 = setFiles (updateWhere (\<lambda>r. fr_id r = fid) ?g) b"
      by (auto simp: snapshotFile_apply)
    then have "findFile fid b1 = Some (?g f)" "activeUnique (bk_files b1)"
      using f assms(1) by (simp_all add: findFile_update activeUnique_def)
    with True assms f show ?thesis by (auto simp: snapshotFile_apply windowElapsed_def Let_def)
  next
    case False
    with assms f show ?thesis by (auto simp: snapshotFile_apply windowElapsed_def Let_def)
  qed
qed

text \<open>
  The quota snapshot is stable: taken again inside the windows it reported (the daily one of the
  user and the per-file one), it gives the same values and the same reset times, and writes
  nothing. The roll-over of an elapsed window is therefore persisted once.
\<close>
theorem quota_snapshot_stable:
  assumes "activeUnique (bk_files b)" and "settingReadable ''DEFAULT_DAILY_BANDWIDTH_LIMIT'' b"
    and "findUser uid b \<noteq> None" and "uid \<noteq> []"
    and "getQuotaSnapshot uid ip fid t b = (Inr q, b1)"
    and "t' - qs_lastReset q < 86400000"
    and "\<forall>f. qs_file q = Some f \<longrightarrow> t' - fq_lastDownloadReset f < 86400000"
  shows "getQuotaSnapshot uid ip fid t' b1 = (Inr q, b1)"
proof -
  obtain u where u: "findUser uid b = Some u" using assms(3) by auto
  obtain n l lr b0 where d: "snapshotDaily uid ip t b = (Inr (n, l, lr), b0)"
    using snapshotDaily_user [OF assms(2) u assms(4)] by (metis (full_types))
  from assms(5) d obtain fo where f: "snapshotFile fid t b0 = (Inr fo, b1)"
      and q: "q = \<lparr>qs_dailyUsed = n, qs_dailyLimit = l, qs_lastReset = lr, qs_isGuest = (uid = []), qs_file = fo\<rparr>"
    by (auto simp: getQuotaSnapshot_def op_simps bindOp_def split: prod.splits sum.splits)
  from snapshotDaily_again [OF assms(2) u assms(4) d, of t'] assms(6) q
  obtain u1 where d0: "bk_files b0 = bk_files b" "settingReadable ''DEFAULT_DAILY_BANDWIDTH_LIMIT'' b0" "l = userLimit uid b0"
      "findUser uid b0 = Some u1" "\<not> windowElapsed (usr_lastBandwidthReset u1) t'"
      "n = usr_dailyBandwidthUsed u1" "lr = usr_lastBandwidthReset u1" by auto
  from assms(1,7) f q d0(1) have f1: "snapshotFile fid t' b1 = (Inr fo, b1)"
    by (intro snapshotFile_again) auto
  have b1: "b1 = b0 \<or> (\<exists>g. b1 = setFiles g b0)"
  proof (cases "findFile fid b0 = None \<or> fid = []")
    case True
    with f show ?thesis by (auto simp: snapshotFile_absent)
  next
    case False
    then obtain x where "findFile fid b0 = Some x" "fid \<noteq> []" by auto
    with f assms(1) d0(1) show ?thesis by (auto simp: snapshotFile_apply Let_def split: if_splits)
  qed
  have "snapshotDaily uid ip t' b1 = (Inr (n, l, lr), b1)"
    using b1 d0 assms(4) by (auto simp: snapshotDaily_user)
  with f1 q show ?thesis by (simp add: getQuotaSnapshot_def op_simps bindOp_def)
qed

definition meteredFile :: backend where
  "meteredFile = (meteredUser 90 (Some 100) 0)\<lparr>bk_files :=
     [(newFileRow ''f1'' ''a.bin'' 50 None ''u1'' 0)\<lparr>fr_downloads24h := 3, fr_bandwidthUsed24h := 150\<rparr>]\<rparr>"

theorem quota_snapshot_stable_witness:
  "\<exists>q b1. getQuotaSnapshot ''u1'' ''10.0.0.1'' ''f1'' 90000000 meteredFile = (Inr q, b1) \<and>
     getQuotaSnapshot ''u1'' ''10.0.0.1'' ''f1'' 100000000 b1 = (Inr q, b1) \<and> qs_dailyUsed q = 0"
proof -
  have un: "activeUnique (bk_files meteredFile)"
    by (simp add: meteredFile_def activeUnique_def newFileRow_def)
  have readable: "settingReadable ''DEFAULT_DAILY_BANDWIDTH_LIMIT'' meteredFile"
    by (simp add: meteredFile_def meteredUser_def emptyBackend_def settingReadable_def findSetting_def)
  obtain u where u: "findUser ''u1'' meteredFile = Some u" "windowElapsed (usr_lastBandwidthReset u) 90000000"
    by (simp add: meteredFile_def meteredUser_def newUserRow_def findUser_def windowElapsed_def)
  obtain b0 where daily: "snapshotDaily ''u1'' ''10.0.0.1'' 90000000 meteredFile = (Inr (0, userLimit ''u1'' meteredFile, 90000000), b0)"
      and b0: "bk_files b0 = bk_files meteredFile"
    using snapshotDaily_user [OF readable u(1), of "''10.0.0.1''" 90000000] u(2) by simp
  obtain f where f: "findFile ''f1'' b0 = Some f" "windowElapsed (fr_lastDownloadReset f) 90000000"
    using b0 by (simp add: findFile_def meteredFile_def newFileRow_def windowElapsed_def)
  from un b0 f obtain b1 fq where fq: "snapshotFile ''f1'' 90000000 b0 = (Inr (Some fq), b1)" "fq_lastDownloadReset fq = 90000000"
    by (simp add: snapshotFile_apply)
  from daily fq obtain q where q: "getQuotaSnapshot ''u1'' ''10.0.0.1'' ''f1'' 90000000 meteredFile = (Inr q, b1)"
      "qs_dailyUsed q = 0" "qs_lastReset q = 90000000" "qs_file q = Some fq"
    by (simp add: getQuotaSnapshot_def op_simps bindOp_def)
  have "getQuotaSnapshot ''u1'' ''10.0.0.1'' ''f1'' 100000000 b1 = (Inr q, b1)"
    by (rule quota_snapshot_stable [OF un readable _ _ q(1)]) (use u q fq in auto)
  with q show ?thesis by blast
qed

end
