(* ===== verification/Interceptor.thy ===== *)
theory Interceptor
  imports Bandwidth
begin

section \<open>The bandwidth interceptor\<close>

text \<open>
  \<^verbatim>\<open>BandwidthInterceptor\<close> (backend/src/common/bandwidth.interceptor.ts), the path that runs when
  \<^verbatim>\<open>BANDWIDTH_OWNER=nest\<close>: the size a Range header asks for, the per-file quota, the lock, and the
  reconciliation when the response closes. The resolution of the request to a file and a user
  uses signed tokens, whose verification is an argument here (\<open>verifyStreamCookieToken\<close>,
  \<open>verifySignedToken\<close>).
\<close>

subsection \<open>Range headers\<close>

definition rangeError :: "backend_error + 'a" where
  "rangeError = Inl (PlainError ''RangeError'')"

definition orRangeError :: "int option \<Rightarrow> backend_error + int" where
  "orRangeError x = (case x of None \<Rightarrow> rangeError | Some n \<Rightarrow> Inr n)"

definition parseRangeSize :: "string option \<Rightarrow> int \<Rightarrow> backend_error + int" where
  "parseRangeSize rangeHeader fileSize = (case rangeHeader of None \<Rightarrow> Inr fileSize
   | Some h \<Rightarrow>
     if \<not> jsStartsWith ''bytes='' h then Inr fileSize else
     (let rangeStr = drop 6 h in
      if CHR '','' \<in> set rangeStr then Inr fileSize else
      case jsCut (CHR ''-'') rangeStr of None \<Rightarrow> Inr fileSize
      | Some (startStr, endStr) \<Rightarrow>
        if startStr = [] then
          (let suffixLen = jsNumber endStr in
           if suffixLen = JsNaN \<or> \<not> jsLess (JsFin 0) suffixLen then Inr fileSize
           else orRangeError (jsToBigInt (if jsLess suffixLen (JsFin (of_int fileSize)) then suffixLen
                  else JsFin (of_int fileSize))))
        else
          (let start = jsNumber startStr in
           if start = JsNaN \<or> jsLess start (JsFin 0) then Inr fileSize
           else if endStr = [] then map_sum id (\<lambda>n. fileSize - n) (orRangeError (jsToBigInt start))
           else
             (let end = jsNumber endStr in
              if end = JsNaN \<or> jsLess end start then Inr fileSize
              else case (start, end) of
                (JsFin a, JsFin b) \<Rightarrow> orRangeError (jsToBigInt (JsFin (b - a + 1)))
              | _ \<Rightarrow> rangeError))))"

subsection \<open>The quota check and the lock\<close>

record intercept_request =
  rq_id :: "string option"
  rq_userId :: "string option"
  rq_streamToken :: "string option"
  rq_token :: "string option"
  rq_shareToken :: "string option"
  rq_s3UserId :: "string option"
  rq_s3PublicAccess :: bool
  rq_uploadId :: "string option"
  rq_bucket :: "string option"
  rq_objectKey :: "string option"
  rq_range :: "string option"
  rq_ip :: string

record token_payload =
  tp_fid :: string
  tp_uid :: "string option"

record reconcile_data =
  rd_fileId :: string
  rd_userId :: "string option"
  rd_estimatedSize :: int
  rd_requiresReset :: bool
  rd_ip :: string
  rd_countAsDownload :: bool
  rd_range :: "string option"

definition hasS3UploadId :: "intercept_request \<Rightarrow> bool" where
  "hasS3UploadId req \<longleftrightarrow> present (rq_uploadId req)"

text \<open>\<^verbatim>\<open>key.split('/').filter(Boolean)\<close>\<close>

definition keyParts :: "string \<Rightarrow> string list" where
  "keyParts key = filter (\<lambda>p. p \<noteq> []) (jsSplit (CHR ''/'') key)"

fun walkActiveFolders :: "string \<Rightarrow> string \<Rightarrow> string list \<Rightarrow> backend \<Rightarrow> string option" where
  "walkActiveFolders userId cur [] b = Some cur"
| "walkActiveFolders userId cur (p # ps) b =
    (case find (\<lambda>f. fld_name f = p \<and> fld_parentId f = Some cur \<and> fld_userId f = userId \<and> fld_deletedAt f = None)
       (bk_folders b) of None \<Rightarrow> None | Some f \<Rightarrow> walkActiveFolders userId (fld_id f) ps b)"

definition resolveS3Object :: "string \<Rightarrow> intercept_request \<Rightarrow> backend \<Rightarrow> string option" where
  "resolveS3Object userId req b =
    (if \<not> present (rq_bucket req) \<or> \<not> present (rq_objectKey req) then None else
     (let parts = keyParts (the (rq_objectKey req)) in
      if parts = [] then None else
      case find (\<lambda>f. fld_userId f = userId \<and> Some (fld_name f) = rq_bucket req \<and> fld_parentId f = None \<and> fld_deletedAt f = None)
        (bk_folders b) of None \<Rightarrow> None
      | Some bucket \<Rightarrow> (case walkActiveFolders userId (fld_id bucket) (butlast parts) b of None \<Rightarrow> None
        | Some cur \<Rightarrow> map_option fr_id (find (\<lambda>f. fr_folderId f = Some cur \<and> fr_filename f = last parts \<and>
             fr_userId f = userId \<and> fr_deletedAt f = None \<and> fr_status f = Complete) (bk_files b)))))"

definition resolveFileAndUser ::
  "(string \<Rightarrow> string option) \<Rightarrow> (string \<Rightarrow> token_payload option) \<Rightarrow> intercept_request \<Rightarrow> backend \<Rightarrow>
   string option \<times> string option" where
  "resolveFileAndUser verifyStreamCookieToken verifySignedToken req b =
    (let fileId = rq_id req; userId = rq_userId req;
         userId = (if \<not> present userId \<and> present (rq_streamToken req) then
           (case verifyStreamCookieToken (the (rq_streamToken req)) of
              Some sub \<Rightarrow> if sub \<noteq> [] \<and> \<not> jsStartsWith ''guest:'' sub then Some sub else userId
            | None \<Rightarrow> userId) else userId);
         (fileId, userId) = (if \<not> present fileId \<and> present (rq_token req) then
           (case verifySignedToken (the (rq_token req)) of
              Some p \<Rightarrow> (Some (tp_fid p), if present (tp_uid p) then tp_uid p else userId)
            | None \<Rightarrow> (fileId, userId)) else (fileId, userId));
         fileId = (if \<not> present fileId then
           (let shareToken = (if rq_shareToken req \<noteq> None then rq_shareToken req else rq_token req) in
            if present shareToken then
              (case find (\<lambda>f. fr_shareToken f = shareToken) (bk_files b) of Some f \<Rightarrow> Some (fr_id f) | None \<Rightarrow> fileId)
            else fileId) else fileId) in
     if \<not> present fileId \<and> present (rq_s3UserId req) \<and> \<not> hasS3UploadId req then
       (case resolveS3Object (the (rq_s3UserId req)) req b of
          Some fid \<Rightarrow> (Some fid, if \<not> rq_s3PublicAccess req then rq_s3UserId req else userId)
        | None \<Rightarrow> (fileId, userId))
     else (fileId, userId))"

definition formatResetAt :: "int \<Rightarrow> string" where
  "formatResetAt lastReset = toISOString (lastReset + 86400000)"

definition checkFileQuota :: "file_row \<Rightarrow> int \<Rightarrow> bool \<Rightarrow> int \<Rightarrow> unit bop" where
  "checkFileQuota file estimatedSize isCheckOnly now =
    (if windowElapsed (fr_lastDownloadReset file) now \<and> \<not> isCheckOnly then
       bestEffort (updateFile (fr_id file)
         (\<lambda>r. r\<lparr>fr_downloads24h := 0, fr_bandwidthUsed24h := 0, fr_lastDownloadReset := now\<rparr>))
     else
       (let resetAt = formatResetAt (fr_lastDownloadReset file) in
        if (case fr_downloadLimit24h file of None \<Rightarrow> False | Some l \<Rightarrow> fr_downloads24h file \<ge> l) then
          thenOp (modifyOp (emit [SetHeader ''X-Bandwidth-Reset'' resetAt]))
            (throwOp (QuotaExceeded ''FILE_DOWNLOAD_LIMIT'' resetAt))
        else if (case fr_bandwidthLimit24h file of None \<Rightarrow> False | Some l \<Rightarrow> fr_bandwidthUsed24h file + estimatedSize > l) then
          thenOp (modifyOp (emit [SetHeader ''X-Bandwidth-Reset'' resetAt]))
            (throwOp (QuotaExceeded ''FILE_BANDWIDTH_LIMIT'' resetAt))
        else returnOp ()))"

text \<open>The handler of a failed lock: \<^verbatim>\<open>const [code, resetAt] = err.message.split(':')\<close>.\<close>

definition lockDenied :: "backend_error \<Rightarrow> 'a bop" where
  "lockDenied e = (case e of
     PlainError m \<Rightarrow> if jsIncludes ''BANDWIDTH_LIMIT'' m then
         (case jsSplit (CHR '':'') m of
            code # resetAt # _ \<Rightarrow>
              thenOp (modifyOp (emit [SetHeader ''Cache-Control'' ''no-store'', SetHeader ''X-Bandwidth-Reset'' resetAt]))
                (throwOp (QuotaExceeded code resetAt))
          | _ \<Rightarrow> throwOp (PlainError ''TypeError''))
       else throwOp e
   | _ \<Rightarrow> throwOp e)"

text \<open>\<open>intercept\<close> gives the data for the reconciliation, or \<open>None\<close> when the request passes unmetered.\<close>

definition intercept ::
  "bool \<Rightarrow> bool \<Rightarrow> (string \<Rightarrow> string option) \<Rightarrow> (string \<Rightarrow> token_payload option) \<Rightarrow> intercept_request \<Rightarrow> int \<Rightarrow>
   reconcile_data option bop" where
  "intercept ownerIsGo isCheckOnly verifyStreamCookieToken verifySignedToken req now =
    (if ownerIsGo then returnOp None else
     bindOp (getsOp (resolveFileAndUser verifyStreamCookieToken verifySignedToken req)) (\<lambda>(fileId, userId).
     if \<not> present fileId then returnOp None else
     bindOp (getsOp (findFile (the fileId))) (\<lambda>row. case row of None \<Rightarrow> returnOp None
     | Some file \<Rightarrow> (case parseRangeSize (rq_range req) (fr_size file) of Inl e \<Rightarrow> throwOp e
       | Inr estimatedSize \<Rightarrow>
         thenOp (checkFileQuota file estimatedSize isCheckOnly now)
         (if isCheckOnly then returnOp None else
          bindOp (catchOp (lockBandwidth userId estimatedSize (rq_ip req) now) lockDenied) (\<lambda>requiresReset.
          returnOp (Some \<lparr>rd_fileId = the fileId, rd_userId = userId, rd_estimatedSize = estimatedSize,
            rd_requiresReset = requiresReset, rd_ip = rq_ip req,
            rd_countAsDownload = (\<not> present (rq_range req)), rd_range = rq_range req\<rparr>)))))))"

subsection \<open>Reconciliation when the response closes\<close>

text \<open>
  What the close handler can see of the response: the bytes passed to \<^verbatim>\<open>write\<close> and \<^verbatim>\<open>end\<close>,
  the socket's byte counter before and after (absent without a socket), and the length of
  the serialised header.
\<close>

record response_view =
  rv_countedBytes :: int
  rv_socketStart :: "int option"
  rv_socketEnd :: "int option"
  rv_headerBytes :: int
  rv_cdnRevalidated :: bool

definition getSocketPayloadBytes :: "response_view \<Rightarrow> int option" where
  "getSocketPayloadBytes res = (case (rv_socketStart res, rv_socketEnd res) of
     (Some start, Some end0) \<Rightarrow>
       (let end = max 0 end0 in
        if end \<le> start then Some 0
        else if end - start \<le> rv_headerBytes res then Some 0
        else Some (end - start - rv_headerBytes res))
   | _ \<Rightarrow> None)"

definition resolveActualBytes :: "response_view \<Rightarrow> int \<Rightarrow> int" where
  "resolveActualBytes res estimatedSize =
    (let measured = (case getSocketPayloadBytes res of None \<Rightarrow> rv_countedBytes res | Some n \<Rightarrow> n) in
     if measured < estimatedSize then measured else estimatedSize)"

record bw_aggregate =
  ag_fileId :: string
  ag_actorKey :: string
  ag_startedAt :: int
  ag_lastUpdatedAt :: int
  ag_requestCount :: int
  ag_fullRequests :: int
  ag_rangeRequests :: int
  ag_zeroByteRequests :: int
  ag_totalLocked :: int
  ag_totalActual :: int
  ag_totalRefunded :: int

type_synonym aggregates = "(string \<times> bw_aggregate) list"

definition aggregateWindowMs :: int where
  "aggregateWindowMs = 30000"

definition pruneAggregates :: "int \<Rightarrow> aggregates \<Rightarrow> aggregates" where
  "pruneAggregates now ags = filter (\<lambda>(_, a). \<not> now - ag_lastUpdatedAt a \<ge> aggregateWindowMs) ags"

definition mapSet :: "string \<Rightarrow> bw_aggregate \<Rightarrow> aggregates \<Rightarrow> aggregates" where
  "mapSet k v m = (if k \<in> fst ` set m then map (\<lambda>(k', v'). (k', if k' = k then v else v')) m else m @ [(k, v)])"

definition freshAggregate :: "string \<Rightarrow> string \<Rightarrow> int \<Rightarrow> bw_aggregate" where
  "freshAggregate fileId actorKey now = \<lparr>ag_fileId = fileId, ag_actorKey = actorKey, ag_startedAt = now,
     ag_lastUpdatedAt = now, ag_requestCount = 0, ag_fullRequests = 0, ag_rangeRequests = 0, ag_zeroByteRequests = 0,
     ag_totalLocked = 0, ag_totalActual = 0, ag_totalRefunded = 0\<rparr>"

definition addToAggregate :: "reconcile_data \<Rightarrow> int \<Rightarrow> int \<Rightarrow> int \<Rightarrow> bw_aggregate \<Rightarrow> bw_aggregate" where
  "addToAggregate data actualBytes refund now a = a\<lparr>ag_lastUpdatedAt := now, ag_requestCount := ag_requestCount a + 1,
     ag_totalLocked := ag_totalLocked a + rd_estimatedSize data,
     ag_totalActual := ag_totalActual a + actualBytes, ag_totalRefunded := ag_totalRefunded a + refund,
     ag_rangeRequests := (if present (rd_range data) then ag_rangeRequests a + 1 else ag_rangeRequests a),
     ag_fullRequests := (if present (rd_range data) then ag_fullRequests a else ag_fullRequests a + 1),
     ag_zeroByteRequests := (if actualBytes = 0 then ag_zeroByteRequests a + 1 else ag_zeroByteRequests a)\<rparr>"

definition recordAggregate :: "reconcile_data \<Rightarrow> int \<Rightarrow> int \<Rightarrow> int \<Rightarrow> aggregates \<Rightarrow> aggregates" where
  "recordAggregate data actualBytes refund now ags0 =
    (let ags = pruneAggregates now ags0;
         actorKey = (case rd_userId data of Some u \<Rightarrow> u | None \<Rightarrow> ''guest:'' @ rd_ip data);
         key = rd_fileId data @ '':'' @ actorKey;
         fresh = freshAggregate (rd_fileId data) actorKey now;
         a = (case map_of ags key of Some e \<Rightarrow> if now - ag_lastUpdatedAt e < aggregateWindowMs then e else fresh
              | None \<Rightarrow> fresh) in
     mapSet key (addToAggregate data actualBytes refund now a) ags)"

text \<open>The close handler: refund, per-file counters, aggregate. The two writes are not awaited, so a failing one is ignored.\<close>

definition refundOf :: "reconcile_data \<Rightarrow> int \<Rightarrow> int" where
  "refundOf data actualBytes =
     (if actualBytes < rd_estimatedSize data then rd_estimatedSize data - actualBytes else 0)"

definition onClose :: "reconcile_data \<Rightarrow> response_view \<Rightarrow> int \<Rightarrow> aggregates \<Rightarrow> aggregates bop" where
  "onClose data res now ags =
    (let actualBytes = resolveActualBytes res (rd_estimatedSize data);
         refund = refundOf data actualBytes in
     thenOp (whenOp (refund > 0) (bestEffort (refundBandwidth (rd_userId data) (rd_estimatedSize data) (rd_ip data)
          refund (rd_requiresReset data))))
     (thenOp (bestEffort (reconcilePerFileCounters (rd_fileId data) actualBytes (rd_estimatedSize data)
          (rd_countAsDownload data) (rv_cdnRevalidated res)))
     (returnOp (recordAggregate data actualBytes refund now ags))))"

definition balanced :: "bw_aggregate \<Rightarrow> bool" where
  "balanced a \<longleftrightarrow> ag_requestCount a = ag_fullRequests a + ag_rangeRequests a \<and>
     0 \<le> ag_zeroByteRequests a \<and> ag_zeroByteRequests a \<le> ag_requestCount a \<and>
     ag_totalLocked a = ag_totalActual a + ag_totalRefunded a"

lemma resolveActualBytes_le: "resolveActualBytes res n \<le> n"
  by (simp add: resolveActualBytes_def Let_def)

lemma refund_actual: "refundOf data (resolveActualBytes res (rd_estimatedSize data)) =
    rd_estimatedSize data - resolveActualBytes res (rd_estimatedSize data)"
  using resolveActualBytes_le [of res "rd_estimatedSize data"] by (simp add: refundOf_def)

lemma mapSet_all:
  "(\<forall>(k, v) \<in> set m. Q v) \<Longrightarrow> Q x \<Longrightarrow> \<forall>(k, v) \<in> set (mapSet y x m). Q v"
  by (auto simp: mapSet_def)

lemma fresh_balanced [simp]: "balanced (freshAggregate fileId actorKey now)"
  by (simp add: balanced_def freshAggregate_def)

lemma addToAggregate_balanced:
  "balanced a \<Longrightarrow> refund = rd_estimatedSize data - actual \<Longrightarrow> balanced (addToAggregate data actual refund now a)"
  by (auto simp: balanced_def addToAggregate_def)

lemma recordAggregate_balanced:
  assumes "\<forall>(k, a) \<in> set ags. balanced a" and "refund = rd_estimatedSize data - actual"
  shows "\<forall>(k, a) \<in> set (recordAggregate data actual refund now ags). balanced a"
proof -
  let ?p = "pruneAggregates now ags"
  have p: "\<forall>(k, a) \<in> set ?p. balanced a" using assms(1) by (auto simp: pruneAggregates_def)
  have "balanced a" if "map_of ?p k = Some a" for k a
    using p map_of_SomeD [OF that] by auto
  with p assms(2) show ?thesis
    unfolding recordAggregate_def Let_def
    by (intro mapSet_all addToAggregate_balanced) (auto split: option.split)
qed

text \<open>
  The close handler keeps the traffic aggregates balanced: in each of them what was locked is
  what was sent plus what was refunded, and the requests are the full ones plus the range ones.
\<close>
theorem close_keeps_aggregates_balanced:
  assumes "\<forall>(k, a) \<in> set ags. balanced a" and "onClose data res now ags b = (Inr ags', b')"
  shows "\<forall>(k, a) \<in> set ags'. balanced a"
proof -
  have "ags' = recordAggregate data (resolveActualBytes res (rd_estimatedSize data))
      (refundOf data (resolveActualBytes res (rd_estimatedSize data))) now ags"
    using assms(2) by (auto simp: onClose_def Let_def op_unfold split: prod.splits sum.splits if_splits)
  with assms(1) show ?thesis by (simp add: recordAggregate_balanced refund_actual)
qed

definition demoClose :: "reconcile_data \<times> response_view" where
  "demoClose = (\<lparr>rd_fileId = ''f1'', rd_userId = None, rd_estimatedSize = 100, rd_requiresReset = False,
     rd_ip = ''10.0.0.1'', rd_countAsDownload = True, rd_range = None\<rparr>,
   \<lparr>rv_countedBytes = 60, rv_socketStart = Some 10, rv_socketEnd = Some 75, rv_headerBytes = 25, rv_cdnRevalidated = False\<rparr>)"

theorem close_keeps_aggregates_balanced_witness:
  "\<exists>ags b'. onClose (fst demoClose) (snd demoClose) 7 [] emptyBackend = (Inr ags, b') \<and>
     map (ag_totalActual \<circ> snd) ags = [40] \<and> (\<forall>(k, a) \<in> set ags. balanced a)"
proof -
  obtain ags b' where run: "onClose (fst demoClose) (snd demoClose) 7 [] emptyBackend = (Inr ags, b')"
      and sent: "map (ag_totalActual \<circ> snd) ags = [40]"
    by (simp add: demoClose_def onClose_def resolveActualBytes_def getSocketPayloadBytes_def recordAggregate_def
        pruneAggregates_def Let_def freshAggregate_def addToAggregate_def mapSet_def refundOf_def op_unfold
        refundBandwidth_def updateGuest_def reconcilePerFileCounters_def updateFile_def
        bestEffort_def findGuest_def findFile_def emptyBackend_def)
  have "\<forall>(k, a) \<in> set ags. balanced a"
    by (rule close_keeps_aggregates_balanced [OF _ run]) simp
  with run sent show ?thesis by (intro exI conjI)
qed

subsection \<open>What a range locks\<close>

lemma range_header:
  "jsStartsWith ''bytes='' (''bytes='' @ r)" "drop 6 (''bytes='' @ r) = r"
  by (simp_all add: jsStartsWith_def)

lemma showNat_no_sep: "CHR ''-'' \<notin> set (showNat n)" "CHR '','' \<notin> set (showNat n)"
  using showNat_digits [of "CHR ''-''" n] showNat_digits [of "CHR '',''" n] by (auto simp: jsDigit_def)

definition rangeText :: "nat option \<Rightarrow> nat option \<Rightarrow> string" where
  "rangeText a b = ''bytes='' @ (case a of None \<Rightarrow> [] | Some n \<Rightarrow> showNat n) @ ''-'' @
     (case b of None \<Rightarrow> [] | Some n \<Rightarrow> showNat n)"

lemma rat_int_nat: "rat_of_nat n = of_int (int n)"
  by simp

lemma jsToBigInt_nat [simp]: "jsToBigInt (JsFin (rat_of_nat n)) = Some (int n)"
  using jsToBigInt_int [of "int n"] by simp

lemma rat_less_int: "rat_of_nat n < of_int k \<longleftrightarrow> int n < k"
  by (metis of_int_less_iff of_int_of_nat_eq)

lemma parseRangeSize_both:
  "parseRangeSize (Some (rangeText (Some a) (Some b))) sz = Inr (if b < a then sz else int b - int a + 1)"
proof -
  have w: "jsToBigInt (JsFin (rat_of_nat b - rat_of_nat a + 1)) = Some (int b - int a + 1)"
    using jsToBigInt_int [of "int b - int a + 1"] by simp
  have cut: "jsCut (CHR ''-'') (showNat a @ CHR ''-'' # showNat b) = Some (showNat a, showNat b)"
    by (simp add: jsCut_append showNat_no_sep)
  show ?thesis
    using w by (simp add: parseRangeSize_def rangeText_def jsStartsWith_def cut showNat_no_sep orRangeError_def)
qed

lemma parseRangeSize_from:
  "parseRangeSize (Some (rangeText (Some a) None)) sz = Inr (sz - int a)"
proof -
  have cut: "jsCut (CHR ''-'') (showNat a @ ''-'') = Some (showNat a, [])"
    by (simp add: jsCut_append showNat_no_sep)
  show ?thesis
    by (simp add: parseRangeSize_def rangeText_def jsStartsWith_def cut showNat_no_sep orRangeError_def)
qed

lemma parseRangeSize_suffix:
  "parseRangeSize (Some (rangeText None (Some b))) sz = Inr (if b = 0 then sz else min (int b) sz)"
  by (simp add: parseRangeSize_def rangeText_def jsStartsWith_def showNat_no_sep orRangeError_def rat_less_int)

text \<open>
  The size locked for a range: \<^verbatim>\<open>bytes=a-b\<close>, \<^verbatim>\<open>bytes=a-\<close> and \<^verbatim>\<open>bytes=-n\<close> inside a file of the
  given size ask for \<open>b - a + 1\<close>, \<open>size - a\<close> and \<open>min n size\<close> bytes, at least one and at most the
  whole file.
\<close>
theorem range_size_inside_file:
  assumes "a \<le> b" and "int b < sz" and "0 < n"
  shows "parseRangeSize (Some (rangeText (Some a) (Some b))) sz = Inr (int b - int a + 1) \<and>
    parseRangeSize (Some (rangeText (Some a) None)) sz = Inr (sz - int a) \<and>
    parseRangeSize (Some (rangeText None (Some n))) sz = Inr (min (int n) sz) \<and>
    {int b - int a + 1, sz - int a, min (int n) sz} \<subseteq> {1..sz}"
  using assms by (simp add: parseRangeSize_both parseRangeSize_from parseRangeSize_suffix)

theorem range_size_inside_file_witness:
  "rangeText (Some 2) (Some 11) = ''bytes=2-11'' \<and>
   parseRangeSize (Some (rangeText (Some 2) (Some 11))) 20 = Inr 10 \<and>
   parseRangeSize (Some (rangeText (Some 2) None)) 20 = Inr 18 \<and>
   parseRangeSize (Some (rangeText None (Some 25))) 20 = Inr 20"
proof -
  have "rangeText (Some 2) (Some 11) = ''bytes=2-11''"
    by (code_simp)
  with range_size_inside_file [of 2 11 20 25] show ?thesis by simp
qed

definition guestDemo :: "int \<Rightarrow> string \<Rightarrow> backend" where
  "guestDemo used limit = emptyBackend\<lparr>
     bk_guests := [\<lparr>gst_ipAddress = ''10.0.0.1'', gst_dailyBandwidthUsed = used, gst_lastBandwidthReset = 0\<rparr>],
     bk_settings := [(''DEFAULT_GUEST_BANDWIDTH'', limit)],
     bk_files := [newFileRow ''f1'' ''a.bin'' 10 None ''u1'' 0]\<rparr>"

definition guestRequest :: "string option \<Rightarrow> intercept_request" where
  "guestRequest rg = \<lparr>rq_id = Some ''f1'', rq_userId = None, rq_streamToken = None, rq_token = None, rq_shareToken = None,
     rq_s3UserId = None, rq_s3PublicAccess = False, rq_uploadId = None, rq_bucket = None, rq_objectKey = None,
     rq_range = rg, rq_ip = ''10.0.0.1''\<rparr>"

lemma guestDemo_resolve:
  "resolveFileAndUser vs vt (guestRequest rg) (guestDemo used limit) = (Some ''f1'', None)"
  by (simp add: resolveFileAndUser_def guestRequest_def present_def)

lemma guestDemo_file:
  "findFile ''f1'' (guestDemo used limit) = Some (newFileRow ''f1'' ''a.bin'' 10 None ''u1'' 0)"
  by (simp add: guestDemo_def findFile_def newFileRow_def)

lemma guestDemo_guest:
  "findGuest ''10.0.0.1'' (guestDemo used lv) =
     Some \<lparr>gst_ipAddress = ''10.0.0.1'', gst_dailyBandwidthUsed = used, gst_lastBandwidthReset = 0\<rparr>"
  "settingReadable ''DEFAULT_GUEST_BANDWIDTH'' (guestDemo used (showNat l))"
  "guestLimit (guestDemo used (showNat l)) = (if l = 0 then None else Some (int l))"
  by (simp_all add: guestDemo_def findGuest_def settingReadable_def guestLimit_def settingLimit_def findSetting_def
      normalizeBandwidthLimit_def)

lemma guestDemo_quota:
  "checkFileQuota (newFileRow ''f1'' ''a.bin'' 10 None ''u1'' 0) n False 5 b = (Inr (), b)"
  by (simp add: checkFileQuota_def newFileRow_def windowElapsed_def op_simps)

lemma guestDemo_lock:
  assumes "l \<noteq> 0"
  shows "lockBandwidth None n ''10.0.0.1'' 5 (guestDemo used (showNat l)) =
    (if int l < used + n
     then (Inl (PlainError (''GUEST_BANDWIDTH_LIMIT'' @ '':'' @ toISOString 86400000)), guestDemo used (showNat l))
     else (Inr False, (guestDemo used (showNat l))\<lparr>bk_guests :=
        [\<lparr>gst_ipAddress = ''10.0.0.1'', gst_dailyBandwidthUsed = used + n, gst_lastBandwidthReset = 0\<rparr>]\<rparr>))"
  using assms by (simp add: lockBandwidth_def lockGuestBandwidth_apply guestDemo_guest windowElapsed_def)
    (simp add: guestDemo_def)

text \<open>
  An open-ended range that starts past the end of the file locks a negative size: with the
  in-process enforcement a guest who sends it is let through, and the lock lowers the guest's
  daily counter by the excess.
\<close>
theorem range_past_end_lowers_counter:
  "\<exists>data b'. intercept False False vs vt (guestRequest (Some (rangeText (Some 1000) None))) 5 (guestDemo 5000 (showNat 6000))
       = (Inr (Some data), b') \<and> rd_estimatedSize data = - 990 \<and> guestUsed ''10.0.0.1'' b' = 4010"
proof -
  have "rq_range (guestRequest rg) = rg" "rq_ip (guestRequest rg) = ''10.0.0.1''" for rg
    by (simp_all add: guestRequest_def)
  then show ?thesis
    by (simp add: intercept_def guestDemo_resolve guestDemo_file guestDemo_quota guestDemo_lock parseRangeSize_from
        op_unfold present_def) (simp add: newFileRow_def guestUsed_def findGuest_def)
qed

text \<open>
  A download over the limit is refused with 429, but the reset time that the client gets is cut at
  its first colon: the message is split at every \<^verbatim>\<open>:\<close>, and an ISO date has two, so the
  header carries the date and the hour only.
\<close>
theorem denied_reset_header_truncated:
  "\<exists>b'. intercept False False vs vt (guestRequest None) 5 (guestDemo 5995 (showNat 6000))
       = (Inl (QuotaExceeded ''GUEST_BANDWIDTH_LIMIT'' (isoDateHour 86400000)), b') \<and>
     SetHeader ''X-Bandwidth-Reset'' (isoDateHour 86400000) \<in> set (bk_outbox b') \<and>
     isoDateHour 86400000 = ''1970-01-02T00'' \<and> formatResetAt 0 = ''1970-01-02T00:00:00.000Z''"
proof -
  obtain r where r: "toISOString 86400000 = isoDateHour 86400000 @ CHR '':'' # r"
    using toISOString_hour by blast
  have split: "jsSplit (CHR '':'') (''GUEST_BANDWIDTH_LIMIT'' @ '':'' @ toISOString 86400000) =
      ''GUEST_BANDWIDTH_LIMIT'' # isoDateHour 86400000 # jsSplit (CHR '':'') r"
    using jsSplit_prefix [of "CHR '':''" "''GUEST_BANDWIDTH_LIMIT''"] jsSplit_prefix [OF isoDateHour_no_colon]
    by (simp add: r)
  have deny: "lockDenied (PlainError (''GUEST_BANDWIDTH_LIMIT'' @ '':'' @ toISOString 86400000)) b =
      (Inl (QuotaExceeded ''GUEST_BANDWIDTH_LIMIT'' (isoDateHour 86400000)),
       emit [SetHeader ''Cache-Control'' ''no-store'', SetHeader ''X-Bandwidth-Reset'' (isoDateHour 86400000)] b)" for b
    unfolding lockDenied_def by (simp only: split backend_error.case list.case) (simp add: jsStartsWith_def op_simps)
  have "rq_range (guestRequest rg) = rg" "rq_ip (guestRequest rg) = ''10.0.0.1''" for rg
    by (simp_all add: guestRequest_def)
  moreover have "fr_size (newFileRow ''f1'' ''a.bin'' 10 None ''u1'' 0) = 10"
    by (simp add: newFileRow_def)
  moreover have "isoDateHour 86400000 = ''1970-01-02T00''" "formatResetAt 0 = ''1970-01-02T00:00:00.000Z''"
    by code_simp+
  ultimately show ?thesis
    by (simp add: intercept_def guestDemo_resolve guestDemo_file guestDemo_quota guestDemo_lock parseRangeSize_def
        op_unfold present_def deny del: append_Cons append.simps)
qed

end
