(* ===== verification/Forest.thy ===== *)
theory Forest
  imports Schema JsLib
begin

section \<open>The folder forest\<close>

text \<open>
  The parent relation of the folder table, the walks up the parent chain that several services
  do with a \<^verbatim>\<open>while\<close> loop, the downward closure that the recursive queries and the cascading
  foreign keys compute, and the deletion of a folder with everything below it.

  A walk is a \<open>partial_function\<close>: its value \<open>None\<close> is a loop that never ends. In a forest
  (\<open>folderForest\<close>: ids are distinct and the parent relation has no cycle) every walk ends.
\<close>

subsection \<open>Forests\<close>

definition parentRel :: "folder_row list \<Rightarrow> (string \<times> string) set" where
  "parentRel fs = {(fld_id f, p) |f p. f \<in> set fs \<and> fld_parentId f = Some p}"

definition folderForest :: "backend \<Rightarrow> bool" where
  "folderForest b \<longleftrightarrow> distinct (map fld_id (bk_folders b)) \<and> acyclic (parentRel (bk_folders b))"

lemma finite_parentRel [simp]: "finite (parentRel fs)"
proof -
  have "parentRel fs \<subseteq> (\<lambda>f. (fld_id f, the (fld_parentId f))) ` set fs"
    by (force simp: parentRel_def)
  then show ?thesis using finite_surj by blast
qed

lemma parentRel_Nil [simp]: "parentRel [] = {}"
  by (simp add: parentRel_def)

lemma parentRel_Cons [simp]: "parentRel (f # fs) =
  (case fld_parentId f of None \<Rightarrow> parentRel fs | Some p \<Rightarrow> insert (fld_id f, p) (parentRel fs))"
  by (auto simp: parentRel_def split: option.split)

lemma acyclic_empty [simp]: "acyclic {}"
  by (simp add: acyclic_def)

lemma wf_parent: "folderForest b \<Longrightarrow> wf ((parentRel (bk_folders b))\<inverse>)"
  by (simp add: folderForest_def finite_acyclic_wf_converse)

lemma parentRel_find: "findFolder x b = Some f \<Longrightarrow> fld_parentId f = Some p \<Longrightarrow> (x, p) \<in> parentRel (bk_folders b)"
  by (auto simp: parentRel_def findFolder_def dest: find_SomeD)

lemma find_parentRel:
  assumes "distinct (map fld_id (bk_folders b))" and "(x, p) \<in> parentRel (bk_folders b)"
  obtains f where "findFolder x b = Some f" "fld_parentId f = Some p"
  using assms find_key_unique [of fld_id "bk_folders b"] by (auto simp: parentRel_def findFolder_def)

lemma findFolder_SomeD: "findFolder x b = Some f \<Longrightarrow> f \<in> set (bk_folders b) \<and> fld_id f = x"
  by (auto simp: findFolder_def dest: find_SomeD)

text \<open>Induction along the parent chain, the rule for every walk.\<close>

lemma parent_induct [consumes 1, case_names walk]:
  assumes "folderForest b"
    and "\<And>x. (\<And>f p. findFolder x b = Some f \<Longrightarrow> fld_parentId f = Some p \<Longrightarrow> P p) \<Longrightarrow> P x"
  shows "P x"
  using wf_parent [OF assms(1)]
proof (induction x rule: wf_induct_rule)
  case (less x)
  show ?case by (rule assms(2)) (auto intro: less parentRel_find)
qed

subsection \<open>Walks up the chain\<close>

text \<open>\<^verbatim>\<open>isDescendantOf\<close>: from a folder up to an ancestor, through live folders only.\<close>

partial_function (option) isDescendantOf :: "backend \<Rightarrow> string \<Rightarrow> string \<Rightarrow> bool option" where
  "isDescendantOf b currentId ancestorId =
    (if currentId = [] then Some False
     else if currentId = ancestorId then Some True
     else case findFolder currentId b of None \<Rightarrow> Some False
       | Some folder \<Rightarrow> if fld_deletedAt folder \<noteq> None then Some False
           else (case fld_parentId folder of None \<Rightarrow> Some False | Some p \<Rightarrow> isDescendantOf b p ancestorId))"

text \<open>The check of \<^verbatim>\<open>FolderService.move\<close> that the destination is not below the folder (deleted folders count).\<close>

partial_function (option) reachesFolder :: "backend \<Rightarrow> string \<Rightarrow> string \<Rightarrow> bool option" where
  "reachesFolder b currentParentId x =
    (if currentParentId = [] then Some False
     else if currentParentId = x then Some True
     else case findFolder currentParentId b of None \<Rightarrow> Some False
       | Some f \<Rightarrow> (case fld_parentId f of None \<Rightarrow> Some False | Some p \<Rightarrow> reachesFolder b p x))"

text \<open>The breadcrumbs of a user's folder: the chain of live folders up to the root.\<close>

partial_function (option) breadcrumbsFrom :: "backend \<Rightarrow> string \<Rightarrow> string \<Rightarrow> (string \<times> string) list \<Rightarrow> (string \<times> string) list option" where
  "breadcrumbsFrom b userId currentId acc =
    (if currentId = [] then Some acc
     else case findFolder currentId b of None \<Rightarrow> Some acc
       | Some f \<Rightarrow> if fld_userId f \<noteq> userId \<or> fld_deletedAt f \<noteq> None then Some acc
           else (case fld_parentId f of None \<Rightarrow> Some ((fld_id f, fld_name f) # acc)
             | Some p \<Rightarrow> breadcrumbsFrom b userId p ((fld_id f, fld_name f) # acc)))"

text \<open>The breadcrumbs inside a shared folder: the chain up to the root of the share.\<close>

partial_function (option) sharedCrumbsFrom :: "backend \<Rightarrow> string \<Rightarrow> string \<Rightarrow> (string \<times> string) list \<Rightarrow> (string \<times> string) list option" where
  "sharedCrumbsFrom b rootId bcId acc =
    (if bcId = [] \<or> bcId = rootId then Some acc
     else case findFolder bcId b of None \<Rightarrow> Some acc
       | Some f \<Rightarrow> (case fld_parentId f of None \<Rightarrow> Some ((fld_id f, fld_name f) # acc)
           | Some p \<Rightarrow> sharedCrumbsFrom b rootId p ((fld_id f, fld_name f) # acc)))"

lemma isDescendantOf_total: "folderForest b \<Longrightarrow> \<exists>r. isDescendantOf b x a = Some r"
proof (induction x rule: parent_induct)
  case (walk x)
  then show ?case
    by (subst isDescendantOf.simps) (auto split: option.split)
qed

lemma reachesFolder_total: "folderForest b \<Longrightarrow> \<exists>r. reachesFolder b x a = Some r"
proof (induction x rule: parent_induct)
  case (walk x)
  then show ?case
    by (subst reachesFolder.simps) (auto split: option.split)
qed

lemma breadcrumbsFrom_total: "folderForest b \<Longrightarrow> \<exists>r. breadcrumbsFrom b u x acc = Some r"
proof (induction x arbitrary: acc rule: parent_induct)
  case (walk x)
  then show ?case
    by (subst breadcrumbsFrom.simps) (auto split: option.split)
qed

lemma sharedCrumbsFrom_total: "folderForest b \<Longrightarrow> \<exists>r. sharedCrumbsFrom b rid x acc = Some r"
proof (induction x arbitrary: acc rule: parent_induct)
  case (walk x)
  then show ?case
    by (subst sharedCrumbsFrom.simps) (auto split: option.split)
qed

subsection \<open>What the walks decide\<close>

text \<open>\<open>liveBelow b x a\<close>: the folder \<open>x\<close> is \<open>a\<close> or lies below it, and every folder from \<open>x\<close> up to, and without, \<open>a\<close> is live.\<close>

inductive liveBelow :: "backend \<Rightarrow> string \<Rightarrow> string \<Rightarrow> bool" for b where
  self: "a \<noteq> [] \<Longrightarrow> liveBelow b a a"
| step: "x \<noteq> [] \<Longrightarrow> findFolder x b = Some f \<Longrightarrow> fld_deletedAt f = None \<Longrightarrow> fld_parentId f = Some p \<Longrightarrow>
    liveBelow b p a \<Longrightarrow> liveBelow b x a"

inductive_cases liveBelow_elim: "liveBelow b x a"

lemma isDescendantOf_sound: "folderForest b \<Longrightarrow> isDescendantOf b x a = Some True \<Longrightarrow> liveBelow b x a"
proof (induction x rule: parent_induct)
  case (walk x)
  from walk(2) show ?case
    by (subst (asm) isDescendantOf.simps)
      (auto split: if_splits option.splits intro: liveBelow.intros walk(1))
qed

lemma isDescendantOf_complete: "liveBelow b x a \<Longrightarrow> isDescendantOf b x a = Some True"
proof (induction rule: liveBelow.induct)
  case (self a)
  then show ?case by (subst isDescendantOf.simps) simp
next
  case (step x f p a)
  then show ?case by (subst isDescendantOf.simps) simp
qed

lemma isDescendantOf_iff:
  assumes "folderForest b"
  shows "isDescendantOf b x a = Some (liveBelow b x a)"
proof -
  obtain r where "isDescendantOf b x a = Some r" using isDescendantOf_total [OF assms] by blast
  then show ?thesis
    using isDescendantOf_sound [OF assms, of x a] isDescendantOf_complete [of b x a] by (cases r) auto
qed

lemma reachesFolder_False:
  assumes "folderForest b" and "[] \<notin> fld_id ` set (bk_folders b)" and "x \<noteq> []"
    and "(x, a) \<in> (parentRel (bk_folders b))\<^sup>*" and "a \<noteq> []"
  shows "reachesFolder b x a = Some True"
  using assms(4,3)
proof (induction rule: converse_rtrancl_induct)
  case base
  then show ?case by (subst reachesFolder.simps) (simp add: assms(5))
next
  case (step y z)
  obtain f where f: "findFolder y b = Some f" "fld_parentId f = Some z"
    using assms(1) step(1) by (auto simp: folderForest_def elim: find_parentRel)
  show ?case
  proof (cases "z = []")
    case True
    have "(z, a) \<in> (parentRel (bk_folders b))\<^sup>*" by (rule step(2))
    with True have "a = []"
      using assms(2) by (auto simp: parentRel_def image_iff elim: converse_rtranclE)
    with assms(5) show ?thesis by simp
  next
    case False
    with step f show ?thesis by (subst reachesFolder.simps) simp
  qed
qed

subsection \<open>Everything below a folder\<close>

text \<open>
  The fixed point of \<^verbatim>\<open>WITH RECURSIVE ... UNION\<close> over the folders that satisfy a filter. Every
  round but the last adds a folder, so the number of folders bounds the rounds.
\<close>

definition childIds :: "(folder_row \<Rightarrow> bool) \<Rightarrow> folder_row list \<Rightarrow> string list \<Rightarrow> string list" where
  "childIds P fs ids = map fld_id (filter (\<lambda>f. P f \<and> (\<exists>p \<in> set ids. fld_parentId f = Some p) \<and> fld_id f \<notin> set ids) fs)"

fun growTree :: "nat \<Rightarrow> (folder_row \<Rightarrow> bool) \<Rightarrow> folder_row list \<Rightarrow> string list \<Rightarrow> string list" where
  "growTree 0 P fs ids = ids"
| "growTree (Suc n) P fs ids =
    (let new = childIds P fs ids in if new = [] then ids else growTree n P fs (ids @ new))"

definition folderTree :: "(folder_row \<Rightarrow> bool) \<Rightarrow> string \<Rightarrow> backend \<Rightarrow> string list" where
  "folderTree P rt b = growTree (length (bk_folders b)) P (bk_folders b)
     (map fld_id (filter (\<lambda>f. fld_id f = rt \<and> P f) (bk_folders b)))"

definition belowRel :: "(folder_row \<Rightarrow> bool) \<Rightarrow> folder_row list \<Rightarrow> (string \<times> string) set" where
  "belowRel P fs = {(fld_id f, p) |f p. f \<in> set fs \<and> P f \<and> fld_parentId f = Some p}"

lemma childIds_sound: "x \<in> set (childIds P fs ids) \<Longrightarrow> \<exists>p \<in> set ids. (x, p) \<in> belowRel P fs"
  by (auto simp: childIds_def belowRel_def)

lemma growTree_sound: "x \<in> set (growTree n P fs ids) \<Longrightarrow> \<exists>r \<in> set ids. (x, r) \<in> (belowRel P fs)\<^sup>*"
proof (induction n arbitrary: ids)
  case 0
  then show ?case by auto
next
  case (Suc n)
  show ?case
  proof (cases "childIds P fs ids = []")
    case True
    with Suc.prems show ?thesis by auto
  next
    case False
    with Suc.prems have "x \<in> set (growTree n P fs (ids @ childIds P fs ids))" by (simp add: Let_def)
    from Suc.IH [OF this] obtain r where r: "r \<in> set ids \<or> r \<in> set (childIds P fs ids)" "(x, r) \<in> (belowRel P fs)\<^sup>*"
      by auto
    then show ?thesis
      using childIds_sound [of r P fs ids] by (meson rtrancl.rtrancl_into_rtrancl)
  qed
qed

lemma growTree_incl: "set ids \<subseteq> set (growTree n P fs ids)"
proof (induction n arbitrary: ids)
  case (Suc n)
  have "set ids \<subseteq> set (ids @ childIds P fs ids)" by simp
  also have "\<dots> \<subseteq> set (growTree n P fs (ids @ childIds P fs ids))" by (rule Suc.IH)
  finally show ?case by (simp add: Let_def)
qed simp

lemma growTree_closed:
  assumes "card (fld_id ` set fs - set ids) \<le> n"
  shows "childIds P fs (growTree n P fs ids) = []"
  using assms
proof (induction n arbitrary: ids)
  case 0
  then have "fld_id ` set fs \<subseteq> set ids" by simp
  then show ?case by (auto simp: childIds_def filter_empty_conv)
next
  case (Suc n)
  show ?case
  proof (cases "childIds P fs ids = []")
    case True
    then show ?thesis by simp
  next
    case False
    then obtain x where x: "x \<in> set (childIds P fs ids)" by (meson list.set_sel(1))
    then have "x \<in> fld_id ` set fs - set ids" by (auto simp: childIds_def)
    then have "card (fld_id ` set fs - set (ids @ childIds P fs ids)) < card (fld_id ` set fs - set ids)"
      using x by (intro psubset_card_mono) auto
    with Suc.prems have "card (fld_id ` set fs - set (ids @ childIds P fs ids)) \<le> n" by simp
    from Suc.IH [OF this] False show ?thesis by (simp add: Let_def)
  qed
qed

lemma closed_reach:
  assumes "childIds P fs ids = []" and "(x, r) \<in> (belowRel P fs)\<^sup>*" and "r \<in> set ids"
  shows "x \<in> set ids"
  using assms(2)
proof (induction rule: converse_rtrancl_induct)
  case base
  then show ?case by (rule assms(3))
next
  case (step y z)
  from step(1) obtain f where f: "f \<in> set fs" "P f" "fld_id f = y" "fld_parentId f = Some z"
    by (auto simp: belowRel_def)
  with assms(1) step(3) show ?case by (auto simp: childIds_def filter_empty_conv)
qed

text \<open>The tree is exactly what reaches the rt through folders of the filter.\<close>

lemma set_folderTree:
  "set (folderTree P rt b) = {x. (\<exists>f \<in> set (bk_folders b). fld_id f = rt \<and> P f) \<and> (x, rt) \<in> (belowRel P (bk_folders b))\<^sup>*}"
proof -
  let ?fs = "bk_folders b"
  let ?ids = "map fld_id (filter (\<lambda>f. fld_id f = rt \<and> P f) ?fs)"
  have rt: "r \<in> set ?ids \<longleftrightarrow> r = rt \<and> (\<exists>f \<in> set ?fs. fld_id f = rt \<and> P f)" for r
    by auto
  have "card (fld_id ` set ?fs - set ?ids) \<le> length ?fs"
    by (meson Diff_subset List.finite_set card_image_le card_length card_mono dual_order.trans finite_imageI)
  from growTree_closed [OF this, of P] have closed: "childIds P ?fs (folderTree P rt b) = []"
    by (simp add: folderTree_def)
  show ?thesis
  proof (intro set_eqI iffI)
    fix x assume "x \<in> set (folderTree P rt b)"
    then show "x \<in> {x. (\<exists>f \<in> set ?fs. fld_id f = rt \<and> P f) \<and> (x, rt) \<in> (belowRel P ?fs)\<^sup>*}"
      using growTree_sound [of x _ P ?fs ?ids] rt by (auto simp: folderTree_def)
  next
    fix x assume x: "x \<in> {x. (\<exists>f \<in> set ?fs. fld_id f = rt \<and> P f) \<and> (x, rt) \<in> (belowRel P ?fs)\<^sup>*}"
    then have "rt \<in> set ?ids" using rt by auto
    then have "rt \<in> set (folderTree P rt b)"
      using growTree_incl [of ?ids "length ?fs" P ?fs] unfolding folderTree_def by blast
    with x closed_reach [OF closed] show "x \<in> set (folderTree P rt b)" by auto
  qed
qed

subsection \<open>Deleting a folder\<close>

text \<open>
  \<^verbatim>\<open>prisma.folder.delete\<close>: the foreign keys \<^verbatim>\<open>Folder.parentId\<close>, \<^verbatim>\<open>FileRecord.folderId\<close> and
  \<^verbatim>\<open>FileChunk.fileId\<close> cascade, whoever owns the rows and whether or not they are in the trash.
\<close>

definition cascadeFolder :: "string \<Rightarrow> backend \<Rightarrow> backend" where
  "cascadeFolder fid b = (let dead = folderTree (\<lambda>_. True) fid b in
     setFolders (deleteWhere (\<lambda>f. fld_id f \<in> set dead))
       (deleteFilesWhere (\<lambda>r. case fr_folderId r of None \<Rightarrow> False | Some d \<Rightarrow> d \<in> set dead) b))"

definition deleteFolder :: "string \<Rightarrow> unit bop" where
  "deleteFolder fid = bindOp (getsOp (findFolder fid)) (\<lambda>x. case x of
     None \<Rightarrow> throwOp PrismaP2025 | Some _ \<Rightarrow> modifyOp (cascadeFolder fid))"

lemma deleteFolder_apply [op_simps]:
  "deleteFolder fid b = (case findFolder fid b of None \<Rightarrow> (Inl PrismaP2025, b) | Some _ \<Rightarrow> (Inr (), cascadeFolder fid b))"
  by (simp add: deleteFolder_def op_simps split: option.split)

lemma parentRel_subset: "set fs \<subseteq> set gs \<Longrightarrow> parentRel fs \<subseteq> parentRel gs"
  by (auto simp: parentRel_def)

lemma folderForest_deleteWhere:
  "folderForest b \<Longrightarrow> folderForest (setFolders (deleteWhere P) b)"
  using parentRel_subset [of "deleteWhere P (bk_folders b)" "bk_folders b"]
  by (auto simp: folderForest_def distinct_map_deleteWhere elim: acyclic_subset)

lemma folderForest_files [simp]:
  "folderForest (setFiles g b) = folderForest b" "folderForest (setUsers u b) = folderForest b"
  "folderForest (setChunks c b) = folderForest b" "folderForest (emit es b) = folderForest b"
  "folderForest (deleteFilesWhere Q b) = folderForest b"
  by (simp_all add: folderForest_def deleteFilesWhere_def Let_def)

lemma folderForest_cascade: "folderForest b \<Longrightarrow> folderForest (cascadeFolder fid b)"
  by (simp add: cascadeFolder_def Let_def folderForest_deleteWhere)

end
