(* ===== verification/NameConflict.thy ===== *)
theory NameConflict
  imports Forest
begin

section \<open>Names inside a folder\<close>

text \<open>
  \<^verbatim>\<open>NameConflictService\<close> (backend/src/common/name-conflict.service.ts): conflict checks, the
  generation of a free name, and the merging of one folder into another. The locale
  \<open>name_chooser\<close> is the contract that \<open>generateUniqueName\<close> keeps and that the services that
  restore, move and copy rely on. A conflict error carries the type, id and name of the existing
  item and the suggested name, when the code puts them into the body.
\<close>

datatype conflict_action = Overwrite | Rename | Skip | Merge

definition notExcluded :: "string option \<Rightarrow> string \<Rightarrow> bool" where
  "notExcluded excl i \<longleftrightarrow> (present excl \<longrightarrow> excl \<noteq> Some i)"

definition checkFileConflict :: "string option \<Rightarrow> string \<Rightarrow> string \<Rightarrow> string option \<Rightarrow> backend \<Rightarrow> file_row option" where
  "checkFileConflict folderId filename userId excludeFileId b =
     find (\<lambda>f. fr_folderId f = folderId \<and> fr_userId f = userId \<and> fr_filename f = filename \<and> fr_deletedAt f = None \<and>
       notExcluded excludeFileId (fr_id f)) (bk_files b)"

definition checkFolderConflict :: "string option \<Rightarrow> string \<Rightarrow> string \<Rightarrow> string option \<Rightarrow> backend \<Rightarrow> folder_row option" where
  "checkFolderConflict parentId name userId excludeFolderId b =
     find (\<lambda>f. fld_parentId f = parentId \<and> fld_userId f = userId \<and> fld_name f = name \<and> fld_deletedAt f = None \<and>
       notExcluded excludeFolderId (fld_id f)) (bk_folders b)"

subsection \<open>A free name\<close>

text \<open>
  \<^verbatim>\<open>lastIndexOf('.')\<close>, and the split of the name there when the dot is not the first character.
\<close>

definition splitExtension :: "string \<Rightarrow> string \<times> string" where
  "splitExtension name = (let ext = takeWhile (\<lambda>c. c \<noteq> CHR ''.'') (rev name); cut = length name - length ext in
     if CHR ''.'' \<in> set name \<and> 0 < cut - 1 then (take (cut - 1) name, drop (cut - 1) name) else (name, []))"

definition candidateName :: "string \<Rightarrow> string \<Rightarrow> nat \<Rightarrow> string" where
  "candidateName baseName extension counter = baseName @ '' ('' @ showNat counter @ '')'' @ extension"

lemma showNat_inj: "showNat m = showNat n \<Longrightarrow> m = n"
  using baseVal_showNat by metis

lemma candidateName_inj: "candidateName base ext m = candidateName base ext n \<Longrightarrow> m = n"
  by (auto simp: candidateName_def dest: showNat_inj)

lemma finite_candidates: "finite {k. c \<le> k \<and> candidateName base ext k \<in> set names}"
proof -
  have "inj_on (candidateName base ext) {k. c \<le> k \<and> candidateName base ext k \<in> set names}"
    by (auto intro: inj_onI candidateName_inj)
  then show ?thesis by (rule inj_on_finite [where B = "set names"]) auto
qed

text \<open>The \<^verbatim>\<open>do ... while\<close> loop over the counter: it ends because the taken names are finitely many.\<close>

function firstFreeName :: "string \<Rightarrow> string \<Rightarrow> string list \<Rightarrow> nat \<Rightarrow> string" where
  "firstFreeName baseName extension names counter =
    (if candidateName baseName extension counter \<in> set names
     then firstFreeName baseName extension names (Suc counter)
     else candidateName baseName extension counter)"
  by pat_completeness auto
termination
proof (relation "measure (\<lambda>(base, ext, names, c). card {k. c \<le> k \<and> candidateName base ext k \<in> set names})")
  show "wf (measure (\<lambda>(base, ext, names, c). card {k. c \<le> k \<and> candidateName base ext k \<in> set names}))"
    by simp
next
  fix base ext names c
  assume "candidateName base ext c \<in> set names"
  then have "card {k. Suc c \<le> k \<and> candidateName base ext k \<in> set names}
      < card {k. c \<le> k \<and> candidateName base ext k \<in> set names}"
    by (intro psubset_card_mono finite_candidates) (force simp: psubset_eq set_eq_iff Suc_le_eq)
  then show "((base, ext, names, Suc c), (base, ext, names, c)) \<in>
      measure (\<lambda>(base, ext, names, c). card {k. c \<le> k \<and> candidateName base ext k \<in> set names})"
    by simp
qed

declare firstFreeName.simps [simp del]

definition generateUniqueName :: "string \<Rightarrow> string list \<Rightarrow> string" where
  "generateUniqueName name existingNames = (if name \<notin> set existingNames then name else
     (let (baseName, extension) = splitExtension name in firstFreeName baseName extension existingNames 1))"

definition getExistingNames :: "string option \<Rightarrow> string \<Rightarrow> backend \<Rightarrow> string list" where
  "getExistingNames folderId userId b =
     map fr_filename (filter (\<lambda>f. fr_folderId f = folderId \<and> fr_userId f = userId \<and> fr_deletedAt f = None) (bk_files b)) @
     map fld_name (filter (\<lambda>f. fld_parentId f = folderId \<and> fld_userId f = userId \<and> fld_deletedAt f = None) (bk_folders b))"

record conflict_check =
  cc_hasConflict :: bool
  cc_existing :: "(string \<times> string \<times> string) option"
  cc_suggestedName :: "string option"

definition checkConflictAndSuggest ::
  "bool \<Rightarrow> string option \<Rightarrow> string \<Rightarrow> string \<Rightarrow> string option \<Rightarrow> backend \<Rightarrow> conflict_check" where
  "checkConflictAndSuggest isFile folderId name userId excludeId b =
    (let suggestion = generateUniqueName name (getExistingNames folderId userId b);
         found = (if isFile
           then map_option (\<lambda>f. (fr_id f, fr_filename f, ''file'')) (checkFileConflict folderId name userId excludeId b)
           else map_option (\<lambda>f. (fld_id f, fld_name f, ''folder'')) (checkFolderConflict folderId name userId excludeId b)) in
     case found of None \<Rightarrow> \<lparr>cc_hasConflict = False, cc_existing = None, cc_suggestedName = None\<rparr>
     | Some x \<Rightarrow> \<lparr>cc_hasConflict = True, cc_existing = Some x, cc_suggestedName = Some suggestion\<rparr>)"

subsection \<open>Merging folders\<close>

definition mergeFile :: "string \<Rightarrow> string \<times> string \<Rightarrow> string list \<Rightarrow> string list bop" where
  "mergeFile targetFolderId file targetFileNames = (case file of (fid, filename) \<Rightarrow>
     (let uniqueName = generateUniqueName filename targetFileNames in
      if uniqueName \<noteq> filename then
        thenOp (updateFile fid (\<lambda>r. r\<lparr>fr_filename := uniqueName, fr_folderId := Some targetFolderId\<rparr>))
          (returnOp (targetFileNames @ [uniqueName]))
      else
        thenOp (updateFile fid (\<lambda>r. r\<lparr>fr_folderId := Some targetFolderId\<rparr>)) (returnOp targetFileNames)))"

definition liveFilesIn :: "string \<Rightarrow> string \<Rightarrow> backend \<Rightarrow> (string \<times> string) list" where
  "liveFilesIn fid userId b = map (\<lambda>f. (fr_id f, fr_filename f))
     (filter (\<lambda>f. fr_folderId f = Some fid \<and> fr_userId f = userId \<and> fr_deletedAt f = None) (bk_files b))"

definition liveFoldersIn :: "string \<Rightarrow> string \<Rightarrow> backend \<Rightarrow> (string \<times> string) list" where
  "liveFoldersIn fid userId b = map (\<lambda>f. (fld_id f, fld_name f))
     (filter (\<lambda>f. fld_parentId f = Some fid \<and> fld_userId f = userId \<and> fld_deletedAt f = None) (bk_folders b))"

text \<open>
  The recursion goes from a folder to one of its children; the fuel bounds its depth
  (\<open>Diverges\<close> when it runs out).
\<close>

fun mergeFolderContentsFuel :: "nat \<Rightarrow> string \<Rightarrow> string \<Rightarrow> string \<Rightarrow> unit bop" where
  "mergeFolderContentsFuel 0 sourceFolderId targetFolderId userId = throwOp Diverges"
| "mergeFolderContentsFuel (Suc n) sourceFolderId targetFolderId userId =
    bindOp (getsOp (\<lambda>b. (liveFilesIn sourceFolderId userId b, liveFilesIn targetFolderId userId b,
       liveFoldersIn sourceFolderId userId b, liveFoldersIn targetFolderId userId b)))
    (\<lambda>(sourceFiles, targetFiles, sourceFolders, targetFolders).
      bindOp (foldOp (mergeFile targetFolderId) sourceFiles (map snd targetFiles)) (\<lambda>_.
      forEachOp (\<lambda>(fid, name).
        if \<exists>t \<in> set targetFolders. snd t = name then
          bindOp (getsOp (find (\<lambda>f. fld_parentId f = Some targetFolderId \<and> fld_name f = name \<and> fld_userId f = userId \<and>
              fld_deletedAt f = None) \<circ> bk_folders)) (\<lambda>targetFolder. case targetFolder of
            None \<Rightarrow> returnOp ()
          | Some t \<Rightarrow> thenOp (mergeFolderContentsFuel n fid (fld_id t) userId) (deleteFolder fid))
        else updateFolder fid (\<lambda>f. f\<lparr>fld_parentId := Some targetFolderId\<rparr>)) sourceFolders))"

definition mergeFolderContents :: "string \<Rightarrow> string \<Rightarrow> string \<Rightarrow> unit bop" where
  "mergeFolderContents sourceFolderId targetFolderId userId =
     bindOp (getsOp (length \<circ> bk_folders)) (\<lambda>n. mergeFolderContentsFuel (Suc n) sourceFolderId targetFolderId userId)"

subsection \<open>The contract of a chooser of names\<close>

text \<open>Names given one after the other, each added to the taken ones.\<close>

fun chooseAll :: "('n \<Rightarrow> 'n list \<Rightarrow> 'n) \<Rightarrow> 'n list \<Rightarrow> 'n list \<Rightarrow> 'n list" where
  "chooseAll pick taken [] = []"
| "chooseAll pick taken (n # ns) = (let u = pick n taken in u # chooseAll pick (taken @ [u]) ns)"

locale name_chooser =
  fixes pick :: "'n \<Rightarrow> 'n list \<Rightarrow> 'n"
  assumes choose_free: "pick n taken \<notin> set taken"
    and choose_keeps: "n \<notin> set taken \<Longrightarrow> pick n taken = n"
begin

lemma distinct_choose: "distinct taken \<Longrightarrow> distinct (taken @ [pick n taken])"
  using choose_free by simp

lemma distinct_chooseAll: "distinct taken \<Longrightarrow> distinct (taken @ chooseAll pick taken ns)"
proof (induction ns arbitrary: taken)
  case Nil
  then show ?case by simp
next
  case (Cons n ns)
  from Cons.IH [OF distinct_choose [OF Cons.prems]] show ?case by (simp add: Let_def)
qed

lemma choose_changes: "pick n taken \<noteq> n \<longleftrightarrow> n \<in> set taken"
  using choose_free choose_keeps by metis

end

lemma firstFreeName_props:
  "\<exists>k \<ge> c. firstFreeName base ext names c = candidateName base ext k \<and> candidateName base ext k \<notin> set names \<and>
     (\<forall>j. c \<le> j \<and> j < k \<longrightarrow> candidateName base ext j \<in> set names)"
proof (induction base ext names c rule: firstFreeName.induct)
  case (1 base ext names c)
  show ?case
  proof (cases "candidateName base ext c \<in> set names")
    case True
    with 1 obtain k where k: "Suc c \<le> k" "firstFreeName base ext names (Suc c) = candidateName base ext k"
        "candidateName base ext k \<notin> set names"
        "\<forall>j. Suc c \<le> j \<and> j < k \<longrightarrow> candidateName base ext j \<in> set names" by blast
    have "candidateName base ext j \<in> set names" if "c \<le> j" "j < k" for j
      using k(4) True that by (cases "j = c") auto
    with k True show ?thesis by (subst firstFreeName.simps) (auto intro!: exI [of _ k])
  next
    case False
    then show ?thesis by (subst firstFreeName.simps) (auto intro!: exI [of _ c])
  qed
qed

lemma generateUniqueName_free: "generateUniqueName name names \<notin> set names"
  using firstFreeName_props [of 1 "fst (splitExtension name)" "snd (splitExtension name)" names]
  by (auto simp: generateUniqueName_def split: prod.split)

lemma generateUniqueName_same: "name \<notin> set names \<Longrightarrow> generateUniqueName name names = name"
  by (simp add: generateUniqueName_def)

interpretation unique_name: name_chooser generateUniqueName
  by unfold_locales (simp_all add: generateUniqueName_free generateUniqueName_same)

lemma splitExtension_append: "fst (splitExtension name) @ snd (splitExtension name) = name"
  by (simp add: splitExtension_def Let_def)

lemma splitExtension_extension:
  "snd (splitExtension name) = [] \<or> (\<exists>e. snd (splitExtension name) = CHR ''.'' # e \<and> CHR ''.'' \<notin> set e)"
proof (cases "CHR ''.'' \<in> set name")
  case False
  then show ?thesis by (simp add: splitExtension_def)
next
  case True
  from split_list_last [OF True] obtain b e where n: "name = b @ CHR ''.'' # e" and ne: "CHR ''.'' \<notin> set e" by blast
  have "takeWhile (\<lambda>c. c \<noteq> CHR ''.'') (rev name) = rev e"
  proof -
    have "rev name = rev e @ CHR ''.'' # rev b" by (simp add: n)
    moreover have "\<And>c. c \<in> set (rev e) \<Longrightarrow> c \<noteq> CHR ''.''" using ne by auto
    ultimately show ?thesis by (simp only: takeWhile_append2 takeWhile.simps if_False not_True_eq_False append_Nil2 simp_thms)
  qed
  then show ?thesis
    using n ne by (simp add: splitExtension_def Let_def)
qed



definition mergeDemo :: backend where
  "mergeDemo = emptyBackend\<lparr>
     bk_folders := [newFolderRow ''s'' ''src'' None ''u1'' 0, newFolderRow ''t'' ''dst'' None ''u1'' 0],
     bk_files := [newFileRow ''f1'' ''a (1).txt'' 5 (Some ''s'') ''u1'' 0, newFileRow ''f2'' ''a.txt'' 5 (Some ''s'') ''u1'' 0,
       newFileRow ''f3'' ''a.txt'' 5 (Some ''t'') ''u1'' 0]\<rparr>"

text \<open>
  A merge does not record the names of the files it moves without renaming, so it can pick
  one of them for a later file: merging \<^verbatim>\<open>a (1).txt\<close>, \<^verbatim>\<open>a.txt\<close> into a folder with \<^verbatim>\<open>a.txt\<close> fails on the
  unique index, and the merge is left half done (the first file has moved, the second has not).
\<close>
theorem merge_picks_taken_name:
  "\<exists>b'. mergeFolderContents ''s'' ''t'' ''u1'' mergeDemo = (Inl PrismaP2002, b') \<and>
     map (\<lambda>f. (fr_filename f, fr_folderId f)) (bk_files b') =
       [(''a (1).txt'', Some ''t''), (''a.txt'', Some ''s''), (''a.txt'', Some ''t'')]"
proof -
  have n1: "generateUniqueName ''a (1).txt'' [''a.txt''] = ''a (1).txt''"
    by (simp add: generateUniqueName_def)
  have "showNat 1 = ''1''" by code_simp
  then have n2: "generateUniqueName ''a.txt'' [''a.txt''] = ''a (1).txt''"
    by (simp add: generateUniqueName_def splitExtension_def firstFreeName.simps candidateName_def)
  show ?thesis
    by (simp add: mergeFolderContents_def mergeDemo_def emptyBackend_def newFileRow_def newFolderRow_def liveFilesIn_def
        liveFoldersIn_def op_unfold updateFile_def writeFiles_def Let_def mergeFile_def n1 n2 findFile_def setFiles_def
        activeUnique_def)
qed

end
