(* ===== verification/Lifecycle.thy ===== *)
theory Lifecycle
  imports NameConflict
begin

section \<open>Deleting files\<close>

text \<open>
  \<^verbatim>\<open>FileLifecycleService\<close> (backend/src/file/file-lifecycle.service.ts) and the CDN purge it calls
  (backend/src/common/cdn-purge.service.ts). The environment's switches are arguments: whether
  deletions are announced as events (\<open>eventDriven\<close>) and the CDN configuration. Requests to the
  transfer server and to Redis are effects in the outbox; their failures are caught by the code.
  The in-process deletion lock serialises the operations of a user, each of which is
  one step here.
\<close>

subsection \<open>CDN purge\<close>

record cdn_config =
  cdn_provider :: string
  cdn_credentials :: bool
  cdn_baseUrl :: string

definition CF_MAX_URLS :: nat where
  "CF_MAX_URLS = 30"

definition flushPurge :: "cdn_config \<Rightarrow> string list \<Rightarrow> effect list" where
  "flushPurge cfg urls = (if \<not> cdn_credentials cfg then [] else map CdnPurge (batchesOf CF_MAX_URLS urls))"

text \<open>The files as pairs of share token and public S3 path.\<close>

definition purgeDeletedFiles :: "cdn_config \<Rightarrow> (string option \<times> string option) list \<Rightarrow> effect list" where
  "purgeDeletedFiles cfg files =
    (if cdn_provider cfg = ''none'' then [] else
     (let tokens = map (the \<circ> fst) (filter (present \<circ> fst) files) in
      if tokens = [] then [] else
      (let publicPaths = map (the \<circ> snd) (filter (present \<circ> snd) files) in
       if tokens = [] \<and> publicPaths = [] then []
       else if cdn_baseUrl cfg = [] then []
       else flushPurge cfg
         (concat (map (\<lambda>t. [cdn_baseUrl cfg @ ''/files/share/'' @ t @ ''/download'',
             cdn_baseUrl cfg @ ''/files/share/'' @ t @ ''/stream'',
             cdn_baseUrl cfg @ ''/files/share/stream/'' @ t]) tokens) @
          map (\<lambda>p. cdn_baseUrl cfg @ p) publicPaths))))"

subsection \<open>Telegram and temp storage\<close>

definition chunksOf :: "string \<Rightarrow> backend \<Rightarrow> chunk_row list" where
  "chunksOf fid b = filter (\<lambda>c. ck_fileId c = fid) (bk_chunks b)"

definition messageOf :: "int option \<Rightarrow> int \<Rightarrow> (int \<times> int) list" where
  "messageOf m bid = (case m of None \<Rightarrow> [] | Some i \<Rightarrow> if i = 0 then [] else [(i, bid)])"

definition messagesOf :: "file_row \<times> chunk_row list \<Rightarrow> (int \<times> int) list" where
  "messagesOf fc = messageOf (fr_telegramMessageId (fst fc)) (fr_botId (fst fc)) @
     concat (map (\<lambda>c. messageOf (ck_telegramMessageId c) (ck_botId c)) (snd fc))"

definition purgeFilesFromTelegram :: "(file_row \<times> chunk_row list) list \<Rightarrow> unit bop" where
  "purgeFilesFromTelegram files = (let messages = concat (map messagesOf files) in
     if messages = [] then returnOp () else modifyOp (emit [TelegramPurge messages]))"

definition purgeTempFiles :: "(file_row \<times> chunk_row list) list \<Rightarrow> unit bop" where
  "purgeTempFiles files =
    (let keys = concat (map (\<lambda>(f, cs). map the (filter present (fr_tempStorageKey f # map ck_tempStorageKey cs))) files) in
     modifyOp (\<lambda>b. b\<lparr>bk_temp := filter (\<lambda>k. k \<notin> set keys) (bk_temp b)\<rparr>))"

text \<open>
  \<open>publishDeleteEvent\<close> with the chunks as the caller loaded them; \<open>None\<close> when its query did not
  include them, where the legacy transport fails on iterating \<^verbatim>\<open>undefined\<close>.
\<close>

definition publishDeleteEvent :: "bool \<Rightarrow> file_row \<Rightarrow> chunk_row list option \<Rightarrow> unit bop" where
  "publishDeleteEvent eventDriven f chunks =
    (if \<not> eventDriven then
       (case chunks of None \<Rightarrow> throwOp (PlainError ''TypeError'') | Some cs \<Rightarrow> purgeFilesFromTelegram [(f, cs)])
     else modifyOp (emit [FileDeleteEvent (fr_id f)
       (map fst (messageOf (fr_telegramMessageId f) 0) @
        (if fr_isChunked f then (case chunks of None \<Rightarrow> [] | Some cs \<Rightarrow>
           concat (map (\<lambda>c. map fst (messageOf (ck_telegramMessageId c) 0)) cs)) else [])) (fr_botId f)]))"

subsection \<open>The public S3 path of a file\<close>

text \<open>At most 32 ancestors are visited.\<close>

fun publicSegments :: "nat \<Rightarrow> string \<Rightarrow> string list \<Rightarrow> backend \<Rightarrow> string list option" where
  "publicSegments 0 fid acc b = None"
| "publicSegments (Suc n) fid acc b = (if fid = [] then None else
     case findFolder fid b of None \<Rightarrow> None
     | Some folder \<Rightarrow>
       if \<not> present (fld_parentId folder) then
         (if fld_s3PublicAccess folder then Some (fld_name folder # acc) else None)
       else publicSegments n (the (fld_parentId folder)) (fld_name folder # acc) b)"

definition buildPublicS3Path :: "string \<Rightarrow> string option \<Rightarrow> string \<Rightarrow> backend \<Rightarrow> string option" where
  "buildPublicS3Path userId folderId filename b =
    (if \<not> present folderId then None else
     map_option (\<lambda>segments. ''/public/'' @ userId @ ''/'' @
        jsJoin ''/'' (map encodeURIComponent segments @ [encodeURIComponent filename]))
       (publicSegments 32 (the folderId) [] b))"

definition purgeTarget :: "backend \<Rightarrow> file_row \<Rightarrow> string option \<times> string option" where
  "purgeTarget b f = (fr_shareToken f, buildPublicS3Path (fr_userId f) (fr_folderId f) (fr_filename f) b)"

subsection \<open>The deletions\<close>

definition releaseQuota :: "string \<Rightarrow> int \<Rightarrow> unit bop" where
  "releaseQuota userId n = updateUser userId (\<lambda>u. u\<lparr>usr_usedSpace := usr_usedSpace u - n\<rparr>)"

text \<open>The transaction of a single deletion.\<close>

definition deleteRecordTx :: "file_row \<Rightarrow> unit bop" where
  "deleteRecordTx f = transactionOp
     (bindOp (getsOp (findFile (fr_id f))) (\<lambda>x. case x of None \<Rightarrow> throwOp PrismaP2025
      | Some _ \<Rightarrow> thenOp (modifyOp (deleteFilesWhere (\<lambda>r. fr_id r = fr_id f)))
          (whenOp (fr_status f = Complete) (releaseQuota (fr_userId f) (fr_size f)))))"

definition delete :: "string \<Rightarrow> string option \<Rightarrow> unit bop" where
  "delete fid userId = bindOp (getsOp (\<lambda>b. (find (\<lambda>f. fr_id f = fid \<and>
       (present userId \<longrightarrow> Some (fr_userId f) = userId \<and> fr_deletedAt f = None)) (bk_files b), chunksOf fid b)))
     (\<lambda>(row, chunks). case row of None \<Rightarrow> returnOp ()
      | Some f \<Rightarrow> thenOp (purgeFilesFromTelegram [(f, chunks)]) (thenOp (purgeTempFiles [(f, chunks)]) (deleteRecordTx f)))"

definition cleaningTrash :: "string \<Rightarrow> backend \<Rightarrow> bool" where
  "cleaningTrash userId b = (case findUser userId b of None \<Rightarrow> False | Some u \<Rightarrow> usr_isCleaningTrash u)"

definition permanentDelete :: "bool \<Rightarrow> cdn_config \<Rightarrow> string \<Rightarrow> string \<Rightarrow> unit bop" where
  "permanentDelete eventDriven cfg fid userId =
     bindOp (getsOp (cleaningTrash userId)) (\<lambda>busy.
     thenOp (unlessOp (\<not> busy) (ConflictException ''Trash cleanup is in progress''))
     (bindOp (getsOp (\<lambda>b. (find (\<lambda>f. fr_id f = fid \<and> fr_userId f = userId \<and> fr_deletedAt f \<noteq> None) (bk_files b), chunksOf fid b)))
      (\<lambda>(row, chunks). case row of None \<Rightarrow> throwOp (NotFoundException ''File not found in trash'')
       | Some f \<Rightarrow> thenOp (publishDeleteEvent eventDriven f (Some chunks)) (thenOp (purgeTempFiles [(f, chunks)])
           (thenOp (deleteRecordTx f)
           (modifyOp (\<lambda>b. emit (purgeDeletedFiles cfg [purgeTarget b f]) b)))))))"

definition DELETE_BATCH_SIZE :: nat where
  "DELETE_BATCH_SIZE = 200"

definition completeSize :: "file_row \<Rightarrow> int" where
  "completeSize f = (if fr_status f = Complete then fr_size f else 0)"

definition deleteBatchTx :: "string list \<Rightarrow> string \<Rightarrow> int bop" where
  "deleteBatchTx ids userId = transactionOp
     (bindOp (getsOp (\<lambda>b. filter (\<lambda>f. fr_id f \<in> set ids \<and> fr_userId f = userId) (bk_files b))) (\<lambda>deleted.
      thenOp (modifyOp (deleteFilesWhere (\<lambda>f. fr_id f \<in> set ids \<and> fr_userId f = userId)))
      (let freed = sum_list (map completeSize deleted) in
       thenOp (whenOp (freed > 0) (releaseQuota userId freed)) (returnOp freed))))"

text \<open>The batch in two steps: loading its files with their chunks, and deleting the loaded files.\<close>

definition deleteLoadedBatch :: "bool \<Rightarrow> cdn_config \<Rightarrow> (file_row \<times> chunk_row list) list \<Rightarrow> string \<Rightarrow> int bop" where
  "deleteLoadedBatch eventDriven cfg files userId =
     thenOp (if eventDriven then forEachOp (\<lambda>(f, cs). publishDeleteEvent eventDriven f (Some cs)) files
             else purgeFilesFromTelegram files)
     (thenOp (purgeTempFiles files)
     (bindOp (deleteBatchTx (map (fr_id \<circ> fst) files) userId) (\<lambda>freedSize.
     thenOp (whenOp (cdn_provider cfg \<noteq> ''none'') (modifyOp (\<lambda>b.
        emit (purgeDeletedFiles cfg (map (\<lambda>(f, _). (fr_shareToken f,
           map_option (\<lambda>prefix. prefix @ encodeURIComponent (fr_filename f))
             (buildPublicS3Path (fr_userId f) (fr_folderId f) [] b))) files)) b)))
     (returnOp freedSize))))"

definition permanentDeleteBatch :: "bool \<Rightarrow> cdn_config \<Rightarrow> string list \<Rightarrow> string \<Rightarrow> int bop" where
  "permanentDeleteBatch eventDriven cfg fileIds userId =
     bindOp (getsOp (\<lambda>b. map (\<lambda>f. (f, chunksOf (fr_id f) b))
       (filter (\<lambda>f. fr_id f \<in> set fileIds \<and> fr_userId f = userId) (bk_files b)))) (\<lambda>files.
     if files = [] then returnOp 0 else deleteLoadedBatch eventDriven cfg files userId)"

definition bulkPermanentDeleteFiles :: "bool \<Rightarrow> cdn_config \<Rightarrow> string list \<Rightarrow> string \<Rightarrow> int bop" where
  "bulkPermanentDeleteFiles eventDriven cfg fileIds userId =
     foldOp (\<lambda>batch total. bindOp (permanentDeleteBatch eventDriven cfg batch userId) (\<lambda>n. returnOp (total + n)))
       (batchesOf DELETE_BATCH_SIZE fileIds) 0"

text \<open>\<open>emptyTrash\<close> gives the number of rows and the bytes it reports as freed.\<close>

definition emptyTrash :: "bool \<Rightarrow> cdn_config \<Rightarrow> string \<Rightarrow> (int \<times> int) bop" where
  "emptyTrash eventDriven cfg userId =
     bindOp (getsOp (cleaningTrash userId)) (\<lambda>busy.
     thenOp (unlessOp (\<not> busy) (ConflictException ''Trash cleanup is in progress''))
     (bindOp (getsOp (\<lambda>b. (map (\<lambda>f. (f, chunksOf (fr_id f) b))
          (filter (\<lambda>f. fr_userId f = userId \<and> fr_deletedAt f \<noteq> None) (bk_files b)),
        map fld_id (filter (\<lambda>f. fld_userId f = userId \<and> fld_deletedAt f \<noteq> None) (bk_folders b)))))
     (\<lambda>(files, folderIds).
      if files = [] \<and> folderIds = [] then returnOp (0, 0) else
      (let freedSize = sum_list (map (completeSize \<circ> fst) files); fileIds = map (fr_id \<circ> fst) files in
       thenOp (forEachOp (\<lambda>(f, cs). publishDeleteEvent eventDriven f (Some cs)) files)
       (thenOp (purgeTempFiles files)
       (thenOp (transactionOp
          (thenOp (modifyOp (deleteFilesWhere (\<lambda>f. fr_id f \<in> set fileIds)))
          (thenOp (modifyOp (\<lambda>b. foldl (\<lambda>b fid. cascadeFolder fid b) b folderIds))
          (whenOp (freedSize > 0) (releaseQuota userId freedSize)))))
       (thenOp (modifyOp (\<lambda>b. emit (purgeDeletedFiles cfg (map (purgeTarget b \<circ> fst) files)) b))
       (returnOp (int (length files + length folderIds), freedSize)))))))))"

subsection \<open>Storage accounting\<close>

text \<open>
  What a user is charged for: the complete files, in the trash or not. \<open>accounted\<close> says that
  the cached \<^verbatim>\<open>usedSpace\<close> of every user is that sum.
\<close>

definition charged :: "string \<Rightarrow> file_row list \<Rightarrow> int" where
  "charged uid fs = sum_list (map completeSize (filter (\<lambda>f. fr_userId f = uid) fs))"

definition accounted :: "backend \<Rightarrow> bool" where
  "accounted b \<longleftrightarrow> distinct (map usr_id (bk_users b)) \<and> distinct (map fr_id (bk_files b)) \<and>
     (\<forall>f \<in> set (bk_files b). 0 \<le> fr_size f) \<and> (\<forall>u \<in> set (bk_users b). usr_usedSpace u = charged (usr_id u) (bk_files b))"

lemma accounted_cong: "bk_users b' = bk_users b \<Longrightarrow> bk_files b' = bk_files b \<Longrightarrow> accounted b' = accounted b"
  by (simp add: accounted_def)

lemma charged_Nil [simp]: "charged uid [] = 0"
  by (simp add: charged_def)

lemma charged_Cons [simp]:
  "charged uid (f # fs) = (if fr_userId f = uid then completeSize f else 0) + charged uid fs"
  by (simp add: charged_def)

lemma charged_deleteWhere:
  "charged uid (deleteWhere P fs) = charged uid fs - charged uid (filter P fs)"
  by (induction fs) auto

lemma deleteFilesWhere_tables [simp]:
  "bk_files (deleteFilesWhere P b) = deleteWhere P (bk_files b)"
  "bk_users (deleteFilesWhere P b) = bk_users b" "bk_folders (deleteFilesWhere P b) = bk_folders b"
  "findUser uid (deleteFilesWhere P b) = findUser uid b"
  by (simp_all add: deleteFilesWhere_def findUser_def Let_def)

text \<open>Releasing what was deleted: the quota of the owner drops by what the deleted files were charged.\<close>

lemma accounted_release:
  assumes "accounted b" and "\<And>f. f \<in> set (bk_files b) \<Longrightarrow> P f \<Longrightarrow> fr_userId f = uid"
    and "n = charged uid (filter P (bk_files b))"
  shows "accounted (setUsers (updateWhere (\<lambda>u. usr_id u = uid) (\<lambda>u. u\<lparr>usr_usedSpace := usr_usedSpace u - n\<rparr>))
    (deleteFilesWhere P b))"
proof -
  have "charged v (filter P fs) = 0" if "v \<noteq> uid" "\<forall>f \<in> set fs. P f \<longrightarrow> fr_userId f = uid" for v fs
    using that by (induction fs) auto
  then have "charged v (filter P (bk_files b)) = 0" if "v \<noteq> uid" for v
    using assms(2) that by blast
  then show ?thesis
    using assms(1,3) unfolding accounted_def
    by (auto simp: set_updateWhere map_updateWhere_key charged_deleteWhere distinct_map_deleteWhere)
qed

lemma accounted_free_delete:
  assumes "accounted b" and "\<And>f. f \<in> set (bk_files b) \<Longrightarrow> P f \<Longrightarrow> completeSize f = 0"
  shows "accounted (deleteFilesWhere P b)"
proof -
  have "charged v (filter P fs) = 0" if "\<forall>f \<in> set fs. P f \<longrightarrow> completeSize f = 0" for v fs
    using that by (induction fs) auto
  then have "charged v (filter P (bk_files b)) = 0" for v
    using assms(2) by blast
  then show ?thesis
    using assms(1) by (auto simp: accounted_def charged_deleteWhere distinct_map_deleteWhere)
qed

lemma keeps_accounted_purge [keeps_intros]:
  "keeps accounted (purgeFilesFromTelegram files)" "keeps accounted (purgeTempFiles files)"
  "keeps accounted (modifyOp (emit es))" "keeps accounted (modifyOp (\<lambda>b. emit (es' b) b))"
  by (auto simp: keeps_def purgeFilesFromTelegram_def purgeTempFiles_def op_simps Let_def accounted_def)

lemma keeps_accounted_publish [keeps_intros]: "keeps accounted (publishDeleteEvent ev f cs)"
  by (cases cs) (auto simp: publishDeleteEvent_def intro: keeps_intros)

lemma purge_same:
  "\<exists>b'. purgeFilesFromTelegram files b = (Inr (), b') \<and> bk_users b' = bk_users b \<and> bk_files b' = bk_files b \<and>
     bk_folders b' = bk_folders b"
  "\<exists>b'. purgeTempFiles files b = (Inr (), b') \<and> bk_users b' = bk_users b \<and> bk_files b' = bk_files b \<and>
     bk_folders b' = bk_folders b"
  "\<exists>b'. publishDeleteEvent ev f (Some cs) b = (Inr (), b') \<and> bk_users b' = bk_users b \<and> bk_files b' = bk_files b \<and>
     bk_folders b' = bk_folders b"
  by (simp_all add: purgeFilesFromTelegram_def purgeTempFiles_def publishDeleteEvent_def op_simps Let_def)

lemma filter_id_single:
  "accounted b \<Longrightarrow> f \<in> set (bk_files b) \<Longrightarrow> filter (\<lambda>r. fr_id r = fr_id f) (bk_files b) = [f]"
  using filter_key_single [of fr_id "bk_files b" f] by (simp add: accounted_def)

lemma deleteRecordTx_accounted:
  assumes "accounted b" and "f \<in> set (bk_files b)"
  shows "accounted (snd (deleteRecordTx f b))"
proof -
  have found: "findFile (fr_id f) b = Some f"
    using assms find_key_unique [of fr_id "bk_files b" f] by (simp add: accounted_def findFile_def)
  have owner: "\<And>r. r \<in> set (bk_files b) \<Longrightarrow> fr_id r = fr_id f \<Longrightarrow> r = f"
  proof -
    fix r assume "r \<in> set (bk_files b)" "fr_id r = fr_id f"
    then have "r \<in> set (filter (\<lambda>r. fr_id r = fr_id f) (bk_files b))" by simp
    then show "r = f" by (simp only: filter_id_single [OF assms]) simp
  qed
  show ?thesis
  proof (cases "fr_status f = Complete")
    case True
    with filter_id_single [OF assms] have "fr_size f = charged (fr_userId f) (filter (\<lambda>r. fr_id r = fr_id f) (bk_files b))"
      by (simp add: completeSize_def)
    from accounted_release [OF assms(1) _ this] owner assms(1) True found show ?thesis
      by (auto simp: deleteRecordTx_def releaseQuota_def op_unfold updateUser_def split: option.split)
  next
    case False
    have "accounted (deleteFilesWhere (\<lambda>r. fr_id r = fr_id f) b)"
      by (rule accounted_free_delete [OF assms(1)]) (use owner False in \<open>auto simp: completeSize_def\<close>)
    with False found show ?thesis by (simp add: deleteRecordTx_def op_unfold)
  qed
qed

lemma keeps_delete: "keeps accounted (delete fid userId)"
proof (rule keepsI)
  fix b assume acc: "accounted b"
  show "accounted (snd (delete fid userId b))"
  proof (cases "find (\<lambda>f. fr_id f = fid \<and> (present userId \<longrightarrow> Some (fr_userId f) = userId \<and> fr_deletedAt f = None)) (bk_files b)")
    case None
    with acc show ?thesis by (simp add: delete_def op_unfold)
  next
    case (Some f)
    from find_SomeD [OF Some] have f: "f \<in> set (bk_files b)" by simp
    obtain b1 where b1: "purgeFilesFromTelegram [(f, chunksOf fid b)] b = (Inr (), b1)" "bk_users b1 = bk_users b" "bk_files b1 = bk_files b"
      using purge_same(1) by blast
    obtain b2 where b2: "purgeTempFiles [(f, chunksOf fid b)] b1 = (Inr (), b2)" "bk_users b2 = bk_users b1" "bk_files b2 = bk_files b1"
      using purge_same(2) by blast
    have "accounted b2" using acc b1 b2 accounted_cong by metis
    with f b1 b2 have "accounted (snd (deleteRecordTx f b2))" by (intro deleteRecordTx_accounted) simp_all
    with Some b1 b2 show ?thesis by (simp add: delete_def bindOp_def thenOp_def getsOp_def)
  qed
qed

lemma keeps_permanentDelete: "keeps accounted (permanentDelete ev cfg fid userId)"
proof (rule keepsI)
  fix b assume acc: "accounted b"
  show "accounted (snd (permanentDelete ev cfg fid userId b))"
  proof (cases "find (\<lambda>f. fr_id f = fid \<and> fr_userId f = userId \<and> fr_deletedAt f \<noteq> None) (bk_files b)")
    case None
    with acc show ?thesis by (simp add: permanentDelete_def op_unfold)
  next
    case (Some f)
    from find_SomeD [OF Some] have f: "f \<in> set (bk_files b)" by simp
    obtain b1 where b1: "publishDeleteEvent ev f (Some (chunksOf fid b)) b = (Inr (), b1)" "bk_users b1 = bk_users b" "bk_files b1 = bk_files b"
      using purge_same(3) by blast
    obtain b2 where b2: "purgeTempFiles [(f, chunksOf fid b)] b1 = (Inr (), b2)" "bk_users b2 = bk_users b1" "bk_files b2 = bk_files b1"
      using purge_same(2) by blast
    have "accounted b2" using acc b1 b2 accounted_cong by metis
    with f b1 b2 have tx: "accounted (snd (deleteRecordTx f b2))" by (intro deleteRecordTx_accounted) simp_all
    have "keeps accounted (modifyOp (\<lambda>b. emit (purgeDeletedFiles cfg [purgeTarget b f]) b) :: unit bop)"
      by (rule keeps_intros)
    with tx Some b1 b2 acc show ?thesis
      by (auto simp: permanentDelete_def bindOp_def thenOp_def getsOp_def unlessOp_def returnOp_def throwOp_def keeps_def
          split: prod.split sum.split)
  qed
qed

lemma keeps_deleteBatchTx [keeps_intros]: "keeps accounted (deleteBatchTx ids userId)"
proof (rule keepsI)
  fix b assume acc: "accounted b"
  let ?P = "\<lambda>f. fr_id f \<in> set ids \<and> fr_userId f = userId"
  let ?n = "sum_list (map completeSize (filter ?P (bk_files b)))"
  have n: "?n = charged userId (filter ?P (bk_files b))"
    by (simp add: charged_def)
  show "accounted (snd (deleteBatchTx ids userId b))"
  proof (cases "?n > 0")
    case True
    have "accounted (setUsers (updateWhere (\<lambda>u. usr_id u = userId) (\<lambda>u. u\<lparr>usr_usedSpace := usr_usedSpace u - ?n\<rparr>))
        (deleteFilesWhere ?P b))"
      by (rule accounted_release [OF acc _ n]) simp
    with True acc show ?thesis
      by (auto simp: deleteBatchTx_def releaseQuota_def op_unfold updateUser_def Let_def split: option.split)
  next
    case False
    have nonneg: "\<And>x. x \<in> set (map completeSize (filter ?P (bk_files b))) \<Longrightarrow> 0 \<le> x"
      using acc by (auto simp: accounted_def completeSize_def)
    with False have "?n = 0" using sum_list_nonneg [of "map completeSize (filter ?P (bk_files b))"] by force
    then have "\<forall>x \<in> set (map completeSize (filter ?P (bk_files b))). x = 0"
      using sum_list_nonneg_eq_0_iff [of "map completeSize (filter ?P (bk_files b))"] nonneg by blast
    then have "accounted (deleteFilesWhere ?P b)" by (intro accounted_free_delete [OF acc]) auto
    with False show ?thesis by (simp add: deleteBatchTx_def op_unfold Let_def)
  qed
qed

lemma keeps_permanentDeleteBatch [keeps_intros]: "keeps accounted (permanentDeleteBatch ev cfg ids userId)"
  unfolding permanentDeleteBatch_def deleteLoadedBatch_def
  by (intro keeps_intros) (auto intro!: keeps_intros split: prod.split)

lemma keeps_bulkPermanentDeleteFiles [keeps_intros]: "keeps accounted (bulkPermanentDeleteFiles ev cfg ids userId)"
  unfolding bulkPermanentDeleteFiles_def by (intro keeps_intros)

subsection \<open>What a bulk deletion removes and frees\<close>

text \<open>The effect of an operation that removes the rows of a filter and frees their charge.\<close>

definition removes :: "string \<Rightarrow> (file_row \<Rightarrow> bool) \<Rightarrow> int bop \<Rightarrow> backend \<Rightarrow> bool" where
  "removes uid P m b \<longleftrightarrow> (\<exists>b'. m b = (Inr (charged uid (bk_files b) - charged uid (bk_files b')), b') \<and>
     bk_files b' = deleteWhere P (bk_files b) \<and> bk_folders b' = bk_folders b \<and> accounted b' \<and> findUser uid b' \<noteq> None)"

lemma completeSize_nonneg: "accounted b \<Longrightarrow> f \<in> set (bk_files b) \<Longrightarrow> 0 \<le> completeSize f"
  by (auto simp: accounted_def completeSize_def)

lemma deleteBatchTx_apply:
  assumes "accounted b" and "findUser uid b = Some u"
  shows "\<exists>b'. deleteBatchTx ids uid b = (Inr (charged uid (bk_files b) - charged uid (bk_files b')), b') \<and>
    bk_files b' = deleteWhere (\<lambda>f. fr_id f \<in> set ids \<and> fr_userId f = uid) (bk_files b) \<and>
    bk_folders b' = bk_folders b \<and> findUser uid b' \<noteq> None"
proof -
  have "sum_list (map completeSize (filter (\<lambda>f. fr_id f \<in> set ids \<and> fr_userId f = uid) (bk_files b))) =
      charged uid (filter (\<lambda>f. fr_id f \<in> set ids \<and> fr_userId f = uid) (bk_files b))"
    by (simp add: charged_def)
  then show ?thesis
    using assms(2) by (simp add: deleteBatchTx_def releaseQuota_def op_unfold updateUser_def Let_def charged_deleteWhere findUser_update)
qed

lemma publishAll_same:
  "\<exists>b'. forEachOp (\<lambda>(f, cs). publishDeleteEvent ev f (Some cs)) fs b = (Inr (), b') \<and> bk_users b' = bk_users b \<and>
     bk_files b' = bk_files b \<and> bk_folders b' = bk_folders b"
proof (induction fs arbitrary: b)
  case Nil
  then show ?case by (simp add: op_simps)
next
  case (Cons fc fs)
  obtain f cs where fc: "fc = (f, cs)" by (cases fc)
  obtain b1 where b1: "publishDeleteEvent ev f (Some cs) b = (Inr (), b1)" "bk_users b1 = bk_users b" "bk_files b1 = bk_files b"
      "bk_folders b1 = bk_folders b"
    using purge_same(3) by blast
  from Cons.IH [of b1] b1 fc show ?case by (auto simp: thenOp_def bindOp_def)
qed

lemma permanentDeleteBatch_removes:
  assumes acc: "accounted b" and user: "findUser uid b \<noteq> None"
  shows "removes uid (\<lambda>f. fr_id f \<in> set ids \<and> fr_userId f = uid) (permanentDeleteBatch ev cfg ids uid) b"
proof -
  let ?P = "\<lambda>f. fr_id f \<in> set ids \<and> fr_userId f = uid"
  let ?files = "map (\<lambda>f. (f, chunksOf (fr_id f) b)) (filter ?P (bk_files b))"
  let ?ids = "map (fr_id \<circ> fst) ?files"
  show ?thesis
  proof (cases "?files = []")
    case True
    then have "deleteWhere ?P (bk_files b) = bk_files b"
      by (auto simp: deleteWhere_def filter_empty_conv)
    with True acc user show ?thesis
      by (auto simp: removes_def permanentDeleteBatch_def op_simps)
  next
    case False
    obtain b1 where b1: "(if ev then forEachOp (\<lambda>(f, cs). publishDeleteEvent ev f (Some cs)) ?files
             else purgeFilesFromTelegram ?files) b = (Inr (), b1)" "bk_users b1 = bk_users b" "bk_files b1 = bk_files b"
        "bk_folders b1 = bk_folders b"
      using publishAll_same [of ev ?files b] purge_same(1) [of ?files b] by (cases ev) auto
    obtain b2 where b2: "purgeTempFiles ?files b1 = (Inr (), b2)" "bk_users b2 = bk_users b1" "bk_files b2 = bk_files b1"
        "bk_folders b2 = bk_folders b1"
      using purge_same(2) by blast
    have acc2: "accounted b2" using acc b1 b2 accounted_cong by metis
    have "findUser uid b2 = findUser uid b" using b1 b2 by (simp add: findUser_def)
    with user obtain u where "findUser uid b2 = Some u" by auto
    from deleteBatchTx_apply [OF acc2 this, of ?ids] obtain b3 where
      b3: "deleteBatchTx ?ids uid b2 = (Inr (charged uid (bk_files b2) - charged uid (bk_files b3)), b3)"
        "bk_files b3 = deleteWhere (\<lambda>f. fr_id f \<in> set ?ids \<and> fr_userId f = uid) (bk_files b2)"
        "bk_folders b3 = bk_folders b2" "findUser uid b3 \<noteq> None" by blast
    have same: "deleteWhere (\<lambda>f. fr_id f \<in> set ?ids \<and> fr_userId f = uid) (bk_files b) = deleteWhere ?P (bk_files b)"
      by (auto simp: deleteWhere_def intro!: filter_cong)
    have acc3: "accounted b3" using keeps_result [OF keeps_deleteBatchTx acc2 b3(1)] .
    have "\<exists>b4. deleteLoadedBatch ev cfg ?files uid b =
        (Inr (charged uid (bk_files b2) - charged uid (bk_files b3)), b4) \<and> bk_users b4 = bk_users b3 \<and>
        bk_files b4 = bk_files b3 \<and> bk_folders b4 = bk_folders b3"
      unfolding deleteLoadedBatch_def thenOp_def bindOp_def b1(1) b2(1) b3(1)
      using b1(1) b2(1) b3(1) by (simp add: whenOp_def modifyOp_def returnOp_def emit_def)
    then have "\<exists>b4. permanentDeleteBatch ev cfg ids uid b =
        (Inr (charged uid (bk_files b2) - charged uid (bk_files b3)), b4) \<and> bk_users b4 = bk_users b3 \<and>
        bk_files b4 = bk_files b3 \<and> bk_folders b4 = bk_folders b3"
      using False by (simp add: permanentDeleteBatch_def op_simps)
    then obtain b4 where b4: "permanentDeleteBatch ev cfg ids uid b =
        (Inr (charged uid (bk_files b2) - charged uid (bk_files b3)), b4)" "bk_users b4 = bk_users b3"
        "bk_files b4 = bk_files b3" "bk_folders b4 = bk_folders b3" by blast
    have "bk_files b4 = deleteWhere ?P (bk_files b)"
      using b4(3) b3(2) b2(3) b1(3) same by (simp only:)
    moreover have "accounted b4" using acc3 b4(2,3) accounted_cong by metis
    moreover have "findUser uid b4 \<noteq> None" using b3(4) b4(2) by (simp add: findUser_def)
    moreover have "bk_folders b4 = bk_folders b" using b4(4) b3(3) b2(4) b1(4) by (simp only:)
    moreover have "permanentDeleteBatch ev cfg ids uid b = (Inr (charged uid (bk_files b) - charged uid (bk_files b4)), b4)"
      using b4(1,3) b2(3) b1(3) by (simp only:)
    ultimately show ?thesis unfolding removes_def by (intro exI conjI)
  qed
qed

lemma fold_batches_remove:
  assumes "accounted b" and "findUser uid b \<noteq> None"
  shows "\<exists>b'. foldOp (\<lambda>batch total. bindOp (permanentDeleteBatch ev cfg batch uid) (\<lambda>n. returnOp (total + n))) bs t b =
      (Inr (t + charged uid (bk_files b) - charged uid (bk_files b')), b') \<and>
    bk_files b' = deleteWhere (\<lambda>f. fr_id f \<in> set (concat bs) \<and> fr_userId f = uid) (bk_files b) \<and>
    bk_folders b' = bk_folders b \<and> accounted b' \<and> findUser uid b' \<noteq> None"
  using assms
proof (induction bs arbitrary: b t)
  case Nil
  then show ?case by (simp add: op_simps deleteWhere_def)
next
  case (Cons ids bs)
  from permanentDeleteBatch_removes [OF Cons.prems, of ids ev cfg] obtain b1 where
    b1: "permanentDeleteBatch ev cfg ids uid b = (Inr (charged uid (bk_files b) - charged uid (bk_files b1)), b1)"
      "bk_files b1 = deleteWhere (\<lambda>f. fr_id f \<in> set ids \<and> fr_userId f = uid) (bk_files b)" "bk_folders b1 = bk_folders b"
      "accounted b1" "findUser uid b1 \<noteq> None"
    by (auto simp: removes_def)
  from Cons.IH [OF b1(4,5), of "t + (charged uid (bk_files b) - charged uid (bk_files b1))"] obtain b2 where
    b2: "foldOp (\<lambda>batch total. bindOp (permanentDeleteBatch ev cfg batch uid) (\<lambda>n. returnOp (total + n))) bs
         (t + (charged uid (bk_files b) - charged uid (bk_files b1))) b1 =
        (Inr (t + charged uid (bk_files b) - charged uid (bk_files b2)), b2)"
      "bk_files b2 = deleteWhere (\<lambda>f. fr_id f \<in> set (concat bs) \<and> fr_userId f = uid) (bk_files b1)"
      "bk_folders b2 = bk_folders b1" "accounted b2" "findUser uid b2 \<noteq> None" by auto
  have "bk_files b2 = deleteWhere (\<lambda>f. fr_id f \<in> set (concat (ids # bs)) \<and> fr_userId f = uid) (bk_files b)"
    by (auto simp: b2(2) b1(2) deleteWhere_def intro!: filter_cong)
  with b1 b2 show ?case by (simp add: bindOp_def returnOp_def)
qed

lemma bulk_removes:
  assumes "accounted b" and "findUser uid b \<noteq> None"
  shows "removes uid (\<lambda>f. fr_id f \<in> set ids \<and> fr_userId f = uid) (bulkPermanentDeleteFiles ev cfg ids uid) b"
proof -
  have ids: "concat (batchesOf DELETE_BATCH_SIZE ids) = ids"
    by (simp add: concat_batchesOf DELETE_BATCH_SIZE_def)
  show ?thesis
    using fold_batches_remove [OF assms, of ev cfg "batchesOf DELETE_BATCH_SIZE ids" 0]
    by (simp add: removes_def bulkPermanentDeleteFiles_def ids)
qed


text \<open>
  A bulk deletion, in batches of 200, removes exactly the user's files among the given ids and
  nothing else, and the number it returns is what the user's charge dropped by; repeated ids
  and ids of other users' files do not count.
\<close>
theorem bulk_delete_exact:
  assumes "accounted b" and "findUser uid b \<noteq> None"
  shows "\<exists>b'. bulkPermanentDeleteFiles ev cfg ids uid b = (Inr (charged uid (bk_files b) - charged uid (bk_files b')), b') \<and>
    bk_files b' = filter (\<lambda>f. \<not> (fr_id f \<in> set ids \<and> fr_userId f = uid)) (bk_files b)"
  using bulk_removes [OF assms, of ids ev cfg] unfolding removes_def deleteWhere_def by blast

definition trashDemo :: backend where
  "trashDemo = emptyBackend\<lparr>
     bk_users := [(newUserRow ''u1'' ''alice'' ''x'' 0)\<lparr>usr_usedSpace := 8\<rparr>, newUserRow ''u2'' ''bob'' ''x'' 0],
     bk_folders := [(newFolderRow ''d'' ''docs'' None ''u1'' 0)\<lparr>fld_deletedAt := Some 10\<rparr>],
     bk_files := [newFileRow ''f1'' ''a'' 5 (Some ''d'') ''u1'' 0, (newFileRow ''f2'' ''b'' 3 None ''u1'' 0)\<lparr>fr_deletedAt := Some 10\<rparr>,
       (newFileRow ''f3'' ''c'' 9 None ''u2'' 0)\<lparr>fr_status := Uploading\<rparr>]\<rparr>"

definition noCdn :: cdn_config where
  "noCdn = \<lparr>cdn_provider = ''none'', cdn_credentials = False, cdn_baseUrl = []\<rparr>"

lemma trashDemo_accounted: "accounted trashDemo" "findUser ''u1'' trashDemo \<noteq> None"
  by (simp_all add: accounted_def trashDemo_def newUserRow_def newFileRow_def completeSize_def findUser_def)

theorem bulk_delete_exact_witness:
  "\<exists>b'. bulkPermanentDeleteFiles False noCdn [''f2'', ''f3'', ''f2''] ''u1'' trashDemo = (Inr 3, b') \<and>
     map fr_id (bk_files b') = [''f1'', ''f3'']"
proof -
  obtain b' where b': "bulkPermanentDeleteFiles False noCdn [''f2'', ''f3'', ''f2''] ''u1'' trashDemo =
      (Inr (charged ''u1'' (bk_files trashDemo) - charged ''u1'' (bk_files b')), b')"
      "bk_files b' = filter (\<lambda>f. \<not> (fr_id f \<in> set [''f2'', ''f3'', ''f2''] \<and> fr_userId f = ''u1'')) (bk_files trashDemo)"
    using bulk_delete_exact [OF trashDemo_accounted] by blast
  have "charged ''u1'' (bk_files trashDemo) - charged ''u1'' (bk_files b') = 3" "map fr_id (bk_files b') = [''f1'', ''f3'']"
    by (simp_all add: b'(2) trashDemo_def newFileRow_def completeSize_def)
  with b'(1) show ?thesis by simp
qed

text \<open>
  A live file inside a trashed folder (a file that was restored on its own, which \<^verbatim>\<open>restore\<close> allows)
  is destroyed when the trash is emptied: the folder's deletion cascades to it. Its space is not
  released and its messages are not purged.
\<close>
theorem empty_trash_destroys_live_file:
  "\<exists>b'. emptyTrash False noCdn ''u1'' trashDemo = (Inr (2, 3), b') \<and>
     (\<exists>f \<in> set (bk_files trashDemo). fr_id f = ''f1'' \<and> fr_deletedAt f = None) \<and>
     findFile ''f1'' b' = None \<and> map_option usr_usedSpace (findUser ''u1'' b') = Some 5 \<and>
     charged ''u1'' (bk_files b') = 0"
proof -
  have tree: "folderTree (\<lambda>_. True) ''d'' b = [''d'']"
    if "bk_folders b = [(newFolderRow ''d'' ''docs'' None ''u1'' 0)\<lparr>fld_deletedAt := Some 10\<rparr>]" for b
    using that by (simp add: folderTree_def newFolderRow_def childIds_def)
  show ?thesis
    by (simp add: emptyTrash_def cleaningTrash_def trashDemo_def emptyBackend_def newUserRow_def newFileRow_def findUser_def
        op_unfold Let_def publishDeleteEvent_def purgeFilesFromTelegram_def messagesOf_def messageOf_def chunksOf_def
        purgeTempFiles_def present_def completeSize_def releaseQuota_def updateUser_def cascadeFolder_def tree
        deleteFilesWhere_def setFolders_def setUsers_def purgeDeletedFiles_def noCdn_def findFile_def emit_def newFolderRow_def)
qed

end
