(* ===== verification/Cleanup.thy ===== *)
theory Cleanup
  imports Lifecycle
begin

section \<open>The cleanup jobs\<close>

text \<open>
  The scheduled jobs over the tables: the stale upload cleanup
  (backend/src/common/stale-upload-cleanup.service.ts), the nightly quota synchronisation
  (quota-sync.service.ts) and the trash cleanup, by hand or by the cron
  (trash-cleanup.service.ts). The distributed lock that keeps a job from running twice is an
  argument (\<open>acquired\<close>). Days are 24 hours.
\<close>

subsection \<open>Stale uploads\<close>

definition isStale :: "int \<Rightarrow> file_row \<Rightarrow> bool" where
  "isStale now f \<longleftrightarrow> fr_status f \<in> {Uploading, Buffered, Buffer_failed} \<and> fr_updatedAt f < now - 24 * 60 * 60 * 1000"

definition cleanStaleFile :: "bool \<Rightarrow> int \<Rightarrow> file_row \<Rightarrow> unit bop" where
  "cleanStaleFile eventDriven now f =
     thenOp (releaseQuota (fr_userId f) (fr_size f))
     (thenOp (updateFile (fr_id f) (\<lambda>r. r\<lparr>fr_status := Upload_timeout, fr_updatedAt := now\<rparr>))
     (publishDeleteEvent eventDriven f None))"

definition handleStaleCleanup :: "bool \<Rightarrow> bool \<Rightarrow> int \<Rightarrow> unit bop" where
  "handleStaleCleanup acquired eventDriven now = (if \<not> acquired then returnOp () else
     bindOp (getsOp (\<lambda>b. take 100 (filter (isStale now) (bk_files b)))) (\<lambda>staleFiles.
     forEachOp (cleanStaleFile eventDriven now) staleFiles))"

subsection \<open>Quota synchronisation\<close>

text \<open>The rows of \<^verbatim>\<open>GROUP BY "userId"\<close>: the users with a live complete file, and the sum of their sizes.\<close>

definition quotaRows :: "backend \<Rightarrow> (string \<times> int) list" where
  "quotaRows b = (let live = filter (\<lambda>f. fr_deletedAt f = None \<and> fr_status f = Complete) (bk_files b) in
     map (\<lambda>u. (u, sum_list (map fr_size (filter (\<lambda>f. fr_userId f = u) live)))) (remdups (map fr_userId live)))"

definition syncQuotas :: "bool \<Rightarrow> unit bop" where
  "syncQuotas acquired = (if \<not> acquired then returnOp () else
     catchOp (bindOp (getsOp quotaRows) (\<lambda>results.
       forEachOp (\<lambda>batch. transactionOp (forEachOp (\<lambda>(uid, actual_used).
          updateUser uid (\<lambda>u. u\<lparr>usr_usedSpace := actual_used\<rparr>)) batch)) (batchesOf 100 results)))
       (\<lambda>_. returnOp ()))"

subsection \<open>The trash of a user\<close>

definition trashCount :: "string \<Rightarrow> backend \<Rightarrow> int" where
  "trashCount userId b =
     int (countWhere (\<lambda>f. fr_userId f = userId \<and> fr_deletedAt f \<noteq> None) (bk_files b)) +
     int (countWhere (\<lambda>f. fld_userId f = userId \<and> fld_deletedAt f \<noteq> None) (bk_folders b))"

text \<open>The service's cache of results: user, deleted count and expiry.\<close>

type_synonym cleanup_results = "(string \<times> int \<times> int) list"

definition getCleanupStatus :: "cleanup_results \<Rightarrow> int \<Rightarrow> string \<Rightarrow> backend \<Rightarrow> bool \<times> int \<times> int" where
  "getCleanupStatus cache now userId b =
     (cleaningTrash userId b, trashCount userId b,
      case map_of cache userId of Some (n, expiresAt) \<Rightarrow> if expiresAt > now then n else 0 | None \<Rightarrow> 0)"

definition startCleanup :: "string \<Rightarrow> bool bop" where
  "startCleanup userId = bindOp (getsOp (cleaningTrash userId)) (\<lambda>running.
     thenOp (unlessOp (\<not> running) (ConflictException ''Trash cleanup is already in progress''))
     (bindOp (getsOp (trashCount userId)) (\<lambda>n.
      if n = 0 then returnOp False else
      thenOp (updateUser userId (\<lambda>u. u\<lparr>usr_isCleaningTrash := True\<rparr>)) (returnOp True))))"

definition clearCleanupFlag :: "string \<Rightarrow> unit bop" where
  "clearCleanupFlag userId = updateUser userId (\<lambda>u. u\<lparr>usr_isCleaningTrash := False\<rparr>)"

definition clearCleanupFlags :: "string list \<Rightarrow> unit bop" where
  "clearCleanupFlags userIds = forEachOp (\<lambda>u. bestEffort (clearCleanupFlag u)) userIds"

definition countSuccess :: "unit bop \<Rightarrow> int \<Rightarrow> int bop" where
  "countSuccess m n = catchOp (thenOp m (returnOp (n + 1))) (\<lambda>_. returnOp n)"

text \<open>The background run: the numbers of files and folders deleted.\<close>

definition runUserCleanup :: "bool \<Rightarrow> string \<Rightarrow> (int \<times> int) bop" where
  "runUserCleanup eventDriven userId =
     bindOp (getsOp (\<lambda>b. map (\<lambda>f. (f, chunksOf (fr_id f) b))
        (filter (\<lambda>f. fr_userId f = userId \<and> fr_deletedAt f \<noteq> None) (bk_files b)))) (\<lambda>trashFiles.
     bindOp (foldOp (\<lambda>(f, cs) n. countSuccess (thenOp (publishDeleteEvent eventDriven f (Some cs))
        (thenOp (purgeTempFiles [(f, cs)]) (deleteRecordTx f))) n) trashFiles 0) (\<lambda>filesDeleted.
     bindOp (getsOp (\<lambda>b. map fld_id (filter (\<lambda>f. fld_userId f = userId \<and> fld_deletedAt f \<noteq> None) (bk_folders b)))) (\<lambda>trashFolders.
     bindOp (foldOp (\<lambda>fid n. countSuccess (deleteFolder fid) n) trashFolders 0) (\<lambda>foldersDeleted.
     thenOp (clearCleanupFlags [userId]) (returnOp (filesDeleted, foldersDeleted))))))"

subsection \<open>The nightly trash cleanup\<close>

definition expiredFile :: "int \<Rightarrow> file_row \<Rightarrow> bool" where
  "expiredFile cutoff f \<longleftrightarrow> (case fr_deletedAt f of None \<Rightarrow> False | Some d \<Rightarrow> d < cutoff)"

definition publishExpired :: "bool \<Rightarrow> (file_row \<times> chunk_row list) list \<Rightarrow> string list bop" where
  "publishExpired eventDriven files = foldOp (\<lambda>(f, cs) users.
     catchOp (thenOp (publishDeleteEvent eventDriven f (Some cs)) (returnOp (users @ [fr_userId f]))) (\<lambda>_. returnOp users)) files []"

definition hardDeleteConfirmed :: "file_row list \<Rightarrow> unit bop" where
  "hardDeleteConfirmed confirmed =
    (let userIds = remdups (map fr_userId confirmed); ids = map fr_id confirmed;
         freed = (\<lambda>uid. sum_list (map completeSize (filter (\<lambda>f. fr_userId f = uid) confirmed))) in
     thenOp (forEachOp (\<lambda>uid. updateUser uid (\<lambda>u. u\<lparr>usr_isCleaningTrash := True\<rparr>)) userIds)
     (transactionOp
       (thenOp (modifyOp (deleteFilesWhere (\<lambda>f. fr_id f \<in> set ids)))
       (whenOp (sum_list (map completeSize confirmed) > 0)
         (forEachOp (\<lambda>uid. whenOp (freed uid > 0) (releaseQuota uid (freed uid))) userIds)))))"

definition expiredFolders :: "int \<Rightarrow> backend \<Rightarrow> (string \<times> string) list" where
  "expiredFolders cutoff b = map (\<lambda>f. (fld_id f, fld_userId f))
     (filter (\<lambda>f. case fld_deletedAt f of None \<Rightarrow> False | Some d \<Rightarrow> d < cutoff) (bk_folders b))"

definition deleteIfPresent :: "string \<Rightarrow> unit bop" where
  "deleteIfPresent fid = bindOp (getsOp (findFolder fid)) (\<lambda>x. case x of
     None \<Rightarrow> returnOp () | Some _ \<Rightarrow> bestEffort (deleteFolder fid))"

definition handleTrashCleanup :: "bool \<Rightarrow> bool \<Rightarrow> int \<Rightarrow> unit bop" where
  "handleTrashCleanup acquired eventDriven now = (if \<not> acquired then returnOp () else
    (let cutoff = now - 30 * 86400000 in
     bindOp (getsOp (\<lambda>b. map (\<lambda>f. (f, chunksOf (fr_id f) b))
        (take 100 (filter (\<lambda>f. expiredFile cutoff f \<and> \<not> fr_telegramDeleted f) (bk_files b))))) (\<lambda>expired.
     bindOp (publishExpired eventDriven expired) (\<lambda>affected.
     bindOp (getsOp (\<lambda>b. take 500 (filter (\<lambda>f. expiredFile cutoff f \<and> fr_telegramDeleted f) (bk_files b)))) (\<lambda>confirmed.
     bindOp (catchOp (thenOp (whenOp (confirmed \<noteq> []) (hardDeleteConfirmed confirmed)) (getsOp (\<lambda>b. Some (expiredFolders cutoff b))))
       (\<lambda>_. returnOp None)) (\<lambda>folders.
     thenOp (case folders of None \<Rightarrow> returnOp () | Some fs \<Rightarrow> forEachOp deleteIfPresent (map fst fs))
     (clearCleanupFlags (remdups (affected @ map fr_userId confirmed @
        (case folders of None \<Rightarrow> [] | Some fs \<Rightarrow> map snd fs))))))))))"

subsection \<open>Properties\<close>

lemmas effect_defs = publishDeleteEvent_def purgeFilesFromTelegram_def messagesOf_def messageOf_def chunksOf_def
  purgeTempFiles_def present_def emit_def

definition staleDemo :: backend where
  "staleDemo = emptyBackend\<lparr>bk_users := [newUserRow ''u1'' ''alice'' ''x'' 0],
     bk_files := [(newFileRow ''f1'' ''a'' 5 None ''u1'' 0)\<lparr>fr_status := Uploading\<rparr>,
       (newFileRow ''f2'' ''b'' 7 None ''u1'' 0)\<lparr>fr_status := Buffered\<rparr>]\<rparr>"

lemma staleDemo_accounted: "accounted staleDemo"
  by (simp add: accounted_def staleDemo_def newUserRow_def newFileRow_def completeSize_def)

text \<open>
  The stale upload cleanup gives back space that was never charged: an upload in progress is
  not counted in \<^verbatim>\<open>usedSpace\<close>, and its cleanup makes the count negative. With the legacy delete
  transport it also fails on the first file (its query does not load the chunks), so the
  second stale file is left as it is.
\<close>
theorem stale_cleanup_overdraws:
  "accounted staleDemo \<and>
   (\<exists>b'. handleStaleCleanup True False 100000000 staleDemo = (Inl (PlainError ''TypeError''), b') \<and>
     map usr_usedSpace (bk_users b') = [- 5] \<and> map fr_status (bk_files b') = [Upload_timeout, Buffered]) \<and>
   (\<exists>b'. handleStaleCleanup True True 100000000 staleDemo = (Inr (), b') \<and> map usr_usedSpace (bk_users b') = [- 12])"
  by (simp add: staleDemo_accounted) (simp add: handleStaleCleanup_def cleanStaleFile_def isStale_def staleDemo_def newUserRow_def newFileRow_def emptyBackend_def
      op_unfold releaseQuota_def updateUser_def updateFile_def writeFiles_def findUser_def findFile_def setUsers_def setFiles_def
      activeUnique_def effect_defs)

text \<open>
  The quota synchronisation counts only files outside the trash, while emptying the trash releases
  the trashed ones: after a sync and a permanent deletion the user with 5 bytes of complete files
  is recorded to use 2.
\<close>
theorem quota_sync_undercounts:
  "accounted trashDemo \<and> (\<exists>b1 b2. syncQuotas True trashDemo = (Inr (), b1) \<and>
     permanentDelete True noCdn ''f2'' ''u1'' b1 = (Inr (), b2) \<and>
     map_option usr_usedSpace (findUser ''u1'' b2) = Some 2 \<and> charged ''u1'' (bk_files b2) = 5)"
proof -
  have batch: "batchesOf 100 [x] = [[x]]" for x :: "string \<times> int"
    by (simp add: batchesOf.simps)
  have "\<exists>b1. syncQuotas True trashDemo = (Inr (), b1) \<and> bk_files b1 = bk_files trashDemo \<and> bk_chunks b1 = [] \<and>
      bk_users b1 = [(newUserRow ''u1'' ''alice'' ''x'' 0)\<lparr>usr_usedSpace := 5\<rparr>, newUserRow ''u2'' ''bob'' ''x'' 0]"
    by (simp add: syncQuotas_def quotaRows_def trashDemo_def newFileRow_def emptyBackend_def op_unfold batch updateUser_def
        findUser_def newUserRow_def setUsers_def)
  then obtain b1 where b1: "syncQuotas True trashDemo = (Inr (), b1)" "bk_files b1 = bk_files trashDemo" "bk_chunks b1 = []"
      "bk_users b1 = [(newUserRow ''u1'' ''alice'' ''x'' 0)\<lparr>usr_usedSpace := 5\<rparr>, newUserRow ''u2'' ''bob'' ''x'' 0]"
    by blast
  have "\<exists>b2. permanentDelete True noCdn ''f2'' ''u1'' b1 = (Inr (), b2) \<and>
     map_option usr_usedSpace (findUser ''u1'' b2) = Some 2 \<and> charged ''u1'' (bk_files b2) = 5"
    using b1(2-4) by (simp add: permanentDelete_def cleaningTrash_def findUser_def newUserRow_def op_unfold effect_defs
        deleteRecordTx_def findFile_def trashDemo_def newFileRow_def releaseQuota_def updateUser_def deleteFilesWhere_def
        setUsers_def purgeDeletedFiles_def noCdn_def completeSize_def)
  with b1(1) trashDemo_accounted(1) show ?thesis by blast
qed

definition expiredDemo :: backend where
  "expiredDemo = emptyBackend\<lparr>
     bk_users := [(newUserRow ''u1'' ''alice'' ''x'' 0)\<lparr>usr_usedSpace := 5\<rparr>],
     bk_folders := [(newFolderRow ''d'' ''docs'' None ''u1'' 0)\<lparr>fld_deletedAt := Some 10\<rparr>],
     bk_files := [(newFileRow ''f1'' ''a'' 5 (Some ''d'') ''u1'' 0)\<lparr>fr_deletedAt := Some 10\<rparr>]\<rparr>"

text \<open>
  The nightly cleanup of a trashed folder loses the space of its files: they expire with the
  folder, their deletion is only announced in that run, and the deletion of the folder in the
  same run cascades to their rows, after which nothing releases the 5 bytes.
\<close>
theorem trash_cron_leaks_quota:
  "accounted expiredDemo \<and> (\<exists>b'. handleTrashCleanup True True 2700000000 expiredDemo = (Inr (), b') \<and>
     bk_files b' = [] \<and> map usr_usedSpace (bk_users b') = [5] \<and> bk_outbox b' = [FileDeleteEvent ''f1'' [] 0])"
proof -
  have tree: "folderTree (\<lambda>_. True) ''d'' b = [''d'']"
    if "bk_folders b = [(newFolderRow ''d'' ''docs'' None ''u1'' 0)\<lparr>fld_deletedAt := Some 10\<rparr>]" for b
    using that by (simp add: folderTree_def newFolderRow_def childIds_def)
  have "accounted expiredDemo"
    by (simp add: accounted_def expiredDemo_def newUserRow_def newFileRow_def completeSize_def)
  moreover have "\<exists>b'. handleTrashCleanup True True 2700000000 expiredDemo = (Inr (), b') \<and>
     bk_files b' = [] \<and> map usr_usedSpace (bk_users b') = [5] \<and> bk_outbox b' = [FileDeleteEvent ''f1'' [] 0]"
    by (simp add: handleTrashCleanup_def expiredDemo_def emptyBackend_def newUserRow_def newFileRow_def expiredFile_def
        op_unfold publishExpired_def effect_defs expiredFolders_def newFolderRow_def deleteIfPresent_def findFolder_def
        bestEffort_def deleteFolder_def cascadeFolder_def tree deleteFilesWhere_def setFolders_def clearCleanupFlags_def
        clearCleanupFlag_def updateUser_def findUser_def setUsers_def Let_def folderTree_def childIds_def)
  ultimately show ?thesis by blast
qed

lemma countSuccess_Inr: "\<exists>n' b'. countSuccess m n b = (Inr n', b')"
  by (simp add: countSuccess_def op_unfold split: prod.split sum.split)

lemma foldOp_Inr:
  "(\<And>x a s. \<exists>a' s'. f x a s = (Inr a', s')) \<Longrightarrow> \<exists>a' s'. foldOp f xs a s = (Inr a', s')"
proof (induction xs arbitrary: a s)
  case Nil
  then show ?case by (simp add: op_simps)
next
  case (Cons x xs)
  then show ?case by (simp add: bindOp_def) (metis (no_types, lifting) case_prod_conv sum.case(2))
qed

lemma clearCleanupFlags_clears: "\<exists>b'. clearCleanupFlags [uid] b = (Inr (), b') \<and> \<not> cleaningTrash uid b'"
  by (simp add: clearCleanupFlags_def clearCleanupFlag_def bestEffort_def op_unfold updateUser_def cleaningTrash_def
      findUser_update split: option.split)

text \<open>
  A trash cleanup of a user always runs to its end, whatever deletions fail, and leaves the
  user's \<^verbatim>\<open>isCleaningTrash\<close> flag cleared, so later deletions are not refused.
\<close>
theorem user_cleanup_clears_flag:
  "\<exists>counts b'. runUserCleanup ev uid b = (Inr counts, b') \<and> \<not> cleaningTrash uid b'"
proof -
  let ?files = "map (\<lambda>f. (f, chunksOf (fr_id f) b)) (filter (\<lambda>f. fr_userId f = uid \<and> fr_deletedAt f \<noteq> None) (bk_files b))"
  let ?del = "\<lambda>(f, cs) n. countSuccess (thenOp (publishDeleteEvent ev f (Some cs)) (thenOp (purgeTempFiles [(f, cs)]) (deleteRecordTx f))) n"
  obtain n b1 where b1: "foldOp ?del ?files 0 b = (Inr n, b1)"
    using foldOp_Inr [of ?del ?files 0 b] countSuccess_Inr by (metis (no_types, lifting) case_prod_conv surj_pair)
  let ?folders = "map fld_id (filter (\<lambda>f. fld_userId f = uid \<and> fld_deletedAt f \<noteq> None) (bk_folders b1))"
  obtain m b2 where b2: "foldOp (\<lambda>fid n. countSuccess (deleteFolder fid) n) ?folders 0 b1 = (Inr m, b2)"
    using foldOp_Inr [of "\<lambda>fid n. countSuccess (deleteFolder fid) n"] countSuccess_Inr by blast
  obtain b3 where b3: "clearCleanupFlags [uid] b2 = (Inr (), b3)" "\<not> cleaningTrash uid b3"
    using clearCleanupFlags_clears by blast
  have "runUserCleanup ev uid b = (Inr (n, m), b3)"
    using b1 b2 b3(1) by (simp add: runUserCleanup_def bindOp_def thenOp_def getsOp_def returnOp_def)
  with b3(2) show ?thesis by blast
qed

end
