(* ===== verification/FolderService.thy ===== *)
theory FolderService
  imports Lifecycle
begin

section \<open>Folders\<close>

text \<open>
  \<^verbatim>\<open>FolderService\<close> (backend/src/folder/folder.service.ts) with the recursive queries of
  folder-deletion-queries.ts: creation, renaming, moving, sharing, the trash, permanent deletion,
  and what a share link gives access to. The listings are in the theory \<open>Listing\<close>. Random ids and
  tokens are arguments. A walk up the parents that does not end is the error \<open>Diverges\<close>.
\<close>

subsection \<open>Creation\<close>

definition liveFolder :: "string \<Rightarrow> string \<Rightarrow> backend \<Rightarrow> folder_row option" where
  "liveFolder fid userId b =
     find (\<lambda>f. fld_id f = fid \<and> fld_userId f = userId \<and> fld_deletedAt f = None) (bk_folders b)"

definition orNull :: "string option \<Rightarrow> string option" where
  "orNull x = (if present x then x else None)"

text \<open>\<open>folderCreate\<close> (\<^verbatim>\<open>create\<close>) returns the id of the new folder, or of the existing one under \<open>Merge\<close>.\<close>

definition folderCreate :: "string \<Rightarrow> string \<Rightarrow> string option \<Rightarrow> conflict_action option \<Rightarrow> string \<Rightarrow> int \<Rightarrow> string bop" where
  "folderCreate name userId parentId conflictAction newId now =
     bindOp (getsOp (\<lambda>b. if present parentId then liveFolder (the parentId) userId b \<noteq> None else True)) (\<lambda>parentOk.
     thenOp (unlessOp parentOk (NotFoundException ''Parent folder not found''))
     (bindOp (getsOp (checkFolderConflict (orNull parentId) name userId None)) (\<lambda>conflict.
      let insert = thenOp (modifyOp (setFolders (\<lambda>fs. fs @ [newFolderRow newId name (orNull parentId) userId now]))) (returnOp newId) in
      case conflict of None \<Rightarrow> insert
      | Some c \<Rightarrow>
          if conflictAction = None \<or> conflictAction = Some Skip then
            throwOp (NameConflict ''folder'' (Some (fld_id c)) (Some (fld_name c)) None)
          else if conflictAction = Some Merge then returnOp (fld_id c)
          else insert)))"

text \<open>One step of \<open>createBatch\<close>: the map from paths to ids so far, and the result.\<close>

definition createPath ::
  "string \<Rightarrow> string option \<Rightarrow> (string \<Rightarrow> string) \<Rightarrow> int \<Rightarrow> string \<Rightarrow> (string \<times> string) list \<times> (string \<times> string) list \<Rightarrow>
   ((string \<times> string) list \<times> (string \<times> string) list) bop" where
  "createPath userId parentId freshId now dir acc = (case acc of (folderMap, result) \<Rightarrow>
     (let parts = jsSplit (CHR ''/'') dir; name = last parts; parentPath = jsJoin ''/'' (butlast parts);
          currentParentId = (if parentPath \<noteq> [] then map_of folderMap parentPath else parentId) in
      if parentPath \<noteq> [] \<and> \<not> present currentParentId then returnOp (folderMap, (dir, []) # result)
      else catchOp (bindOp (folderCreate name userId currentParentId (Some Merge) (freshId dir) now) (\<lambda>fid.
             returnOp ((dir, fid) # folderMap, (dir, fid) # result)))
           (\<lambda>_. returnOp (folderMap, (dir, []) # result))))"

definition pathDepth :: "string \<Rightarrow> nat" where
  "pathDepth p = length (jsSplit (CHR ''/'') p)"

definition createBatch :: "string list \<Rightarrow> string \<Rightarrow> string option \<Rightarrow> (string \<Rightarrow> string) \<Rightarrow> int \<Rightarrow> (string \<times> string) list bop" where
  "createBatch paths userId parentId freshId now =
     bindOp (foldOp (createPath userId parentId freshId now) (sort_key pathDepth paths) ([], [])) (\<lambda>(_, result). returnOp result)"

subsection \<open>Renaming and moving\<close>

definition folderRename :: "string \<Rightarrow> string \<Rightarrow> string \<Rightarrow> unit bop" where
  "folderRename fid newName userId = bindOp (getsOp (liveFolder fid userId)) (\<lambda>row. case row of
     None \<Rightarrow> throwOp (NotFoundException ''Folder not found'')
   | Some folder \<Rightarrow> bindOp (getsOp (checkFolderConflict (fld_parentId folder) newName userId (Some fid))) (\<lambda>conflict.
       if conflict \<noteq> None then throwOp (NameConflict ''folder'' None None None)
       else updateFolder fid (\<lambda>f. f\<lparr>fld_name := newName\<rparr>)))"

text \<open>The checks of the destination, in the order of the code.\<close>

definition checkDestination :: "string \<Rightarrow> string option \<Rightarrow> string \<Rightarrow> unit bop" where
  "checkDestination fid newParentId userId = (if \<not> present newParentId then returnOp () else
     thenOp (unlessOp (fid \<noteq> the newParentId) (BadRequestException ''Cannot move folder into itself''))
     (bindOp (getsOp (\<lambda>b. reachesFolder b (the newParentId) fid)) (\<lambda>reaches. case reaches of
        None \<Rightarrow> throwOp Diverges
      | Some r \<Rightarrow> thenOp (unlessOp (\<not> r) (BadRequestException ''Cannot move folder into a subfolder of itself''))
          (bindOp (getsOp (liveFolder (the newParentId) userId)) (\<lambda>newParent.
           unlessOp (newParent \<noteq> None) (NotFoundException ''Destination folder not found''))))))"

definition folderMove :: "string \<Rightarrow> string option \<Rightarrow> string \<Rightarrow> conflict_action option \<Rightarrow> unit bop" where
  "folderMove fid newParentId userId conflictAction = bindOp (getsOp (liveFolder fid userId)) (\<lambda>row. case row of
     None \<Rightarrow> throwOp (NotFoundException ''Folder not found'')
   | Some folder \<Rightarrow> thenOp (checkDestination fid newParentId userId)
       (bindOp (getsOp (checkFolderConflict newParentId (fld_name folder) userId (Some fid))) (\<lambda>conflict.
        (let place = updateFolder fid (\<lambda>f. f\<lparr>fld_parentId := newParentId\<rparr>) in
         case conflict of None \<Rightarrow> place
         | Some c \<Rightarrow>
            if conflictAction = None \<or> conflictAction = Some Skip then
              throwOp (NameConflict ''folder'' (Some (fld_id c)) (Some (fld_name c)) None)
            else if conflictAction = Some Merge then
              thenOp (mergeFolderContents fid (fld_id c) userId) (deleteFolder fid)
            else place))))"

definition getBreadcrumbs :: "string \<Rightarrow> string \<Rightarrow> (string \<times> string) list bop" where
  "getBreadcrumbs folderId userId = bindOp (getsOp (\<lambda>b. breadcrumbsFrom b userId folderId [])) (\<lambda>r. case r of
     None \<Rightarrow> throwOp Diverges | Some crumbs \<Rightarrow> returnOp crumbs)"

subsection \<open>Sharing\<close>

definition folderShare :: "string \<Rightarrow> string \<Rightarrow> string \<Rightarrow> unit bop" where
  "folderShare fid userId randomToken = bindOp (getsOp (liveFolder fid userId)) (\<lambda>row. case row of
     None \<Rightarrow> throwOp (NotFoundException ''Folder not found'')
   | Some folder \<Rightarrow> updateFolder fid (\<lambda>f. f\<lparr>fld_visibility := PUBLIC_LINK,
       fld_shareToken := (if present (fld_shareToken folder) then fld_shareToken folder else Some randomToken)\<rparr>))"

definition folderUnshare :: "string \<Rightarrow> string \<Rightarrow> unit bop" where
  "folderUnshare fid userId = bindOp (getsOp (liveFolder fid userId)) (\<lambda>row. case row of
     None \<Rightarrow> throwOp (NotFoundException ''Folder not found'')
   | Some _ \<Rightarrow> updateFolder fid (\<lambda>f. f\<lparr>fld_visibility := PRIVATE, fld_shareToken := None\<rparr>))"

definition setS3PublicAccess :: "string \<Rightarrow> string \<Rightarrow> bool \<Rightarrow> bool option \<Rightarrow> unit bop" where
  "setS3PublicAccess fid userId enabled listObjects = bindOp (getsOp (liveFolder fid userId)) (\<lambda>row. case row of
     None \<Rightarrow> throwOp (NotFoundException ''Folder not found'')
   | Some folder \<Rightarrow>
       thenOp (unlessOp (fld_parentId folder = None) (BadRequestException ''Only root folders (buckets) can have S3 public access''))
       (updateFolder fid (\<lambda>f. f\<lparr>fld_s3PublicAccess := enabled,
          fld_s3PublicListObjects := (case listObjects of None \<Rightarrow> fld_s3PublicListObjects f | Some l \<Rightarrow> l)\<rparr>)))"

definition sharedRoot :: "string \<Rightarrow> folder_row bop" where
  "sharedRoot token = bindOp (getsOp (find (\<lambda>f. fld_shareToken f = Some token) \<circ> bk_folders)) (\<lambda>row. case row of
     None \<Rightarrow> throwOp (NotFoundException ''Shared folder not found'')
   | Some r \<Rightarrow> if fld_deletedAt r \<noteq> None then throwOp (NotFoundException ''Shared folder not found'') else returnOp r)"

definition requireDescendant :: "string \<Rightarrow> string \<Rightarrow> string \<Rightarrow> unit bop" where
  "requireDescendant fid ancestorId msg = bindOp (getsOp (\<lambda>b. isDescendantOf b fid ancestorId)) (\<lambda>r. case r of
     None \<Rightarrow> throwOp Diverges | Some child \<Rightarrow> unlessOp child (BadRequestException msg))"

definition buildSharedBreadcrumbs :: "string \<Rightarrow> folder_row \<Rightarrow> (string \<times> string) list bop" where
  "buildSharedBreadcrumbs currentFolderId rt = bindOp (getsOp (\<lambda>b. sharedCrumbsFrom b (fld_id rt) currentFolderId [])) (\<lambda>r. case r of
     None \<Rightarrow> throwOp Diverges | Some crumbs \<Rightarrow> returnOp ((fld_id rt, fld_name rt) # crumbs))"

text \<open>
  The listing of a shared folder without pagination (the paginated one filters the same rows):
  the live subfolders and the live complete files of the requested folder.
\<close>

record shared_content =
  sc_rootFolder :: folder_row
  sc_currentFolderId :: string
  sc_folders :: "folder_row list"
  sc_files :: "file_row list"
  sc_breadcrumbs :: "(string \<times> string) list"

definition getSharedContent ::
  "(folder_row list \<Rightarrow> folder_row list) \<Rightarrow> (file_row list \<Rightarrow> file_row list) \<Rightarrow> string \<Rightarrow> string option \<Rightarrow> shared_content bop" where
  "getSharedContent orderFolders orderFiles token targetFolderId = bindOp (sharedRoot token) (\<lambda>rt.
     (let currentFolderId = (if present targetFolderId then the targetFolderId else fld_id rt) in
      thenOp (requireDescendant currentFolderId (fld_id rt) ''Folder is not part of this shared link'')
      (bindOp (getsOp (\<lambda>b. (filter (\<lambda>f. fld_parentId f = Some currentFolderId \<and> fld_deletedAt f = None) (bk_folders b),
         filter (\<lambda>f. fr_folderId f = Some currentFolderId \<and> fr_status f = Complete \<and> fr_deletedAt f = None) (bk_files b))))
       (\<lambda>(folders, files).
      bindOp (buildSharedBreadcrumbs currentFolderId rt) (\<lambda>breadcrumbs.
      returnOp \<lparr>sc_rootFolder = rt, sc_currentFolderId = currentFolderId, sc_folders = orderFolders folders,
        sc_files = orderFiles files, sc_breadcrumbs = breadcrumbs\<rparr>)))))"

text \<open>The checks shared by \<open>getSharedFileDownloadInfo\<close> and \<open>generateShareFolderDownloadToken\<close>: the file they give out.\<close>

definition sharedFile :: "string \<Rightarrow> string \<Rightarrow> file_row bop" where
  "sharedFile token fileId = bindOp (sharedRoot token) (\<lambda>rt.
     bindOp (getsOp (find (\<lambda>f. fr_id f = fileId \<and> fr_deletedAt f = None) \<circ> bk_files)) (\<lambda>row. case row of
       None \<Rightarrow> throwOp (NotFoundException ''File not found'')
     | Some f \<Rightarrow>
         thenOp (unlessOp (fr_status f = Complete) (BadRequestException ''File upload not completed yet''))
         (thenOp (unlessOp (present (fr_folderId f)) (BadRequestException ''File is not part of this shared link''))
         (thenOp (requireDescendant (the (fr_folderId f)) (fld_id rt) ''File is not part of this shared link'')
         (returnOp f)))))"

subsection \<open>The trash\<close>

text \<open>\<open>softDeleteFolderTree\<close> gives the deleted folder ids and the number of deleted files.\<close>

definition softDeleteFolderTree :: "string \<Rightarrow> string \<Rightarrow> int \<Rightarrow> backend \<Rightarrow> (string list \<times> nat) \<times> backend" where
  "softDeleteFolderTree fid userId deletedAt b =
    (let tree = folderTree (\<lambda>f. fld_userId f = userId \<and> fld_deletedAt f = None) fid b;
         P = (\<lambda>f. (case fr_folderId f of None \<Rightarrow> False | Some d \<Rightarrow> d \<in> set tree) \<and> fr_userId f = userId \<and> fr_deletedAt f = None);
         Q = (\<lambda>f. fld_id f \<in> set tree \<and> fld_deletedAt f = None) in
     ((map fld_id (filter Q (bk_folders b)), countWhere P (bk_files b)),
      setFolders (updateWhere Q (\<lambda>f. f\<lparr>fld_deletedAt := Some deletedAt\<rparr>))
        (setFiles (updateWhere P (\<lambda>f. f\<lparr>fr_deletedAt := Some deletedAt, fr_updatedAt := deletedAt\<rparr>)) b)))"

definition folderSoftDelete :: "string \<Rightarrow> string \<Rightarrow> int \<Rightarrow> string list bop" where
  "folderSoftDelete fid userId now = bindOp (getsOp (liveFolder fid userId)) (\<lambda>row. case row of
     None \<Rightarrow> throwOp (NotFoundException ''Folder does not exist'')
   | Some _ \<Rightarrow> bindOp (\<lambda>b. (case softDeleteFolderTree fid userId now b of (counts, b') \<Rightarrow> (Inr counts, b'))) (\<lambda>(deletedFolderIds, _).
       thenOp (unlessOp (deletedFolderIds \<noteq> []) (NotFoundException ''Folder not found'')) (returnOp deletedFolderIds)))"

text \<open>The recursion of \<open>restoreRecursive\<close> goes down the tree; the fuel bounds its depth.\<close>

fun restoreRecursive :: "nat \<Rightarrow> string \<Rightarrow> int \<Rightarrow> unit bop" where
  "restoreRecursive 0 folderId deletedAt = throwOp Diverges"
| "restoreRecursive (Suc n) folderId deletedAt =
    thenOp (writeFiles (updateWhere (\<lambda>f. fr_folderId f = Some folderId \<and> fr_deletedAt f = Some deletedAt)
       (\<lambda>f. f\<lparr>fr_deletedAt := None\<rparr>)))
    (bindOp (getsOp (\<lambda>b. map fld_id (filter (\<lambda>f. fld_parentId f = Some folderId \<and> fld_deletedAt f = Some deletedAt) (bk_folders b))))
      (\<lambda>children. thenOp (forEachOp (\<lambda>c. restoreRecursive n c deletedAt) children)
        (updateFolder folderId (\<lambda>f. f\<lparr>fld_deletedAt := None\<rparr>))))"

definition folderRestore :: "string \<Rightarrow> string \<Rightarrow> (string \<times> bool) bop" where
  "folderRestore fid userId = bindOp (getsOp (find (\<lambda>f. fld_id f = fid \<and> fld_userId f = userId \<and> fld_deletedAt f \<noteq> None) \<circ> bk_folders)) (\<lambda>row.
     case row of None \<Rightarrow> throwOp (NotFoundException ''Folder not found in trash'')
     | Some folder \<Rightarrow> bindOp (getsOp (\<lambda>b. (checkFolderConflict (fld_parentId folder) (fld_name folder) userId (Some fid) b,
           getExistingNames (fld_parentId folder) userId b, length (bk_folders b)))) (\<lambda>(conflict, existingNames, depth).
        (let autoRenamed = (conflict \<noteq> None);
             finalName = (if autoRenamed then generateUniqueName (fld_name folder) existingNames else fld_name folder) in
         thenOp (restoreRecursive (Suc depth) fid (the (fld_deletedAt folder)))
         (thenOp (whenOp autoRenamed (updateFolder fid (\<lambda>f. f\<lparr>fld_name := finalName\<rparr>)))
         (returnOp (finalName, autoRenamed))))))"

subsection \<open>Permanent deletion\<close>

definition collectFolderFileIds :: "string \<Rightarrow> string \<Rightarrow> backend \<Rightarrow> string list" where
  "collectFolderFileIds fid userId b =
    (let tree = folderTree (\<lambda>f. fld_userId f = userId) fid b in
     map fr_id (filter (\<lambda>f. (case fr_folderId f of None \<Rightarrow> False | Some d \<Rightarrow> d \<in> set tree) \<and> fr_userId f = userId) (bk_files b)))"

definition hardDeleteFolder :: "bool \<Rightarrow> cdn_config \<Rightarrow> string \<Rightarrow> string \<Rightarrow> bool \<Rightarrow> string \<Rightarrow> unit bop" where
  "hardDeleteFolder eventDriven cfg fid userId trashed notFoundMsg =
     bindOp (getsOp (find (\<lambda>f. fld_id f = fid \<and> fld_userId f = userId \<and> (fld_deletedAt f \<noteq> None) = trashed) \<circ> bk_folders)) (\<lambda>row.
       case row of None \<Rightarrow> throwOp (NotFoundException notFoundMsg)
       | Some _ \<Rightarrow> bindOp (getsOp (collectFolderFileIds fid userId)) (\<lambda>allFileIds.
           bindOp (bulkPermanentDeleteFiles eventDriven cfg allFileIds userId) (\<lambda>_. deleteFolder fid)))"

definition deleteLive :: "bool \<Rightarrow> cdn_config \<Rightarrow> string \<Rightarrow> string \<Rightarrow> unit bop" where
  "deleteLive eventDriven cfg fid userId = hardDeleteFolder eventDriven cfg fid userId False ''Folder does not exist''"

definition permanentDeleteTrashed :: "bool \<Rightarrow> cdn_config \<Rightarrow> string \<Rightarrow> string \<Rightarrow> unit bop" where
  "permanentDeleteTrashed eventDriven cfg fid userId =
     hardDeleteFolder eventDriven cfg fid userId True ''Folder does not exist in the trash''"

subsection \<open>What a share link gives\<close>

lemma sharedRoot_cases:
  obtains "sharedRoot token b = (Inl (NotFoundException ''Shared folder not found''), b)"
  | r where "sharedRoot token b = (Inr r, b)"
proof (cases "find (\<lambda>f. fld_shareToken f = Some token) (bk_folders b)")
  case None
  then show ?thesis using that(1) by (simp add: sharedRoot_def op_simps)
next
  case (Some r)
  then show ?thesis using that by (cases "fld_deletedAt r") (simp_all add: sharedRoot_def op_simps)
qed

lemma sharedRoot_Inr:
  "sharedRoot token b = (Inr r, b') \<Longrightarrow>
     b' = b \<and> r \<in> set (bk_folders b) \<and> fld_shareToken r = Some token \<and> fld_deletedAt r = None"
  by (auto simp: sharedRoot_def op_simps split: option.splits if_splits dest: find_SomeD)

lemma requireDescendant_Inr:
  "folderForest b \<Longrightarrow> requireDescendant x a msg b = (Inr (), b') \<Longrightarrow> b' = b \<and> liveBelow b x a"
  by (auto simp: requireDescendant_def isDescendantOf_iff op_simps unlessOp_def split: if_splits)

lemma requireDescendant_apply:
  "folderForest b \<Longrightarrow> requireDescendant x a msg b =
     (if liveBelow b x a then (Inr (), b) else (Inl (BadRequestException msg), b))"
  by (simp add: requireDescendant_def isDescendantOf_iff op_simps unlessOp_def)

lemma sharedFile_Inr:
  assumes "folderForest b" and "sharedFile token fid b = (Inr f, b')"
  shows "b' = b \<and> f \<in> set (bk_files b) \<and> fr_id f = fid \<and> fr_deletedAt f = None \<and> fr_status f = Complete \<and>
    (\<exists>r d. r \<in> set (bk_folders b) \<and> fld_shareToken r = Some token \<and> fld_deletedAt r = None \<and>
       fr_folderId f = Some d \<and> liveBelow b d (fld_id r))"
proof -
  from assms(2) obtain r where r: "sharedRoot token b = (Inr r, b)"
    using sharedRoot_Inr by (fastforce simp: sharedFile_def bindOp_def split: prod.splits sum.splits)
  with assms show ?thesis
    using sharedRoot_Inr [OF r]
    by (auto simp: sharedFile_def bindOp_def thenOp_def getsOp_def unlessOp_def returnOp_def throwOp_def present_def
        requireDescendant_apply split: option.splits if_splits dest!: find_SomeD)
qed

lemma getSharedContent_Inr:
  assumes "folderForest b" and "getSharedContent id id token target b = (Inr c, b')"
  shows "b' = b \<and> sc_rootFolder c \<in> set (bk_folders b) \<and> fld_shareToken (sc_rootFolder c) = Some token \<and>
    fld_deletedAt (sc_rootFolder c) = None \<and> liveBelow b (sc_currentFolderId c) (fld_id (sc_rootFolder c)) \<and>
    set (sc_folders c) = {f \<in> set (bk_folders b). fld_parentId f = Some (sc_currentFolderId c) \<and> fld_deletedAt f = None} \<and>
    set (sc_files c) = {f \<in> set (bk_files b). fr_folderId f = Some (sc_currentFolderId c) \<and> fr_status f = Complete \<and> fr_deletedAt f = None}"
proof -
  from assms(2) obtain r where r: "sharedRoot token b = (Inr r, b)"
    using sharedRoot_Inr by (fastforce simp: getSharedContent_def bindOp_def split: prod.splits sum.splits)
  let ?cur = "if present target then the target else fld_id r"
  obtain crumbs where "sharedCrumbsFrom b (fld_id r) ?cur [] = Some crumbs"
    using sharedCrumbsFrom_total [OF assms(1)] by blast
  with r assms sharedRoot_Inr [OF r] show ?thesis
    by (auto simp: getSharedContent_def buildSharedBreadcrumbs_def bindOp_def thenOp_def getsOp_def returnOp_def Let_def
        requireDescendant_apply split: if_splits)
qed

text \<open>
  C4. A share link of a folder gives out only what lies in the shared tree: a file that it lets
  download is live, complete and in a folder from which live folders lead up to the live
  root of the share; the same holds of a folder it lists, and the listing holds exactly the live
  subfolders and the live complete files there. In a forest the check always ends.
\<close>
theorem share_link_safe:
  assumes "folderForest b"
  shows "(\<forall>f b'. sharedFile token fid b = (Inr f, b') \<longrightarrow> b' = b \<and> fr_deletedAt f = None \<and> fr_status f = Complete \<and>
      (\<exists>r d. r \<in> set (bk_folders b) \<and> fld_shareToken r = Some token \<and> fld_deletedAt r = None \<and>
         fr_folderId f = Some d \<and> liveBelow b d (fld_id r))) \<and>
    (\<forall>c b'. getSharedContent id id token target b = (Inr c, b') \<longrightarrow> b' = b \<and> fld_deletedAt (sc_rootFolder c) = None \<and>
      liveBelow b (sc_currentFolderId c) (fld_id (sc_rootFolder c)) \<and>
      set (sc_files c) = {f \<in> set (bk_files b). fr_folderId f = Some (sc_currentFolderId c) \<and> fr_status f = Complete \<and> fr_deletedAt f = None}) \<and>
    fst (sharedFile token fid b) \<noteq> Inl Diverges \<and> fst (getSharedContent id id token target b) \<noteq> Inl Diverges"
proof (intro conjI allI impI)
  have "fst (sharedFile token fid b) \<noteq> Inl Diverges \<and> fst (getSharedContent id id token target b) \<noteq> Inl Diverges"
  proof (rule sharedRoot_cases [of token b])
    assume "sharedRoot token b = (Inl (NotFoundException ''Shared folder not found''), b)"
    then show ?thesis by (simp add: sharedFile_def getSharedContent_def bindOp_def)
  next
    fix r assume "sharedRoot token b = (Inr r, b)"
    moreover obtain c1 c2 where "sharedCrumbsFrom b (fld_id r) (the target) [] = Some c1"
        "sharedCrumbsFrom b (fld_id r) (fld_id r) [] = Some c2"
      using sharedCrumbsFrom_total [OF assms] by meson
    ultimately show ?thesis
      by (auto simp: sharedFile_def getSharedContent_def buildSharedBreadcrumbs_def bindOp_def thenOp_def getsOp_def unlessOp_def
          returnOp_def throwOp_def Let_def requireDescendant_apply assms split: option.splits)
  qed
  then show "fst (sharedFile token fid b) \<noteq> Inl Diverges" "fst (getSharedContent id id token target b) \<noteq> Inl Diverges"
    by simp_all
qed (use sharedFile_Inr [OF assms] getSharedContent_Inr [OF assms] in blast)+

definition shareDemo :: backend where
  "shareDemo = emptyBackend\<lparr>
     bk_folders := [(newFolderRow ''r'' ''pub'' None ''u1'' 0)\<lparr>fld_shareToken := Some ''tok''\<rparr>,
       newFolderRow ''s'' ''sub'' (Some ''r'') ''u1'' 0, newFolderRow ''x'' ''other'' None ''u1'' 0],
     bk_files := [newFileRow ''f1'' ''a'' 5 (Some ''s'') ''u1'' 0, newFileRow ''f2'' ''b'' 5 (Some ''x'') ''u1'' 0]\<rparr>"

lemma shareDemo_forest: "folderForest shareDemo"
  by (simp add: folderForest_def shareDemo_def newFolderRow_def)

theorem share_link_safe_witness:
  "sharedFile ''tok'' ''f1'' shareDemo = (Inr (newFileRow ''f1'' ''a'' 5 (Some ''s'') ''u1'' 0), shareDemo) \<and>
   fst (sharedFile ''tok'' ''f2'' shareDemo) = Inl (BadRequestException ''File is not part of this shared link'') \<and>
   (\<exists>r d. r \<in> set (bk_folders shareDemo) \<and> fld_shareToken r = Some ''tok'' \<and> d = ''s'' \<and> liveBelow shareDemo d (fld_id r))"
proof -
  have f1: "sharedFile ''tok'' ''f1'' shareDemo = (Inr (newFileRow ''f1'' ''a'' 5 (Some ''s'') ''u1'' 0), shareDemo)"
    and f2: "fst (sharedFile ''tok'' ''f2'' shareDemo) = Inl (BadRequestException ''File is not part of this shared link'')"
    by (simp_all add: sharedFile_def sharedRoot_def requireDescendant_def shareDemo_def newFolderRow_def newFileRow_def
        op_unfold present_def isDescendantOf.simps findFolder_def)
  from share_link_safe [OF shareDemo_forest, of "''tok''" "''f1''" None] f1 f2 show ?thesis
    by (auto simp: newFileRow_def)
qed

subsection \<open>Moves keep the forest\<close>

lemma parentRel_move:
  assumes "\<And>f. fld_id (h f) = fld_id f" and "\<And>f. fld_parentId (h f) = p"
  shows "parentRel (updateWhere (\<lambda>f. fld_id f = x) h fs) \<subseteq>
    {(y, q) \<in> parentRel fs. y \<noteq> x} \<union> (case p of None \<Rightarrow> {} | Some q \<Rightarrow> {(x, q)})"
  using assms by (auto simp: parentRel_def set_updateWhere split: if_splits option.splits)

lemma folderForest_place:
  assumes "folderForest b" and "\<And>q. p = Some q \<Longrightarrow> (q, x) \<notin> (parentRel (bk_folders b))\<^sup>*"
  shows "folderForest (setFolders (updateWhere (\<lambda>f. fld_id f = x) (\<lambda>f. f\<lparr>fld_parentId := p\<rparr>)) b)"
proof -
  let ?r = "parentRel (bk_folders b)"
  let ?s = "parentRel (updateWhere (\<lambda>f. fld_id f = x) (\<lambda>f. f\<lparr>fld_parentId := p\<rparr>) (bk_folders b))"
  have ac: "acyclic ?r" using assms(1) by (simp add: folderForest_def)
  have sub: "?s \<subseteq> {(y, q) \<in> ?r. y \<noteq> x} \<union> (case p of None \<Rightarrow> {} | Some q \<Rightarrow> {(x, q)})"
    by (rule parentRel_move) simp_all
  have "acyclic ?s"
  proof (cases p)
    case None
    with sub have "?s \<subseteq> ?r" by auto
    with ac show ?thesis by (rule acyclic_subset)
  next
    case (Some q)
    with sub have "?s \<subseteq> insert (x, q) ?r" by auto
    moreover have "acyclic (insert (x, q) ?r)" using ac assms(2) [OF Some] by simp
    ultimately show ?thesis by (rule acyclic_subset [rotated])
  qed
  then show ?thesis
    using assms(1) by (simp add: folderForest_def map_updateWhere_key)
qed

definition namedIds :: "backend \<Rightarrow> bool" where
  "namedIds b \<longleftrightarrow> (\<forall>f \<in> set (bk_folders b). fld_id f \<noteq> [])"

text \<open>
  C5. Moving a folder (under any conflict action but a merge) keeps the folders a forest: a folder is
  never moved into itself or below itself, whatever the deletion state of the folders between,
  and in a forest the check of the parent chain ends.
\<close>
theorem move_keeps_forest:
  assumes "folderForest b" and "namedIds b" and "conflictAction \<noteq> Some Merge"
    and "folderMove fid newParentId userId conflictAction b = (r, b')"
  shows "folderForest b' \<and> r \<noteq> Inl Diverges"
proof -
  obtain d where d: "reachesFolder b (the newParentId) fid = Some d"
    using reachesFolder_total [OF assms(1)] by blast
  have place: "folderForest (setFolders (updateWhere (\<lambda>f. fld_id f = fid) (\<lambda>f. f\<lparr>fld_parentId := newParentId\<rparr>)) b)"
    if "liveFolder fid userId b = Some row" "present newParentId \<Longrightarrow> d = False" for row
  proof (rule folderForest_place [OF assms(1)], rule notI)
    fix q assume q: "newParentId = Some q" and reach: "(q, fid) \<in> (parentRel (bk_folders b))\<^sup>*"
    from find_SomeD [OF that(1) [unfolded liveFolder_def]] have fid: "fid \<noteq> []"
      using assms(2) by (auto simp: namedIds_def)
    have "q \<noteq> []"
    proof
      assume "q = []"
      with reach fid obtain z where "([], z) \<in> parentRel (bk_folders b)" by (auto elim: converse_rtranclE)
      then show False using assms(2) by (auto simp: parentRel_def namedIds_def)
    qed
    moreover have "[] \<notin> fld_id ` set (bk_folders b)" using assms(2) by (auto simp: namedIds_def)
    ultimately have "reachesFolder b q fid = Some True"
      using reachesFolder_False [OF assms(1) _ _ reach fid] by blast
    with q d that(2) \<open>q \<noteq> []\<close> show False by (simp add: present_def)
  qed
  show ?thesis
    using assms(1,3,4) d place
    by (auto simp: folderMove_def checkDestination_def op_unfold updateFolder_def Let_def
        split: option.splits if_splits)
qed

theorem move_keeps_forest_witness:
  "\<exists>b'. folderMove ''s'' (Some ''x'') ''u1'' None shareDemo = (Inr (), b') \<and> folderForest b' \<and>
     fst (folderMove ''r'' (Some ''s'') ''u1'' None shareDemo) = Inl (BadRequestException ''Cannot move folder into a subfolder of itself'')"
proof -
  have ids: "namedIds shareDemo" by (simp add: namedIds_def shareDemo_def newFolderRow_def)
  obtain r b' where m: "folderMove ''s'' (Some ''x'') ''u1'' None shareDemo = (r, b')"
    by (cases "folderMove ''s'' (Some ''x'') ''u1'' None shareDemo")
  have "r = Inr ()"
    using m by (simp add: folderMove_def checkDestination_def liveFolder_def shareDemo_def newFolderRow_def op_unfold present_def
        reachesFolder.simps findFolder_def checkFolderConflict_def notExcluded_def updateFolder_def)
  moreover have "fst (folderMove ''r'' (Some ''s'') ''u1'' None shareDemo) = Inl (BadRequestException ''Cannot move folder into a subfolder of itself'')"
    by (simp add: folderMove_def checkDestination_def liveFolder_def shareDemo_def newFolderRow_def op_unfold present_def
        reachesFolder.simps findFolder_def)
  moreover have "folderForest b'"
    using move_keeps_forest [OF shareDemo_forest ids _ m] by simp
  ultimately show ?thesis using m by blast
qed

subsection \<open>Permanent deletion of a tree\<close>

text \<open>Everything in a folder belongs to the folder's user.\<close>

definition ownedTree :: "backend \<Rightarrow> bool" where
  "ownedTree b \<longleftrightarrow>
     (\<forall>f \<in> set (bk_folders b). \<forall>g \<in> set (bk_folders b). fld_parentId f = Some (fld_id g) \<longrightarrow> fld_userId f = fld_userId g) \<and>
     (\<forall>r \<in> set (bk_files b). \<forall>g \<in> set (bk_folders b). fr_folderId r = Some (fld_id g) \<longrightarrow> fr_userId r = fld_userId g)"

lemma belowRel_mono: "(\<And>f. P f \<Longrightarrow> Q f) \<Longrightarrow> belowRel P fs \<subseteq> belowRel Q fs"
  by (auto simp: belowRel_def)

lemma owned_tree:
  assumes "ownedTree b" and "row \<in> set (bk_folders b)" and "fld_id row = fid" and "fld_userId row = uid"
  shows "set (folderTree (\<lambda>_. True) fid b) = set (folderTree (\<lambda>f. fld_userId f = uid) fid b)"
    and "x \<in> set (folderTree (\<lambda>_. True) fid b) \<Longrightarrow> \<exists>f \<in> set (bk_folders b). fld_id f = x \<and> fld_userId f = uid"
proof -
  let ?U = "\<lambda>f. fld_userId f = uid"
  have up: "(x, fid) \<in> (belowRel ?U (bk_folders b))\<^sup>* \<and> (\<exists>f \<in> set (bk_folders b). fld_id f = x \<and> fld_userId f = uid)"
    if "(x, fid) \<in> (belowRel (\<lambda>_. True) (bk_folders b))\<^sup>*" for x
    using that
  proof (induction rule: converse_rtrancl_induct)
    case base
    with assms show ?case by auto
  next
    case (step y z)
    from step(1) obtain f where f: "f \<in> set (bk_folders b)" "fld_id f = y" "fld_parentId f = Some z"
      by (auto simp: belowRel_def)
    from step(3) obtain g where "g \<in> set (bk_folders b)" "fld_id g = z" "fld_userId g = uid" by auto
    with f assms(1) have "fld_userId f = uid" by (auto simp: ownedTree_def)
    with f have "(y, z) \<in> belowRel ?U (bk_folders b)" by (auto simp: belowRel_def)
    with step(3) f \<open>fld_userId f = uid\<close> show ?case by (auto intro: converse_rtrancl_into_rtrancl)
  qed
  have down: "(belowRel ?U (bk_folders b))\<^sup>* \<subseteq> (belowRel (\<lambda>_. True) (bk_folders b))\<^sup>*"
    by (intro rtrancl_mono belowRel_mono) simp
  show "set (folderTree (\<lambda>_. True) fid b) = set (folderTree ?U fid b)"
    using up down assms(2-4) by (auto simp: set_folderTree)
  show "\<exists>f \<in> set (bk_folders b). fld_id f = x \<and> fld_userId f = uid" if "x \<in> set (folderTree (\<lambda>_. True) fid b)"
    using that up by (auto simp: set_folderTree)
qed

lemma folderTree_cong: "bk_folders b' = bk_folders b \<Longrightarrow> folderTree P fid b' = folderTree P fid b"
  by (simp add: folderTree_def)

lemma hardDelete_run:
  assumes "accounted b" and "ownedTree b" and "findUser uid b \<noteq> None" and "folderForest b"
    and "find (\<lambda>f. fld_id f = fid \<and> fld_userId f = uid \<and> (fld_deletedAt f \<noteq> None) = trashed) (bk_folders b) = Some row"
  shows "\<exists>b'. hardDeleteFolder ev cfg fid uid trashed msg b = (Inr (), b') \<and> accounted b' \<and>
    bk_files b' = filter (\<lambda>r. \<forall>d \<in> set (folderTree (\<lambda>_. True) fid b). fr_folderId r \<noteq> Some d) (bk_files b) \<and>
    bk_folders b' = filter (\<lambda>f. fld_id f \<notin> set (folderTree (\<lambda>_. True) fid b)) (bk_folders b)"
proof -
  from find_SomeD [OF assms(5)] have row: "row \<in> set (bk_folders b)" "fld_id row = fid" "fld_userId row = uid" by auto
  let ?ids = "collectFolderFileIds fid uid b"
  let ?T = "folderTree (\<lambda>_. True) fid b"
  note tree = owned_tree [OF assms(2) row]
  have inT: "(case fr_folderId r of None \<Rightarrow> False | Some d \<Rightarrow> d \<in> set ?T) \<longleftrightarrow> fr_id r \<in> set ?ids \<and> fr_userId r = uid"
    if "r \<in> set (bk_files b)" for r
  proof -
    have "fr_userId r = uid" if "fr_folderId r = Some d" "d \<in> set ?T" for d
      using tree(2) [OF that(2)] that(1) \<open>r \<in> set (bk_files b)\<close> assms(2) by (auto simp: ownedTree_def)
    moreover have "fr_id r \<in> set ?ids \<longleftrightarrow>
        (case fr_folderId r of None \<Rightarrow> False | Some d \<Rightarrow> d \<in> set (folderTree (\<lambda>f. fld_userId f = uid) fid b)) \<and> fr_userId r = uid"
      using key_in_filter [OF _ \<open>r \<in> set (bk_files b)\<close>, of fr_id] assms(1)
      by (simp add: collectFolderFileIds_def Let_def accounted_def)
    ultimately show ?thesis
      by (cases "fr_folderId r") (auto simp: tree(1))
  qed
  from bulk_removes [OF assms(1,3), of ?ids ev cfg] obtain n b1 where
    b1: "bulkPermanentDeleteFiles ev cfg ?ids uid b = (Inr n, b1)"
      "bk_files b1 = deleteWhere (\<lambda>r. fr_id r \<in> set ?ids \<and> fr_userId r = uid) (bk_files b)"
      "bk_folders b1 = bk_folders b" "accounted b1"
    by (auto simp: removes_def)
  have files1: "bk_files b1 = filter (\<lambda>r. \<forall>d \<in> set ?T. fr_folderId r \<noteq> Some d) (bk_files b)"
    unfolding b1(2) deleteWhere_def
  proof (rule filter_cong)
    fix r assume "r \<in> set (bk_files b)"
    from inT [OF this] show "(\<not> (fr_id r \<in> set ?ids \<and> fr_userId r = uid)) = (\<forall>d \<in> set ?T. fr_folderId r \<noteq> Some d)"
      by (auto split: option.splits)
  qed simp
  have found: "findFolder fid b1 = Some row"
    using row assms(4) find_key_unique [of fld_id "bk_folders b" row] by (simp add: findFolder_def b1(3) folderForest_def)
  let ?Q = "\<lambda>r. case fr_folderId r of None \<Rightarrow> False | Some d \<Rightarrow> d \<in> set ?T"
  have none: "deleteWhere ?Q (bk_files b1) = bk_files b1"
    unfolding files1 deleteWhere_def filter_filter by (rule filter_cong) (auto split: option.splits)
  have T1: "folderTree (\<lambda>_. True) fid b1 = ?T" by (rule folderTree_cong) (rule b1(3))
  have "hardDeleteFolder ev cfg fid uid trashed msg b = (Inr (), cascadeFolder fid b1)"
    using assms(5) b1(1) found
    by (simp add: hardDeleteFolder_def bindOp_def getsOp_def deleteFolder_apply)
  moreover have "accounted (cascadeFolder fid b1)"
    using b1(4) by (simp add: cascadeFolder_def T1 Let_def accounted_def none)
  moreover have "bk_files (cascadeFolder fid b1) = bk_files b1"
    by (simp add: cascadeFolder_def T1 Let_def none)
  moreover have "bk_folders (cascadeFolder fid b1) = filter (\<lambda>f. fld_id f \<notin> set ?T) (bk_folders b)"
    by (simp add: cascadeFolder_def T1 Let_def b1(3)) (simp add: deleteWhere_def)
  ultimately show ?thesis using files1 by auto
qed

text \<open>
  C6. Deleting a folder for good, live or from the trash, removes it with every folder and file below
  it and nothing else, and keeps the storage accounting: the deletion of the files releases
  all that the cascade of the folder then removes.
\<close>
theorem folder_delete_exact:
  assumes "accounted b" and "ownedTree b" and "findUser uid b \<noteq> None" and "folderForest b"
    and "\<exists>f \<in> set (bk_folders b). fld_id f = fid \<and> fld_userId f = uid \<and> fld_deletedAt f = None"
  shows "\<exists>b'. deleteLive ev cfg fid uid b = (Inr (), b') \<and> accounted b' \<and>
    bk_files b' = filter (\<lambda>r. \<forall>d. (d, fid) \<in> (parentRel (bk_folders b))\<^sup>* \<longrightarrow> fr_folderId r \<noteq> Some d) (bk_files b) \<and>
    bk_folders b' = filter (\<lambda>f. (fld_id f, fid) \<notin> (parentRel (bk_folders b))\<^sup>*) (bk_folders b)"
proof -
  from assms(5) obtain row where
    row: "find (\<lambda>f. fld_id f = fid \<and> fld_userId f = uid \<and> (fld_deletedAt f \<noteq> None) = False) (bk_folders b) = Some row"
    by (cases "find (\<lambda>f. fld_id f = fid \<and> fld_userId f = uid \<and> (fld_deletedAt f \<noteq> None) = False) (bk_folders b)")
      (auto simp: find_None_iff)
  have rel: "belowRel (\<lambda>_. True) (bk_folders b) = parentRel (bk_folders b)"
    by (simp add: belowRel_def parentRel_def)
  have tree: "x \<in> set (folderTree (\<lambda>_. True) fid b) \<longleftrightarrow> (x, fid) \<in> (parentRel (bk_folders b))\<^sup>*" for x
    using assms(5) by (auto simp: set_folderTree rel)
  from hardDelete_run [OF assms(1-4) row, of ev cfg "''Folder does not exist''"] show ?thesis
    by (simp add: deleteLive_def tree Ball_def)
qed

definition ownedDemo :: backend where
  "ownedDemo = shareDemo\<lparr>bk_users := [(newUserRow ''u1'' ''alice'' ''x'' 0)\<lparr>usr_usedSpace := 10\<rparr>]\<rparr>"

lemma ownedDemo_props:
  "accounted ownedDemo" "ownedTree ownedDemo" "findUser ''u1'' ownedDemo \<noteq> None" "folderForest ownedDemo"
  "\<exists>f \<in> set (bk_folders ownedDemo). fld_id f = ''r'' \<and> fld_userId f = ''u1'' \<and> fld_deletedAt f = None"
  "parentRel (bk_folders ownedDemo) = {(''s'', ''r'')}"
proof -
  show "folderForest ownedDemo" using shareDemo_forest by (simp add: folderForest_def ownedDemo_def)
qed (simp_all add: accounted_def ownedDemo_def shareDemo_def newUserRow_def newFileRow_def newFolderRow_def completeSize_def
      ownedTree_def findUser_def)

theorem folder_delete_exact_witness:
  "\<exists>b'. deleteLive False noCdn ''r'' ''u1'' ownedDemo = (Inr (), b') \<and>
     accounted b' \<and> map fr_id (bk_files b') = [''f2''] \<and> map fld_id (bk_folders b') = [''x'']"
proof -
  have reach: "(d, ''r'') \<in> {(''s'', ''r'')}\<^sup>* \<longleftrightarrow> d = ''r'' \<or> d = ''s''" for d
    by (auto elim: converse_rtranclE)
  obtain b' where b': "deleteLive False noCdn ''r'' ''u1'' ownedDemo = (Inr (), b')" "accounted b'"
    "bk_files b' = filter (\<lambda>r. \<forall>d. d = ''r'' \<or> d = ''s'' \<longrightarrow> fr_folderId r \<noteq> Some d) (bk_files ownedDemo)"
    "bk_folders b' = filter (\<lambda>f. \<not> (fld_id f = ''r'' \<or> fld_id f = ''s'')) (bk_folders ownedDemo)"
    using folder_delete_exact [OF ownedDemo_props(1-5), of False noCdn] unfolding ownedDemo_props(6) reach by blast
  have "map fr_id (bk_files b') = [''f2'']" "map fld_id (bk_folders b') = [''x'']"
    by (simp_all add: b'(3,4)) (simp_all add: ownedDemo_def shareDemo_def newFileRow_def newFolderRow_def)
  with b'(1,2) show ?thesis by (intro exI conjI)
qed

definition mergeLossDemo :: backend where
  "mergeLossDemo = emptyBackend\<lparr>bk_users := [(newUserRow ''u1'' ''alice'' ''x'' 0)\<lparr>usr_usedSpace := 5\<rparr>],
     bk_folders := [newFolderRow ''p'' ''box'' None ''u1'' 0, newFolderRow ''s'' ''docs'' (Some ''p'') ''u1'' 0,
       newFolderRow ''t'' ''docs'' None ''u1'' 0],
     bk_files := [(newFileRow ''f1'' ''a'' 5 (Some ''s'') ''u1'' 0)\<lparr>fr_deletedAt := Some 10\<rparr>]\<rparr>"

text \<open>
  Moving a folder with the merge action destroys the trashed files left inside it: the merge
  moves live files only, and the deletion of the emptied folder cascades to the rest, whose space
  stays charged and whose messages stay on Telegram.
\<close>
theorem merge_move_destroys_trash:
  "accounted mergeLossDemo \<and>
   (\<exists>b'. folderMove ''s'' None ''u1'' (Some Merge) mergeLossDemo = (Inr (), b') \<and> bk_files b' = [] \<and>
      map usr_usedSpace (bk_users b') = [5] \<and> bk_outbox b' = [])"
proof -
  have tree: "folderTree (\<lambda>_. True) ''s'' b = [''s'']"
    if "bk_folders b = [newFolderRow ''p'' ''box'' None ''u1'' 0, newFolderRow ''s'' ''docs'' (Some ''p'') ''u1'' 0,
       newFolderRow ''t'' ''docs'' None ''u1'' 0]" for b
    using that by (simp add: folderTree_def newFolderRow_def childIds_def)
  show ?thesis
    by (simp add: accounted_def mergeLossDemo_def newUserRow_def newFileRow_def completeSize_def folderMove_def liveFolder_def
        emptyBackend_def newFolderRow_def checkDestination_def present_def checkFolderConflict_def notExcluded_def
        op_unfold mergeFolderContents_def liveFilesIn_def liveFoldersIn_def deleteFolder_def findFolder_def cascadeFolder_def
        folderTree_def childIds_def deleteFilesWhere_def setFolders_def Let_def)
qed

end
