(* ===== verification/FileMeta.thy ===== *)
theory FileMeta
  imports FolderService
begin

section \<open>File metadata\<close>

text \<open>
  \<^verbatim>\<open>FileMetadataService\<close> (backend/src/file/file-metadata.service.ts): the lookups, renaming,
  moving, sharing and the trash of single files, and the trash listings of files and (from
  folder.service.ts) of folders. The order in which the database lists rows
  (\<open>orderBy\<close>), the order of ids and the case-insensitive search are arguments.
\<close>

definition liveFile :: "string \<Rightarrow> string \<Rightarrow> backend \<Rightarrow> file_row option" where
  "liveFile fid userId b =
     find (\<lambda>f. fr_id f = fid \<and> fr_userId f = userId \<and> fr_deletedAt f = None) (bk_files b)"

definition getFileInfo :: "string \<Rightarrow> string \<Rightarrow> file_row bop" where
  "getFileInfo fid userId = bindOp (getsOp (liveFile fid userId)) (\<lambda>row. case row of
     None \<Rightarrow> throwOp (NotFoundException ''File not found'') | Some f \<Rightarrow> returnOp f)"

definition getSharedFileInfo :: "string \<Rightarrow> file_row bop" where
  "getSharedFileInfo token = bindOp (getsOp (find (\<lambda>f. fr_shareToken f = Some token) \<circ> bk_files)) (\<lambda>row. case row of
     None \<Rightarrow> throwOp (NotFoundException ''Shared file not found'') | Some f \<Rightarrow> returnOp f)"

definition fileRename :: "string \<Rightarrow> string \<Rightarrow> string \<Rightarrow> unit bop" where
  "fileRename fid newName userId = bindOp (getsOp (liveFile fid userId)) (\<lambda>row. case row of
     None \<Rightarrow> throwOp (NotFoundException ''File not found'')
   | Some f \<Rightarrow> bindOp (getsOp (checkFileConflict (fr_folderId f) newName userId (Some fid))) (\<lambda>conflict.
       if conflict \<noteq> None then throwOp (NameConflict ''file'' None None None)
       else updateFile fid (\<lambda>r. r\<lparr>fr_filename := newName\<rparr>)))"

definition fileMove :: "string \<Rightarrow> string option \<Rightarrow> string \<Rightarrow> conflict_action option \<Rightarrow> int \<Rightarrow> unit bop" where
  "fileMove fid newFolderId userId conflictAction now = bindOp (getsOp (liveFile fid userId)) (\<lambda>row. case row of
     None \<Rightarrow> throwOp (NotFoundException ''File not found'')
   | Some f \<Rightarrow>
      bindOp (getsOp (\<lambda>b. present newFolderId \<longrightarrow> liveFolder (the newFolderId) userId b \<noteq> None)) (\<lambda>folderOk.
      thenOp (unlessOp folderOk (NotFoundException ''Destination folder not found''))
      (bindOp (getsOp (\<lambda>b. (checkFileConflict newFolderId (fr_filename f) userId (Some fid) b,
          generateUniqueName (fr_filename f) (getExistingNames newFolderId userId b)))) (\<lambda>(conflict, uniqueName).
       thenOp (case conflict of None \<Rightarrow> returnOp ()
         | Some c \<Rightarrow>
            if conflictAction = None \<or> conflictAction = Some Skip then
              throwOp (NameConflict ''file'' (Some (fr_id c)) (Some (fr_filename c)) (Some uniqueName))
            else if conflictAction = Some Overwrite then updateFile (fr_id c) (\<lambda>r. r\<lparr>fr_deletedAt := Some now\<rparr>)
            else if conflictAction = Some Rename then updateFile fid (\<lambda>r. r\<lparr>fr_filename := uniqueName\<rparr>)
            else returnOp ())
       (updateFile fid (\<lambda>r. r\<lparr>fr_folderId := newFolderId\<rparr>))))))"

definition fileShare :: "string \<Rightarrow> string \<Rightarrow> string \<Rightarrow> unit bop" where
  "fileShare fid userId randomToken = bindOp (getsOp (liveFile fid userId)) (\<lambda>row. case row of
     None \<Rightarrow> throwOp (NotFoundException ''File not found'')
   | Some f \<Rightarrow> updateFile fid (\<lambda>r. r\<lparr>fr_visibility := PUBLIC_LINK,
       fr_shareToken := (if present (fr_shareToken f) then fr_shareToken f else Some randomToken)\<rparr>))"

definition fileUnshare :: "string \<Rightarrow> string \<Rightarrow> unit bop" where
  "fileUnshare fid userId = bindOp (getsOp (liveFile fid userId)) (\<lambda>row. case row of
     None \<Rightarrow> throwOp (NotFoundException ''File not found'')
   | Some _ \<Rightarrow> updateFile fid (\<lambda>r. r\<lparr>fr_visibility := PRIVATE, fr_shareToken := None\<rparr>))"

definition fileSoftDelete :: "string \<Rightarrow> string \<Rightarrow> int \<Rightarrow> unit bop" where
  "fileSoftDelete fid userId now = bindOp (getsOp (liveFile fid userId)) (\<lambda>row. case row of
     None \<Rightarrow> throwOp (NotFoundException ''File not found'')
   | Some _ \<Rightarrow> updateFile fid (\<lambda>r. r\<lparr>fr_deletedAt := Some now\<rparr>))"

definition trashedFile :: "string \<Rightarrow> string \<Rightarrow> backend \<Rightarrow> file_row option" where
  "trashedFile fid userId b =
     find (\<lambda>f. fr_id f = fid \<and> fr_userId f = userId \<and> fr_deletedAt f \<noteq> None) (bk_files b)"

definition fileRestore :: "string \<Rightarrow> string \<Rightarrow> (string \<times> bool) bop" where
  "fileRestore fid userId = bindOp (getsOp (trashedFile fid userId)) (\<lambda>row. case row of
     None \<Rightarrow> throwOp (NotFoundException ''File not found in trash'')
   | Some f \<Rightarrow> bindOp (getsOp (\<lambda>b. (checkFileConflict (fr_folderId f) (fr_filename f) userId (Some fid) b,
         getExistingNames (fr_folderId f) userId b))) (\<lambda>(conflict, existingNames).
       (let autoRenamed = (conflict \<noteq> None);
            finalFilename = (if autoRenamed then generateUniqueName (fr_filename f) existingNames else fr_filename f) in
        thenOp (updateFile fid (\<lambda>r. r\<lparr>fr_deletedAt := None,
            fr_filename := (if autoRenamed then finalFilename else fr_filename r)\<rparr>))
        (returnOp (finalFilename, autoRenamed)))))"

subsection \<open>The trash listings\<close>

text \<open>
  A page: the rows, the cursor of the next page (the last row's deletion time and id, which
  the code writes as base64 text) and the total. A decoded cursor replaces the
  condition \<^verbatim>\<open>OR\<close>.
\<close>

record 'r trash_page =
  tpg_items :: "'r list"
  tpg_nextCursor :: "(int \<times> string) option"
  tpg_total :: nat

definition trashPage :: "('r list \<Rightarrow> 'r list) \<Rightarrow> ('r \<Rightarrow> int option) \<Rightarrow> ('r \<Rightarrow> string) \<Rightarrow> nat \<Rightarrow> ('r \<Rightarrow> bool) \<Rightarrow> 'r list \<Rightarrow> 'r trash_page" where
  "trashPage orderBy deletedAt rid limit wh rows =
    (let matching = filter wh rows; got = take (limit + 1) (orderBy matching); hasNext = length got > limit;
         items = (if hasNext then butlast got else got) in
     \<lparr>tpg_items = items,
      tpg_nextCursor = (if hasNext then Some (the (deletedAt (last items)), rid (last items)) else None),
      tpg_total = length matching\<rparr>)"

definition beforeCursor :: "(string \<Rightarrow> string \<Rightarrow> bool) \<Rightarrow> int option \<Rightarrow> string \<Rightarrow> int \<times> string \<Rightarrow> bool" where
  "beforeCursor idLess d i cursor = (case (d, cursor) of
     (Some t, (timestamp, cursorId)) \<Rightarrow> t < timestamp \<or> t = timestamp \<and> idLess i cursorId | _ \<Rightarrow> False)"

definition fileTrashWhere ::
  "(string \<Rightarrow> string \<Rightarrow> bool) \<Rightarrow> (string \<Rightarrow> string \<Rightarrow> bool) \<Rightarrow> string \<Rightarrow> string option \<Rightarrow> (int \<times> string) option \<Rightarrow> backend \<Rightarrow>
   file_row \<Rightarrow> bool" where
  "fileTrashWhere idLess contains userId search cursor b f \<longleftrightarrow>
     fr_userId f = userId \<and> fr_deletedAt f \<noteq> None \<and> (present search \<longrightarrow> contains (the search) (fr_filename f)) \<and>
     (case cursor of None \<Rightarrow> (case fr_folderId f of None \<Rightarrow> True
          | Some d \<Rightarrow> (case findFolder d b of None \<Rightarrow> False | Some p \<Rightarrow> fld_deletedAt p = None))
      | Some c \<Rightarrow> beforeCursor idLess (fr_deletedAt f) (fr_id f) c)"

definition listFileTrash ::
  "(file_row list \<Rightarrow> file_row list) \<Rightarrow> (string \<Rightarrow> string \<Rightarrow> bool) \<Rightarrow> (string \<Rightarrow> string \<Rightarrow> bool) \<Rightarrow> string \<Rightarrow> string option \<Rightarrow>
   (int \<times> string) option \<Rightarrow> nat option \<Rightarrow> backend \<Rightarrow> file_row trash_page" where
  "listFileTrash orderBy idLess contains userId search cursor limit b =
     trashPage orderBy fr_deletedAt fr_id (case limit of None \<Rightarrow> 20 | Some l \<Rightarrow> l)
       (fileTrashWhere idLess contains userId search cursor b) (bk_files b)"

definition folderTrashWhere ::
  "(string \<Rightarrow> string \<Rightarrow> bool) \<Rightarrow> (string \<Rightarrow> string \<Rightarrow> bool) \<Rightarrow> string \<Rightarrow> string option \<Rightarrow> (int \<times> string) option \<Rightarrow> backend \<Rightarrow>
   folder_row \<Rightarrow> bool" where
  "folderTrashWhere idLess contains userId search cursor b f \<longleftrightarrow>
     fld_userId f = userId \<and> fld_deletedAt f \<noteq> None \<and> (present search \<longrightarrow> contains (the search) (fld_name f)) \<and>
     (case cursor of None \<Rightarrow> (case fld_parentId f of None \<Rightarrow> True
          | Some d \<Rightarrow> (case findFolder d b of None \<Rightarrow> False | Some p \<Rightarrow> fld_deletedAt p = None))
      | Some c \<Rightarrow> the (fld_deletedAt f) < fst c \<and> beforeCursor idLess (fld_deletedAt f) (fld_id f) c)"

definition listFolderTrash ::
  "(folder_row list \<Rightarrow> folder_row list) \<Rightarrow> (string \<Rightarrow> string \<Rightarrow> bool) \<Rightarrow> (string \<Rightarrow> string \<Rightarrow> bool) \<Rightarrow> string \<Rightarrow> string option \<Rightarrow>
   (int \<times> string) option \<Rightarrow> nat option \<Rightarrow> backend \<Rightarrow> folder_row trash_page" where
  "listFolderTrash orderBy idLess contains userId search cursor limit b =
     trashPage orderBy fld_deletedAt fld_id (case limit of None \<Rightarrow> 20 | Some l \<Rightarrow> l)
       (folderTrashWhere idLess contains userId search cursor b) (bk_folders b)"

subsection \<open>Names stay unique\<close>

text \<open>
  Live files of a user in the same folder, the root included, have different names. The
  database index guarantees this inside folders only; at the root it rests on the services.
\<close>

definition sameSlot :: "file_row \<Rightarrow> file_row \<Rightarrow> bool" where
  "sameSlot f g \<longleftrightarrow> fr_userId f = fr_userId g \<and> fr_folderId f = fr_folderId g \<and> fr_filename f = fr_filename g"

definition liveNamesUnique :: "backend \<Rightarrow> bool" where
  "liveNamesUnique b \<longleftrightarrow> (\<forall>f \<in> set (bk_files b). \<forall>g \<in> set (bk_files b).
     fr_deletedAt f = None \<and> fr_deletedAt g = None \<and> sameSlot f g \<longrightarrow> fr_id f = fr_id g)"

lemma sameSlot_sym: "sameSlot f g = sameSlot g f"
  by (auto simp: sameSlot_def)

lemma liveNamesUniqueD:
  "liveNamesUnique b \<Longrightarrow> f \<in> set (bk_files b) \<Longrightarrow> g \<in> set (bk_files b) \<Longrightarrow> fr_deletedAt f = None \<Longrightarrow> fr_deletedAt g = None \<Longrightarrow>
   sameSlot f g \<Longrightarrow> fr_id f = fr_id g"
  by (simp add: liveNamesUnique_def)

lemma updateFile_Inr: "updateFile fid h b = (Inr x, b') \<Longrightarrow> b' = setFiles (updateWhere (\<lambda>r. fr_id r = fid) h) b"
  by (auto simp: op_simps split: option.splits if_splits)

text \<open>Changing one file keeps names unique when its new slot is not taken by another live file.\<close>

lemma names_update:
  assumes "liveNamesUnique b" and "\<And>r. fr_id (h r) = fr_id r"
    and "\<And>f g. f \<in> set (bk_files b) \<Longrightarrow> fr_id f = fid \<Longrightarrow> g \<in> set (bk_files b) \<Longrightarrow> fr_id g \<noteq> fid \<Longrightarrow>
      fr_deletedAt g = None \<Longrightarrow> fr_deletedAt (h f) = None \<Longrightarrow> \<not> sameSlot (h f) g"
  shows "liveNamesUnique (setFiles (updateWhere (\<lambda>r. fr_id r = fid) h) b)"
proof -
  let ?u = "\<lambda>r. if fr_id r = fid then h r else r"
  have key: "fr_id (?u r) = fr_id r" for r using assms(2) by simp
  have clash: "fr_id x = fid \<longleftrightarrow> fr_id y = fid"
    if "x \<in> set (bk_files b)" "y \<in> set (bk_files b)" "fr_deletedAt (?u x) = None" "fr_deletedAt (?u y) = None" "sameSlot (?u x) (?u y)" for x y
    using assms(3) [of x y] assms(3) [of y x] that sameSlot_sym [of "?u x" "?u y"] by (auto split: if_splits)
  have "fr_id x = fr_id y"
    if xy: "x \<in> set (bk_files b)" "y \<in> set (bk_files b)" "fr_deletedAt (?u x) = None" "fr_deletedAt (?u y) = None" "sameSlot (?u x) (?u y)" for x y
  proof (cases "fr_id x = fid")
    case True
    then show ?thesis using clash [OF xy] by simp
  next
    case False
    moreover from this have "fr_id y \<noteq> fid" using clash [OF xy] by simp
    ultimately show ?thesis using xy assms(1) by (auto simp: liveNamesUnique_def)
  qed
  then show ?thesis
    unfolding liveNamesUnique_def setFiles_def updateWhere_def by (simp add: ball_simps(9) key del: image_Un if_image_distrib)
qed

lemma names_trash: "liveNamesUnique b \<Longrightarrow> liveNamesUnique (setFiles (updateWhere (\<lambda>r. fr_id r = fid) (\<lambda>r. r\<lparr>fr_deletedAt := Some t\<rparr>)) b)"
  by (rule names_update) simp_all

lemma liveFile_SomeD:
  "liveFile fid userId b = Some f \<Longrightarrow> f \<in> set (bk_files b) \<and> fr_id f = fid \<and> fr_userId f = userId \<and> fr_deletedAt f = None"
  by (auto simp: liveFile_def dest: find_SomeD)

lemma no_fileConflict:
  "checkFileConflict d n u (Some fid) b = None \<Longrightarrow> fid \<noteq> [] \<Longrightarrow> g \<in> set (bk_files b) \<Longrightarrow> fr_id g \<noteq> fid \<Longrightarrow> fr_deletedAt g = None \<Longrightarrow>
   \<not> (fr_userId g = u \<and> fr_folderId g = d \<and> fr_filename g = n)"
  by (auto simp: checkFileConflict_def notExcluded_def present_def find_None_iff)

lemma fresh_name_free:
  "g \<in> set (bk_files b) \<Longrightarrow> fr_folderId g = d \<Longrightarrow> fr_userId g = u \<Longrightarrow> fr_deletedAt g = None \<Longrightarrow>
   fr_filename g \<noteq> generateUniqueName n (getExistingNames d u b)"
proof -
  assume "g \<in> set (bk_files b)" "fr_folderId g = d" "fr_userId g = u" "fr_deletedAt g = None"
  then have "fr_filename g \<in> set (getExistingNames d u b)" by (auto simp: getExistingNames_def)
  then show ?thesis using generateUniqueName_free [of n "getExistingNames d u b"] by metis
qed

text \<open>Rows of the table: distinct ids, none empty.\<close>

definition fileKeys :: "backend \<Rightarrow> bool" where
  "fileKeys b \<longleftrightarrow> distinct (map fr_id (bk_files b)) \<and> (\<forall>f \<in> set (bk_files b). fr_id f \<noteq> [])"

lemma fileKeys_same: "fileKeys b \<Longrightarrow> f \<in> set (bk_files b) \<Longrightarrow> g \<in> set (bk_files b) \<Longrightarrow> fr_id f = fr_id g \<Longrightarrow> f = g"
  by (auto simp: fileKeys_def distinct_map inj_on_def)

lemma fileRename_names:
  assumes "fileKeys b" and "liveNamesUnique b" and "fileRename fid newName userId b = (Inr (), b')"
  shows "liveNamesUnique b'"
proof -
  from assms(3) obtain f where f: "liveFile fid userId b = Some f" "checkFileConflict (fr_folderId f) newName userId (Some fid) b = None"
      "b' = setFiles (updateWhere (\<lambda>r. fr_id r = fid) (\<lambda>r. r\<lparr>fr_filename := newName\<rparr>)) b"
    by (auto simp: fileRename_def bindOp_def getsOp_def throwOp_def split: option.splits if_splits dest: updateFile_Inr)
  note live = liveFile_SomeD [OF f(1)]
  show ?thesis
    unfolding f(3)
  proof (rule names_update [OF assms(2)])
    fix x g assume "x \<in> set (bk_files b)" "fr_id x = fid" "g \<in> set (bk_files b)" "fr_id g \<noteq> fid" "fr_deletedAt g = None"
    moreover from this have "x = f" using fileKeys_same [OF assms(1)] live by blast
    ultimately show "\<not> sameSlot (x\<lparr>fr_filename := newName\<rparr>) g"
      using no_fileConflict [OF f(2), of g] live assms(1) by (auto simp: sameSlot_def fileKeys_def)
  qed simp
qed

lemma fileRestore_names:
  assumes "fileKeys b" and "liveNamesUnique b" and "fileRestore fid userId b = (Inr res, b')"
  shows "liveNamesUnique b'"
proof -
  from assms(3) obtain f where f: "trashedFile fid userId b = Some f" and
      b': "b' = setFiles (updateWhere (\<lambda>r. fr_id r = fid) (\<lambda>r. r\<lparr>fr_deletedAt := None, fr_filename :=
        (if checkFileConflict (fr_folderId f) (fr_filename f) userId (Some fid) b \<noteq> None
         then generateUniqueName (fr_filename f) (getExistingNames (fr_folderId f) userId b) else fr_filename r)\<rparr>)) b"
    by (auto simp: fileRestore_def bindOp_def thenOp_def getsOp_def throwOp_def returnOp_def Let_def
        split: option.splits if_splits prod.splits sum.splits dest!: updateFile_Inr)
  from f have live: "f \<in> set (bk_files b)" "fr_id f = fid" "fr_userId f = userId"
    by (auto simp: trashedFile_def dest: find_SomeD)
  show ?thesis
    unfolding b'
  proof (rule names_update [OF assms(2)])
    fix x g assume x: "x \<in> set (bk_files b)" "fr_id x = fid" "g \<in> set (bk_files b)" "fr_id g \<noteq> fid" "fr_deletedAt g = None"
    then have "x = f" using fileKeys_same [OF assms(1)] live by blast
    with x show "\<not> sameSlot (x\<lparr>fr_deletedAt := None, fr_filename :=
        (if checkFileConflict (fr_folderId f) (fr_filename f) userId (Some fid) b \<noteq> None
         then generateUniqueName (fr_filename f) (getExistingNames (fr_folderId f) userId b) else fr_filename x)\<rparr>) g"
      using no_fileConflict [of "fr_folderId f" "fr_filename f" userId fid b g] fresh_name_free [of g b "fr_folderId f" userId "fr_filename f"]
        live assms(1)
      by (auto simp: sameSlot_def fileKeys_def)
  qed simp
qed

lemma fileMove_names:
  assumes "fileKeys b" and "liveNamesUnique b" and "act \<noteq> Some Merge" and "fileMove fid d userId act now b = (Inr (), b')"
  shows "liveNamesUnique b'"
proof -
  let ?conf = "\<lambda>f. checkFileConflict d (fr_filename f) userId (Some fid) b"
  let ?name = "\<lambda>f. generateUniqueName (fr_filename f) (getExistingNames d userId b)"
  let ?place = "setFiles (updateWhere (\<lambda>r. fr_id r = fid) (\<lambda>r. r\<lparr>fr_folderId := d\<rparr>))"
  from assms(3,4) obtain f where f: "liveFile fid userId b = Some f" and cases:
      "?conf f = None \<and> b' = ?place b \<or>
       (\<exists>c. ?conf f = Some c \<and> act = Some Overwrite \<and>
          b' = ?place (setFiles (updateWhere (\<lambda>r. fr_id r = fr_id c) (\<lambda>r. r\<lparr>fr_deletedAt := Some now\<rparr>)) b)) \<or>
       (\<exists>c. ?conf f = Some c \<and> act = Some Rename \<and>
          b' = ?place (setFiles (updateWhere (\<lambda>r. fr_id r = fid) (\<lambda>r. r\<lparr>fr_filename := ?name f\<rparr>)) b))"
    by (auto simp: fileMove_def bindOp_def thenOp_def getsOp_def throwOp_def returnOp_def unlessOp_def
        split: option.splits if_splits prod.splits sum.splits conflict_action.splits dest!: updateFile_Inr)
      (metis conflict_action.exhaust)+
  note live = liveFile_SomeD [OF f]
  have only: "x = f" if "x \<in> set (bk_files b)" "fr_id x = fid" for x
    using that fileKeys_same [OF assms(1)] live by blast
  from cases show ?thesis
  proof (elim disjE exE conjE)
    assume none: "?conf f = None" and b': "b' = ?place b"
    show ?thesis
      unfolding b'
    proof (rule names_update [OF assms(2)])
      fix x g assume "x \<in> set (bk_files b)" "fr_id x = fid" "g \<in> set (bk_files b)" "fr_id g \<noteq> fid" "fr_deletedAt g = None"
      with only [of x] no_fileConflict [OF none, of g] live assms(1)
      show "\<not> sameSlot (x\<lparr>fr_folderId := d\<rparr>) g" by (auto simp: sameSlot_def fileKeys_def)
    qed simp
  next
    fix c assume c: "?conf f = Some c"
    let ?b1 = "setFiles (updateWhere (\<lambda>r. fr_id r = fr_id c) (\<lambda>r. r\<lparr>fr_deletedAt := Some now\<rparr>)) b"
    assume b': "b' = ?place ?b1"
    from find_SomeD [OF c [unfolded checkFileConflict_def]] live assms(1) have cp: "c \<in> set (bk_files b)"
        "fr_folderId c = d" "fr_userId c = userId" "fr_filename c = fr_filename f" "fr_deletedAt c = None" "fr_id c \<noteq> fid"
      by (auto simp: notExcluded_def present_def fileKeys_def)
    show ?thesis
      unfolding b'
    proof (rule names_update [OF names_trash [OF assms(2)]])
      fix x g assume x: "x \<in> set (bk_files ?b1)" "fr_id x = fid" and g: "g \<in> set (bk_files ?b1)" "fr_id g \<noteq> fid" "fr_deletedAt g = None"
      from g have gb: "g \<in> set (bk_files b)" "fr_id g \<noteq> fr_id c" by (auto simp: set_updateWhere split: if_splits)
      from x cp(6) have "x \<in> set (bk_files b)" by (auto simp: set_updateWhere split: if_splits)
      with only x have "x = f" by blast
      have "\<not> sameSlot c g"
        using liveNamesUniqueD [OF assms(2) cp(1) gb(1) cp(5) g(3)] gb(2) by metis
      with \<open>x = f\<close> cp live show "\<not> sameSlot (x\<lparr>fr_folderId := d\<rparr>) g"
        by (simp add: sameSlot_def)
    qed simp
  next
    fix c
    assume b': "b' = ?place (setFiles (updateWhere (\<lambda>r. fr_id r = fid) (\<lambda>r. r\<lparr>fr_filename := ?name f\<rparr>)) b)"
    have "b' = setFiles (updateWhere (\<lambda>r. fr_id r = fid) (\<lambda>r. r\<lparr>fr_filename := ?name f, fr_folderId := d\<rparr>)) b"
      unfolding b' by (simp add: setFiles_def updateWhere_def comp_def if_distrib cong: if_cong)
    moreover have "liveNamesUnique (setFiles (updateWhere (\<lambda>r. fr_id r = fid) (\<lambda>r. r\<lparr>fr_filename := ?name f, fr_folderId := d\<rparr>)) b)"
    proof (rule names_update [OF assms(2)])
      fix x g assume x: "x \<in> set (bk_files b)" "fr_id x = fid" "g \<in> set (bk_files b)" "fr_id g \<noteq> fid" "fr_deletedAt g = None"
      with only have "x = f" by blast
      with x live fresh_name_free [of g b d userId "fr_filename f"]
      show "\<not> sameSlot (x\<lparr>fr_filename := ?name f, fr_folderId := d\<rparr>) g" by (auto simp: sameSlot_def)
    qed simp
    ultimately show ?thesis by simp
  qed
qed

text \<open>
  C7. Renaming, moving (with any action but a merge) and restoring a file leave every folder of the
  user, and the root, without two live files of one name.
\<close>
theorem file_names_stay_unique:
  assumes "fileKeys b" and "liveNamesUnique b"
  shows "(\<forall>b'. fileRename fid newName userId b = (Inr (), b') \<longrightarrow> liveNamesUnique b') \<and>
    (\<forall>b'. act \<noteq> Some Merge \<and> fileMove fid d userId act now b = (Inr (), b') \<longrightarrow> liveNamesUnique b') \<and>
    (\<forall>b' res. fileRestore fid userId b = (Inr res, b') \<longrightarrow> liveNamesUnique b')"
  using fileRename_names [OF assms] fileMove_names [OF assms] fileRestore_names [OF assms] by blast

definition fileDemo :: backend where
  "fileDemo = emptyBackend\<lparr>bk_files := [newFileRow ''f1'' ''a.txt'' 5 None ''u1'' 0,
     (newFileRow ''f2'' ''a.txt'' 6 None ''u1'' 0)\<lparr>fr_deletedAt := Some 10\<rparr>]\<rparr>"

theorem file_names_stay_unique_witness:
  "\<exists>b'. fileRestore ''f2'' ''u1'' fileDemo = (Inr (''a (1).txt'', True), b') \<and> liveNamesUnique b'"
proof -
  have "showNat 1 = ''1''" by code_simp
  then have name: "generateUniqueName ''a.txt'' [''a.txt''] = ''a (1).txt''"
    by (simp add: generateUniqueName_def splitExtension_def firstFreeName.simps candidateName_def)
  have "\<exists>b'. fileRestore ''f2'' ''u1'' fileDemo = (Inr (''a (1).txt'', True), b')"
    by (simp add: fileRestore_def trashedFile_def fileDemo_def newFileRow_def emptyBackend_def op_unfold checkFileConflict_def
        notExcluded_def present_def getExistingNames_def name updateFile_def writeFiles_def findFile_def activeUnique_def Let_def)
  then obtain b' where b': "fileRestore ''f2'' ''u1'' fileDemo = (Inr (''a (1).txt'', True), b')" by blast
  moreover have "fileKeys fileDemo" "liveNamesUnique fileDemo"
    by (simp_all add: fileKeys_def liveNamesUnique_def fileDemo_def newFileRow_def)
  ultimately show ?thesis
    using file_names_stay_unique [of fileDemo "''f2''" "[]" "''u1''" None None 0] by blast
qed

text \<open>
  The merge action of a file move has no branch: the file is moved next to the live file of the
  same name. At the root, which the index does not cover, two live files then share a name.
\<close>
theorem file_move_merge_duplicates:
  "\<exists>b b'. fileKeys b \<and> liveNamesUnique b \<and> fileMove ''f2'' None ''u1'' (Some Merge) 5 b = (Inr (), b') \<and> \<not> liveNamesUnique b'"
proof -
  let ?b = "emptyBackend\<lparr>bk_files := [newFileRow ''f1'' ''a.txt'' 5 None ''u1'' 0, newFileRow ''f2'' ''a.txt'' 6 (Some ''d'') ''u1'' 0]\<rparr>"
  have "fileKeys ?b" "liveNamesUnique ?b"
    by (simp_all add: fileKeys_def liveNamesUnique_def newFileRow_def sameSlot_def)
  moreover have "\<exists>b'. fileMove ''f2'' None ''u1'' (Some Merge) 5 ?b = (Inr (), b') \<and> \<not> liveNamesUnique b'"
    by (simp add: fileMove_def liveFile_def newFileRow_def emptyBackend_def op_unfold checkFileConflict_def
        notExcluded_def present_def updateFile_def writeFiles_def findFile_def activeUnique_def setFiles_def liveNamesUnique_def sameSlot_def)
  ultimately show ?thesis by blast
qed

subsection \<open>The trash\<close>

lemma map_id_update: "(\<And>r. r \<in> set rows \<Longrightarrow> P r \<Longrightarrow> h r = r) \<Longrightarrow> updateWhere P h rows = rows"
  by (induction rows) auto

lemma activeKeys_trash_subset: "set (activeKeys (updateWhere P (\<lambda>r. r\<lparr>fr_deletedAt := Some t\<rparr>) fs)) \<subseteq> set (activeKeys fs)"
  by (induction fs) auto

lemma activeUnique_trash: "activeUnique fs \<Longrightarrow> activeUnique (updateWhere P (\<lambda>r. r\<lparr>fr_deletedAt := Some t\<rparr>) fs)"
proof (induction fs)
  case (Cons f fs)
  then show ?case
    using activeKeys_trash_subset [of P t fs] by (auto simp: activeUnique_def split: if_splits)
qed simp

text \<open>
  Putting a live file into the trash and restoring it gives back the state as it was, under the
  file's own name, when nothing took its name in between.
\<close>
theorem file_trash_roundtrip:
  assumes "fileKeys b" and "liveNamesUnique b" and "activeUnique (bk_files b)" and "liveFile fid userId b = Some f"
  shows "\<exists>b1. fileSoftDelete fid userId now b = (Inr (), b1) \<and> fileRestore fid userId b1 = (Inr (fr_filename f, False), b)"
proof -
  let ?h = "\<lambda>r. r\<lparr>fr_deletedAt := Some now\<rparr>"
  let ?g = "\<lambda>r. r\<lparr>fr_deletedAt := None, fr_filename := fr_filename r\<rparr> :: file_row"
  let ?b1 = "setFiles (updateWhere (\<lambda>r. fr_id r = fid) ?h) b"
  note live = liveFile_SomeD [OF assms(4)]
  have ids: "distinct (map fr_id (bk_files b))" using assms(1) by (simp add: fileKeys_def)
  have found: "findFile fid b = Some f"
    unfolding findFile_def by (rule find_unique [OF ids]) (use live in auto)
  have deleted: "fileSoftDelete fid userId now b = (Inr (), ?b1)"
    using assms(3,4) found activeUnique_trash by (simp add: fileSoftDelete_def bindOp_def getsOp_def op_simps)
  have ids1: "distinct (map fr_id (bk_files ?b1))" using ids by (simp add: map_updateWhere_key)
  have mem: "?h f \<in> set (bk_files ?b1)" using live by (auto simp: set_updateWhere)
  have trashed: "trashedFile fid userId ?b1 = Some (?h f)"
    unfolding trashedFile_def by (rule find_unique [OF ids1 mem]) (use live in auto)
  have noconf: "checkFileConflict (fr_folderId f) (fr_filename f) userId (Some fid) ?b1 = None"
  proof (rule ccontr)
    assume "\<not> ?thesis"
    then obtain g where "checkFileConflict (fr_folderId f) (fr_filename f) userId (Some fid) ?b1 = Some g" by blast
    from find_SomeD [OF this [unfolded checkFileConflict_def]] live assms(1)
    have g: "g \<in> set (bk_files ?b1)" "fr_id g \<noteq> fid" "fr_deletedAt g = None" "sameSlot f g"
      by (auto simp: notExcluded_def present_def fileKeys_def sameSlot_def)
    then have "g \<in> set (bk_files b)" by (auto simp: set_updateWhere split: if_splits)
    from liveNamesUniqueD [OF assms(2) _ this _ g(3,4)] live g(2) show False by metis
  qed
  have undo: "updateWhere (\<lambda>r. fr_id r = fid) ?g (bk_files ?b1) = bk_files b"
  proof -
    have "\<And>r. r \<in> set (bk_files b) \<Longrightarrow> fr_id r = fid \<Longrightarrow> fr_deletedAt r = None"
      using fileKeys_same [OF assms(1)] live by metis
    then show ?thesis by (simp add: updateWhere_def map_idI)
  qed
  have "findFile fid ?b1 = Some (?h f)" using found by (simp add: findFile_update)
  then have "updateFile fid ?g ?b1 = (Inr (), b)"
    using undo assms(3) by (simp add: op_simps) (simp add: setFiles_def)
  with trashed noconf have "fileRestore fid userId ?b1 = (Inr (fr_filename f, False), b)"
    by (simp add: fileRestore_def bindOp_def thenOp_def getsOp_def returnOp_def Let_def)
  with deleted show ?thesis by blast
qed

theorem file_trash_roundtrip_witness:
  "\<exists>b1. fileSoftDelete ''f1'' ''u1'' 77 fileDemo = (Inr (), b1) \<and> fileRestore ''f1'' ''u1'' b1 = (Inr (''a.txt'', False), fileDemo)"
proof -
  have "fileKeys fileDemo" "liveNamesUnique fileDemo" "activeUnique (bk_files fileDemo)"
    "liveFile ''f1'' ''u1'' fileDemo = Some (newFileRow ''f1'' ''a.txt'' 5 None ''u1'' 0)"
    by (simp_all add: fileKeys_def liveNamesUnique_def activeUnique_def liveFile_def fileDemo_def newFileRow_def)
  from file_trash_roundtrip [OF this, of 77] show ?thesis by (simp add: newFileRow_def)
qed

definition pagedTrash :: backend where
  "pagedTrash = emptyBackend\<lparr>bk_folders := [(newFolderRow ''d'' ''docs'' None ''u1'' 0)\<lparr>fld_deletedAt := Some 20\<rparr>],
     bk_files := [(newFileRow ''f1'' ''a'' 5 None ''u1'' 0)\<lparr>fr_deletedAt := Some 30\<rparr>,
       (newFileRow ''f2'' ''b'' 5 (Some ''d'') ''u1'' 0)\<lparr>fr_deletedAt := Some 20\<rparr>,
       (newFileRow ''f3'' ''c'' 5 None ''u1'' 0)\<lparr>fr_deletedAt := Some 10\<rparr>]\<rparr>"

definition newestFirst :: "file_row list \<Rightarrow> file_row list" where
  "newestFirst = sort_key (\<lambda>f. - the (fr_deletedAt f))"

text \<open>
  The file trash lists only files that were trashed on their own, not with their folder; but the
  cursor of the next page replaces that condition, so from the second page on the files inside
  trashed folders are listed as well, and the total changes.
\<close>
theorem trash_second_page_leaks:
  "map fr_id (tpg_items (listFileTrash newestFirst (\<lambda>_ _. False) (\<lambda>_ _. True) ''u1'' None None (Some 10) pagedTrash)) = [''f1'', ''f3''] \<and>
   tpg_nextCursor (listFileTrash newestFirst (\<lambda>_ _. False) (\<lambda>_ _. True) ''u1'' None None (Some 1) pagedTrash) = Some (30, ''f1'') \<and>
   map fr_id (tpg_items (listFileTrash newestFirst (\<lambda>_ _. False) (\<lambda>_ _. True) ''u1'' None (Some (30, ''f1'')) (Some 1) pagedTrash)) = [''f2'']"
  by (simp add: listFileTrash_def trashPage_def fileTrashWhere_def pagedTrash_def newFileRow_def newFolderRow_def newestFirst_def
      findFolder_def present_def beforeCursor_def Let_def)

end
