(* ===== verification/Listing.thy ===== *)
theory Listing
  imports FolderService "HOL-Library.Multiset"
begin

section \<open>Paginated listings\<close>

text \<open>
  The listings with two cursors of \<^verbatim>\<open>FolderService\<close> (getContent, searchAll, listShared and the
  paginated getSharedContent), the where-builders they use (shared-items-where.ts,
  file-format-category.ts), and the client that follows the cursors (frontend hooks use-shared.ts
  and use-folder-content.ts). The order of strings in the database (its collation,
  \<open>strLess\<close>) and the case-insensitive \<open>contains\<close> are arguments. A cursor is the decoded object;
  the base64 and JSON text around it is left out.
\<close>

subsection \<open>Ordered pages of a table\<close>

datatype sort_direction = Asc | Desc

text \<open>The \<open>orderBy\<close> of the listings: a name or the creation time, then the id.\<close>

definition rowBefore ::
  "(string \<Rightarrow> string \<Rightarrow> bool) \<Rightarrow> ('r \<Rightarrow> string) \<Rightarrow> ('r \<Rightarrow> int) \<Rightarrow> ('r \<Rightarrow> string) \<Rightarrow> string \<Rightarrow> sort_direction \<Rightarrow> 'r \<Rightarrow> 'r \<Rightarrow> bool" where
  "rowBefore strLess name createdAt rid sortField dir x y =
     (let (a, c) = (case dir of Asc \<Rightarrow> (x, y) | Desc \<Rightarrow> (y, x)) in
      if sortField = ''name'' then strLess (name a) (name c) \<or> name a = name c \<and> strLess (rid a) (rid c)
      else createdAt a < createdAt c \<or> createdAt a = createdAt c \<and> strLess (rid a) (rid c))"

definition folderBefore :: "(string \<Rightarrow> string \<Rightarrow> bool) \<Rightarrow> string \<Rightarrow> sort_direction \<Rightarrow> folder_row \<Rightarrow> folder_row \<Rightarrow> bool" where
  "folderBefore strLess = rowBefore strLess fld_name fld_createdAt fld_id"

definition fileBefore :: "(string \<Rightarrow> string \<Rightarrow> bool) \<Rightarrow> string \<Rightarrow> sort_direction \<Rightarrow> file_row \<Rightarrow> file_row \<Rightarrow> bool" where
  "fileBefore strLess = rowBefore strLess fr_filename fr_createdAt fr_id"

fun insertBy :: "('r \<Rightarrow> 'r \<Rightarrow> bool) \<Rightarrow> 'r \<Rightarrow> 'r list \<Rightarrow> 'r list" where
  "insertBy lt x [] = [x]"
| "insertBy lt x (y # ys) = (if lt y x then y # insertBy lt x ys else x # y # ys)"

definition sortBy :: "('r \<Rightarrow> 'r \<Rightarrow> bool) \<Rightarrow> 'r list \<Rightarrow> 'r list" where
  "sortBy lt rows = foldr (insertBy lt) rows []"

text \<open>
  \<^verbatim>\<open>findMany\<close> with \<^verbatim>\<open>cursor: {id}\<close>, \<^verbatim>\<open>skip: 1\<close> and \<^verbatim>\<open>take\<close>: the matching rows that
  do not come before the row of the cursor, without the first of them. A cursor id that no row has gives no rows.
\<close>

definition findManyFrom ::
  "('r \<Rightarrow> 'r \<Rightarrow> bool) \<Rightarrow> ('r \<Rightarrow> string) \<Rightarrow> ('r \<Rightarrow> bool) \<Rightarrow> string option \<Rightarrow> nat \<Rightarrow> 'r list \<Rightarrow> 'r list" where
  "findManyFrom lt rid wh cursorId howMany rows =
     (let matching = sortBy lt (filter wh rows) in
      if present cursorId then
        (case find (\<lambda>r. Some (rid r) = cursorId) rows of None \<Rightarrow> []
         | Some k \<Rightarrow> take howMany (drop 1 (filter (\<lambda>r. \<not> lt r k) matching)))
      else take howMany matching)"

text \<open>Rows beyond the limit: whether there is a next page, and the rows of this one.\<close>

definition hasNextPage :: "nat \<Rightarrow> 'r list \<Rightarrow> bool" where
  "hasNextPage limit got = (limit < length got)"

definition pageItems :: "nat \<Rightarrow> 'r list \<Rightarrow> 'r list" where
  "pageItems limit got = (if hasNextPage limit got then butlast got else got)"

record list_cursor =
  lc_f :: "string option"
  lc_fc :: "string option"
  lc_fd :: bool

definition noCursor :: list_cursor where
  "noCursor = \<lparr>lc_f = None, lc_fc = None, lc_fd = False\<rparr>"

record listing_page =
  lp_folders :: "folder_row list"
  lp_files :: "file_row list"
  lp_nextFolderCursor :: "list_cursor option"
  lp_nextFileCursor :: "list_cursor option"
  lp_totals :: "(nat \<times> nat) option"

record page_query =
  pq_limit :: "nat option"
  pq_sortField :: "string option"
  pq_sortDirection :: "sort_direction option"
  pq_search :: "string option"
  pq_cursor :: "list_cursor option"

definition sortFieldOf :: "string option \<Rightarrow> string" where
  "sortFieldOf f = (if present f then the f else ''createdAt'')"

subsection \<open>The listings\<close>

definition visibleStatus :: "file_status \<Rightarrow> bool" where
  "visibleStatus s \<longleftrightarrow> s \<in> {Complete, Uploading, Buffered, Buffer_failed}"

text \<open>
  The two queries of \<^verbatim>\<open>getContent\<close> and \<^verbatim>\<open>searchAll\<close>. When a page of folders has
  been asked for by a cursor, files come only with the last page of the folders.
\<close>

definition contentPage ::
  "(folder_row \<Rightarrow> folder_row \<Rightarrow> bool) \<Rightarrow> (file_row \<Rightarrow> file_row \<Rightarrow> bool) \<Rightarrow> (folder_row \<Rightarrow> bool) \<Rightarrow> (file_row \<Rightarrow> bool) \<Rightarrow>
   bool \<Rightarrow> bool \<Rightarrow> nat \<Rightarrow> list_cursor \<Rightarrow> backend \<Rightarrow> listing_page" where
  "contentPage folderLess fileLess folderWhere fileWhere searchFolders searchFiles limit c b =
     (let isQueryNextFile = (present (lc_fc c) \<and> \<not> present (lc_f c));
          isQueryNextFolder = present (lc_f c);
          folders = (if \<not> searchFolders \<or> isQueryNextFile then []
             else findManyFrom folderLess fld_id folderWhere (lc_f c) (limit + 1) (bk_folders b));
          folderHasNext = hasNextPage limit folders;
          folderItems = pageItems limit folders;
          shouldFetchFiles = (searchFiles \<and> (\<not> isQueryNextFolder \<or> \<not> folderHasNext));
          files = (if shouldFetchFiles then findManyFrom fileLess fr_id fileWhere (lc_fc c) (limit + 1) (bk_files b) else []);
          fileItems = pageItems limit files in
      \<lparr>lp_folders = folderItems, lp_files = fileItems,
       lp_nextFolderCursor = (if folderHasNext then Some (noCursor\<lparr>lc_f := Some (fld_id (last folderItems)), lc_fc := lc_fc c\<rparr>) else None),
       lp_nextFileCursor = (if hasNextPage limit files then Some (noCursor\<lparr>lc_fc := Some (fr_id (last fileItems))\<rparr>) else None),
       lp_totals = Some (if searchFolders then countWhere folderWhere (bk_folders b) else 0,
          if searchFiles then countWhere fileWhere (bk_files b) else 0)\<rparr>)"

definition searchHit :: "(string \<Rightarrow> string \<Rightarrow> bool) \<Rightarrow> string option \<Rightarrow> string \<Rightarrow> bool" where
  "searchHit contains q name = (present q \<longrightarrow> contains (the q) name)"

definition contentFolderWhere :: "(string \<Rightarrow> string \<Rightarrow> bool) \<Rightarrow> string \<Rightarrow> string option \<Rightarrow> string option \<Rightarrow> folder_row \<Rightarrow> bool" where
  "contentFolderWhere contains userId folderId search f \<longleftrightarrow>
     fld_parentId f = orNull folderId \<and> fld_userId f = userId \<and> fld_deletedAt f = None \<and> searchHit contains search (fld_name f)"

definition contentFileWhere :: "(string \<Rightarrow> string \<Rightarrow> bool) \<Rightarrow> string \<Rightarrow> string option \<Rightarrow> string option \<Rightarrow> file_row \<Rightarrow> bool" where
  "contentFileWhere contains userId folderId search f \<longleftrightarrow>
     fr_folderId f = orNull folderId \<and> fr_userId f = userId \<and> visibleStatus (fr_status f) \<and> fr_deletedAt f = None \<and>
     searchHit contains search (fr_filename f)"

definition cursorOf :: "list_cursor option \<Rightarrow> list_cursor" where
  "cursorOf c = (case c of None \<Rightarrow> noCursor | Some d \<Rightarrow> d\<lparr>lc_fd := False\<rparr>)"

definition getContent ::
  "(string \<Rightarrow> string \<Rightarrow> bool) \<Rightarrow> (string \<Rightarrow> string \<Rightarrow> bool) \<Rightarrow> string \<Rightarrow> string option \<Rightarrow> page_query \<Rightarrow> backend \<Rightarrow> listing_page" where
  "getContent strLess contains userId folderId q =
     (let limit = (case pq_limit q of None \<Rightarrow> 50 | Some l \<Rightarrow> l); sortField = sortFieldOf (pq_sortField q);
          dir = (case pq_sortDirection q of None \<Rightarrow> Desc | Some d \<Rightarrow> d) in
      contentPage (folderBefore strLess sortField dir) (fileBefore strLess sortField dir)
        (contentFolderWhere contains userId folderId (pq_search q)) (contentFileWhere contains userId folderId (pq_search q))
        True True limit (cursorOf (pq_cursor q)))"

definition findAll :: "string \<Rightarrow> string option \<Rightarrow> backend \<Rightarrow> (folder_row \<times> (string \<times> string) list \<times> (string \<times> string) list) list" where
  "findAll userId parentId b =
     map (\<lambda>f. (f, map (\<lambda>c. (fld_id c, fld_name c)) (filter (\<lambda>c. fld_parentId c = Some (fld_id f) \<and> fld_deletedAt c = None) (bk_folders b)),
        map (\<lambda>x. (fr_id x, fr_filename x)) (filter (\<lambda>x. fr_folderId x = Some (fld_id f) \<and> fr_deletedAt x = None) (bk_files b))))
       (filter (\<lambda>f. fld_parentId f = orNull parentId \<and> fld_userId f = userId \<and> fld_deletedAt f = None) (bk_folders b))"

subsection \<open>The format filter\<close>

record matcher =
  mt_mimePrefixes :: "string list"
  mt_mimes :: "string list"
  mt_extensions :: "string list"

datatype format_condition = MimeStartsWith string | MimeIn "string list" | FilenameEndsWith string

datatype format_where = AnyOf "format_condition list" | NoneOf "format_condition list"

definition knownMatchers :: "(string \<times> matcher) list" where
  "knownMatchers =
    [(''image'', \<lparr>mt_mimePrefixes = [''image/''], mt_mimes = [], mt_extensions = []\<rparr>),
     (''video'', \<lparr>mt_mimePrefixes = [''video/''], mt_mimes = [], mt_extensions = []\<rparr>),
     (''audio'', \<lparr>mt_mimePrefixes = [''audio/''], mt_mimes = [], mt_extensions = []\<rparr>),
     (''document'', \<lparr>mt_mimePrefixes = [''text/''],
        mt_mimes = [''application/pdf'', ''application/msword'',
          ''application/vnd.openxmlformats-officedocument.wordprocessingml.document'', ''application/vnd.ms-excel'',
          ''application/vnd.openxmlformats-officedocument.spreadsheetml.sheet'', ''application/vnd.ms-powerpoint'',
          ''application/vnd.openxmlformats-officedocument.presentationml.presentation'', ''application/rtf''],
        mt_extensions = [''.pdf'', ''.doc'', ''.docx'', ''.xls'', ''.xlsx'', ''.ppt'', ''.pptx'', ''.txt'', ''.md'', ''.csv'', ''.rtf'']\<rparr>),
     (''archive'', \<lparr>mt_mimePrefixes = [],
        mt_mimes = [''application/zip'', ''application/x-rar-compressed'', ''application/vnd.rar'', ''application/x-7z-compressed'',
          ''application/x-tar'', ''application/gzip'', ''application/x-gzip''],
        mt_extensions = [''.zip'', ''.rar'', ''.7z'', ''.tar'', ''.gz'', ''.tgz'', ''.bz2'']\<rparr>)]"

definition matcherConditions :: "matcher \<Rightarrow> format_condition list" where
  "matcherConditions m = map MimeStartsWith (mt_mimePrefixes m) @
     (if mt_mimes m = [] then [] else [MimeIn (mt_mimes m)]) @ map FilenameEndsWith (mt_extensions m)"

definition formatCategories :: "string list" where
  "formatCategories = [''image'', ''video'', ''audio'', ''document'', ''archive'', ''other'']"

definition buildFormatWhere :: "string option \<Rightarrow> format_where option" where
  "buildFormatWhere category =
     (if \<not> present category \<or> the category \<notin> set formatCategories then None
      else if the category = ''other'' then Some (NoneOf (concat (map (matcherConditions \<circ> snd) knownMatchers)))
      else Some (AnyOf (matcherConditions (the (map_of knownMatchers (the category))))))"

text \<open>What the fragments mean for a row: \<^verbatim>\<open>mode: insensitive\<close> folds the case (of ASCII letters), \<^verbatim>\<open>in\<close> does not.\<close>

definition foldCase :: "string \<Rightarrow> string" where
  "foldCase s = map (\<lambda>c. if 65 \<le> (of_char c :: nat) \<and> (of_char c :: nat) \<le> 90 then char_of ((of_char c :: nat) + 32) else c) s"

fun conditionHolds :: "file_row \<Rightarrow> format_condition \<Rightarrow> bool" where
  "conditionHolds f (MimeStartsWith p) = (take (length p) (foldCase (fr_mimeType f)) = foldCase p)"
| "conditionHolds f (MimeIn ms) = (fr_mimeType f \<in> set ms)"
| "conditionHolds f (FilenameEndsWith e) =
     (length e \<le> length (fr_filename f) \<and> drop (length (fr_filename f) - length e) (foldCase (fr_filename f)) = foldCase e)"

fun formatHolds :: "format_where \<Rightarrow> file_row \<Rightarrow> bool" where
  "formatHolds (AnyOf cs) f = (\<exists>c \<in> set cs. conditionHolds f c)"
| "formatHolds (NoneOf cs) f = (\<not> (\<exists>c \<in> set cs. conditionHolds f c))"

subsection \<open>Search\<close>

record search_query =
  sq_q :: "string option"
  sq_type :: "string option"
  sq_format :: "string option"
  sq_createdFrom :: "int option"
  sq_createdTo :: "int option"
  sq_cursor :: "list_cursor option"
  sq_limit :: "nat option"
  sq_sortField :: "string option"
  sq_sortDirection :: "sort_direction option"

definition inRange :: "search_query \<Rightarrow> int \<Rightarrow> bool" where
  "inRange d t = ((case sq_createdFrom d of None \<Rightarrow> True | Some a \<Rightarrow> a \<le> t) \<and> (case sq_createdTo d of None \<Rightarrow> True | Some z \<Rightarrow> t \<le> z))"

definition searchFolderWhere :: "(string \<Rightarrow> string \<Rightarrow> bool) \<Rightarrow> string \<Rightarrow> search_query \<Rightarrow> folder_row \<Rightarrow> bool" where
  "searchFolderWhere contains userId d f \<longleftrightarrow>
     fld_userId f = userId \<and> fld_deletedAt f = None \<and> searchHit contains (sq_q d) (fld_name f) \<and> inRange d (fld_createdAt f)"

definition searchFileWhere :: "(string \<Rightarrow> string \<Rightarrow> bool) \<Rightarrow> string \<Rightarrow> search_query \<Rightarrow> file_row \<Rightarrow> bool" where
  "searchFileWhere contains userId d f \<longleftrightarrow>
     fr_userId f = userId \<and> visibleStatus (fr_status f) \<and> fr_deletedAt f = None \<and> searchHit contains (sq_q d) (fr_filename f) \<and>
     inRange d (fr_createdAt f) \<and> (case buildFormatWhere (sq_format d) of None \<Rightarrow> True | Some w \<Rightarrow> formatHolds w f)"

definition searchAll ::
  "(string \<Rightarrow> string \<Rightarrow> bool) \<Rightarrow> (string \<Rightarrow> string \<Rightarrow> bool) \<Rightarrow> string \<Rightarrow> search_query \<Rightarrow> backend \<Rightarrow> listing_page" where
  "searchAll strLess contains userId d =
     (let limit = (case sq_limit d of None \<Rightarrow> 50 | Some l \<Rightarrow> l); sortField = sortFieldOf (sq_sortField d);
          dir = (case sq_sortDirection d of None \<Rightarrow> Desc | Some x \<Rightarrow> x); type = (if present (sq_type d) then the (sq_type d) else ''all'') in
      contentPage (folderBefore strLess sortField dir) (fileBefore strLess sortField dir)
        (searchFolderWhere contains userId d) (searchFileWhere contains userId d)
        (type = ''folder'' \<or> type = ''all'' \<and> \<not> present (sq_format d)) (type \<noteq> ''folder'')
        limit (cursorOf (sq_cursor d)))"

subsection \<open>What the user shares\<close>

definition sharedFolderWhere :: "string \<Rightarrow> folder_row \<Rightarrow> bool" where
  "sharedFolderWhere userId f \<longleftrightarrow> fld_userId f = userId \<and> fld_deletedAt f = None \<and> (fld_shareToken f \<noteq> None \<or> fld_s3PublicAccess f)"

definition sharedFileWhere :: "string \<Rightarrow> file_row \<Rightarrow> bool" where
  "sharedFileWhere userId f \<longleftrightarrow>
     fr_userId f = userId \<and> fr_deletedAt f = None \<and> visibleStatus (fr_status f) \<and> fr_shareToken f \<noteq> None"

definition listShared :: "(string \<Rightarrow> string \<Rightarrow> bool) \<Rightarrow> string \<Rightarrow> nat option \<Rightarrow> bool option \<Rightarrow> list_cursor option \<Rightarrow> backend \<Rightarrow> listing_page" where
  "listShared strLess userId limit' includeTotals cursor b =
     (let limit = (case limit' of None \<Rightarrow> 50 | Some l \<Rightarrow> l); c = (case cursor of None \<Rightarrow> noCursor | Some d \<Rightarrow> d);
          isQueryNextFile = (present (lc_fc c) \<and> \<not> present (lc_f c));
          isQueryNextFolder = present (lc_f c);
          folders = (if isQueryNextFile then []
             else findManyFrom (folderBefore strLess ''createdAt'' Desc) fld_id (sharedFolderWhere userId) (lc_f c) (limit + 1) (bk_folders b));
          folderHasNext = hasNextPage limit folders;
          folderItems = pageItems limit folders;
          shouldFetchFiles = (\<not> lc_fd c \<and> (\<not> isQueryNextFolder \<or> \<not> folderHasNext));
          files = (if shouldFetchFiles
             then findManyFrom (fileBefore strLess ''createdAt'' Desc) fr_id (sharedFileWhere userId) (lc_fc c) (limit + 1) (bk_files b) else []);
          fileHasNext = hasNextPage limit files;
          fileItems = pageItems limit files;
          carriedFileCursor = (if shouldFetchFiles then (if fileHasNext then Some (fr_id (last fileItems)) else None) else lc_fc c);
          filesDone = (if shouldFetchFiles then \<not> fileHasNext else lc_fd c) in
      \<lparr>lp_folders = folderItems, lp_files = fileItems,
       lp_nextFolderCursor = (if folderHasNext
          then Some \<lparr>lc_f = Some (fld_id (last folderItems)), lc_fc = carriedFileCursor, lc_fd = filesDone\<rparr> else None),
       lp_nextFileCursor = (if fileHasNext then Some (noCursor\<lparr>lc_fc := carriedFileCursor\<rparr>)
          else if \<not> shouldFetchFiles \<and> present (lc_fc c) then Some (noCursor\<lparr>lc_fc := lc_fc c\<rparr>) else None),
       lp_totals = (if includeTotals = Some False then None
          else Some (countWhere (sharedFolderWhere userId) (bk_folders b), countWhere (sharedFileWhere userId) (bk_files b)))\<rparr>)"

subsection \<open>A page of a share link\<close>

definition sharedFileCursor :: "string option \<Rightarrow> string option" where
  "sharedFileCursor fc = (case fc of None \<Rightarrow> None
     | Some s \<Rightarrow> if s \<noteq> [] \<and> CHR ''_'' \<in> set s then Some (jsSplit CHR ''_'' s ! 1) else Some s)"

definition getSharedContentPage ::
  "(string \<Rightarrow> string \<Rightarrow> bool) \<Rightarrow> (string \<Rightarrow> string \<Rightarrow> bool) \<Rightarrow> string \<Rightarrow> string option \<Rightarrow> page_query \<Rightarrow>
   (shared_content \<times> list_cursor option \<times> list_cursor option) bop" where
  "getSharedContentPage strLess contains token targetFolderId q = bindOp (sharedRoot token) (\<lambda>rt.
     (let currentFolderId = (if present targetFolderId then the targetFolderId else fld_id rt);
          limit = (case pq_limit q of None \<Rightarrow> 50 | Some l \<Rightarrow> l); sortField = sortFieldOf (pq_sortField q);
          dir = (case pq_sortDirection q of None \<Rightarrow> Desc | Some d \<Rightarrow> d); c = cursorOf (pq_cursor q);
          isQueryNextFolder = present (lc_f c); isQueryNextFile = (present (lc_fc c) \<and> \<not> present (lc_f c));
          folderWhere = (\<lambda>f. fld_parentId f = Some currentFolderId \<and> fld_deletedAt f = None \<and> searchHit contains (pq_search q) (fld_name f));
          filesWhere = (\<lambda>f. fr_folderId f = Some currentFolderId \<and> fr_status f = Complete \<and> fr_deletedAt f = None \<and>
            searchHit contains (pq_search q) (fr_filename f)) in
      thenOp (requireDescendant currentFolderId (fld_id rt) ''Folder is not part of this shared link'')
      (bindOp (getsOp (\<lambda>b. if isQueryNextFile then []
          else findManyFrom (folderBefore strLess sortField dir) fld_id folderWhere (lc_f c) (limit + 1) (bk_folders b))) (\<lambda>folders.
      (let foldersHasNext = hasNextPage limit folders; shouldFetchFiles = (\<not> isQueryNextFolder \<or> \<not> foldersHasNext) in
       bindOp (getsOp (\<lambda>b. if \<not> shouldFetchFiles then []
          else findManyFrom (fileBefore strLess sortField dir) fr_id filesWhere (sharedFileCursor (lc_fc c)) (limit + 1) (bk_files b))) (\<lambda>files.
       bindOp (buildSharedBreadcrumbs currentFolderId rt) (\<lambda>breadcrumbs.
       returnOp (\<lparr>sc_rootFolder = rt, sc_currentFolderId = currentFolderId, sc_folders = pageItems limit folders,
           sc_files = pageItems limit files, sc_breadcrumbs = breadcrumbs\<rparr>,
         (if foldersHasNext then Some (noCursor\<lparr>lc_f := Some (fld_id (last (pageItems limit folders)))\<rparr>) else None),
         (if hasNextPage limit files then Some (noCursor\<lparr>lc_fc := Some (fr_id (last (pageItems limit files)))\<rparr>) else None))))))))) "

subsection \<open>The client\<close>

text \<open>
  The hooks keep what was loaded and the two cursors; \<open>loadMore\<close> follows the folder cursor first and
  drops rows it already has.
\<close>

record client =
  cl_folders :: "folder_row list"
  cl_files :: "file_row list"
  cl_foldersCursor :: "list_cursor option"
  cl_filesCursor :: "list_cursor option"

definition fetchFirst :: "(list_cursor option \<Rightarrow> listing_page) \<Rightarrow> client" where
  "fetchFirst fetch = (let res = fetch None in
     \<lparr>cl_folders = lp_folders res, cl_files = lp_files res, cl_foldersCursor = lp_nextFolderCursor res, cl_filesCursor = lp_nextFileCursor res\<rparr>)"

definition unseen :: "('r \<Rightarrow> string) \<Rightarrow> 'r list \<Rightarrow> 'r list \<Rightarrow> 'r list" where
  "unseen rid prev new = filter (\<lambda>f. rid f \<notin> set (map rid prev)) new"

definition hasMore :: "client \<Rightarrow> bool" where
  "hasMore c \<longleftrightarrow> cl_foldersCursor c \<noteq> None \<or> cl_filesCursor c \<noteq> None"

definition loadMore :: "(list_cursor option \<Rightarrow> listing_page) \<Rightarrow> client \<Rightarrow> client" where
  "loadMore fetch c = (if \<not> hasMore c then c else
     (let res = fetch (case cl_foldersCursor c of None \<Rightarrow> cl_filesCursor c | Some x \<Rightarrow> Some x) in
      \<lparr>cl_folders = cl_folders c @ unseen fld_id (cl_folders c) (lp_folders res),
       cl_files = cl_files c @ unseen fr_id (cl_files c) (lp_files res),
       cl_foldersCursor = lp_nextFolderCursor res, cl_filesCursor = lp_nextFileCursor res\<rparr>))"

subsection \<open>Pages are segments of the sorted rows\<close>

text \<open>A collation is a strict linear order on strings (deterministic collations compare by bytes on ties).\<close>

definition collation :: "('a \<Rightarrow> 'a \<Rightarrow> bool) \<Rightarrow> bool" where
  "collation lt \<longleftrightarrow> (\<forall>x. \<not> lt x x) \<and> (\<forall>x y z. lt x y \<longrightarrow> lt y z \<longrightarrow> lt x z) \<and> (\<forall>x y. x \<noteq> y \<longrightarrow> lt x y \<or> lt y x)"

definition strictRows :: "('r \<Rightarrow> 'r \<Rightarrow> bool) \<Rightarrow> ('r \<Rightarrow> string) \<Rightarrow> bool" where
  "strictRows lt rid \<longleftrightarrow> (\<forall>x. \<not> lt x x) \<and> (\<forall>x y z. lt x y \<longrightarrow> lt y z \<longrightarrow> lt x z) \<and> (\<forall>x y. rid x \<noteq> rid y \<longrightarrow> lt x y \<or> lt y x)"

lemma strictRows_lex:
  assumes "collation R" and "collation S"
  shows "strictRows (\<lambda>x y. R (key x) (key y) \<or> key x = key y \<and> S (rid x) (rid y)) rid"
proof -
  from assms have irrefl: "\<And>x. \<not> R x x" "\<And>x. \<not> S x x"
    and trans: "\<And>x y z. R x y \<Longrightarrow> R y z \<Longrightarrow> R x z" "\<And>x y z. S x y \<Longrightarrow> S y z \<Longrightarrow> S x z"
    and total: "\<And>x y. x \<noteq> y \<Longrightarrow> R x y \<or> R y x" "\<And>x y. x \<noteq> y \<Longrightarrow> S x y \<or> S y x"
    unfolding collation_def by blast+
  show ?thesis
    unfolding strictRows_def
  proof (intro conjI allI impI)
    fix x y z
    assume "R (key x) (key y) \<or> key x = key y \<and> S (rid x) (rid y)" "R (key y) (key z) \<or> key y = key z \<and> S (rid y) (rid z)"
    then show "R (key x) (key z) \<or> key x = key z \<and> S (rid x) (rid z)"
      using trans(1) [of "key x" "key y" "key z"] trans(2) [of "rid x" "rid y" "rid z"] by auto
  next
    fix x y
    assume "rid x \<noteq> rid y"
    then show "(R (key x) (key y) \<or> key x = key y \<and> S (rid x) (rid y)) \<or> R (key y) (key x) \<or> key y = key x \<and> S (rid y) (rid x)"
      using total(1) [of "key x" "key y"] total(2) [of "rid x" "rid y"] by (cases "key x = key y") auto
  qed (use irrefl in auto)
qed

lemma strictRows_flip: "strictRows lt rid \<Longrightarrow> strictRows (\<lambda>x y. lt y x) rid"
  unfolding strictRows_def by blast

lemma strictRows_rowBefore:
  assumes "collation strLess"
  shows "strictRows (rowBefore strLess name createdAt rid sortField dir) rid"
proof -
  have "collation ((<) :: int \<Rightarrow> int \<Rightarrow> bool)" by (auto simp: collation_def)
  note lex = strictRows_lex [OF assms assms, of name rid] strictRows_lex [OF this assms, of createdAt rid]
  note both = lex lex [THEN strictRows_flip]
  show ?thesis
    by (cases dir; cases "sortField = ''name''")
      (simp_all add: rowBefore_def [abs_def] both)
qed

lemma row_orders:
  assumes "collation strLess"
  shows "strictRows (folderBefore strLess sortField dir) fld_id" and "strictRows (fileBefore strLess sortField dir) fr_id"
  unfolding folderBefore_def fileBefore_def by (rule strictRows_rowBefore [OF assms])+

lemma mset_insertBy: "mset (insertBy lt x ys) = add_mset x (mset ys)"
  by (induction ys) auto

lemma mset_sortBy: "mset (sortBy lt rows) = mset rows"
  by (induction rows) (auto simp: sortBy_def mset_insertBy)

lemma set_sortBy [simp]: "set (sortBy lt rows) = set rows"
  using mset_sortBy [of lt rows] by (metis set_mset_mset)

lemma length_sortBy [simp]: "length (sortBy lt rows) = length rows"
  using mset_sortBy [of lt rows] by (metis size_mset)

lemma distinct_sortBy: "distinct (map k rows) \<Longrightarrow> distinct (map k (sortBy lt rows))"
  using mset_sortBy [of lt rows] by (metis mset_map mset_eq_imp_distinct_iff)

lemma set_insertBy [simp]: "set (insertBy lt x ys) = insert x (set ys)"
  using mset_insertBy [of lt x ys] by (metis set_mset_add_mset_insert set_mset_mset)

lemma sorted_insertBy:
  "strictRows lt rid \<Longrightarrow> sorted_wrt lt ys \<Longrightarrow> rid x \<notin> rid ` set ys \<Longrightarrow> sorted_wrt lt (insertBy lt x ys)"
  unfolding strictRows_def by (induction ys) (auto, (metis)+)

lemma sorted_sortBy:
  assumes "strictRows lt rid" and "distinct (map rid rows)"
  shows "sorted_wrt lt (sortBy lt rows)"
  using assms(2)
proof (induction rows)
  case (Cons r rows)
  then have "sorted_wrt lt (insertBy lt r (sortBy lt rows))"
    by (intro sorted_insertBy [OF assms(1)]) auto
  then show ?case by (simp add: sortBy_def)
qed (simp add: sortBy_def)

lemma rows_from:
  assumes "strictRows lt rid" and "sorted_wrt lt M" and "k < length M"
  shows "filter (\<lambda>r. \<not> lt r (M ! k)) M = drop k M"
proof -
  have first: "r \<in> set (take k M) \<Longrightarrow> lt r (M ! k)" for r
    using assms(2,3) by (auto simp: in_set_conv_nth sorted_wrt_iff_nth_less)
  have rest: "r \<in> set (drop k M) \<Longrightarrow> \<not> lt r (M ! k)" for r
  proof -
    assume "r \<in> set (drop k M)"
    then obtain i where "r = M ! (k + i)" "k + i < length M" by (auto simp: in_set_conv_nth)
    then show ?thesis
      using assms(1,2) unfolding strictRows_def sorted_wrt_iff_nth_less
      by (cases i) (auto, metis less_add_Suc1)
  qed
  have "filter (\<lambda>r. \<not> lt r (M ! k)) (take k M @ drop k M) = drop k M"
    unfolding filter_append using first rest by (simp add: filter_empty_conv filter_id_conv)
  then show ?thesis by simp
qed

lemma findMany_first: "findManyFrom lt rid wh None n rows = take n (sortBy lt (filter wh rows))"
  by (simp add: findManyFrom_def present_def)

lemma findMany_after:
  assumes "strictRows lt rid" and "distinct (map rid rows)" and "\<forall>r \<in> set rows. rid r \<noteq> []"
    and "0 < k" and "k \<le> length M" and "M = sortBy lt (filter wh rows)"
  shows "findManyFrom lt rid wh (Some (rid (M ! (k - 1)))) n rows = take n (drop k M)"
proof -
  let ?c = "M ! (k - 1)"
  have "?c \<in> set M" using assms(4,5) by (intro nth_mem) simp
  then have mem: "?c \<in> set rows" using assms(6) by auto
  have found: "find (\<lambda>r. Some (rid r) = Some (rid ?c)) rows = Some ?c"
    by (rule find_unique [OF assms(2) mem]) auto
  have "sorted_wrt lt M"
    unfolding assms(6) by (rule sorted_sortBy [OF assms(1)]) (simp add: assms(2) distinct_map_filter)
  then have "filter (\<lambda>r. \<not> lt r ?c) M = drop (k - 1) M"
    using rows_from [OF assms(1), of M "k - 1"] assms(4,5) by simp
  then show ?thesis
    using found mem assms(3,4,6) by (simp add: findManyFrom_def present_def)
qed

lemma hasNextPage_take [simp]: "hasNextPage l (take (Suc l) xs) = (l < length xs)"
  by (simp add: hasNextPage_def)

lemma pageItems_take [simp]: "pageItems l (take (Suc l) xs) = take l xs"
  by (simp add: pageItems_def hasNextPage_def butlast_take)

lemma pageItems_Nil [simp]: "pageItems l [] = []" "\<not> hasNextPage l []"
  by (simp_all add: pageItems_def hasNextPage_def)

lemma pageItems_short: "length xs \<le> Suc l \<Longrightarrow> pageItems l xs = take l xs"
  by (metis pageItems_take take_all)

lemma last_page: "0 < l \<Longrightarrow> l \<le> length xs \<Longrightarrow> last (take l xs) = xs ! (l - 1)"
  by (subst last_conv_nth) auto

lemma last_drop_page: "0 < l \<Longrightarrow> k + l \<le> length xs \<Longrightarrow> last (take l (drop k xs)) = xs ! (k + l - 1)"
  by (subst last_page) simp_all

subsection \<open>Following the cursors loads everything once\<close>

lemma unseen_segment:
  assumes "distinct (map rid G)" and "i \<le> j" and "j \<le> i + l" and "j \<le> length G"
  shows "take j G @ unseen rid (take j G) (take l (drop i G)) = take (i + l) G"
proof -
  have split: "take l (drop i G) = take (j - i) (drop i G) @ take (i + l - j) (drop j G)"
    using assms(2,3) take_add [of "j - i" "i + l - j" "drop i G"] by simp
  have "set (take (j - i) (drop i G)) \<subseteq> set (take j G)"
    using assms(2) by (metis drop_take set_drop_subset)
  then have old: "filter (\<lambda>f. rid f \<notin> set (map rid (take j G))) (take (j - i) (drop i G)) = []"
    by (auto simp: filter_empty_conv)
  have "set (map rid (take j G)) \<inter> set (map rid (drop j G)) = {}"
    using assms(1) by (metis append_take_drop_id distinct_append map_append)
  moreover have "set (take (i + l - j) (drop j G)) \<subseteq> set (drop j G)" by (rule set_take_subset)
  ultimately have new: "filter (\<lambda>f. rid f \<notin> set (map rid (take j G))) (take (i + l - j) (drop j G)) = take (i + l - j) (drop j G)"
    unfolding filter_id_conv set_map by blast
  have "take (i + l) G = take j G @ take (i + l - j) (drop j G)"
    using assms(3) take_add [of j "i + l - j" G] by simp
  then show ?thesis
    unfolding unseen_def split filter_append old new by simp
qed

text \<open>
  What a listing with two cursors promises a client. \<open>atFolder q c k j\<close> says that \<open>c\<close> is a folder cursor handed
  out when \<open>k\<close> folders and \<open>j\<close> files had been listed, \<open>atFile q c j\<close> the same of a file cursor. The page
  at the end of the folders lists files again from a place not after the \<open>j\<close>-th.
\<close>

locale dual_listing =
  fixes ok :: "'q \<Rightarrow> bool"
    and folders :: "'q \<Rightarrow> folder_row list"
    and files :: "'q \<Rightarrow> file_row list"
    and size :: "'q \<Rightarrow> nat"
    and fetch :: "'q \<Rightarrow> list_cursor option \<Rightarrow> listing_page"
    and atFolder :: "'q \<Rightarrow> list_cursor \<Rightarrow> nat \<Rightarrow> nat \<Rightarrow> bool"
    and atFile :: "'q \<Rightarrow> list_cursor \<Rightarrow> nat \<Rightarrow> bool"
  assumes size_pos: "ok q \<Longrightarrow> 0 < size q"
    and folders_distinct: "ok q \<Longrightarrow> distinct (map fld_id (folders q))"
    and files_distinct: "ok q \<Longrightarrow> distinct (map fr_id (files q))"
    and first_items: "ok q \<Longrightarrow> lp_folders (fetch q None) = take (size q) (folders q) \<and> lp_files (fetch q None) = take (size q) (files q)"
    and first_folder_cursor: "ok q \<Longrightarrow> (case lp_nextFolderCursor (fetch q None) of
        None \<Rightarrow> length (folders q) \<le> size q
      | Some c \<Rightarrow> size q < length (folders q) \<and> atFolder q c (size q) (min (size q) (length (files q))))"
    and first_file_cursor: "ok q \<Longrightarrow> (case lp_nextFileCursor (fetch q None) of
        None \<Rightarrow> length (files q) \<le> size q
      | Some c \<Rightarrow> size q < length (files q) \<and> atFile q c (size q))"
    and more_folders: "ok q \<Longrightarrow> atFolder q c k j \<Longrightarrow> k < length (folders q) \<Longrightarrow> j \<le> length (files q) \<Longrightarrow>
        lp_folders (fetch q (Some c)) = take (size q) (drop k (folders q)) \<and>
        (case lp_nextFolderCursor (fetch q (Some c)) of
           Some c' \<Rightarrow> k + size q < length (folders q) \<and> atFolder q c' (k + size q) j \<and> lp_files (fetch q (Some c)) = []
         | None \<Rightarrow> length (folders q) \<le> k + size q \<and> (\<exists>i. i \<le> j \<and> j \<le> i + size q \<and>
             lp_files (fetch q (Some c)) = take (size q) (drop i (files q)) \<and>
             (case lp_nextFileCursor (fetch q (Some c)) of
                None \<Rightarrow> length (files q) \<le> i + size q
              | Some c' \<Rightarrow> i + size q < length (files q) \<and> atFile q c' (i + size q))))"
    and more_files: "ok q \<Longrightarrow> atFile q c j \<Longrightarrow> j < length (files q) \<Longrightarrow>
        lp_folders (fetch q (Some c)) = [] \<and> lp_nextFolderCursor (fetch q (Some c)) = None \<and>
        lp_files (fetch q (Some c)) = take (size q) (drop j (files q)) \<and>
        (case lp_nextFileCursor (fetch q (Some c)) of
           None \<Rightarrow> length (files q) \<le> j + size q
         | Some c' \<Rightarrow> j + size q < length (files q) \<and> atFile q c' (j + size q))"
begin

definition loaded :: "'q \<Rightarrow> client \<Rightarrow> nat \<Rightarrow> nat \<Rightarrow> bool" where
  "loaded q c k j \<longleftrightarrow> cl_folders c = take k (folders q) \<and> cl_files c = take j (files q) \<and>
     (case cl_foldersCursor c of
        Some fc \<Rightarrow> k < length (folders q) \<and> j \<le> length (files q) \<and> atFolder q fc k j
      | None \<Rightarrow> length (folders q) \<le> k \<and>
          (case cl_filesCursor c of None \<Rightarrow> length (files q) \<le> j | Some gc \<Rightarrow> j < length (files q) \<and> atFile q gc j))"

lemma loaded_first: "ok q \<Longrightarrow> \<exists>j. loaded q (fetchFirst (fetch q)) (size q) j"
  using first_items [of q] first_folder_cursor [of q] first_file_cursor [of q]
  by (cases "lp_nextFolderCursor (fetch q None)"; cases "lp_nextFileCursor (fetch q None)")
    (auto simp: loaded_def fetchFirst_def Let_def min_def intro: exI [where x = "size q"] exI [where x = "length (files q)"] split: if_splits)

lemma unseen_folders: "ok q \<Longrightarrow> k \<le> length (folders q) \<Longrightarrow>
  take k (folders q) @ unseen fld_id (take k (folders q)) (take (size q) (drop k (folders q))) = take (k + size q) (folders q)"
  by (rule unseen_segment [OF folders_distinct]) auto

lemma unseen_files: "ok q \<Longrightarrow> i \<le> j \<Longrightarrow> j \<le> i + size q \<Longrightarrow> j \<le> length (files q) \<Longrightarrow>
  take j (files q) @ unseen fr_id (take j (files q)) (take (size q) (drop i (files q))) = take (i + size q) (files q)"
  by (rule unseen_segment [OF files_distinct]) auto

lemma unseen_Nil [simp]: "unseen rid prev [] = []"
  by (simp add: unseen_def)

text \<open>One step: either a page of folders, or the folders are done and the files advance.\<close>

lemma loaded_step:
  assumes "ok q" and "loaded q c k j" and "hasMore c"
  shows "\<exists>k' j'. loaded q (loadMore (fetch q) c) k' j' \<and>
    (cl_foldersCursor c \<noteq> None \<and> k' = k + size q \<or>
     cl_foldersCursor c = None \<and> cl_foldersCursor (loadMore (fetch q) c) = None \<and> k' = k \<and> j' = j + size q)"
proof (cases "cl_foldersCursor c")
  case (Some fc)
  with assms(2) have at: "k < length (folders q)" "j \<le> length (files q)" "atFolder q fc k j"
    and items: "cl_folders c = take k (folders q)" "cl_files c = take j (files q)"
    by (auto simp: loaded_def)
  note law = more_folders [OF assms(1) at(3) at(1,2)]
  note segs = unseen_folders [OF assms(1), of k] unseen_files [OF assms(1)]
  show ?thesis
  proof (cases "lp_nextFolderCursor (fetch q (Some fc))")
    case None
    with law obtain i where i: "i \<le> j" "j \<le> i + size q" "lp_files (fetch q (Some fc)) = take (size q) (drop i (files q))"
        "case lp_nextFileCursor (fetch q (Some fc)) of None \<Rightarrow> length (files q) \<le> i + size q
         | Some c' \<Rightarrow> i + size q < length (files q) \<and> atFile q c' (i + size q)" and all: "length (folders q) \<le> k + size q"
      by auto
    have "loaded q (loadMore (fetch q) c) (k + size q) (i + size q)"
      using law None i all at items Some segs
      by (simp add: loaded_def loadMore_def hasMore_def Let_def)
    with Some show ?thesis by blast
  next
    case (Some fc')
    then have "loaded q (loadMore (fetch q) c) (k + size q) j"
      using law at items \<open>cl_foldersCursor c = Some fc\<close> segs
      by (simp add: loaded_def loadMore_def hasMore_def Let_def)
    with \<open>cl_foldersCursor c = Some fc\<close> show ?thesis by blast
  qed
next
  case None
  with assms(2,3) obtain gc where gc: "cl_filesCursor c = Some gc" "j < length (files q)" "atFile q gc j" "length (folders q) \<le> k"
    and items: "cl_folders c = take k (folders q)" "cl_files c = take j (files q)"
    by (auto simp: loaded_def hasMore_def)
  have "loaded q (loadMore (fetch q) c) k (j + size q) \<and> cl_foldersCursor (loadMore (fetch q) c) = None"
    using more_files [OF assms(1) gc(3,2)] gc items None unseen_files [OF assms(1), of j j]
    by (simp add: loaded_def loadMore_def hasMore_def Let_def)
  with None show ?thesis by blast
qed

lemma finished:
  assumes "loaded q c k j" and "\<not> hasMore c"
  shows "cl_folders c = folders q \<and> cl_files c = files q"
  using assms by (auto simp: loaded_def hasMore_def)

lemma files_phase:
  "ok q \<Longrightarrow> loaded q c k j \<Longrightarrow> cl_foldersCursor c = None \<Longrightarrow>
   \<exists>n \<le> length (files q) - j. \<not> hasMore ((loadMore (fetch q) ^^ n) c) \<and> (\<exists>k' j'. loaded q ((loadMore (fetch q) ^^ n) c) k' j')"
proof (induction "length (files q) - j" arbitrary: c j rule: less_induct)
  case less
  show ?case
  proof (cases "hasMore c")
    case True
    let ?c = "loadMore (fetch q) c"
    from loaded_step [OF less.prems(1,2) True] less.prems(3)
    have next': "loaded q ?c k (j + size q)" "cl_foldersCursor ?c = None" by auto
    from True less.prems have "j < length (files q)" by (auto simp: hasMore_def loaded_def)
    with size_pos [OF less.prems(1)] have "length (files q) - (j + size q) < length (files q) - j" by simp
    from less.hyps [OF this less.prems(1) next'] obtain n k' j' where
      "n \<le> length (files q) - (j + size q)" "\<not> hasMore ((loadMore (fetch q) ^^ n) ?c)" "loaded q ((loadMore (fetch q) ^^ n) ?c) k' j'"
      by blast
    with \<open>length (files q) - (j + size q) < length (files q) - j\<close> show ?thesis
      by (intro exI [where x = "Suc n"]) (auto simp: funpow_swap1)
  next
    case False
    with less.prems show ?thesis by (intro exI [where x = 0]) auto
  qed
qed

lemma folders_phase:
  "ok q \<Longrightarrow> loaded q c k j \<Longrightarrow>
   \<exists>n \<le> length (folders q) - k + length (files q).
     \<not> hasMore ((loadMore (fetch q) ^^ n) c) \<and> (\<exists>k' j'. loaded q ((loadMore (fetch q) ^^ n) c) k' j')"
proof (induction "length (folders q) - k" arbitrary: c k j rule: less_induct)
  case less
  show ?case
  proof (cases "cl_foldersCursor c = None")
    case True
    from files_phase [OF less.prems True] obtain n where "n \<le> length (files q) - j"
      "\<not> hasMore ((loadMore (fetch q) ^^ n) c) \<and> (\<exists>k' j'. loaded q ((loadMore (fetch q) ^^ n) c) k' j')" by blast
    then show ?thesis by (intro exI [where x = n]) auto
  next
    case False
    let ?c = "loadMore (fetch q) c"
    from False have "hasMore c" by (simp add: hasMore_def)
    from loaded_step [OF less.prems this] False obtain j' where next': "loaded q ?c (k + size q) j'" by auto
    from False less.prems(2) have "k < length (folders q)" by (auto simp: loaded_def)
    with size_pos [OF less.prems(1)] have shorter: "length (folders q) - (k + size q) < length (folders q) - k" by simp
    from less.hyps [OF this less.prems(1) next'] obtain n where
      "n \<le> length (folders q) - (k + size q) + length (files q)"
      "\<not> hasMore ((loadMore (fetch q) ^^ n) ?c) \<and> (\<exists>k' j'. loaded q ((loadMore (fetch q) ^^ n) ?c) k' j')" by blast
    with shorter show ?thesis by (intro exI [where x = "Suc n"]) (auto simp: funpow_swap1)
  qed
qed

lemma all_loaded:
  assumes "ok q"
  shows "\<exists>n \<le> length (folders q) + length (files q). let c = (loadMore (fetch q) ^^ n) (fetchFirst (fetch q)) in
    cl_folders c = folders q \<and> cl_files c = files q \<and> \<not> hasMore c"
proof -
  from loaded_first [OF assms] obtain j where "loaded q (fetchFirst (fetch q)) (size q) j" ..
  from folders_phase [OF assms this] obtain n k' j' where
    "n \<le> length (folders q) - size q + length (files q)" "\<not> hasMore ((loadMore (fetch q) ^^ n) (fetchFirst (fetch q)))"
    "loaded q ((loadMore (fetch q) ^^ n) (fetchFirst (fetch q))) k' j'" by blast
  with finished [OF this(3,2)] show ?thesis by (intro exI [where x = n]) (auto simp: Let_def)
qed

end

subsection \<open>Browsing and searching keep the promise\<close>

text \<open>Tables whose ids are distinct and not empty.\<close>

definition listableIds :: "backend \<Rightarrow> bool" where
  "listableIds b \<longleftrightarrow> distinct (map fld_id (bk_folders b)) \<and> distinct (map fr_id (bk_files b)) \<and>
     (\<forall>f \<in> set (bk_folders b). fld_id f \<noteq> []) \<and> (\<forall>f \<in> set (bk_files b). fr_id f \<noteq> [])"

text \<open>What \<open>findManyFrom\<close> returns for the cursors that are handed out, for both tables.\<close>

definition sortedMatches :: "('r \<Rightarrow> 'r \<Rightarrow> bool) \<Rightarrow> ('r \<Rightarrow> bool) \<Rightarrow> 'r list \<Rightarrow> 'r list" where
  "sortedMatches lt wh rows = sortBy lt (filter wh rows)"

lemma sortedMatches_subset: "0 < k \<Longrightarrow> k \<le> length (sortedMatches lt wh rows) \<Longrightarrow> sortedMatches lt wh rows ! (k - 1) \<in> set rows"
proof -
  assume "0 < k" "k \<le> length (sortedMatches lt wh rows)"
  then have "sortedMatches lt wh rows ! (k - 1) \<in> set (sortedMatches lt wh rows)" by (intro nth_mem) simp
  then show ?thesis by (simp add: sortedMatches_def)
qed

lemma distinct_sortedMatches: "distinct (map rid rows) \<Longrightarrow> distinct (map rid (sortedMatches lt wh rows))"
  by (simp add: sortedMatches_def distinct_sortBy distinct_map_filter)

lemma after_folder:
  assumes "listableIds b" and "strictRows lt fld_id" and "0 < k" and "k \<le> length (sortedMatches lt wh (bk_folders b))"
  shows "findManyFrom lt fld_id wh (Some (fld_id (sortedMatches lt wh (bk_folders b) ! (k - 1)))) n (bk_folders b) =
      take n (drop k (sortedMatches lt wh (bk_folders b)))"
    and "present (Some (fld_id (sortedMatches lt wh (bk_folders b) ! (k - 1))))"
  using assms findMany_after [OF assms(2) _ _ assms(3,4), of "bk_folders b" wh n]
    sortedMatches_subset [OF assms(3,4)]
  by (auto simp: listableIds_def present_def sortedMatches_def)

lemma after_file:
  assumes "listableIds b" and "strictRows lt fr_id" and "0 < k" and "k \<le> length (sortedMatches lt wh (bk_files b))"
  shows "findManyFrom lt fr_id wh (Some (fr_id (sortedMatches lt wh (bk_files b) ! (k - 1)))) n (bk_files b) =
      take n (drop k (sortedMatches lt wh (bk_files b)))"
    and "present (Some (fr_id (sortedMatches lt wh (bk_files b) ! (k - 1))))"
  using assms findMany_after [OF assms(2) _ _ assms(3,4), of "bk_files b" wh n]
    sortedMatches_subset [OF assms(3,4)]
  by (auto simp: listableIds_def present_def sortedMatches_def)

lemma from_start: "findManyFrom lt rid wh None n rows = take n (sortedMatches lt wh rows)"
  by (simp add: findMany_first sortedMatches_def)

lemma present_None [simp]: "\<not> present None"
  by (simp add: present_def)

lemmas page_simps = from_start pageItems_short hasNextPage_def last_page last_drop_page Suc_le_eq not_less less_imp_le Let_def

record listing_query =
  lq_folderLess :: "folder_row \<Rightarrow> folder_row \<Rightarrow> bool"
  lq_fileLess :: "file_row \<Rightarrow> file_row \<Rightarrow> bool"
  lq_folderWhere :: "folder_row \<Rightarrow> bool"
  lq_fileWhere :: "file_row \<Rightarrow> bool"
  lq_searchFolders :: bool
  lq_searchFiles :: bool
  lq_limit :: nat
  lq_db :: backend

definition contentOk :: "listing_query \<Rightarrow> bool" where
  "contentOk q \<longleftrightarrow> 0 < lq_limit q \<and> strictRows (lq_folderLess q) fld_id \<and> strictRows (lq_fileLess q) fr_id \<and> listableIds (lq_db q)"

definition contentFolders :: "listing_query \<Rightarrow> folder_row list" where
  "contentFolders q = (if lq_searchFolders q then sortedMatches (lq_folderLess q) (lq_folderWhere q) (bk_folders (lq_db q)) else [])"

definition contentFiles :: "listing_query \<Rightarrow> file_row list" where
  "contentFiles q = (if lq_searchFiles q then sortedMatches (lq_fileLess q) (lq_fileWhere q) (bk_files (lq_db q)) else [])"

definition contentFetch :: "listing_query \<Rightarrow> list_cursor option \<Rightarrow> listing_page" where
  "contentFetch q c = contentPage (lq_folderLess q) (lq_fileLess q) (lq_folderWhere q) (lq_fileWhere q)
     (lq_searchFolders q) (lq_searchFiles q) (lq_limit q) (cursorOf c) (lq_db q)"

definition contentAtFolder :: "listing_query \<Rightarrow> list_cursor \<Rightarrow> nat \<Rightarrow> nat \<Rightarrow> bool" where
  "contentAtFolder q c k j \<longleftrightarrow> 0 < k \<and> c = noCursor\<lparr>lc_f := Some (fld_id (contentFolders q ! (k - 1)))\<rparr> \<and>
     j = min (lq_limit q) (length (contentFiles q))"

definition contentAtFile :: "listing_query \<Rightarrow> list_cursor \<Rightarrow> nat \<Rightarrow> bool" where
  "contentAtFile q c j \<longleftrightarrow> 0 < j \<and> c = noCursor\<lparr>lc_fc := Some (fr_id (contentFiles q ! (j - 1)))\<rparr>"

lemma content_first:
  assumes "contentOk q"
  shows "contentFetch q None = \<lparr>lp_folders = take (lq_limit q) (contentFolders q), lp_files = take (lq_limit q) (contentFiles q),
     lp_nextFolderCursor = (if lq_limit q < length (contentFolders q)
        then Some (noCursor\<lparr>lc_f := Some (fld_id (contentFolders q ! (lq_limit q - 1)))\<rparr>) else None),
     lp_nextFileCursor = (if lq_limit q < length (contentFiles q)
        then Some (noCursor\<lparr>lc_fc := Some (fr_id (contentFiles q ! (lq_limit q - 1)))\<rparr>) else None),
     lp_totals = lp_totals (contentFetch q None)\<rparr>"
  using assms
  by (simp add: contentFetch_def contentPage_def cursorOf_def noCursor_def page_simps contentOk_def contentFolders_def contentFiles_def)

lemma content_folders:
  assumes "contentOk q" and "0 < k" and "k < length (contentFolders q)"
  shows "contentFetch q (Some (noCursor\<lparr>lc_f := Some (fld_id (contentFolders q ! (k - 1)))\<rparr>)) =
     \<lparr>lp_folders = take (lq_limit q) (drop k (contentFolders q)),
      lp_files = (if k + lq_limit q < length (contentFolders q) then [] else take (lq_limit q) (contentFiles q)),
      lp_nextFolderCursor = (if k + lq_limit q < length (contentFolders q)
        then Some (noCursor\<lparr>lc_f := Some (fld_id (contentFolders q ! (k + lq_limit q - 1)))\<rparr>) else None),
      lp_nextFileCursor = (if \<not> k + lq_limit q < length (contentFolders q) \<and> lq_limit q < length (contentFiles q)
        then Some (noCursor\<lparr>lc_fc := Some (fr_id (contentFiles q ! (lq_limit q - 1)))\<rparr>) else None),
      lp_totals = lp_totals (contentFetch q (Some (noCursor\<lparr>lc_f := Some (fld_id (contentFolders q ! (k - 1)))\<rparr>)))\<rparr>"
proof -
  from assms(3) have on: "lq_searchFolders q" by (auto simp: contentFolders_def split: if_splits)
  then have F: "contentFolders q = sortedMatches (lq_folderLess q) (lq_folderWhere q) (bk_folders (lq_db q))"
    by (simp add: contentFolders_def)
  note after = after_folder [of "lq_db q" "lq_folderLess q" k "lq_folderWhere q", folded F]
  show ?thesis
    using assms on after
    by (simp add: contentFetch_def contentPage_def cursorOf_def noCursor_def page_simps contentOk_def contentFiles_def add.commute less_diff_conv) (auto simp: min_def split: if_splits)
qed

lemma content_files:
  assumes "contentOk q" and "0 < j" and "j < length (contentFiles q)"
  shows "contentFetch q (Some (noCursor\<lparr>lc_fc := Some (fr_id (contentFiles q ! (j - 1)))\<rparr>)) =
     \<lparr>lp_folders = [], lp_files = take (lq_limit q) (drop j (contentFiles q)), lp_nextFolderCursor = None,
      lp_nextFileCursor = (if j + lq_limit q < length (contentFiles q)
        then Some (noCursor\<lparr>lc_fc := Some (fr_id (contentFiles q ! (j + lq_limit q - 1)))\<rparr>) else None),
      lp_totals = lp_totals (contentFetch q (Some (noCursor\<lparr>lc_fc := Some (fr_id (contentFiles q ! (j - 1)))\<rparr>)))\<rparr>"
proof -
  from assms(3) have on: "lq_searchFiles q" by (auto simp: contentFiles_def split: if_splits)
  then have G: "contentFiles q = sortedMatches (lq_fileLess q) (lq_fileWhere q) (bk_files (lq_db q))"
    by (simp add: contentFiles_def)
  note after = after_file [of "lq_db q" "lq_fileLess q" j "lq_fileWhere q", folded G]
  show ?thesis
    using assms on after
    by (simp add: contentFetch_def contentPage_def cursorOf_def noCursor_def page_simps contentOk_def add.commute less_diff_conv)
qed

interpretation content: dual_listing contentOk contentFolders contentFiles lq_limit contentFetch contentAtFolder contentAtFile
proof unfold_locales
  fix q
  assume ok: "contentOk q"
  then show "0 < lq_limit q" by (simp add: contentOk_def)
  from ok show "distinct (map fld_id (contentFolders q))" "distinct (map fr_id (contentFiles q))"
    by (simp_all add: contentOk_def contentFolders_def contentFiles_def listableIds_def distinct_sortedMatches)
  note first = content_first [OF ok]
  show "lp_folders (contentFetch q None) = take (lq_limit q) (contentFolders q) \<and> lp_files (contentFetch q None) = take (lq_limit q) (contentFiles q)"
    by (subst (1 2) first) simp
  from \<open>0 < lq_limit q\<close> show "case lp_nextFolderCursor (contentFetch q None) of None \<Rightarrow> length (contentFolders q) \<le> lq_limit q
      | Some c \<Rightarrow> lq_limit q < length (contentFolders q) \<and> contentAtFolder q c (lq_limit q) (min (lq_limit q) (length (contentFiles q)))"
    by (subst first) (simp add: contentAtFolder_def not_less)
  from \<open>0 < lq_limit q\<close> show "case lp_nextFileCursor (contentFetch q None) of None \<Rightarrow> length (contentFiles q) \<le> lq_limit q
      | Some c \<Rightarrow> lq_limit q < length (contentFiles q) \<and> contentAtFile q c (lq_limit q)"
    by (subst first) (simp add: contentAtFile_def not_less)
next
  fix q c k j
  assume ok: "contentOk q" and at: "contentAtFolder q c k j" and k: "k < length (contentFolders q)"
  from at have c: "0 < k" "c = noCursor\<lparr>lc_f := Some (fld_id (contentFolders q ! (k - 1)))\<rparr>"
    "j = min (lq_limit q) (length (contentFiles q))" by (simp_all add: contentAtFolder_def)
  have "0 < lq_limit q" using ok by (simp add: contentOk_def)
  then show "lp_folders (contentFetch q (Some c)) = take (lq_limit q) (drop k (contentFolders q)) \<and>
      (case lp_nextFolderCursor (contentFetch q (Some c)) of
         Some c' \<Rightarrow> k + lq_limit q < length (contentFolders q) \<and> contentAtFolder q c' (k + lq_limit q) j \<and> lp_files (contentFetch q (Some c)) = []
       | None \<Rightarrow> length (contentFolders q) \<le> k + lq_limit q \<and> (\<exists>i. i \<le> j \<and> j \<le> i + lq_limit q \<and>
           lp_files (contentFetch q (Some c)) = take (lq_limit q) (drop i (contentFiles q)) \<and>
           (case lp_nextFileCursor (contentFetch q (Some c)) of None \<Rightarrow> length (contentFiles q) \<le> i + lq_limit q
            | Some c' \<Rightarrow> i + lq_limit q < length (contentFiles q) \<and> contentAtFile q c' (i + lq_limit q))))"
    unfolding c(2) by (subst (1 2 3 4 5) content_folders [OF ok c(1) k])
      (auto simp: contentAtFolder_def contentAtFile_def c(3) not_less intro: exI [where x = 0])
next
  fix q c j
  assume ok: "contentOk q" and at: "contentAtFile q c j" and j: "j < length (contentFiles q)"
  from at have c: "0 < j" "c = noCursor\<lparr>lc_fc := Some (fr_id (contentFiles q ! (j - 1)))\<rparr>" by (simp_all add: contentAtFile_def)
  have "0 < lq_limit q" using ok by (simp add: contentOk_def)
  then show "lp_folders (contentFetch q (Some c)) = [] \<and> lp_nextFolderCursor (contentFetch q (Some c)) = None \<and>
      lp_files (contentFetch q (Some c)) = take (lq_limit q) (drop j (contentFiles q)) \<and>
      (case lp_nextFileCursor (contentFetch q (Some c)) of None \<Rightarrow> length (contentFiles q) \<le> j + lq_limit q
       | Some c' \<Rightarrow> j + lq_limit q < length (contentFiles q) \<and> contentAtFile q c' (j + lq_limit q))"
    unfolding c(2) by (subst (1 2 3 4) content_files [OF ok c(1) j]) (simp add: contentAtFile_def not_less)
qed

subsection \<open>The list of shared items never repeats a row\<close>

text \<open>A listing whose last page of folders goes on with the files where the cursor says.\<close>

locale resuming_listing = dual_listing +
  assumes resumes: "ok q \<Longrightarrow> atFolder q c k j \<Longrightarrow> k < length (folders q) \<Longrightarrow> j \<le> length (files q) \<Longrightarrow>
    lp_nextFolderCursor (fetch q (Some c)) = None \<Longrightarrow> lp_files (fetch q (Some c)) = take (size q) (drop j (files q))"
begin

lemma unseen_new:
  assumes "distinct (map rid G)"
  shows "unseen rid (take j G) (take l (drop j G)) = take l (drop j G)"
proof -
  have "set (map rid (take j G)) \<inter> set (map rid (drop j G)) = {}"
    using assms by (metis append_take_drop_id distinct_append map_append)
  moreover have "set (take l (drop j G)) \<subseteq> set (drop j G)" by (rule set_take_subset)
  ultimately show ?thesis
    unfolding unseen_def filter_id_conv set_map by blast
qed

lemma page_is_new:
  assumes "ok q" and "loaded q c k j" and "hasMore c"
  shows "let page = fetch q (case cl_foldersCursor c of None \<Rightarrow> cl_filesCursor c | Some x \<Rightarrow> Some x) in
    cl_folders (loadMore (fetch q) c) = cl_folders c @ lp_folders page \<and> cl_files (loadMore (fetch q) c) = cl_files c @ lp_files page"
proof (cases "cl_foldersCursor c")
  case (Some fc)
  with assms(2) have at: "atFolder q fc k j" "k < length (folders q)" "j \<le> length (files q)"
    and items: "cl_folders c = take k (folders q)" "cl_files c = take j (files q)" by (auto simp: loaded_def)
  have "lp_files (fetch q (Some fc)) = (if lp_nextFolderCursor (fetch q (Some fc)) = None then take (size q) (drop j (files q)) else [])"
    using more_folders [OF assms(1) at] resumes [OF assms(1) at] by (auto split: option.splits)
  then show ?thesis
    using more_folders [OF assms(1) at] items Some assms(3) unseen_new [OF folders_distinct [OF assms(1)]] unseen_new [OF files_distinct [OF assms(1)]]
    by (simp add: loadMore_def Let_def)
next
  case None
  with assms(2,3) obtain gc where gc: "cl_filesCursor c = Some gc" "atFile q gc j" "j < length (files q)"
    and items: "cl_files c = take j (files q)" by (auto simp: loaded_def hasMore_def)
  then show ?thesis
    using more_files [OF assms(1) gc(2,3)] None assms(3) unseen_new [OF files_distinct [OF assms(1)]]
    by (simp add: loadMore_def Let_def)
qed

lemma loaded_reachable: "ok q \<Longrightarrow> \<exists>k j. loaded q ((loadMore (fetch q) ^^ n) (fetchFirst (fetch q))) k j"
proof (induction n)
  case 0
  from loaded_first [OF this] show ?case by auto
next
  case (Suc n)
  let ?c = "(loadMore (fetch q) ^^ n) (fetchFirst (fetch q))"
  from Suc obtain k j where l: "loaded q ?c k j" by blast
  show ?case
  proof (cases "hasMore ?c")
    case True
    from loaded_step [OF Suc.prems l True] show ?thesis by auto
  next
    case False
    then have "loadMore (fetch q) ?c = ?c" by (simp add: loadMore_def)
    with l show ?thesis by auto
  qed
qed

lemma pages_are_new:
  assumes "ok q"
  shows "let c = (loadMore (fetch q) ^^ n) (fetchFirst (fetch q));
    page = fetch q (case cl_foldersCursor c of None \<Rightarrow> cl_filesCursor c | Some x \<Rightarrow> Some x) in
    \<not> hasMore c \<or> cl_folders (loadMore (fetch q) c) = cl_folders c @ lp_folders page \<and> cl_files (loadMore (fetch q) c) = cl_files c @ lp_files page"
  using loaded_reachable [OF assms, of n] page_is_new [OF assms] by (auto simp: Let_def)

end

record shared_query =
  shq_strLess :: "string \<Rightarrow> string \<Rightarrow> bool"
  shq_userId :: string
  shq_limit :: nat
  shq_db :: backend

text \<open>The client asks for the totals with the first page only.\<close>

definition sharedFetch :: "shared_query \<Rightarrow> list_cursor option \<Rightarrow> listing_page" where
  "sharedFetch q c = listShared (shq_strLess q) (shq_userId q) (Some (shq_limit q)) (if c = None then None else Some False) c (shq_db q)"

definition sharedOk :: "shared_query \<Rightarrow> bool" where
  "sharedOk q \<longleftrightarrow> 0 < shq_limit q \<and> collation (shq_strLess q) \<and> listableIds (shq_db q)"

definition sharedFolders :: "shared_query \<Rightarrow> folder_row list" where
  "sharedFolders q = sortedMatches (folderBefore (shq_strLess q) ''createdAt'' Desc) (sharedFolderWhere (shq_userId q)) (bk_folders (shq_db q))"

definition sharedFiles :: "shared_query \<Rightarrow> file_row list" where
  "sharedFiles q = sortedMatches (fileBefore (shq_strLess q) ''createdAt'' Desc) (sharedFileWhere (shq_userId q)) (bk_files (shq_db q))"

definition fileCursorAt :: "shared_query \<Rightarrow> nat \<Rightarrow> string option" where
  "fileCursorAt q j = (if j < length (sharedFiles q) then Some (fr_id (sharedFiles q ! (j - 1))) else None)"

definition sharedAtFolder :: "shared_query \<Rightarrow> list_cursor \<Rightarrow> nat \<Rightarrow> nat \<Rightarrow> bool" where
  "sharedAtFolder q c k j \<longleftrightarrow> 0 < k \<and> (j < length (sharedFiles q) \<longrightarrow> 0 < j) \<and>
     c = \<lparr>lc_f = Some (fld_id (sharedFolders q ! (k - 1))), lc_fc = fileCursorAt q j, lc_fd = (length (sharedFiles q) \<le> j)\<rparr>"

definition sharedAtFile :: "shared_query \<Rightarrow> list_cursor \<Rightarrow> nat \<Rightarrow> bool" where
  "sharedAtFile q c j \<longleftrightarrow> 0 < j \<and> c = noCursor\<lparr>lc_fc := Some (fr_id (sharedFiles q ! (j - 1)))\<rparr>"

lemma shared_first:
  assumes "sharedOk q"
  shows "sharedFetch q None = \<lparr>lp_folders = take (shq_limit q) (sharedFolders q), lp_files = take (shq_limit q) (sharedFiles q),
     lp_nextFolderCursor = (if shq_limit q < length (sharedFolders q)
        then Some \<lparr>lc_f = Some (fld_id (sharedFolders q ! (shq_limit q - 1))), lc_fc = fileCursorAt q (shq_limit q),
          lc_fd = (length (sharedFiles q) \<le> shq_limit q)\<rparr> else None),
     lp_nextFileCursor = (if shq_limit q < length (sharedFiles q)
        then Some (noCursor\<lparr>lc_fc := Some (fr_id (sharedFiles q ! (shq_limit q - 1)))\<rparr>) else None),
     lp_totals = lp_totals (sharedFetch q None)\<rparr>"
  using assms
  by (simp add: sharedFetch_def listShared_def noCursor_def page_simps sharedOk_def sharedFolders_def sharedFiles_def fileCursorAt_def)

lemma shared_folders:
  assumes ok: "sharedOk q" and "0 < k" and "k < length (sharedFolders q)" and "j < length (sharedFiles q) \<longrightarrow> 0 < j" and "j \<le> length (sharedFiles q)"
    and c: "c = \<lparr>lc_f = Some (fld_id (sharedFolders q ! (k - 1))), lc_fc = fileCursorAt q j, lc_fd = (length (sharedFiles q) \<le> j)\<rparr>"
  shows "sharedFetch q (Some c) = \<lparr>lp_folders = take (shq_limit q) (drop k (sharedFolders q)),
      lp_files = (if k + shq_limit q < length (sharedFolders q) then [] else take (shq_limit q) (drop j (sharedFiles q))),
      lp_nextFolderCursor = (if k + shq_limit q < length (sharedFolders q)
        then Some (c\<lparr>lc_f := Some (fld_id (sharedFolders q ! (k + shq_limit q - 1)))\<rparr>) else None),
      lp_nextFileCursor = (if k + shq_limit q < length (sharedFolders q)
        then (if j < length (sharedFiles q) then Some (noCursor\<lparr>lc_fc := fileCursorAt q j\<rparr>) else None)
        else (if j + shq_limit q < length (sharedFiles q) then Some (noCursor\<lparr>lc_fc := Some (fr_id (sharedFiles q ! (j + shq_limit q - 1)))\<rparr>) else None)),
      lp_totals = lp_totals (sharedFetch q (Some c))\<rparr>"
proof -
  from ok have b: "listableIds (shq_db q)" and s: "collation (shq_strLess q)" and l: "0 < shq_limit q" by (simp_all add: sharedOk_def)
  note f = after_folder [OF b row_orders(1) [OF s], of k "''createdAt''" Desc "sharedFolderWhere (shq_userId q)", folded sharedFolders_def]
  note g = after_file [OF b row_orders(2) [OF s], of j "''createdAt''" Desc "sharedFileWhere (shq_userId q)", folded sharedFiles_def]
  show ?thesis
    using assms(2-5) l f g
    by (cases "j < length (sharedFiles q)"; cases "k + shq_limit q < length (sharedFolders q)")
      (simp_all add: c sharedFetch_def listShared_def noCursor_def page_simps fileCursorAt_def, auto simp: min_def)
qed

lemma shared_files:
  assumes ok: "sharedOk q" and "0 < j" and "j < length (sharedFiles q)"
  shows "sharedFetch q (Some (noCursor\<lparr>lc_fc := Some (fr_id (sharedFiles q ! (j - 1)))\<rparr>)) =
     \<lparr>lp_folders = [], lp_files = take (shq_limit q) (drop j (sharedFiles q)), lp_nextFolderCursor = None,
      lp_nextFileCursor = (if j + shq_limit q < length (sharedFiles q)
        then Some (noCursor\<lparr>lc_fc := Some (fr_id (sharedFiles q ! (j + shq_limit q - 1)))\<rparr>) else None),
      lp_totals = lp_totals (sharedFetch q (Some (noCursor\<lparr>lc_fc := Some (fr_id (sharedFiles q ! (j - 1)))\<rparr>)))\<rparr>"
proof -
  from ok have b: "listableIds (shq_db q)" and s: "collation (shq_strLess q)" and l: "0 < shq_limit q" by (simp_all add: sharedOk_def)
  note g = after_file [OF b row_orders(2) [OF s], of j "''createdAt''" Desc "sharedFileWhere (shq_userId q)", folded sharedFiles_def]
  show ?thesis
    using assms(2,3) l g
    by (simp add: sharedFetch_def listShared_def noCursor_def page_simps add.commute less_diff_conv)
qed

interpretation shared: resuming_listing sharedOk sharedFolders sharedFiles shq_limit sharedFetch sharedAtFolder sharedAtFile
proof unfold_locales
  fix q
  assume ok: "sharedOk q"
  then show l: "0 < shq_limit q" by (simp add: sharedOk_def)
  from ok show "distinct (map fld_id (sharedFolders q))" "distinct (map fr_id (sharedFiles q))"
    by (simp_all add: sharedOk_def sharedFolders_def sharedFiles_def listableIds_def distinct_sortedMatches)
  note first = shared_first [OF ok]
  show "lp_folders (sharedFetch q None) = take (shq_limit q) (sharedFolders q) \<and> lp_files (sharedFetch q None) = take (shq_limit q) (sharedFiles q)"
    by (subst (1 2) first) simp
  from l show "case lp_nextFolderCursor (sharedFetch q None) of None \<Rightarrow> length (sharedFolders q) \<le> shq_limit q
      | Some c \<Rightarrow> shq_limit q < length (sharedFolders q) \<and> sharedAtFolder q c (shq_limit q) (min (shq_limit q) (length (sharedFiles q)))"
    by (subst first) (auto simp: sharedAtFolder_def fileCursorAt_def min_def)
  from l show "case lp_nextFileCursor (sharedFetch q None) of None \<Rightarrow> length (sharedFiles q) \<le> shq_limit q
      | Some c \<Rightarrow> shq_limit q < length (sharedFiles q) \<and> sharedAtFile q c (shq_limit q)"
    by (subst first) (simp add: sharedAtFile_def not_less)
next
  fix q c k j
  assume ok: "sharedOk q" and at: "sharedAtFolder q c k j" and k: "k < length (sharedFolders q)" and j: "j \<le> length (sharedFiles q)"
  then have l: "0 < shq_limit q" by (simp add: sharedOk_def)
  note at = at [unfolded sharedAtFolder_def]
  note page = shared_folders [OF ok conjunct1 [OF at] k conjunct1 [OF conjunct2 [OF at]] j conjunct2 [OF conjunct2 [OF at]]]
  show "lp_folders (sharedFetch q (Some c)) = take (shq_limit q) (drop k (sharedFolders q)) \<and>
      (case lp_nextFolderCursor (sharedFetch q (Some c)) of
         Some c' \<Rightarrow> k + shq_limit q < length (sharedFolders q) \<and> sharedAtFolder q c' (k + shq_limit q) j \<and> lp_files (sharedFetch q (Some c)) = []
       | None \<Rightarrow> length (sharedFolders q) \<le> k + shq_limit q \<and> (\<exists>i. i \<le> j \<and> j \<le> i + shq_limit q \<and>
           lp_files (sharedFetch q (Some c)) = take (shq_limit q) (drop i (sharedFiles q)) \<and>
           (case lp_nextFileCursor (sharedFetch q (Some c)) of None \<Rightarrow> length (sharedFiles q) \<le> i + shq_limit q
            | Some c' \<Rightarrow> i + shq_limit q < length (sharedFiles q) \<and> sharedAtFile q c' (i + shq_limit q))))"
    using at l by (subst (1 2 3 4 5) page) (auto simp: sharedAtFolder_def sharedAtFile_def not_less intro: exI [where x = j])
  show "lp_nextFolderCursor (sharedFetch q (Some c)) = None \<Longrightarrow> lp_files (sharedFetch q (Some c)) = take (shq_limit q) (drop j (sharedFiles q))"
    by (subst (asm) page, subst page) (simp split: if_splits)
next
  fix q c j
  assume ok: "sharedOk q" and at: "sharedAtFile q c j" and j: "j < length (sharedFiles q)"
  from at have c: "0 < j" "c = noCursor\<lparr>lc_fc := Some (fr_id (sharedFiles q ! (j - 1)))\<rparr>" by (simp_all add: sharedAtFile_def)
  have "0 < shq_limit q" using ok by (simp add: sharedOk_def)
  then show "lp_folders (sharedFetch q (Some c)) = [] \<and> lp_nextFolderCursor (sharedFetch q (Some c)) = None \<and>
      lp_files (sharedFetch q (Some c)) = take (shq_limit q) (drop j (sharedFiles q)) \<and>
      (case lp_nextFileCursor (sharedFetch q (Some c)) of None \<Rightarrow> length (sharedFiles q) \<le> j + shq_limit q
       | Some c' \<Rightarrow> j + shq_limit q < length (sharedFiles q) \<and> sharedAtFile q c' (j + shq_limit q))"
    unfolding c(2) by (subst (1 2 3 4) shared_files [OF ok c(1) j]) (simp add: sharedAtFile_def not_less)
qed

subsection \<open>Properties\<close>

text \<open>The request of the client for a page of a folder (frontend lib/api/folders.ts): the query with the cursor.\<close>

definition browsePage ::
  "(string \<Rightarrow> string \<Rightarrow> bool) \<Rightarrow> (string \<Rightarrow> string \<Rightarrow> bool) \<Rightarrow> string \<Rightarrow> string option \<Rightarrow> page_query \<Rightarrow> backend \<Rightarrow> list_cursor option \<Rightarrow> listing_page" where
  "browsePage strLess contains userId folderId q b c = getContent strLess contains userId folderId (q\<lparr>pq_cursor := c\<rparr>) b"

definition searchPage ::
  "(string \<Rightarrow> string \<Rightarrow> bool) \<Rightarrow> (string \<Rightarrow> string \<Rightarrow> bool) \<Rightarrow> string \<Rightarrow> search_query \<Rightarrow> backend \<Rightarrow> list_cursor option \<Rightarrow> listing_page" where
  "searchPage strLess contains userId d b c = searchAll strLess contains userId (d\<lparr>sq_cursor := c\<rparr>) b"

text \<open>The state after the first page and \<open>n\<close> further ones.\<close>

definition loadPages :: "(list_cursor option \<Rightarrow> listing_page) \<Rightarrow> nat \<Rightarrow> client" where
  "loadPages fetch n = (loadMore fetch ^^ n) (fetchFirst fetch)"

definition loadedAll :: "(list_cursor option \<Rightarrow> listing_page) \<Rightarrow> folder_row list \<Rightarrow> file_row list \<Rightarrow> bool" where
  "loadedAll fetch fs gs \<longleftrightarrow> (\<exists>n \<le> length fs + length gs.
     cl_folders (loadPages fetch n) = fs \<and> cl_files (loadPages fetch n) = gs \<and> \<not> hasMore (loadPages fetch n))"

lemma content_loadedAll: "contentOk q \<Longrightarrow> loadedAll (contentFetch q) (contentFolders q) (contentFiles q)"
  using content.all_loaded [of q] by (simp add: loadedAll_def loadPages_def Let_def)

text \<open>A collation to run the listings with: by code units.\<close>

fun codeUnitLess :: "string \<Rightarrow> string \<Rightarrow> bool" where
  "codeUnitLess [] t = (t \<noteq> [])"
| "codeUnitLess (x # s) [] = False"
| "codeUnitLess (x # s) (y # t) = ((of_char x :: nat) < of_char y \<or> x = y \<and> codeUnitLess s t)"

lemma codeUnitLess_irrefl: "\<not> codeUnitLess s s"
  by (induction s) auto

lemma codeUnitLess_trans: "codeUnitLess s t \<Longrightarrow> codeUnitLess t u \<Longrightarrow> codeUnitLess s u"
proof (induction s t arbitrary: u rule: codeUnitLess.induct)
  case (1 t)
  then show ?case by (cases u) (auto elim: codeUnitLess.elims)
next
  case (3 x s y t)
  then show ?case by (cases u) auto
qed simp

lemma codeUnitLess_total: "s \<noteq> t \<Longrightarrow> codeUnitLess s t \<or> codeUnitLess t s"
  by (induction s t rule: codeUnitLess.induct) (auto simp: neq_Nil_conv nat_neq_iff)

lemma collation_codeUnitLess: "collation codeUnitLess"
  unfolding collation_def using codeUnitLess_irrefl codeUnitLess_trans codeUnitLess_total by blast

definition listingDemo :: backend where
  "listingDemo = emptyBackend\<lparr>bk_folders := [newFolderRow ''d1'' ''a'' None ''u1'' 10, (newFolderRow ''d2'' ''b'' None ''u1'' 20)\<lparr>fld_s3PublicAccess := True\<rparr>],
     bk_files := [newFileRow ''f1'' ''x.PDF'' 5 None ''u1'' 1, (newFileRow ''f2'' ''y'' 6 None ''u1'' 2)\<lparr>fr_shareToken := Some ''t''\<rparr>,
       (newFileRow ''f3'' ''z'' 6 None ''u1'' 3)\<lparr>fr_shareToken := Some ''t3''\<rparr>]\<rparr>"

lemma listingDemo_ids: "listableIds listingDemo"
  by (simp add: listableIds_def listingDemo_def newFolderRow_def newFileRow_def)

text \<open>
  C8. Browsing a folder loads all of it: a client that follows the cursors of \<open>getContent\<close>, the folder
  cursor first, ends after at most as many requests as there are rows, and then has exactly the live
  folders and the visible files of the folder that match the search, each once and in the order asked for.
\<close>
theorem browsing_loads_everything:
  assumes "collation strLess" and "listableIds b" and "pq_limit q = Some l" and "0 < l"
  shows "loadedAll (browsePage strLess contains userId folderId q b)
    (sortBy (folderBefore strLess (sortFieldOf (pq_sortField q)) (case pq_sortDirection q of None \<Rightarrow> Desc | Some d \<Rightarrow> d))
      (filter (contentFolderWhere contains userId folderId (pq_search q)) (bk_folders b)))
    (sortBy (fileBefore strLess (sortFieldOf (pq_sortField q)) (case pq_sortDirection q of None \<Rightarrow> Desc | Some d \<Rightarrow> d))
      (filter (contentFileWhere contains userId folderId (pq_search q)) (bk_files b)))"
proof -
  let ?dir = "case pq_sortDirection q of None \<Rightarrow> Desc | Some d \<Rightarrow> d"
  let ?q = "\<lparr>lq_folderLess = folderBefore strLess (sortFieldOf (pq_sortField q)) ?dir, lq_fileLess = fileBefore strLess (sortFieldOf (pq_sortField q)) ?dir,
    lq_folderWhere = contentFolderWhere contains userId folderId (pq_search q), lq_fileWhere = contentFileWhere contains userId folderId (pq_search q),
    lq_searchFolders = True, lq_searchFiles = True, lq_limit = l, lq_db = b\<rparr>"
  have "contentOk ?q" using assms row_orders [OF assms(1)] by (simp add: contentOk_def)
  moreover have "contentFetch ?q = browsePage strLess contains userId folderId q b"
    using assms(3) by (auto simp: contentFetch_def browsePage_def getContent_def Let_def)
  ultimately show ?thesis
    using content_loadedAll [of ?q] by (simp add: contentFolders_def contentFiles_def sortedMatches_def)
qed

definition browseDemoQuery :: page_query where
  "browseDemoQuery = \<lparr>pq_limit = Some 1, pq_sortField = None, pq_sortDirection = None, pq_search = None, pq_cursor = None\<rparr>"

lemmas listingDemo_eval = sortBy_def listingDemo_def newFolderRow_def newFileRow_def contentFolderWhere_def contentFileWhere_def
  sharedFolderWhere_def sharedFileWhere_def searchFolderWhere_def searchFileWhere_def inRange_def
  orNull_def searchHit_def visibleStatus_def folderBefore_def fileBefore_def rowBefore_def

lemma loadedAll_ids:
  assumes "loadedAll fetch fs gs" and "map fld_id fs = as" and "map fr_id gs = bs" and "length as + length bs = n"
  shows "\<exists>m \<le> n. map fld_id (cl_folders (loadPages fetch m)) = as \<and> map fr_id (cl_files (loadPages fetch m)) = bs"
  using assms unfolding loadedAll_def by (metis length_map)

theorem browsing_loads_everything_witness:
  "\<exists>n \<le> 5. map fld_id (cl_folders (loadPages (browsePage codeUnitLess (\<lambda>_ _. True) ''u1'' None browseDemoQuery listingDemo) n)) = [''d2'', ''d1''] \<and>
     map fr_id (cl_files (loadPages (browsePage codeUnitLess (\<lambda>_ _. True) ''u1'' None browseDemoQuery listingDemo) n)) = [''f3'', ''f2'', ''f1'']"
proof (rule loadedAll_ids)
  show "loadedAll (browsePage codeUnitLess (\<lambda>_ _. True) ''u1'' None browseDemoQuery listingDemo)
      (sortBy (folderBefore codeUnitLess ''createdAt'' Desc) (filter (contentFolderWhere (\<lambda>_ _. True) ''u1'' None None) (bk_folders listingDemo)))
      (sortBy (fileBefore codeUnitLess ''createdAt'' Desc) (filter (contentFileWhere (\<lambda>_ _. True) ''u1'' None None) (bk_files listingDemo)))"
    using browsing_loads_everything [OF collation_codeUnitLess listingDemo_ids, of browseDemoQuery 1 "\<lambda>_ _. True" "''u1''" None]
    by (simp add: browseDemoQuery_def sortFieldOf_def)
qed (simp_all add: listingDemo_eval)

text \<open>
  Searching loads every match: the same client on \<open>searchAll\<close> ends with exactly the live rows of the
  user that the search, the time range and the format filter let through, anywhere in the tree. Folders are
  left out when only files or a format are asked for, files when only folders are.
\<close>
theorem search_loads_every_match:
  assumes "collation strLess" and "listableIds b" and "sq_limit d = Some l" and "0 < l"
  shows "loadedAll (searchPage strLess contains userId d b)
    (if sq_type d = Some ''folder'' \<or> sq_type d \<in> {None, Some [], Some ''all''} \<and> \<not> present (sq_format d)
     then sortBy (folderBefore strLess (sortFieldOf (sq_sortField d)) (case sq_sortDirection d of None \<Rightarrow> Desc | Some x \<Rightarrow> x))
       (filter (searchFolderWhere contains userId d) (bk_folders b)) else [])
    (if sq_type d \<noteq> Some ''folder''
     then sortBy (fileBefore strLess (sortFieldOf (sq_sortField d)) (case sq_sortDirection d of None \<Rightarrow> Desc | Some x \<Rightarrow> x))
       (filter (searchFileWhere contains userId d) (bk_files b)) else [])"
proof -
  let ?dir = "case sq_sortDirection d of None \<Rightarrow> Desc | Some x \<Rightarrow> x"
  let ?ty = "if present (sq_type d) then the (sq_type d) else ''all''"
  let ?q = "\<lparr>lq_folderLess = folderBefore strLess (sortFieldOf (sq_sortField d)) ?dir, lq_fileLess = fileBefore strLess (sortFieldOf (sq_sortField d)) ?dir,
    lq_folderWhere = searchFolderWhere contains userId d, lq_fileWhere = searchFileWhere contains userId d,
    lq_searchFolders = (?ty = ''folder'' \<or> ?ty = ''all'' \<and> \<not> present (sq_format d)), lq_searchFiles = (?ty \<noteq> ''folder''), lq_limit = l, lq_db = b\<rparr>"
  have where': "searchFolderWhere contains userId (d\<lparr>sq_cursor := c\<rparr>) = searchFolderWhere contains userId d"
    "searchFileWhere contains userId (d\<lparr>sq_cursor := c\<rparr>) = searchFileWhere contains userId d" for c
    by (auto simp: searchFolderWhere_def searchFileWhere_def inRange_def)
  have ty: "(?ty = ''folder'') = (sq_type d = Some ''folder'')" "(?ty = ''all'') = (sq_type d \<in> {None, Some [], Some ''all''})"
    by (cases "sq_type d"; simp add: present_def; auto)+
  have "contentOk ?q" using assms row_orders [OF assms(1)] by (simp add: contentOk_def)
  moreover have "contentFetch ?q = searchPage strLess contains userId d b"
    using assms(3) by (auto simp: contentFetch_def searchPage_def searchAll_def Let_def where')
  ultimately show ?thesis
    using content_loadedAll [of ?q] ty by (simp add: contentFolders_def contentFiles_def sortedMatches_def cong: if_cong)
qed

definition searchDemoQuery :: search_query where
  "searchDemoQuery = \<lparr>sq_q = None, sq_type = None, sq_format = Some ''document'', sq_createdFrom = None, sq_createdTo = None,
     sq_cursor = None, sq_limit = Some 1, sq_sortField = None, sq_sortDirection = None\<rparr>"

theorem search_loads_every_match_witness:
  "\<exists>n \<le> 1. map fld_id (cl_folders (loadPages (searchPage codeUnitLess (\<lambda>_ _. True) ''u1'' searchDemoQuery listingDemo) n)) = [] \<and>
     map fr_id (cl_files (loadPages (searchPage codeUnitLess (\<lambda>_ _. True) ''u1'' searchDemoQuery listingDemo) n)) = [''f1'']"
proof (rule loadedAll_ids)
  show "loadedAll (searchPage codeUnitLess (\<lambda>_ _. True) ''u1'' searchDemoQuery listingDemo) []
      (sortBy (fileBefore codeUnitLess ''createdAt'' Desc) (filter (searchFileWhere (\<lambda>_ _. True) ''u1'' searchDemoQuery) (bk_files listingDemo)))"
    using search_loads_every_match [OF collation_codeUnitLess listingDemo_ids, of searchDemoQuery 1 "\<lambda>_ _. True" "''u1''"]
    by (simp add: searchDemoQuery_def sortFieldOf_def present_def)
  have "buildFormatWhere (sq_format searchDemoQuery) = Some (AnyOf (matcherConditions (the (map_of knownMatchers ''document''))))"
    by (simp add: buildFormatWhere_def searchDemoQuery_def present_def formatCategories_def)
  moreover have "char_of (100 :: nat) = CHR ''d''" "char_of (112 :: nat) = CHR ''p''" "char_of (102 :: nat) = CHR ''f''" by code_simp+
  ultimately show "map fr_id (sortBy (fileBefore codeUnitLess ''createdAt'' Desc)
      (filter (searchFileWhere (\<lambda>_ _. True) ''u1'' searchDemoQuery) (bk_files listingDemo))) = [''f1'']"
    by (simp add: listingDemo_eval knownMatchers_def matcherConditions_def foldCase_def) (simp add: searchDemoQuery_def present_def)
qed simp_all

text \<open>
  The view of shared items loads every live folder with a link or public S3 access and every live file
  with a link, newest first, and no row is sent twice: its cursors carry how far the files were read,
  so a client never has to drop a row of a page.
\<close>
theorem shared_items_loaded_once:
  assumes "collation strLess" and "listableIds b" and "0 < l"
  shows "let fetch = sharedFetch \<lparr>shq_strLess = strLess, shq_userId = userId, shq_limit = l, shq_db = b\<rparr> in
    loadedAll fetch (sortBy (folderBefore strLess ''createdAt'' Desc) (filter (sharedFolderWhere userId) (bk_folders b)))
      (sortBy (fileBefore strLess ''createdAt'' Desc) (filter (sharedFileWhere userId) (bk_files b))) \<and>
    (\<forall>n. let c = loadPages fetch n; page = fetch (case cl_foldersCursor c of None \<Rightarrow> cl_filesCursor c | Some x \<Rightarrow> Some x) in
       \<not> hasMore c \<or> cl_folders (loadPages fetch (Suc n)) = cl_folders c @ lp_folders page \<and>
         cl_files (loadPages fetch (Suc n)) = cl_files c @ lp_files page)"
proof -
  let ?q = "\<lparr>shq_strLess = strLess, shq_userId = userId, shq_limit = l, shq_db = b\<rparr>"
  have ok: "sharedOk ?q" using assms by (simp add: sharedOk_def)
  show ?thesis
    using shared.all_loaded [OF ok] shared.pages_are_new [OF ok]
    by (simp add: Let_def loadedAll_def loadPages_def sharedFolders_def sharedFiles_def sortedMatches_def)
qed

theorem shared_items_loaded_once_witness:
  "\<exists>n \<le> 3. map fld_id (cl_folders (loadPages (sharedFetch \<lparr>shq_strLess = codeUnitLess, shq_userId = ''u1'', shq_limit = 1, shq_db = listingDemo\<rparr>) n)) = [''d2''] \<and>
     map fr_id (cl_files (loadPages (sharedFetch \<lparr>shq_strLess = codeUnitLess, shq_userId = ''u1'', shq_limit = 1, shq_db = listingDemo\<rparr>) n)) = [''f3'', ''f2'']"
proof (rule loadedAll_ids)
  show "loadedAll (sharedFetch \<lparr>shq_strLess = codeUnitLess, shq_userId = ''u1'', shq_limit = 1, shq_db = listingDemo\<rparr>)
      (sortBy (folderBefore codeUnitLess ''createdAt'' Desc) (filter (sharedFolderWhere ''u1'') (bk_folders listingDemo)))
      (sortBy (fileBefore codeUnitLess ''createdAt'' Desc) (filter (sharedFileWhere ''u1'') (bk_files listingDemo)))"
    using shared_items_loaded_once [OF collation_codeUnitLess listingDemo_ids, of 1 "''u1''"] by (simp add: Let_def)
qed (simp_all add: listingDemo_eval)

text \<open>
  The format categories of the search partition nothing away: a file is in the category \<open>other\<close> exactly
  when no known category has it, so every file is found under some category; an unknown category filters nothing.
\<close>
theorem format_categories_cover:
  "formatHolds (the (buildFormatWhere (Some ''other''))) f =
     (\<not> list_ex (\<lambda>c. formatHolds (the (buildFormatWhere (Some c))) f) [''image'', ''video'', ''audio'', ''document'', ''archive'']) \<and>
   (c \<in> set formatCategories \<longleftrightarrow> buildFormatWhere (Some c) \<noteq> None)"
proof
  have known: "map fst knownMatchers = [''image'', ''video'', ''audio'', ''document'', ''archive'']"
    by (simp add: knownMatchers_def)
  have one: "buildFormatWhere (Some (fst m)) = Some (AnyOf (matcherConditions (snd m)))" if "m \<in> set knownMatchers" for m
    using that by (auto simp: knownMatchers_def buildFormatWhere_def present_def formatCategories_def)
  have "formatHolds (the (buildFormatWhere (Some ''other''))) f = (\<not> (\<exists>m \<in> set knownMatchers. \<exists>c \<in> set (matcherConditions (snd m)). conditionHolds f c))"
    by (auto simp: buildFormatWhere_def present_def formatCategories_def)
  also have "\<dots> = (\<not> (\<exists>m \<in> set knownMatchers. formatHolds (the (buildFormatWhere (Some (fst m)))) f))"
    by (simp add: one cong: bex_cong)
  also have "\<dots> = (\<not> list_ex (\<lambda>c. formatHolds (the (buildFormatWhere (Some c))) f) (map fst knownMatchers))"
    by (simp add: list_ex_iff)
  finally show "formatHolds (the (buildFormatWhere (Some ''other''))) f =
     (\<not> list_ex (\<lambda>c. formatHolds (the (buildFormatWhere (Some c))) f) [''image'', ''video'', ''audio'', ''document'', ''archive''])"
    unfolding known .
qed (auto simp: buildFormatWhere_def present_def formatCategories_def)

end
