(* ===== verification/Upload.thy ===== *)
theory Upload
  imports FileMeta
begin

section \<open>Uploads\<close>

text \<open>
  \<^verbatim>\<open>UploadSessionService\<close> (backend/src/file/upload-session.service.ts), \<^verbatim>\<open>UploadBufferService\<close>
  (upload-buffer.service.ts) and the upload reports of \<^verbatim>\<open>GrpcCoreController\<close>
  (backend/src/grpc/grpc-core.controller.ts). What the transfer server, Telegram and the temp storage answer,
  the keys the crypto service draws, the resolved MIME types and fresh ids are arguments; \<open>None\<close> is a failed call.
  The text of quota errors leaves the megabytes out.
\<close>

record upload_keys =
  uk_iv :: string
  uk_encryptedKey :: string

definition AES_CTR :: string where
  "AES_CTR = ''aes-256-ctr''"

definition encrypted :: "upload_keys \<Rightarrow> file_row \<Rightarrow> file_row" where
  "encrypted k r = r\<lparr>fr_isEncrypted := True, fr_encryptionAlgo := Some AES_CTR, fr_encryptionIv := Some (uk_iv k),
     fr_encryptedKey := Some (uk_encryptedKey k)\<rparr>"

definition checkQuota :: "string \<Rightarrow> int \<Rightarrow> unit bop" where
  "checkQuota userId fileSize = bindOp (getsOp (findUser userId)) (\<lambda>user. case user of
     None \<Rightarrow> throwOp (NotFoundException ''User not found'')
   | Some u \<Rightarrow> if usr_usedSpace u + fileSize > usr_quota u then throwOp (HttpException 400 ''Storage quota exceeded'') else returnOp ())"

text \<open>The name of an upload: the three callers have the same block.\<close>

definition resolveFilename :: "string \<Rightarrow> string \<Rightarrow> string option \<Rightarrow> conflict_action option \<Rightarrow> int \<Rightarrow> string bop" where
  "resolveFilename filename userId folderId conflictAction now =
     bindOp (getsOp (\<lambda>b. (checkFileConflict (orNull folderId) filename userId None b,
        generateUniqueName filename (getExistingNames (orNull folderId) userId b)))) (\<lambda>(conflict, uniqueName).
     case conflict of None \<Rightarrow> returnOp filename
     | Some c \<Rightarrow>
        if conflictAction = None \<or> conflictAction = Some Skip then
          throwOp (NameConflict ''file'' (Some (fr_id c)) (Some (fr_filename c)) (Some uniqueName))
        else if conflictAction = Some Overwrite then
          thenOp (updateFile (fr_id c) (\<lambda>r. r\<lparr>fr_deletedAt := Some now\<rparr>)) (returnOp filename)
        else if conflictAction = Some Rename then returnOp uniqueName
        else returnOp filename)"

definition removeFile :: "string \<Rightarrow> unit bop" where
  "removeFile fid = bindOp (getsOp (findFile fid)) (\<lambda>x. case x of None \<Rightarrow> throwOp PrismaP2025
     | Some _ \<Rightarrow> modifyOp (deleteFilesWhere (\<lambda>r. fr_id r = fid)))"

definition chargeQuota :: "string \<Rightarrow> int \<Rightarrow> unit bop" where
  "chargeQuota userId n = updateUser userId (\<lambda>u. u\<lparr>usr_usedSpace := usr_usedSpace u + n\<rparr>)"

subsection \<open>Files in one piece\<close>

definition uploadFile ::
  "string \<Rightarrow> string \<Rightarrow> upload_keys \<Rightarrow> (string \<times> int \<times> int) option \<Rightarrow> string \<Rightarrow> int \<Rightarrow> string \<Rightarrow> string option \<Rightarrow>
   conflict_action option \<Rightarrow> int \<Rightarrow> file_row bop" where
  "uploadFile newId mime keys telegram filename fileSize userId folderId conflictAction now =
     thenOp (checkQuota userId fileSize)
     (bindOp (resolveFilename filename userId folderId conflictAction now) (\<lambda>targetFilename.
      (let row = (encrypted keys (newFileRow newId targetFilename fileSize (orNull folderId) userId now))
             \<lparr>fr_mimeType := mime, fr_status := Uploading\<rparr> in
       thenOp (createFile row)
       (catchOp (case telegram of None \<Rightarrow> throwOp (PlainError ''Telegram upload failed'')
          | Some (tgFileId, tgMessageId, botId) \<Rightarrow>
             thenOp (transactionOp (thenOp
               (updateFile newId (\<lambda>r. r\<lparr>fr_telegramFileId := Some tgFileId, fr_telegramMessageId := Some tgMessageId,
                  fr_botId := botId, fr_status := Complete\<rparr>))
               (chargeQuota userId fileSize)))
             (returnOp (row\<lparr>fr_telegramFileId := Some tgFileId, fr_telegramMessageId := Some tgMessageId,
                  fr_botId := botId, fr_status := Complete\<rparr>)))
        (\<lambda>err. thenOp (removeFile newId) (throwOp err))))))"

definition shouldBuffer :: "int \<Rightarrow> int option \<Rightarrow> int \<Rightarrow> int \<Rightarrow> bool" where
  "shouldBuffer maxBufferFileSize usedBytes maxBufferDiskMb sz \<longleftrightarrow> \<not> sz > maxBufferFileSize \<and>
     (case usedBytes of None \<Rightarrow> False | Some used \<Rightarrow> \<not> used \<ge> maxBufferDiskMb * 1024 * 1024 * 8 div 10)"

text \<open>What the temp storage and the dispatch queue do during one request.\<close>

record buffer_env =
  be_capacityOk :: bool
  be_writeOk :: bool
  be_md5 :: string
  be_dispatchToGo :: bool
  be_accepted :: "string option"

definition acceptedByGo :: "buffer_env \<Rightarrow> bool" where
  "acceptedByGo env = (be_accepted env = Some [])"

definition bufferFull :: backend_error where
  "bufferFull = HttpException 503 ''upload_buffer_full''"

definition dropTemp :: "string \<Rightarrow> unit bop" where
  "dropTemp key = modifyOp (\<lambda>b. b\<lparr>bk_temp := filter (\<lambda>k. k \<noteq> key) (bk_temp b)\<rparr>)"

definition keepTemp :: "string \<Rightarrow> unit bop" where
  "keepTemp key = modifyOp (\<lambda>b. b\<lparr>bk_temp := bk_temp b @ [key]\<rparr>)"

definition quoted :: "string \<Rightarrow> string" where
  "quoted s = CHR 0x22 # s @ [CHR 0x22]"

definition acceptFile ::
  "string \<Rightarrow> string \<Rightarrow> upload_keys \<Rightarrow> buffer_env \<Rightarrow> string \<Rightarrow> string \<Rightarrow> int \<Rightarrow> string \<Rightarrow> string option \<Rightarrow>
   conflict_action option \<Rightarrow> bool \<Rightarrow> string option \<Rightarrow> int \<Rightarrow> file_row bop" where
  "acceptFile newId storageKey keys env filename mime sz userId folderId conflictAction skipConflictCheck etag now =
     thenOp (unlessOp (0 < sz) (HttpException 400 ''Empty files are not supported''))
     (thenOp (checkQuota userId sz)
     (bindOp (if skipConflictCheck then returnOp filename else resolveFilename filename userId folderId conflictAction now)
       (\<lambda>targetFilename.
      thenOp (unlessOp (be_capacityOk env) (HttpException 503 ''Temp storage capacity exceeded or file too large for buffer''))
      (thenOp (unlessOp (be_writeOk env) (HttpException 500 ''Failed to buffer file to disk''))
      (let plain = (newFileRow newId targetFilename sz (orNull folderId) userId now)\<lparr>fr_mimeType := mime, fr_status := Buffered,
             fr_tempStorageKey := Some storageKey, fr_etag := Some (if present etag then the etag else quoted (be_md5 env))\<rparr>;
           row = (if be_dispatchToGo env then plain\<lparr>fr_isEncrypted := True, fr_encryptionAlgo := Some AES_CTR,
             fr_encryptedKey := Some (uk_encryptedKey keys)\<rparr> else plain) in
       thenOp (keepTemp storageKey)
       (catchOp (thenOp (createFile row)
          (if be_dispatchToGo env then
             (if acceptedByGo env then returnOp row
              else thenOp (bestEffort (removeFile newId)) (thenOp (dropTemp storageKey) (throwOp bufferFull)))
           else thenOp (modifyOp (emit [QueueJob ''dispatch-file'' newId])) (returnOp row)))
        (\<lambda>err. thenOp (dropTemp storageKey) (throwOp err))))))))"

subsection \<open>Chunked uploads\<close>

definition initChunkedUpload ::
  "string \<Rightarrow> string \<Rightarrow> upload_keys \<Rightarrow> string \<Rightarrow> int \<Rightarrow> int \<Rightarrow> string \<Rightarrow> string option \<Rightarrow> conflict_action option \<Rightarrow> int \<Rightarrow> file_row bop" where
  "initChunkedUpload newId mime keys filename sz totalChunks userId folderId conflictAction now =
     thenOp (checkQuota userId sz)
     (bindOp (resolveFilename filename userId folderId conflictAction now) (\<lambda>targetFilename.
      (let row = (encrypted keys (newFileRow newId targetFilename sz (orNull folderId) userId now))
             \<lparr>fr_mimeType := mime, fr_status := Uploading, fr_isChunked := True, fr_totalChunks := totalChunks\<rparr> in
       thenOp (createFile row) (returnOp row))))"

text \<open>The slots of parallel chunk requests of each user, in the memory of the process.\<close>

definition acquireSlot :: "int \<Rightarrow> string \<Rightarrow> (string \<rightharpoonup> int) \<Rightarrow> (string \<rightharpoonup> int) option" where
  "acquireSlot maxConcurrent userId active =
     (let n = (case active userId of None \<Rightarrow> 0 | Some k \<Rightarrow> k) in if n \<ge> maxConcurrent then None else Some (active(userId \<mapsto> n + 1)))"

definition releaseSlot :: "string \<Rightarrow> (string \<rightharpoonup> int) \<Rightarrow> (string \<rightharpoonup> int)" where
  "releaseSlot userId active =
     (let current = (case active userId of None \<Rightarrow> 1 | Some k \<Rightarrow> if k = 0 then 1 else k) in
      if current \<le> 1 then active(userId := None) else active(userId \<mapsto> current - 1))"

definition findChunk :: "string \<Rightarrow> int \<Rightarrow> backend \<Rightarrow> chunk_row option" where
  "findChunk fileId chunkIndex b = find (\<lambda>c. ck_fileId c = fileId \<and> ck_chunkIndex c = chunkIndex) (bk_chunks b)"

text \<open>Creating a chunk: the file must exist, and its index must be new (unique key of the table).\<close>

definition createChunk :: "chunk_row \<Rightarrow> unit bop" where
  "createChunk c = bindOp (getsOp (\<lambda>b. (findFile (ck_fileId c) b, findChunk (ck_fileId c) (ck_chunkIndex c) b))) (\<lambda>(f, old).
     if f = None then throwOp (PlainError ''P2003'') else if old \<noteq> None then throwOp PrismaP2002
     else modifyOp (setChunks (\<lambda>cs. cs @ [c])))"

definition dropChunks :: "(chunk_row \<Rightarrow> bool) \<Rightarrow> unit bop" where
  "dropChunks P = modifyOp (setChunks (deleteWhere P))"

definition acceptChunk :: "string \<Rightarrow> string \<Rightarrow> buffer_env \<Rightarrow> int \<Rightarrow> string \<Rightarrow> int \<Rightarrow> chunk_row bop" where
  "acceptChunk newId iv env sz fileRecordId chunkIndex =
    (let storageKey = ''chunk/'' @ fileRecordId @ ''/'' @ showInt chunkIndex @ ''.tmp'' in
     thenOp (unlessOp (be_capacityOk env) (HttpException 503 ''Temp storage capacity exceeded or chunk too large for buffer''))
     (thenOp (unlessOp (be_writeOk env) (HttpException 500 ''Failed to buffer chunk to disk''))
     (thenOp (keepTemp storageKey)
     (catchOp
       (bindOp (getsOp (findFile fileRecordId)) (\<lambda>f.
        (let enc = (case f of None \<Rightarrow> False | Some r \<Rightarrow> fr_isEncrypted r \<and> present (fr_encryptedKey r));
             row = (newChunkRow newId fileRecordId chunkIndex sz)\<lparr>ck_tempStorageKey := Some storageKey, ck_status := Buffered,
               ck_encryptionIv := (if enc then Some iv else None), ck_etag := Some (quoted (be_md5 env))\<rparr> in
         thenOp (createChunk row)
         (if be_dispatchToGo env then
            (if acceptedByGo env then returnOp row
             else thenOp (dropChunks (\<lambda>c. ck_id c = newId)) (thenOp (dropTemp storageKey) (throwOp bufferFull)))
          else thenOp (modifyOp (emit [QueueJob ''dispatch-chunk'' newId])) (returnOp row)))))
       (\<lambda>err. thenOp (dropTemp storageKey) (throwOp err))))))"

text \<open>The in-process upload of a chunk to Telegram; \<open>rawBytes\<close> have passed the counting stream.\<close>

definition uploadAborted :: "int \<Rightarrow> int \<Rightarrow> 'a bop" where
  "uploadAborted messageId botId = thenOp (modifyOp (emit [TelegramPurge [(messageId, botId)]])) (throwOp (PlainError ''Upload aborted''))"

definition performDirectUpload ::
  "string \<Rightarrow> string option \<Rightarrow> (string \<times> int \<times> int) option \<Rightarrow> int \<Rightarrow> string \<Rightarrow> int \<Rightarrow> chunk_row bop" where
  "performDirectUpload newId iv telegram rawBytes fileId chunkIndex =
     (let dropAll = dropChunks (\<lambda>c. ck_fileId c = fileId \<and> ck_chunkIndex c = chunkIndex);
          pending = (newChunkRow newId fileId chunkIndex 0)\<lparr>ck_telegramFileId := Some [], ck_encryptionIv := iv\<rparr> in
      thenOp (catchOp (thenOp (createChunk pending)
          (case telegram of None \<Rightarrow> throwOp (PlainError ''Telegram upload failed'') | Some _ \<Rightarrow> returnOp ()))
        (\<lambda>err. thenOp dropAll (throwOp err)))
      (case telegram of None \<Rightarrow> throwOp (PlainError ''Telegram upload failed'')
       | Some (tgFileId, tgMessageId, botId) \<Rightarrow>
          (let done = pending\<lparr>ck_telegramFileId := Some tgFileId, ck_telegramMessageId := Some tgMessageId, ck_botId := botId,
             ck_size := rawBytes\<rparr> in
           bindOp (getsOp (find (\<lambda>c. ck_id c = newId) \<circ> bk_chunks)) (\<lambda>c. case c of
             None \<Rightarrow> uploadAborted tgMessageId botId
           | Some _ \<Rightarrow> thenOp (modifyOp (setChunks (updateWhere (\<lambda>c. ck_id c = newId) (\<lambda>c. c\<lparr>ck_telegramFileId := Some tgFileId,
                 ck_telegramMessageId := Some tgMessageId, ck_botId := botId, ck_size := rawBytes\<rparr>))))
              (bindOp (getsOp (findFile fileId)) (\<lambda>f. case f of None \<Rightarrow> uploadAborted tgMessageId botId
               | Some r \<Rightarrow> if fr_status r = Aborted then uploadAborted tgMessageId botId else returnOp done))))))"

definition uploadChunk ::
  "bool \<Rightarrow> bool \<Rightarrow> bool \<Rightarrow> buffer_env \<Rightarrow> string \<Rightarrow> string \<Rightarrow> (string \<times> int \<times> int) option \<Rightarrow> int \<Rightarrow> string \<Rightarrow> int \<Rightarrow> string \<Rightarrow>
   chunk_row bop" where
  "uploadChunk goOwner canBuffer hasFile env newId iv telegram rawBytes fileId chunkIndex userId =
     bindOp (getsOp (liveFile fileId userId)) (\<lambda>row. case row of
       None \<Rightarrow> throwOp (NotFoundException ''File record not found'')
     | Some f \<Rightarrow>
        thenOp (unlessOp (fr_status f = Uploading) (BadRequestException ''File upload already completed or aborted''))
        (thenOp (unlessOp (0 \<le> chunkIndex \<and> chunkIndex < fr_totalChunks f) (BadRequestException ''Invalid chunk index''))
        (bindOp (getsOp (findChunk fileId chunkIndex)) (\<lambda>existing.
         (let direct = performDirectUpload newId (if fr_isEncrypted f \<and> present (fr_encryptedKey f) then Some iv else None)
                telegram rawBytes fileId chunkIndex;
              fresh = (if \<not> hasFile then throwOp (BadRequestException ''No file field received in the request'')
                else if canBuffer then catchOp (acceptChunk newId iv env rawBytes fileId chunkIndex)
                  (\<lambda>err. if goOwner then throwOp bufferFull else direct)
                else if goOwner then throwOp (HttpException 503 ''upload_unavailable'')
                else direct) in
          case existing of None \<Rightarrow> fresh
          | Some c \<Rightarrow> if present (ck_telegramFileId c) then returnOp c
              else thenOp (dropChunks (\<lambda>x. ck_id x = ck_id c)) fresh)))))"

definition abortUpload :: "string \<Rightarrow> string \<Rightarrow> int bop" where
  "abortUpload fileId userId = bindOp (getsOp (\<lambda>b. (liveFile fileId userId b, chunksOf fileId b))) (\<lambda>(row, chunks). case row of
     None \<Rightarrow> throwOp (NotFoundException ''File record not found'')
   | Some f \<Rightarrow>
      thenOp (unlessOp (fr_status f \<noteq> Complete) (BadRequestException ''Cannot abort a completed upload. Use DELETE instead.''))
      (thenOp (updateFile fileId (\<lambda>r. r\<lparr>fr_status := Aborted\<rparr>))
      (thenOp (purgeFilesFromTelegram [(f\<lparr>fr_telegramMessageId := None\<rparr>, chunks)])
      (bindOp (getsOp (chunksOf fileId)) (\<lambda>latestChunks.
      thenOp (purgeFilesFromTelegram [(f\<lparr>fr_telegramMessageId := None\<rparr>, filter (\<lambda>c. ck_telegramMessageId c \<notin> ck_telegramMessageId ` set chunks) latestChunks)])
      (thenOp (purgeTempFiles [(f, latestChunks)])
      (thenOp (removeFile fileId) (returnOp (int (length latestChunks))))))))))"

text \<open>
  \<open>confirm\<close> is the answer of the transfer server to \<^verbatim>\<open>flushAndConfirm\<close>: whether all chunks were received.
\<close>

definition landedChunks :: "string \<Rightarrow> backend \<Rightarrow> int" where
  "landedChunks fileId b = int (length (filter (\<lambda>c. ck_telegramFileId c \<noteq> None) (chunksOf fileId b)))"

definition landedTruthy :: "string \<Rightarrow> backend \<Rightarrow> int" where
  "landedTruthy fileId b = int (length (filter (\<lambda>c. present (ck_telegramFileId c)) (chunksOf fileId b)))"

definition flippable :: "string \<Rightarrow> file_row \<Rightarrow> bool" where
  "flippable fileId r \<longleftrightarrow> fr_id r = fileId \<and> fr_status r \<in> {Uploading, Buffered}"

text \<open>The guarded \<^verbatim>\<open>updateMany\<close>: how many rows it changed.\<close>

definition flipComplete :: "string \<Rightarrow> nat bop" where
  "flipComplete fileId = bindOp (getsOp (\<lambda>b. countWhere (flippable fileId) (bk_files b))) (\<lambda>n.
     thenOp (modifyOp (setFiles (updateWhere (flippable fileId) (\<lambda>r. r\<lparr>fr_status := Complete\<rparr>)))) (returnOp n))"

definition parkBuffered :: "string \<Rightarrow> unit bop" where
  "parkBuffered fileId = modifyOp (setFiles (updateWhere (\<lambda>r. fr_id r = fileId \<and> fr_status r = Uploading)
     (\<lambda>r. r\<lparr>fr_status := Buffered\<rparr>)))"

definition readBack :: "string \<Rightarrow> unit bop" where
  "readBack fileId = bindOp (getsOp (findFile fileId)) (\<lambda>x. unlessOp (x \<noteq> None) PrismaP2025)"

lemma readBack_apply [op_simps]: "readBack fid b = (if findFile fid b = None then Inl PrismaP2025 else Inr (), b)"
  by (simp add: readBack_def op_unfold)

definition completeChunkedUpload :: "string \<Rightarrow> string \<Rightarrow> bool option \<Rightarrow> unit bop" where
  "completeChunkedUpload fileId userId confirm = bindOp (getsOp (liveFile fileId userId)) (\<lambda>row. case row of
     None \<Rightarrow> throwOp (NotFoundException ''File record not found'')
   | Some f \<Rightarrow> if fr_status f = Complete then returnOp () else
      (case confirm of
         None \<Rightarrow> throwOp (HttpException 503 ''Failed to synchronize with transfer service. Please try again.'')
       | Some allReceived \<Rightarrow>
          thenOp (unlessOp allReceived (HttpException 400 ''Upload incomplete''))
          (bindOp (getsOp (\<lambda>b. (liveFile fileId userId b, landedTruthy fileId b))) (\<lambda>(again, landed). case again of
             None \<Rightarrow> throwOp (NotFoundException ''File record not found'')
           | Some r \<Rightarrow> if fr_status r = Complete then returnOp () else
               thenOp (if landed \<ge> fr_totalChunks r then
                   bindOp (flipComplete fileId) (\<lambda>n. whenOp (n = 1) (chargeQuota userId (fr_size r)))
                 else parkBuffered fileId)
               (readBack fileId)))))"

definition getUploadedChunks :: "string \<Rightarrow> string \<Rightarrow> (int \<times> int list \<times> file_status) bop" where
  "getUploadedChunks fileId userId = bindOp (getsOp (\<lambda>b. (liveFile fileId userId b, chunksOf fileId b))) (\<lambda>(row, chunks). case row of
     None \<Rightarrow> throwOp (NotFoundException ''File record not found'')
   | Some f \<Rightarrow> returnOp (fr_totalChunks f, sort (map ck_chunkIndex chunks), fr_status f))"

subsection \<open>The reports of the transfer server\<close>

record chunk_result =
  cr_fileId :: string
  cr_chunkIndex :: int
  cr_telegramFileId :: string
  cr_telegramMessageId :: int
  cr_botId :: int
  cr_encryptionIv :: string
  cr_size :: int
  cr_etag :: string
  cr_chunkId :: string

definition resultRow :: "chunk_result \<Rightarrow> chunk_row \<Rightarrow> chunk_row" where
  "resultRow d c = c\<lparr>ck_telegramFileId := Some (cr_telegramFileId d), ck_telegramMessageId := Some (cr_telegramMessageId d),
     ck_botId := cr_botId d, ck_encryptionIv := Some (cr_encryptionIv d), ck_etag := Some (cr_etag d), ck_size := cr_size d,
     ck_status := Complete\<rparr>"

text \<open>The upsert of one chunk; \<open>False\<close> when it fails (the file is gone), which is logged.\<close>

definition upsertChunk :: "chunk_result \<Rightarrow> bool bop" where
  "upsertChunk d = bindOp (getsOp (\<lambda>b. (findChunk (cr_fileId d) (cr_chunkIndex d) b, findFile (cr_fileId d) b))) (\<lambda>(old, f).
     case old of
       Some _ \<Rightarrow> thenOp (modifyOp (setChunks (updateWhere (\<lambda>c. ck_fileId c = cr_fileId d \<and> ck_chunkIndex c = cr_chunkIndex d) (resultRow d))))
         (returnOp True)
     | None \<Rightarrow> if f = None then returnOp False
         else thenOp (modifyOp (setChunks (\<lambda>cs. cs @ [resultRow d (newChunkRow (cr_chunkId d) (cr_fileId d) (cr_chunkIndex d) (cr_size d))])))
           (returnOp True))"

definition addFileId :: "string \<Rightarrow> string list \<Rightarrow> string list" where
  "addFileId fid fids = (if fid \<in> set fids then fids else fids @ [fid])"

definition finalizeChunkedFileIfLanded :: "string \<Rightarrow> unit bop" where
  "finalizeChunkedFileIfLanded fileId = bestEffort (bindOp (getsOp (findFile fileId)) (\<lambda>record. case record of
     None \<Rightarrow> returnOp ()
   | Some r \<Rightarrow> if fr_status r = Complete \<or> fr_status r = Aborted then returnOp () else
      bindOp (getsOp (landedChunks fileId)) (\<lambda>landed.
      if landed < fr_totalChunks r then returnOp () else
      bindOp (flipComplete fileId) (\<lambda>n. whenOp (n = 1) (chargeQuota (fr_userId r) (fr_size r))))))"

definition acceptResult :: "chunk_result \<Rightarrow> nat \<times> string list \<Rightarrow> (nat \<times> string list) bop" where
  "acceptResult d s = bindOp (upsertChunk d) (\<lambda>ok.
     returnOp (if ok then (fst s + 1, addFileId (cr_fileId d) (snd s)) else s))"

definition reportChunkResults :: "chunk_result list \<Rightarrow> nat bop" where
  "reportChunkResults results =
     bindOp (foldOp acceptResult results (0, []))
       (\<lambda>(accepted, touched). thenOp (forEachOp finalizeChunkedFileIfLanded touched) (returnOp accepted))"

text \<open>A chunk the transfer server has only buffered; an existing row is left as it is.\<close>

definition bufferChunk :: "chunk_row \<Rightarrow> bool bop" where
  "bufferChunk c = bindOp (getsOp (\<lambda>b. (findChunk (ck_fileId c) (ck_chunkIndex c) b, findFile (ck_fileId c) b))) (\<lambda>(old, f).
     case old of Some _ \<Rightarrow> returnOp True
     | None \<Rightarrow> if f = None then returnOp False
         else thenOp (modifyOp (setChunks (\<lambda>cs. cs @ [c\<lparr>ck_telegramFileId := None, ck_status := Buffered\<rparr>]))) (returnOp True))"

definition reportChunkBuffered :: "chunk_row list \<Rightarrow> nat bop" where
  "reportChunkBuffered chunks = foldOp (\<lambda>c accepted. bindOp (bufferChunk c) (\<lambda>ok. returnOp (if ok then accepted + 1 else accepted))) chunks 0"

record file_result =
  fz_fileId :: string
  fz_telegramFileId :: string
  fz_telegramMessageId :: int
  fz_botId :: int
  fz_encryptionIv :: string
  fz_size :: int
  fz_etag :: string
  fz_isChunked :: bool
  fz_totalChunks :: int

definition landedFile :: "file_result \<Rightarrow> file_row \<Rightarrow> file_row" where
  "landedFile d r = r\<lparr>fr_status := Complete, fr_telegramFileId := Some (fz_telegramFileId d),
     fr_telegramMessageId := Some (fz_telegramMessageId d), fr_botId := fz_botId d, fr_isEncrypted := True,
     fr_encryptionAlgo := Some AES_CTR, fr_encryptionIv := Some (fz_encryptionIv d),
     fr_etag := (if fz_etag d \<noteq> [] then Some (fz_etag d) else fr_etag r), fr_tempStorageKey := None\<rparr>"

definition reportFileComplete :: "file_result \<Rightarrow> unit bop" where
  "reportFileComplete d = bindOp (getsOp (findFile (fz_fileId d))) (\<lambda>record. case record of
     None \<Rightarrow> returnOp ()
   | Some r \<Rightarrow> if fr_status r = Complete then returnOp () else
      transactionOp (thenOp (updateFile (fz_fileId d) (landedFile d)) (chargeQuota (fr_userId r) (fz_size d))))"

definition reportUploadFailed :: "string \<Rightarrow> unit bop" where
  "reportUploadFailed fileId = updateFile fileId (\<lambda>r. r\<lparr>fr_status := Buffer_failed\<rparr>)"

definition staleVersions :: "file_row \<Rightarrow> backend \<Rightarrow> file_row list" where
  "staleVersions r b = filter (\<lambda>f. fr_userId f = fr_userId r \<and> fr_folderId f = fr_folderId r \<and> fr_filename f = fr_filename r \<and>
     fr_id f \<noteq> fr_id r \<and> fr_deletedAt f = None) (bk_files b)"

text \<open>Prior versions of a key go to the trash; what they were charged is returned.\<close>

definition trashVersions :: "file_row list \<Rightarrow> int \<Rightarrow> int bop" where
  "trashVersions stale now =
     thenOp (whenOp (stale \<noteq> []) (writeFiles (updateWhere (\<lambda>f. fr_id f \<in> fr_id ` set stale) (\<lambda>f. f\<lparr>fr_deletedAt := Some now\<rparr>))))
     (returnOp (sum_list (map completeSize stale)))"

definition releaseClamped :: "string \<Rightarrow> int \<Rightarrow> unit bop" where
  "releaseClamped userId reclaimed = whenOp (reclaimed > 0)
     (modifyOp (setUsers (updateWhere (\<lambda>u. usr_id u = userId) (\<lambda>u. u\<lparr>usr_usedSpace := max 0 (usr_usedSpace u - reclaimed)\<rparr>))))"

definition reportS3PutComplete :: "file_result \<Rightarrow> int \<Rightarrow> unit bop" where
  "reportS3PutComplete d now = bindOp (getsOp (findFile (fz_fileId d))) (\<lambda>record. case record of
     None \<Rightarrow> returnOp ()
   | Some r \<Rightarrow> if fr_status r = Complete then returnOp () else
      transactionOp (thenOp (updateFile (fz_fileId d) (\<lambda>r. (landedFile d r)\<lparr>fr_size := fz_size d, fr_isChunked := fz_isChunked d,
           fr_totalChunks := fz_totalChunks d\<rparr>))
        (bindOp (getsOp (staleVersions r)) (\<lambda>stale.
         bindOp (if fr_filename r \<noteq> [] then trashVersions stale now else returnOp 0) (\<lambda>reclaimed.
         thenOp (chargeQuota (fr_userId r) (fz_size d)) (releaseClamped (fr_userId r) reclaimed))))))"

definition markTelegram :: "string \<Rightarrow> (file_row \<Rightarrow> file_row) \<Rightarrow> unit bop" where
  "markTelegram fileId f = modifyOp (setFiles (updateWhere (\<lambda>r. fr_id r = fileId) f))"

definition reportDeleteSuccess :: "string \<Rightarrow> unit bop" where
  "reportDeleteSuccess fileId = markTelegram fileId (\<lambda>r. r\<lparr>fr_telegramDeleted := True, fr_telegramDeleteFailed := False\<rparr>)"

definition reportDeleteFailed :: "string \<Rightarrow> unit bop" where
  "reportDeleteFailed fileId = markTelegram fileId (\<lambda>r. r\<lparr>fr_telegramDeleteFailed := True\<rparr>)"

subsection \<open>Calls that run at the same time\<close>

text \<open>
  A request handler is interrupted at every database access. An \<open>upload_call\<close> is a handler with what it has read
  so far; \<open>callStep\<close> runs it up to and including its next access (\<open>answer\<close> is what the transfer server says to
  the call that asks it). \<open>Charge\<close> ends in the read-back of \<open>completeChunkedUpload\<close> or goes on with the files that
  \<open>reportChunkResults\<close> has left.
\<close>

datatype upload_call =
    CompleteStart string string
  | CompleteAsked string string
  | CompleteConfirmed string string
  | CompleteFlip string string int
  | CompletePark string
  | CompleteRead string
  | ReportChunks "chunk_result list" "string list"
  | Finalize "string list"
  | FinalizeCount string string int int "string list"
  | FinalizeFlip string string int "string list"
  | Charge string int "string + string list"
  | AbortStart string string
  | AbortMark string
  | AbortRemove string
  | Finished "backend_error option"

definition finishWith :: "backend_error + 'a \<Rightarrow> upload_call" where
  "finishWith r = Finished (case r of Inl e \<Rightarrow> Some e | Inr _ \<Rightarrow> None)"

fun callStep :: "bool option \<Rightarrow> upload_call \<Rightarrow> backend \<Rightarrow> upload_call \<times> backend" where
  "callStep answer (CompleteStart fid uid) b = (case liveFile fid uid b of
     None \<Rightarrow> (Finished (Some (NotFoundException ''File record not found'')), b)
   | Some f \<Rightarrow> (if fr_status f = Complete then Finished None else CompleteAsked fid uid, b))"
| "callStep answer (CompleteAsked fid uid) b = (case answer of
     None \<Rightarrow> Finished (Some (HttpException 503 ''Failed to synchronize with transfer service. Please try again.''))
   | Some allReceived \<Rightarrow> if allReceived then CompleteConfirmed fid uid else Finished (Some (HttpException 400 ''Upload incomplete'')), b)"
| "callStep answer (CompleteConfirmed fid uid) b = (case liveFile fid uid b of
     None \<Rightarrow> (Finished (Some (NotFoundException ''File record not found'')), b)
   | Some r \<Rightarrow> (if fr_status r = Complete then Finished None
       else if landedTruthy fid b \<ge> fr_totalChunks r then CompleteFlip fid uid (fr_size r) else CompletePark fid, b))"
| "callStep answer (CompleteFlip fid uid n) b = (case flipComplete fid b of
     (r, b') \<Rightarrow> (if r = Inr 1 then Charge uid n (Inl fid) else CompleteRead fid, b'))"
| "callStep answer (CompletePark fid) b = (CompleteRead fid, snd (parkBuffered fid b))"
| "callStep answer (CompleteRead fid) b = (case readBack fid b of (r, b') \<Rightarrow> (finishWith r, b'))"
| "callStep answer (ReportChunks [] touched) b = (Finalize touched, b)"
| "callStep answer (ReportChunks (d # ds) touched) b = (case upsertChunk d b of
     (r, b') \<Rightarrow> (ReportChunks ds (if r = Inr True then addFileId (cr_fileId d) touched else touched), b'))"
| "callStep answer (Finalize []) b = (Finished None, b)"
| "callStep answer (Finalize (fid # rest)) b = (case findFile fid b of
     None \<Rightarrow> (Finalize rest, b)
   | Some r \<Rightarrow> (if fr_status r = Complete \<or> fr_status r = Aborted then Finalize rest
       else FinalizeCount fid (fr_userId r) (fr_size r) (fr_totalChunks r) rest, b))"
| "callStep answer (FinalizeCount fid uid n tot rest) b =
     (if landedChunks fid b < tot then Finalize rest else FinalizeFlip fid uid n rest, b)"
| "callStep answer (FinalizeFlip fid uid n rest) b = (case flipComplete fid b of
     (r, b') \<Rightarrow> (if r = Inr 1 then Charge uid n (Inr rest) else Finalize rest, b'))"
| "callStep answer (Charge uid n next) b = (case chargeQuota uid n b of
     (r, b') \<Rightarrow> (case next of Inl fid \<Rightarrow> (case r of Inl e \<Rightarrow> Finished (Some e) | Inr _ \<Rightarrow> CompleteRead fid) | Inr rest \<Rightarrow> Finalize rest, b'))"
| "callStep answer (AbortStart fid uid) b = (case liveFile fid uid b of
     None \<Rightarrow> (Finished (Some (NotFoundException ''File record not found'')), b)
   | Some f \<Rightarrow> (if fr_status f = Complete
       then Finished (Some (BadRequestException ''Cannot abort a completed upload. Use DELETE instead.'')) else AbortMark fid, b))"
| "callStep answer (AbortMark fid) b = (case updateFile fid (\<lambda>r. r\<lparr>fr_status := Aborted\<rparr>) b of
     (r, b') \<Rightarrow> (case r of Inl e \<Rightarrow> Finished (Some e) | Inr _ \<Rightarrow> AbortRemove fid, b'))"
| "callStep answer (AbortRemove fid) b = (case removeFile fid b of (r, b') \<Rightarrow> (finishWith r, b'))"
| "callStep answer (Finished r) b = (Finished r, b)"

fun isArrival :: "upload_call \<Rightarrow> bool" where
  "isArrival (CompleteStart fid uid) = True"
| "isArrival (ReportChunks ds touched) = (touched = [])"
| "isArrival (AbortStart fid uid) = True"
| "isArrival c = False"

text \<open>Requests arrive at any time, and any call in flight may take its next step.\<close>

inductive uploadStep :: "(upload_call \<Rightarrow> bool) \<Rightarrow> upload_call list \<times> backend \<Rightarrow> upload_call list \<times> backend \<Rightarrow> bool"
  for allowed where
  arrive: "isArrival c \<Longrightarrow> allowed c \<Longrightarrow> uploadStep allowed (cs, b) (cs @ [c], b)"
| advance: "i < length cs \<Longrightarrow> callStep answer (cs ! i) b = (c', b') \<Longrightarrow> uploadStep allowed (cs, b) (cs[i := c'], b')"

text \<open>The same as a schedule that can be run.\<close>

datatype upload_event = Arrives upload_call | Advances nat "bool option"

fun applyEvent :: "upload_event \<Rightarrow> upload_call list \<times> backend \<Rightarrow> upload_call list \<times> backend" where
  "applyEvent (Arrives c) (cs, b) = (cs @ [c], b)"
| "applyEvent (Advances i answer) (cs, b) = (case callStep answer (cs ! i) b of (c', b') \<Rightarrow> (cs[i := c'], b'))"

fun eventOk :: "(upload_call \<Rightarrow> bool) \<Rightarrow> upload_event \<Rightarrow> upload_call list \<Rightarrow> bool" where
  "eventOk allowed (Arrives c) cs = (isArrival c \<and> allowed c)"
| "eventOk allowed (Advances i answer) cs = (i < length cs)"

fun applySchedule :: "upload_event list \<Rightarrow> upload_call list \<times> backend \<Rightarrow> upload_call list \<times> backend" where
  "applySchedule [] s = s"
| "applySchedule (e # es) s = applySchedule es (applyEvent e s)"

fun scheduleOk :: "(upload_call \<Rightarrow> bool) \<Rightarrow> upload_event list \<Rightarrow> upload_call list \<times> backend \<Rightarrow> bool" where
  "scheduleOk allowed [] s = True"
| "scheduleOk allowed (e # es) s = (eventOk allowed e (fst s) \<and> scheduleOk allowed es (applyEvent e s))"

lemma schedule_reachable: "scheduleOk allowed es s \<Longrightarrow> (uploadStep allowed)\<^sup>*\<^sup>* s (applySchedule es s)"
proof (induction es arbitrary: s)
  case (Cons e es)
  obtain cs b where s: "s = (cs, b)" by (cases s)
  have "uploadStep allowed s (applyEvent e s)"
    using Cons.prems unfolding s by (cases e) (auto intro: uploadStep.intros split: prod.split)
  moreover have "(uploadStep allowed)\<^sup>*\<^sup>* (applyEvent e s) (applySchedule es (applyEvent e s))"
    using Cons by simp
  ultimately show ?case by (simp add: converse_rtranclp_into_rtranclp)
qed simp

subsection \<open>Each file is charged once\<close>

fun pendingCharge :: "string \<Rightarrow> upload_call \<Rightarrow> int" where
  "pendingCharge uid (Charge u n k) = (if u = uid then n else 0)"
| "pendingCharge uid c = 0"

definition pendingCharges :: "string \<Rightarrow> upload_call list \<Rightarrow> int" where
  "pendingCharges uid cs = sum_list (map (pendingCharge uid) cs)"

text \<open>What a call has read about a file stays true: no upload changes an owner or a size.\<close>

fun readRight :: "backend \<Rightarrow> upload_call \<Rightarrow> bool" where
  "readRight b (CompleteFlip fid uid n) = (\<forall>r \<in> set (bk_files b). fr_id r = fid \<longrightarrow> fr_userId r = uid \<and> fr_size r = n)"
| "readRight b (FinalizeCount fid uid n t rest) = (\<forall>r \<in> set (bk_files b). fr_id r = fid \<longrightarrow> fr_userId r = uid \<and> fr_size r = n)"
| "readRight b (FinalizeFlip fid uid n rest) = (\<forall>r \<in> set (bk_files b). fr_id r = fid \<longrightarrow> fr_userId r = uid \<and> fr_size r = n)"
| "readRight b c = True"

declare readRight.simps(1-3) [simp del]

fun neverAborts :: "upload_call \<Rightarrow> bool" where
  "neverAborts (AbortStart fid uid) = False"
| "neverAborts (AbortMark fid) = False"
| "neverAborts (AbortRemove fid) = False"
| "neverAborts c = True"

definition uploadsBalanced :: "upload_call list \<times> backend \<Rightarrow> bool" where
  "uploadsBalanced s \<longleftrightarrow> (case s of (cs, b) \<Rightarrow>
     distinct (map usr_id (bk_users b)) \<and> distinct (map fr_id (bk_files b)) \<and> (\<forall>f \<in> set (bk_files b). 0 \<le> fr_size f) \<and>
     (\<forall>u \<in> set (bk_users b). usr_usedSpace u + pendingCharges (usr_id u) cs = charged (usr_id u) (bk_files b)) \<and>
     (\<forall>c \<in> set cs. readRight b c \<and> neverAborts c))"

text \<open>The files seen as their ids, owners and sizes.\<close>

definition fileFacts :: "backend \<Rightarrow> (string \<times> string \<times> int) list" where
  "fileFacts b = map (\<lambda>r. (fr_id r, fr_userId r, fr_size r)) (bk_files b)"

lemma fileFacts_status: "fileFacts (setFiles (updateWhere P (\<lambda>r. r\<lparr>fr_status := s\<rparr>)) b) = fileFacts b"
  by (auto simp: fileFacts_def updateWhere_def)

lemma readRight_facts: "fileFacts b' = fileFacts b \<Longrightarrow> readRight b' c = readRight b c"
proof -
  assume facts: "fileFacts b' = fileFacts b"
  have "(\<forall>r \<in> set (bk_files b'). fr_id r = fid \<longrightarrow> fr_userId r = uid \<and> fr_size r = n) =
      (\<forall>r \<in> set (bk_files b). fr_id r = fid \<longrightarrow> fr_userId r = uid \<and> fr_size r = n)" for fid uid n
  proof -
    have "(\<forall>x \<in> set (fileFacts b'). fst x = fid \<longrightarrow> fst (snd x) = uid \<and> snd (snd x) = n) =
        (\<forall>x \<in> set (fileFacts b). fst x = fid \<longrightarrow> fst (snd x) = uid \<and> snd (snd x) = n)" by (simp only: facts)
    then show ?thesis by (simp add: fileFacts_def)
  qed
  then show ?thesis by (cases c) (simp_all add: readRight.simps)
qed

lemma facts_invariants:
  assumes "fileFacts b' = fileFacts b"
  shows "map fr_id (bk_files b') = map fr_id (bk_files b)"
    and "(\<forall>f \<in> set (bk_files b'). 0 \<le> fr_size f) = (\<forall>f \<in> set (bk_files b). 0 \<le> fr_size f)"
proof -
  have "map fst (fileFacts b') = map fst (fileFacts b)" by (simp only: assms)
  then show "map fr_id (bk_files b') = map fr_id (bk_files b)" by (simp add: fileFacts_def comp_def)
  have "(\<forall>x \<in> set (fileFacts b'). 0 \<le> snd (snd x)) = (\<forall>x \<in> set (fileFacts b). 0 \<le> snd (snd x))" by (simp only: assms)
  then show "(\<forall>f \<in> set (bk_files b'). 0 \<le> fr_size f) = (\<forall>f \<in> set (bk_files b). 0 \<le> fr_size f)" by (simp add: fileFacts_def)
qed

lemma charged_park: "charged uid (updateWhere (\<lambda>r. fr_id r = fid \<and> fr_status r = Uploading) (\<lambda>r. r\<lparr>fr_status := Buffered\<rparr>) fs) = charged uid fs"
  by (induction fs) (auto simp: completeSize_def)

lemma charged_flip:
  "distinct (map fr_id fs) \<Longrightarrow> (\<And>r. r \<in> set fs \<Longrightarrow> fr_id r = fid \<Longrightarrow> fr_userId r = uid \<and> fr_size r = n) \<Longrightarrow>
   charged v (updateWhere (flippable fid) (\<lambda>r. r\<lparr>fr_status := Complete\<rparr>) fs) =
     charged v fs + (if v = uid \<and> countWhere (flippable fid) fs = 1 then n else 0) \<and> countWhere (flippable fid) fs \<le> 1 \<and>
   (countWhere (flippable fid) fs = 0 \<or> countWhere (flippable fid) fs = 1)"
proof (induction fs)
  case (Cons f fs)
  show ?case
  proof (cases "flippable fid f")
    case True
    with Cons.prems(1) have none: "\<forall>r \<in> set fs. \<not> flippable fid r" by (auto simp: flippable_def image_iff)
    then have "updateWhere (flippable fid) (\<lambda>r. r\<lparr>fr_status := Complete\<rparr>) fs = fs" "countWhere (flippable fid) fs = 0"
      by (auto intro: updateWhere_none simp: countWhere_def filter_empty_conv)
    moreover have "fr_id f = fid" "fr_status f \<noteq> Complete" using True by (auto simp: flippable_def)
    ultimately show ?thesis using True Cons.prems(2) [of f] by (simp add: countWhere_def completeSize_def)
  next
    case False
    with Cons show ?thesis by (simp add: countWhere_def)
  qed
qed (simp add: countWhere_def)

definition stepSound :: "upload_call \<Rightarrow> backend \<Rightarrow> upload_call \<Rightarrow> backend \<Rightarrow> bool" where
  "stepSound c b c' b' \<longleftrightarrow> neverAborts c' \<and> fileFacts b' = fileFacts b \<and> readRight b' c' \<and> map usr_id (bk_users b') = map usr_id (bk_users b) \<and>
     (\<forall>u' \<in> set (bk_users b'). \<exists>u \<in> set (bk_users b). usr_id u = usr_id u' \<and>
        usr_usedSpace u' + pendingCharge (usr_id u') c' - charged (usr_id u') (bk_files b') =
        usr_usedSpace u + pendingCharge (usr_id u) c - charged (usr_id u) (bk_files b))"

lemma stepSound_quiet:
  "neverAborts c' \<Longrightarrow> readRight b c' \<Longrightarrow> (\<And>v. pendingCharge v c' = 0) \<Longrightarrow> (\<And>v. pendingCharge v c = 0) \<Longrightarrow>
   bk_users b' = bk_users b \<Longrightarrow> bk_files b' = bk_files b \<Longrightarrow> stepSound c b c' b'"
  by (auto simp: stepSound_def fileFacts_def readRight_facts [of b' b])

lemma stepSound_flip:
  assumes "distinct (map fr_id (bk_files b))" and "\<forall>r \<in> set (bk_files b). fr_id r = fid \<longrightarrow> fr_userId r = uid \<and> fr_size r = n"
    and "\<And>v. pendingCharge v c = 0" and "\<And>v. pendingCharge v k = 0" and "neverAborts k" and "\<And>b. readRight b k"
    and "flipComplete fid b = (r, b')"
  shows "stepSound c b (if r = Inr 1 then Charge uid n next' else k) b'"
proof -
  have b': "b' = setFiles (updateWhere (flippable fid) (\<lambda>r. r\<lparr>fr_status := Complete\<rparr>)) b"
    and r: "r = Inr (countWhere (flippable fid) (bk_files b))"
    using assms(7) by (auto simp: flipComplete_def op_simps)
  have "charged v (bk_files b') = charged v (bk_files b) + (if v = uid \<and> countWhere (flippable fid) (bk_files b) = 1 then n else 0)" for v
    using charged_flip [OF assms(1), of fid uid n v] assms(2) by (simp add: b')
  then show ?thesis
    using assms(3-6) by (auto simp: stepSound_def r b' fileFacts_status)
qed

lemma stepSound_charge:
  assumes "chargeQuota uid n b = (r, b')" and "\<And>v. pendingCharge v k = 0" and "neverAborts k" and "\<And>b. readRight b k"
  shows "stepSound (Charge uid n next') b k b'"
proof (cases "findUser uid b")
  case None
  then have "b' = b" using assms(1) by (auto simp: chargeQuota_def op_simps)
  moreover have "\<forall>u \<in> set (bk_users b). usr_id u \<noteq> uid" using None by (auto simp: findUser_def find_None_iff)
  ultimately show ?thesis using assms(2-4) by (auto simp: stepSound_def)
next
  case (Some u)
  then have "b' = setUsers (updateWhere (\<lambda>u. usr_id u = uid) (\<lambda>u. u\<lparr>usr_usedSpace := usr_usedSpace u + n\<rparr>)) b"
    using assms(1) by (auto simp: chargeQuota_def op_simps)
  then have users: "bk_users b' = updateWhere (\<lambda>u. usr_id u = uid) (\<lambda>u. u\<lparr>usr_usedSpace := usr_usedSpace u + n\<rparr>) (bk_users b)"
    and files: "bk_files b' = bk_files b" by simp_all
  have "\<exists>u \<in> set (bk_users b). usr_id u = usr_id u' \<and>
        usr_usedSpace u' + pendingCharge (usr_id u') k - charged (usr_id u') (bk_files b') =
        usr_usedSpace u + pendingCharge (usr_id u) (Charge uid n next') - charged (usr_id u) (bk_files b)"
    if "u' \<in> set (bk_users b')" for u'
  proof -
    from that obtain u where "u \<in> set (bk_users b)"
      and "u' = (if usr_id u = uid then u\<lparr>usr_usedSpace := usr_usedSpace u + n\<rparr> else u)"
      unfolding users set_updateWhere by blast
    with files assms(2) show ?thesis by (intro bexI [of _ u]) auto
  qed
  then show ?thesis
    using assms(3,4) users files by (simp add: stepSound_def fileFacts_def map_updateWhere_key)
qed

lemma stepSound_park:
  "neverAborts k \<Longrightarrow> (\<And>v. pendingCharge v k = 0) \<Longrightarrow> (\<And>b. readRight b k) \<Longrightarrow> stepSound (CompletePark fid) b k (snd (parkBuffered fid b))"
  by (auto simp: stepSound_def parkBuffered_def op_simps fileFacts_status charged_park)

lemma upsertChunk_files: "upsertChunk d b = (r, b') \<Longrightarrow> bk_users b' = bk_users b \<and> bk_files b' = bk_files b"
  by (auto simp: upsertChunk_def op_simps split: option.splits if_splits)

lemma unique_facts:
  assumes "distinct (map fr_id (bk_files b))" and "r \<in> set (bk_files b)" and "fr_id r = fid"
  shows "\<forall>x \<in> set (bk_files b). fr_id x = fid \<longrightarrow> fr_userId x = fr_userId r \<and> fr_size x = fr_size r"
  using assms by (auto simp: distinct_map inj_on_def)

lemma callStep_sound:
  assumes "distinct (map fr_id (bk_files b))" and "readRight b c" and "neverAborts c" and "callStep answer c b = (c', b')"
  shows "stepSound c b c' b'"
  using assms(2-4)
proof (cases "(answer, c, b)" rule: callStep.cases)
  case (1 _ fid uid _)
  with assms show ?thesis by (auto split: option.splits if_splits intro!: stepSound_quiet)
next
  case (2 _ fid uid _)
  with assms show ?thesis by (auto split: option.splits if_splits intro!: stepSound_quiet)
next
  case (3 _ fid uid _)
  show ?thesis
  proof (cases "liveFile fid uid b")
    case None
    with 3 assms(4) show ?thesis by (auto intro!: stepSound_quiet)
  next
    case (Some r)
    then have "readRight b (CompleteFlip fid uid (fr_size r))"
      unfolding readRight.simps using unique_facts [OF assms(1)] liveFile_SomeD [OF Some] by blast
    with 3 assms(4) Some show ?thesis
      by (cases "fr_status r = Complete"; cases "landedTruthy fid b \<ge> fr_totalChunks r") (auto intro!: stepSound_quiet)
  qed
next
  case (4 _ fid uid n _)
  then have "\<forall>r \<in> set (bk_files b). fr_id r = fid \<longrightarrow> fr_userId r = uid \<and> fr_size r = n" using assms(2) by (simp add: readRight.simps)
  moreover obtain r b'' where "flipComplete fid b = (r, b'')" by (cases "flipComplete fid b")
  ultimately have "stepSound c b (if r = Inr 1 then Charge uid n (Inl fid) else CompleteRead fid) b''"
    using 4 by (intro stepSound_flip [OF assms(1)]) simp_all
  with 4 assms(4) \<open>flipComplete fid b = (r, b'')\<close> show ?thesis by (simp split: if_splits)
next
  case (5 _ fid _)
  with assms show ?thesis by (auto intro!: stepSound_park)
next
  case (6 _ fid _)
  with assms show ?thesis
    by (auto simp: readBack_apply finishWith_def intro!: stepSound_quiet)
next
  case (8 _ d ds touched _)
  moreover obtain r b'' where up: "upsertChunk d b = (r, b'')" by (cases "upsertChunk d b")
  ultimately have "c' = ReportChunks ds (if r = Inr True then addFileId (cr_fileId d) touched else touched)" "b' = b''"
    using assms(4) by simp_all
  with 8 upsertChunk_files [OF up] show ?thesis by (auto intro!: stepSound_quiet)
next
  case (10 _ fid rest _)
  show ?thesis
  proof (cases "findFile fid b")
    case None
    with 10 assms(4) show ?thesis by (auto intro!: stepSound_quiet)
  next
    case (Some r)
    then have "readRight b (FinalizeCount fid (fr_userId r) (fr_size r) t rest)" for t
      unfolding readRight.simps using unique_facts [OF assms(1)] find_SomeD [OF Some [unfolded findFile_def]] by blast
    with 10 assms(4) Some show ?thesis
      by (cases "fr_status r = Complete \<or> fr_status r = Aborted") (auto intro!: stepSound_quiet)
  qed
next
  case (11 _ fid uid n t rest _)
  with assms show ?thesis by (auto simp: readRight.simps(2,3) split: if_splits intro!: stepSound_quiet)
next
  case (12 _ fid uid n rest _)
  then have "\<forall>r \<in> set (bk_files b). fr_id r = fid \<longrightarrow> fr_userId r = uid \<and> fr_size r = n" using assms(2) by (simp add: readRight.simps)
  moreover obtain r b'' where "flipComplete fid b = (r, b'')" by (cases "flipComplete fid b")
  ultimately have "stepSound c b (if r = Inr 1 then Charge uid n (Inr rest) else Finalize rest) b''"
    using 12 by (intro stepSound_flip [OF assms(1)]) simp_all
  with 12 assms(4) \<open>flipComplete fid b = (r, b'')\<close> show ?thesis by (simp split: if_splits)
next
  case (13 _ uid n next' _)
  with assms show ?thesis
    by (cases next') (auto split: prod.splits sum.splits intro!: stepSound_charge)
qed (auto intro!: stepSound_quiet)

lemma pendingCharges_update:
  "i < length cs \<Longrightarrow> pendingCharges uid (cs[i := c]) = pendingCharges uid cs - pendingCharge uid (cs ! i) + pendingCharge uid c"
proof (induction cs arbitrary: i)
  case (Cons x cs)
  then show ?case by (cases i) (auto simp: pendingCharges_def)
qed simp

lemma balanced_step:
  assumes "uploadStep (\<lambda>c. neverAborts c) s s'" and "uploadsBalanced s"
  shows "uploadsBalanced s'"
proof -
  obtain cs b where s: "s = (cs, b)" by (cases s)
  note bal = assms(2) [unfolded s uploadsBalanced_def prod.case]
  from assms(1) show ?thesis
  proof (cases rule: uploadStep.cases)
    case (arrive c cs' b')
    then have eqs: "cs' = cs" "b' = b" using s by simp_all
    from arrive have "\<And>v. pendingCharge v c = 0" "readRight b c" by (cases c; simp)+
    with arrive bal show ?thesis by (simp add: eqs uploadsBalanced_def pendingCharges_def)
  next
    case (advance i cs' answer b'' c' b')
    have eqs: "cs' = cs" "b'' = b" using advance(1) s by simp_all
    note advance = advance(2) advance(3,4) [unfolded eqs]
    then have mem: "cs ! i \<in> set cs" by simp
    with bal advance have sound: "stepSound (cs ! i) b c' b'" by (intro callStep_sound) auto
    then have facts: "fileFacts b' = fileFacts b" by (simp add: stepSound_def)
    have "usr_usedSpace u' + pendingCharges (usr_id u') (cs[i := c']) = charged (usr_id u') (bk_files b')" if u': "u' \<in> set (bk_users b')" for u'
    proof -
      from sound u' obtain u where u: "u \<in> set (bk_users b)" "usr_id u = usr_id u'"
        "usr_usedSpace u' + pendingCharge (usr_id u') c' - charged (usr_id u') (bk_files b') =
         usr_usedSpace u + pendingCharge (usr_id u) (cs ! i) - charged (usr_id u) (bk_files b)"
        unfolding stepSound_def by blast
      moreover have "usr_usedSpace u + pendingCharges (usr_id u) cs = charged (usr_id u) (bk_files b)" using bal u(1) by blast
      ultimately show ?thesis using advance(2) by (simp add: pendingCharges_update)
    qed
    moreover have "\<forall>c \<in> set (cs[i := c']). readRight b' c \<and> neverAborts c"
      using sound bal set_update_subset_insert [of cs i c'] readRight_facts [OF facts] unfolding stepSound_def by blast
    ultimately show ?thesis
      using bal sound facts_invariants [OF facts] advance(1) by (simp add: uploadsBalanced_def stepSound_def eqs)
  qed
qed

lemma balanced_run: "(uploadStep (\<lambda>c. neverAborts c))\<^sup>*\<^sup>* s s' \<Longrightarrow> uploadsBalanced s \<Longrightarrow> uploadsBalanced s'"
  by (induction rule: rtranclp_induct) (auto intro: balanced_step)

definition allFinished :: "upload_call list \<Rightarrow> bool" where
  "allFinished cs \<longleftrightarrow> (\<forall>c \<in> set cs. \<exists>r. c = Finished r)"

lemma finished_pending: "allFinished cs \<Longrightarrow> pendingCharges uid cs = 0"
  by (induction cs) (auto simp: allFinished_def pendingCharges_def)

text \<open>
  C9. Storage is charged exactly once however the requests of chunked uploads interleave: from a state in which every
  user is charged for the complete files, completion requests and chunk reports, arriving at any time and interrupted
  at every database access, keep each user's counter equal to the sizes of the complete files but for the charges
  that calls in flight still have to make; when all calls have ended the accounts balance again.
\<close>
theorem uploads_charged_once:
  assumes "accounted b0" and "(uploadStep (\<lambda>c. neverAborts c))\<^sup>*\<^sup>* ([], b0) (cs, b)"
  shows "(\<forall>u \<in> set (bk_users b). usr_usedSpace u + pendingCharges (usr_id u) cs = charged (usr_id u) (bk_files b)) \<and>
    (allFinished cs \<longrightarrow> accounted b)"
proof -
  have "uploadsBalanced ([], b0)" using assms(1) by (simp add: uploadsBalanced_def accounted_def pendingCharges_def)
  from balanced_run [OF assms(2) this] have bal: "uploadsBalanced (cs, b)" .
  then show ?thesis
    by (auto simp: uploadsBalanced_def accounted_def finished_pending)
qed

definition uploadDemo :: backend where
  "uploadDemo = emptyBackend\<lparr>bk_users := [(newUserRow ''u1'' ''ann'' [] 0)\<lparr>usr_quota := 10\<rparr>],
     bk_files := [(newFileRow ''f1'' ''a'' 7 None ''u1'' 0)\<lparr>fr_status := Uploading, fr_isChunked := True\<rparr>]\<rparr>"

definition demoChunk :: chunk_result where
  "demoChunk = \<lparr>cr_fileId = ''f1'', cr_chunkIndex = 0, cr_telegramFileId = ''t'', cr_telegramMessageId = 1, cr_botId = 0,
     cr_encryptionIv = ''i'', cr_size = 7, cr_etag = ''e'', cr_chunkId = ''c1''\<rparr>"

lemma uploadDemo_accounted: "accounted uploadDemo"
  by (simp add: accounted_def uploadDemo_def newUserRow_def newFileRow_def completeSize_def emptyBackend_def)

text \<open>The last report and the completion request race for the same file.\<close>

definition racingSchedule :: "upload_event list" where
  "racingSchedule = [Arrives (ReportChunks [demoChunk] []), Arrives (CompleteStart ''f1'' ''u1''), Advances 1 None, Advances 0 None,
     Advances 1 (Some True), Advances 1 None, Advances 0 None, Advances 0 None, Advances 0 None, Advances 1 None, Advances 0 None,
     Advances 1 None, Advances 0 None, Advances 1 None]"

theorem uploads_charged_once_witness:
  "\<exists>cs b. (uploadStep (\<lambda>c. neverAborts c))\<^sup>*\<^sup>* ([], uploadDemo) (cs, b) \<and> accounted b \<and> map usr_usedSpace (bk_users b) = [7]"
proof -
  let ?s = "applySchedule racingSchedule ([], uploadDemo)"
  have run: "(uploadStep (\<lambda>c. neverAborts c))\<^sup>*\<^sup>* ([], uploadDemo) ?s" by (rule schedule_reachable) code_simp
  have "fst ?s = [Finished None, Finished None]" by code_simp
  then have "allFinished (fst ?s)" by (simp add: allFinished_def)
  moreover have "map usr_usedSpace (bk_users (snd ?s)) = [7]" by code_simp
  ultimately show ?thesis
    using uploads_charged_once [OF uploadDemo_accounted, of "fst ?s" "snd ?s"] run
    by (intro exI [of _ "fst ?s"] exI [of _ "snd ?s"]) simp
qed

definition abortSchedule :: "upload_event list" where
  "abortSchedule = [Arrives (AbortStart ''f1'' ''u1''), Arrives (ReportChunks [demoChunk] []), Advances 0 None] @ replicate 7 (Advances 1 None) @
    [Advances 0 None, Advances 0 None]"

text \<open>
  Aborting races with completing: an abort request that has read the file as unfinished, while the last chunk
  report completes and charges it, goes on to delete the file; the user stays charged for a file that is gone.
\<close>
theorem abort_race_leaks_quota:
  "accounted uploadDemo \<and> (\<exists>cs b. (uploadStep (\<lambda>_. True))\<^sup>*\<^sup>* ([], uploadDemo) (cs, b) \<and> cs = [Finished None, Finished None] \<and>
     map fr_id (bk_files b) = [] \<and> map usr_usedSpace (bk_users b) = [7])"
proof -
  let ?s = "applySchedule abortSchedule ([], uploadDemo)"
  have run: "(uploadStep (\<lambda>_. True))\<^sup>*\<^sup>* ([], uploadDemo) (fst ?s, snd ?s)"
    unfolding prod.collapse by (rule schedule_reachable) code_simp
  have "fst ?s = [Finished None, Finished None]" by code_simp
  moreover have "map fr_id (bk_files (snd ?s)) = []" by code_simp
  moreover have "map usr_usedSpace (bk_users (snd ?s)) = [7]" by code_simp
  ultimately show ?thesis using run uploadDemo_accounted by (intro conjI exI)
qed

subsection \<open>A call that is not interrupted is the operation\<close>

fun runCall :: "nat \<Rightarrow> bool option \<Rightarrow> upload_call \<Rightarrow> backend \<Rightarrow> upload_call \<times> backend" where
  "runCall 0 answer c b = (c, b)"
| "runCall (Suc n) answer c b = (case callStep answer c b of (c', b') \<Rightarrow> runCall n answer c' b')"

lemma runCall_add: "runCall (m + n) answer c b = (case runCall m answer c b of (c', b') \<Rightarrow> runCall n answer c' b')"
  by (induction m arbitrary: c b) (auto split: prod.split)

lemma runCall_Finished [simp]: "runCall n answer (Finished r) b = (Finished r, b)"
  by (induction n) auto

lemma flip_apply [op_simps]:
  "flipComplete fid b = (Inr (countWhere (flippable fid) (bk_files b)),
     setFiles (updateWhere (flippable fid) (\<lambda>r. r\<lparr>fr_status := Complete\<rparr>)) b)"
  by (simp add: flipComplete_def op_unfold)

lemma park_apply [op_simps]:
  "parkBuffered fid b = (Inr (), setFiles (updateWhere (\<lambda>r. fr_id r = fid \<and> fr_status r = Uploading) (\<lambda>r. r\<lparr>fr_status := Buffered\<rparr>)) b)"
  by (simp add: parkBuffered_def op_unfold)

lemma charge_apply [op_simps]:
  "chargeQuota uid n b = (case findUser uid b of None \<Rightarrow> (Inl PrismaP2025, b)
     | Some _ \<Rightarrow> (Inr (), setUsers (updateWhere (\<lambda>u. usr_id u = uid) (\<lambda>u. u\<lparr>usr_usedSpace := usr_usedSpace u + n\<rparr>)) b))"
  by (simp add: chargeQuota_def op_simps)

lemma complete_refines:
  "runCall 6 confirm (CompleteStart fid uid) b =
     (finishWith (fst (completeChunkedUpload fid uid confirm b)), snd (completeChunkedUpload fid uid confirm b))"
  unfolding completeChunkedUpload_def
  by (simp add: eval_nat_numeral op_unfold finishWith_def readBack_apply flip_apply park_apply charge_apply
      split: option.split)

lemma finalize_refines:
  "\<exists>k. runCall k answer (Finalize (fid # rest)) b = (Finalize rest, snd (finalizeChunkedFileIfLanded fid b))"
proof (cases "findFile fid b")
  case None
  then show ?thesis
    by (intro exI [of _ 1]) (simp add: finalizeChunkedFileIfLanded_def bestEffort_def op_unfold)
next
  case (Some r)
  consider "fr_status r = Complete \<or> fr_status r = Aborted"
    | "\<not> (fr_status r = Complete \<or> fr_status r = Aborted)" "landedChunks fid b < fr_totalChunks r"
    | "\<not> (fr_status r = Complete \<or> fr_status r = Aborted)" "\<not> landedChunks fid b < fr_totalChunks r" by blast
  then show ?thesis
  proof cases
    case 1
    with Some show ?thesis
      by (intro exI [of _ 1]) (auto simp: finalizeChunkedFileIfLanded_def bestEffort_def op_unfold)
  next
    case 2
    with Some show ?thesis
      by (intro exI [of _ 2]) (simp add: finalizeChunkedFileIfLanded_def bestEffort_def op_unfold eval_nat_numeral)
  next
    case 3
    show ?thesis
    proof (cases "countWhere (flippable fid) (bk_files b) = 1")
      case True
      with 3 Some show ?thesis
        by (intro exI [of _ 4]) (simp add: finalizeChunkedFileIfLanded_def bestEffort_def op_unfold eval_nat_numeral flip_apply charge_apply
            split: option.split)
    next
      case False
      with 3 Some show ?thesis
        by (intro exI [of _ 3]) (simp add: finalizeChunkedFileIfLanded_def bestEffort_def op_unfold eval_nat_numeral flip_apply)
    qed
  qed
qed

lemma finalizeAll_refines:
  "\<exists>k. runCall k answer (Finalize fids) b = (Finished None, snd (forEachOp finalizeChunkedFileIfLanded fids b)) \<and>
     fst (forEachOp finalizeChunkedFileIfLanded fids b) = Inr ()"
proof (induction fids arbitrary: b)
  case Nil
  then show ?case by (intro exI [of _ 1]) (simp add: op_unfold)
next
  case (Cons fid fids)
  obtain r b' where one: "finalizeChunkedFileIfLanded fid b = (r, b')" by (cases "finalizeChunkedFileIfLanded fid b")
  then have r: "r = Inr ()" by (auto simp: finalizeChunkedFileIfLanded_def bestEffort_def catchOp_def returnOp_def split: prod.splits sum.splits)
  from finalize_refines [of answer fid fids b] one obtain k where k: "runCall k answer (Finalize (fid # fids)) b = (Finalize fids, b')" by auto
  from Cons.IH [of b'] obtain m where m: "runCall m answer (Finalize fids) b' = (Finished None, snd (forEachOp finalizeChunkedFileIfLanded fids b'))"
    "fst (forEachOp finalizeChunkedFileIfLanded fids b') = Inr ()" by blast
  have "forEachOp finalizeChunkedFileIfLanded (fid # fids) b = forEachOp finalizeChunkedFileIfLanded fids b'"
    using one r by (simp add: thenOp_def bindOp_def)
  with k m show ?case by (intro exI [of _ "k + m"]) (simp add: runCall_add)
qed

lemma upsert_total: "\<exists>ok b'. upsertChunk d b = (Inr ok, b')"
  by (auto simp: upsertChunk_def op_unfold split: option.split)

lemma upserts_refine:
  "\<exists>n' t' b'. foldOp acceptResult ds (n, t) b = (Inr (n', t'), b') \<and>
     runCall (Suc (length ds)) answer (ReportChunks ds t) b = (Finalize t', b')"
proof (induction ds arbitrary: n t b)
  case Nil
  then show ?case by (simp add: op_unfold)
next
  case (Cons d ds)
  from upsert_total [of d b] obtain ok b1 where up: "upsertChunk d b = (Inr ok, b1)" by blast
  then have one: "acceptResult d (n, t) b = (Inr (if ok then (n + 1, addFileId (cr_fileId d) t) else (n, t)), b1)"
    by (simp add: acceptResult_def op_unfold)
  from Cons.IH [of "if ok then n + 1 else n" "if ok then addFileId (cr_fileId d) t else t" b1] up one show ?case
    by (cases ok) (simp_all add: bindOp_def)
qed


subsection \<open>Uploads in one piece\<close>

lemma charged_append [simp]: "charged uid (fs @ gs) = charged uid fs + charged uid gs"
  by (simp add: charged_def)

text \<open>Choosing the name of an upload at most puts another file into the trash.\<close>

lemma resolveFilename_state:
  assumes "resolveFilename n u d act now b = (r, b')"
  shows "bk_users b' = bk_users b \<and> fileFacts b' = fileFacts b \<and> (\<forall>v. charged v (bk_files b') = charged v (bk_files b))"
proof -
  have trash: "charged v (updateWhere P (\<lambda>r. r\<lparr>fr_deletedAt := Some now\<rparr>) fs) = charged v fs" for v P fs
    by (induction fs) (auto simp: completeSize_def)
  have "b' = b \<or> (\<exists>P. b' = setFiles (updateWhere P (\<lambda>r. r\<lparr>fr_deletedAt := Some now\<rparr>)) b)"
    using assms by (auto simp: resolveFilename_def op_simps updateFile_apply thenOp_def bindOp_def getsOp_def throwOp_def returnOp_def
        writeFiles_apply split: option.splits if_splits prod.splits)
  then show ?thesis
  proof
    assume "\<exists>P. b' = setFiles (updateWhere P (\<lambda>r. r\<lparr>fr_deletedAt := Some now\<rparr>)) b"
    then obtain P where "b' = setFiles (updateWhere P (\<lambda>r. r\<lparr>fr_deletedAt := Some now\<rparr>)) b" by blast
    then show ?thesis by (auto simp: fileFacts_def updateWhere_def trash [unfolded updateWhere_def])
  qed simp
qed

lemma accounted_facts:
  "accounted b \<Longrightarrow> bk_users b' = bk_users b \<Longrightarrow> fileFacts b' = fileFacts b \<Longrightarrow> (\<And>v. charged v (bk_files b') = charged v (bk_files b)) \<Longrightarrow>
   accounted b'"
  using facts_invariants [of b' b] by (simp add: accounted_def)

lemma checkQuota_apply [op_simps]:
  "checkQuota uid n b = (case findUser uid b of None \<Rightarrow> (Inl (NotFoundException ''User not found''), b)
     | Some u \<Rightarrow> if usr_usedSpace u + n > usr_quota u then (Inl (HttpException 400 ''Storage quota exceeded''), b) else (Inr (), b))"
  by (simp add: checkQuota_def op_unfold split: option.split)

text \<open>The row that an upload creates, after the transaction that completes and charges it.\<close>

lemma complete_created:
  assumes "accounted b" and "newId \<notin> fr_id ` set (bk_files b)" and "activeUnique (bk_files b @ [row])" and "findUser userId b = Some u"
    and "fr_id row = newId" "fr_userId row = userId" "fr_size row = n" "0 \<le> n" "fr_status row \<noteq> Complete"
    and "\<And>r. fr_id (h r) = fr_id r \<and> fr_userId (h r) = fr_userId r \<and> fr_size (h r) = fr_size r \<and> fr_status (h r) = Complete \<and>
      fr_folderId (h r) = fr_folderId r \<and> fr_filename (h r) = fr_filename r \<and> fr_deletedAt (h r) = fr_deletedAt r"
  shows "\<exists>b'. transactionOp (thenOp (updateFile newId h) (chargeQuota userId n)) (setFiles (\<lambda>fs. fs @ [row]) b) = (Inr (), b') \<and>
    accounted b' \<and> fileFacts b' = fileFacts b @ [(newId, userId, n)] \<and> findUser userId b' = Some (u\<lparr>usr_usedSpace := usr_usedSpace u + n\<rparr>)"
proof -
  have old: "updateWhere (\<lambda>r. fr_id r = newId) h (bk_files b) = bk_files b"
    using assms(2) by (intro updateWhere_none) auto
  have app: "updateWhere (\<lambda>r. fr_id r = newId) h (bk_files b @ [row]) = bk_files b @ [h row]"
    using old assms(5) by (simp add: updateWhere_def)
  have found: "findFile newId (setFiles (\<lambda>fs. fs @ [row]) b) \<noteq> None"
    using assms(5) by (auto simp: findFile_def find_None_iff)
  have keys: "activeKeys (bk_files b @ [h row]) = activeKeys (bk_files b @ [row])"
    using assms(10) by (simp add: activeKeys_def)
  let ?b' = "setUsers (updateWhere (\<lambda>u. usr_id u = userId) (\<lambda>u. u\<lparr>usr_usedSpace := usr_usedSpace u + n\<rparr>)) (setFiles (\<lambda>fs. fs @ [h row]) b)"
  have "transactionOp (thenOp (updateFile newId h) (chargeQuota userId n)) (setFiles (\<lambda>fs. fs @ [row]) b) = (Inr (), ?b')"
    using found assms(3,4) keys
    by (auto simp: transactionOp_def thenOp_def bindOp_def updateFile_apply writeFiles_apply charge_apply app activeUnique_def
        setFiles_def findUser_def setUsers_def)
  moreover have "accounted ?b'"
    using assms(1,2,5-8,10) by (auto simp: accounted_def map_updateWhere_key set_updateWhere completeSize_def)
  moreover have "fileFacts ?b' = fileFacts b @ [(newId, userId, n)]" using assms(5-7,10) by (simp add: fileFacts_def)
  moreover have "findUser userId ?b' = Some (u\<lparr>usr_usedSpace := usr_usedSpace u + n\<rparr>)"
    using assms(4) by (subst findUser_update) simp_all
  ultimately show ?thesis by blast
qed

lemma remove_created:
  assumes "newId \<notin> fr_id ` set (bk_files b)" and "fr_id row = newId"
  shows "\<exists>b'. removeFile newId (setFiles (\<lambda>fs. fs @ [row]) b) = (Inr (), b') \<and> bk_users b' = bk_users b \<and> bk_files b' = bk_files b"
proof -
  have "findFile newId (setFiles (\<lambda>fs. fs @ [row]) b) \<noteq> None"
    using assms(2) by (auto simp: findFile_def find_None_iff)
  moreover have "deleteWhere (\<lambda>r. fr_id r = newId) (bk_files b @ [row]) = bk_files b"
    using assms by (auto simp: deleteWhere_def filter_id_conv image_iff)
  ultimately show ?thesis by (auto simp: removeFile_def op_simps)
qed

text \<open>
  An upload in one piece either ends with the file complete, charged exactly its size and within the user's quota,
  or leaves the accounts and the set of files as they were, whatever fails: quota, name conflict, index or Telegram.
\<close>
theorem upload_in_one_piece:
  assumes "accounted b" and "newId \<notin> fr_id ` set (bk_files b)" and "0 \<le> fileSize"
    and "uploadFile newId mime keys telegram filename fileSize userId folderId act now b = (res, b')"
  shows "accounted b' \<and> (case res of
      Inl e \<Rightarrow> bk_users b' = bk_users b \<and> fileFacts b' = fileFacts b
    | Inr f \<Rightarrow> fr_id f = newId \<and> fr_status f = Complete \<and> fileFacts b' = fileFacts b @ [(newId, userId, fileSize)] \<and>
        (\<exists>u. findUser userId b = Some u \<and> usr_usedSpace u + fileSize \<le> usr_quota u \<and>
          findUser userId b' = Some (u\<lparr>usr_usedSpace := usr_usedSpace u + fileSize\<rparr>)))"
proof (cases "\<exists>u. findUser userId b = Some u \<and> usr_usedSpace u + fileSize \<le> usr_quota u")
  case False
  then have "\<exists>e. uploadFile newId mime keys telegram filename fileSize userId folderId act now b = (Inl e, b)"
    by (auto simp: uploadFile_def thenOp_def bindOp_def checkQuota_apply not_le split: option.split)
  with assms(1,4) show ?thesis by auto
next
  case True
  then obtain u where u: "findUser userId b = Some u" "usr_usedSpace u + fileSize \<le> usr_quota u" by blast
  obtain r1 b1 where name: "resolveFilename filename userId folderId act now b = (r1, b1)"
    by (cases "resolveFilename filename userId folderId act now b")
  note same = resolveFilename_state [OF name]
  have acc1: "accounted b1" using accounted_facts [OF assms(1)] same by blast
  have "map fst (fileFacts b1) = map fst (fileFacts b)" using same by simp
  then have ids1: "fr_id ` set (bk_files b1) = fr_id ` set (bk_files b)"
    by (simp add: fileFacts_def comp_def) (metis set_map)
  have user1: "findUser userId b1 = Some u" using u(1) same by (simp add: findUser_def)
  show ?thesis
  proof (cases r1)
    case (Inl e)
    then have "res = Inl e \<and> b' = b1"
      using assms(4) name u by (simp add: uploadFile_def thenOp_def bindOp_def checkQuota_apply)
    with acc1 same show ?thesis by simp
  next
    case (Inr target)
    let ?row = "(encrypted keys (newFileRow newId target fileSize (orNull folderId) userId now))\<lparr>fr_mimeType := mime, fr_status := Uploading\<rparr>"
    let ?b2 = "setFiles (\<lambda>fs. fs @ [?row]) b1"
    have row: "fr_id ?row = newId" "fr_userId ?row = userId" "fr_size ?row = fileSize" "fr_status ?row \<noteq> Complete"
      by (simp_all add: encrypted_def newFileRow_def)
    show ?thesis
    proof (cases "activeUnique (bk_files b1 @ [?row])")
      case False
      then have "res = Inl PrismaP2002 \<and> b' = b1"
        using assms(4) name u Inr
        by (simp add: uploadFile_def thenOp_def bindOp_def checkQuota_apply createFile_def writeFiles_apply Let_def)
      with acc1 same show ?thesis by simp
    next
      case True
      show ?thesis
      proof (cases telegram)
        case None
        from remove_created [of newId b1 ?row] assms(2) ids1 row(1) obtain b3 where b3: "removeFile newId ?b2 = (Inr (), b3)"
          "bk_users b3 = bk_users b1" "bk_files b3 = bk_files b1" by auto
        have "res = Inl (PlainError ''Telegram upload failed'') \<and> b' = b3"
          using assms(4) name u Inr True None b3(1)
          by (simp add: uploadFile_def thenOp_def bindOp_def catchOp_def throwOp_def checkQuota_apply createFile_def writeFiles_apply Let_def)
        with acc1 same b3 accounted_cong [of b3 b1] show ?thesis by (simp add: fileFacts_def)
      next
        case (Some t)
        obtain tf tm bid where t: "t = (tf, tm, bid)" by (cases t)
        let ?h = "\<lambda>r. r\<lparr>fr_telegramFileId := Some tf, fr_telegramMessageId := Some tm, fr_botId := bid, fr_status := Complete\<rparr>"
        from complete_created [OF acc1 _ True user1 row(1-3) assms(3) row(4), of ?h] assms(2) ids1 obtain b3 where b3:
          "transactionOp (thenOp (updateFile newId ?h) (chargeQuota userId fileSize)) ?b2 = (Inr (), b3)"
          "accounted b3" "fileFacts b3 = fileFacts b1 @ [(newId, userId, fileSize)]"
          "findUser userId b3 = Some (u\<lparr>usr_usedSpace := usr_usedSpace u + fileSize\<rparr>)" by auto
        have "res = Inr (?h ?row) \<and> b' = b3"
          using assms(4) name u Inr True Some t b3(1)
          by (simp add: uploadFile_def thenOp_def bindOp_def catchOp_def returnOp_def checkQuota_apply createFile_def writeFiles_apply Let_def)
        with b3 same u row show ?thesis by simp
      qed
    qed
  qed
qed

theorem upload_in_one_piece_witness:
  "\<exists>f b'. uploadFile ''n1'' ''m'' \<lparr>uk_iv = ''i'', uk_encryptedKey = ''k''\<rparr> (Some (''t'', 1, 0)) ''n'' 3 ''u1'' None None 5 uploadDemo =
     (Inr f, b') \<and> fr_status f = Complete \<and> fileFacts b' = fileFacts uploadDemo @ [(''n1'', ''u1'', 3)]"
proof -
  let ?run = "uploadFile ''n1'' ''m'' \<lparr>uk_iv = ''i'', uk_encryptedKey = ''k''\<rparr> (Some (''t'', 1, 0)) ''n'' 3 ''u1'' None None 5 uploadDemo"
  obtain res b' where run: "?run = (res, b')" by (cases ?run)
  have "isl (fst ?run) = False" by code_simp
  then obtain f where "res = Inr f" using run by (cases res) auto
  moreover have "''n1'' \<notin> fr_id ` set (bk_files uploadDemo)" by code_simp
  ultimately show ?thesis using upload_in_one_piece [OF uploadDemo_accounted _ _ run] run by auto
qed

end
