(* ===== verification/Utf8.thy ===== *)
theory Utf8
  imports JsLib
begin

section \<open>Text as bytes: UTF-8, lines and base64\<close>

text \<open>
  \<^verbatim>\<open>Buffer.toString('utf8')\<close>, \<^verbatim>\<open>String.length\<close>, \<^verbatim>\<open>trim\<close>, \<^verbatim>\<open>Buffer.indexOf\<close> and the base64 codec of
  \<^verbatim>\<open>Buffer\<close>, on the UTF-8 bytes that stand for a string.
\<close>

abbreviation byte :: "char \<Rightarrow> nat" where
  "byte c \<equiv> of_char c"

subsection \<open>Decoding UTF-8\<close>

definition byteRange :: "nat \<Rightarrow> nat \<Rightarrow> string \<Rightarrow> bool" where
  "byteRange lo hi s = (case s of [] \<Rightarrow> False | c # _ \<Rightarrow> lo \<le> byte c \<and> byte c \<le> hi)"

text \<open>The sequence at the front: whether it is well formed, and how many bytes it takes (Unicode, table 3-7).\<close>

definition utf8Front :: "string \<Rightarrow> bool \<times> nat" where
  "utf8Front s = (case s of [] \<Rightarrow> (True, 0) | c # r \<Rightarrow>
     (let b = byte c; cont = byteRange 128 191 in
      if b < 128 then (True, 1)
      else if 194 \<le> b \<and> b \<le> 223 then (if cont r then (True, 2) else (False, 1))
      else if 224 \<le> b \<and> b \<le> 239 then
        (if byteRange (if b = 224 then 160 else 128) (if b = 237 then 159 else 191) r
         then (if cont (tl r) then (True, 3) else (False, 2)) else (False, 1))
      else if 240 \<le> b \<and> b \<le> 244 then
        (if byteRange (if b = 240 then 144 else 128) (if b = 244 then 143 else 191) r
         then (if cont (tl r) then (if cont (tl (tl r)) then (True, 4) else (False, 3)) else (False, 2)) else (False, 1))
      else (False, 1)))"

definition replacement :: string where
  "replacement = [char_of (239 :: nat), char_of (191 :: nat), char_of (189 :: nat)]"

lemma utf8Front_pos: "s \<noteq> [] \<Longrightarrow> 0 < snd (utf8Front s)"
  by (auto simp: utf8Front_def Let_def split: list.split)

lemma utf8Front_step: "(ok, n) = utf8Front s \<Longrightarrow> s \<noteq> [] \<Longrightarrow> 0 < n"
  by (metis snd_conv utf8Front_pos)

lemma utf8Front_bound: "snd (utf8Front s) \<le> length s"
  by (auto simp: utf8Front_def byteRange_def Let_def split: list.split)

text \<open>Decoding replaces every ill-formed part by U+FFFD.\<close>

function utf8Text :: "string \<Rightarrow> string" where
  "utf8Text s = (if s = [] then [] else
     (let (ok, n) = utf8Front s in (if ok then take n s else replacement) @ utf8Text (drop n s)))"
  by auto
termination
  by (relation "measure length") (auto dest: utf8Front_step)

declare utf8Text.simps [simp del]

function validUtf8 :: "string \<Rightarrow> bool" where
  "validUtf8 s = (if s = [] then True else (let (ok, n) = utf8Front s in if ok then validUtf8 (drop n s) else False))"
  by auto
termination
  by (relation "measure length") (auto dest: utf8Front_step)

declare validUtf8.simps [simp del]

lemma utf8Text_Nil [simp]: "utf8Text [] = []"
  by (subst utf8Text.simps) simp

lemma utf8Text_valid: "validUtf8 s \<Longrightarrow> utf8Text s = s"
proof (induction s rule: utf8Text.induct)
  case (1 s)
  show ?case
  proof (cases "s = []")
    case False
    obtain ok n where x: "utf8Front s = (ok, n)" by (cases "utf8Front s")
    with 1(2) False have "ok" "validUtf8 (drop n s)"
      by (subst (asm) validUtf8.simps, simp split: if_splits)+
    with 1(1) [OF False x [symmetric] refl] False x show ?thesis
      by (subst utf8Text.simps) simp
  qed simp
qed

lemma utf8Text_ascii: "byte c < 128 \<Longrightarrow> utf8Text (c # s) = c # utf8Text s"
  by (subst utf8Text.simps) (simp add: utf8Front_def)

lemma utf8Text_ascii_append: "(\<And>c. c \<in> set a \<Longrightarrow> byte c < 128) \<Longrightarrow> utf8Text (a @ s) = a @ utf8Text s"
  by (induction a) (simp_all add: utf8Text_ascii)

text \<open>\<^verbatim>\<open>String.length\<close> counts UTF-16 units: two for a character of four bytes, one for any other.\<close>

definition utf16Length :: "string \<Rightarrow> nat" where
  "utf16Length s = length (filter (\<lambda>c. byte c < 128 \<or> 192 \<le> byte c) s) + length (filter (\<lambda>c. 240 \<le> byte c) s)"

lemma utf16Length_bound: "utf16Length s \<le> 2 * length s"
  unfolding utf16Length_def using length_filter_le [of _ s] by (metis add_mono mult_2)

subsection \<open>White space at the ends\<close>

definition utf8Spaces :: "string list" where
  "utf8Spaces = map (map (char_of :: nat \<Rightarrow> char))
     ([[9], [10], [11], [12], [13], [32], [194, 160], [225, 154, 128], [226, 128, 168], [226, 128, 169],
       [226, 128, 175], [226, 129, 159], [227, 128, 128], [239, 187, 191]] @ map (\<lambda>k. [226, 128, 128 + k]) [0..<11])"

function stripFront :: "string list \<Rightarrow> string \<Rightarrow> string" where
  "stripFront ws s = (case find (\<lambda>w. w \<noteq> [] \<and> take (length w) s = w) ws of None \<Rightarrow> s | Some w \<Rightarrow> stripFront ws (drop (length w) s))"
  by auto
termination
proof (relation "measure (length \<circ> snd)")
  fix ws :: "string list" and s w
  assume "find (\<lambda>w. w \<noteq> [] \<and> take (length w) s = w) ws = Some w"
  then have w: "w \<noteq> []" "take (length w) s = w" by (auto dest: find_SomeD)
  then have "s \<noteq> []" by auto
  with w show "((ws, drop (length w) s), (ws, s)) \<in> measure (length \<circ> snd)" by simp
qed simp

declare stripFront.simps [simp del]

definition utf8Trim :: "string \<Rightarrow> string" where
  "utf8Trim s = rev (stripFront (map rev utf8Spaces) (rev (stripFront utf8Spaces s)))"

text \<open>A printable ASCII character other than the space.\<close>

definition graphic :: "char \<Rightarrow> bool" where
  "graphic c \<longleftrightarrow> 33 \<le> byte c \<and> byte c \<le> 126"

lemma utf8Spaces_not_graphic: "w \<in> set utf8Spaces \<Longrightarrow> w \<noteq> [] \<and> \<not> graphic (hd w) \<and> \<not> graphic (last w)"
proof -
  have "list_all (\<lambda>w. w \<noteq> [] \<and> \<not> graphic (hd w) \<and> \<not> graphic (last w)) utf8Spaces"
    by (simp add: utf8Spaces_def graphic_def upt_rec of_char_of take_bit_nat_eq_self)
  then show "w \<in> set utf8Spaces \<Longrightarrow> ?thesis" by (auto simp: list_all_iff)
qed

lemma stripFront_keep: "(\<And>w. w \<in> set ws \<Longrightarrow> w \<noteq> [] \<Longrightarrow> hd w \<noteq> c) \<Longrightarrow> stripFront ws (c # s) = c # s"
proof -
  assume no: "\<And>w. w \<in> set ws \<Longrightarrow> w \<noteq> [] \<Longrightarrow> hd w \<noteq> c"
  have "find (\<lambda>w. w \<noteq> [] \<and> take (length w) (c # s) = w) ws = None"
    unfolding find_None_iff
  proof
    assume "\<exists>w. w \<in> set ws \<and> w \<noteq> [] \<and> take (length w) (c # s) = w"
    then obtain w where w: "w \<in> set ws" "w \<noteq> []" "take (length w) (c # s) = w" by blast
    then have "hd w = c" by (metis hd_take length_greater_0_conv list.sel(1))
    with no w show False by blast
  qed
  then show ?thesis by (subst stripFront.simps) simp
qed

lemma stripFront_Nil [simp]: "stripFront ws [] = []"
proof -
  have "find (\<lambda>w. w \<noteq> [] \<and> take (length w) [] = w) ws = None" by (auto simp: find_None_iff)
  then show ?thesis by (subst stripFront.simps) simp
qed

lemma utf8Trim_graphic: "s = [] \<or> graphic (hd s) \<and> graphic (last s) \<Longrightarrow> utf8Trim s = s"
proof (elim disjE conjE)
  assume s: "graphic (hd s)" "graphic (last s)"
  show ?thesis
  proof (cases "s = []")
    case False
    have "stripFront utf8Spaces s = s"
      using stripFront_keep [of utf8Spaces "hd s" "tl s"] utf8Spaces_not_graphic s(1) False by force
    moreover have "stripFront (map rev utf8Spaces) (rev s) = rev s"
      using stripFront_keep [of "map rev utf8Spaces" "last s" "tl (rev s)"] utf8Spaces_not_graphic s(2) False
      by (force simp: hd_rev hd_Cons_tl [of "rev s", unfolded hd_rev])
    ultimately show ?thesis by (simp add: utf8Trim_def)
  qed (simp add: utf8Trim_def)
qed (simp add: utf8Trim_def)

text \<open>\<^verbatim>\<open>toLowerCase\<close> of ASCII letters; other letters are left as they are.\<close>

definition asciiLower :: "string \<Rightarrow> string" where
  "asciiLower s = map (\<lambda>c. if 65 \<le> byte c \<and> byte c \<le> 90 then char_of (byte c + 32) else c) s"

subsection \<open>Lines\<close>

text \<open>What is before and after the first \<^verbatim>\<open>CRLF\<close>.\<close>

abbreviation CR :: char where "CR \<equiv> CHR 0x0D"
abbreviation LF :: char where "LF \<equiv> CHR 0x0A"

fun cutLine :: "string \<Rightarrow> (string \<times> string) option" where
  "cutLine (c # d # s) = (if c = CR \<and> d = LF then Some ([], s) else map_option (\<lambda>(a, b). (c # a, b)) (cutLine (d # s)))"
| "cutLine _ = None"

lemma cutLine_Some: "cutLine s = Some (a, b) \<Longrightarrow> s = a @ CR # LF # b"
  by (induction s arbitrary: a rule: cutLine.induct) (auto split: if_splits)

lemma cutLine_append: "cutLine s = Some (a, b) \<Longrightarrow> cutLine (s @ t) = Some (a, b @ t)"
  by (induction s arbitrary: a rule: cutLine.induct) (auto split: if_splits)

lemma cutLine_line: "CR \<notin> set a \<Longrightarrow> cutLine (a @ CR # LF # s) = Some (a, s)"
proof (induction a)
  case (Cons c a)
  then show ?case by (cases a) auto
qed simp

subsection \<open>Base64\<close>

definition b64Alphabet :: string where
  "b64Alphabet = ''ABCDEFGHIJKLMNOPQRSTUVWXYZabcdefghijklmnopqrstuvwxyz0123456789+/''"

definition b64Char :: "nat \<Rightarrow> char" where
  "b64Char n = b64Alphabet ! n"

definition b64Value :: "char \<Rightarrow> nat" where
  "b64Value c = (let n = byte c in if 65 \<le> n \<and> n \<le> 90 then n - 65 else if 97 \<le> n \<and> n \<le> 122 then n - 71
     else if 48 \<le> n \<and> n \<le> 57 then n + 4 else if n = 43 then 62 else 63)"

definition isB64Char :: "char \<Rightarrow> bool" where
  "isB64Char c \<longleftrightarrow> c \<in> set b64Alphabet"

fun b64Sextets :: "nat list \<Rightarrow> nat list" where
  "b64Sextets (a # b # c # r) = a div 4 # (a mod 4 * 16 + b div 16) # (b mod 16 * 4 + c div 64) # c mod 64 # b64Sextets r"
| "b64Sextets [a, b] = [a div 4, a mod 4 * 16 + b div 16, b mod 16 * 4]"
| "b64Sextets [a] = [a div 4, a mod 4 * 16]"
| "b64Sextets [] = []"

text \<open>Bits that do not fill a byte are dropped.\<close>

fun b64Bytes :: "nat list \<Rightarrow> nat list" where
  "b64Bytes (a # b # c # d # r) = (a * 4 + b div 16) # (b mod 16 * 16 + c div 4) # (c mod 4 * 64 + d) # b64Bytes r"
| "b64Bytes [a, b, c] = [a * 4 + b div 16, b mod 16 * 16 + c div 4]"
| "b64Bytes [a, b] = [a * 4 + b div 16]"
| "b64Bytes [a] = []"
| "b64Bytes [] = []"

definition base64Encode :: "string \<Rightarrow> string" where
  "base64Encode s = (let t = map b64Char (b64Sextets (map byte s)) in t @ replicate ((3 - length s mod 3) mod 3) (CHR ''=''))"

definition base64Decode :: "string \<Rightarrow> string" where
  "base64Decode s = map char_of (b64Bytes (map b64Value (takeWhile isB64Char s)))"

lemma b64_roundtrip: "list_all (\<lambda>n. n < 256) bs \<Longrightarrow> b64Bytes (b64Sextets bs) = bs"
proof (induction bs rule: b64Sextets.induct)
  case (1 a b c r)
  have "b div 16 < 16" using 1 by (simp add: less_mult_imp_div_less)
  then have "a div 4 * 4 + (a mod 4 * 16 + b div 16) div 16 = a" by simp
  moreover have "(a mod 4 * 16 + b div 16) mod 16 * 16 + (b mod 16 * 4 + c div 64) div 4 = b" using 1 by auto
  moreover have "(b mod 16 * 4 + c div 64) mod 4 * 64 + c mod 64 = c" using 1 by auto
  ultimately show ?case using 1 by simp
qed auto

lemma b64Sextets_small: "list_all (\<lambda>n. n < 256) bs \<Longrightarrow> n \<in> set (b64Sextets bs) \<Longrightarrow> n < 64"
  by (induction bs rule: b64Sextets.induct) auto

lemma length_b64Sextets: "length (b64Sextets bs) = length bs + (length bs + 2) div 3"
  by (induction bs rule: b64Sextets.induct) auto

lemma b64Alphabet_values: "map b64Value b64Alphabet = [0..<64]" "list_all (\<lambda>c. byte c < 128) b64Alphabet" "length b64Alphabet = 64"
  by code_simp+

lemma b64Char_value: "n < 64 \<Longrightarrow> b64Value (b64Char n) = n \<and> isB64Char (b64Char n) \<and> byte (b64Char n) < 128"
proof -
  assume n: "n < 64"
  then have "b64Value (b64Char n) = map b64Value b64Alphabet ! n" by (simp add: b64Char_def b64Alphabet_values(3))
  moreover have "b64Char n \<in> set b64Alphabet" using n by (simp add: b64Char_def b64Alphabet_values(3))
  ultimately show ?thesis using n b64Alphabet_values(2) unfolding b64Alphabet_values(1) by (simp add: isB64Char_def list_all_iff)
qed

lemma bytes_small: "list_all (\<lambda>n. n < 256) (map byte s)"
  by (simp add: list_all_iff of_char_of [symmetric])

lemma base64_takeWhile: "takeWhile isB64Char (base64Encode s) = map b64Char (b64Sextets (map byte s))"
proof -
  have "isB64Char c" if "c \<in> set (map b64Char (b64Sextets (map byte s)))" for c
    using that b64Sextets_small [OF bytes_small] b64Char_value by auto
  moreover have "\<not> isB64Char (CHR ''='')" by code_simp
  ultimately show ?thesis
    by (cases "(3 - length s mod 3) mod 3") (simp add: base64Encode_def Let_def takeWhile_eq_all_conv,
        simp only: base64Encode_def Let_def replicate_Suc, subst takeWhile_append2, simp_all)
qed

lemma base64_decode_encode: "base64Decode (base64Encode s) = s"
proof -
  have "map b64Value (map b64Char (b64Sextets (map byte s))) = b64Sextets (map byte s)"
    using b64Sextets_small [OF bytes_small] b64Char_value by (simp add: map_idI)
  moreover have "map char_of (map byte s) = s" by (simp add: map_idI)
  ultimately show ?thesis
    by (simp only: base64Decode_def base64_takeWhile b64_roundtrip [OF bytes_small])
qed

lemma base64_padding: "n + (n + 2) div 3 + (3 - n mod 3) mod 3 = 4 * ((n + 2) div 3)" for n :: nat
proof -
  obtain q r where n: "n = 3 * q + r" "r < 3" by (metis mod_less_divisor mult_div_mod_eq zero_less_numeral)
  then have "r = 0 \<or> r = 1 \<or> r = 2" by auto
  with n show ?thesis by auto
qed

lemma length_base64Encode: "length (base64Encode s) = 4 * ((length s + 2) div 3)"
proof -
  have "length s + (length s + 2) div 3 + (3 - length s mod 3) mod 3 = 4 * ((length s + 2) div 3)" by (rule base64_padding)
  then show ?thesis by (simp add: base64Encode_def length_b64Sextets)
qed

subsection \<open>Base64 for URLs\<close>

definition b64urlChar :: "nat \<Rightarrow> char" where
  "b64urlChar n = (if n = 62 then CHR ''-'' else if n = 63 then CHR ''_'' else b64Char n)"

definition b64urlValue :: "char \<Rightarrow> nat" where
  "b64urlValue c = (if c = CHR ''-'' then 62 else if c = CHR ''_'' then 63 else b64Value c)"

text \<open>The encoder does not pad; the decoder knows both alphabets and skips all other characters.\<close>

definition base64urlEncode :: "string \<Rightarrow> string" where
  "base64urlEncode s = map b64urlChar (b64Sextets (map byte s))"

definition base64urlDecode :: "string \<Rightarrow> string" where
  "base64urlDecode s = map char_of (b64Bytes (map b64urlValue (filter (\<lambda>c. isB64Char c \<or> c = CHR ''-'' \<or> c = CHR ''_'') s)))"

lemma b64urlChar_value: "n < 64 \<Longrightarrow> b64urlValue (b64urlChar n) = n \<and> (isB64Char (b64urlChar n) \<or> b64urlChar n = CHR ''-'' \<or> b64urlChar n = CHR ''_'')"
proof -
  assume n: "n < 64"
  have "\<not> isB64Char (CHR ''-'')" "\<not> isB64Char (CHR ''_'')" by code_simp+
  with b64Char_value [OF n] show ?thesis by (auto simp: b64urlChar_def b64urlValue_def)
qed

lemma base64url_decode_encode: "base64urlDecode (base64urlEncode s) = s"
proof -
  have "map b64urlValue (map b64urlChar (b64Sextets (map byte s))) = b64Sextets (map byte s)"
    and "filter (\<lambda>c. isB64Char c \<or> c = CHR ''-'' \<or> c = CHR ''_'') (map b64urlChar (b64Sextets (map byte s))) =
      map b64urlChar (b64Sextets (map byte s))"
    using b64Sextets_small [OF bytes_small] b64urlChar_value by (auto simp: map_idI filter_id_conv)
  moreover have "map char_of (map byte s) = s" by (simp add: map_idI)
  ultimately show ?thesis by (simp only: base64urlDecode_def base64urlEncode_def b64_roundtrip [OF bytes_small])
qed

end
