(* ===== verification/AwsChunked.thy ===== *)
theory AwsChunked
  imports Utf8
begin

section \<open>Decoding aws-chunked bodies\<close>

text \<open>
  \<^verbatim>\<open>AwsChunkedDecodeStream\<close> (backend/src/s3/aws-chunked-decode.stream.ts). A decoder is the state of the
  transform with the bytes it has pushed; \<open>decodeStep\<close> is one round of the loop of \<^verbatim>\<open>processBuffer\<close>. A thrown error
  ends the stream. A declared chunk size keeps its exact value: \<^verbatim>\<open>parseInt\<close> rounds sizes above \<open>2 ^ 53\<close>, which no
  buffer reaches.
\<close>

datatype decoder_state = HeaderState | DataState | DataCrlfState | TrailersState | DoneState

record decoder =
  dc_buffer :: string
  dc_expectedChunkSize :: nat
  dc_state :: decoder_state
  dc_trailers :: "(string \<times> string) list"
  dc_pushed :: string

datatype decode_error = InvalidHeaderLine | InvalidChunkSize | InvalidDataTerminator | InvalidTrailerLine
  | InvalidTrailerHeader | IncompleteStream

text \<open>One round: an error, the end of the loop, or another round.\<close>

datatype round = Throws decode_error | Returns | Continues

definition newDecoder :: decoder where
  "newDecoder = \<lparr>dc_buffer = [], dc_expectedChunkSize = 0, dc_state = HeaderState, dc_trailers = [], dc_pushed = []\<rparr>"

definition readLine :: "decoder \<Rightarrow> (string \<times> decoder) option" where
  "readLine d = (case cutLine (dc_buffer d) of None \<Rightarrow> None | Some (line, rest) \<Rightarrow> Some (utf8Text line, d\<lparr>dc_buffer := rest\<rparr>))"

text \<open>Assigning a property of the trailers object; a string assigned to \<^verbatim>\<open>__proto__\<close> is ignored.\<close>

definition setTrailer :: "string \<Rightarrow> string \<Rightarrow> (string \<times> string) list \<Rightarrow> (string \<times> string) list" where
  "setTrailer name value ts = (if name = ''__proto__'' then ts
     else if name \<in> fst ` set ts then map (\<lambda>(n, v). if n = name then (n, value) else (n, v)) ts else ts @ [(name, value)])"

definition headerSize :: "string \<Rightarrow> nat option" where
  "headerSize line = (let sizeHex = utf8Trim (hd (jsSplit (CHR '';'') line)) in
     if sizeHex = [] \<or> \<not> list_all (baseDigit 16) sizeHex then None else Some (baseVal 16 sizeHex))"

definition decodeStep :: "bool \<Rightarrow> decoder \<Rightarrow> round \<times> decoder" where
  "decodeStep flush d = (case dc_state d of
     HeaderState \<Rightarrow> (case readLine d of
        None \<Rightarrow> (if flush \<and> 0 < length (dc_buffer d) then Throws InvalidHeaderLine else Returns, d)
      | Some (line, d') \<Rightarrow> (case headerSize line of
           None \<Rightarrow> (Throws InvalidChunkSize, d')
         | Some n \<Rightarrow> (Continues, d'\<lparr>dc_expectedChunkSize := n, dc_state := (if n = 0 then TrailersState else DataState)\<rparr>)))
   | DataState \<Rightarrow>
      if length (dc_buffer d) < dc_expectedChunkSize d then (Returns, d)
      else (Continues, d\<lparr>dc_pushed := dc_pushed d @ take (dc_expectedChunkSize d) (dc_buffer d),
              dc_buffer := drop (dc_expectedChunkSize d) (dc_buffer d), dc_state := DataCrlfState\<rparr>)
   | DataCrlfState \<Rightarrow> (case dc_buffer d of
        x # y # rest \<Rightarrow> if x \<noteq> CR \<or> y \<noteq> LF then (Throws InvalidDataTerminator, d)
          else (Continues, d\<lparr>dc_buffer := rest, dc_state := HeaderState\<rparr>)
      | _ \<Rightarrow> (Returns, d))
   | TrailersState \<Rightarrow> (case readLine d of
        None \<Rightarrow> (if flush \<and> 0 < length (dc_buffer d) then Throws InvalidTrailerLine else Returns, d)
      | Some (line, d') \<Rightarrow> if line = [] then (Continues, d'\<lparr>dc_state := DoneState\<rparr>) else
          (case jsCut (CHR '':'') line of
             None \<Rightarrow> (Throws InvalidTrailerHeader, d')
           | Some (name, value) \<Rightarrow>
               (Continues, d'\<lparr>dc_trailers := setTrailer (asciiLower (utf8Trim name)) (utf8Trim value) (dc_trailers d')\<rparr>)))
   | DoneState \<Rightarrow> (Returns, d))"

text \<open>Every round that goes on takes bytes out of the buffer, or leaves the data state.\<close>

definition decoderWork :: "decoder \<Rightarrow> nat" where
  "decoderWork d = 2 * length (dc_buffer d) + (if dc_state d = DataState then 1 else 0)"

lemma readLine_Some: "readLine d = Some (line, d') \<Longrightarrow> \<exists>raw. line = utf8Text raw \<and> dc_buffer d = raw @ CR # LF # dc_buffer d' \<and>
  d' = d\<lparr>dc_buffer := dc_buffer d'\<rparr>"
  by (auto simp: readLine_def split: option.splits dest: cutLine_Some)

lemma readLine_shorter: "readLine d = Some (line, d') \<Longrightarrow> length (dc_buffer d') + 2 \<le> length (dc_buffer d)"
  using readLine_Some by fastforce

lemma decodeStep_work: "decodeStep flush d = (Continues, d') \<Longrightarrow> decoderWork d' < decoderWork d"
  by (auto simp: decodeStep_def decoderWork_def split: decoder_state.splits option.splits if_splits prod.splits list.splits
      dest!: readLine_shorter)

function processBuffer :: "bool \<Rightarrow> decoder \<Rightarrow> (decode_error + unit) \<times> decoder" where
  "processBuffer flush d = (case decodeStep flush d of
     (Throws e, d') \<Rightarrow> (Inl e, d') | (Returns, d') \<Rightarrow> (Inr (), d') | (Continues, d') \<Rightarrow> processBuffer flush d')"
  by auto
termination
  by (relation "measure (decoderWork \<circ> snd)") (auto dest!: decodeStep_work [OF sym])

declare processBuffer.simps [simp del]

definition transform :: "string \<Rightarrow> decoder \<Rightarrow> (decode_error + unit) \<times> decoder" where
  "transform chunk d = processBuffer False (d\<lparr>dc_buffer := dc_buffer d @ chunk\<rparr>)"

definition flushDecoder :: "decoder \<Rightarrow> (decode_error + unit) \<times> decoder" where
  "flushDecoder d = (case processBuffer True d of
     (Inl e, d') \<Rightarrow> (Inl e, d')
   | (Inr _, d') \<Rightarrow> if dc_state d' \<noteq> DoneState then (Inl IncompleteStream, d') else (Inr (), d'))"

text \<open>A body that arrives in pieces; the first error destroys the stream.\<close>

fun decodePieces :: "string list \<Rightarrow> decoder \<Rightarrow> (decode_error + unit) \<times> decoder" where
  "decodePieces [] d = flushDecoder d"
| "decodePieces (piece # pieces) d = (case transform piece d of
     (Inl e, d') \<Rightarrow> (Inl e, d') | (Inr _, d') \<Rightarrow> decodePieces pieces d')"

text \<open>What the reader of the stream gets: the error, the data pushed before it, and the trailers of a complete stream.\<close>

definition decoded :: "(decode_error + unit) \<times> decoder \<Rightarrow> decode_error option \<times> string \<times> (string \<times> string) list" where
  "decoded r = (case r of (Inl e, d) \<Rightarrow> (Some e, dc_pushed d, []) | (Inr _, d) \<Rightarrow> (None, dc_pushed d, dc_trailers d))"

subsection \<open>The pieces do not matter\<close>

abbreviation more :: "decoder \<Rightarrow> string \<Rightarrow> decoder" where
  "more d s \<equiv> d\<lparr>dc_buffer := dc_buffer d @ s\<rparr>"

lemma readLine_more: "readLine d = Some (line, d') \<Longrightarrow> readLine (more d s) = Some (line, more d' s)"
  by (auto simp: readLine_def cutLine_append split: option.splits)

lemma decodeStep_more:
  "decodeStep False d = (r, d') \<Longrightarrow> r \<noteq> Returns \<Longrightarrow> decodeStep False (more d s) = (r, more d' s)"
  by (auto simp: decodeStep_def readLine_more split: decoder_state.splits option.splits if_splits prod.splits list.splits)

lemma processBuffer_more:
  "processBuffer False (more d s) = (case processBuffer False d of
     (Inl e, d') \<Rightarrow> (Inl e, more d' s) | (Inr _, d') \<Rightarrow> processBuffer False (more d' s))"
proof (induction "False" d rule: processBuffer.induct)
  case (1 d)
  obtain r d' where step: "decodeStep False d = (r, d')" by (cases "decodeStep False d")
  show ?case
  proof (cases r)
    case Returns
    then have "d' = d" using step by (auto simp: decodeStep_def split: decoder_state.splits option.splits if_splits prod.splits list.splits)
    with step Returns show ?thesis by (subst (2) processBuffer.simps) simp
  next
    case (Throws e)
    with decodeStep_more [OF step, of s] step show ?thesis by (subst (1 2) processBuffer.simps) simp
  next
    case Continues
    with decodeStep_more [OF step, of s] 1 [OF step [symmetric]] step show ?thesis by (subst (1 2) processBuffer.simps) simp
  qed
qed

lemma decodeStep_flush: "decodeStep False d = (r, d') \<Longrightarrow> r \<noteq> Returns \<Longrightarrow> decodeStep True d = (r, d')"
  by (auto simp: decodeStep_def split: decoder_state.splits option.splits if_splits prod.splits list.splits)

lemma decodeStep_returns: "decodeStep flush d = (Returns, d') \<Longrightarrow> d' = d"
  by (auto simp: decodeStep_def split: decoder_state.splits option.splits if_splits prod.splits list.splits)

lemma processBuffer_flush:
  "processBuffer True d = (case processBuffer False d of (Inl e, d') \<Rightarrow> (Inl e, d') | (Inr _, d') \<Rightarrow> processBuffer True d')"
proof (induction "False" d rule: processBuffer.induct)
  case (1 d)
  obtain r d' where step: "decodeStep False d = (r, d')" by (cases "decodeStep False d")
  show ?case
  proof (cases r)
    case Returns
    with step decodeStep_returns [of False d d'] show ?thesis by (subst (2) processBuffer.simps) simp
  next
    case (Throws e)
    with decodeStep_flush [OF step] step show ?thesis by (subst (1 2) processBuffer.simps) simp
  next
    case Continues
    with decodeStep_flush [OF step] 1 [OF step [symmetric]] step show ?thesis by (subst (1 2) processBuffer.simps) simp
  qed
qed

lemma flush_after: "flushDecoder d = (case processBuffer False d of (Inl e, d') \<Rightarrow> (Inl e, d') | (Inr _, d') \<Rightarrow> flushDecoder d')"
  by (simp add: flushDecoder_def processBuffer_flush [of d] split: prod.split sum.split)

lemma decodePieces_concat: "decoded (decodePieces pieces d) = decoded (decodePieces [concat pieces] d)"
proof (induction pieces arbitrary: d)
  case Nil
  show ?case by (simp add: transform_def flush_after [of d] cong: sum.case_cong)
next
  case (Cons piece pieces)
  note whole = processBuffer_more [of "more d piece" "concat pieces"]
  obtain r d1 where one: "processBuffer False (more d piece) = (r, d1)" by (cases "processBuffer False (more d piece)")
  show ?case
  proof (cases r)
    case (Inl e)
    with one whole show ?thesis by (simp add: transform_def decoded_def)
  next
    case (Inr u)
    with one have "decodePieces (piece # pieces) d = decodePieces pieces d1" by (simp add: transform_def)
    moreover have "decodePieces [concat (piece # pieces)] d = decodePieces [concat pieces] d1"
      using one whole Inr by (simp add: transform_def)
    ultimately show ?thesis using Cons.IH [of d1] by simp
  qed
qed

text \<open>
  C11. How the network cuts a body into pieces does not matter: whatever the pieces, the decoder throws the same error and
  pushes the same bytes before it, or ends with the same data and trailers, as for the whole body at once.
\<close>
theorem pieces_do_not_matter: "decoded (decodePieces pieces d) = decoded (decodePieces [concat pieces] d)"
  by (rule decodePieces_concat)

subsection \<open>A body of the protocol\<close>

text \<open>The format as the S3 documentation gives it: hexadecimal sizes, optional extensions such as a signature, a last chunk of size 0, trailers.\<close>

fun showHex :: "nat \<Rightarrow> string" where
  "showHex n = (if n < 16 then [hexDigit n] else showHex (n div 16) @ [hexDigit (n mod 16)])"

declare showHex.simps [simp del]

definition crlf :: string where "crlf = [CR, LF]"

definition encodeChunk :: "string \<times> string \<Rightarrow> string" where
  "encodeChunk c = showHex (length (snd c)) @ fst c @ crlf @ snd c @ crlf"

definition encodeTrailer :: "string \<times> string \<Rightarrow> string" where
  "encodeTrailer t = fst t @ '':'' @ snd t @ crlf"

definition encodeBody :: "(string \<times> string) list \<Rightarrow> string \<Rightarrow> (string \<times> string) list \<Rightarrow> string" where
  "encodeBody chunks ext trailers = concat (map encodeChunk chunks) @ ''0'' @ ext @ crlf @ concat (map encodeTrailer trailers) @ crlf"

definition wellFormedExt :: "string \<Rightarrow> bool" where
  "wellFormedExt e \<longleftrightarrow> CR \<notin> set e \<and> (e = [] \<or> hd e = CHR '';'')"

definition wellFormedChunk :: "string \<times> string \<Rightarrow> bool" where
  "wellFormedChunk c \<longleftrightarrow> wellFormedExt (fst c) \<and> snd c \<noteq> []"

definition wellFormedTrailer :: "string \<times> string \<Rightarrow> bool" where
  "wellFormedTrailer t \<longleftrightarrow> fst t \<noteq> [] \<and> fst t \<noteq> ''__proto__'' \<and> list_all graphic (fst t @ snd t) \<and> CHR '':'' \<notin> set (fst t) \<and> asciiLower (fst t) = fst t"

lemma hexDigit_byte: "n < 16 \<Longrightarrow> byte (hexDigit n) = (if n < 10 then 48 + n else 55 + n)"
  by (simp add: hexDigit_def of_char_of take_bit_nat_eq_self)

lemma hexDigit_val: "n < 16 \<Longrightarrow> digitVal (hexDigit n) = n"
  by (auto simp: digitVal_def hexDigit_byte Let_def)

lemma showHex_chars: "c \<in> set (showHex n) \<Longrightarrow> baseDigit 16 c \<and> graphic c \<and> c \<noteq> CR \<and> c \<noteq> CHR '';''"
proof (induction n rule: showHex.induct)
  case (1 n)
  have digit: "baseDigit 16 (hexDigit k) \<and> graphic (hexDigit k) \<and> hexDigit k \<noteq> CR \<and> hexDigit k \<noteq> CHR '';''" if "k < 16" for k
    using hexDigit_byte [OF that] hexDigit_val [OF that] that
    by (cases "k < 10") (auto simp: baseDigit_def graphic_def Let_def)
  show ?case
    using 1 digit [of n] digit [of "n mod 16"] by (subst (asm) (2) showHex.simps) (auto split: if_splits)
qed

lemma showHex_not_Nil [simp]: "showHex n \<noteq> []"
  by (subst showHex.simps) simp

lemma baseVal_showHex: "baseVal 16 (showHex n) = n"
proof (induction n rule: showHex.induct)
  case (1 n)
  show ?case
  proof (cases "n < 16")
    case True
    then show ?thesis by (subst showHex.simps) (simp add: baseVal_def hexDigit_val)
  next
    case False
    with 1 have "baseVal 16 (showHex (n div 16)) = n div 16" by simp
    with False show ?thesis by (subst showHex.simps) (simp add: baseVal_def hexDigit_val)
  qed
qed

lemma headerSize_hex:
  assumes "wellFormedExt ext"
  shows "headerSize (utf8Text (showHex n @ ext)) = Some n"
proof -
  have ascii: "utf8Text (showHex n @ ext) = showHex n @ utf8Text ext"
    using showHex_chars [of _ n] by (intro utf8Text_ascii_append) (force simp: graphic_def)
  have no: "CHR '';'' \<notin> set (showHex n)" using showHex_chars by blast
  have "hd (jsSplit (CHR '';'') (showHex n @ utf8Text ext)) = showHex n"
  proof (cases ext)
    case Nil
    with no show ?thesis by (simp add: jsSplit_none)
  next
    case (Cons c e)
    with assms have "c = CHR '';''" by (simp add: wellFormedExt_def)
    with Cons no show ?thesis by (simp add: utf8Text_ascii jsSplit_prefix)
  qed
  moreover have "utf8Trim (showHex n) = showHex n"
    using showHex_chars [of "hd (showHex n)" n] showHex_chars [of "last (showHex n)" n] by (intro utf8Trim_graphic) simp
  moreover have "list_all (baseDigit 16) (showHex n)" using showHex_chars [of _ n] by (auto simp: list_all_iff)
  ultimately show ?thesis by (simp add: headerSize_def ascii Let_def baseVal_showHex)
qed

lemma readLine_line: "CR \<notin> set raw \<Longrightarrow> dc_buffer d = raw @ crlf @ rest \<Longrightarrow> readLine d = Some (utf8Text raw, d\<lparr>dc_buffer := rest\<rparr>)"
  by (simp add: readLine_def crlf_def cutLine_line)

text \<open>Rounds that go on, as steps of the loop.\<close>

lemma processBuffer_continues: "decodeStep flush d = (Continues, d') \<Longrightarrow> processBuffer flush d = processBuffer flush d'"
  by (subst processBuffer.simps) simp

lemma decode_chunk:
  assumes "wellFormedChunk c" and "dc_state d = HeaderState" and "dc_buffer d = encodeChunk c @ rest"
  shows "\<exists>k. processBuffer flush d = processBuffer flush (d\<lparr>dc_buffer := rest, dc_expectedChunkSize := k, dc_pushed := dc_pushed d @ snd c\<rparr>)"
proof -
  obtain ext dat where c: "c = (ext, dat)" by (cases c)
  let ?n = "length dat"
  have ext: "wellFormedExt ext" and n: "?n \<noteq> 0" using assms(1) c by (auto simp: wellFormedChunk_def)
  have "CR \<notin> set (showHex ?n @ ext)" using ext showHex_chars [of CR ?n] by (auto simp: wellFormedExt_def)
  then have "readLine d = Some (utf8Text (showHex ?n @ ext), d\<lparr>dc_buffer := dat @ crlf @ rest\<rparr>)"
    using assms(3) c by (intro readLine_line) (simp_all add: encodeChunk_def)
  then have 1: "decodeStep flush d = (Continues, d\<lparr>dc_buffer := dat @ crlf @ rest, dc_expectedChunkSize := ?n, dc_state := DataState\<rparr>)"
    using assms(2) headerSize_hex [OF ext, of ?n] n by (simp add: decodeStep_def)
  let ?d1 = "d\<lparr>dc_buffer := dat @ crlf @ rest, dc_expectedChunkSize := ?n, dc_state := DataState\<rparr>"
  let ?d2 = "d\<lparr>dc_buffer := crlf @ rest, dc_expectedChunkSize := ?n, dc_state := DataCrlfState, dc_pushed := dc_pushed d @ dat\<rparr>"
  let ?d3 = "d\<lparr>dc_buffer := rest, dc_expectedChunkSize := ?n, dc_pushed := dc_pushed d @ dat\<rparr>"
  have 2: "decodeStep flush ?d1 = (Continues, ?d2)" by (simp add: decodeStep_def)
  have 3: "decodeStep flush ?d2 = (Continues, ?d3)" using assms(2) by (simp add: decodeStep_def crlf_def)
  from processBuffer_continues [OF 1] processBuffer_continues [OF 2] processBuffer_continues [OF 3] c show ?thesis by auto
qed

lemma decode_chunks:
  assumes "list_all wellFormedChunk cs" and "dc_state d = HeaderState" and "dc_buffer d = concat (map encodeChunk cs) @ rest"
  shows "\<exists>k. processBuffer flush d =
    processBuffer flush (d\<lparr>dc_buffer := rest, dc_expectedChunkSize := k, dc_pushed := dc_pushed d @ concat (map snd cs)\<rparr>)"
  using assms
proof (induction cs arbitrary: d)
  case Nil
  then have "d = d\<lparr>dc_buffer := rest, dc_expectedChunkSize := dc_expectedChunkSize d, dc_pushed := dc_pushed d @ concat (map snd [])\<rparr>"
    by simp
  then show ?case by metis
next
  case (Cons c cs)
  from decode_chunk [of c d "concat (map encodeChunk cs) @ rest" flush] Cons.prems obtain k where
    k: "processBuffer flush d = processBuffer flush (d\<lparr>dc_buffer := concat (map encodeChunk cs) @ rest, dc_expectedChunkSize := k,
      dc_pushed := dc_pushed d @ snd c\<rparr>)" by auto
  from Cons.IH [of "d\<lparr>dc_buffer := concat (map encodeChunk cs) @ rest, dc_expectedChunkSize := k, dc_pushed := dc_pushed d @ snd c\<rparr>"]
    Cons.prems k show ?case by simp
qed

lemma decode_trailers:
  assumes "list_all wellFormedTrailer ts" and "distinct (map fst (dc_trailers d @ ts))" and "dc_state d = TrailersState"
    and "dc_buffer d = concat (map encodeTrailer ts) @ crlf"
  shows "\<exists>d'. processBuffer flush d = (Inr (), d') \<and> dc_state d' = DoneState \<and> dc_pushed d' = dc_pushed d \<and>
    dc_trailers d' = dc_trailers d @ ts"
  using assms
proof (induction ts arbitrary: d)
  case Nil
  have "readLine d = Some (utf8Text [], d\<lparr>dc_buffer := []\<rparr>)"
    using Nil.prems(4) by (intro readLine_line) simp_all
  then have "decodeStep flush d = (Continues, d\<lparr>dc_buffer := [], dc_state := DoneState\<rparr>)"
    using Nil.prems(3) by (simp add: decodeStep_def)
  then have "processBuffer flush d = (Inr (), d\<lparr>dc_buffer := [], dc_state := DoneState\<rparr>)"
    by (subst processBuffer_continues, assumption) (subst processBuffer.simps, simp add: decodeStep_def)
  then show ?case by simp
next
  case (Cons t ts)
  obtain name v where t: "t = (name, v)" by (cases t)
  have wf: "name \<noteq> []" "name \<noteq> ''__proto__''" "\<And>c. c \<in> set name \<union> set v \<Longrightarrow> graphic c" "CHR '':'' \<notin> set name" "asciiLower name = name"
    using Cons.prems(1) t by (auto simp: wellFormedTrailer_def list_all_iff)
  have ascii: "byte c < 128 \<and> c \<noteq> CR" if "c \<in> set (name @ '':'' @ v)" for c
    using that wf(3) [of c] by (auto simp: graphic_def)
  then have asText: "utf8Text (name @ '':'' @ v) = name @ '':'' @ v"
    using utf8Text_ascii_append [of "name @ '':'' @ v" "[]"] by simp
  have "readLine d = Some (utf8Text (name @ '':'' @ v), d\<lparr>dc_buffer := concat (map encodeTrailer ts) @ crlf\<rparr>)"
  proof (rule readLine_line)
    show "CR \<notin> set (name @ '':'' @ v)" using ascii by blast
    show "dc_buffer d = (name @ '':'' @ v) @ crlf @ concat (map encodeTrailer ts) @ crlf"
      using Cons.prems(4) by (simp add: t encodeTrailer_def [of t, unfolded t])
  qed
  moreover have "jsCut (CHR '':'') (name @ CHR '':'' # v) = Some (name, v)" using wf(4) by (rule jsCut_append)
  moreover have "utf8Trim name = name" "utf8Trim v = v"
    using wf(3) by (auto intro!: utf8Trim_graphic)
  moreover have "setTrailer name v (dc_trailers d) = dc_trailers d @ [t]"
    using Cons.prems(2) t wf(2) by (auto simp: setTrailer_def)
  ultimately have "decodeStep flush d = (Continues, d\<lparr>dc_buffer := concat (map encodeTrailer ts) @ crlf, dc_trailers := dc_trailers d @ [t]\<rparr>)"
    using Cons.prems(3) asText wf(5) by (simp add: decodeStep_def)
  from processBuffer_continues [OF this] Cons.IH [of "d\<lparr>dc_buffer := concat (map encodeTrailer ts) @ crlf, dc_trailers := dc_trailers d @ [t]\<rparr>"]
    Cons.prems show ?case by simp
qed

text \<open>
  C12. Round trip: a body that follows the protocol, cut into pieces anyhow, decodes to exactly the data of its chunks
  and its trailers, without an error.
\<close>
theorem decode_encode:
  assumes "concat pieces = encodeBody chunks ext trailers" and "list_all wellFormedChunk chunks" and "wellFormedExt ext"
    and "list_all wellFormedTrailer trailers" and "distinct (map fst trailers)"
  shows "decoded (decodePieces pieces newDecoder) = (None, concat (map snd chunks), trailers)"
proof -
  let ?tail = "''0'' @ ext @ crlf @ concat (map encodeTrailer trailers) @ crlf"
  let ?d0 = "newDecoder\<lparr>dc_buffer := concat pieces\<rparr>"
  from decode_chunks [of chunks ?d0 ?tail False] assms(1,2) obtain k where
    k: "processBuffer False ?d0 = processBuffer False (newDecoder\<lparr>dc_buffer := ?tail, dc_expectedChunkSize := k, dc_pushed := concat (map snd chunks)\<rparr>)"
    by (auto simp: newDecoder_def encodeBody_def)
  let ?d1 = "newDecoder\<lparr>dc_buffer := ?tail, dc_expectedChunkSize := k, dc_pushed := concat (map snd chunks)\<rparr>"
  let ?d2 = "newDecoder\<lparr>dc_buffer := concat (map encodeTrailer trailers) @ crlf, dc_expectedChunkSize := 0, dc_state := TrailersState,
    dc_pushed := concat (map snd chunks)\<rparr>"
  have zero: "showHex 0 = ''0''" by code_simp
  have "readLine ?d1 = Some (utf8Text (''0'' @ ext), ?d1\<lparr>dc_buffer := concat (map encodeTrailer trailers) @ crlf\<rparr>)"
    using assms(3) by (intro readLine_line) (auto simp: wellFormedExt_def)
  then have "decodeStep False ?d1 = (Continues, ?d2)"
    using headerSize_hex [OF assms(3), of 0] by (simp add: decodeStep_def newDecoder_def zero)
  note step = processBuffer_continues [OF this]
  from decode_trailers [of trailers ?d2 False] assms(4,5) obtain d' where d': "processBuffer False ?d2 = (Inr (), d')"
    "dc_state d' = DoneState" "dc_pushed d' = concat (map snd chunks)" "dc_trailers d' = trailers" by (auto simp: newDecoder_def)
  have fl: "flushDecoder d' = (Inr (), d')"
    using d'(2) by (simp add: flushDecoder_def) (subst processBuffer.simps, simp add: decodeStep_def)
  have "decodePieces [concat pieces] newDecoder = (Inr (), d')"
    using k step d'(1) fl by (simp add: transform_def newDecoder_def)
  with d' have "decoded (decodePieces [concat pieces] newDecoder) = (None, concat (map snd chunks), trailers)"
    by (simp add: decoded_def)
  then show ?thesis by (simp only: decodePieces_concat [of pieces])
qed

theorem decode_encode_witness:
  "\<exists>pieces. length pieces = 3 \<and> decoded (decodePieces pieces newDecoder) = (None, ''hello world'', [(''x-amz-checksum-crc32'', ''AAAA'')])"
proof -
  let ?cs = "[('';chunk-signature=ab'', ''hello ''), ([], ''world'')]" and ?ts = "[(''x-amz-checksum-crc32'', ''AAAA'')]"
  let ?body = "encodeBody ?cs [] ?ts"
  let ?ps = "[take 2 ?body, take 9 (drop 2 ?body), drop 11 ?body]"
  have "concat ?ps = ?body" by (simp add: append_assoc [symmetric] take_add [symmetric] del: append_assoc)
  moreover have "list_all wellFormedChunk ?cs" "list_all wellFormedTrailer ?ts" by code_simp+
  ultimately have "decoded (decodePieces ?ps newDecoder) = (None, concat (map snd ?cs), ?ts)"
    using decode_encode [of ?ps ?cs "[]" ?ts] by (simp add: wellFormedExt_def)
  then show ?thesis by (intro exI [of _ ?ps]) simp
qed

end
