(* ===== verification/ListPages.thy ===== *)
theory ListPages
  imports "HOL-Library.List_Lexorder" "HOL-Library.Char_ord" Utf8 Schema
begin

section \<open>Pages of an S3 listing\<close>

text \<open>
  backend/src/s3/s3-list-pagination.util.ts and the listing handlers of s3.controller.ts and s3-public.controller.ts,
  which have the same text: base64 continuation tokens, \<^verbatim>\<open>max-keys\<close>, the exclusive cursor, and the pages a client gets
  that follows the tokens (list type 2) or the markers (list type 1). Keys are compared by their bytes, the order that
  \<^verbatim>\<open>List_Lexorder\<close> and \<^verbatim>\<open>Char_ord\<close> give to strings.
\<close>

subsection \<open>Tokens, page sizes and cursors\<close>

definition MAX_CONTINUATION_KEY_LENGTH :: nat where "MAX_CONTINUATION_KEY_LENGTH = 1024"
definition MAX_RAW_CONTINUATION_TOKEN_LENGTH :: nat where "MAX_RAW_CONTINUATION_TOKEN_LENGTH = 2048"

definition invalidArgument :: backend_error where
  "invalidArgument = PlainError ''InvalidArgument''"

definition encodeContinuationToken :: "string \<Rightarrow> string" where
  "encodeContinuationToken key = base64Encode key"

definition base64Shape :: "string \<Rightarrow> bool" where
  "base64Shape token \<longleftrightarrow> takeWhile isB64Char token \<noteq> [] \<and> dropWhile isB64Char token \<in> {[], ''='', ''==''}"

definition decodeContinuationToken :: "string \<Rightarrow> backend_error + string" where
  "decodeContinuationToken token =
     (if token = [] \<or> utf16Length token > MAX_RAW_CONTINUATION_TOKEN_LENGTH then Inl invalidArgument
      else if \<not> base64Shape token then Inl invalidArgument
      else let decoded = utf8Text (base64Decode token) in
        if decoded = [] \<or> utf16Length decoded > MAX_CONTINUATION_KEY_LENGTH then Inl invalidArgument
        else if CHR 0x00 \<in> set decoded \<or> jsIncludes replacement decoded then Inl invalidArgument
        else Inr decoded)"

text \<open>\<open>Number.parseInt\<close> of 1024 bits and more is infinite.\<close>

definition parseMaxKeys :: "string \<Rightarrow> int option" where
  "parseMaxKeys raw = (if raw = [] then Some 1000 else
     let digits = utf8Trim raw in
     if digits = [] \<or> \<not> list_all jsDigit digits then None
     else let parsed = baseVal 10 digits in
       if parsed \<ge> 2 ^ 1024 - 2 ^ 970 then None else Some (min (int parsed) 1000))"

definition resolveListStartAfter :: "string \<Rightarrow> string \<Rightarrow> backend_error + string option" where
  "resolveListStartAfter continuationToken startAfterParam =
     (if continuationToken \<noteq> [] then map_sum id Some (decodeContinuationToken continuationToken)
      else if startAfterParam \<noteq> [] then
        (if utf16Length startAfterParam > MAX_CONTINUATION_KEY_LENGTH then Inl invalidArgument else Inr (Some startAfterParam))
      else Inr None)"

subsection \<open>One page\<close>

record s3_object =
  so_key :: string
  so_size :: int
  so_lastModified :: int
  so_etag :: string

record s3_page =
  pg_objects :: "s3_object list"
  pg_commonPrefixes :: "string list"
  pg_isTruncated :: bool
  pg_nextContinuationToken :: "string option"

type_synonym list_entry = "string \<times> s3_object option"

definition compareKeysByteOrder :: "string \<Rightarrow> string \<Rightarrow> int" where
  "compareKeysByteOrder a b = (if a < b then -1 else if a = b then 0 else 1)"

text \<open>\<^verbatim>\<open>Array.sort\<close> with the byte order is stable, and so is \<open>sort_key\<close>.\<close>

definition sortedEntries :: "s3_object list \<Rightarrow> string list \<Rightarrow> list_entry list" where
  "sortedEntries objs prefixes = sort_key fst (map (\<lambda>x. (so_key x, Some x)) objs @ map (\<lambda>k. (k, None)) prefixes)"

definition pageLimit :: "js_num \<Rightarrow> nat" where
  "pageLimit maxKeys = (case maxKeys of JsFin q \<Rightarrow> if q > 0 then nat \<lfloor>q\<rfloor> else 0 | _ \<Rightarrow> 0)"

definition pageObjects :: "list_entry list \<Rightarrow> s3_object list" where
  "pageObjects es = map (the \<circ> snd) (filter (\<lambda>e. snd e \<noteq> None) es)"

definition pagePrefixes :: "list_entry list \<Rightarrow> string list" where
  "pagePrefixes es = map fst (filter (\<lambda>e. snd e = None) es)"

definition buildListPage :: "s3_object list \<Rightarrow> string list \<Rightarrow> js_num \<Rightarrow> string option \<Rightarrow> s3_page" where
  "buildListPage objs prefixes maxKeys startAfter =
    (let entries = sortedEntries objs prefixes;
         remaining = (if present startAfter then filter (\<lambda>e. compareKeysByteOrder (fst e) (the startAfter) > 0) entries else entries);
         limit = pageLimit maxKeys;
         page = take limit remaining;
         isTruncated = (page \<noteq> [] \<and> length page < length remaining) in
     \<lparr>pg_objects = pageObjects page, pg_commonPrefixes = pagePrefixes page, pg_isTruncated = isTruncated,
      pg_nextContinuationToken = (if isTruncated then Some (encodeContinuationToken (fst (last page))) else None)\<rparr>)"

subsection \<open>The handlers\<close>

record list_query =
  lsq_listType :: string
  lsq_marker :: string
  lsq_continuationToken :: string
  lsq_startAfter :: string
  lsq_maxKeys :: string

text \<open>
  The answer holds the page and the cursor that the XML shows: \<^verbatim>\<open>NextContinuationToken\<close>, or \<^verbatim>\<open>NextMarker\<close> for list type 1.
  \<open>listing\<close> is the result of the service, before the page is cut.
\<close>

definition listResponse :: "backend_error + (s3_object list \<times> string list) \<Rightarrow> list_query \<Rightarrow> backend_error + (s3_page \<times> string option)" where
  "listResponse listing q = (let v2 = (lsq_listType q = ''2'') in
     case parseMaxKeys (lsq_maxKeys q) of None \<Rightarrow> Inl invalidArgument
     | Some maxKeys \<Rightarrow>
       (case resolveListStartAfter (if v2 then lsq_continuationToken q else []) (if v2 then lsq_startAfter q else lsq_marker q) of
          Inl _ \<Rightarrow> Inl invalidArgument
        | Inr startAfter \<Rightarrow>
          (case listing of Inl e \<Rightarrow> Inl e
           | Inr (objs, prefixes) \<Rightarrow>
              (let page = buildListPage objs prefixes (JsFin (of_int maxKeys)) startAfter in
               if v2 then Inr (page, pg_nextContinuationToken page)
               else (case pg_nextContinuationToken page of None \<Rightarrow> Inr (page, None)
                 | Some tok \<Rightarrow> map_sum id (\<lambda>k. (page, Some k)) (decodeContinuationToken tok))))))"

text \<open>A client that asks with the cursor of the last answer until an answer has none.\<close>

fun drainPages :: "nat \<Rightarrow> ('c \<Rightarrow> ('p \<times> 'c option) option) \<Rightarrow> 'c \<Rightarrow> 'p list option" where
  "drainPages 0 fetch c = None"
| "drainPages (Suc n) fetch c = (case fetch c of None \<Rightarrow> None | Some (p, next) \<Rightarrow>
     (case next of None \<Rightarrow> Some [p] | Some c' \<Rightarrow> map_option (Cons p) (drainPages n fetch c')))"

definition withCursor :: "string option \<Rightarrow> list_query \<Rightarrow> list_query" where
  "withCursor c q = (case c of None \<Rightarrow> q
     | Some k \<Rightarrow> if lsq_listType q = ''2'' then q\<lparr>lsq_continuationToken := k\<rparr> else q\<lparr>lsq_marker := k\<rparr>)"

definition fetchList :: "s3_object list \<times> string list \<Rightarrow> list_query \<Rightarrow> string option \<Rightarrow> (s3_page \<times> string option option) option" where
  "fetchList listing q c = (case listResponse (Inr listing) (withCursor c q) of
     Inl _ \<Rightarrow> None | Inr (page, next) \<Rightarrow> Some (page, map_option Some next))"

subsection \<open>A listing that is read page by page\<close>

locale paged_listing =
  fixes ok :: "'q \<Rightarrow> bool"
    and items :: "'q \<Rightarrow> 'e list"
    and limit :: "'q \<Rightarrow> nat"
    and fetch :: "'q \<Rightarrow> 'c \<Rightarrow> ('p \<times> 'c option) option"
    and view :: "'q \<Rightarrow> 'e list \<Rightarrow> 'p \<Rightarrow> bool"
    and reached :: "'q \<Rightarrow> 'c \<Rightarrow> nat \<Rightarrow> bool"
  assumes limit_pos: "ok q \<Longrightarrow> 0 < limit q"
    and fetch_at: "ok q \<Longrightarrow> reached q c i \<Longrightarrow> i \<le> length (items q) \<Longrightarrow> \<exists>p next. fetch q c = Some (p, next) \<and>
      view q (take (limit q) (drop i (items q))) p \<and>
      (case next of None \<Rightarrow> length (items q) \<le> i + limit q | Some c' \<Rightarrow> i + limit q < length (items q) \<and> reached q c' (i + limit q))"
begin

lemma drain_from:
  "ok q \<Longrightarrow> reached q c i \<Longrightarrow> i \<le> length (items q) \<Longrightarrow> length (items q) - i < n \<Longrightarrow>
   \<exists>ps pieces. drainPages n (fetch q) c = Some ps \<and> list_all2 (view q) pieces ps \<and> concat pieces = drop i (items q)"
proof (induction n arbitrary: c i)
  case 0
  then show ?case by simp
next
  case (Suc n)
  from fetch_at [OF Suc.prems(1-3)] obtain p nxt where p: "fetch q c = Some (p, nxt)"
    "view q (take (limit q) (drop i (items q))) p"
    "case nxt of None \<Rightarrow> length (items q) \<le> i + limit q | Some c' \<Rightarrow> i + limit q < length (items q) \<and> reached q c' (i + limit q)" by blast
  show ?case
  proof (cases nxt)
    case None
    with p show ?thesis by (intro exI [of _ "[p]"] exI [of _ "[take (limit q) (drop i (items q))]"]) simp
  next
    case (Some c')
    with p Suc.prems limit_pos [OF Suc.prems(1)] Suc.IH [of c' "i + limit q"] obtain ps pieces where
      "drainPages n (fetch q) c' = Some ps" "list_all2 (view q) pieces ps" "concat pieces = drop (i + limit q) (items q)" by fastforce
    with p Some show ?thesis
      by (intro exI [of _ "p # ps"] exI [of _ "take (limit q) (drop i (items q)) # pieces"])
        (simp add: add.commute [of i] drop_drop [symmetric] del: drop_drop)
  qed
qed

lemmas drain_all = drain_from [where i = 0, simplified]

end

subsection \<open>Tokens of keys\<close>

text \<open>The keys whose token the server accepts when it comes back.\<close>

definition pageableKey :: "string \<Rightarrow> bool" where
  "pageableKey k \<longleftrightarrow> k \<noteq> [] \<and> utf16Length k \<le> MAX_CONTINUATION_KEY_LENGTH \<and> length k \<le> 1536 \<and>
     CHR 0x00 \<notin> set k \<and> \<not> jsIncludes replacement k"

lemma utf16Length_ascii: "(\<And>c. c \<in> set s \<Longrightarrow> byte c < 128) \<Longrightarrow> utf16Length s = length s"
proof -
  assume ascii: "\<And>c. c \<in> set s \<Longrightarrow> byte c < 128"
  then have "filter (\<lambda>c. byte c < 128 \<or> 192 \<le> byte c) s = s" "filter (\<lambda>c. 240 \<le> byte c) s = []"
    by (auto simp: filter_id_conv filter_empty_conv not_le dest!: ascii)
  then show ?thesis by (simp add: utf16Length_def)
qed

lemma base64_shape: "s \<noteq> [] \<Longrightarrow> base64Shape (base64Encode s)"
proof -
  assume s: "s \<noteq> []"
  then have "length (b64Sextets (map byte s)) \<noteq> 0" by (simp add: length_b64Sextets)
  then have ne: "takeWhile isB64Char (base64Encode s) \<noteq> []" by (simp add: base64_takeWhile)
  have "takeWhile isB64Char (base64Encode s) @ dropWhile isB64Char (base64Encode s) = base64Encode s" by simp
  then have "dropWhile isB64Char (base64Encode s) = replicate ((3 - length s mod 3) mod 3) (CHR ''='')"
    unfolding base64_takeWhile by (simp add: base64Encode_def Let_def)
  moreover have "(3 - length s mod 3) mod 3 \<in> {0, 1, 2}" by auto
  ultimately show ?thesis using ne by (auto simp: base64Shape_def numeral_2_eq_2)
qed

lemma base64_ascii: "c \<in> set (base64Encode s) \<Longrightarrow> byte c < 128"
  using b64Sextets_small [OF bytes_small] b64Char_value by (auto simp: base64Encode_def Let_def)

lemma token_of_key:
  assumes "validUtf8 k"
  shows "decodeContinuationToken (encodeContinuationToken k) = (if pageableKey k then Inr k else Inl invalidArgument)"
proof (cases "k = []")
  case True
  then show ?thesis by (simp add: encodeContinuationToken_def decodeContinuationToken_def base64Encode_def pageableKey_def)
next
  case False
  have len: "utf16Length (base64Encode k) = 4 * ((length k + 2) div 3)"
    using utf16Length_ascii [of "base64Encode k"] base64_ascii by (simp add: length_base64Encode)
  have "0 < length k" using False by simp
  then have "0 < 4 * ((length k + 2) div 3)" by presburger
  then have ne: "base64Encode k \<noteq> []" using length_base64Encode [of k] by auto
  have "4 * ((length k + 2) div 3) > 2048 \<longleftrightarrow> \<not> length k \<le> 1536" by presburger
  then show ?thesis
    using False len ne base64_shape [OF False] utf8Text_valid [OF assms]
    by (auto simp: encodeContinuationToken_def decodeContinuationToken_def base64_decode_encode pageableKey_def
        MAX_RAW_CONTINUATION_TOKEN_LENGTH_def Let_def)
qed

subsection \<open>The pages of a listing\<close>

lemma sort_key_map: "sort_key f (map g xs) = map g (sort_key (\<lambda>x. f (g x)) xs)"
proof (induction xs)
  case (Cons x xs)
  have "insort_key f (g x) (map g ys) = map g (insort_key (\<lambda>x. f (g x)) x ys)" for ys by (induction ys) auto
  with Cons show ?case by simp
qed simp

lemma sortedEntries_objects: "pageObjects (sortedEntries objs prefixes) = sort_key so_key objs"
  by (simp add: pageObjects_def sortedEntries_def filter_sort filter_map comp_def sort_key_map)

lemma sortedEntries_prefixes: "pagePrefixes (sortedEntries objs prefixes) = sort prefixes"
  by (simp add: pagePrefixes_def sortedEntries_def filter_sort filter_map comp_def sort_key_map id_def)

lemma pageObjects_append: "pageObjects (xs @ ys) = pageObjects xs @ pageObjects ys"
  by (simp add: pageObjects_def)

lemma pagePrefixes_append: "pagePrefixes (xs @ ys) = pagePrefixes xs @ pagePrefixes ys"
  by (simp add: pagePrefixes_def)

definition entryKeys :: "s3_object list \<times> string list \<Rightarrow> string list" where
  "entryKeys l = map so_key (fst l) @ snd l"

lemma sortedEntries_keys: "map fst (sortedEntries objs prefixes) = sort (entryKeys (objs, prefixes))"
  using sort_key_map [of id fst "map (\<lambda>x. (so_key x, Some x)) objs @ map (\<lambda>k. (k, None)) prefixes"]
  by (simp add: sortedEntries_def entryKeys_def comp_def id_def)

lemma after_key:
  assumes "sorted (map f xs)" and "distinct (map f xs)" and "0 < i" and "i \<le> length xs"
  shows "filter (\<lambda>e. f (xs ! (i - 1)) < f e) xs = drop i xs"
proof -
  let ?k = "f (xs ! (i - 1))"
  have strict: "j < m \<Longrightarrow> m < length xs \<Longrightarrow> f (xs ! j) < f (xs ! m)" for j m
    using sorted_nth_mono [OF assms(1), of j m] nth_eq_iff_index_eq [OF assms(2), of j m] by (simp add: less_le)
  have "\<not> ?k < f e" if "e \<in> set (take i xs)" for e
  proof -
    from that obtain j where "j < i" "e = xs ! j" using assms(4) by (auto simp: in_set_conv_nth)
    then show ?thesis using strict [of j "i - 1"] assms(3,4) by (cases "j = i - 1") (auto simp: not_less less_imp_le)
  qed
  moreover have "?k < f e" if "e \<in> set (drop i xs)" for e
  proof -
    from that obtain j where "j < length xs - i" "e = xs ! (i + j)" by (auto simp: in_set_conv_nth)
    then show ?thesis using strict [of "i - 1" "i + j"] assms(3) by simp
  qed
  ultimately have "filter (\<lambda>e. ?k < f e) (take i xs @ drop i xs) = drop i xs"
    by (simp only: filter_append) (simp add: filter_id_conv filter_empty_conv)
  then show ?thesis by simp
qed

record list_case =
  lsc_listing :: "s3_object list \<times> string list"
  lsc_query :: list_query

definition caseItems :: "list_case \<Rightarrow> list_entry list" where
  "caseItems q = sortedEntries (fst (lsc_listing q)) (snd (lsc_listing q))"

definition caseLimit :: "list_case \<Rightarrow> nat" where
  "caseLimit q = nat (the (parseMaxKeys (lsq_maxKeys (lsc_query q))))"

definition caseOk :: "list_case \<Rightarrow> bool" where
  "caseOk q \<longleftrightarrow> distinct (entryKeys (lsc_listing q)) \<and> list_all (\<lambda>k. validUtf8 k \<and> pageableKey k) (entryKeys (lsc_listing q)) \<and>
     (\<exists>n. parseMaxKeys (lsq_maxKeys (lsc_query q)) = Some n \<and> 0 < n) \<and>
     lsq_marker (lsc_query q) = [] \<and> lsq_continuationToken (lsc_query q) = [] \<and> lsq_startAfter (lsc_query q) = []"

definition cursorText :: "list_query \<Rightarrow> string \<Rightarrow> string" where
  "cursorText q k = (if lsq_listType q = ''2'' then encodeContinuationToken k else k)"

definition caseReached :: "list_case \<Rightarrow> string option \<Rightarrow> nat \<Rightarrow> bool" where
  "caseReached q c i \<longleftrightarrow> c = None \<and> i = 0 \<or> 0 < i \<and> i < length (caseItems q) \<and> c = Some (cursorText (lsc_query q) (fst (caseItems q ! (i - 1))))"

definition viewPage :: "list_entry list \<Rightarrow> s3_page \<Rightarrow> bool" where
  "viewPage es p \<longleftrightarrow> pg_objects p = pageObjects es \<and> pg_commonPrefixes p = pagePrefixes es"

lemma caseItems_key: "caseOk q \<Longrightarrow> i < length (caseItems q) \<Longrightarrow> validUtf8 (fst (caseItems q ! i)) \<and> pageableKey (fst (caseItems q ! i))"
proof -
  assume "caseOk q" "i < length (caseItems q)"
  moreover have "set (map fst (caseItems q)) = set (entryKeys (lsc_listing q))"
    unfolding caseItems_def sortedEntries_keys by simp
  moreover have "fst (caseItems q ! i) \<in> set (map fst (caseItems q))" using \<open>i < length (caseItems q)\<close> by simp
  ultimately show ?thesis by (simp add: caseOk_def list_all_iff)
qed

text \<open>The key that the server reads out of the cursor it gave.\<close>

lemma resume_key:
  assumes "caseOk q" and "caseReached q c i"
  shows "resolveListStartAfter (if lsq_listType (lsc_query q) = ''2'' then lsq_continuationToken (withCursor c (lsc_query q)) else [])
      (if lsq_listType (lsc_query q) = ''2'' then lsq_startAfter (withCursor c (lsc_query q)) else lsq_marker (withCursor c (lsc_query q))) =
    Inr (if i = 0 then None else Some (fst (caseItems q ! (i - 1))))"
proof (cases "i = 0")
  case True
  with assms show ?thesis by (simp add: caseReached_def withCursor_def caseOk_def resolveListStartAfter_def)
next
  case False
  let ?k = "fst (caseItems q ! (i - 1))"
  have k: "validUtf8 ?k" "pageableKey ?k" using caseItems_key [OF assms(1), of "i - 1"] assms(2) False by (auto simp: caseReached_def)
  have c: "c = Some (cursorText (lsc_query q) ?k)" using assms(2) False by (simp add: caseReached_def)
  have "encodeContinuationToken ?k \<noteq> []"
    using token_of_key [OF k(1)] k(2) by (auto simp: decodeContinuationToken_def)
  with k c False token_of_key [OF k(1)] show ?thesis
    by (auto simp: withCursor_def cursorText_def resolveListStartAfter_def pageableKey_def)
qed

lemma pageLimit_int: "pageLimit (JsFin (of_int n)) = nat n"
  by (simp add: pageLimit_def)

lemma fetch_case:
  assumes "caseOk q" and "caseReached q c i" and "i \<le> length (caseItems q)"
  shows "\<exists>p next. fetchList (lsc_listing q) (lsc_query q) c = Some (p, next) \<and> viewPage (take (caseLimit q) (drop i (caseItems q))) p \<and>
    (case next of None \<Rightarrow> length (caseItems q) \<le> i + caseLimit q
     | Some c' \<Rightarrow> i + caseLimit q < length (caseItems q) \<and> caseReached q c' (i + caseLimit q))"
proof -
  obtain objs prefixes where l: "lsc_listing q = (objs, prefixes)" by (cases "lsc_listing q")
  obtain n where n: "parseMaxKeys (lsq_maxKeys (lsc_query q)) = Some n" "0 < n" using assms(1) by (auto simp: caseOk_def)
  let ?lim = "nat n" and ?start = "if i = 0 then None else Some (fst (caseItems q ! (i - 1)))"
  let ?items = "caseItems q"
  have lim: "caseLimit q = ?lim" using n by (simp add: caseLimit_def)
  have sorted: "sorted (map fst ?items)" "distinct (map fst ?items)"
    using sortedEntries_keys [of objs prefixes] assms(1) l by (simp_all add: caseItems_def caseOk_def)
  have rest: "(if present ?start then filter (\<lambda>e. compareKeysByteOrder (fst e) (the ?start) > 0) ?items else ?items) = drop i ?items"
  proof (cases "i = 0")
    case False
    then have "pageableKey (fst (?items ! (i - 1)))" using caseItems_key [OF assms(1), of "i - 1"] assms(3) by simp
    then have "fst (?items ! (i - 1)) \<noteq> []" by (simp add: pageableKey_def)
    moreover have "compareKeysByteOrder a b > 0 \<longleftrightarrow> b < a" for a b by (auto simp: compareKeysByteOrder_def)
    ultimately show ?thesis using after_key [OF sorted, of i] False assms(3) by (simp add: present_def)
  qed (simp add: present_def)
  have items: "sortedEntries objs prefixes = ?items" using l by (simp add: caseItems_def)
  let ?page = "take ?lim (drop i ?items)" and ?trunc = "i + ?lim < length ?items"
  have trunc: "(?page \<noteq> [] \<and> length ?page < length (drop i ?items)) = ?trunc" using n(2) by auto
  have lastKey: "?trunc \<Longrightarrow> last ?page = ?items ! (i + ?lim - 1)" using n(2) by (subst last_conv_nth) auto
  have page: "buildListPage objs prefixes (JsFin (of_int n)) ?start =
     \<lparr>pg_objects = pageObjects ?page, pg_commonPrefixes = pagePrefixes ?page, pg_isTruncated = ?trunc,
      pg_nextContinuationToken = (if ?trunc then Some (encodeContinuationToken (fst (?items ! (i + ?lim - 1)))) else None)\<rparr>"
    unfolding buildListPage_def Let_def pageLimit_int items rest trunc using lastKey by (cases ?trunc) simp_all
  have tok: "?trunc \<Longrightarrow> decodeContinuationToken (encodeContinuationToken (fst (?items ! (i + ?lim - 1)))) = Inr (fst (?items ! (i + ?lim - 1)))"
    using caseItems_key [OF assms(1), of "i + ?lim - 1"] token_of_key by simp
  have same: "lsq_listType (withCursor c (lsc_query q)) = lsq_listType (lsc_query q)" "lsq_maxKeys (withCursor c (lsc_query q)) = lsq_maxKeys (lsc_query q)"
    by (simp_all add: withCursor_def split: option.split)
  have "fetchList (lsc_listing q) (lsc_query q) c = Some (buildListPage objs prefixes (JsFin (of_int n)) ?start,
      if ?trunc then Some (Some (cursorText (lsc_query q) (fst (?items ! (i + ?lim - 1))))) else None)"
    unfolding fetchList_def listResponse_def same resume_key [OF assms(1,2)] Let_def
    using n l page tok by (simp add: cursorText_def)
  with page lim n(2) show ?thesis by (auto simp: viewPage_def caseReached_def)
qed

interpretation s3pages: paged_listing caseOk caseItems caseLimit "\<lambda>q. fetchList (lsc_listing q) (lsc_query q)" "\<lambda>q. viewPage" caseReached
proof unfold_locales
  fix q
  assume "caseOk q"
  then show "0 < caseLimit q" by (auto simp: caseOk_def caseLimit_def)
qed (rule fetch_case)

lemma view_pieces: "list_all2 viewPage pieces ps \<Longrightarrow>
  concat (map pg_objects ps) = pageObjects (concat pieces) \<and> concat (map pg_commonPrefixes ps) = pagePrefixes (concat pieces)"
  by (induction rule: list_all2_induct) (simp_all add: viewPage_def pageObjects_append pagePrefixes_append pageObjects_def pagePrefixes_def)

text \<open>
  C13. A client that follows the cursors of an S3 listing, the tokens of list type 2 or the markers of type 1, gets every
  object and every common prefix exactly once, in byte order, when the keys are distinct and no longer than tokens may be.
\<close>
theorem listing_pages_complete:
  assumes "distinct (entryKeys (objs, prefixes))" and "\<forall>k \<in> set (entryKeys (objs, prefixes)). validUtf8 k \<and> pageableKey k"
    and "parseMaxKeys raw = Some n" and "0 < n"
  shows "\<exists>ps. drainPages (Suc (length objs + length prefixes))
      (fetchList (objs, prefixes) \<lparr>lsq_listType = v, lsq_marker = [], lsq_continuationToken = [], lsq_startAfter = [], lsq_maxKeys = raw\<rparr>) None = Some ps \<and>
    concat (map pg_objects ps) = sort_key so_key objs \<and> concat (map pg_commonPrefixes ps) = sort prefixes"
proof -
  let ?q = "\<lparr>lsc_listing = (objs, prefixes), lsc_query = \<lparr>lsq_listType = v, lsq_marker = [], lsq_continuationToken = [], lsq_startAfter = [], lsq_maxKeys = raw\<rparr>\<rparr>"
  have "caseOk ?q" using assms by (simp add: caseOk_def list_all_iff)
  moreover have "caseReached ?q None 0" by (simp add: caseReached_def)
  moreover have "length (caseItems ?q) < Suc (length objs + length prefixes)" by (simp add: caseItems_def sortedEntries_def)
  ultimately obtain ps pieces where "drainPages (Suc (length objs + length prefixes)) (fetchList (objs, prefixes) (lsc_query ?q)) None = Some ps"
    "list_all2 viewPage pieces ps" "concat pieces = caseItems ?q"
    using s3pages.drain_all [of ?q None] by fastforce
  with view_pieces [of pieces ps] show ?thesis
    by (auto simp: caseItems_def sortedEntries_objects sortedEntries_prefixes)
qed

definition pagesDemo :: "s3_object list" where
  "pagesDemo = map (\<lambda>k. \<lparr>so_key = k, so_size = 1, so_lastModified = 0, so_etag = ''e''\<rparr>) [''b'', ''a/z'', ''B'']"

theorem listing_pages_complete_witness:
  "\<exists>ps. drainPages 6 (fetchList (pagesDemo, [''a/'', ''c/''])
      \<lparr>lsq_listType = ''2'', lsq_marker = [], lsq_continuationToken = [], lsq_startAfter = [], lsq_maxKeys = ''2''\<rparr>) None = Some ps \<and>
    map so_key (concat (map pg_objects ps)) = [''B'', ''a/z'', ''b''] \<and> concat (map pg_commonPrefixes ps) = [''a/'', ''c/'']"
proof -
  have 1: "distinct (entryKeys (pagesDemo, [''a/'', ''c/'']))" by code_simp
  have 2: "list_all (\<lambda>k. validUtf8 k \<and> pageableKey k) (entryKeys (pagesDemo, [''a/'', ''c/'']))" by code_simp
  have 3: "parseMaxKeys ''2'' = Some 2"
    by (simp add: parseMaxKeys_def utf8Trim_graphic graphic_def jsDigit_def baseVal_def digitVal_def)
  from listing_pages_complete [OF 1 2 [unfolded list_all_iff] 3 zero_less_numeral, of "''2''"] obtain ps where
    ps: "drainPages (Suc (length pagesDemo + length [''a/'', ''c/''])) (fetchList (pagesDemo, [''a/'', ''c/''])
      \<lparr>lsq_listType = ''2'', lsq_marker = [], lsq_continuationToken = [], lsq_startAfter = [], lsq_maxKeys = ''2''\<rparr>) None = Some ps"
    "concat (map pg_objects ps) = sort_key so_key pagesDemo" "concat (map pg_commonPrefixes ps) = sort [''a/'', ''c/'']" by blast
  have "map so_key (sort_key so_key pagesDemo) = [''B'', ''a/z'', ''b'']" "sort [''a/'', ''c/''] = [''a/'', ''c/'']"
    "Suc (length pagesDemo + length [''a/'', ''c/'']) = 6" by code_simp+
  then show ?thesis using ps by (intro exI [of _ ps] conjI) simp_all
qed

text \<open>
  The continuation token of a key comes back as the key exactly when the key is at most 1024 UTF-16 units and 1536
  bytes long and has no NUL and no U+FFFD: for any other key the server refuses the token it has given out itself.
\<close>
theorem continuation_tokens:
  "validUtf8 k \<Longrightarrow> decodeContinuationToken (encodeContinuationToken k) = (if pageableKey k then Inr k else Inl invalidArgument)"
  by (rule token_of_key)

theorem continuation_tokens_witness:
  "decodeContinuationToken (encodeContinuationToken ''docs/a b'') = Inr ''docs/a b''"
proof -
  have "validUtf8 ''docs/a b''" "pageableKey ''docs/a b''" by code_simp+
  then show ?thesis using continuation_tokens [of "''docs/a b''"] by simp
qed

end
