(* ===== verification/S3Service.thy ===== *)
theory S3Service
  imports ListPages FolderService
begin

section \<open>Buckets, keys and listings of the S3 interface\<close>

text \<open>
  \<^verbatim>\<open>S3Service\<close> (backend/src/s3/s3.service.ts): a bucket is a root folder, a key a path of folders and a file name.
  Fresh ids are arguments: \<open>freshId 0\<close> for a bucket, \<open>freshId i\<close> for the \<open>i\<close>-th folder of a path. The
  traversal of a bucket takes fuel, the number of folders plus two; \<open>None\<close> would be a traversal that does not end.
  Its limit \<^verbatim>\<open>maxKeys\<close> is \<^verbatim>\<open>Number.MAX_SAFE_INTEGER\<close> in every call and never reached.
\<close>

definition liveChild :: "string \<Rightarrow> string option \<Rightarrow> string \<Rightarrow> backend \<Rightarrow> folder_row option" where
  "liveChild userId parent name b =
     find (\<lambda>f. fld_name f = name \<and> fld_parentId f = parent \<and> fld_userId f = userId \<and> fld_deletedAt f = None) (bk_folders b)"

definition insertFolder :: "string \<Rightarrow> string \<Rightarrow> string option \<Rightarrow> string \<Rightarrow> int \<Rightarrow> string bop" where
  "insertFolder newId name parent userId now =
     thenOp (modifyOp (setFolders (\<lambda>fs. fs @ [newFolderRow newId name parent userId now]))) (returnOp newId)"

subsection \<open>Buckets\<close>

definition listBuckets :: "string \<Rightarrow> backend \<Rightarrow> (string \<times> int) list" where
  "listBuckets userId b = map (\<lambda>f. (fld_name f, fld_createdAt f))
     (sort_key fld_createdAt (filter (\<lambda>f. fld_userId f = userId \<and> fld_parentId f = None \<and> fld_deletedAt f = None) (bk_folders b)))"

definition createBucket :: "string \<Rightarrow> string \<Rightarrow> string \<Rightarrow> int \<Rightarrow> string bop" where
  "createBucket userId bucketName newId now = bindOp (getsOp (liveChild userId None bucketName)) (\<lambda>existing. case existing of
     Some f \<Rightarrow> returnOp (fld_id f) | None \<Rightarrow> insertFolder newId bucketName None userId now)"

definition noSuchBucket :: backend_error where
  "noSuchBucket = NotFoundException ''NoSuchBucket''"

definition deleteBucket :: "string \<Rightarrow> string \<Rightarrow> int \<Rightarrow> unit bop" where
  "deleteBucket userId bucketName now = bindOp (getsOp (liveChild userId None bucketName)) (\<lambda>row. case row of
     None \<Rightarrow> throwOp noSuchBucket
   | Some folder \<Rightarrow> bindOp (getsOp (\<lambda>b. (\<exists>c \<in> set (bk_folders b). fld_parentId c = Some (fld_id folder) \<and> fld_deletedAt c = None) \<or>
          (\<exists>f \<in> set (bk_files b). fr_folderId f = Some (fld_id folder) \<and> fr_deletedAt f = None))) (\<lambda>full.
       thenOp (unlessOp (\<not> full) (BadRequestException ''BucketNotEmpty''))
       (updateFolder (fld_id folder) (\<lambda>f. f\<lparr>fld_deletedAt := Some now\<rparr>))))"

subsection \<open>Keys\<close>

definition pathParts :: "string \<Rightarrow> string list" where
  "pathParts key = filter (\<lambda>p. p \<noteq> []) (jsSplit (CHR ''/'') key)"

text \<open>One folder of a path: found, created, or missing.\<close>

definition enterFolder :: "string \<Rightarrow> bool \<Rightarrow> (nat \<Rightarrow> string) \<Rightarrow> int \<Rightarrow> nat \<times> string \<Rightarrow> string \<Rightarrow> string bop" where
  "enterFolder userId create freshId now part current =
     bindOp (getsOp (liveChild userId (Some current) (snd part))) (\<lambda>existing. case existing of
       Some f \<Rightarrow> returnOp (fld_id f)
     | None \<Rightarrow> if create then insertFolder (freshId (fst part)) (snd part) (Some current) userId now
         else throwOp (NotFoundException ''NoSuchKey''))"

definition resolveKeyUnderFolder :: "string \<Rightarrow> string \<Rightarrow> string \<Rightarrow> bool \<Rightarrow> (nat \<Rightarrow> string) \<Rightarrow> int \<Rightarrow> (string \<times> string) bop" where
  "resolveKeyUnderFolder userId rootFolderId key create freshId now =
     (let parts = pathParts key in
      thenOp (unlessOp (parts \<noteq> []) (BadRequestException ''Invalid key''))
      (bindOp (foldOp (enterFolder userId create freshId now) (List.enumerate 1 (butlast parts)) rootFolderId) (\<lambda>folderId.
       returnOp (folderId, last parts))))"

definition resolveKey :: "string \<Rightarrow> string \<Rightarrow> string \<Rightarrow> bool \<Rightarrow> (nat \<Rightarrow> string) \<Rightarrow> int \<Rightarrow> (string \<times> string) bop" where
  "resolveKey userId bucketName key create freshId now = bindOp (getsOp (liveChild userId None bucketName)) (\<lambda>bucket. case bucket of
     None \<Rightarrow> if create then bindOp (createBucket userId bucketName (freshId 0) now) (\<lambda>newBucket.
         resolveKeyUnderFolder userId newBucket key create freshId now)
       else throwOp noSuchBucket
   | Some f \<Rightarrow> resolveKeyUnderFolder userId (fld_id f) key create freshId now)"

definition endsWithSlash :: "string \<Rightarrow> bool" where
  "endsWithSlash key \<longleftrightarrow> key \<noteq> [] \<and> last key = CHR ''/''"

definition resolveKeyAsFolder :: "string \<Rightarrow> string \<Rightarrow> string \<Rightarrow> (nat \<Rightarrow> string) \<Rightarrow> int \<Rightarrow> string bop" where
  "resolveKeyAsFolder userId bucketName key freshId now =
     thenOp (unlessOp (endsWithSlash key) (BadRequestException ''InvalidArgument''))
     (let parts = pathParts key in
      thenOp (unlessOp (parts \<noteq> []) (BadRequestException ''InvalidArgument''))
      (bindOp (getsOp (liveChild userId None bucketName)) (\<lambda>found.
       bindOp (case found of Some f \<Rightarrow> returnOp (fld_id f) | None \<Rightarrow> createBucket userId bucketName (freshId 0) now) (\<lambda>bucket.
       foldOp (enterFolder userId True freshId now) (List.enumerate 1 parts) bucket))))"

subsection \<open>Empty folders\<close>

text \<open>Whether the folder has a live child folder or file of the user.\<close>

definition occupied :: "string \<Rightarrow> string \<Rightarrow> backend \<Rightarrow> bool" where
  "occupied userId fid b \<longleftrightarrow> find (\<lambda>c. fld_parentId c = Some fid \<and> fld_userId c = userId \<and> fld_deletedAt c = None) (bk_folders b) \<noteq> None \<or>
     find (\<lambda>f. fr_folderId f = Some fid \<and> fr_userId f = userId \<and> fr_deletedAt f = None) (bk_files b) \<noteq> None"

definition trashFolder :: "string \<Rightarrow> int \<Rightarrow> backend \<Rightarrow> backend" where
  "trashFolder fid now = setFolders (updateWhere (\<lambda>f. fld_id f = fid) (\<lambda>f. f\<lparr>fld_deletedAt := Some now\<rparr>))"

definition liveFolders :: "backend \<Rightarrow> nat" where
  "liveFolders b = countWhere (\<lambda>f. fld_deletedAt f = None) (bk_folders b)"

lemma liveFolder_SomeD: "liveFolder fid userId b = Some f \<Longrightarrow> f \<in> set (bk_folders b) \<and> fld_id f = fid \<and> fld_userId f = userId \<and> fld_deletedAt f = None"
  unfolding liveFolder_def by (drule find_SomeD) simp

lemma trash_fewer:
  assumes "liveFolder fid userId b = Some f"
  shows "liveFolders (trashFolder (fld_id f) now b) < liveFolders b"
proof -
  have le: "countWhere (\<lambda>f. fld_deletedAt f = None) (updateWhere (\<lambda>f. fld_id f = fid) (\<lambda>f. f\<lparr>fld_deletedAt := Some now\<rparr>) fs) \<le>
      countWhere (\<lambda>f. fld_deletedAt f = None) fs" for fs
    by (induction fs) (auto simp: countWhere_def)
  have "f \<in> set fs \<Longrightarrow> fld_id f = fid \<Longrightarrow> fld_deletedAt f = None \<Longrightarrow>
      countWhere (\<lambda>f. fld_deletedAt f = None) (updateWhere (\<lambda>f. fld_id f = fid) (\<lambda>f. f\<lparr>fld_deletedAt := Some now\<rparr>) fs) <
      countWhere (\<lambda>f. fld_deletedAt f = None) fs" for fs
  proof (induction fs)
    case (Cons g fs)
    then show ?case using le [of fs] by (auto simp: countWhere_def)
  qed simp
  with liveFolder_SomeD [OF assms] show ?thesis by (simp add: liveFolders_def trashFolder_def)
qed

function cleanupEmptyFolders :: "string \<Rightarrow> string option \<Rightarrow> int \<Rightarrow> backend \<Rightarrow> backend" where
  "cleanupEmptyFolders userId folderId now b = (if \<not> present folderId then b else
     (case liveFolder (the folderId) userId b of None \<Rightarrow> b
      | Some folder \<Rightarrow> if fld_parentId folder = None then b
          else if occupied userId (fld_id folder) b then b
          else cleanupEmptyFolders userId (fld_parentId folder) now (trashFolder (fld_id folder) now b)))"
  by auto
termination
  by (relation "measure (\<lambda>(userId, folderId, now, b). liveFolders b)") (auto simp: trash_fewer)

declare cleanupEmptyFolders.simps [simp del]

definition followPath :: "string \<Rightarrow> string list \<Rightarrow> string \<Rightarrow> backend \<Rightarrow> string option" where
  "followPath userId parts start b =
     foldl (\<lambda>cur part. case cur of None \<Rightarrow> None | Some c \<Rightarrow> map_option fld_id (liveChild userId (Some c) part b)) (Some start) parts"

definition deleteFolderMarker :: "string \<Rightarrow> string \<Rightarrow> string \<Rightarrow> int \<Rightarrow> bool bop" where
  "deleteFolderMarker userId bucketName key now =
     (if \<not> endsWithSlash key \<or> pathParts key = [] then returnOp False else
      bindOp (getsOp (\<lambda>b. case liveChild userId None bucketName b of None \<Rightarrow> None
        | Some bucket \<Rightarrow> followPath userId (pathParts key) (fld_id bucket) b)) (\<lambda>target. case target of
        None \<Rightarrow> returnOp False
      | Some fid \<Rightarrow> bindOp (getsOp (occupied userId fid)) (\<lambda>full.
          if full then returnOp False
          else thenOp (updateFolder fid (\<lambda>f. f\<lparr>fld_deletedAt := Some now\<rparr>))
            (thenOp (modifyOp (cleanupEmptyFolders userId (Some fid) now)) (returnOp True)))))"

subsection \<open>Objects\<close>

definition noSuchKey :: backend_error where
  "noSuchKey = NotFoundException ''NoSuchKey''"

definition objectRow :: "string \<Rightarrow> string \<Rightarrow> string \<Rightarrow> backend \<Rightarrow> file_row option" where
  "objectRow userId folderId filename b = find (\<lambda>f. fr_folderId f = Some folderId \<and> fr_filename f = filename \<and> fr_userId f = userId \<and>
     fr_deletedAt f = None \<and> fr_status f = Complete) (bk_files b)"

definition unusedId :: "nat \<Rightarrow> string" where
  "unusedId i = []"

text \<open>Without \<open>create\<close> no id is drawn.\<close>

definition findObject :: "string \<Rightarrow> string \<Rightarrow> string \<Rightarrow> file_row bop" where
  "findObject userId bucketName key = bindOp (resolveKey userId bucketName key False unusedId 0) (\<lambda>(folderId, filename).
     bindOp (getsOp (objectRow userId folderId filename)) (\<lambda>file. case file of None \<Rightarrow> throwOp noSuchKey | Some f \<Rightarrow> returnOp f))"

definition isNotFound :: "backend_error \<Rightarrow> bool" where
  "isNotFound e = (case e of NotFoundException _ \<Rightarrow> True | _ \<Rightarrow> False)"

text \<open>Every live record of a key, the newest first; ids break ties.\<close>

definition findObjectRecords :: "string \<Rightarrow> string \<Rightarrow> string \<Rightarrow> file_row list bop" where
  "findObjectRecords userId bucketName key = catchOp
     (bindOp (resolveKey userId bucketName key False unusedId 0) (\<lambda>(folderId, filename).
      getsOp (\<lambda>b. sort_key (\<lambda>f. - fr_updatedAt f) (rev (sort_key fr_id
        (filter (\<lambda>f. fr_folderId f = Some folderId \<and> fr_filename f = filename \<and> fr_userId f = userId \<and> fr_deletedAt f = None) (bk_files b)))))))
     (\<lambda>err. if isNotFound err then returnOp [] else throwOp err)"

definition publicBucket :: "string \<Rightarrow> string \<Rightarrow> backend \<Rightarrow> folder_row option" where
  "publicBucket userId bucketName b = find (\<lambda>f. fld_userId f = userId \<and> fld_name f = bucketName \<and> fld_parentId f = None \<and>
     fld_s3PublicAccess f \<and> fld_deletedAt f = None) (bk_folders b)"

definition findObjectPublic :: "string \<Rightarrow> string \<Rightarrow> string \<Rightarrow> file_row bop" where
  "findObjectPublic userId bucketName key = bindOp (getsOp (publicBucket userId bucketName)) (\<lambda>bucket. case bucket of
     None \<Rightarrow> throwOp noSuchBucket
   | Some bk \<Rightarrow> bindOp (resolveKeyUnderFolder userId (fld_id bk) key False unusedId 0) (\<lambda>(folderId, filename).
       bindOp (getsOp (objectRow userId folderId filename)) (\<lambda>file. case file of None \<Rightarrow> throwOp noSuchKey | Some f \<Rightarrow> returnOp f)))"

subsection \<open>Listings\<close>

datatype listed = ListedObject s3_object | ListedPrefix string

text \<open>The folders and files a listing reads: the live folders of the user, and the live complete files below the bucket.\<close>

definition liveOf :: "string \<Rightarrow> backend \<Rightarrow> folder_row list" where
  "liveOf userId b = filter (\<lambda>f. fld_userId f = userId \<and> fld_deletedAt f = None) (bk_folders b)"

definition childrenOf :: "folder_row list \<Rightarrow> string \<Rightarrow> folder_row list" where
  "childrenOf folders fid = filter (\<lambda>f. present (fld_parentId f) \<and> fld_parentId f = Some fid) folders"

text \<open>The queue of the breadth-first walk: the ids it has found, in order.\<close>

fun walkDown :: "nat \<Rightarrow> folder_row list \<Rightarrow> string list \<Rightarrow> string list \<Rightarrow> string list option" where
  "walkDown 0 folders queue found = None"
| "walkDown (Suc n) folders queue found = (case queue of [] \<Rightarrow> Some found
     | current # rest \<Rightarrow> (let children = map fld_id (childrenOf folders current) in
         walkDown n folders (rest @ children) (found @ children)))"

definition filesBelow :: "string \<Rightarrow> string list \<Rightarrow> backend \<Rightarrow> file_row list" where
  "filesBelow userId folderIds b = filter (\<lambda>f. fr_userId f = userId \<and> (\<exists>d \<in> set folderIds. fr_folderId f = Some d) \<and>
     fr_deletedAt f = None \<and> fr_status f = Complete) (bk_files b)"

definition joinPath :: "string \<Rightarrow> string \<Rightarrow> string" where
  "joinPath path name = (if path \<noteq> [] then path @ ''/'' @ name else name)"

definition etagOf :: "file_row \<Rightarrow> string" where
  "etagOf f = (if present (fr_etag f) then the (fr_etag f) else CHR 0x22 # fr_id f @ [CHR 0x22])"

definition fileObject :: "string \<Rightarrow> file_row \<Rightarrow> s3_object" where
  "fileObject key f = \<lparr>so_key = key, so_size = fr_size f, so_lastModified = fr_createdAt f, so_etag = etagOf f\<rparr>"

definition markerObject :: "(folder_row \<Rightarrow> int) \<Rightarrow> string \<Rightarrow> folder_row \<Rightarrow> s3_object" where
  "markerObject updatedAt key f = \<lparr>so_key = key, so_size = 0, so_lastModified = updatedAt f, so_etag = CHR 0x22 # fld_id f @ [CHR 0x22]\<rparr>"

text \<open>The position of the delimiter in the text, as \<^verbatim>\<open>indexOf\<close>.\<close>

fun jsIndexOf :: "string \<Rightarrow> string \<Rightarrow> nat option" where
  "jsIndexOf d [] = (if d = [] then Some 0 else None)"
| "jsIndexOf d (c # s) = (if jsStartsWith d (c # s) then Some 0 else map_option Suc (jsIndexOf d s))"

text \<open>What a key below the prefix contributes when there is a delimiter.\<close>

definition collapse :: "string \<Rightarrow> string \<Rightarrow> string \<Rightarrow> string option" where
  "collapse prefix delimiter key = (let rest = drop (length prefix) key in
     map_option (\<lambda>i. prefix @ take (i + 1) rest) (jsIndexOf delimiter rest))"

definition listFile :: "string \<Rightarrow> string option \<Rightarrow> string \<Rightarrow> file_row \<Rightarrow> listed list" where
  "listFile prefix delimiter path f = (let key = joinPath path (fr_filename f) in
     if \<not> jsStartsWith prefix key then []
     else case delimiter of None \<Rightarrow> [ListedObject (fileObject key f)]
       | Some d \<Rightarrow> (case collapse prefix d key of Some p \<Rightarrow> [ListedPrefix p] | None \<Rightarrow> [ListedObject (fileObject key f)]))"

definition filesIn :: "string \<Rightarrow> file_row list \<Rightarrow> string \<Rightarrow> file_row list" where
  "filesIn bucketId files fid = filter (\<lambda>f. (if present (fr_folderId f) then the (fr_folderId f) else bucketId) = fid) files"

definition concatAll :: "'a list option list \<Rightarrow> 'a list option" where
  "concatAll xs = foldr (\<lambda>x acc. case x of None \<Rightarrow> None | Some l \<Rightarrow> map_option (\<lambda>r. l @ r) acc) xs (Some [])"

text \<open>\<open>visit\<close> is what a folder does with one of its children: \<open>recurse\<close> is the traversal of the child.\<close>

definition visit ::
  "folder_row list \<Rightarrow> (string \<Rightarrow> file_row list) \<Rightarrow> (folder_row \<Rightarrow> int) \<Rightarrow> string \<Rightarrow> string option \<Rightarrow> string \<Rightarrow>
   (string \<Rightarrow> string \<Rightarrow> listed list option) \<Rightarrow> folder_row \<Rightarrow> listed list option" where
  "visit folders filesByFolder updatedAt prefix delimiter path recurse folder =
    (let folderPath = joinPath path (fld_name folder); fullPath = folderPath @ ''/'' in
     if \<not> jsStartsWith prefix fullPath \<and> \<not> jsStartsWith fullPath prefix then Some []
     else case delimiter of
       Some d \<Rightarrow> if jsStartsWith fullPath prefix then recurse (fld_id folder) folderPath
         else (case collapse prefix d fullPath of Some p \<Rightarrow> Some [ListedPrefix p] | None \<Rightarrow> recurse (fld_id folder) folderPath)
     | None \<Rightarrow> if childrenOf folders (fld_id folder) = [] \<and> filesByFolder (fld_id folder) = [] then
           Some (if jsStartsWith prefix fullPath then [ListedObject (markerObject updatedAt fullPath folder)] else [])
         else recurse (fld_id folder) folderPath)"

fun traverse ::
  "nat \<Rightarrow> folder_row list \<Rightarrow> (string \<Rightarrow> file_row list) \<Rightarrow> (folder_row \<Rightarrow> int) \<Rightarrow> string \<Rightarrow> string option \<Rightarrow> string \<Rightarrow> string \<Rightarrow> listed list option" where
  "traverse 0 folders filesByFolder updatedAt prefix delimiter folderId path = None"
| "traverse (Suc n) folders filesByFolder updatedAt prefix delimiter folderId path =
     map_option (\<lambda>below. concat (map (listFile prefix delimiter path) (filesByFolder folderId)) @ below)
       (concatAll (map (visit folders filesByFolder updatedAt prefix delimiter path (traverse n folders filesByFolder updatedAt prefix delimiter))
         (childrenOf folders folderId)))"

text \<open>An empty delimiter is no delimiter. The prefixes are a set: the first occurrence of each counts.\<close>

definition listedObjects :: "listed list \<Rightarrow> s3_object list" where
  "listedObjects xs = concat (map (\<lambda>x. case x of ListedObject ob \<Rightarrow> [ob] | ListedPrefix _ \<Rightarrow> []) xs)"

definition listedPrefixes :: "listed list \<Rightarrow> string list" where
  "listedPrefixes xs = rev (remdups (rev (concat (map (\<lambda>x. case x of ListedObject _ \<Rightarrow> [] | ListedPrefix p \<Rightarrow> [p]) xs))))"

definition listRecursiveOptimized ::
  "string \<Rightarrow> string \<Rightarrow> string \<Rightarrow> string option \<Rightarrow> (folder_row \<Rightarrow> int) \<Rightarrow> backend \<Rightarrow> (s3_object list \<times> string list) option" where
  "listRecursiveOptimized userId bucketId prefix delimiter updatedAt b =
    (let folders = liveOf userId b; fuel = length folders + 2 in
     case walkDown fuel folders [bucketId] [bucketId] of None \<Rightarrow> None
     | Some ids \<Rightarrow>
        (let files = filesBelow userId ids b in
         map_option (\<lambda>xs. (listedObjects xs, listedPrefixes xs))
           (traverse fuel folders (filesIn bucketId files) updatedAt prefix (if present delimiter then delimiter else None) bucketId [])))"

definition listObjects :: "string \<Rightarrow> string \<Rightarrow> string \<Rightarrow> string option \<Rightarrow> (folder_row \<Rightarrow> int) \<Rightarrow> (s3_object list \<times> string list) bop" where
  "listObjects userId bucketName prefix delimiter updatedAt = bindOp (getsOp (liveChild userId None bucketName)) (\<lambda>bucket. case bucket of
     None \<Rightarrow> throwOp noSuchBucket
   | Some bk \<Rightarrow> bindOp (getsOp (listRecursiveOptimized userId (fld_id bk) prefix delimiter updatedAt)) (\<lambda>r. case r of
       None \<Rightarrow> throwOp Diverges | Some l \<Rightarrow> returnOp l))"

definition listObjectsPublic :: "string \<Rightarrow> string \<Rightarrow> string \<Rightarrow> string option \<Rightarrow> (folder_row \<Rightarrow> int) \<Rightarrow> (s3_object list \<times> string list) bop" where
  "listObjectsPublic userId bucketName prefix delimiter updatedAt = bindOp (getsOp (publicBucket userId bucketName)) (\<lambda>bucket. case bucket of
     None \<Rightarrow> throwOp noSuchBucket
   | Some bk \<Rightarrow> thenOp (unlessOp (fld_s3PublicListObjects bk) (ForbiddenException ''AccessDenied''))
       (bindOp (getsOp (listRecursiveOptimized userId (fld_id bk) prefix delimiter updatedAt)) (\<lambda>r. case r of
          None \<Rightarrow> throwOp Diverges | Some l \<Rightarrow> returnOp l)))"

text \<open>The page that the services return of a listing.\<close>

definition listObjectsPage ::
  "string \<Rightarrow> string \<Rightarrow> string \<Rightarrow> string option \<Rightarrow> (folder_row \<Rightarrow> int) \<Rightarrow> js_num \<Rightarrow> string option \<Rightarrow> s3_page bop" where
  "listObjectsPage userId bucketName prefix delimiter updatedAt maxKeys startAfter =
     bindOp (listObjects userId bucketName prefix delimiter updatedAt) (\<lambda>(objs, prefixes). returnOp (buildListPage objs prefixes maxKeys startAfter))"

definition listObjectsPublicPage ::
  "string \<Rightarrow> string \<Rightarrow> string \<Rightarrow> string option \<Rightarrow> (folder_row \<Rightarrow> int) \<Rightarrow> js_num \<Rightarrow> string option \<Rightarrow> s3_page bop" where
  "listObjectsPublicPage userId bucketName prefix delimiter updatedAt maxKeys startAfter =
     bindOp (listObjectsPublic userId bucketName prefix delimiter updatedAt)
       (\<lambda>(objs, prefixes). returnOp (buildListPage objs prefixes maxKeys startAfter))"

end
