(* ===== verification/S3Keys.thy ===== *)
theory S3Keys
  imports S3Service
begin

section \<open>Keys and empty folders of the S3 interface\<close>

text \<open>
  What the operations of \<open>S3Service\<close> on folders do: a key resolves to the folder that was created for it, and the
  cleanup after a deletion trashes empty folders only.
\<close>

subsection \<open>Creating the folders of a key\<close>

text \<open>Creation only adds rows at the end, so what was found stays found.\<close>

definition extends :: "string \<Rightarrow> backend \<Rightarrow> backend \<Rightarrow> bool" where
  "extends userId b b' \<longleftrightarrow> (\<exists>new. b' = setFolders (\<lambda>fs. fs @ new) b \<and> (\<forall>f \<in> set new. fld_userId f = userId \<and> fld_deletedAt f = None))"

lemma extends_refl [simp]: "extends u b b"
  by (auto simp: extends_def setFolders_def intro: exI [of _ "[]"])

lemma extends_trans: "extends u a b \<Longrightarrow> extends u b c \<Longrightarrow> extends u a c"
  unfolding extends_def by (elim exE conjE) (rule_tac x = "new @ newa" in exI, auto simp: setFolders_def)

text \<open>A state whose folder table has grown at the end, whatever else has changed.\<close>

definition grown :: "backend \<Rightarrow> backend \<Rightarrow> bool" where
  "grown b b' \<longleftrightarrow> (\<exists>new. bk_folders b' = bk_folders b @ new)"

lemma grown_refl [simp]: "grown b b"
  by (simp add: grown_def)

lemma grown_trans: "grown a b \<Longrightarrow> grown b c \<Longrightarrow> grown a c"
  by (auto simp: grown_def)

lemma grown_same: "bk_folders b' = bk_folders b \<Longrightarrow> grown b b'"
  by (simp add: grown_def)

lemma extends_grown: "extends u b b' \<Longrightarrow> grown b b'"
  by (auto simp: extends_def grown_def)

lemma liveChild_grown: "liveChild u p n b = Some f \<Longrightarrow> grown b b' \<Longrightarrow> liveChild u p n b' = Some f"
  by (auto simp: liveChild_def grown_def find_append)

definition settled :: "'a \<Rightarrow> (bool \<Rightarrow> (nat \<Rightarrow> string) \<Rightarrow> int \<Rightarrow> 'a bop) \<Rightarrow> backend \<Rightarrow> bool" where
  "settled r m b \<longleftrightarrow> (\<forall>create g t b'. grown b b' \<longrightarrow> m create g t b' = (Inr r, b'))"

lemma settledD: "settled r m b \<Longrightarrow> grown b b' \<Longrightarrow> m create g t b' = (Inr r, b')"
  by (simp add: settled_def)

lemma insertFolder_apply [op_simps]:
  "insertFolder i n p u now b = (Inr i, setFolders (\<lambda>fs. fs @ [newFolderRow i n p u now]) b)"
  by (simp add: insertFolder_def op_simps)

lemma insert_settles:
  assumes "liveChild u p n b = None"
  shows "extends u b (setFolders (\<lambda>fs. fs @ [newFolderRow i n p u now]) b)"
    and "\<exists>f. liveChild u p n (setFolders (\<lambda>fs. fs @ [newFolderRow i n p u now]) b) = Some f \<and> fld_id f = i"
  using assms by (auto simp: extends_def liveChild_def find_append newFolderRow_def intro: exI [of _ "[newFolderRow i n p u now]"])

lemma enter_settles:
  "\<exists>fid b'. enterFolder u True g now part cur b = (Inr fid, b') \<and> extends u b b' \<and> settled fid (\<lambda>c g t. enterFolder u c g t part cur) b'"
proof (cases "liveChild u (Some cur) (snd part) b")
  case None
  from insert_settles [OF None, of "g (fst part)" now] show ?thesis
    by (auto simp: enterFolder_def op_simps None settled_def dest: liveChild_grown)
next
  case (Some f)
  then show ?thesis by (auto simp: enterFolder_def op_simps settled_def dest: liveChild_grown)
qed

lemma enterAll_settles:
  "\<exists>fid b'. foldOp (enterFolder u True g now) parts cur b = (Inr fid, b') \<and> extends u b b' \<and>
     settled fid (\<lambda>c g t. foldOp (enterFolder u c g t) parts cur) b'"
proof (induction parts arbitrary: cur b)
  case Nil
  show ?case by (simp add: op_simps settled_def)
next
  case (Cons part parts)
  obtain mid b1 where one: "enterFolder u True g now part cur b = (Inr mid, b1)" "extends u b b1"
    "settled mid (\<lambda>c g t. enterFolder u c g t part cur) b1" using enter_settles [of u g now part cur b] by blast
  obtain fid b2 where rest: "foldOp (enterFolder u True g now) parts mid b1 = (Inr fid, b2)" "extends u b1 b2"
    "settled fid (\<lambda>c g t. foldOp (enterFolder u c g t) parts mid) b2" using Cons.IH [of mid b1] by blast
  have "settled fid (\<lambda>c g t. foldOp (enterFolder u c g t) (part # parts) cur) b2"
    unfolding settled_def
  proof (intro allI impI)
    fix c g' t b3
    assume b3: "grown b2 b3"
    from settledD [OF one(3), of b3 c g' t] settledD [OF rest(3) b3, of c g' t] grown_trans [OF extends_grown [OF rest(2)] b3]
    show "foldOp (enterFolder u c g' t) (part # parts) cur b3 = (Inr fid, b3)" by (simp add: bindOp_def)
  qed
  with one rest extends_trans [OF one(2) rest(2)] show ?case by (auto simp: bindOp_def)
qed

lemma underFolder_settles:
  assumes "pathParts key \<noteq> []"
  shows "\<exists>fid b'. resolveKeyUnderFolder u rt key True g now b = (Inr (fid, last (pathParts key)), b') \<and> extends u b b' \<and>
     settled (fid, last (pathParts key)) (\<lambda>c g t. resolveKeyUnderFolder u rt key c g t) b'"
  using enterAll_settles [of u g now "List.enumerate 1 (butlast (pathParts key))" rt b] assms
  by (fastforce simp: resolveKeyUnderFolder_def Let_def op_simps bindOp_def settled_def)

lemma resolve_settles:
  assumes "pathParts key \<noteq> []"
  shows "\<exists>fid b'. resolveKey u bucketName key True freshId now b = (Inr (fid, last (pathParts key)), b') \<and> extends u b b' \<and>
    settled (fid, last (pathParts key)) (resolveKey u bucketName key) b'"
proof -
  obtain rt b1 where rt: "resolveKey u bucketName key True freshId now b = resolveKeyUnderFolder u rt key True freshId now b1"
    "extends u b b1" "\<exists>f. liveChild u None bucketName b1 = Some f \<and> fld_id f = rt"
  proof (cases "liveChild u None bucketName b")
    case None
    with that [of "freshId 0" "setFolders (\<lambda>fs. fs @ [newFolderRow (freshId 0) bucketName None u now]) b"]
      insert_settles [OF None, of "freshId 0" now] show ?thesis
      by (simp add: resolveKey_def createBucket_def op_simps bindOp_def)
  next
    case (Some f)
    with that [of "fld_id f" b] show ?thesis by (simp add: resolveKey_def op_simps)
  qed
  obtain fid b' where run: "resolveKeyUnderFolder u rt key True freshId now b1 = (Inr (fid, last (pathParts key)), b')" "extends u b1 b'"
    "settled (fid, last (pathParts key)) (\<lambda>c g t. resolveKeyUnderFolder u rt key c g t) b'"
    using underFolder_settles [OF assms, of u rt freshId now b1] by blast
  have "settled (fid, last (pathParts key)) (resolveKey u bucketName key) b'"
    unfolding settled_def
  proof (intro allI impI)
    fix create g t b''
    assume g: "grown b' b''"
    from rt(3) liveChild_grown grown_trans [OF extends_grown [OF run(2)] g] obtain f where
      "liveChild u None bucketName b'' = Some f" "fld_id f = rt" by blast
    then show "resolveKey u bucketName key create g t b'' = (Inr (fid, last (pathParts key)), b'')"
      using settledD [OF run(3) g] by (simp add: resolveKey_def op_simps)
  qed
  with rt(1) run(1) extends_trans [OF rt(2) run(2)] show ?thesis by auto
qed

text \<open>
  C14. Writing to a key always finds a place: resolving it with creation succeeds, adds at most live folders of the user
  at the end of the table, and from then on the key resolves to that folder and name, with or without creation,
  without changing anything.
\<close>
theorem resolve_created:
  assumes "pathParts key \<noteq> []"
  shows "\<exists>fid b' new. resolveKey u bucketName key True freshId now b = (Inr (fid, last (pathParts key)), b') \<and>
    b' = setFolders (\<lambda>fs. fs @ new) b \<and> (\<forall>f \<in> set new. fld_userId f = u \<and> fld_deletedAt f = None) \<and>
    (\<forall>create g t. resolveKey u bucketName key create g t b' = (Inr (fid, last (pathParts key)), b'))"
  using resolve_settles [OF assms, of u bucketName freshId now b] settledD [OF _ grown_refl] by (fastforce simp: extends_def)

theorem resolve_created_witness:
  "\<exists>fid b'. resolveKey ''u'' ''docs'' ''a//b/c.txt'' True (\<lambda>i. ''id'' @ showNat i) 5 emptyBackend = (Inr (fid, ''c.txt''), b') \<and>
     resolveKey ''u'' ''docs'' ''a//b/c.txt'' False unusedId 0 b' = (Inr (fid, ''c.txt''), b')"
proof -
  have "pathParts ''a//b/c.txt'' = [''a'', ''b'', ''c.txt'']" by code_simp
  then show ?thesis
    using resolve_created [of "''a//b/c.txt''" "''u''" "''docs''" "\<lambda>i. ''id'' @ showNat i" 5 emptyBackend] by auto
qed

subsection \<open>Empty folders\<close>

lemma occupied_trash: "occupied u fid (trashFolder x now b) \<Longrightarrow> occupied u fid b"
  by (auto simp: occupied_def trashFolder_def find_None_iff set_updateWhere split: if_splits)

lemma trash_files [simp]: "bk_files (trashFolder x now b) = bk_files b"
  by (simp add: trashFolder_def)

definition removable :: "string \<Rightarrow> string option \<Rightarrow> backend \<Rightarrow> bool" where
  "removable u fid b \<longleftrightarrow> present fid \<and> (case liveFolder (the fid) u b of None \<Rightarrow> False
     | Some f \<Rightarrow> fld_parentId f \<noteq> None \<and> \<not> occupied u (fld_id f) b)"

lemma cleanup_rests: "\<not> removable u fid b \<Longrightarrow> cleanupEmptyFolders u fid now b = b"
  by (subst cleanupEmptyFolders.simps) (auto simp: removable_def split: option.splits)

lemma cleanup_walk:
  "present fid \<Longrightarrow> liveFolder (the fid) u b = Some f \<Longrightarrow> fld_parentId f \<noteq> None \<Longrightarrow> \<not> occupied u (fld_id f) b \<Longrightarrow>
   cleanupEmptyFolders u fid now b = cleanupEmptyFolders u (fld_parentId f) now (trashFolder (fld_id f) now b)"
  by (subst cleanupEmptyFolders.simps) (cases "fld_parentId f"; simp)

lemma removableE:
  assumes "removable u fid b"
  obtains f where "present fid" "liveFolder (the fid) u b = Some f" "fld_parentId f \<noteq> None" "\<not> occupied u (fld_id f) b"
  using assms by (auto simp: removable_def split: option.splits)

text \<open>What the cleanup may have done to a row, in view of the state it leaves.\<close>

definition cleaned :: "string \<Rightarrow> int \<Rightarrow> backend \<Rightarrow> folder_row \<Rightarrow> folder_row \<Rightarrow> bool" where
  "cleaned u now b' r r' \<longleftrightarrow> r' = r \<or> r' = r\<lparr>fld_deletedAt := Some now\<rparr> \<and> fld_parentId r \<noteq> None \<and> fld_deletedAt r = None \<and>
     fld_userId r = u \<and> \<not> occupied u (fld_id r) b'"

lemma cleanup_safe:
  "distinct (map fld_id (bk_folders b)) \<Longrightarrow> cleanupEmptyFolders u fid now b = b' \<Longrightarrow>
   list_all2 (cleaned u now b') (bk_folders b) (bk_folders b') \<and> b' = b\<lparr>bk_folders := bk_folders b'\<rparr> \<and>
   (\<forall>x. occupied u x b' \<longrightarrow> occupied u x b)"
proof (induction u fid now b rule: cleanupEmptyFolders.induct)
  case (1 u fid now b)
  have same: ?case if "b' = b"
    using that by (auto simp: cleaned_def list_all2_refl)
  show ?case
  proof (cases "removable u fid b")
    case False
    with cleanup_rests 1(3) show ?thesis by (intro same) simp
  next
    case True
    then obtain f where f: "present fid" "liveFolder (the fid) u b = Some f" "fld_parentId f \<noteq> None" "\<not> occupied u (fld_id f) b"
      by (rule removableE)
    let ?b1 = "trashFolder (fld_id f) now b"
    have run: "cleanupEmptyFolders u (fld_parentId f) now ?b1 = b'"
      using 1(3) cleanup_walk [OF f] by simp
    have "distinct (map fld_id (bk_folders ?b1))"
      using 1(2) by (simp add: trashFolder_def map_updateWhere_key)
    from 1(1) [OF _ f(2-4) this run] f(1) have IH: "list_all2 (cleaned u now b') (bk_folders ?b1) (bk_folders b')"
      "b' = ?b1\<lparr>bk_folders := bk_folders b'\<rparr>" "\<And>x. occupied u x b' \<Longrightarrow> occupied u x ?b1" by auto
    note row = liveFolder_SomeD [OF f(2)]
    have first: "list_all2 (\<lambda>r r'. r' = (if fld_id r = fld_id f then r\<lparr>fld_deletedAt := Some now\<rparr> else r)) (bk_folders b) (bk_folders ?b1)"
      by (simp add: trashFolder_def updateWhere_def list_all2_map2 list_all2_refl)
    have uniq: "r = f" if "r \<in> set (bk_folders b)" "fld_id r = fld_id f" for r
      using that row 1(2) by (auto simp: distinct_map inj_on_def)
    have notOcc: "\<not> occupied u (fld_id f) b'" using IH(3) occupied_trash f(4) by blast
    have len: "length (bk_folders b) = length (bk_folders b')" using list_all2_lengthD [OF first] list_all2_lengthD [OF IH(1)] by simp
    have "list_all2 (cleaned u now b') (bk_folders b) (bk_folders b')"
    proof (rule list_all2_all_nthI [OF len])
      fix n
      assume n: "n < length (bk_folders b)"
      let ?r = "bk_folders b ! n" and ?m = "bk_folders ?b1 ! n" and ?r' = "bk_folders b' ! n"
      have m: "?m = (if fld_id ?r = fld_id f then ?r\<lparr>fld_deletedAt := Some now\<rparr> else ?r)" using list_all2_nthD [OF first n] .
      have c: "cleaned u now b' ?m ?r'" using list_all2_nthD [OF IH(1), of n] n first by (simp add: list_all2_lengthD)
      show "cleaned u now b' ?r ?r'"
      proof (cases "fld_id ?r = fld_id f")
        case True
        with uniq n have "?r = f" by simp
        with m c row f(3) notOcc show ?thesis by (auto simp: cleaned_def)
      qed (use m c in simp)
    qed
    moreover have "b' = b\<lparr>bk_folders := bk_folders b'\<rparr>" using IH(2) by (simp add: trashFolder_def setFolders_def)
    ultimately show ?thesis using IH(3) occupied_trash by blast
  qed
qed
text \<open>The walk stops at a folder that may stay.\<close>

lemma find_None_updateWhere: "(\<And>r. r \<in> set xs \<Longrightarrow> \<not> P (if Q r then f r else r)) \<Longrightarrow> find P (updateWhere Q f xs) = None"
  by (induction xs) auto

lemma trash_gone: "liveFolder x u b = None \<or> x = y \<Longrightarrow> liveFolder x u (trashFolder y now b) = None"
  unfolding liveFolder_def trashFolder_def set_tables
proof (rule find_None_updateWhere)
  fix r
  assume "find (\<lambda>f. fld_id f = x \<and> fld_userId f = u \<and> fld_deletedAt f = None) (bk_folders b) = None \<or> x = y"
    and "r \<in> set (bk_folders b)"
  then show "\<not> (fld_id (if fld_id r = y then r\<lparr>fld_deletedAt := Some now\<rparr> else r) = x \<and>
      fld_userId (if fld_id r = y then r\<lparr>fld_deletedAt := Some now\<rparr> else r) = u \<and>
      fld_deletedAt (if fld_id r = y then r\<lparr>fld_deletedAt := Some now\<rparr> else r) = None)"
    using find_NoneD [of "\<lambda>f. fld_id f = x \<and> fld_userId f = u \<and> fld_deletedAt f = None" "bk_folders b" r] by auto
qed

lemma cleanup_gone: "liveFolder x u b = None \<Longrightarrow> liveFolder x u (cleanupEmptyFolders u fid now b) = None"
proof (induction u fid now b rule: cleanupEmptyFolders.induct)
  case (1 u fid now b)
  show ?case
  proof (cases "removable u fid b")
    case True
    then obtain f where f: "present fid" "liveFolder (the fid) u b = Some f" "fld_parentId f \<noteq> None" "\<not> occupied u (fld_id f) b"
      by (rule removableE)
    from 1(1) [OF _ f(2-4)] f(1) trash_gone [of x u b] 1(2) show ?thesis unfolding cleanup_walk [OF f] by simp
  qed (simp add: cleanup_rests 1(2))
qed

lemma cleanup_stops:
  assumes "present fid" and "liveFolder (the fid) u (cleanupEmptyFolders u fid now b) = Some f"
  shows "fld_parentId f = None \<or> occupied u (fld_id f) (cleanupEmptyFolders u fid now b)"
proof (cases "removable u fid b")
  case False
  with assms show ?thesis by (auto simp: cleanup_rests removable_def)
next
  case True
  then obtain g where g: "present fid" "liveFolder (the fid) u b = Some g" "fld_parentId g \<noteq> None" "\<not> occupied u (fld_id g) b"
    by (rule removableE)
  have "liveFolder (the fid) u (cleanupEmptyFolders u fid now b) = None"
    using cleanup_gone [OF trash_gone [of "the fid" u b "fld_id g" now]] liveFolder_SomeD [OF g(2)] unfolding cleanup_walk [OF g] by simp
  with assms(2) show ?thesis by simp
qed

text \<open>
  Cleaning up after a deletion is safe and complete: it ends, touches nothing but folder rows, trashes only live
  folders of the user that are no bucket and hold no live folder or file, and leaves the folder it started from only if
  it is a bucket or still in use.
\<close>
theorem cleanup_trashes_empty_folders:
  assumes "distinct (map fld_id (bk_folders b))" and "present fid"
  shows "list_all2 (cleaned u now (cleanupEmptyFolders u fid now b)) (bk_folders b) (bk_folders (cleanupEmptyFolders u fid now b)) \<and>
    cleanupEmptyFolders u fid now b = b\<lparr>bk_folders := bk_folders (cleanupEmptyFolders u fid now b)\<rparr> \<and>
    (case liveFolder (the fid) u (cleanupEmptyFolders u fid now b) of None \<Rightarrow> True
     | Some f \<Rightarrow> fld_parentId f = None \<or> occupied u (fld_id f) (cleanupEmptyFolders u fid now b))"
  using cleanup_safe [OF assms(1) refl, where u = u and fid = fid and now = now] cleanup_stops [OF assms(2), of u now b]
  by (cases "liveFolder (the fid) u (cleanupEmptyFolders u fid now b)") simp_all

definition nestedDemo :: backend where
  "nestedDemo = emptyBackend\<lparr>bk_folders := [newFolderRow ''b'' ''docs'' None ''u'' 0, newFolderRow ''x'' ''a'' (Some ''b'') ''u'' 0,
     newFolderRow ''y'' ''c'' (Some ''x'') ''u'' 0]\<rparr>"

lemma nestedDemo_fields:
  "fld_parentId (bk_folders nestedDemo ! 2) = Some ''x''" "fld_id (bk_folders nestedDemo ! 2) = ''y''"
  "fld_parentId (bk_folders nestedDemo ! 1) = Some ''b''" "fld_id (bk_folders nestedDemo ! 1) = ''x''"
  by code_simp+

theorem cleanup_trashes_empty_folders_witness:
  "list_all2 (cleaned ''u'' 9 (cleanupEmptyFolders ''u'' (Some ''y'') 9 nestedDemo)) (bk_folders nestedDemo)
     (bk_folders (cleanupEmptyFolders ''u'' (Some ''y'') 9 nestedDemo)) \<and>
   map fld_deletedAt (bk_folders (cleanupEmptyFolders ''u'' (Some ''y'') 9 nestedDemo)) = [None, Some 9, Some 9]"
proof -
  have "distinct (map fld_id (bk_folders nestedDemo))" "present (Some ''y'')" by code_simp+
  from cleanup_trashes_empty_folders [OF this, of "''u''" 9]
  have "list_all2 (cleaned ''u'' 9 (cleanupEmptyFolders ''u'' (Some ''y'') 9 nestedDemo)) (bk_folders nestedDemo)
     (bk_folders (cleanupEmptyFolders ''u'' (Some ''y'') 9 nestedDemo))" by blast
  moreover have "map fld_deletedAt (bk_folders (cleanupEmptyFolders ''u'' (Some ''y'') 9 nestedDemo)) = [None, Some 9, Some 9]"
  proof -
    let ?f = "\<lambda>i. bk_folders nestedDemo ! i" and ?b1 = "trashFolder ''y'' 9 nestedDemo"
    have "cleanupEmptyFolders ''u'' (Some ''y'') 9 nestedDemo = cleanupEmptyFolders ''u'' (Some ''x'') 9 ?b1"
      by (rule cleanup_walk [of "Some ''y''" "''u''" nestedDemo "?f 2", unfolded nestedDemo_fields]) code_simp+
    also have "\<dots> = cleanupEmptyFolders ''u'' (Some ''b'') 9 (trashFolder ''x'' 9 ?b1)"
      by (rule cleanup_walk [of "Some ''x''" "''u''" ?b1 "?f 1", unfolded nestedDemo_fields]) code_simp+
    also have "\<dots> = trashFolder ''x'' 9 ?b1" by (rule cleanup_rests) code_simp
    finally show ?thesis by (simp only:) code_simp
  qed
  ultimately show ?thesis by blast
qed

text \<open>The cleanup that follows the deletion of a folder marker starts from a folder that is already in the trash.\<close>

lemma marker_deletion_keeps_parents:
  "deleteFolderMarker u bucketName key now b = (Inr True, b') \<Longrightarrow>
   \<exists>bk fid. liveChild u None bucketName b = Some bk \<and> followPath u (pathParts key) (fld_id bk) b = Some fid \<and> b' = trashFolder fid now b"
proof -
  assume run: "deleteFolderMarker u bucketName key now b = (Inr True, b')"
  then obtain bk fid where f: "liveChild u None bucketName b = Some bk" "followPath u (pathParts key) (fld_id bk) b = Some fid"
    "b' = cleanupEmptyFolders u (Some fid) now (trashFolder fid now b)"
    by (auto simp: deleteFolderMarker_def op_simps trashFolder_def thenOp_def bindOp_def modifyOp_def returnOp_def
        split: if_splits option.splits)
  have "liveFolder fid u (trashFolder fid now b) = None" by (rule trash_gone) simp
  then have "cleanupEmptyFolders u (Some fid) now (trashFolder fid now b) = trashFolder fid now b"
    by (intro cleanup_rests) (simp add: removable_def)
  with f show ?thesis by auto
qed

end
