(* ===== verification/S3Listing.thy ===== *)
theory S3Listing
  imports S3Keys
begin

section \<open>Listings of a bucket\<close>

text \<open>
  The traversal of \<open>listRecursiveOptimized\<close> ends, a listing with prefix and delimiter is the grouping that S3
  prescribes of the plain listing, and the plain listing shows exactly the objects that can be read.
\<close>

subsection \<open>The traversal ends\<close>

text \<open>The folders from one below the bucket up to the bucket.\<close>

fun chain :: "folder_row list \<Rightarrow> string \<Rightarrow> string list \<Rightarrow> bool" where
  "chain fs r [] = False"
| "chain fs r [x] = (x = r)"
| "chain fs r (x # y # zs) = ((\<exists>g \<in> set fs. fld_id g = x \<and> fld_parentId g = Some y) \<and> chain fs r (y # zs))"

definition rooted :: "folder_row list \<Rightarrow> string \<Rightarrow> bool" where
  "rooted fs r \<longleftrightarrow> distinct (map fld_id fs) \<and> (\<forall>g \<in> set fs. fld_id g = r \<longrightarrow> fld_parentId g = None)"

lemma rooted_unique: "rooted fs r \<Longrightarrow> g \<in> set fs \<Longrightarrow> h \<in> set fs \<Longrightarrow> fld_id g = fld_id h \<Longrightarrow> g = h"
  by (auto simp: rooted_def distinct_map inj_on_def)

lemma childrenOf_iff: "c \<in> set (childrenOf fs x) \<longleftrightarrow> c \<in> set fs \<and> fld_parentId c = Some x \<and> x \<noteq> []"
  by (auto simp: childrenOf_def present_def)

lemma chain_parent:
  "rooted fs r \<Longrightarrow> chain fs r zs \<Longrightarrow> c \<in> set fs \<Longrightarrow> fld_parentId c = Some x \<Longrightarrow> fld_id c \<in> set zs \<Longrightarrow> x \<in> set (tl zs)"
proof (induction fs r zs rule: chain.induct)
  case (2 fs r z)
  then show ?case by (auto simp: rooted_def)
next
  case (3 fs r z y zs)
  show ?case
  proof (cases "fld_id c = z")
    case True
    from 3(3) obtain g where "g \<in> set fs" "fld_id g = z" "fld_parentId g = Some y" by auto
    with True rooted_unique [OF 3(2) 3(4)] 3(5) show ?thesis by fastforce
  next
    case False
    with 3 show ?thesis by (cases zs) auto
  qed
qed simp

lemma chain_child:
  assumes "rooted fs r" and "chain fs r (x # anc)" and "distinct (x # anc)" and "c \<in> set (childrenOf fs x)"
  shows "chain fs r (fld_id c # x # anc)" and "distinct (fld_id c # x # anc)"
  using assms chain_parent [OF assms(1,2), of c x] by (auto simp: childrenOf_iff)

lemma chain_set: "chain fs r zs \<Longrightarrow> set zs \<subseteq> insert r (fld_id ` set fs)"
  by (induction fs r zs rule: chain.induct) auto

lemma chain_length:
  assumes "chain fs r zs" and "distinct zs"
  shows "length zs \<le> length fs + 1"
proof -
  have "length zs = card (set zs)" using assms(2) by (simp add: distinct_card)
  also have "\<dots> \<le> card (insert r (fld_id ` set fs))" using chain_set [OF assms(1)] by (intro card_mono) auto
  also have "\<dots> \<le> Suc (card (fld_id ` set fs))" by (rule card_insert_le_m1) simp_all
  also have "\<dots> \<le> length fs + 1" using card_image_le [of "set fs" fld_id] card_length [of fs] by simp
  finally show ?thesis .
qed

lemma concatAll_Some: "(\<forall>x \<in> set xs. x \<noteq> None) \<Longrightarrow> concatAll xs = Some (concat (map the xs))"
  by (induction xs) (auto simp: concatAll_def)

lemma concatAll_SomeD: "concatAll xs = Some ys \<Longrightarrow> ys = concat (map the xs) \<and> (\<forall>x \<in> set xs. x \<noteq> None)"
  by (induction xs arbitrary: ys) (auto simp: concatAll_def split: option.splits)

lemma visit_Some:
  "recurse (fld_id c) (joinPath path (fld_name c)) \<noteq> None \<Longrightarrow> visit fs ft up p d path recurse c \<noteq> None"
  by (simp add: visit_def Let_def split: option.split)

lemma traverse_total:
  "rooted fs r \<Longrightarrow> chain fs r (x # anc) \<Longrightarrow> distinct (x # anc) \<Longrightarrow> length fs + 2 \<le> n + length (x # anc) \<Longrightarrow>
   traverse n fs ft up p d x path \<noteq> None"
proof (induction n arbitrary: x anc path)
  case 0
  with chain_length [of fs r "x # anc"] show ?case by simp
next
  case (Suc n)
  have "visit fs ft up p d path (traverse n fs ft up p d) c \<noteq> None" if c: "c \<in> set (childrenOf fs x)" for c
    using chain_child [OF Suc.prems(1-3) c] Suc.prems(1,4) by (intro visit_Some Suc.IH [of "fld_id c" "x # anc"]) simp_all
  then have "concatAll (map (visit fs ft up p d path (traverse n fs ft up p d)) (childrenOf fs x)) \<noteq> None"
    by (subst concatAll_Some) auto
  then show ?case by simp
qed

lemma walkDown_total:
  assumes "rooted fs r" and "distinct (P @ Q)" and "set (P @ Q) \<subseteq> insert r (fld_id ` set fs)"
    and "\<And>c. c \<in> set fs \<Longrightarrow> fld_id c \<in> set (P @ Q) \<Longrightarrow> fld_id c \<noteq> r \<Longrightarrow> \<exists>p \<in> set P. fld_parentId c = Some p"
    and "\<And>p c. p \<in> set P \<Longrightarrow> c \<in> set (childrenOf fs p) \<Longrightarrow> fld_id c \<in> set (P @ Q)"
    and "set found = set (P @ Q)" and "length fs + 2 \<le> n + length P"
  shows "\<exists>ids. walkDown n fs Q found = Some ids \<and> set found \<subseteq> set ids \<and> set ids \<subseteq> insert r (fld_id ` set fs) \<and>
    (\<forall>p c. p \<in> set ids \<and> c \<in> set (childrenOf fs p) \<longrightarrow> fld_id c \<in> set ids)"
  using assms(2-)
proof (induction n arbitrary: P Q found)
  case 0
  have "card (set P) \<le> card (insert r (fld_id ` set fs))" using 0(2) by (intro card_mono) auto
  also have "\<dots> \<le> Suc (card (fld_id ` set fs))" by (rule card_insert_le_m1) simp_all
  also have "\<dots> \<le> length fs + 1" using card_image_le [of "set fs" fld_id] card_length [of fs] by simp
  finally show ?case using 0(1,6) by (simp add: distinct_card)
next
  case (Suc n)
  show ?case
  proof (cases Q)
    case Nil
    with Suc.prems(2,4,5) show ?thesis by auto
  next
    case (Cons x Q')
    let ?cs = "map fld_id (childrenOf fs x)"
    have new: "fld_id c \<notin> set (P @ Q)" if "c \<in> set (childrenOf fs x)" for c
    proof
      assume "fld_id c \<in> set (P @ Q)"
      moreover have "c \<in> set fs" "fld_parentId c = Some x" using that by (auto simp: childrenOf_iff)
      moreover from this have "fld_id c \<noteq> r" using assms(1) by (auto simp: rooted_def)
      ultimately have "x \<in> set P" using Suc.prems(3) by fastforce
      with Suc.prems(1) Cons show False by simp
    qed
    have "distinct ?cs" using assms(1) by (auto simp: rooted_def childrenOf_def distinct_map_filter)
    with new have 1: "distinct ((P @ [x]) @ (Q' @ ?cs))" using Suc.prems(1) Cons by auto
    have 2: "set ((P @ [x]) @ (Q' @ ?cs)) \<subseteq> insert r (fld_id ` set fs)"
      using Suc.prems(2) Cons by (auto simp: childrenOf_iff)
    have 3: "\<exists>p \<in> set (P @ [x]). fld_parentId c = Some p" if "c \<in> set fs" "fld_id c \<in> set ((P @ [x]) @ (Q' @ ?cs))" "fld_id c \<noteq> r" for c
    proof (cases "fld_id c \<in> set ?cs")
      case True
      then obtain c' where "c' \<in> set (childrenOf fs x)" "fld_id c' = fld_id c" by auto
      with rooted_unique [OF assms(1) that(1), of c'] show ?thesis by (auto simp: childrenOf_iff)
    next
      case False
      with that Cons have "fld_id c \<in> set (P @ Q)" by auto
      with Suc.prems(3) [OF that(1) _ that(3)] show ?thesis by auto
    qed
    have 4: "fld_id c \<in> set ((P @ [x]) @ (Q' @ ?cs))" if "p \<in> set (P @ [x])" "c \<in> set (childrenOf fs p)" for p c
      using that Suc.prems(4) [of p c] Cons by (cases "p = x") auto
    have 5: "set (found @ ?cs) = set ((P @ [x]) @ (Q' @ ?cs))" using Suc.prems(5) Cons by auto
    have 6: "length fs + 2 \<le> n + length (P @ [x])" using Suc.prems(6) by simp
    have "\<exists>ids. walkDown n fs (Q' @ ?cs) (found @ ?cs) = Some ids \<and> set (found @ ?cs) \<subseteq> set ids \<and> set ids \<subseteq> insert r (fld_id ` set fs) \<and>
        (\<forall>p c. p \<in> set ids \<and> c \<in> set (childrenOf fs p) \<longrightarrow> fld_id c \<in> set ids)"
      by (rule Suc.IH [OF 1 2 _ _ 5 6]) (use 3 4 in blast)+
    with Cons show ?thesis by (auto simp: Let_def)
  qed
qed

subsection \<open>The whole bucket\<close>

text \<open>The traversal without prefix and delimiter shows every file and the empty folders.\<close>

abbreviation wholeTree :: "nat \<Rightarrow> folder_row list \<Rightarrow> (string \<Rightarrow> file_row list) \<Rightarrow> (folder_row \<Rightarrow> int) \<Rightarrow> string \<Rightarrow> string \<Rightarrow> listed list option" where
  "wholeTree n fs ft up \<equiv> traverse n fs ft up [] None"

abbreviation wholeVisit where
  "wholeVisit n fs ft up path \<equiv> visit fs ft up [] None path (wholeTree n fs ft up)"

lemma startsWith_Nil [simp]: "jsStartsWith [] s"
  by (simp add: jsStartsWith_def)

lemma startsWith_append [simp]: "jsStartsWith p (p @ s)"
  by (simp add: jsStartsWith_def)

lemma startsWith_iff: "jsStartsWith p s \<longleftrightarrow> (\<exists>r. s = p @ r)"
  by (metis append_take_drop_id jsStartsWith_def startsWith_append)

lemma traverse_Suc:
  "traverse (Suc n) fs ft up p d x path = Some ys \<longleftrightarrow>
   (\<forall>c \<in> set (childrenOf fs x). visit fs ft up p d path (traverse n fs ft up p d) c \<noteq> None) \<and>
   ys = concat (map (listFile p d path) (ft x)) @ concat (map (\<lambda>c. the (visit fs ft up p d path (traverse n fs ft up p d) c)) (childrenOf fs x))"
  by (auto simp: concatAll_Some comp_def dest!: concatAll_SomeD)

lemma wholeVisit_cases:
  "wholeVisit n fs ft up path c = (if childrenOf fs (fld_id c) = [] \<and> ft (fld_id c) = []
     then Some [ListedObject (markerObject up (joinPath path (fld_name c) @ ''/'') c)]
     else wholeTree n fs ft up (fld_id c) (joinPath path (fld_name c)))"
  by (simp add: visit_def Let_def)

lemma concat_map_concat: "concat (map g (concat (map f xs))) = concat (map (\<lambda>x. concat (map g (f x))) xs)"
  by (induction xs) simp_all

definition keyBelow :: "string \<Rightarrow> listed \<Rightarrow> bool" where
  "keyBelow path l \<longleftrightarrow> (\<exists>ob. l = ListedObject ob \<and> jsStartsWith path (so_key ob))"

lemma whole_file: "listFile [] None path f = [ListedObject (fileObject (joinPath path (fr_filename f)) f)]"
  by (simp add: listFile_def Let_def)

lemma joinPath_prefix: "path \<noteq> [] \<Longrightarrow> jsStartsWith (path @ ''/'') (joinPath path n)"
  by (simp add: joinPath_def startsWith_iff)

lemma joinPath_nonempty: "n \<noteq> [] \<Longrightarrow> joinPath path n \<noteq> []"
  by (simp add: joinPath_def)

lemma startsWith_trans: "jsStartsWith a b \<Longrightarrow> jsStartsWith b c \<Longrightarrow> jsStartsWith a c"
  unfolding startsWith_iff by auto

definition namedFolders :: "folder_row list \<Rightarrow> bool" where
  "namedFolders fs \<longleftrightarrow> (\<forall>g \<in> set fs. fld_name g \<noteq> [] \<and> CHR ''/'' \<notin> set (fld_name g))"

lemma whole_keys:
  assumes "namedFolders fs" and "path \<noteq> []" and "wholeTree n fs ft up x path = Some ys" and "l \<in> set ys"
  shows "keyBelow (path @ ''/'') l"
  using assms(2-)
proof (induction n arbitrary: x path ys l)
  case (Suc n)
  from Suc.prems(2,3) consider (here) f where "f \<in> set (ft x)" "l = ListedObject (fileObject (joinPath path (fr_filename f)) f)"
    | (under) c zs where "c \<in> set (childrenOf fs x)" "wholeVisit n fs ft up path c = Some zs" "l \<in> set zs"
    unfolding traverse_Suc by (auto simp: whole_file)
  then show ?case
  proof cases
    case here
    then show ?thesis using joinPath_prefix [OF Suc.prems(1)] by (auto simp: keyBelow_def fileObject_def)
  next
    case under
    let ?q = "joinPath path (fld_name c)"
    have q: "?q \<noteq> []" using Suc.prems(1) by (simp add: joinPath_def)
    have pre: "jsStartsWith (path @ ''/'') (?q @ ''/'')"
      using joinPath_prefix [OF Suc.prems(1), of "fld_name c"] startsWith_append startsWith_trans by blast
    show ?thesis
    proof (cases "childrenOf fs (fld_id c) = [] \<and> ft (fld_id c) = []")
      case True
      with under pre show ?thesis by (auto simp: wholeVisit_cases keyBelow_def markerObject_def)
    next
      case False
      with under Suc.IH [OF q, of "fld_id c" zs l] have "keyBelow (?q @ ''/'') l" by (auto simp: wholeVisit_cases split: if_splits)
      with pre show ?thesis using startsWith_trans by (auto simp: keyBelow_def)
    qed
  qed
qed simp

lemma visit_keys:
  assumes "namedFolders fs" and "c \<in> set fs" and "wholeVisit n fs ft up path c = Some zs" and "l \<in> set zs"
  shows "keyBelow (joinPath path (fld_name c) @ ''/'') l"
proof (cases "childrenOf fs (fld_id c) = [] \<and> ft (fld_id c) = []")
  case True
  with assms(3,4) show ?thesis by (auto simp: wholeVisit_cases keyBelow_def markerObject_def startsWith_iff)
next
  case False
  have "joinPath path (fld_name c) \<noteq> []" using assms(1,2) by (auto simp: namedFolders_def joinPath_def)
  with False whole_keys [OF assms(1) this, of n ft up "fld_id c" zs l] assms(3,4) show ?thesis
    by (auto simp: wholeVisit_cases split: if_splits)
qed

lemma whole_nonempty: "wholeTree n fs ft up x path = Some ys \<Longrightarrow> childrenOf fs x \<noteq> [] \<or> ft x \<noteq> [] \<Longrightarrow> ys \<noteq> []"
proof (induction n arbitrary: x path ys)
  case (Suc n)
  show ?case
  proof (cases "ft x")
    case Nil
    with Suc.prems(2) obtain c cs where c: "childrenOf fs x = c # cs" by (cases "childrenOf fs x") auto
    with Suc.prems(1) obtain zs where zs: "wholeVisit n fs ft up path c = Some zs" unfolding traverse_Suc by auto
    have "zs \<noteq> []"
      using zs Suc.IH [of "fld_id c" "joinPath path (fld_name c)" zs] by (auto simp: wholeVisit_cases split: if_splits)
    with Suc.prems(1) c zs show ?thesis unfolding traverse_Suc by auto
  next
    case (Cons f fs')
    with Suc.prems(1) show ?thesis unfolding traverse_Suc by (simp add: whole_file)
  qed
qed simp

lemma visit_nonempty: "wholeVisit n fs ft up path c = Some zs \<Longrightarrow> zs \<noteq> []"
  using whole_nonempty [of n fs ft up "fld_id c" "joinPath path (fld_name c)" zs] by (auto simp: wholeVisit_cases split: if_splits)

subsection \<open>Prefix and delimiter\<close>

text \<open>What S3 makes of a key; a folder's own marker is not listed under its own prefix.\<close>

definition grouped :: "string \<Rightarrow> listed \<Rightarrow> listed list" where
  "grouped p l = (case l of ListedPrefix q \<Rightarrow> [] | ListedObject ob \<Rightarrow> (let k = so_key ob in
     if \<not> jsStartsWith p k then [] else (case collapse p ''/'' k of Some q \<Rightarrow> [ListedPrefix q]
       | None \<Rightarrow> if k = p \<and> endsWithSlash k then [] else [ListedObject ob])))"

definition prefixesOf :: "listed list \<Rightarrow> string set" where
  "prefixesOf xs = {q. ListedPrefix q \<in> set xs}"

definition sameListing :: "listed list \<Rightarrow> listed list \<Rightarrow> bool" where
  "sameListing xs ys \<longleftrightarrow> listedObjects xs = listedObjects ys \<and> prefixesOf xs = prefixesOf ys"

lemma sameListing_refl [simp]: "sameListing xs xs"
  by (simp add: sameListing_def)

lemma sameListing_append: "sameListing a b \<Longrightarrow> sameListing c d \<Longrightarrow> sameListing (a @ c) (b @ d)"
  by (auto simp: sameListing_def listedObjects_def prefixesOf_def)

lemma sameListing_concat: "(\<And>x. x \<in> set xs \<Longrightarrow> sameListing (f x) (g x)) \<Longrightarrow> sameListing (concat (map f xs)) (concat (map g xs))"
  by (induction xs) (simp_all add: sameListing_append)

lemma indexOf_slash: "jsIndexOf ''/'' s = (if CHR ''/'' \<in> set s then Some (length (takeWhile (\<lambda>c. c \<noteq> CHR ''/'') s)) else None)"
  by (induction s) (auto simp: jsStartsWith_def)

lemma take_upto: "CHR ''/'' \<in> set s \<Longrightarrow> take (Suc (length (takeWhile (\<lambda>c. c \<noteq> CHR ''/'') s))) s = takeWhile (\<lambda>c. c \<noteq> CHR ''/'') s @ ''/''"
  by (induction s) auto

lemma collapse_slash:
  "collapse p ''/'' k = (let rest = drop (length p) k in
     if CHR ''/'' \<in> set rest then Some (p @ takeWhile (\<lambda>c. c \<noteq> CHR ''/'') rest @ ''/'') else None)"
  by (simp add: collapse_def indexOf_slash take_upto Let_def)

lemma takeWhile_slash: "CHR ''/'' \<in> set a \<Longrightarrow> takeWhile (\<lambda>c. c \<noteq> CHR ''/'') (a @ b) = takeWhile (\<lambda>c. c \<noteq> CHR ''/'') a"
  by (induction a) auto

lemma not_outside:
  assumes "\<not> jsStartsWith p full" and "\<not> jsStartsWith full p" and "jsStartsWith full k"
  shows "\<not> jsStartsWith p k"
proof
  assume "jsStartsWith p k"
  with assms(3) obtain a c where "p @ a = full @ c" unfolding startsWith_iff by metis
  then have "jsStartsWith p full \<or> jsStartsWith full p"
    unfolding startsWith_iff by (auto simp: append_eq_append_conv2)
  with assms(1,2) show False by blast
qed

lemma grouped_outside: "\<not> jsStartsWith p full \<Longrightarrow> \<not> jsStartsWith full p \<Longrightarrow> keyBelow full l \<Longrightarrow> grouped p l = []"
  using not_outside [of p full] by (auto simp: grouped_def keyBelow_def)

lemma grouped_inside:
  assumes "jsStartsWith p full" and "p \<noteq> full" and "endsWithSlash full" and "keyBelow full l"
  shows "grouped p l = [ListedPrefix (p @ takeWhile (\<lambda>c. c \<noteq> CHR ''/'') (drop (length p) full) @ ''/'')]"
    and "collapse p ''/'' full = Some (p @ takeWhile (\<lambda>c. c \<noteq> CHR ''/'') (drop (length p) full) @ ''/'')"
proof -
  obtain rest where full: "full = p @ rest" "rest \<noteq> []" using assms(1,2) by (auto simp: startsWith_iff)
  have slash: "CHR ''/'' \<in> set rest" using assms(3) full by (metis endsWithSlash_def last_appendR last_in_set)
  from assms(4) full obtain ob more where ob: "l = ListedObject ob" "so_key ob = p @ rest @ more" by (auto simp: keyBelow_def startsWith_iff)
  show "collapse p ''/'' full = Some (p @ takeWhile (\<lambda>c. c \<noteq> CHR ''/'') (drop (length p) full) @ ''/'')"
    using slash full by (simp add: collapse_slash)
  show "grouped p l = [ListedPrefix (p @ takeWhile (\<lambda>c. c \<noteq> CHR ''/'') (drop (length p) full) @ ''/'')]"
    using slash full ob by (simp add: grouped_def collapse_slash takeWhile_slash)
qed

lemma listFile_grouped:
  assumes "CHR ''/'' \<notin> set (fr_filename f)" and "fr_filename f \<noteq> []"
  shows "listFile p (Some ''/'') path f = concat (map (grouped p) (listFile [] None path f))"
proof -
  have "\<not> endsWithSlash (joinPath path (fr_filename f))"
  proof -
    have "last (fr_filename f) \<noteq> CHR ''/''" using assms last_in_set [of "fr_filename f"] by metis
    then show ?thesis using assms(2) by (auto simp: endsWithSlash_def joinPath_def)
  qed
  then show ?thesis
    by (auto simp: listFile_def whole_file grouped_def fileObject_def Let_def split: option.split)
qed

lemma empty_traverse: "n \<noteq> 0 \<Longrightarrow> childrenOf fs x = [] \<Longrightarrow> ft x = [] \<Longrightarrow> traverse n fs ft up p d x path = Some []"
  by (cases n) (simp_all add: concatAll_def)

lemma grouped_const:
  assumes "zs \<noteq> []" and "\<And>l. l \<in> set zs \<Longrightarrow> grouped p l = [ListedPrefix q]"
  shows "sameListing [ListedPrefix q] (concat (map (grouped p) zs))"
proof -
  have "concat (map (grouped p) zs) = map (\<lambda>_. ListedPrefix q) zs" using assms(2) by (induction zs) auto
  with assms(1) show ?thesis by (cases zs) (auto simp: sameListing_def listedObjects_def prefixesOf_def)
qed

lemma traverse_grouped:
  assumes "namedFolders fs" and "\<And>x f. f \<in> set (ft x) \<Longrightarrow> CHR ''/'' \<notin> set (fr_filename f) \<and> fr_filename f \<noteq> []"
  shows "traverse n fs ft up p (Some ''/'') x path = Some ys \<Longrightarrow> wholeTree n fs ft up x path = Some zs \<Longrightarrow>
    sameListing ys (concat (map (grouped p) zs))"
proof (induction n arbitrary: x path ys zs)
  case (Suc n)
  let ?V = "visit fs ft up p (Some ''/'') path (traverse n fs ft up p (Some ''/''))" and ?W = "wholeVisit n fs ft up path"
  have child: "sameListing (the (?V c)) (concat (map (grouped p) (the (?W c))))" if c: "c \<in> set (childrenOf fs x)" for c
  proof -
    obtain vs where vs: "?V c = Some vs" using Suc.prems(1) c unfolding traverse_Suc by auto
    obtain ws where ws: "?W c = Some ws" using Suc.prems(2) c unfolding traverse_Suc by auto
    let ?q = "joinPath path (fld_name c)" and ?full = "joinPath path (fld_name c) @ ''/''"
    have below: "keyBelow ?full l" if "l \<in> set ws" for l
      using visit_keys [OF assms(1) _ ws that] c by (simp add: childrenOf_iff)
    show ?thesis
    proof (cases "jsStartsWith ?full p")
      case True
      then have rec: "traverse n fs ft up p (Some ''/'') (fld_id c) ?q = Some vs" using vs by (simp add: visit_def Let_def)
      show ?thesis
      proof (cases "childrenOf fs (fld_id c) = [] \<and> ft (fld_id c) = []")
        case empty: True
        have "n \<noteq> 0" using rec by (cases n) simp_all
        with empty rec have "vs = []" using empty_traverse [of n fs "fld_id c" ft] by simp
        have m: "ws = [ListedObject (markerObject up ?full c)]" using ws empty by (simp add: wholeVisit_cases)
        have "p = ?full \<or> \<not> jsStartsWith p ?full" using True by (auto simp: startsWith_iff)
        then have "grouped p (ListedObject (markerObject up ?full c)) = []"
          by (auto simp: grouped_def markerObject_def collapse_slash endsWithSlash_def Let_def)
        with m \<open>vs = []\<close> vs ws show ?thesis by simp
      next
        case False
        with ws have "wholeTree n fs ft up (fld_id c) ?q = Some ws" by (simp only: wholeVisit_cases if_False)
        from Suc.IH [OF rec this] vs ws show ?thesis by simp
      qed
    next
      case notAbove: False
      show ?thesis
      proof (cases "jsStartsWith p ?full")
        case True
        have ne: "p \<noteq> ?full" using notAbove by (metis append_Nil2 startsWith_append)
        have e: "endsWithSlash ?full" by (simp add: endsWithSlash_def)
        obtain l where l: "l \<in> set ws" using visit_nonempty [OF ws] by (cases ws) auto
        note in1 = grouped_inside(1) [OF True ne e] and in2 = grouped_inside(2) [OF True ne e below [OF l]]
        have "vs = [ListedPrefix (p @ takeWhile (\<lambda>c. c \<noteq> CHR ''/'') (drop (length p) ?full) @ ''/'')]"
          using vs notAbove True in2 by (simp add: visit_def Let_def)
        with grouped_const [OF visit_nonempty [OF ws], of p] in1 below vs ws show ?thesis by simp
      next
        case False
        then have "vs = []" using vs notAbove by (simp add: visit_def Let_def)
        moreover have "concat (map (grouped p) ws) = []" using grouped_outside [OF False notAbove below] by simp
        ultimately show ?thesis unfolding vs ws by (simp only: option.sel sameListing_refl)
      qed
    qed
  qed
  have "sameListing (concat (map (listFile p (Some ''/'') path) (ft x))) (concat (map (\<lambda>f. concat (map (grouped p) (listFile [] None path f))) (ft x)))"
    using assms(2) by (intro sameListing_concat) (simp add: listFile_grouped)
  moreover have "sameListing (concat (map (\<lambda>c. the (?V c)) (childrenOf fs x))) (concat (map (\<lambda>c. concat (map (grouped p) (the (?W c)))) (childrenOf fs x)))"
    by (intro sameListing_concat child)
  ultimately show ?case
    using sameListing_append Suc.prems unfolding traverse_Suc by (simp add: concat_map_concat)
qed simp

text \<open>A prefix alone selects the keys that start with it.\<close>

definition selected :: "string \<Rightarrow> listed \<Rightarrow> listed list" where
  "selected p l = (case l of ListedPrefix q \<Rightarrow> [] | ListedObject ob \<Rightarrow> if jsStartsWith p (so_key ob) then [l] else [])"

lemma selected_outside: "\<not> jsStartsWith p full \<Longrightarrow> \<not> jsStartsWith full p \<Longrightarrow> keyBelow full l \<Longrightarrow> selected p l = []"
  using not_outside [of p full] by (auto simp: selected_def keyBelow_def)

lemma traverse_selected:
  assumes "namedFolders fs"
  shows "traverse n fs ft up p None x path = Some ys \<Longrightarrow> wholeTree n fs ft up x path = Some zs \<Longrightarrow> ys = concat (map (selected p) zs)"
proof (induction n arbitrary: x path ys zs)
  case (Suc n)
  let ?V = "visit fs ft up p None path (traverse n fs ft up p None)" and ?W = "wholeVisit n fs ft up path"
  have child: "the (?V c) = concat (map (selected p) (the (?W c)))" if c: "c \<in> set (childrenOf fs x)" for c
  proof -
    obtain vs where vs: "?V c = Some vs" using Suc.prems(1) c unfolding traverse_Suc by auto
    obtain ws where ws: "?W c = Some ws" using Suc.prems(2) c unfolding traverse_Suc by auto
    let ?q = "joinPath path (fld_name c)" and ?full = "joinPath path (fld_name c) @ ''/''"
    have below: "keyBelow ?full l" if "l \<in> set ws" for l
      using visit_keys [OF assms _ ws that] c by (simp add: childrenOf_iff)
    show ?thesis
    proof (cases "jsStartsWith p ?full \<or> jsStartsWith ?full p")
      case False
      then have "vs = []" using vs by (simp add: visit_def Let_def)
      moreover have "concat (map (selected p) ws) = []" using selected_outside [of p ?full] False below by simp
      ultimately show ?thesis unfolding vs ws by simp
    next
      case True
      show ?thesis
      proof (cases "childrenOf fs (fld_id c) = [] \<and> ft (fld_id c) = []")
        case leaf: True
        with True vs ws show ?thesis by (auto simp: visit_def Let_def selected_def markerObject_def)
      next
        case False
        with ws have w: "wholeTree n fs ft up (fld_id c) ?q = Some ws" by (simp only: wholeVisit_cases if_False)
        have "traverse n fs ft up p None (fld_id c) ?q = Some vs" using vs True False by (simp add: visit_def Let_def split: if_splits)
        from Suc.IH [OF this w] vs ws show ?thesis by simp
      qed
    qed
  qed
  have "listFile p None path f = concat (map (selected p) (listFile [] None path f))" for f
    by (simp add: listFile_def selected_def fileObject_def Let_def)
  with Suc.prems child show ?case
    unfolding traverse_Suc by (simp add: concat_map_concat cong: map_cong)
qed simp

subsection \<open>The listing of a bucket\<close>

text \<open>What the tables of a user look like as long as no two live folders of a place have the same name.\<close>

definition tidyNames :: "string \<Rightarrow> backend \<Rightarrow> bool" where
  "tidyNames u b \<longleftrightarrow> distinct (map fld_id (bk_folders b)) \<and> namedIds b \<and> namedFolders (liveOf u b) \<and>
     (\<forall>f \<in> set (bk_files b). fr_userId f = u \<and> fr_deletedAt f = None \<longrightarrow> CHR ''/'' \<notin> set (fr_filename f) \<and> fr_filename f \<noteq> [])"

lemma liveChild_SomeD: "liveChild u p n b = Some f \<Longrightarrow>
  f \<in> set (liveOf u b) \<and> f \<in> set (bk_folders b) \<and> fld_name f = n \<and> fld_parentId f = p \<and> fld_userId f = u \<and> fld_deletedAt f = None"
  unfolding liveChild_def liveOf_def by (drule find_SomeD) simp

lemma bucket_rooted:
  assumes "distinct (map fld_id (bk_folders b))" and "liveChild u None n b = Some bk"
  shows "rooted (liveOf u b) (fld_id bk)"
proof -
  have "g = bk" if "g \<in> set (liveOf u b)" "fld_id g = fld_id bk" for g
    using that assms(1) liveChild_SomeD [OF assms(2)] by (auto simp: liveOf_def distinct_map inj_on_def)
  then show ?thesis using assms(1) liveChild_SomeD [OF assms(2)] by (auto simp: rooted_def liveOf_def distinct_map_filter)
qed

definition bucketFiles :: "string \<Rightarrow> string \<Rightarrow> backend \<Rightarrow> string list \<Rightarrow> string \<Rightarrow> file_row list" where
  "bucketFiles u r b ids = filesIn r (filesBelow u ids b)"

lemma listing_runs:
  assumes "distinct (map fld_id (bk_folders b))" and "liveChild u None n b = Some bk"
  obtains ids where "walkDown (length (liveOf u b) + 2) (liveOf u b) [fld_id bk] [fld_id bk] = Some ids" "fld_id bk \<in> set ids"
    "set ids \<subseteq> insert (fld_id bk) (fld_id ` set (liveOf u b))"
    "\<And>p c. p \<in> set ids \<Longrightarrow> c \<in> set (childrenOf (liveOf u b) p) \<Longrightarrow> fld_id c \<in> set ids"
    "\<And>p d. \<exists>ys. traverse (length (liveOf u b) + 2) (liveOf u b) (bucketFiles u (fld_id bk) b ids) up p d (fld_id bk) [] = Some ys"
proof -
  note root = bucket_rooted [OF assms]
  have ids: "\<exists>ids. walkDown (length (liveOf u b) + 2) (liveOf u b) [fld_id bk] [fld_id bk] = Some ids \<and> set [fld_id bk] \<subseteq> set ids \<and>
      set ids \<subseteq> insert (fld_id bk) (fld_id ` set (liveOf u b)) \<and>
      (\<forall>p c. p \<in> set ids \<and> c \<in> set (childrenOf (liveOf u b) p) \<longrightarrow> fld_id c \<in> set ids)"
    by (rule walkDown_total [OF root, of "[]" "[fld_id bk]"]) simp_all
  have "\<exists>ys. traverse (length (liveOf u b) + 2) (liveOf u b) ft up p d (fld_id bk) [] = Some ys" for ft p d
    using traverse_total [OF root, of "fld_id bk" "[]" "length (liveOf u b) + 2" ft up p d "[]"] by auto
  with ids that show thesis by auto
qed

lemma bucketFiles_named:
  assumes "tidyNames u b" and "f \<in> set (bucketFiles u r b ids x)"
  shows "CHR ''/'' \<notin> set (fr_filename f) \<and> fr_filename f \<noteq> []"
  using assms by (auto simp: tidyNames_def bucketFiles_def filesIn_def filesBelow_def)

lemma whole_objects: "wholeTree n fs ft up x path = Some ys \<Longrightarrow> l \<in> set ys \<Longrightarrow> \<exists>ob. l = ListedObject ob"
proof (induction n arbitrary: x path ys)
  case (Suc n)
  then show ?case
    unfolding traverse_Suc by (fastforce simp: whole_file wholeVisit_cases split: if_splits)
qed simp

lemma objects_only: "(\<And>l. l \<in> set ys \<Longrightarrow> \<exists>ob. l = ListedObject ob) \<Longrightarrow> ys = map ListedObject (listedObjects ys)"
proof (induction ys)
  case (Cons l ys)
  then obtain ob where "l = ListedObject ob" by auto
  with Cons show ?case by (simp add: listedObjects_def)
qed (simp add: listedObjects_def)

lemma set_listedPrefixes [simp]: "set (listedPrefixes xs) = prefixesOf xs"
  by (force simp: listedPrefixes_def prefixesOf_def split: listed.splits)

lemma distinct_listedPrefixes [simp]: "distinct (listedPrefixes xs)"
  by (simp add: listedPrefixes_def)

lemma listedPrefixes_objects [simp]: "listedPrefixes (map ListedObject obs) = []"
  by (induction obs) (simp_all add: listedPrefixes_def)

lemma listedObjects_objects [simp]: "listedObjects (map ListedObject obs) = obs"
  by (induction obs) (simp_all add: listedObjects_def)

definition uptoSlash :: "string \<Rightarrow> string \<Rightarrow> string" where
  "uptoSlash p k = p @ takeWhile (\<lambda>c. c \<noteq> CHR ''/'') (drop (length p) k) @ ''/''"

definition directlyBelow :: "string \<Rightarrow> string \<Rightarrow> bool" where
  "directlyBelow p k \<longleftrightarrow> jsStartsWith p k \<and> CHR ''/'' \<notin> set (drop (length p) k) \<and> \<not> (k = p \<and> endsWithSlash k)"

lemma grouped_object: "grouped p (ListedObject ob) =
  (if jsStartsWith p (so_key ob) \<and> CHR ''/'' \<in> set (drop (length p) (so_key ob)) then [ListedPrefix (uptoSlash p (so_key ob))]
   else if directlyBelow p (so_key ob) then [ListedObject ob] else [])"
  by (auto simp: grouped_def directlyBelow_def uptoSlash_def collapse_slash Let_def)

lemma grouped_objects:
  "listedObjects (concat (map (grouped p) (map ListedObject obs))) = filter (\<lambda>ob. directlyBelow p (so_key ob)) obs"
  "prefixesOf (concat (map (grouped p) (map ListedObject obs))) =
     uptoSlash p ` {k \<in> so_key ` set obs. jsStartsWith p k \<and> CHR ''/'' \<in> set (drop (length p) k)}"
proof -
  show "listedObjects (concat (map (grouped p) (map ListedObject obs))) = filter (\<lambda>ob. directlyBelow p (so_key ob)) obs"
    by (induction obs) (simp_all add: grouped_object listedObjects_def directlyBelow_def)
  have "prefixesOf (concat (map (grouped p) (map ListedObject obs))) =
      (\<Union>ob \<in> set obs. prefixesOf (grouped p (ListedObject ob)))" by (auto simp: prefixesOf_def)
  also have "\<dots> = uptoSlash p ` {k \<in> so_key ` set obs. jsStartsWith p k \<and> CHR ''/'' \<in> set (drop (length p) k)}"
    by (auto simp: grouped_object prefixesOf_def split: if_splits)
  finally show "prefixesOf (concat (map (grouped p) (map ListedObject obs))) =
     uptoSlash p ` {k \<in> so_key ` set obs. jsStartsWith p k \<and> CHR ''/'' \<in> set (drop (length p) k)}" .
qed

lemma selected_objects: "concat (map (selected p) (map ListedObject obs)) = map ListedObject (filter (\<lambda>ob. jsStartsWith p (so_key ob)) obs)"
  by (induction obs) (simp_all add: selected_def)

lemma listObjects_apply: "listObjects u n p d up b = (case liveChild u None n b of None \<Rightarrow> (Inl noSuchBucket, b)
  | Some bk \<Rightarrow> (case listRecursiveOptimized u (fld_id bk) p d up b of None \<Rightarrow> (Inl Diverges, b) | Some l \<Rightarrow> (Inr l, b)))"
  by (simp add: listObjects_def op_simps split: option.split)

text \<open>
  C15. A bucket has one set of keys, whatever way it is listed: the listing ends; with a prefix it shows the keys that
  start with it; with the delimiter \<^verbatim>\<open>/\<close> it shows the keys directly below the prefix and, each once, the common
  prefixes of all deeper keys. Only the marker of the very folder that is listed is left out.
\<close>
theorem listings_agree:
  assumes "tidyNames u b" and "liveChild u None bucketName b = Some bk"
  shows "\<exists>objs. listObjects u bucketName [] None up b = (Inr (objs, []), b) \<and>
    (\<forall>p. listObjects u bucketName p None up b = (Inr (filter (\<lambda>ob. jsStartsWith p (so_key ob)) objs, []), b)) \<and>
    (\<forall>p. \<exists>prefixes. listObjects u bucketName p (Some ''/'') up b = (Inr (filter (\<lambda>ob. directlyBelow p (so_key ob)) objs, prefixes), b) \<and>
      distinct prefixes \<and> set prefixes = uptoSlash p ` {k \<in> so_key ` set objs. jsStartsWith p k \<and> CHR ''/'' \<in> set (drop (length p) k)})"
proof -
  let ?fs = "liveOf u b" and ?r = "fld_id bk"
  let ?n = "length ?fs + 2"
  have ids': "distinct (map fld_id (bk_folders b))" and nf: "namedFolders ?fs" using assms(1) by (simp_all add: tidyNames_def)
  obtain ids where ids: "walkDown ?n ?fs [?r] [?r] = Some ids"
    "\<And>p d. \<exists>ys. traverse ?n ?fs (bucketFiles u ?r b ids) up p d ?r [] = Some ys"
    by (rule listing_runs [OF ids' assms(2), of up]) blast
  let ?ft = "bucketFiles u ?r b ids"
  have run: "listObjects u bucketName p d up b = (case traverse ?n ?fs ?ft up p (if present d then d else None) ?r [] of None \<Rightarrow> (Inl Diverges, b)
      | Some xs \<Rightarrow> (Inr (listedObjects xs, listedPrefixes xs), b))" for p d
    using ids(1) assms(2) by (simp add: listObjects_apply listRecursiveOptimized_def bucketFiles_def Let_def del: traverse.simps split: option.split)
  obtain zs where zs: "wholeTree ?n ?fs ?ft up ?r [] = Some zs" using ids(2) by blast
  let ?objs = "listedObjects zs"
  have obs: "zs = map ListedObject ?objs" using whole_objects [OF zs] by (rule objects_only)
  have none: "listObjects u bucketName p None up b = (Inr (filter (\<lambda>ob. jsStartsWith p (so_key ob)) ?objs, []), b)" for p
  proof -
    obtain ys where ys: "traverse ?n ?fs ?ft up p None ?r [] = Some ys" using ids(2) by blast
    then have "ys = map ListedObject (filter (\<lambda>ob. jsStartsWith p (so_key ob)) ?objs)"
      using traverse_selected [OF nf ys zs] selected_objects [of p ?objs] obs by metis
    with ys run [of p None] show ?thesis by (simp add: present_def del: traverse.simps)
  qed
  have slash: "\<exists>prefixes. listObjects u bucketName p (Some ''/'') up b = (Inr (filter (\<lambda>ob. directlyBelow p (so_key ob)) ?objs, prefixes), b) \<and>
      distinct prefixes \<and> set prefixes = uptoSlash p ` {k \<in> so_key ` set ?objs. jsStartsWith p k \<and> CHR ''/'' \<in> set (drop (length p) k)}" for p
  proof -
    obtain ys where ys: "traverse ?n ?fs ?ft up p (Some ''/'') ?r [] = Some ys" using ids(2) by blast
    have "sameListing ys (concat (map (grouped p) (map ListedObject ?objs)))"
      using traverse_grouped [OF nf bucketFiles_named [OF assms(1), of _ ?r ids] ys zs] obs by simp
    then have "listedObjects ys = filter (\<lambda>ob. directlyBelow p (so_key ob)) ?objs"
      "prefixesOf ys = uptoSlash p ` {k \<in> so_key ` set ?objs. jsStartsWith p k \<and> CHR ''/'' \<in> set (drop (length p) k)}"
      unfolding sameListing_def grouped_objects by simp_all
    with ys run [of p "Some ''/''"] show ?thesis by (intro exI [of _ "listedPrefixes ys"]) (simp add: present_def del: traverse.simps)
  qed
  have "listObjects u bucketName [] None up b = (Inr (?objs, []), b)" using none [of "[]"] by simp
  with none slash show ?thesis by blast
qed

definition tidyDemo :: backend where
  "tidyDemo = emptyBackend\<lparr>bk_folders := [newFolderRow ''b'' ''docs'' None ''u'' 0, newFolderRow ''x'' ''a'' (Some ''b'') ''u'' 0,
       newFolderRow ''y'' ''c'' (Some ''x'') ''u'' 0],
     bk_files := [newFileRow ''f'' ''r.txt'' 3 (Some ''x'') ''u'' 0]\<rparr>"

lemma tidyDemo_props: "tidyNames ''u'' tidyDemo" "liveChild ''u'' None ''docs'' tidyDemo = Some (newFolderRow ''b'' ''docs'' None ''u'' 0)"
  by (simp_all add: tidyNames_def tidyDemo_def newFolderRow_def newFileRow_def emptyBackend_def namedIds_def namedFolders_def
      liveOf_def liveChild_def)

theorem listings_agree_witness:
  "\<exists>objs. listObjects ''u'' ''docs'' [] None (\<lambda>_. 0) tidyDemo = (Inr (objs, []), tidyDemo) \<and>
     (\<forall>p. listObjects ''u'' ''docs'' p None (\<lambda>_. 0) tidyDemo = (Inr (filter (\<lambda>ob. jsStartsWith p (so_key ob)) objs, []), tidyDemo))"
  using listings_agree [OF tidyDemo_props, of "\<lambda>_. 0"] by blast

subsection \<open>What is listed can be read\<close>

text \<open>No two live folders of a place, and no two live files of a folder, have the same name.\<close>

definition singleNames :: "string \<Rightarrow> backend \<Rightarrow> bool" where
  "singleNames u b \<longleftrightarrow> (\<forall>f \<in> set (liveOf u b). \<forall>g \<in> set (liveOf u b). fld_parentId f = fld_parentId g \<and> fld_name f = fld_name g \<longrightarrow> f = g) \<and>
     (\<forall>f \<in> set (bk_files b). \<forall>g \<in> set (bk_files b). fr_userId f = u \<and> fr_userId g = u \<and> fr_deletedAt f = None \<and> fr_deletedAt g = None \<and>
        fr_folderId f \<noteq> None \<and> fr_folderId f = fr_folderId g \<and> fr_filename f = fr_filename g \<longrightarrow> f = g)"

lemma find_the_one:
  assumes "x \<in> set xs" and "P x" and "\<And>y. y \<in> set xs \<Longrightarrow> P y \<Longrightarrow> y = x"
  shows "find P xs = Some x"
proof (cases "find P xs")
  case None
  with find_NoneD [OF None assms(1)] assms(2) show ?thesis by blast
next
  case (Some y)
  with find_SomeD [OF Some] assms(3) show ?thesis by blast
qed

lemma child_found:
  assumes "singleNames u b" and "c \<in> set (childrenOf (liveOf u b) x)"
  shows "liveChild u (Some x) (fld_name c) b = Some c"
  using assms unfolding liveChild_def
  by (intro find_the_one) (auto simp: childrenOf_iff singleNames_def liveOf_def)

lemma found_child: "liveChild u (Some x) n b = Some c \<Longrightarrow> namedIds b \<Longrightarrow> x \<noteq> [] \<Longrightarrow> c \<in> set (childrenOf (liveOf u b) x) \<and> fld_name c = n"
  using liveChild_SomeD [of u "Some x" n b c] by (auto simp: childrenOf_iff)

lemma followPath_Nil [simp]: "followPath u [] x b = Some x"
  by (simp add: followPath_def)

lemma followPath_None: "foldl (\<lambda>cur part. case cur of None \<Rightarrow> None | Some c \<Rightarrow> map_option fld_id (liveChild u (Some c) part b)) None ps = None"
  by (induction ps) simp_all

lemma followPath_Cons: "followPath u (p # ps) x b = (case liveChild u (Some x) p b of None \<Rightarrow> None | Some c \<Rightarrow> followPath u ps (fld_id c) b)"
  by (simp add: followPath_def followPath_None split: option.split)

text \<open>Resolving the folders of a key is following the path.\<close>

lemma enterAll_follow:
  "foldOp (enterFolder u False g now) (List.enumerate i parts) x b = (case followPath u parts x b of
     None \<Rightarrow> (Inl (NotFoundException ''NoSuchKey''), b) | Some d \<Rightarrow> (Inr d, b))"
proof (induction parts arbitrary: i x)
  case (Cons p ps)
  show ?case
    using Cons [of "Suc i"] by (auto simp: followPath_Cons bindOp_def enterFolder_def getsOp_def returnOp_def throwOp_def split: option.split)
qed (simp add: op_simps)

lemma findObject_apply:
  assumes "liveChild u None n b = Some bk"
  shows "findObject u n key b = (if pathParts key = [] then (Inl (BadRequestException ''Invalid key''), b) else
    (case followPath u (butlast (pathParts key)) (fld_id bk) b of None \<Rightarrow> (Inl (NotFoundException ''NoSuchKey''), b)
     | Some d \<Rightarrow> (case objectRow u d (last (pathParts key)) b of None \<Rightarrow> (Inl noSuchKey, b) | Some f \<Rightarrow> (Inr f, b))))"
  using assms by (simp add: findObject_def resolveKey_def resolveKeyUnderFolder_def enterAll_follow Let_def op_simps bindOp_def split: option.split)

definition keyAt :: "string \<Rightarrow> string list \<Rightarrow> string \<Rightarrow> string" where
  "keyAt path parts name = foldl joinPath path (parts @ [name])"

lemma keyAt_Cons: "keyAt path (p # ps) name = keyAt (joinPath path p) ps name"
  by (simp add: keyAt_def)

lemma foldl_joinPath: "path \<noteq> [] \<Longrightarrow> foldl joinPath path ws = path @ concat (map (\<lambda>w. ''/'' @ w) ws)"
proof (induction ws arbitrary: path)
  case (Cons w ws)
  then have "joinPath path w = path @ ''/'' @ w" by (simp add: joinPath_def)
  with Cons.IH [of "joinPath path w"] show ?case by simp
qed simp

lemma keyAt_root: "ws @ [n] = w # rest \<Longrightarrow> w \<noteq> [] \<Longrightarrow> keyAt [] ws n = jsJoin ''/'' (ws @ [n])"
proof -
  have "(#) (CHR ''/'') = (@) ''/''" by (rule ext) simp
  then show "ws @ [n] = w # rest \<Longrightarrow> w \<noteq> [] \<Longrightarrow> ?thesis" by (simp add: keyAt_def foldl_joinPath jsJoin_def joinPath_def)
qed

lemma keyParts_keyAt:
  assumes "\<And>w. w \<in> set (ws @ [n]) \<Longrightarrow> w \<noteq> [] \<and> CHR ''/'' \<notin> set w"
  shows "pathParts (keyAt [] ws n) = ws @ [n]"
proof -
  obtain w rest where w: "ws @ [n] = w # rest" by (cases "ws @ [n]") auto
  have "w \<in> set (ws @ [n])" unfolding w by simp
  with assms have "w \<noteq> []" by blast
  from keyAt_root [OF w this] have "keyAt [] ws n = jsJoin ''/'' (ws @ [n])" .
  moreover have "jsSplit (CHR ''/'') (jsJoin ''/'' (ws @ [n])) = ws @ [n]" using assms by (intro jsSplit_joined) auto
  ultimately show ?thesis using assms by (simp add: pathParts_def filter_id_conv)
qed

text \<open>Every listed file lies at the end of a path, and every file at the end of a path is listed.\<close>

lemma listed_has_path:
  assumes "singleNames u b"
  shows "wholeTree n (liveOf u b) ft up x path = Some ys \<Longrightarrow> ListedObject ob \<in> set ys \<Longrightarrow>
    (\<exists>parts d f. followPath u parts x b = Some d \<and> f \<in> set (ft d) \<and> ob = fileObject (keyAt path parts (fr_filename f)) f \<and>
       (\<forall>w \<in> set parts. \<exists>g \<in> set (liveOf u b). fld_name g = w) \<and> (d = x \<or> (\<exists>p. fld_id p = d \<and> p \<in> set (liveOf u b)))) \<or>
    (\<exists>c key. c \<in> set (liveOf u b) \<and> ob = markerObject up (key @ ''/'') c)"
proof (induction n arbitrary: x path ys)
  case (Suc n)
  from Suc.prems consider (here) f where "f \<in> set (ft x)" "ob = fileObject (joinPath path (fr_filename f)) f"
    | (under) c zs where "c \<in> set (childrenOf (liveOf u b) x)" "wholeVisit n (liveOf u b) ft up path c = Some zs" "ListedObject ob \<in> set zs"
    unfolding traverse_Suc by (auto simp: whole_file)
  then show ?case
  proof cases
    case here
    then show ?thesis by (intro disjI1 exI [of _ "[]"] exI [of _ x] exI [of _ f]) (simp add: keyAt_def)
  next
    case under
    have c: "c \<in> set (liveOf u b)" using under(1) by (simp add: childrenOf_iff)
    show ?thesis
    proof (cases "childrenOf (liveOf u b) (fld_id c) = [] \<and> ft (fld_id c) = []")
      case True
      with under have "ob = markerObject up (joinPath path (fld_name c) @ ''/'') c" by (auto simp: wholeVisit_cases)
      with c show ?thesis by blast
    next
      case False
      with under have "wholeTree n (liveOf u b) ft up (fld_id c) (joinPath path (fld_name c)) = Some zs"
        by (simp only: wholeVisit_cases if_False)
      from Suc.IH [OF this under(3)] show ?thesis
      proof (elim disjE exE conjE)
        fix parts d f
        assume "followPath u parts (fld_id c) b = Some d" "f \<in> set (ft d)" "ob = fileObject (keyAt (joinPath path (fld_name c)) parts (fr_filename f)) f"
          "\<forall>w \<in> set parts. \<exists>g \<in> set (liveOf u b). fld_name g = w" "d = fld_id c"
        with child_found [OF assms under(1)] c show ?thesis
          by (intro disjI1 exI [of _ "fld_name c # parts"] exI [of _ d] exI [of _ f]) (auto simp: followPath_Cons keyAt_Cons)
      next
        fix parts d f p
        assume "followPath u parts (fld_id c) b = Some d" "f \<in> set (ft d)" "ob = fileObject (keyAt (joinPath path (fld_name c)) parts (fr_filename f)) f"
          "\<forall>w \<in> set parts. \<exists>g \<in> set (liveOf u b). fld_name g = w" "fld_id p = d" "p \<in> set (liveOf u b)"
        with child_found [OF assms under(1)] c show ?thesis
          by (intro disjI1 exI [of _ "fld_name c # parts"] exI [of _ d] exI [of _ f]) (auto simp: followPath_Cons keyAt_Cons)
      qed blast
    qed
  qed
qed simp

lemma path_is_listed:
  assumes "namedIds b"
  shows "wholeTree n (liveOf u b) ft up x path = Some ys \<Longrightarrow> x \<noteq> [] \<Longrightarrow> followPath u parts x b = Some d \<Longrightarrow> f \<in> set (ft d) \<Longrightarrow>
    ListedObject (fileObject (keyAt path parts (fr_filename f)) f) \<in> set ys"
proof (induction parts arbitrary: n x path ys)
  case Nil
  then obtain m where "n = Suc m" by (cases n) simp_all
  with Nil show ?case by (auto simp: keyAt_def whole_file dest!: concatAll_SomeD)
next
  case (Cons part parts)
  then obtain m where n: "n = Suc m" by (cases n) simp_all
  from Cons.prems(3) obtain c where c: "liveChild u (Some x) part b = Some c" "followPath u parts (fld_id c) b = Some d"
    by (auto simp: followPath_Cons split: option.splits)
  note child = found_child [OF c(1) assms Cons.prems(2)]
  have idc: "fld_id c \<noteq> []" using assms liveChild_SomeD [OF c(1)] by (auto simp: namedIds_def)
  obtain zs where zs: "wholeVisit m (liveOf u b) ft up path c = Some zs"
    using Cons.prems(1) child unfolding n traverse_Suc by auto
  have "\<not> (childrenOf (liveOf u b) (fld_id c) = [] \<and> ft (fld_id c) = [])"
  proof (cases parts)
    case Nil
    with c(2) Cons.prems(4) show ?thesis by auto
  next
    case (Cons p2 ps)
    with c(2) obtain c2 where "liveChild u (Some (fld_id c)) p2 b = Some c2" by (auto simp: followPath_Cons split: option.splits)
    from found_child [OF this assms idc] show ?thesis by auto
  qed
  with zs have "wholeTree m (liveOf u b) ft up (fld_id c) (joinPath path (fld_name c)) = Some zs" by (simp only: wholeVisit_cases if_False)
  from Cons.IH [OF this idc c(2) Cons.prems(4)] have "ListedObject (fileObject (keyAt path (part # parts) (fr_filename f)) f) \<in> set zs"
    using child by (simp add: keyAt_Cons)
  with Cons.prems(1) child zs show ?case unfolding n traverse_Suc by force
qed

lemma followPath_ids:
  assumes "\<And>p c. p \<in> set ids \<Longrightarrow> c \<in> set (childrenOf (liveOf u b) p) \<Longrightarrow> fld_id c \<in> set ids" and "namedIds b"
  shows "followPath u parts x b = Some d \<Longrightarrow> x \<in> set ids \<Longrightarrow> x \<noteq> [] \<Longrightarrow> d \<in> set ids \<and> d \<noteq> []"
proof (induction parts arbitrary: x)
  case (Cons p ps)
  then obtain c where c: "liveChild u (Some x) p b = Some c" "followPath u ps (fld_id c) b = Some d"
    by (auto simp: followPath_Cons split: option.splits)
  from found_child [OF c(1) assms(2) Cons.prems(3)] assms(1) Cons.prems(2) have "fld_id c \<in> set ids" by blast
  moreover have "fld_id c \<noteq> []" using assms(2) liveChild_SomeD [OF c(1)] by (auto simp: namedIds_def)
  ultimately show ?case using Cons.IH c(2) by blast
qed simp

lemma bucketFiles_iff: "d \<noteq> [] \<Longrightarrow> r \<noteq> [] \<Longrightarrow> [] \<notin> set ids \<Longrightarrow> f \<in> set (bucketFiles u r b ids d) \<longleftrightarrow>
  f \<in> set (bk_files b) \<and> fr_userId f = u \<and> fr_folderId f = Some d \<and> d \<in> set ids \<and> fr_deletedAt f = None \<and> fr_status f = Complete"
  by (auto simp: bucketFiles_def filesIn_def filesBelow_def present_def)

text \<open>
  C16. Listing and reading agree: every object of the listing is either the marker of an empty folder or is what reading
  its key returns, with the same size and ETag; and whatever can be read is listed under the canonical form of its key.
\<close>
theorem listed_iff_readable:
  assumes "tidyNames u b" and "singleNames u b" and "liveChild u None bucketName b = Some bk"
  shows "\<exists>objs. listObjects u bucketName [] None up b = (Inr (objs, []), b) \<and>
    (\<forall>ob \<in> set objs. (\<exists>c key. c \<in> set (liveOf u b) \<and> ob = markerObject up (key @ ''/'') c) \<or>
      (\<exists>f. findObject u bucketName (so_key ob) b = (Inr f, b) \<and> ob = fileObject (so_key ob) f)) \<and>
    (\<forall>key f. findObject u bucketName key b = (Inr f, b) \<longrightarrow>
      fileObject (keyAt [] (butlast (pathParts key)) (last (pathParts key))) f \<in> set objs)"
proof -
  let ?fs = "liveOf u b" and ?r = "fld_id bk"
  let ?n = "length ?fs + 2"
  have ids': "distinct (map fld_id (bk_folders b))" and nm: "namedIds b" using assms(1) by (simp_all add: tidyNames_def)
  obtain ids where ids: "walkDown ?n ?fs [?r] [?r] = Some ids" "?r \<in> set ids" "set ids \<subseteq> insert ?r (fld_id ` set ?fs)"
    "\<And>p c. p \<in> set ids \<Longrightarrow> c \<in> set (childrenOf ?fs p) \<Longrightarrow> fld_id c \<in> set ids"
    "\<And>p d. \<exists>ys. traverse ?n ?fs (bucketFiles u ?r b ids) up p d ?r [] = Some ys"
    by (rule listing_runs [OF ids' assms(3), of up]) blast
  let ?ft = "bucketFiles u ?r b ids"
  obtain zs where zs: "wholeTree ?n ?fs ?ft up ?r [] = Some zs" using ids(5) by blast
  have r: "?r \<noteq> []" using nm liveChild_SomeD [OF assms(3)] by (auto simp: namedIds_def)
  have obs: "zs = map ListedObject (listedObjects zs)" using whole_objects [OF zs] by (rule objects_only)
  have list: "listObjects u bucketName [] None up b = (Inr (listedObjects zs, []), b)"
  proof -
    have "listedPrefixes zs = []" by (subst obs) (rule listedPrefixes_objects)
    with ids(1) assms(3) zs show ?thesis
      by (simp add: listObjects_apply listRecursiveOptimized_def bucketFiles_def Let_def present_def del: traverse.simps)
  qed
  have noNil: "[] \<notin> set ids"
  proof
    assume "[] \<in> set ids"
    with ids(3) r have "[] \<in> fld_id ` set ?fs" by auto
    with nm show False by (auto simp: namedIds_def liveOf_def)
  qed
  have inside: "f \<in> set (?ft d) \<longleftrightarrow> f \<in> set (bk_files b) \<and> fr_userId f = u \<and> fr_folderId f = Some d \<and> fr_deletedAt f = None \<and> fr_status f = Complete"
    if "followPath u parts ?r b = Some d" for f d parts
  proof -
    from followPath_ids [OF ids(4) nm that ids(2) r] have d: "d \<in> set ids" "d \<noteq> []" by auto
    show ?thesis unfolding bucketFiles_iff [OF d(2) r noNil] using d(1) by simp
  qed
  have readable: "(\<exists>c key. c \<in> set ?fs \<and> ob = markerObject up (key @ ''/'') c) \<or>
      (\<exists>f. findObject u bucketName (so_key ob) b = (Inr f, b) \<and> ob = fileObject (so_key ob) f)" if "ob \<in> set (listedObjects zs)" for ob
  proof -
    have "ListedObject ob \<in> set zs" by (subst obs) (use that in simp)
    from listed_has_path [OF assms(2) zs this] show ?thesis
    proof (elim disjE)
      assume "\<exists>parts d f. followPath u parts ?r b = Some d \<and> f \<in> set (?ft d) \<and> ob = fileObject (keyAt [] parts (fr_filename f)) f \<and>
        (\<forall>w \<in> set parts. \<exists>g \<in> set ?fs. fld_name g = w) \<and> (d = ?r \<or> (\<exists>p. fld_id p = d \<and> p \<in> set ?fs))"
      then obtain parts d f where path: "followPath u parts ?r b = Some d" and f: "f \<in> set (?ft d)"
        and ob: "ob = fileObject (keyAt [] parts (fr_filename f)) f" and names: "\<forall>w \<in> set parts. \<exists>g \<in> set ?fs. fld_name g = w" by blast
      note row = f [unfolded inside [OF path]]
      have parts: "pathParts (so_key ob) = parts @ [fr_filename f]"
        unfolding ob fileObject_def using names row assms(1)
        by (simp, intro keyParts_keyAt) (auto simp: tidyNames_def namedFolders_def)
      have "objectRow u d (fr_filename f) b = Some f"
        unfolding objectRow_def using row assms(2) by (intro find_the_one) (auto simp: singleNames_def)
      with parts path findObject_apply [OF assms(3), of "so_key ob"] have "findObject u bucketName (so_key ob) b = (Inr f, b)" by simp
      with ob show ?thesis by (auto simp: fileObject_def)
    qed blast
  qed
  have listed: "fileObject (keyAt [] (butlast (pathParts key)) (last (pathParts key))) f \<in> set (listedObjects zs)"
    if "findObject u bucketName key b = (Inr f, b)" for key f
  proof -
    from that obtain d where d: "followPath u (butlast (pathParts key)) ?r b = Some d" "objectRow u d (last (pathParts key)) b = Some f"
      unfolding findObject_apply [OF assms(3)] by (auto split: if_splits option.splits)
    have row: "f \<in> set (bk_files b) \<and> fr_folderId f = Some d \<and> fr_filename f = last (pathParts key) \<and> fr_userId f = u \<and> fr_deletedAt f = None \<and> fr_status f = Complete"
      using d(2) unfolding objectRow_def by (auto dest: find_SomeD)
    then have "f \<in> set (?ft d)" using inside [OF d(1)] by blast
    from path_is_listed [OF nm zs r d(1) this] row have "ListedObject (fileObject (keyAt [] (butlast (pathParts key)) (last (pathParts key))) f) \<in> set zs" by simp
    then show ?thesis by (subst (asm) obs) auto
  qed
  from list readable listed show ?thesis by blast
qed

lemma tidyDemo_single: "singleNames ''u'' tidyDemo"
  by (simp add: singleNames_def tidyDemo_def newFolderRow_def newFileRow_def emptyBackend_def liveOf_def)

theorem listed_iff_readable_witness:
  "\<exists>objs f. listObjects ''u'' ''docs'' [] None (\<lambda>_. 0) tidyDemo = (Inr (objs, []), tidyDemo) \<and>
     findObject ''u'' ''docs'' ''a/r.txt'' tidyDemo = (Inr f, tidyDemo) \<and> fileObject ''a/r.txt'' f \<in> set objs"
proof -
  from listed_iff_readable [OF tidyDemo_props(1) tidyDemo_single tidyDemo_props(2), of "\<lambda>_. 0"] obtain objs where
    objs: "listObjects ''u'' ''docs'' [] None (\<lambda>_. 0) tidyDemo = (Inr (objs, []), tidyDemo)"
    "\<And>key f. findObject ''u'' ''docs'' key tidyDemo = (Inr f, tidyDemo) \<Longrightarrow>
       fileObject (keyAt [] (butlast (pathParts key)) (last (pathParts key))) f \<in> set objs" by blast
  have "fst (findObject ''u'' ''docs'' ''a/r.txt'' tidyDemo) = Inr (newFileRow ''f'' ''r.txt'' 3 (Some ''x'') ''u'' 0)" by code_simp
  moreover have "snd (findObject ''u'' ''docs'' ''a/r.txt'' tidyDemo) = tidyDemo"
    using findObject_apply [OF tidyDemo_props(2), of "''a/r.txt''"] by (auto split: option.split)
  ultimately have run: "findObject ''u'' ''docs'' ''a/r.txt'' tidyDemo = (Inr (newFileRow ''f'' ''r.txt'' 3 (Some ''x'') ''u'' 0), tidyDemo)"
    by (metis prod.collapse)
  have "keyAt [] (butlast (pathParts ''a/r.txt'')) (last (pathParts ''a/r.txt'')) = ''a/r.txt''" by code_simp
  with objs(1) objs(2) [OF run] run show ?thesis by metis
qed

end
