(* ===== verification/Manifest.thy ===== *)
theory Manifest
  imports Schema JsLib Utf8
begin

section \<open>The manifest of a multipart upload\<close>

text \<open>
  backend/src/s3/s3-multipart-manifest.util.ts: the XML in which an S3 client lists the parts of an upload, and its
  comparison with what is stored. The regular expressions are functions on the text that follow their matches; none of
  them needs to backtrack.
\<close>

record completed_part =
  cp_partNumber :: int
  cp_etag :: string

definition malformedXML :: backend_error where
  "malformedXML = BadRequestException ''MalformedXML''"

subsection \<open>Searching text\<close>

text \<open>The text before and after the first occurrence.\<close>

fun cutAt :: "string \<Rightarrow> string \<Rightarrow> (string \<times> string) option" where
  "cutAt p [] = (if p = [] then Some ([], []) else None)"
| "cutAt p (c # s) = (if jsStartsWith p (c # s) then Some ([], drop (length p) (c # s))
     else map_option (\<lambda>(a, b). (c # a, b)) (cutAt p s))"

lemma cutAt_Some: "cutAt p s = Some (a, b) \<Longrightarrow> s = a @ p @ b"
proof (induction p s arbitrary: a rule: cutAt.induct)
  case (2 p c s)
  show ?case
  proof (cases "jsStartsWith p (c # s)")
    case True
    with 2 have "a = []" "b = drop (length p) (c # s)" "take (length p) (c # s) = p" by (auto simp: jsStartsWith_def)
    then show ?thesis using append_take_drop_id [of "length p" "c # s"] by simp
  next
    case False
    with 2 show ?thesis by auto
  qed
qed (auto split: if_splits)

definition removeFirst :: "string \<Rightarrow> string \<Rightarrow> string" where
  "removeFirst p s = (case cutAt p s of None \<Rightarrow> s | Some (a, b) \<Rightarrow> a @ b)"

definition dropSpaces :: "string \<Rightarrow> string" where
  "dropSpaces s = stripFront utf8Spaces s"

subsection \<open>Parsing\<close>

definition stripDeclaration :: "string \<Rightarrow> string" where
  "stripDeclaration s = (if jsStartsWith ''<?xml'' s then
     (let r = dropWhile (\<lambda>c. c \<noteq> CHR ''?'') (drop 5 s) in if jsStartsWith ''?>'' r then dropSpaces (drop 2 r) else s) else s)"

definition envelopeContent :: "string \<Rightarrow> string option" where
  "envelopeContent s = (if \<not> jsStartsWith ''<CompleteMultipartUpload'' s then None else
    (let r = drop (length ''<CompleteMultipartUpload'') s; r1 = dropSpaces r;
         r2 = (if r1 \<noteq> r \<and> jsStartsWith (''xmlns='' @ [CHR 0x22]) r1
           then (case jsCut (CHR 0x22) (drop 7 r1) of Some (_, q) \<Rightarrow> q | None \<Rightarrow> r) else r);
         r3 = dropSpaces r2 in
     case r3 of [] \<Rightarrow> None
     | c # q \<Rightarrow>
        (let n = length q - length ''</CompleteMultipartUpload>'' in
         if c = CHR ''>'' \<and> length ''</CompleteMultipartUpload>'' \<le> length q \<and> drop n q = ''</CompleteMultipartUpload>'' then Some (take n q) else None)))"

text \<open>The contents of the \<^verbatim>\<open>Part\<close> elements, and what is left around them.\<close>

function splitParts :: "string \<Rightarrow> string list \<times> string" where
  "splitParts s = (case cutAt ''<Part>'' s of None \<Rightarrow> ([], s)
     | Some (before, r) \<Rightarrow> (case cutAt ''</Part>'' r of None \<Rightarrow> ([], s)
         | Some (content, rest) \<Rightarrow> (case splitParts rest of (cs, left) \<Rightarrow> (content # cs, before @ left))))"
  by auto
termination
  by (relation "measure length") (auto dest!: cutAt_Some)

declare splitParts.simps [simp del]

fun numberTag :: "string \<Rightarrow> (string \<times> string) option" where
  "numberTag [] = None"
| "numberTag (c # s) = (let ds = takeWhile jsDigit (drop 12 (c # s)) in
     if jsStartsWith ''<PartNumber>'' (c # s) \<and> ds \<noteq> [] \<and> jsStartsWith ''</PartNumber>'' (dropWhile jsDigit (drop 12 (c # s)))
     then Some (''<PartNumber>'' @ ds @ ''</PartNumber>'', ds) else numberTag s)"

fun etagTag :: "string \<Rightarrow> (string \<times> string) option" where
  "etagTag [] = None"
| "etagTag (c # s) = (let v = takeWhile (\<lambda>c. c \<noteq> CHR ''<'') (drop 6 (c # s)) in
     if jsStartsWith ''<ETag>'' (c # s) \<and> jsStartsWith ''</ETag>'' (dropWhile (\<lambda>c. c \<noteq> CHR ''<'') (drop 6 (c # s)))
     then Some (''<ETag>'' @ v @ ''</ETag>'', v) else etagTag s)"

text \<open>The length of a checksum element at the front of a text.\<close>

definition checksumNames :: "string list" where
  "checksumNames = [''ChecksumCRC32'', ''ChecksumCRC32C'', ''ChecksumCRC64NVME'', ''ChecksumSHA1'', ''ChecksumSHA256'']"

definition checksumLength :: "string \<Rightarrow> nat option" where
  "checksumLength t = (case find (\<lambda>n. jsStartsWith (CHR ''<'' # n @ ''>'') t) checksumNames of None \<Rightarrow> None
     | Some n \<Rightarrow> (let v = takeWhile isB64Char (drop (length n + 2) t); r = drop (length n + 2 + length v) t;
           e = min 2 (length (takeWhile (\<lambda>c. c = CHR ''='') r)) in
         if v \<noteq> [] \<and> jsStartsWith (''</'' @ n @ ''>'') (drop e r) then Some (length n + 2 + length v + e + length n + 3) else None))"

function dropChecksums :: "string \<Rightarrow> string" where
  "dropChecksums [] = []"
| "dropChecksums (c # s) = (case checksumLength (c # s) of None \<Rightarrow> c # dropChecksums s | Some n \<Rightarrow> dropChecksums (drop (n - 1) s))"
  by pat_completeness auto
termination by (relation "measure length") auto

text \<open>\<^verbatim>\<open>/&(?:quot|#0*34|#x0*22);/gi\<close>\<close>

definition quoteEntity :: "string \<Rightarrow> nat option" where
  "quoteEntity t = (let l = asciiLower t; z = (\<lambda>k. length (takeWhile (\<lambda>c. c = CHR ''0'') (drop k l))) in
     if jsStartsWith ''&quot;'' l then Some 6
     else if jsStartsWith ''&#'' l \<and> jsStartsWith ''34;'' (drop (2 + z 2) l) then Some (2 + z 2 + 3)
     else if jsStartsWith ''&#x'' l \<and> jsStartsWith ''22;'' (drop (3 + z 3) l) then Some (3 + z 3 + 3)
     else None)"

function replaceQuotes :: "string \<Rightarrow> string" where
  "replaceQuotes [] = []"
| "replaceQuotes (c # s) = (case quoteEntity (c # s) of None \<Rightarrow> c # replaceQuotes s | Some n \<Rightarrow> CHR 0x22 # replaceQuotes (drop (n - 1) s))"
  by pat_completeness auto
termination by (relation "measure length") auto

definition stripQuotes :: "string \<Rightarrow> string" where
  "stripQuotes s = (let t = (case s of c # r \<Rightarrow> if c = CHR 0x22 then r else s | [] \<Rightarrow> s) in
     if t \<noteq> [] \<and> last t = CHR 0x22 then butlast t else t)"

definition parsePart :: "string \<Rightarrow> backend_error + completed_part" where
  "parsePart content = (case (numberTag content, etagTag content) of
     (Some (number, digits), Some (etag, v)) \<Rightarrow>
       if utf8Trim (removeFirst etag (removeFirst number (dropChecksums content))) \<noteq> [] then Inl malformedXML
       else Inr \<lparr>cp_partNumber = int (baseVal 10 digits), cp_etag = stripQuotes (replaceQuotes (utf8Trim v))\<rparr>
   | _ \<Rightarrow> Inl malformedXML)"

fun parseParts :: "string list \<Rightarrow> backend_error + completed_part list" where
  "parseParts [] = Inr []"
| "parseParts (c # cs) = (case parsePart c of Inl e \<Rightarrow> Inl e | Inr p \<Rightarrow> map_sum id (\<lambda>ps. p # ps) (parseParts cs))"

definition hexEtag :: "string \<Rightarrow> bool" where
  "hexEtag s \<longleftrightarrow> length s = 32 \<and> list_all (baseDigit 16) s"

fun checkParts :: "int option \<Rightarrow> completed_part list \<Rightarrow> backend_error option" where
  "checkParts prev [] = None"
| "checkParts prev (p # ps) =
    (if cp_partNumber p < 1 \<or> cp_partNumber p > 10000 \<or> \<not> hexEtag (cp_etag p) then Some (BadRequestException ''InvalidPart'')
     else if (case prev of None \<Rightarrow> False | Some n \<Rightarrow> cp_partNumber p \<le> n) then Some (BadRequestException ''InvalidPartOrder'')
     else checkParts (Some (cp_partNumber p)) ps)"

definition parseMultipartManifest :: "string \<Rightarrow> backend_error + completed_part list" where
  "parseMultipartManifest body = (case envelopeContent (stripDeclaration (utf8Trim body)) of None \<Rightarrow> Inl malformedXML
     | Some content \<Rightarrow> (case splitParts content of (cs, remaining) \<Rightarrow> (case parseParts cs of Inl e \<Rightarrow> Inl e
         | Inr parts \<Rightarrow> if utf8Trim remaining \<noteq> [] \<or> parts = [] \<or> length parts > 10000 then Inl malformedXML
             else (case checkParts None parts of Some e \<Rightarrow> Inl e | None \<Rightarrow> Inr parts))))"

subsection \<open>Comparing with the stored parts\<close>

definition storedPart :: "(int \<times> string option) list \<Rightarrow> completed_part \<Rightarrow> bool" where
  "storedPart chunks p = (case find (\<lambda>c. fst c = cp_partNumber p - 1) chunks of None \<Rightarrow> False
     | Some c \<Rightarrow> map_option stripQuotes (snd c) = Some (cp_etag p))"

definition validateMultipartManifest :: "completed_part list \<Rightarrow> (int \<times> string option) list \<Rightarrow> backend_error option" where
  "validateMultipartManifest parts chunks =
     (if \<not> list_all (storedPart chunks) parts then Some (BadRequestException ''InvalidPart'')
      else if length parts \<noteq> length chunks \<or> map cp_partNumber parts \<noteq> map int [1..<length parts + 1]
      then Some (HttpException 501 ''NotImplemented: completion requires all consecutive uploaded parts'') else None)"

subsection \<open>What a manifest can be\<close>

definition wellFormedParts :: "completed_part list \<Rightarrow> bool" where
  "wellFormedParts ps \<longleftrightarrow> ps \<noteq> [] \<and> length ps \<le> 10000 \<and> sorted_wrt (<) (map cp_partNumber ps) \<and>
     (\<forall>p \<in> set ps. 1 \<le> cp_partNumber p \<and> cp_partNumber p \<le> 10000 \<and> hexEtag (cp_etag p))"

lemma checkParts_None:
  "checkParts prev ps = None \<longleftrightarrow> sorted_wrt (<) (map cp_partNumber ps) \<and> (prev \<noteq> None \<longrightarrow> (\<forall>p \<in> set ps. the prev < cp_partNumber p)) \<and>
     (\<forall>p \<in> set ps. 1 \<le> cp_partNumber p \<and> cp_partNumber p \<le> 10000 \<and> hexEtag (cp_etag p))"
proof (induction prev ps rule: checkParts.induct)
  case (2 prev p ps)
  show ?case
  proof (cases "checkParts prev (p # ps) = None")
    case True
    with 2 show ?thesis by (force split: if_splits option.splits)
  next
    case False
    with 2 show ?thesis by (auto split: if_splits option.splits)
  qed
qed simp

text \<open>
  C29. Whatever text a client sends, the manifest that is accepted is well formed: one to ten thousand parts with numbers
  between one and ten thousand, in strictly increasing order, each with the 32 hexadecimal digits of an MD5.
\<close>
theorem manifest_well_formed:
  "parseMultipartManifest body = Inr parts \<Longrightarrow> wellFormedParts parts"
  by (auto simp: parseMultipartManifest_def wellFormedParts_def checkParts_None split: option.splits prod.splits sum.splits if_splits)


lemma find_index: "map fst xs = map int [0..<length xs] \<Longrightarrow> i < length xs \<Longrightarrow> find (\<lambda>c. fst c = int i) xs = Some (xs ! i)"
proof -
  assume idx: "map fst xs = map int [0..<length xs]" and i: "i < length xs"
  have at: "fst (xs ! j) = int j" if "j < length xs" for j
    using that idx by (metis (no_types, lifting) add_0 nth_map nth_upt length_map length_upt diff_zero)
  show ?thesis unfolding find_Some_iff using i at by (intro exI [of _ i]) auto
qed

lemma indices_full:
  assumes "sorted_wrt (<) (map fst xs)" and "\<forall>i < length xs. int i \<in> set (map fst xs)"
  shows "map fst xs = map int [0..<length xs]"
proof (rule strict_sorted_equal)
  show "sorted_wrt (<) (map fst xs)" by (rule assms(1))
  show "sorted_wrt (<) (map int [0..<length xs])" by (simp add: sorted_wrt_map)
  have sub: "set (map int [0..<length xs]) \<subseteq> set (map fst xs)" using assms(2) by auto
  have "distinct (map fst xs)" using assms(1) by (simp add: strict_sorted_iff)
  then have "card (set (map fst xs)) = card (set (map int [0..<length xs]))" by (simp only: distinct_card) (simp add: card_image)
  then show "set (map fst xs) = set (map int [0..<length xs])" using sub by (metis card_subset_eq finite_set)
qed

text \<open>
  A completion is accepted exactly when its manifest names all stored parts in order: the stored parts have the indices
  from zero on without a gap, and each part of the manifest has the number and the entity tag of its stored part. A part
  without a stored tag is never accepted.
\<close>
theorem manifest_matches_storage:
  assumes "sorted_wrt (<) (map fst chunks)"
  shows "validateMultipartManifest parts chunks = None \<longleftrightarrow>
    list_all2 (\<lambda>p c. cp_partNumber p = fst c + 1 \<and> map_option stripQuotes (snd c) = Some (cp_etag p)) parts chunks \<and>
    map fst chunks = map int [0..<length chunks]"
proof
  assume ok: "validateMultipartManifest parts chunks = None"
  then have len: "length parts = length chunks" and num: "map cp_partNumber parts = map int [1..<length parts + 1]"
    and stored: "\<forall>p \<in> set parts. storedPart chunks p"
    by (auto simp: validateMultipartManifest_def list_all_iff split: if_splits)
  have at: "cp_partNumber (parts ! i) = int i + 1" if "i < length parts" for i
  proof -
    have "map int [1..<length parts + 1] ! i = int i + 1" using that by (simp del: upt_Suc)
    with that show ?thesis unfolding num [symmetric] by simp
  qed
  have "int i \<in> set (map fst chunks)" if "i < length chunks" for i
  proof -
    from stored that len have "storedPart chunks (parts ! i)" by simp
    with at [of i] that len obtain c where "find (\<lambda>c. fst c = int i) chunks = Some c" by (auto simp: storedPart_def split: option.splits)
    from find_SomeD [OF this] show ?thesis by force
  qed
  with indices_full [OF assms] have idx: "map fst chunks = map int [0..<length chunks]" by blast
  have "cp_partNumber (parts ! i) = fst (chunks ! i) + 1 \<and> map_option stripQuotes (snd (chunks ! i)) = Some (cp_etag (parts ! i))"
    if i: "i < length parts" for i
  proof -
    have "storedPart chunks (parts ! i)" using stored i by simp
    with at [OF i] find_index [OF idx, of i] i len find_SomeD [of "\<lambda>c. fst c = int i" chunks] show ?thesis by (auto simp: storedPart_def)
  qed
  with len idx show "list_all2 (\<lambda>p c. cp_partNumber p = fst c + 1 \<and> map_option stripQuotes (snd c) = Some (cp_etag p)) parts chunks \<and>
      map fst chunks = map int [0..<length chunks]" by (simp add: list_all2_conv_all_nth)
next
  assume "list_all2 (\<lambda>p c. cp_partNumber p = fst c + 1 \<and> map_option stripQuotes (snd c) = Some (cp_etag p)) parts chunks \<and>
      map fst chunks = map int [0..<length chunks]"
  then have len: "length parts = length chunks" and idx: "map fst chunks = map int [0..<length chunks]"
    and all: "\<And>i. i < length parts \<Longrightarrow> cp_partNumber (parts ! i) = fst (chunks ! i) + 1 \<and>
      map_option stripQuotes (snd (chunks ! i)) = Some (cp_etag (parts ! i))" by (auto simp: list_all2_conv_all_nth)
  have at: "fst (chunks ! i) = int i" if "i < length chunks" for i
    using that idx by (metis (no_types, lifting) add_0 nth_map nth_upt length_map length_upt diff_zero)
  have "storedPart chunks p" if "p \<in> set parts" for p
  proof -
    from that obtain i where i: "i < length parts" "p = parts ! i" by (auto simp: in_set_conv_nth)
    with all [OF i(1)] at [of i] find_index [OF idx, of i] len show ?thesis by (simp add: storedPart_def)
  qed
  moreover have "map cp_partNumber parts = map int [1..<length parts + 1]"
    by (rule nth_equalityI) (use all at len in \<open>auto simp del: upt_Suc\<close>)
  ultimately show "validateMultipartManifest parts chunks = None" using len by (simp add: validateMultipartManifest_def list_all_iff)
qed

subsection \<open>A client's manifest is read back\<close>

lemma starts_simps [simp]:
  "jsStartsWith [] s" "\<not> jsStartsWith (a # p) []" "jsStartsWith (a # p) (b # s) = (a = b \<and> jsStartsWith p s)"
  by (auto simp: jsStartsWith_def)

lemma starts_append [simp]: "jsStartsWith p (p @ s)"
  by (simp add: jsStartsWith_def)

text \<open>How a client writes it.\<close>

definition partContent :: "completed_part \<Rightarrow> string" where
  "partContent p = ''<PartNumber>'' @ showInt (cp_partNumber p) @ ''</PartNumber><ETag>'' @ [CHR 0x22] @ cp_etag p @ [CHR 0x22] @ ''</ETag>''"

definition manifestXml :: "completed_part list \<Rightarrow> string" where
  "manifestXml ps = ''<CompleteMultipartUpload xmlns='' @ [CHR 0x22] @ ''http://s3.amazonaws.com/doc/2006-03-01/'' @ [CHR 0x22] @ ''>'' @
     concat (map (\<lambda>p. ''<Part>'' @ partContent p @ ''</Part>'') ps) @ ''</CompleteMultipartUpload>''"

lemma cutAt_skip: "list_all (\<lambda>c. c \<noteq> x) a \<Longrightarrow> cutAt (x # p) (a @ s) = map_option (\<lambda>(u, v). (a @ u, v)) (cutAt (x # p) s)"
  by (induction a) (auto simp: option.map_comp option.map_ident o_def case_prod_unfold)

lemma etagTag_skip: "list_all (\<lambda>c. c \<noteq> CHR ''<'') a \<Longrightarrow> etagTag (a @ s) = etagTag s"
  by (induction a) auto

lemma checksum_other: "c \<noteq> CHR ''<'' \<Longrightarrow> checksumLength (c # s) = None"
  by (simp add: checksumLength_def checksumNames_def)

lemma dropChecksums_skip: "list_all (\<lambda>c. c \<noteq> CHR ''<'') a \<Longrightarrow> dropChecksums (a @ s) = a @ dropChecksums s"
  by (induction a) (auto simp: checksum_other)

lemma lower_amp: "(if 65 \<le> byte c \<and> byte c \<le> 90 then char_of (byte c + 32) else c) \<noteq> CHR ''&''" if "c \<noteq> CHR ''&''"
proof (cases "65 \<le> byte c \<and> byte c \<le> 90")
  case True
  then have "byte (char_of (byte c + 32)) \<noteq> byte (CHR ''&'')" by (simp add: of_char_of take_bit_nat_eq_self)
  then show ?thesis unfolding if_P [OF True] by (rule contrapos_nn) (simp only:)
qed (use that in auto)

lemma replaceQuotes_skip: "list_all (\<lambda>c. c \<noteq> CHR ''&'') a \<Longrightarrow> replaceQuotes a = a"
proof (induction a)
  case (Cons c a)
  then obtain x where x: "asciiLower (c # a) = x # asciiLower a" "x \<noteq> CHR ''&''" using lower_amp by (simp add: asciiLower_def)
  then have "quoteEntity (c # a) = None" by (simp add: quoteEntity_def Let_def)
  with Cons show ?case by simp
qed simp


definition goodPart :: "completed_part \<Rightarrow> bool" where
  "goodPart p \<longleftrightarrow> 1 \<le> cp_partNumber p \<and> hexEtag (cp_etag p)"

lemma etag_chars: "goodPart p \<Longrightarrow> c \<in> set (cp_etag p) \<Longrightarrow> graphic c \<and> c \<noteq> CHR ''<'' \<and> c \<noteq> CHR ''&'' \<and> c \<noteq> CHR 0x22"
  by (auto simp: goodPart_def hexEtag_def list_all_iff baseDigit_def Let_def graphic_def)

lemma number_chars: "goodPart p \<Longrightarrow> list_all jsDigit (showInt (cp_partNumber p)) \<and> showInt (cp_partNumber p) \<noteq> []"
  using showNat_digits by (auto simp: goodPart_def showInt_def list_all_iff)

lemma digit_lt: "list_all jsDigit d \<Longrightarrow> list_all (\<lambda>c. c \<noteq> CHR ''<'') d"
  by (auto simp: list_all_iff jsDigit_def)

lemma numberTag_content:
  "goodPart p \<Longrightarrow> numberTag (partContent p) = Some (''<PartNumber>'' @ showInt (cp_partNumber p) @ ''</PartNumber>'', showInt (cp_partNumber p))"
proof -
  assume "goodPart p"
  then have d: "list_all jsDigit (showInt (cp_partNumber p))" "showInt (cp_partNumber p) \<noteq> []" using number_chars by blast+
  then have t: "takeWhile jsDigit (showInt (cp_partNumber p) @ CHR ''<'' # r) = showInt (cp_partNumber p)"
    "dropWhile jsDigit (showInt (cp_partNumber p) @ CHR ''<'' # r) = CHR ''<'' # r" for r
    by (auto simp: takeWhile_append2 dropWhile_append2 list_all_iff) (simp_all add: jsDigit_def)
  from d(2) t show ?thesis by (simp add: partContent_def Let_def)
qed

lemma part_pieces:
  assumes "goodPart p"
  shows "list_all (\<lambda>c. c \<noteq> CHR ''<'') (showInt (cp_partNumber p))" and "list_all (\<lambda>c. c \<noteq> CHR ''<'') (cp_etag p)"
    and "takeWhile (\<lambda>c. c \<noteq> CHR ''<'') (cp_etag p @ CHR 0x22 # CHR ''<'' # r) = cp_etag p @ [CHR 0x22]"
    and "dropWhile (\<lambda>c. c \<noteq> CHR ''<'') (cp_etag p @ CHR 0x22 # CHR ''<'' # r) = CHR ''<'' # r"
proof -
  show d: "list_all (\<lambda>c. c \<noteq> CHR ''<'') (showInt (cp_partNumber p))" using number_chars [OF assms] digit_lt by blast
  show e: "list_all (\<lambda>c. c \<noteq> CHR ''<'') (cp_etag p)" using etag_chars [OF assms] by (auto simp: list_all_iff)
  show "takeWhile (\<lambda>c. c \<noteq> CHR ''<'') (cp_etag p @ CHR 0x22 # CHR ''<'' # r) = cp_etag p @ [CHR 0x22]"
    "dropWhile (\<lambda>c. c \<noteq> CHR ''<'') (cp_etag p @ CHR 0x22 # CHR ''<'' # r) = CHR ''<'' # r"
    using e by (auto simp: takeWhile_append2 dropWhile_append2 list_all_iff)
qed

lemma etagTag_content:
  assumes "goodPart p"
  shows "etagTag (partContent p) = Some (''<ETag>'' @ CHR 0x22 # cp_etag p @ CHR 0x22 # ''</ETag>'', CHR 0x22 # cp_etag p @ [CHR 0x22])"
  using part_pieces [OF assms] by (simp add: partContent_def etagTag_skip Let_def)

lemma noChecksums: "goodPart p \<Longrightarrow> dropChecksums (partContent p) = partContent p"
proof -
  assume g: "goodPart p"
  have "checksumLength (''<PartNumber>'' @ r) = None" "checksumLength (''</PartNumber>'' @ r) = None" "checksumLength (''<ETag>'' @ r) = None"
    "checksumLength (''</ETag>'') = None" for r by (simp_all add: checksumLength_def checksumNames_def)
  with part_pieces(1,2) [OF g] show ?thesis by (simp add: partContent_def dropChecksums_skip checksum_other)
qed

lemma cutAt_front: "p \<noteq> [] \<Longrightarrow> cutAt p (p @ s) = Some ([], s)"
  by (cases p; simp)

lemma parsePart_content: "goodPart p \<Longrightarrow> parsePart (partContent p) = Inr \<lparr>cp_partNumber = cp_partNumber p, cp_etag = cp_etag p\<rparr>"
proof -
  assume g: "goodPart p"
  let ?n = "''<PartNumber>'' @ showInt (cp_partNumber p) @ ''</PartNumber>''"
  let ?e = "''<ETag>'' @ CHR 0x22 # cp_etag p @ CHR 0x22 # ''</ETag>''"
  let ?v = "CHR 0x22 # cp_etag p @ [CHR 0x22]"
  have split: "partContent p = ?n @ ?e" by (simp add: partContent_def)
  have "removeFirst ?e (removeFirst ?n (partContent p)) = []"
    unfolding split removeFirst_def using cutAt_front [of ?n ?e] cutAt_front [of ?e "[]"] by simp
  moreover have "utf8Trim ?v = ?v" by (rule utf8Trim_graphic) (simp add: graphic_def)
  moreover have "replaceQuotes ?v = ?v" using etag_chars [OF g] by (intro replaceQuotes_skip) (auto simp: list_all_iff)
  moreover have "stripQuotes ?v = cp_etag p" by (simp add: stripQuotes_def butlast_append)
  moreover have "int (baseVal 10 (showInt (cp_partNumber p))) = cp_partNumber p" using g by (simp add: goodPart_def showInt_def baseVal_showNat)
  ultimately show ?thesis
    using numberTag_content [OF g] etagTag_content [OF g] noChecksums [OF g] utf8Trim_graphic [of "[]"] by (simp add: parsePart_def)
qed

lemma cut_part: "goodPart p \<Longrightarrow> cutAt ''</Part>'' (partContent p @ ''</Part>'' @ rest) = Some (partContent p, rest)"
  using part_pieces(1,2) [of p] by (simp add: partContent_def cutAt_skip)

lemma splitParts_written: "\<forall>p \<in> set ps. goodPart p \<Longrightarrow>
    splitParts (concat (map (\<lambda>p. ''<Part>'' @ partContent p @ ''</Part>'') ps)) = (map partContent ps, [])"
proof (induction ps)
  case Nil
  show ?case by (subst splitParts.simps) simp
next
  case (Cons p ps)
  have "cutAt ''<Part>'' (''<Part>'' @ r) = Some ([], r)" for r by (rule cutAt_front) simp
  with Cons cut_part [of p] show ?case by (subst splitParts.simps) simp
qed

lemma parseParts_written: "\<forall>p \<in> set ps. goodPart p \<Longrightarrow> parseParts (map partContent ps) = Inr ps"
  by (induction ps) (simp_all add: parsePart_content)

lemma dropSpaces_keep: "graphic c \<Longrightarrow> dropSpaces (c # s) = c # s"
  unfolding dropSpaces_def using utf8Spaces_not_graphic by (intro stripFront_keep) force

lemma space_only: "w \<in> set utf8Spaces \<Longrightarrow> hd w = CHR '' '' \<Longrightarrow> w = '' ''"
proof -
  have "list_all (\<lambda>w. byte (hd w) = 32 \<longrightarrow> length w = 1) utf8Spaces"
    by (simp add: utf8Spaces_def upt_rec of_char_of take_bit_nat_eq_self)
  then show "w \<in> set utf8Spaces \<Longrightarrow> hd w = CHR '' '' \<Longrightarrow> ?thesis" by (cases w) (auto simp: list_all_iff)
qed

lemma dropSpaces_one: "graphic c \<Longrightarrow> dropSpaces (CHR '' '' # c # s) = c # s"
proof -
  assume c: "graphic c"
  let ?P = "\<lambda>w. w \<noteq> [] \<and> take (length w) (CHR '' '' # c # s) = w"
  have "char_of (32 :: nat) = CHR '' ''" by code_simp
  then have "'' '' \<in> set utf8Spaces" by (simp add: utf8Spaces_def)
  then obtain w where w: "find ?P utf8Spaces = Some w" by (cases "find ?P utf8Spaces") (auto simp: find_None_iff)
  from find_SomeD [OF w] have "w \<in> set utf8Spaces" "w \<noteq> []" "hd w = CHR '' ''" by (auto simp: take_Cons' split: if_splits) (metis list.sel(1))
  then have "w = '' ''" using space_only by blast
  with w have "dropSpaces (CHR '' '' # c # s) = dropSpaces (c # s)" unfolding dropSpaces_def by (subst stripFront.simps) simp
  with dropSpaces_keep [OF c] show ?thesis by simp
qed

lemma manifest_read:
  assumes "wellFormedParts parts"
  shows "parseMultipartManifest (manifestXml parts) = Inr parts"
proof -
  have good: "\<forall>p \<in> set parts. goodPart p" using assms by (auto simp: wellFormedParts_def goodPart_def)
  let ?x = "concat (map (\<lambda>p. ''<Part>'' @ partContent p @ ''</Part>'') parts)"
  have g: "graphic (CHR ''<'')" "graphic (CHR ''>'')" "graphic (CHR ''x'')" by (simp_all add: graphic_def)
  have "utf8Trim (manifestXml parts) = manifestXml parts"
    using g by (intro utf8Trim_graphic) (simp add: manifestXml_def)
  moreover have "stripDeclaration (manifestXml parts) = manifestXml parts" by (simp add: stripDeclaration_def manifestXml_def)
  moreover have "envelopeContent (manifestXml parts) = Some ?x"
    using g by (simp add: envelopeContent_def manifestXml_def dropSpaces_one dropSpaces_keep Let_def)
  moreover have "checkParts None parts = None" using assms by (simp add: checkParts_None wellFormedParts_def)
  ultimately show ?thesis
    using splitParts_written [OF good] parseParts_written [OF good] assms utf8Trim_graphic [of "[]"]
    by (simp add: parseMultipartManifest_def wellFormedParts_def)
qed

text \<open>
  The manifest that a client writes for well-formed parts is read back as these parts.
\<close>
theorem manifest_roundtrip:
  "wellFormedParts parts \<Longrightarrow> parseMultipartManifest (manifestXml parts) = Inr parts"
  by (rule manifest_read)

definition twoParts :: "completed_part list" where
  "twoParts = [\<lparr>cp_partNumber = 1, cp_etag = replicate 32 (CHR ''a'')\<rparr>, \<lparr>cp_partNumber = 2, cp_etag = replicate 32 (CHR ''7'')\<rparr>]"

lemma twoParts_good: "wellFormedParts twoParts"
  by (simp add: wellFormedParts_def twoParts_def hexEtag_def list_all_iff baseDigit_def digitVal_def)

lemma unquotedTag: "CHR 0x22 \<notin> set s \<Longrightarrow> stripQuotes s = s" and quotedTag: "stripQuotes (CHR 0x22 # s @ [CHR 0x22]) = s"
  by (auto simp: stripQuotes_def Let_def butlast_append split: list.splits) (metis last.simps last_in_set list.set_intros(2))

theorem manifest_roundtrip_witness: "parseMultipartManifest (manifestXml twoParts) = Inr twoParts"
  using manifest_roundtrip twoParts_good by blast

theorem manifest_well_formed_witness:
  "\<exists>parts. parseMultipartManifest (manifestXml twoParts) = Inr parts \<and> wellFormedParts parts"
  using manifest_read [OF twoParts_good] manifest_well_formed by blast

theorem manifest_matches_storage_witness:
  "validateMultipartManifest twoParts [(0, Some (CHR 0x22 # replicate 32 (CHR ''a'') @ [CHR 0x22])), (1, Some (replicate 32 (CHR ''7'')))] = None \<and>
   validateMultipartManifest twoParts [(0, Some (replicate 32 (CHR ''a''))), (2, Some (replicate 32 (CHR ''7'')))] \<noteq> None"
  using manifest_matches_storage [of "[(0, Some (CHR 0x22 # replicate 32 (CHR ''a'') @ [CHR 0x22])), (1, Some (replicate 32 (CHR ''7'')))]" twoParts]
    manifest_matches_storage [of "[(0, Some (replicate 32 (CHR ''a''))), (2, Some (replicate 32 (CHR ''7'')))]" twoParts]
  by (simp add: twoParts_def unquotedTag quotedTag upt_rec)

end
