(* ===== verification/S3Xml.thy ===== *)
theory S3Xml
  imports Manifest ListPages
begin

section \<open>The XML of the S3 interface\<close>

text \<open>
  common/utils/xml.ts, the parser and the builders of s3/s3.service.ts and s3/s3-multipart.service.ts, and
  s3/s3-error.util.ts. Names of users, buckets and keys are chosen by clients; the theorems say that they cannot reach the
  structure of a document and that a client reads them back.
\<close>

subsection \<open>Text in XML\<close>

definition replaceChar :: "char \<Rightarrow> string \<Rightarrow> string \<Rightarrow> string" where
  "replaceChar c w s = concat (map (\<lambda>x. if x = c then w else [x]) s)"

definition escapeXml :: "string \<Rightarrow> string" where
  "escapeXml str = replaceChar (CHR 0x27) ''&apos;'' (replaceChar (CHR 0x22) ''&quot;'' (replaceChar (CHR ''>'') ''&gt;''
     (replaceChar (CHR ''<'') ''&lt;'' (replaceChar (CHR ''&'') ''&amp;'' str))))"

definition xmlEntities :: "(string \<times> char) list" where
  "xmlEntities = [(''&lt;'', CHR ''<''), (''&gt;'', CHR ''>''), (''&quot;'', CHR 0x22), (''&apos;'', CHR 0x27), (''&amp;'', CHR ''&'')]"

definition entityHere :: "string \<Rightarrow> (string \<times> char) option" where
  "entityHere s = find (\<lambda>(e, _). jsStartsWith e s) xmlEntities"

lemma entityHere_length: "entityHere s = Some (e, x) \<Longrightarrow> e \<noteq> []"
  by (auto simp: entityHere_def xmlEntities_def split: if_splits)

function decodeXmlEntities :: "string \<Rightarrow> string" where
  "decodeXmlEntities [] = []"
| "decodeXmlEntities (c # s) = (case entityHere (c # s) of
     None \<Rightarrow> c # decodeXmlEntities s | Some (e, x) \<Rightarrow> x # decodeXmlEntities (drop (length e - 1) s))"
  by pat_completeness auto
termination
  by (relation "measure length") auto

subsection \<open>The request that deletes objects\<close>

definition quietHere :: "string \<Rightarrow> bool option" where
  "quietHere s = (let l = asciiLower s in if \<not> jsStartsWith ''<quiet>'' l then None else
     (let r = dropSpaces (drop 7 l);
          ends = (\<lambda>w. jsStartsWith w r \<and> jsStartsWith ''</quiet>'' (dropSpaces (drop (length w) r))) in
      if ends ''true'' then Some True else if ends ''false'' then Some False else None))"

fun quietOf :: "string \<Rightarrow> bool" where
  "quietOf [] = False"
| "quietOf (c # s) = (case quietHere (c # s) of Some q \<Rightarrow> q | None \<Rightarrow> quietOf s)"

text \<open>The matches of \<^verbatim>\<open>/<Key>([^<]+)<\\/Key>/g\<close>.\<close>

definition keyHere :: "string \<Rightarrow> string option" where
  "keyHere s = (if \<not> jsStartsWith ''<Key>'' s then None else
     (let content = takeWhile (\<lambda>c. c \<noteq> CHR ''<'') (drop 5 s) in
      if content \<noteq> [] \<and> jsStartsWith ''</Key>'' (drop (5 + length content) s) then Some content else None))"

function keyTexts :: "string \<Rightarrow> string list" where
  "keyTexts [] = []"
| "keyTexts (c # s) = (case keyHere (c # s) of
     None \<Rightarrow> keyTexts s | Some k \<Rightarrow> k # keyTexts (drop (10 + length k) s))"
  by pat_completeness auto
termination
  by (relation "measure length") auto

definition parseDeleteObjectsXml :: "string \<Rightarrow> backend_error + (bool \<times> string list)" where
  "parseDeleteObjectsXml body = (let quiet = quietOf body; keys = map decodeXmlEntities (keyTexts body) in
     if keys = [] \<or> length keys > 1000 then Inl malformedXML else Inr (quiet, keys))"

subsection \<open>Answers\<close>

definition newline :: string where "newline = [CHR 0x0A]"

definition dquote :: "string \<Rightarrow> string" where
  "dquote s = CHR 0x22 # s @ [CHR 0x22]"

definition xmlDeclaration :: string where
  "xmlDeclaration = ''<?xml version='' @ dquote ''1.0'' @ '' encoding='' @ dquote ''UTF-8'' @ ''?>'' @ newline"

definition s3Namespace :: string where
  "s3Namespace = '' xmlns='' @ dquote ''http://s3.amazonaws.com/doc/2006-03-01/''"

text \<open>An element on a line of its own.\<close>

definition xmlLine :: "nat \<Rightarrow> string \<Rightarrow> string \<Rightarrow> string" where
  "xmlLine n tag content = newline @ replicate n (CHR '' '') @ ''<'' @ tag @ ''>'' @ content @ ''</'' @ tag @ ''>''"

record delete_error =
  de_key :: string
  de_code :: string
  de_message :: string

definition buildDeleteResultXml :: "string list \<Rightarrow> delete_error list \<Rightarrow> bool \<Rightarrow> string" where
  "buildDeleteResultXml deleted errors quiet =
    (let deletedXml = (if quiet then [] else concat (map (\<lambda>k. ''<Deleted><Key>'' @ escapeXml k @ ''</Key></Deleted>'') deleted));
         errorsXml = concat (map (\<lambda>e. ''<Error><Key>'' @ escapeXml (de_key e) @ ''</Key><Code>'' @ escapeXml (de_code e) @ ''</Code><Message>'' @
           escapeXml (de_message e) @ ''</Message></Error>'') errors) in
     xmlDeclaration @ ''<DeleteResult'' @ s3Namespace @ ''>'' @ deletedXml @ errorsXml @ ''</DeleteResult>'')"

definition buildListBucketsXml :: "(string \<times> int) list \<Rightarrow> string \<Rightarrow> string" where
  "buildListBucketsXml buckets owner =
    (let bucketsXml = concat (map (\<lambda>(name, createdAt). newline @ ''    <Bucket>'' @ xmlLine 6 ''Name'' (escapeXml name) @
           xmlLine 6 ''CreationDate'' (toISOString createdAt) @ newline @ ''    </Bucket>'') buckets) in
     xmlDeclaration @ ''<ListAllMyBucketsResult'' @ s3Namespace @ ''>'' @ newline @ ''  <Owner>'' @ xmlLine 4 ''ID'' (escapeXml owner) @
       xmlLine 4 ''DisplayName'' (escapeXml owner) @ newline @ ''  </Owner>'' @ newline @ ''  <Buckets>'' @ bucketsXml @ newline @
       ''  </Buckets>'' @ newline @ ''</ListAllMyBucketsResult>'')"

definition encodeS3ListValue :: "string \<Rightarrow> string" where
  "encodeS3ListValue value = concat (map (\<lambda>c. if c \<in> set ''!()*'' \<or> c = CHR 0x27 then percentByte c else [c]) (encodeURIComponent value))"

record list_cursors =
  lc_version1 :: bool
  lc_marker :: "string option"
  lc_nextToken :: "string option"
  lc_token :: "string option"
  lc_startAfter :: "string option"

definition cursorLine :: "(string \<Rightarrow> string) \<Rightarrow> string \<Rightarrow> string option \<Rightarrow> string" where
  "cursorLine f tag x = (if present x then xmlLine 2 tag (escapeXml (f (the x))) else [])"

definition contentsXml :: "(string \<Rightarrow> string) \<Rightarrow> s3_object \<Rightarrow> string" where
  "contentsXml encodeValue o' = newline @ ''  <Contents>'' @ xmlLine 4 ''Key'' (escapeXml (encodeValue (so_key o'))) @
     xmlLine 4 ''LastModified'' (toISOString (so_lastModified o')) @ xmlLine 4 ''ETag'' (escapeXml (so_etag o')) @
     xmlLine 4 ''Size'' (showInt (so_size o')) @ xmlLine 4 ''StorageClass'' ''STANDARD'' @ newline @ ''  </Contents>''"

definition listEncoding :: "string option \<Rightarrow> string \<Rightarrow> string" where
  "listEncoding encodingType = (if encodingType = Some ''url'' then encodeS3ListValue else id)"

text \<open>The next marker of list type 1 is decoded from the token, which can fail.\<close>

definition nextMarkerXml :: "(string \<Rightarrow> string) \<Rightarrow> bool \<Rightarrow> string option \<Rightarrow> backend_error + string" where
  "nextMarkerXml encodeValue isTruncated nextToken = (if \<not> (isTruncated \<and> present nextToken) then Inr [] else
     map_sum id (\<lambda>k. xmlLine 2 ''NextMarker'' (escapeXml (encodeValue k))) (decodeContinuationToken (the nextToken)))"

definition markerXml :: "(string \<Rightarrow> string) \<Rightarrow> bool \<Rightarrow> list_cursors \<Rightarrow> backend_error + string" where
  "markerXml encodeValue isTruncated cs =
    (let marker = xmlLine 2 ''Marker'' (escapeXml (encodeValue (case lc_marker cs of None \<Rightarrow> [] | Some m \<Rightarrow> m))) in
     if lc_version1 cs then map_sum id (\<lambda>next. marker @ next) (nextMarkerXml encodeValue isTruncated (lc_nextToken cs)) else Inr [])"

definition buildListObjectsV2Xml ::
  "string \<Rightarrow> s3_object list \<Rightarrow> string list \<Rightarrow> string \<Rightarrow> string \<Rightarrow> int \<Rightarrow> bool \<Rightarrow> string option \<Rightarrow> list_cursors \<Rightarrow> backend_error + string" where
  "buildListObjectsV2Xml bucketName objects commonPrefixes prefix delimiter maxKeys isTruncated encodingType cs =
    (let encodeValue = listEncoding encodingType;
         keyCount = length objects + length commonPrefixes;
         objectsXml = concat (map (contentsXml encodeValue) objects);
         prefixesXml = concat (map (\<lambda>p. newline @ ''  <CommonPrefixes><Prefix>'' @ escapeXml (encodeValue p) @ ''</Prefix></CommonPrefixes>'') commonPrefixes);
         encodingTypeXml = (if encodingType = Some ''url'' then xmlLine 2 ''EncodingType'' ''url'' else []);
         cursorsXml = cursorLine id ''ContinuationToken'' (lc_token cs) @ cursorLine encodeValue ''StartAfter'' (lc_startAfter cs) @
           (if isTruncated then cursorLine id ''NextContinuationToken'' (lc_nextToken cs) else []) in
     map_sum id (\<lambda>marker. xmlDeclaration @ ''<ListBucketResult'' @ s3Namespace @ ''>'' @ xmlLine 2 ''Name'' (escapeXml bucketName) @
        xmlLine 2 ''Prefix'' (escapeXml (encodeValue prefix)) @ newline @ ''  '' @
        (if lc_version1 cs then [] else ''<KeyCount>'' @ showNat keyCount @ ''</KeyCount>'') @ xmlLine 2 ''MaxKeys'' (showInt maxKeys) @
        xmlLine 2 ''Delimiter'' (escapeXml (encodeValue delimiter)) @ encodingTypeXml @
        xmlLine 2 ''IsTruncated'' (if isTruncated then ''true'' else ''false'') @ (if lc_version1 cs then marker else cursorsXml) @
        objectsXml @ prefixesXml @ newline @ ''</ListBucketResult>'') (markerXml encodeValue isTruncated cs))"

definition buildErrorXml :: "string \<Rightarrow> string \<Rightarrow> string" where
  "buildErrorXml code message = xmlDeclaration @ ''<Error>'' @ xmlLine 2 ''Code'' (escapeXml code) @ xmlLine 2 ''Message'' (escapeXml message) @
     newline @ ''</Error>''"

definition buildInitiateMultipartUploadXml :: "string \<Rightarrow> string \<Rightarrow> string \<Rightarrow> string" where
  "buildInitiateMultipartUploadXml bucket key uploadId = xmlDeclaration @ ''<InitiateMultipartUploadResult'' @ s3Namespace @ ''>'' @
     xmlLine 2 ''Bucket'' (escapeXml bucket) @ xmlLine 2 ''Key'' (escapeXml key) @ xmlLine 2 ''UploadId'' (escapeXml uploadId) @ newline @
     ''</InitiateMultipartUploadResult>''"

definition buildCompleteMultipartUploadXml :: "string \<Rightarrow> string \<Rightarrow> string \<Rightarrow> string \<Rightarrow> string" where
  "buildCompleteMultipartUploadXml bucket key location etag = xmlDeclaration @ ''<CompleteMultipartUploadResult'' @ s3Namespace @ ''>'' @
     xmlLine 2 ''Location'' (escapeXml location) @ xmlLine 2 ''Bucket'' (escapeXml bucket) @ xmlLine 2 ''Key'' (escapeXml key) @
     xmlLine 2 ''ETag'' (escapeXml etag) @ newline @ ''</CompleteMultipartUploadResult>''"

definition buildListPartsXml :: "string \<Rightarrow> string \<Rightarrow> string \<Rightarrow> (int \<times> int \<times> string) list \<Rightarrow> string" where
  "buildListPartsXml bucket key uploadId parts =
    (let partsXml = concat (map (\<lambda>(n, sz, etag). newline @ ''  <Part>'' @ xmlLine 4 ''PartNumber'' (showInt n) @ xmlLine 4 ''Size'' (showInt sz) @
           xmlLine 4 ''ETag'' (escapeXml etag) @ newline @ ''  </Part>'') parts) in
     xmlDeclaration @ ''<ListPartsResult'' @ s3Namespace @ ''>'' @ xmlLine 2 ''Bucket'' (escapeXml bucket) @ xmlLine 2 ''Key'' (escapeXml key) @
       xmlLine 2 ''UploadId'' (escapeXml uploadId) @ xmlLine 2 ''IsTruncated'' ''false'' @ partsXml @ newline @ ''</ListPartsResult>'')"

subsection \<open>Errors\<close>

definition S3_STATUS_MAP :: "(string \<times> int) list" where
  "S3_STATUS_MAP = [(''NoSuchBucket'', 404), (''NoSuchUpload'', 404), (''InvalidPart'', 400), (''InvalidPartOrder'', 400), (''MalformedXML'', 400),
     (''NotImplemented'', 501), (''NoSuchKey'', 404), (''BucketNotEmpty'', 409), (''InvalidArgument'', 400), (''BadDigest'', 400),
     (''AccessDenied'', 403), (''InvalidRequest'', 400), (''ServiceUnavailable'', 503), (''InternalError'', 500)]"

definition splitS3ErrorCode :: "string \<Rightarrow> (string \<times> int) list \<Rightarrow> string \<times> string" where
  "splitS3ErrorCode raw knownCodes = (case cutAt '': '' raw of None \<Rightarrow> (raw, raw)
     | Some (candidate, message) \<Rightarrow> if map_of knownCodes candidate = None then (raw, raw) else (candidate, message))"


subsection \<open>Escaped text\<close>

abbreviation noTag :: "string \<Rightarrow> bool" where
  "noTag s \<equiv> list_all (\<lambda>c. c \<noteq> CHR ''<'') s"

definition escapeChar :: "char \<Rightarrow> string" where
  "escapeChar c = (if c = CHR ''&'' then ''&amp;'' else if c = CHR ''<'' then ''&lt;'' else if c = CHR ''>'' then ''&gt;''
     else if c = CHR 0x22 then ''&quot;'' else if c = CHR 0x27 then ''&apos;'' else [c])"

lemma replaceChar_Cons: "replaceChar c w (x # s) = (if x = c then w else [x]) @ replaceChar c w s"
  by (simp add: replaceChar_def)

lemma replaceChar_append: "replaceChar c w (a @ b) = replaceChar c w a @ replaceChar c w b"
  by (simp add: replaceChar_def)

lemma escapeXml_Nil [simp]: "escapeXml [] = []"
  by (simp add: escapeXml_def replaceChar_def)

lemma escapeXml_Cons: "escapeXml (c # s) = escapeChar c @ escapeXml s"
  unfolding escapeXml_def by (simp add: replaceChar_Cons replaceChar_append escapeChar_def) (simp add: replaceChar_def)

lemma escapeXml_clean: "list_all (\<lambda>c. c \<notin> {CHR ''<'', CHR ''>'', CHR 0x22, CHR 0x27}) (escapeXml s)"
  by (induction s) (simp_all add: escapeXml_Cons escapeChar_def)

lemma escapeXml_noTag: "noTag (escapeXml s)"
  using escapeXml_clean [of s] by (auto simp: list_all_iff)

lemma escapeXml_eq_Nil [simp]: "escapeXml s = [] \<longleftrightarrow> s = []"
  by (cases s) (simp_all add: escapeXml_Cons escapeChar_def)

lemma decode_char: "decodeXmlEntities (escapeChar c @ s) = c # decodeXmlEntities s"
  by (simp add: escapeChar_def entityHere_def xmlEntities_def jsStartsWith_def)

lemma decode_escape: "decodeXmlEntities (escapeXml s) = s"
  by (induction s) (simp_all add: escapeXml_Cons decode_char)

text \<open>
  Text is safe in a document and comes back: what is escaped has no character that could end an element or an attribute,
  and it decodes to the text it was.
\<close>
theorem xml_text_roundtrip:
  "decodeXmlEntities (escapeXml s) = s \<and> list_all (\<lambda>c. c \<notin> {CHR ''<'', CHR ''>'', CHR 0x22, CHR 0x27}) (escapeXml s)"
  using decode_escape escapeXml_clean by blast

subsection \<open>Reading keys\<close>

lemma keyTexts_char: "c \<noteq> CHR ''<'' \<Longrightarrow> keyTexts (c # s) = keyTexts s"
  by (simp add: keyHere_def jsStartsWith_def)

lemma keyTexts_skip: "noTag a \<Longrightarrow> keyTexts (a @ s) = keyTexts s"
  by (induction a) (simp_all add: keyTexts_char del: keyTexts.simps)

lemma keyTexts_tag: "\<not> jsStartsWith ''<Key>'' (c # s) \<Longrightarrow> keyTexts (c # s) = keyTexts s"
  by (simp add: keyHere_def)

lemma text_until_tag:
  assumes "noTag k"
  shows "takeWhile (\<lambda>c. c \<noteq> CHR ''<'') (k @ CHR ''<'' # s) = k"
  using assms by (induction k) auto

lemma keyTexts_key:
  assumes "noTag k" and "k \<noteq> []"
  shows "keyTexts (''<Key>'' @ k @ ''</Key>'' @ s) = k # keyTexts s"
proof -
  have tail: "drop (5 + length k) (''<Key>'' @ k @ r) = r" "drop (10 + length k) (''Key>'' @ k @ ''</Key>'' @ r) = r" for r
    using drop_drop [of "length k" 5 "''<Key>'' @ k @ r"] drop_drop [of "6 + length k" 4 "''Key>'' @ k @ ''</Key>'' @ r"]
      drop_drop [of 6 "length k" "k @ ''</Key>'' @ r"]
    by (simp_all add: add.commute)
  have "keyHere (''<Key>'' @ k @ ''</Key>'' @ s) = Some k"
    using assms text_until_tag [OF assms(1)] tail(1) [of "''</Key>'' @ s"] by (simp add: keyHere_def jsStartsWith_def)
  then show ?thesis using tail(2) [of s] by simp
qed

text \<open>The request that a client sends.\<close>

definition deleteRequest :: "bool \<Rightarrow> string list \<Rightarrow> string" where
  "deleteRequest quiet keys = ''<Delete><Quiet>'' @ (if quiet then ''true'' else ''false'') @ ''</Quiet>'' @
     concat (map (\<lambda>k. ''<Object><Key>'' @ escapeXml k @ ''</Key></Object>'') keys) @ ''</Delete>''"

lemma keyTexts_objects:
  "[] \<notin> set keys \<Longrightarrow> keyTexts (concat (map (\<lambda>k. ''<Object><Key>'' @ escapeXml k @ ''</Key></Object>'') keys) @ ''</Delete>'') = map escapeXml keys"
proof (induction keys)
  case (Cons k keys)
  have "keyTexts (''<Object>'' @ ''<Key>'' @ escapeXml k @ ''</Key>'' @ s) = escapeXml k # keyTexts s" for s
    using keyTexts_key [OF escapeXml_noTag, of k s] Cons.prems not_sym [of "[]" k]
    by (simp add: keyTexts_tag keyTexts_char jsStartsWith_def del: keyTexts.simps)
  with Cons show ?case by (simp add: keyTexts_tag keyTexts_char jsStartsWith_def del: keyTexts.simps)
qed (simp add: keyTexts_tag keyTexts_char jsStartsWith_def del: keyTexts.simps(2))


lemma asciiLower_append: "asciiLower (a @ b) = asciiLower a @ asciiLower b"
  by (simp add: asciiLower_def)

lemma lower_tag: "(if 65 \<le> byte c \<and> byte c \<le> 90 then char_of (byte c + 32) else c) \<noteq> CHR ''<''" if "c \<noteq> CHR ''<''"
proof (cases "65 \<le> byte c \<and> byte c \<le> 90")
  case True
  then have "byte (char_of (byte c + 32)) \<noteq> byte (CHR ''<'')" by (simp add: of_char_of take_bit_nat_eq_self)
  then show ?thesis unfolding if_P [OF True] by (rule contrapos_nn) (simp only:)
qed (use that in auto)

lemma quietOf_char: "c \<noteq> CHR ''<'' \<Longrightarrow> quietOf (c # s) = quietOf s"
proof -
  assume "c \<noteq> CHR ''<''"
  from lower_tag [OF this] obtain x where "asciiLower (c # s) = x # asciiLower s" "x \<noteq> CHR ''<''" by (simp add: asciiLower_def)
  then have "quietHere (c # s) = None" by (simp add: quietHere_def jsStartsWith_def)
  then show ?thesis by simp
qed

lemma quietOf_request: "quietOf (deleteRequest quiet keys) = quiet"
proof -
  have low: "asciiLower ''<Quiet>true</Quiet>'' = ''<quiet>true</quiet>''" "asciiLower ''<Quiet>false</Quiet>'' = ''<quiet>false</quiet>''"
    "asciiLower ''<Delete><Quiet>'' = ''<delete><quiet>''" "asciiLower ''<D'' = ''<d''"
    by code_simp+
  have g: "graphic (CHR ''t'')" "graphic (CHR ''f'')" "graphic (CHR ''<'')" by (simp_all add: graphic_def)
  have "quietHere (''<Quiet>true</Quiet>'' @ s) = Some True" "quietHere (''<Quiet>false</Quiet>'' @ s) = Some False" for s
    unfolding quietHere_def asciiLower_append low by (simp_all add: jsStartsWith_def dropSpaces_keep g Let_def)
  moreover have "quietOf (''<Delete>'' @ s) = quietOf s" for s
  proof -
    have "quietHere (''<D'' @ t) = None" for t
      using asciiLower_append [of "''<D''" t] low(4) by (simp add: quietHere_def jsStartsWith_def)
    then have "quietOf (CHR ''<'' # CHR ''D'' # t) = quietOf (CHR ''D'' # t)" for t
      by (subst quietOf.simps(2)) (simp del: quietOf.simps)
    then show ?thesis by (simp add: quietOf_char del: quietOf.simps)
  qed
  ultimately show ?thesis by (cases quiet) (simp_all add: deleteRequest_def)
qed


text \<open>
  A request to delete objects is read as what the client meant: the flag, and all keys in their order, whatever
  characters they have.
\<close>
theorem delete_request_roundtrip:
  assumes "keys \<noteq> []" and "length keys \<le> 1000" and "[] \<notin> set keys"
  shows "parseDeleteObjectsXml (deleteRequest quiet keys) = Inr (quiet, keys)"
proof -
  have "keyTexts (deleteRequest quiet keys) = keyTexts (concat (map (\<lambda>k. ''<Object><Key>'' @ escapeXml k @ ''</Key></Object>'') keys) @ ''</Delete>'')"
    by (simp add: deleteRequest_def keyTexts_tag keyTexts_char jsStartsWith_def del: keyTexts.simps)
  then have "map decodeXmlEntities (keyTexts (deleteRequest quiet keys)) = keys"
    using keyTexts_objects [OF assms(3)] decode_escape by (simp add: comp_def)
  with assms quietOf_request show ?thesis by (simp add: parseDeleteObjectsXml_def)
qed

theorem delete_request_roundtrip_witness:
  "parseDeleteObjectsXml (deleteRequest True [''a</Key><Key>b'', ''x&amp;y'']) = Inr (True, [''a</Key><Key>b'', ''x&amp;y''])"
  by (rule delete_request_roundtrip) simp_all

subsection \<open>Reading a listing\<close>

text \<open>\<^verbatim>\<open>decodeURIComponent\<close> on what encoders write.\<close>

fun percentDecode :: "string \<Rightarrow> string" where
  "percentDecode (p # h # l # s) = (if p = CHR ''%'' then char_of (16 * digitVal h + digitVal l) # percentDecode s
     else p # percentDecode (h # l # s))"
| "percentDecode s = s"

lemma percentDigit_val: "n < 16 \<Longrightarrow> digitVal (hexDigit n) = n"
  by (auto simp: digitVal_def hexDigit_def of_char_of take_bit_nat_eq_self Let_def)

lemma percentDecode_byte: "percentDecode (percentByte c @ s) = c # percentDecode s"
proof -
  have "byte c div 16 < 16" by (simp add: less_mult_imp_div_less)
  then show ?thesis by (simp add: percentByte_def Let_def percentDigit_val)
qed

lemma percentDecode_plain: "c \<noteq> CHR ''%'' \<Longrightarrow> percentDecode (c # s) = c # percentDecode s"
  by (cases s; cases "tl s") auto

definition listChar :: "char \<Rightarrow> string" where
  "listChar c = (if uriUnreserved c \<and> c \<notin> set ''!()*'' \<and> c \<noteq> CHR 0x27 then [c] else percentByte c)"

lemma encodeS3ListValue_Cons: "encodeS3ListValue (c # s) = listChar c @ encodeS3ListValue s"
proof -
  have "concat (map (\<lambda>c. if c \<in> set ''!()*'' \<or> c = CHR 0x27 then percentByte c else [c]) (percentByte c)) = percentByte c"
  proof -
    have "hexDigit n \<notin> set ''!()*'' \<and> hexDigit n \<noteq> CHR 0x27" if "n < 16" for n
    proof -
      have "byte (hexDigit n) \<ge> 48" using that by (simp add: hexDigit_def of_char_of take_bit_nat_eq_self)
      then show ?thesis by auto
    qed
    moreover have "byte c div 16 < 16" "byte c mod 16 < 16" by (simp_all add: less_mult_imp_div_less)
    ultimately show ?thesis by (simp add: percentByte_def Let_def)
  qed
  then show ?thesis by (auto simp: encodeS3ListValue_def encodeURIComponent_def listChar_def)
qed

lemma percentDecode_list: "percentDecode (encodeS3ListValue s) = s"
proof (induction s)
  case (Cons c s)
  have "uriUnreserved c \<Longrightarrow> c \<noteq> CHR ''%''" by (auto simp: uriUnreserved_def Let_def)
  with Cons show ?case by (simp add: encodeS3ListValue_Cons listChar_def percentDecode_byte percentDecode_plain)
qed (simp add: encodeS3ListValue_def)


text \<open>What surrounds the keys of a listing.\<close>

lemma digit_noTag: "list_all jsDigit s \<Longrightarrow> noTag s"
  by (auto simp: list_all_iff jsDigit_def)

lemma noTag_show [simp]: "noTag (showNat n)" "noTag (showInt i)" "noTag (toISOString t)" "noTag newline" "noTag (escapeXml s)" "noTag (replicate n (CHR '' ''))"
proof -
  show n: "noTag (showNat n)" for n using digit_noTag [of "showNat n"] showNat_digits [of _ n] by (simp add: list_all_iff)
  then show "noTag (showInt i)" by (simp add: showInt_def)
  have "noTag (pad0 w k)" for w k using digit_noTag [of "pad0 w k"] pad0_chars [of _ w k] by (simp add: list_all_iff)
  then show "noTag (toISOString t)" by (simp add: toISOString_def isoYear_def Let_def split: prod.split)
  show "noTag newline" by (simp add: newline_def)
  show "noTag (escapeXml s)" by (rule escapeXml_noTag)
  show "noTag (replicate n (CHR '' ''))" by (simp add: list_all_iff)
qed

lemma keyTexts_newline: "keyTexts (newline @ s) = keyTexts s"
  by (rule keyTexts_skip) simp

definition otherTag :: "string \<Rightarrow> bool" where
  "otherTag tag \<longleftrightarrow> noTag tag \<and> (\<forall>r. \<not> jsStartsWith ''Key>'' (tag @ r))"

lemma keyTexts_open: "otherTag tag \<Longrightarrow> keyTexts (CHR ''<'' # tag @ s) = keyTexts s"
  by (simp add: otherTag_def keyTexts_tag jsStartsWith_def keyTexts_skip del: keyTexts.simps)

lemma keyTexts_close: "keyTexts (CHR ''<'' # CHR ''/'' # s) = keyTexts s"
  by (simp add: keyTexts_tag keyTexts_char jsStartsWith_def del: keyTexts.simps)

lemma keyTexts_line: "otherTag (tag @ ''>'') \<Longrightarrow> noTag tag \<Longrightarrow> noTag content \<Longrightarrow> keyTexts (xmlLine n tag content @ s) = keyTexts s"
  using keyTexts_open [of "tag @ ''>''" "content @ CHR ''<'' # CHR ''/'' # tag @ CHR ''>'' # s"]
  by (simp add: xmlLine_def keyTexts_newline keyTexts_skip keyTexts_close keyTexts_char del: keyTexts.simps)

lemma keyTexts_keyLine: "noTag k \<Longrightarrow> k \<noteq> [] \<Longrightarrow> keyTexts (xmlLine n ''Key'' k @ s) = k # keyTexts s"
  using keyTexts_key [of k s] by (simp add: xmlLine_def keyTexts_newline keyTexts_skip del: keyTexts.simps)

lemma other_tags [simp]: "otherTag ''LastModified>''" "otherTag ''ETag>''" "otherTag ''Size>''" "otherTag ''StorageClass>''" "otherTag ''Contents>''"
  "otherTag ''Name>''" "otherTag ''Prefix>''" "otherTag ''MaxKeys>''" "otherTag ''Delimiter>''" "otherTag ''EncodingType>''" "otherTag ''IsTruncated>''"
  "otherTag ''ContinuationToken>''" "otherTag ''StartAfter>''" "otherTag ''NextContinuationToken>''" "otherTag ''Marker>''" "otherTag ''NextMarker>''"
  "otherTag ''KeyCount>''" "otherTag ''CommonPrefixes>''"
  by (simp_all add: otherTag_def jsStartsWith_def)

lemmas field_lines =
  keyTexts_line [of "''LastModified''", simplified]
  keyTexts_line [of "''ETag''", simplified]
  keyTexts_line [of "''Size''", simplified]
  keyTexts_line [of "''StorageClass''", simplified]
  keyTexts_line [of "''Name''", simplified]
  keyTexts_line [of "''Prefix''", simplified]
  keyTexts_line [of "''MaxKeys''", simplified]
  keyTexts_line [of "''Delimiter''", simplified]
  keyTexts_line [of "''EncodingType''", simplified]
  keyTexts_line [of "''IsTruncated''", simplified]
  keyTexts_line [of "''ContinuationToken''", simplified]
  keyTexts_line [of "''StartAfter''", simplified]
  keyTexts_line [of "''NextContinuationToken''", simplified]
  keyTexts_line [of "''Marker''", simplified]
  keyTexts_line [of "''NextMarker''", simplified]

lemma keyTexts_contents:
  assumes "so_key o' \<noteq> []" and "\<And>k. f k = [] \<longleftrightarrow> k = []"
  shows "keyTexts (contentsXml f o' @ s) = escapeXml (f (so_key o')) # keyTexts s"
proof -
  have "keyTexts (newline @ ''  <Contents>'' @ r) = keyTexts r" for r
    using keyTexts_open [of "''Contents>''" r] by (simp add: keyTexts_newline keyTexts_char del: keyTexts.simps)
  moreover have "keyTexts (newline @ ''  </Contents>'' @ r) = keyTexts r" for r
    by (simp add: keyTexts_newline keyTexts_char keyTexts_close del: keyTexts.simps)
  ultimately show ?thesis
    using assms by (simp add: contentsXml_def field_lines keyTexts_keyLine del: keyTexts.simps append.simps)
qed

lemma keyTexts_prefixes:
  "keyTexts (concat (map (\<lambda>p. newline @ ''  <CommonPrefixes><Prefix>'' @ escapeXml (f p) @ ''</Prefix></CommonPrefixes>'') ps) @ s) = keyTexts s"
proof (induction ps)
  case (Cons p ps)
  have "keyTexts (newline @ ''  <CommonPrefixes><Prefix>'' @ escapeXml (f p) @ ''</Prefix></CommonPrefixes>'' @ r) = keyTexts r" for r
    using keyTexts_open [of "''CommonPrefixes>''"] keyTexts_open [of "''Prefix>''"]
    by (simp add: keyTexts_newline keyTexts_char keyTexts_close keyTexts_skip del: keyTexts.simps)
  with Cons show ?case by (simp del: keyTexts.simps append.simps)
qed simp


lemma keyTexts_cursor: 
  "keyTexts (cursorLine f ''ContinuationToken'' x @ s) = keyTexts s" "keyTexts (cursorLine f ''StartAfter'' x @ s) = keyTexts s"
  "keyTexts (cursorLine f ''NextContinuationToken'' x @ s) = keyTexts s"
  by (simp_all add: cursorLine_def field_lines del: keyTexts.simps)

lemma keyTexts_marker:
  assumes "markerXml f isTruncated cs = Inr marker"
  shows "keyTexts (marker @ s) = keyTexts s"
proof (cases "lc_version1 cs")
  case True
  then obtain m where m: "marker = xmlLine 2 ''Marker'' (escapeXml (f (case lc_marker cs of None \<Rightarrow> [] | Some m \<Rightarrow> m))) @ m"
    "nextMarkerXml f isTruncated (lc_nextToken cs) = Inr m"
    using assms by (cases "nextMarkerXml f isTruncated (lc_nextToken cs)") (auto simp: markerXml_def Let_def)
  have "keyTexts (m @ s) = keyTexts s"
    using m(2) by (cases "decodeContinuationToken (the (lc_nextToken cs))") (auto simp: nextMarkerXml_def field_lines split: if_splits simp del: keyTexts.simps)
  with m(1) show ?thesis by (simp add: field_lines del: keyTexts.simps)
qed (use assms in \<open>simp add: markerXml_def\<close>)

text \<open>The keys that a client finds in an answer.\<close>

definition listedKeys :: "string \<Rightarrow> string list" where
  "listedKeys xml = map decodeXmlEntities (keyTexts xml)"

lemma listing_keyTexts:
  assumes "buildListObjectsV2Xml bucketName objects commonPrefixes prefix delimiter maxKeys isTruncated encodingType cs = Inr xml"
    and "\<forall>x \<in> set objects. so_key x \<noteq> []"
  shows "keyTexts xml = map (\<lambda>x. escapeXml (listEncoding encodingType (so_key x))) objects"
proof -
  let ?f = "listEncoding encodingType"
  have "k = []" if "encodeS3ListValue k = []" for k using percentDecode_list [of k] that by simp
  then have f: "?f k = [] \<longleftrightarrow> k = []" for k by (auto simp: listEncoding_def encodeS3ListValue_def)
  have objects: "keyTexts (concat (map (contentsXml ?f) objects) @ s) = map (\<lambda>x. escapeXml (?f (so_key x))) objects @ keyTexts s" for s
    using assms(2) by (induction objects) (simp_all add: keyTexts_contents f del: keyTexts.simps)
  obtain marker where marker: "markerXml ?f isTruncated cs = Inr marker"
    using assms(1) by (cases "markerXml ?f isTruncated cs") (simp_all add: buildListObjectsV2Xml_def Let_def)
  have head: "keyTexts (xmlDeclaration @ ''<ListBucketResult'' @ s3Namespace @ ''>'' @ r) = keyTexts r" for r
  proof -
    have "xmlDeclaration = CHR ''<'' # tl xmlDeclaration" "noTag (tl xmlDeclaration)" "\<not> jsStartsWith ''<Key>'' (xmlDeclaration @ t)" for t
      by (simp_all add: xmlDeclaration_def dquote_def newline_def jsStartsWith_def)
    then have "keyTexts (xmlDeclaration @ t) = keyTexts t" for t
      using keyTexts_skip keyTexts_tag by (metis append_Cons)
    moreover have "noTag s3Namespace" by (simp add: s3Namespace_def dquote_def)
    ultimately show ?thesis by (simp add: keyTexts_tag keyTexts_char keyTexts_skip jsStartsWith_def del: keyTexts.simps)
  qed
  have count: "keyTexts (''<KeyCount>'' @ showNat n @ ''</KeyCount>'' @ r) = keyTexts r" for n r
    by (simp add: keyTexts_tag keyTexts_char keyTexts_skip keyTexts_close jsStartsWith_def del: keyTexts.simps)
  have ends: "keyTexts (newline @ ''</ListBucketResult>'') = []"
    by (simp add: keyTexts_newline keyTexts_close keyTexts_char del: keyTexts.simps(2))
  have spaces: "keyTexts (newline @ ''  '' @ r) = keyTexts r" for r
    by (simp add: keyTexts_newline keyTexts_char del: keyTexts.simps)
  have flag: "noTag (if isTruncated then ''true'' else ''false'')" by simp
  have optional: "(\<And>r. keyTexts (x @ r) = keyTexts r) \<Longrightarrow> (\<And>r. keyTexts (y @ r) = keyTexts r) \<Longrightarrow> keyTexts ((if c then x else y) @ r) = keyTexts r" for c x y r
    by simp
  have "\<exists>cursors. xml = xmlDeclaration @ ''<ListBucketResult'' @ s3Namespace @ ''>'' @ xmlLine 2 ''Name'' (escapeXml bucketName) @
        xmlLine 2 ''Prefix'' (escapeXml (?f prefix)) @ newline @ ''  '' @
        (if lc_version1 cs then [] else ''<KeyCount>'' @ showNat (length objects + length commonPrefixes) @ ''</KeyCount>'') @
        xmlLine 2 ''MaxKeys'' (showInt maxKeys) @ xmlLine 2 ''Delimiter'' (escapeXml (?f delimiter)) @
        (if encodingType = Some ''url'' then xmlLine 2 ''EncodingType'' ''url'' else []) @
        xmlLine 2 ''IsTruncated'' (if isTruncated then ''true'' else ''false'') @ cursors @
        concat (map (contentsXml ?f) objects) @
        concat (map (\<lambda>p. newline @ ''  <CommonPrefixes><Prefix>'' @ escapeXml (?f p) @ ''</Prefix></CommonPrefixes>'') commonPrefixes) @
        newline @ ''</ListBucketResult>'' \<and> (\<forall>r. keyTexts (cursors @ r) = keyTexts r)"
    using assms(1) marker keyTexts_marker [OF marker] keyTexts_cursor
    by (intro exI [of _ "if lc_version1 cs then marker else cursorLine id ''ContinuationToken'' (lc_token cs) @ cursorLine ?f ''StartAfter'' (lc_startAfter cs) @
           (if isTruncated then cursorLine id ''NextContinuationToken'' (lc_nextToken cs) else [])"])
      (simp add: buildListObjectsV2Xml_def Let_def del: keyTexts.simps append_Cons)
  then obtain cursors where xml: "xml = xmlDeclaration @ ''<ListBucketResult'' @ s3Namespace @ ''>'' @ xmlLine 2 ''Name'' (escapeXml bucketName) @
        xmlLine 2 ''Prefix'' (escapeXml (?f prefix)) @ newline @ ''  '' @
        (if lc_version1 cs then [] else ''<KeyCount>'' @ showNat (length objects + length commonPrefixes) @ ''</KeyCount>'') @
        xmlLine 2 ''MaxKeys'' (showInt maxKeys) @ xmlLine 2 ''Delimiter'' (escapeXml (?f delimiter)) @
        (if encodingType = Some ''url'' then xmlLine 2 ''EncodingType'' ''url'' else []) @
        xmlLine 2 ''IsTruncated'' (if isTruncated then ''true'' else ''false'') @ cursors @
        concat (map (contentsXml ?f) objects) @
        concat (map (\<lambda>p. newline @ ''  <CommonPrefixes><Prefix>'' @ escapeXml (?f p) @ ''</Prefix></CommonPrefixes>'') commonPrefixes) @
        newline @ ''</ListBucketResult>''" and cursors: "\<And>r. keyTexts (cursors @ r) = keyTexts r" by blast
  show ?thesis
    unfolding xml by (simp add: head objects keyTexts_prefixes ends count spaces field_lines cursors flag optional del: keyTexts.simps append_Cons)
qed


text \<open>
  A client reads the keys of a page out of the XML as they are, in their order: directly, or percent-decoded when it asked
  for the URL encoding. Names of buckets, prefixes, delimiters and cursors cannot add a key.
\<close>
theorem listed_keys_readable:
  assumes "buildListObjectsV2Xml bucketName objects commonPrefixes prefix delimiter maxKeys isTruncated encodingType cs = Inr xml"
    and "\<forall>x \<in> set objects. so_key x \<noteq> []"
  shows "map (if encodingType = Some ''url'' then percentDecode else id) (listedKeys xml) = map so_key objects"
  using listing_keyTexts [OF assms] by (simp add: listedKeys_def decode_escape listEncoding_def percentDecode_list comp_def)

theorem listed_keys_readable_witness:
  "\<exists>xml. buildListObjectsV2Xml ''<b>'' [\<lparr>so_key = ''a<Key>&.txt'', so_size = 3, so_lastModified = 0, so_etag = ''e''\<rparr>] [''<Key>x</Key>''] [] ''/''
      1000 False (Some ''url'') \<lparr>lc_version1 = False, lc_marker = None, lc_nextToken = None, lc_token = None, lc_startAfter = None\<rparr> = Inr xml \<and>
     map percentDecode (listedKeys xml) = [''a<Key>&.txt'']"
proof -
  let ?build = "buildListObjectsV2Xml ''<b>'' [\<lparr>so_key = ''a<Key>&.txt'', so_size = 3, so_lastModified = 0, so_etag = ''e''\<rparr>] [''<Key>x</Key>''] [] ''/''
      1000 False (Some ''url'') \<lparr>lc_version1 = False, lc_marker = None, lc_nextToken = None, lc_token = None, lc_startAfter = None\<rparr>"
  obtain xml where "?build = Inr xml" by (simp add: buildListObjectsV2Xml_def markerXml_def Let_def)
  with listed_keys_readable [OF this] show ?thesis by (intro exI [of _ xml]) simp
qed

text \<open>A numeric entity, as SDKs write it for a carriage return in a key, stays as it is.\<close>

lemma numeric_entities_kept: "decodeXmlEntities ''a&#xD;'' = ''a&#xD;''"
  by (simp add: entityHere_def xmlEntities_def jsStartsWith_def)

end
