(* ===== verification/S3Objects.thy ===== *)
theory S3Objects
  imports S3Keys Upload
begin

section \<open>Objects of the S3 interface: put, get, copy, delete\<close>

text \<open>
  The S3 calls of \<^verbatim>\<open>GrpcCoreController\<close> (backend/src/grpc/grpc-core.controller.ts), which the transfer server makes
  for \<^verbatim>\<open>PUT\<close> and \<^verbatim>\<open>GET\<close>, and the handlers of \<^verbatim>\<open>S3Controller\<close> (backend/src/s3/s3.controller.ts) for copying and
  deleting. Encrypted keys, MIME types and fresh ids are arguments; errors carry their status and message, the XML
  around them is left out.
\<close>

subsection \<open>Put\<close>

text \<open>What the transfer server is told.\<close>

record put_ticket =
  pt_fileId :: string
  pt_folderId :: string
  pt_encryptedKey :: string
  pt_isEncrypted :: bool
  pt_isEmptyObject :: bool

definition keyConflict :: backend_error where
  "keyConflict = HttpException 409 ''An object with this key already exists. Overwrite the existing object or delete it first.''"

definition assertNoKeyConflict :: "backend_error \<Rightarrow> 'a bop" where
  "assertNoKeyConflict err = throwOp (if err = PrismaP2002 then keyConflict else err)"

text \<open>\<^verbatim>\<open>key.split('/').pop() || key\<close>\<close>

definition lastSegment :: "string \<Rightarrow> string" where
  "lastSegment key = (let s = last (jsSplit (CHR ''/'') key) in if s = [] then key else s)"

definition emptyEtag :: string where
  "emptyEtag = CHR 0x22 # ''d41d8cd98f00b204e9800998ecf8427e'' @ [CHR 0x22]"

definition prepareS3Put ::
  "string \<Rightarrow> string \<Rightarrow> string \<Rightarrow> (nat \<Rightarrow> string) \<Rightarrow> int \<Rightarrow> string \<Rightarrow> string \<Rightarrow> string \<Rightarrow> int \<Rightarrow> put_ticket bop" where
  "prepareS3Put newId encryptedKey mime freshId now userId bucket key contentLength =
    (if endsWithSlash key then
       bindOp (resolveKeyAsFolder userId bucket key freshId now) (\<lambda>folderId.
       returnOp \<lparr>pt_fileId = [], pt_folderId = folderId, pt_encryptedKey = [], pt_isEncrypted = False, pt_isEmptyObject = False\<rparr>)
     else if contentLength \<le> 0 then
       bindOp (resolveKey userId bucket key True freshId now) (\<lambda>(folderId, _).
       (let row = (newFileRow newId (lastSegment key) 0 (orNull (Some folderId)) userId now)\<lparr>fr_mimeType := mime, fr_status := Complete,
              fr_etag := Some emptyEtag, fr_isEncrypted := False\<rparr> in
        thenOp (transactionOp (thenOp (catchOp (createFile row) assertNoKeyConflict)
          (bindOp (getsOp (staleVersions row)) (\<lambda>stale. bindOp (trashVersions stale now) (releaseClamped userId)))))
        (returnOp \<lparr>pt_fileId = [], pt_folderId = folderId, pt_encryptedKey = [], pt_isEncrypted = False, pt_isEmptyObject = True\<rparr>)))
     else
       bindOp (resolveKey userId bucket key True freshId now) (\<lambda>(folderId, _).
       (let row = (newFileRow newId (lastSegment key) contentLength (orNull (Some folderId)) userId now)\<lparr>fr_mimeType := mime,
              fr_status := Uploading, fr_isEncrypted := True, fr_encryptionAlgo := Some AES_CTR, fr_encryptedKey := Some encryptedKey\<rparr> in
        thenOp (catchOp (createFile row) assertNoKeyConflict)
        (returnOp \<lparr>pt_fileId = newId, pt_folderId = folderId, pt_encryptedKey = encryptedKey, pt_isEncrypted = True, pt_isEmptyObject = False\<rparr>))))"

text \<open>The put that the control plane answers with a redirect to the transfer server.\<close>

definition redirectPutObject ::
  "string \<Rightarrow> string \<Rightarrow> string \<Rightarrow> (nat \<Rightarrow> string) \<Rightarrow> int \<Rightarrow> string \<Rightarrow> string \<Rightarrow> string \<Rightarrow> int \<Rightarrow> string option bop" where
  "redirectPutObject newId encryptedKey mime freshId now userId bucket key contentLength =
    (if contentLength = 0 then
       bindOp (resolveKeyAsFolder userId bucket (if endsWithSlash key then key else key @ ''/'') freshId now) (\<lambda>_. returnOp None)
     else bindOp (resolveKey userId bucket key True freshId now) (\<lambda>(folderId, _).
       thenOp (createFile ((newFileRow newId (lastSegment key) contentLength (orNull (Some folderId)) userId now)\<lparr>fr_mimeType := mime,
              fr_status := Uploading, fr_isEncrypted := True, fr_encryptionAlgo := Some AES_CTR, fr_encryptedKey := Some encryptedKey\<rparr>))
       (returnOp (Some newId))))"

subsection \<open>Get\<close>

record object_info =
  oi_fileId :: string
  oi_mimeType :: string
  oi_size :: int
  oi_etag :: string
  oi_lastModified :: int

definition objectInfo :: "file_row \<Rightarrow> object_info" where
  "objectInfo f = \<lparr>oi_fileId = fr_id f, oi_mimeType = fr_mimeType f, oi_size = fr_size f, oi_etag = etagOf f, oi_lastModified = fr_createdAt f\<rparr>"

text \<open>Every failure is a miss, which \<open>None\<close> stands for.\<close>

definition resolveS3Object :: "string \<Rightarrow> string \<Rightarrow> string \<Rightarrow> object_info option bop" where
  "resolveS3Object userId bucket key = catchOp (bindOp (findObject userId bucket key) (\<lambda>f. returnOp (Some (objectInfo f)))) (\<lambda>_. returnOp None)"

text \<open>Whether a share link of a folder covers a file.\<close>

definition verifyFolderShare :: "string \<Rightarrow> string \<Rightarrow> bool bop" where
  "verifyFolderShare shareToken fileId =
     bindOp (getsOp (find (\<lambda>f. fld_shareToken f = Some shareToken \<and> fld_deletedAt f = None) \<circ> bk_folders)) (\<lambda>row. case row of
       None \<Rightarrow> returnOp False
     | Some rt \<Rightarrow> bindOp (getsOp (find (\<lambda>f. fr_id f = fileId \<and> fr_deletedAt f = None) \<circ> bk_files)) (\<lambda>file. case file of
         None \<Rightarrow> returnOp False
       | Some f \<Rightarrow> if \<not> present (fr_folderId f) then returnOp False else
           bindOp (getsOp (\<lambda>b. isDescendantOf b (the (fr_folderId f)) (fld_id rt))) (\<lambda>r. case r of
             None \<Rightarrow> throwOp Diverges | Some child \<Rightarrow> returnOp child)))"

subsection \<open>Delete\<close>

definition errorStatus :: "backend_error \<Rightarrow> int option" where
  "errorStatus e = (case e of NotFoundException _ \<Rightarrow> Some 404 | BadRequestException _ \<Rightarrow> Some 400 | ConflictException _ \<Rightarrow> Some 409
     | NameConflict _ _ _ _ \<Rightarrow> Some 409 | UnauthorizedException _ \<Rightarrow> Some 401 | ForbiddenException _ \<Rightarrow> Some 403 | GoneException _ \<Rightarrow> Some 410
     | HttpException n _ \<Rightarrow> Some n | _ \<Rightarrow> None)"

definition deleteKey :: "string \<Rightarrow> string \<Rightarrow> string \<Rightarrow> int \<Rightarrow> unit bop" where
  "deleteKey userId bucket key now =
    (if endsWithSlash key then bindOp (deleteFolderMarker userId bucket key now) (\<lambda>_. returnOp ())
     else bindOp (findObject userId bucket key) (\<lambda>file.
       thenOp (delete (fr_id file) (Some userId)) (modifyOp (cleanupEmptyFolders userId (fr_folderId file) now))))"

definition isMissing :: "backend_error \<Rightarrow> bool" where
  "isMissing err \<longleftrightarrow> errorStatus err = Some 404 \<or> err = PlainError ''NoSuchKey''"

text \<open>Deleting a key that does not exist is no error.\<close>

definition handleDelete :: "string \<Rightarrow> string \<Rightarrow> string \<Rightarrow> int \<Rightarrow> unit bop" where
  "handleDelete userId bucket key now = catchOp (deleteKey userId bucket key now)
     (\<lambda>err. if isMissing err then returnOp () else throwOp err)"

text \<open>The keys that were deleted and those that failed, in the order of the request.\<close>

definition deleteObject ::
  "string \<Rightarrow> string \<Rightarrow> int \<Rightarrow> string \<Rightarrow> string list \<times> (string \<times> backend_error) list \<Rightarrow> (string list \<times> (string \<times> backend_error) list) bop" where
  "deleteObject userId bucket now key acc = (case acc of (deleted, errors) \<Rightarrow>
     catchOp (thenOp (deleteKey userId bucket key now) (returnOp (deleted @ [key], errors)))
       (\<lambda>err. if isMissing err then returnOp (deleted @ [key], errors) else returnOp (deleted, errors @ [(key, err)])))"

definition deleteObjects :: "string \<Rightarrow> string \<Rightarrow> string list \<Rightarrow> int \<Rightarrow> (string list \<times> (string \<times> backend_error) list) bop" where
  "deleteObjects userId bucket keys now = foldOp (deleteObject userId bucket now) keys ([], [])"

subsection \<open>Copy\<close>

definition copyRow :: "string \<Rightarrow> string \<Rightarrow> string \<Rightarrow> string \<Rightarrow> int \<Rightarrow> file_row \<Rightarrow> file_row" where
  "copyRow newId filename folderId userId now f = (newFileRow newId filename (fr_size f) (orNull (Some folderId)) userId now)
     \<lparr>fr_mimeType := fr_mimeType f, fr_telegramFileId := fr_telegramFileId f, fr_telegramMessageId := fr_telegramMessageId f,
      fr_isChunked := fr_isChunked f, fr_totalChunks := fr_totalChunks f, fr_status := Complete, fr_isEncrypted := fr_isEncrypted f,
      fr_encryptionAlgo := fr_encryptionAlgo f, fr_encryptionIv := fr_encryptionIv f, fr_encryptedKey := fr_encryptedKey f,
      fr_etag := Some (etagOf f)\<rparr>"

text \<open>The entity tag and the time of creation.\<close>

definition copyObject :: "string \<Rightarrow> (nat \<Rightarrow> string) \<Rightarrow> int \<Rightarrow> string \<Rightarrow> string \<Rightarrow> string \<Rightarrow> string \<Rightarrow> (string \<times> int) bop" where
  "copyObject newId freshId now userId destBucket destKey copySource =
    (let cleanSource = (if jsStartsWith ''/'' copySource then drop 1 copySource else copySource) in
     case jsCut (CHR ''/'') cleanSource of
       None \<Rightarrow> throwOp (HttpException 400 ''InvalidArgument'')
     | Some (sourceBucket, sourceKey) \<Rightarrow>
        if sourceBucket = destBucket \<and> sourceKey = destKey then
          bindOp (findObject userId sourceBucket sourceKey) (\<lambda>f. returnOp (etagOf f, fr_createdAt f))
        else bindOp (findObject userId sourceBucket sourceKey) (\<lambda>f.
          bindOp (resolveKey userId destBucket destKey True freshId now) (\<lambda>(folderId, _).
          thenOp (createFile (copyRow newId (lastSegment destKey) folderId userId now f))
          (thenOp (chargeQuota userId (fr_size f)) (returnOp (etagOf f, now))))))"

subsection \<open>Putting and getting\<close>

lemma last_split: "s \<noteq> [] \<Longrightarrow> last s \<noteq> d \<Longrightarrow> last (jsSplit d s) \<noteq> []"
proof (induction s)
  case (Cons c s)
  show ?case
  proof (cases s)
    case Nil
    with Cons.prems show ?thesis by simp
  next
    case (Cons x xs)
    with Cons.IH Cons.prems have "last (jsSplit d s) \<noteq> []" by simp
    then show ?thesis by (auto split: list.split)
  qed
qed simp

lemma lastSegment_part:
  assumes "\<not> endsWithSlash key" and "pathParts key \<noteq> []"
  shows "lastSegment key = last (pathParts key)"
proof -
  have "key \<noteq> []" using assms(2) by (auto simp: pathParts_def)
  with assms(1) have "last (jsSplit (CHR ''/'') key) \<noteq> []" by (intro last_split) (auto simp: endsWithSlash_def)
  then have "last (pathParts key) = last (jsSplit (CHR ''/'') key)"
    unfolding pathParts_def
    by (cases "jsSplit (CHR ''/'') key" rule: rev_cases) simp_all
  with \<open>last (jsSplit (CHR ''/'') key) \<noteq> []\<close> show ?thesis by (simp add: lastSegment_def)
qed

lemma activeKeys_mem:
  "x \<in> set fs \<Longrightarrow> fr_deletedAt x = None \<Longrightarrow> fr_folderId x \<noteq> None \<Longrightarrow>
   (fr_userId x, the (fr_folderId x), fr_filename x) \<in> set (activeKeys fs)"
  by (induction fs) auto

lemma activeKeys_snoc: "activeKeys (fs @ gs) = activeKeys fs @ activeKeys gs"
  by (induction fs) auto

text \<open>The live row that the partial unique index holds against a new one.\<close>

definition blocks :: "file_row \<Rightarrow> file_row \<Rightarrow> bool" where
  "blocks row g \<longleftrightarrow> fr_deletedAt g = None \<and> fr_userId g = fr_userId row \<and> fr_folderId g = fr_folderId row \<and> fr_filename g = fr_filename row"

lemma active_snoc:
  assumes "activeUnique (fs @ [row])" and "fr_deletedAt row = None" and "fr_folderId row \<noteq> None" and "g \<in> set fs"
  shows "\<not> blocks row g"
proof
  assume g: "blocks row g"
  with assms(3,4) have "(fr_userId g, the (fr_folderId g), fr_filename g) \<in> set (activeKeys fs)"
    by (intro activeKeys_mem) (auto simp: blocks_def)
  moreover have "activeKeys (fs @ [row]) = activeKeys fs @ [(fr_userId row, the (fr_folderId row), fr_filename row)]"
    using assms(2,3) by (simp add: activeKeys_snoc)
  ultimately show False using assms(1) g by (simp add: activeUnique_def blocks_def)
qed

lemma createFile_apply:
  "createFile row b = (if activeUnique (bk_files b @ [row]) then (Inr (), setFiles (\<lambda>fs. fs @ [row]) b) else (Inl PrismaP2002, b))"
  by (simp add: createFile_def writeFiles_def op_simps)


text \<open>The row that a put creates.\<close>

definition putRow :: "string \<Rightarrow> string \<Rightarrow> string \<Rightarrow> int \<Rightarrow> string \<Rightarrow> string \<Rightarrow> string \<Rightarrow> int \<Rightarrow> file_row" where
  "putRow newId encryptedKey mime now userId folderId filename contentLength =
     (newFileRow newId filename contentLength (orNull (Some folderId)) userId now)\<lparr>fr_mimeType := mime,
              fr_status := Uploading, fr_isEncrypted := True, fr_encryptionAlgo := Some AES_CTR, fr_encryptedKey := Some encryptedKey\<rparr>"

definition emptyRow :: "string \<Rightarrow> string \<Rightarrow> int \<Rightarrow> string \<Rightarrow> string \<Rightarrow> string \<Rightarrow> file_row" where
  "emptyRow newId mime now userId folderId filename =
     (newFileRow newId filename 0 (orNull (Some folderId)) userId now)\<lparr>fr_mimeType := mime, fr_status := Complete,
              fr_etag := Some emptyEtag, fr_isEncrypted := False\<rparr>"

lemma putRow_fields [simp]:
  "fr_id (putRow i k m t u d n l) = i" "fr_userId (putRow i k m t u d n l) = u" "fr_folderId (putRow i k m t u d n l) = orNull (Some d)"
  "fr_filename (putRow i k m t u d n l) = n" "fr_deletedAt (putRow i k m t u d n l) = None" "fr_status (putRow i k m t u d n l) = Uploading"
  "fr_id (emptyRow i m t u d n) = i" "fr_userId (emptyRow i m t u d n) = u" "fr_folderId (emptyRow i m t u d n) = orNull (Some d)"
  "fr_filename (emptyRow i m t u d n) = n" "fr_deletedAt (emptyRow i m t u d n) = None"
  by (simp_all add: putRow_def emptyRow_def newFileRow_def)

lemma prepare_new:
  assumes "\<not> endsWithSlash key" and "resolveKey u bucket key True freshId now b = (Inr (fid, name), b0)"
    and "pathParts key \<noteq> []" and "0 < contentLength"
    and "row = putRow newId ek mime now u fid (last (pathParts key)) contentLength"
  shows "prepareS3Put newId ek mime freshId now u bucket key contentLength b =
    (if activeUnique (bk_files b0 @ [row])
     then (Inr \<lparr>pt_fileId = newId, pt_folderId = fid, pt_encryptedKey = ek, pt_isEncrypted = True, pt_isEmptyObject = False\<rparr>,
       setFiles (\<lambda>fs. fs @ [row]) b0)
     else (Inl keyConflict, b0))"
  using assms by (simp add: prepareS3Put_def lastSegment_part bindOp_def catchOp_def thenOp_def createFile_apply putRow_def assertNoKeyConflict_def Let_def
      throwOp_def returnOp_def)

lemma prepare_empty_blocked:
  assumes "\<not> endsWithSlash key" and "resolveKey u bucket key True freshId now b = (Inr (fid, name), b0)"
    and "pathParts key \<noteq> []" and "contentLength \<le> 0" and "\<not> activeUnique (bk_files b0 @ [emptyRow newId mime now u fid (last (pathParts key))])"
  shows "prepareS3Put newId ek mime freshId now u bucket key contentLength b = (Inl keyConflict, b0)"
  using assms by (simp add: prepareS3Put_def lastSegment_part bindOp_def catchOp_def thenOp_def createFile_apply emptyRow_def assertNoKeyConflict_def Let_def
      throwOp_def returnOp_def transactionOp_def)

text \<open>What resolves without creation resolves in the same way with it.\<close>

lemma enterAll_found:
  "foldOp (enterFolder u False g t) parts cur b = (Inr fid, b') \<Longrightarrow> foldOp (enterFolder u c g' t') parts cur b = (Inr fid, b)"
proof (induction parts arbitrary: cur)
  case (Cons part parts)
  then show ?case
    by (cases "liveChild u (Some cur) (snd part) b") (simp_all add: op_simps bindOp_def enterFolder_def getsOp_def throwOp_def)
qed (simp add: op_simps)

lemma underFolder_found:
  "resolveKeyUnderFolder u rt key False g t b = (Inr (fid, name), b') \<Longrightarrow>
   pathParts key \<noteq> [] \<and> name = last (pathParts key) \<and> resolveKeyUnderFolder u rt key c g' t' b = (Inr (fid, name), b)"
  using enterAll_found [of u g t "List.enumerate 1 (butlast (pathParts key))" rt b fid b' c g' t']
  by (auto simp: resolveKeyUnderFolder_def Let_def op_simps bindOp_def returnOp_def split: prod.splits sum.splits if_splits)

lemma resolve_found:
  assumes "resolveKey u bucket key False g t b = (Inr (fid, name), b')"
  shows "pathParts key \<noteq> [] \<and> name = last (pathParts key) \<and> resolveKey u bucket key c g' t' b = (Inr (fid, name), b)"
proof (cases "liveChild u None bucket b")
  case (Some bk)
  with assms have "resolveKeyUnderFolder u (fld_id bk) key False g t b = (Inr (fid, name), b')"
    by (simp add: resolveKey_def op_simps)
  from underFolder_found [OF this, of c g' t'] Some show ?thesis by (simp add: resolveKey_def op_simps)
qed (use assms in \<open>simp add: resolveKey_def op_simps\<close>)


definition objectDemo :: backend where
  "objectDemo = emptyBackend\<lparr>bk_users := [newUserRow ''u'' ''alice'' ''x'' 0], bk_folders := [newFolderRow ''b'' ''docs'' None ''u'' 0],
     bk_files := [(newFileRow ''f1'' ''a.txt'' 5 (Some ''b'') ''u'' 0)\<lparr>fr_telegramMessageId := Some 7\<rparr>]\<rparr>"


lemma orNull_id: "x \<noteq> [] \<Longrightarrow> orNull (Some x) = Some x"
  by (simp add: orNull_def present_def)

text \<open>The fields a landed put has.\<close>

definition landedPut :: "file_result \<Rightarrow> file_row \<Rightarrow> file_row" where
  "landedPut d r = (landedFile d r)\<lparr>fr_size := fz_size d, fr_isChunked := fz_isChunked d, fr_totalChunks := fz_totalChunks d\<rparr>"

lemma landedPut_fields [simp]:
  "fr_id (landedPut d r) = fr_id r" "fr_userId (landedPut d r) = fr_userId r" "fr_folderId (landedPut d r) = fr_folderId r"
  "fr_filename (landedPut d r) = fr_filename r" "fr_deletedAt (landedPut d r) = fr_deletedAt r" "fr_status (landedPut d r) = Complete"
  "fr_size (landedPut d r) = fz_size d"
  by (simp_all add: landedPut_def landedFile_def)

lemma report_first_put:
  assumes "activeUnique (bk_files b0 @ [row])" and "\<And>g. g \<in> set (bk_files b0) \<Longrightarrow> \<not> blocks row g \<and> fr_id g \<noteq> fr_id row"
    and "fr_status row \<noteq> Complete" and "findUser (fr_userId row) b0 = Some usr" and "fz_fileId d = fr_id row"
  shows "reportS3PutComplete d now (setFiles (\<lambda>fs. fs @ [row]) b0) = (Inr (),
    setUsers (updateWhere (\<lambda>u. usr_id u = fr_userId row) (\<lambda>u. u\<lparr>usr_usedSpace := usr_usedSpace u + fz_size d\<rparr>))
      (setFiles (\<lambda>fs. fs @ [landedPut d row]) b0))"
proof -
  let ?b1 = "setFiles (\<lambda>fs. fs @ [row]) b0"
  have none: "find (\<lambda>f. fr_id f = fr_id row) (bk_files b0) = None" using assms(2) by (auto simp: find_None_iff)
  then have found: "findFile (fz_fileId d) ?b1 = Some row" using assms(5) by (simp add: findFile_def find_append)
  have upd: "updateWhere (\<lambda>r. fr_id r = fr_id row) (landedPut d) (bk_files b0 @ [row]) = bk_files b0 @ [landedPut d row]"
    using assms(2) updateWhere_none [of "bk_files b0" "\<lambda>r. fr_id r = fr_id row"] by (simp add: updateWhere_def)
  have keys: "activeUnique (bk_files b0 @ [landedPut d row])"
    using assms(1) by (auto simp: activeUnique_def activeKeys_snoc split: if_splits)
  have stale: "staleVersions row (setFiles (\<lambda>fs. fs @ [landedPut d row]) b0) = []"
    using assms(2) by (auto simp: staleVersions_def blocks_def filter_empty_conv)
  have set: "setFiles (updateWhere (\<lambda>x. fr_id x = fr_id row) (landedPut d)) ?b1 = setFiles (\<lambda>fs. fs @ [landedPut d row]) b0"
    using upd by (simp add: setFiles_def)
  show ?thesis
    unfolding reportS3PutComplete_def landedPut_def [symmetric]
    using found assms(3-5) keys stale
    by (simp add: op_simps transactionOp_def thenOp_def bindOp_def getsOp_def returnOp_def updateFile_apply writeFiles_apply upd set
        trashVersions_def releaseClamped_def whenOp_def charge_apply)
qed

text \<open>
  C17. What was put is what is read: when a put of a key has been accepted and the transfer server reports the stored
  object, the key resolves to exactly that file, complete and with the reported size and hash, the user is charged that
  size once, and no other file has changed.
\<close>
theorem put_then_get:
  assumes "\<not> endsWithSlash key" and "pathParts key \<noteq> []" and "0 < contentLength" and "newId \<notin> fr_id ` set (bk_files b)"
    and "findUser u b = Some usr" and "prepareS3Put newId ek mime freshId now u bucket key contentLength b = (Inr t, b1)"
    and "pt_folderId t \<noteq> []" and "fz_fileId d = newId" and "fz_etag d \<noteq> []"
  shows "\<exists>b2 f. reportS3PutComplete d now' b1 = (Inr (), b2) \<and>
    resolveS3Object u bucket key b2 = (Inr (Some \<lparr>oi_fileId = newId, oi_mimeType = mime, oi_size = fz_size d, oi_etag = fz_etag d,
      oi_lastModified = now\<rparr>), b2) \<and>
    bk_files b2 = bk_files b @ [f] \<and> findUser u b2 = Some (usr\<lparr>usr_usedSpace := usr_usedSpace usr + fz_size d\<rparr>)"
proof -
  let ?n = "last (pathParts key)"
  from resolve_settles [OF assms(2), of u bucket freshId now b] obtain fid b0 where
    run: "resolveKey u bucket key True freshId now b = (Inr (fid, ?n), b0)" and ext: "extends u b b0"
    and stays: "settled (fid, ?n) (resolveKey u bucket key) b0" by blast
  define row where "row = putRow newId ek mime now u fid ?n contentLength"
  have files: "bk_files b0 = bk_files b" and users: "bk_users b0 = bk_users b" using ext by (auto simp: extends_def)
  from prepare_new [OF assms(1) run assms(2,3) row_def] assms(6) have uniq: "activeUnique (bk_files b0 @ [row])"
    and b1: "b1 = setFiles (\<lambda>fs. fs @ [row]) b0" and "pt_folderId t = fid" by (auto split: if_splits)
  with assms(7) have fid: "fr_folderId row = Some fid" by (simp add: row_def orNull_id)
  have others: "\<not> blocks row g \<and> fr_id g \<noteq> fr_id row" if "g \<in> set (bk_files b0)" for g
    using active_snoc [OF uniq _ _ that] fid that assms(4) files by (auto simp: row_def)
  let ?b2 = "setUsers (updateWhere (\<lambda>u. usr_id u = fr_userId row) (\<lambda>u. u\<lparr>usr_usedSpace := usr_usedSpace u + fz_size d\<rparr>))
      (setFiles (\<lambda>fs. fs @ [landedPut d row]) b0)"
  have report: "reportS3PutComplete d now' b1 = (Inr (), ?b2)"
    unfolding b1 using assms(5,8) users by (intro report_first_put [OF uniq others]) (auto simp: row_def findUser_def)
  have grown: "grown b0 ?b2" by (intro grown_same) simp
  have "objectRow u fid ?n ?b2 = Some (landedPut d row)"
  proof -
    have "find (\<lambda>f. fr_folderId f = Some fid \<and> fr_filename f = ?n \<and> fr_userId f = u \<and> fr_deletedAt f = None \<and> fr_status f = Complete)
        (bk_files b0) = None"
      using others fid by (auto simp: find_None_iff blocks_def row_def)
    then show ?thesis using fid by (simp add: objectRow_def find_append row_def)
  qed
  then have "resolveS3Object u bucket key ?b2 = (Inr (Some (objectInfo (landedPut d row))), ?b2)"
    using settledD [OF stays grown] by (simp add: resolveS3Object_def findObject_def catchOp_def bindOp_def getsOp_def returnOp_def)
  moreover have "objectInfo (landedPut d row) =
      \<lparr>oi_fileId = newId, oi_mimeType = mime, oi_size = fz_size d, oi_etag = fz_etag d, oi_lastModified = now\<rparr>"
    using assms(9) by (simp add: objectInfo_def etagOf_def landedPut_def landedFile_def row_def putRow_def newFileRow_def present_def)
  moreover have "findUser u ?b2 = Some (usr\<lparr>usr_usedSpace := usr_usedSpace usr + fz_size d\<rparr>)"
    using assms(5) users by (simp add: row_def findUser_def find_updateWhere_same [where k = usr_id])
  ultimately show ?thesis using report files by simp
qed

definition freshDemo :: "nat \<Rightarrow> string" where
  "freshDemo i = ''d'' @ showNat i"

definition putResult :: file_result where
  "putResult = \<lparr>fz_fileId = ''f2'', fz_telegramFileId = ''tg'', fz_telegramMessageId = 8, fz_botId = 1, fz_encryptionIv = ''iv'', fz_size = 3,
     fz_etag = ''e'', fz_isChunked = False, fz_totalChunks = 1\<rparr>"

theorem put_then_get_witness:
  "\<exists>t b1 b2. prepareS3Put ''f2'' ''ek'' ''text/plain'' freshDemo 9 ''u'' ''docs'' ''x/b.txt'' 3 objectDemo = (Inr t, b1) \<and>
     reportS3PutComplete putResult 10 b1 = (Inr (), b2) \<and>
     resolveS3Object ''u'' ''docs'' ''x/b.txt'' b2 = (Inr (Some \<lparr>oi_fileId = ''f2'', oi_mimeType = ''text/plain'', oi_size = 3, oi_etag = ''e'',
       oi_lastModified = 9\<rparr>), b2)"
proof -
  let ?put = "prepareS3Put ''f2'' ''ek'' ''text/plain'' freshDemo 9 ''u'' ''docs'' ''x/b.txt'' 3 objectDemo"
  have key: "\<not> endsWithSlash ''x/b.txt''" "pathParts ''x/b.txt'' \<noteq> []" by code_simp+
  have "fst ?put = Inr \<lparr>pt_fileId = ''f2'', pt_folderId = freshDemo 1, pt_encryptedKey = ''ek'', pt_isEncrypted = True, pt_isEmptyObject = False\<rparr>"
    by code_simp
  then obtain b1 where put: "?put =
      (Inr \<lparr>pt_fileId = ''f2'', pt_folderId = freshDemo 1, pt_encryptedKey = ''ek'', pt_isEncrypted = True, pt_isEmptyObject = False\<rparr>, b1)"
    by (metis prod.collapse)
  have demo: "''f2'' \<notin> fr_id ` set (bk_files objectDemo)" "findUser ''u'' objectDemo = Some (newUserRow ''u'' ''alice'' ''x'' 0)"
    by (simp_all add: objectDemo_def newFileRow_def findUser_def newUserRow_def)
  have "freshDemo 1 \<noteq> []" "fz_fileId putResult = ''f2''" "fz_size putResult = 3" "fz_etag putResult = ''e''"
    by (simp_all add: freshDemo_def putResult_def)
  with put_then_get [OF key _ demo put, of putResult 10] put show ?thesis by auto
qed


text \<open>A copy points at the message of its source, which deleting the source purges.\<close>

lemma copy_shares_message:
  assumes "copyObject ''f2'' freshDemo 9 ''u'' ''docs'' ''c.txt'' ''docs/a.txt'' objectDemo = (Inr e, b1)"
    and "handleDelete ''u'' ''docs'' ''a.txt'' 10 b1 = (Inr (), b2)"
  shows "map (\<lambda>f. (fr_id f, fr_telegramMessageId f)) (bk_files b2) = [(''f2'', Some 7)] \<and> bk_outbox b2 = [TelegramPurge [(7, 0)]]"
proof -
  have "bk_files (snd (handleDelete ''u'' ''docs'' ''a.txt'' 10 (snd (copyObject ''f2'' freshDemo 9 ''u'' ''docs'' ''c.txt'' ''docs/a.txt'' objectDemo)))) =
      [(newFileRow ''f2'' ''c.txt'' 5 (Some ''b'') ''u'' 9)\<lparr>fr_telegramMessageId := Some 7, fr_etag := Some (CHR 0x22 # ''f1'' @ [CHR 0x22])\<rparr>]"
    by code_simp
  moreover have "bk_outbox (snd (handleDelete ''u'' ''docs'' ''a.txt'' 10 (snd (copyObject ''f2'' freshDemo 9 ''u'' ''docs'' ''c.txt'' ''docs/a.txt'' objectDemo)))) =
      [TelegramPurge [(7, 0)]]"
    by code_simp
  ultimately show ?thesis using assms by (simp add: newFileRow_def)
qed

end
