(* ===== verification/Json.thy ===== *)
theory Json
  imports Utf8
begin

section \<open>JSON\<close>

text \<open>
  \<^verbatim>\<open>JSON.stringify\<close> and \<^verbatim>\<open>JSON.parse\<close> of the JavaScript library, with the conversions of a parsed value that the code
  relies on: truthiness, \<^verbatim>\<open>String(v)\<close> and \<^verbatim>\<open>Number(v)\<close>. Numbers keep their exact value. \<open>dtoa\<close> is the shortest decimal of
  a number that is not an integer below \<open>10 ^ 21\<close>. A lone surrogate becomes U+FFFD, as in the UTF-8 of the string.
\<close>

datatype json = JNull | JBool bool | JNum js_num | JStr string | JArr "json list" | JObj "(string \<times> json) list"

subsection \<open>Writing\<close>

definition jsonEscape :: "char \<Rightarrow> string" where
  "jsonEscape c = (let n = byte c in
     if c = CHR 0x22 then [CHR 0x5C, CHR 0x22] else if c = CHR 0x5C then [CHR 0x5C, CHR 0x5C]
     else if n = 8 then [CHR 0x5C, CHR ''b''] else if n = 9 then [CHR 0x5C, CHR ''t''] else if n = 10 then [CHR 0x5C, CHR ''n'']
     else if n = 12 then [CHR 0x5C, CHR ''f''] else if n = 13 then [CHR 0x5C, CHR ''r'']
     else if n < 32 then [CHR 0x5C, CHR ''u'', CHR ''0'', CHR ''0'', natDigit (n div 16),
       (if n mod 16 < 10 then natDigit (n mod 16) else char_of (87 + n mod 16))]
     else [c])"

definition jsonQuote :: "string \<Rightarrow> string" where
  "jsonQuote s = CHR 0x22 # concat (map jsonEscape s) @ [CHR 0x22]"

definition numText :: "(rat \<Rightarrow> string) \<Rightarrow> js_num \<Rightarrow> string" where
  "numText dtoa x = (case x of JsNaN \<Rightarrow> ''NaN'' | JsInf \<Rightarrow> ''Infinity'' | JsNegInf \<Rightarrow> ''-Infinity''
     | JsFin q \<Rightarrow> if of_int \<lfloor>q\<rfloor> = q \<and> \<bar>q\<bar> < 10 ^ 21 then showInt \<lfloor>q\<rfloor> else dtoa q)"

fun jsonText :: "(rat \<Rightarrow> string) \<Rightarrow> json \<Rightarrow> string" where
  "jsonText dtoa JNull = ''null''"
| "jsonText dtoa (JBool b) = (if b then ''true'' else ''false'')"
| "jsonText dtoa (JNum x) = (case x of JsFin _ \<Rightarrow> numText dtoa x | _ \<Rightarrow> ''null'')"
| "jsonText dtoa (JStr s) = jsonQuote s"
| "jsonText dtoa (JArr vs) = ''['' @ jsJoin '','' (map (jsonText dtoa) vs) @ '']''"
| "jsonText dtoa (JObj ms) = ''{'' @ jsJoin '','' (map (\<lambda>(k, v). jsonQuote k @ '':'' @ jsonText dtoa v) ms) @ ''}''"

subsection \<open>Reading\<close>

definition jsonWhite :: "char \<Rightarrow> bool" where
  "jsonWhite c \<longleftrightarrow> byte c \<in> {9, 10, 13, 32}"

text \<open>The UTF-8 of a code point; surrogates are replaced.\<close>

definition utf8Char :: "nat \<Rightarrow> string" where
  "utf8Char n = (if 55296 \<le> n \<and> n \<le> 57343 then replacement else map char_of
     (if n < 128 then [n] else if n < 2048 then [192 + n div 64, 128 + n mod 64]
      else if n < 65536 then [224 + n div 4096, 128 + n div 64 mod 64, 128 + n mod 64]
      else [240 + n div 262144, 128 + n div 4096 mod 64, 128 + n div 64 mod 64, 128 + n mod 64]))"

definition hex4 :: "string \<Rightarrow> (nat \<times> string) option" where
  "hex4 s = (if length s < 4 \<or> \<not> list_all (baseDigit 16) (take 4 s) then None else Some (baseVal 16 (take 4 s), drop 4 s))"

text \<open>A \<^verbatim>\<open>u\<close> escape after its \<^verbatim>\<open>u\<close>, with the second half of a surrogate pair.\<close>

definition unicodeEscape :: "string \<Rightarrow> (string \<times> string) option" where
  "unicodeEscape s = (case hex4 s of None \<Rightarrow> None
     | Some (hi, r) \<Rightarrow>
        if 55296 \<le> hi \<and> hi \<le> 56319 \<and> take 2 r = [CHR 0x5C, CHR ''u''] then
          (case hex4 (drop 2 r) of Some (lo, r') \<Rightarrow>
               if 56320 \<le> lo \<and> lo \<le> 57343 then Some (utf8Char (65536 + (hi - 55296) * 1024 + (lo - 56320)), r')
               else Some (utf8Char hi, r)
           | None \<Rightarrow> Some (utf8Char hi, r))
        else Some (utf8Char hi, r))"

definition simpleEscape :: "char \<Rightarrow> string option" where
  "simpleEscape e = (if e = CHR 0x22 \<or> e = CHR 0x5C \<or> e = CHR ''/'' then Some [e]
     else map_option (\<lambda>n. [char_of n]) (map_of [(CHR ''b'', 8 :: nat), (CHR ''f'', 12), (CHR ''n'', 10), (CHR ''r'', 13), (CHR ''t'', 9)] e))"

text \<open>One element of a string literal: a character or an escape, and what follows.\<close>

definition jsonChar :: "string \<Rightarrow> (string \<times> string) option" where
  "jsonChar s = (case s of [] \<Rightarrow> None
     | c # r \<Rightarrow> if byte c < 32 then None
         else if c \<noteq> CHR 0x5C then Some ([c], r)
         else (case r of [] \<Rightarrow> None
           | e # r' \<Rightarrow> if e = CHR ''u'' then unicodeEscape r' else map_option (\<lambda>x. (x, r')) (simpleEscape e)))"

lemma hex4_shorter: "hex4 s = Some (n, r) \<Longrightarrow> length r < length s"
  by (auto simp: hex4_def split: if_splits)

lemma jsonChar_shorter: "jsonChar s = Some (x, r) \<Longrightarrow> length r < length s"
  by (auto simp: jsonChar_def unicodeEscape_def split: list.splits if_splits option.splits dest!: hex4_shorter)

text \<open>The rest of a string literal after its first quote.\<close>

function jsonChars :: "string \<Rightarrow> (string \<times> string) option" where
  "jsonChars s = (if s = [] then None else if hd s = CHR 0x22 then Some ([], tl s) else
     (case jsonChar s of None \<Rightarrow> None | Some (x, r) \<Rightarrow> map_option (\<lambda>(y, r'). (x @ y, r')) (jsonChars r)))"
  by auto
termination
  by (relation "measure length") (auto dest: jsonChar_shorter)

declare jsonChars.simps [simp del]

text \<open>A number: its sign, digits without leading zeros, a fraction and an exponent.\<close>

definition fractionPart :: "string \<Rightarrow> (string \<times> string) option" where
  "fractionPart s = (case s of c # r \<Rightarrow> if c = CHR ''.'' then
        (if takeWhile jsDigit r = [] then None else Some (c # takeWhile jsDigit r, dropWhile jsDigit r)) else Some ([], s)
   | [] \<Rightarrow> Some ([], s))"

definition exponentPart :: "string \<Rightarrow> (string \<times> string) option" where
  "exponentPart s = (case s of c # r \<Rightarrow> if c = CHR ''e'' \<or> c = CHR ''E'' then
        (let sg = (if r \<noteq> [] \<and> (hd r = CHR ''+'' \<or> hd r = CHR ''-'') then [hd r] else []); ds = drop (length sg) r in
         if takeWhile jsDigit ds = [] then None else Some (c # sg @ takeWhile jsDigit ds, dropWhile jsDigit ds)) else Some ([], s)
   | [] \<Rightarrow> Some ([], s))"

definition jsonNumber :: "string \<Rightarrow> (json \<times> string) option" where
  "jsonNumber s = (let neg = (s \<noteq> [] \<and> hd s = CHR ''-''); t = (if neg then tl s else s); ds = takeWhile jsDigit t;
       whole = (if ds \<noteq> [] \<and> hd ds = CHR ''0'' then ''0'' else ds) in
     if ds = [] then None else
     (case fractionPart (drop (length whole) t) of None \<Rightarrow> None | Some (fr, r) \<Rightarrow>
     (case exponentPart r of None \<Rightarrow> None | Some (ex, r') \<Rightarrow>
        (case parseUnsigned (whole @ fr @ ex) of
           JsFin q \<Rightarrow> Some (JNum (if q \<ge> 2 ^ 1024 - 2 ^ 970 then (if neg then JsNegInf else JsInf) else JsFin (if neg then - q else q)), r')
         | _ \<Rightarrow> None))))"

definition jsonWord :: "string \<Rightarrow> json \<Rightarrow> string \<Rightarrow> (json \<times> string) option" where
  "jsonWord w v s = (if jsStartsWith w s then Some (v, drop (length w) s) else None)"

abbreviation skipWhite :: "string \<Rightarrow> string" where
  "skipWhite \<equiv> dropWhile jsonWhite"

text \<open>
  A value at the front of a text. Two calls in a row consume a character, so twice the length of the text is enough fuel.
\<close>

fun jsonValue :: "nat \<Rightarrow> string \<Rightarrow> (json \<times> string) option"
and jsonElems :: "nat \<Rightarrow> string \<Rightarrow> (json list \<times> string) option"
and jsonMembers :: "nat \<Rightarrow> string \<Rightarrow> ((string \<times> json) list \<times> string) option" where
  "jsonValue 0 s = None"
| "jsonValue (Suc n) s = (case skipWhite s of [] \<Rightarrow> None
     | c # r \<Rightarrow>
        if c = CHR 0x22 then map_option (\<lambda>(t, r'). (JStr t, r')) (jsonChars r)
        else if c = CHR ''['' then
          (if skipWhite r \<noteq> [] \<and> hd (skipWhite r) = CHR '']'' then Some (JArr [], tl (skipWhite r))
           else map_option (\<lambda>(vs, r'). (JArr vs, r')) (jsonElems n r))
        else if c = CHR ''{'' then
          (if skipWhite r \<noteq> [] \<and> hd (skipWhite r) = CHR ''}'' then Some (JObj [], tl (skipWhite r))
           else map_option (\<lambda>(ms, r'). (JObj ms, r')) (jsonMembers n r))
        else if c = CHR ''t'' then jsonWord ''true'' (JBool True) (c # r)
        else if c = CHR ''f'' then jsonWord ''false'' (JBool False) (c # r)
        else if c = CHR ''n'' then jsonWord ''null'' JNull (c # r)
        else jsonNumber (c # r))"
| "jsonElems 0 s = None"
| "jsonElems (Suc n) s = (case jsonValue n s of None \<Rightarrow> None
     | Some (v, r) \<Rightarrow> (case skipWhite r of [] \<Rightarrow> None
        | c # r' \<Rightarrow> if c = CHR '']'' then Some ([v], r')
            else if c = CHR '','' then map_option (\<lambda>(vs, r''). (v # vs, r'')) (jsonElems n r') else None))"
| "jsonMembers 0 s = None"
| "jsonMembers (Suc n) s = (case skipWhite s of [] \<Rightarrow> None
     | q # r \<Rightarrow> if q \<noteq> CHR 0x22 then None else
        (case jsonChars r of None \<Rightarrow> None
         | Some (k, r1) \<Rightarrow> (case skipWhite r1 of [] \<Rightarrow> None
            | c # r2 \<Rightarrow> if c \<noteq> CHR '':'' then None else
               (case jsonValue n r2 of None \<Rightarrow> None
                | Some (v, r3) \<Rightarrow> (case skipWhite r3 of [] \<Rightarrow> None
                   | d # r4 \<Rightarrow> if d = CHR ''}'' then Some ([(k, v)], r4)
                       else if d = CHR '','' then map_option (\<lambda>(ms, r5). ((k, v) # ms, r5)) (jsonMembers n r4) else None)))))"

definition jsonParse :: "string \<Rightarrow> json option" where
  "jsonParse s = (case jsonValue (2 * length s + 2) s of None \<Rightarrow> None | Some (v, r) \<Rightarrow> if skipWhite r = [] then Some v else None)"

subsection \<open>Using a value\<close>

text \<open>A property of a value, \<open>None\<close> for \<^verbatim>\<open>undefined\<close>; of several members with a name the last counts.\<close>

definition jsonField :: "string \<Rightarrow> json \<Rightarrow> json option" where
  "jsonField k v = (case v of JObj ms \<Rightarrow> map_of (rev ms) k | _ \<Rightarrow> None)"

fun jsonTruthy :: "json \<Rightarrow> bool" where
  "jsonTruthy JNull = False"
| "jsonTruthy (JBool b) = b"
| "jsonTruthy (JNum x) = (x \<noteq> JsFin 0 \<and> x \<noteq> JsNaN)"
| "jsonTruthy (JStr s) = (s \<noteq> [])"
| "jsonTruthy _ = True"

definition truthyField :: "string \<Rightarrow> json \<Rightarrow> bool" where
  "truthyField k v = (case jsonField k v of None \<Rightarrow> False | Some x \<Rightarrow> jsonTruthy x)"

fun jsonString :: "(rat \<Rightarrow> string) \<Rightarrow> json \<Rightarrow> string" where
  "jsonString dtoa JNull = ''null''"
| "jsonString dtoa (JBool b) = (if b then ''true'' else ''false'')"
| "jsonString dtoa (JNum x) = numText dtoa x"
| "jsonString dtoa (JStr s) = s"
| "jsonString dtoa (JArr vs) = jsJoin '','' (map (\<lambda>v. if v = JNull then [] else jsonString dtoa v) vs)"
| "jsonString dtoa (JObj ms) = ''[object Object]''"

definition jsonToNumber :: "(rat \<Rightarrow> string) \<Rightarrow> json \<Rightarrow> js_num" where
  "jsonToNumber dtoa v = (case v of JNull \<Rightarrow> JsFin 0 | JBool b \<Rightarrow> JsFin (if b then 1 else 0) | JNum x \<Rightarrow> x | JStr s \<Rightarrow> jsNumber s
     | JArr _ \<Rightarrow> jsNumber (jsonString dtoa v) | JObj _ \<Rightarrow> JsNaN)"


subsection \<open>What is written is read back\<close>

lemma jsonChars_quote [simp]: "jsonChars (CHR 0x22 # r) = Some ([], r)"
  by (subst jsonChars.simps) simp

lemma jsonChars_step:
  "jsonChar s = Some (x, r) \<Longrightarrow> hd s \<noteq> CHR 0x22 \<Longrightarrow> jsonChars s = map_option (\<lambda>(y, r'). (x @ y, r')) (jsonChars r)"
  by (subst jsonChars.simps) (auto simp: jsonChar_def split: list.splits)

lemma hexVal_digits: "n < 10 \<Longrightarrow> baseDigit 16 (natDigit n) \<and> digitVal (natDigit n) = n"
  by (auto simp: baseDigit_def natDigit_of_char Let_def)

lemma hexVal_letters: "10 \<le> n \<Longrightarrow> n < 16 \<Longrightarrow> baseDigit 16 (char_of (87 + n)) \<and> digitVal (char_of (87 + n)) = n"
  by (simp add: baseDigit_def digitVal_def Let_def of_char_of take_bit_nat_eq_self)

lemma jsonChar_escape: "jsonChar (jsonEscape c @ t) = Some ([c], t) \<and> hd (jsonEscape c @ t) \<noteq> CHR 0x22"
proof -
  have c: "char_of (byte c) = c" by simp
  consider "c = CHR 0x22 \<or> c = CHR 0x5C" | "byte c \<in> {8, 9, 10, 12, 13}" | "c \<noteq> CHR 0x22" "c \<noteq> CHR 0x5C" "32 \<le> byte c"
    | "byte c < 32" "byte c \<notin> {8, 9, 10, 12, 13}" by fastforce
  then show ?thesis
  proof cases
    case 1
    then show ?thesis by (auto simp: jsonEscape_def jsonChar_def simpleEscape_def Let_def)
  next
    case 2
    then have "c \<in> {char_of (8 :: nat), char_of (9 :: nat), char_of (10 :: nat), char_of (12 :: nat), char_of (13 :: nat)}"
      using c by (elim insertE emptyE; metis insertI1 insertI2)
    moreover have "char_of (8 :: nat) = CHR 0x08" "char_of (9 :: nat) = CHR 0x09" "char_of (10 :: nat) = CHR 0x0A"
      "char_of (12 :: nat) = CHR 0x0C" "char_of (13 :: nat) = CHR 0x0D" by code_simp+
    ultimately have "c = CHR 0x08 \<or> c = CHR 0x09 \<or> c = CHR 0x0A \<or> c = CHR 0x0C \<or> c = CHR 0x0D" by simp
    then show ?thesis by (elim disjE; simp only:; intro conjI; code_simp)
  next
    case 3
    then show ?thesis by (auto simp: jsonEscape_def jsonChar_def Let_def)
  next
    case 4
    let ?n = "byte c"
    define d where "d = (if ?n mod 16 < 10 then natDigit (?n mod 16) else char_of (87 + ?n mod 16))"
    have esc: "jsonEscape c = [CHR 0x5C, CHR ''u'', CHR ''0'', CHR ''0'', natDigit (?n div 16), d]"
      using 4 by (auto simp: jsonEscape_def d_def Let_def)
    have "baseDigit 16 d \<and> digitVal d = ?n mod 16"
      using hexVal_digits [of "?n mod 16"] hexVal_letters [of "?n mod 16"] by (simp add: d_def)
    moreover have "?n div 16 < 10" using 4(1) by simp
    then have "baseDigit 16 (natDigit (?n div 16)) \<and> digitVal (natDigit (?n div 16)) = ?n div 16" by (rule hexVal_digits)
    moreover have "baseDigit 16 (CHR ''0'') \<and> digitVal (CHR ''0'') = 0" by code_simp
    ultimately have "hex4 ([CHR ''0'', CHR ''0'', natDigit (?n div 16), d] @ t) = Some (?n, t)"
      by (simp add: hex4_def baseVal_def)
    then have "unicodeEscape ([CHR ''0'', CHR ''0'', natDigit (?n div 16), d] @ t) = Some ([c], t)"
      using 4(1) by (simp add: unicodeEscape_def utf8Char_def)
    then show ?thesis by (simp add: esc jsonChar_def)
  qed
qed

lemma jsonChars_written: "jsonChars (concat (map jsonEscape s) @ CHR 0x22 # r) = Some (s, r)"
proof (induction s)
  case (Cons c s)
  with jsonChars_step [of "jsonEscape c @ concat (map jsonEscape s) @ CHR 0x22 # r" "[c]"]
  show ?case using jsonChar_escape [of c] by simp
qed simp

lemma value_string: "jsonValue (Suc n) (jsonQuote s @ r) = Some (JStr s, r)"
  by (simp add: jsonQuote_def jsonWhite_def jsonChars_written)

text \<open>What may follow a number.\<close>

definition closes :: "string \<Rightarrow> bool" where
  "closes r \<longleftrightarrow> (case r of [] \<Rightarrow> True | c # _ \<Rightarrow> \<not> jsDigit c \<and> c \<notin> {CHR ''.'', CHR ''e'', CHR ''E''})"

lemma parts_closed: "closes r \<Longrightarrow> fractionPart r = Some ([], r) \<and> exponentPart r = Some ([], r)"
  by (auto simp: closes_def fractionPart_def exponentPart_def split: list.splits)

lemma number_written: "closes r \<Longrightarrow> n < 2 ^ 1024 - 2 ^ 970 \<Longrightarrow> jsonNumber (showNat n @ r) = Some (JNum (JsFin (of_nat n)), r)"
proof -
  assume r: "closes r" and n: "n < 2 ^ 1024 - 2 ^ 970"
  obtain c q where s: "showNat n = c # q" "jsDigit c" by (rule showNat_Cons)
  have ds: "takeWhile jsDigit (showNat n @ r) = showNat n"
    using r showNat_digits by (subst takeWhile_append2) (auto simp: closes_def split: list.splits)
  have whole: "(if showNat n \<noteq> [] \<and> hd (showNat n) = CHR ''0'' then ''0'' else showNat n) = showNat n"
  proof (cases "n = 0")
    case True
    then show ?thesis by (simp add: showNat.simps natDigit_def) 
  next
    case False
    with showNat_hd [of n] show ?thesis by simp
  qed
  have "c \<noteq> CHR ''-''" using s(2) by (auto simp: jsDigit_def)
  then have neg: "\<not> (showNat n @ r \<noteq> [] \<and> hd (showNat n @ r) = CHR ''-'')" using s by simp
  have "(of_nat n :: rat) < of_nat (2 ^ 1024 - 2 ^ 970)" using n by (simp only: of_nat_less_iff)
  then have "\<not> (of_nat n :: rat) \<ge> 2 ^ 1024 - 2 ^ 970" by (simp add: of_nat_diff)
  then show ?thesis
    using parts_closed [OF r]
    unfolding jsonNumber_def Let_def if_not_P [OF neg] ds whole
    using neg by (simp add: parseUnsigned_showNat)
qed

lemma value_number:
  assumes "closes r" and "n < 2 ^ 1024 - 2 ^ 970"
  shows "jsonValue (Suc k) (showNat n @ r) = Some (JNum (JsFin (of_nat n)), r)"
proof -
  obtain c q where s: "showNat n = c # q" "jsDigit c" by (rule showNat_Cons)
  then have "48 \<le> byte c" "byte c \<le> 57" by (simp_all add: jsDigit_def)
  then have "\<not> jsonWhite c" "c \<noteq> CHR 0x22" "c \<noteq> CHR ''[''" "c \<noteq> CHR ''{''" "c \<noteq> CHR ''t''" "c \<noteq> CHR ''f''" "c \<noteq> CHR ''n''"
    by (auto simp: jsonWhite_def)
  with number_written [OF assms] s show ?thesis by simp
qed

text \<open>Objects whose members are strings and natural numbers.\<close>

fun flatValue :: "json \<Rightarrow> bool" where
  "flatValue (JStr s) = True"
| "flatValue (JNum x) = (\<exists>n :: nat < 10 ^ 21. x = JsFin (of_nat n))"
| "flatValue _ = False"

lemma nat_bound: "(n :: nat) < 10 ^ 21 \<Longrightarrow> n < 2 ^ 1024 - 2 ^ 970"
proof -
  assume "n < 10 ^ 21"
  also have "(10 :: nat) ^ 21 \<le> 2 ^ 1023" using power_mono [of "10 :: nat" "2 ^ 4" 21] power_increasing [of 84 1023 "2 :: nat"] by simp
  also have "(2 :: nat) ^ 1023 \<le> 2 ^ 1024 - 2 ^ 970"
  proof -
    have "(2 :: nat) ^ 1024 = 2 ^ 1023 + 2 ^ 1023" by (simp only: power_Suc [of 2 1023, simplified, symmetric] mult_2 [symmetric])
    moreover have "(2 :: nat) ^ 970 \<le> 2 ^ 1023" by (rule power_increasing) simp_all
    ultimately show ?thesis by linarith
  qed
  finally show ?thesis .
qed

lemma value_flat: "flatValue v \<Longrightarrow> closes r \<Longrightarrow> jsonValue (Suc k) (jsonText dtoa v @ r) = Some (v, r)"
proof (cases v)
  case (JNum x)
  assume "flatValue v" "closes r"
  with JNum obtain n :: nat where n: "n < 10 ^ 21" "x = JsFin (of_nat n)" by auto
  then have "(of_nat n :: rat) < of_nat (10 ^ 21)" by (simp only: of_nat_less_iff)
  then have "jsonText dtoa v = showNat n" using JNum n(2) by (simp add: numText_def showInt_def)
  with value_number [OF \<open>closes r\<close> nat_bound [OF n(1)]] JNum n(2) show ?thesis by simp
qed (use value_string in auto)

definition memberText :: "(rat \<Rightarrow> string) \<Rightarrow> string \<times> json \<Rightarrow> string" where
  "memberText dtoa m = jsonQuote (fst m) @ '':'' @ jsonText dtoa (snd m)"

lemma members_written:
  "list_all (flatValue \<circ> snd) ms \<Longrightarrow> ms \<noteq> [] \<Longrightarrow> length ms < k \<Longrightarrow>
   jsonMembers k (jsJoin '','' (map (memberText dtoa) ms) @ CHR ''}'' # r) = Some (ms, r)"
proof (induction ms arbitrary: k)
  case (Cons m ms)
  obtain key v where m: "m = (key, v)" by (cases m)
  from Cons.prems obtain k' where k: "k = Suc (Suc k')" by (cases k; cases "k - 1") auto
  have one: "jsonMembers k (memberText dtoa m @ d # q) = (if d = CHR ''}'' then Some ([m], q)
      else if d = CHR '','' then map_option (\<lambda>(ms, r). (m # ms, r)) (jsonMembers (Suc k') q) else None)"
    if "d = CHR ''}'' \<or> d = CHR '',''" for d q
  proof -
    have "closes (d # q)" "\<not> jsonWhite d" using that by (auto simp: closes_def jsDigit_def jsonWhite_def)
    with value_flat [of v "d # q" k' dtoa] Cons.prems(1) m k show ?thesis
      by (simp add: memberText_def jsonQuote_def jsonWhite_def jsonChars_written)
  qed
  show ?case
  proof (cases ms)
    case Nil
    then show ?thesis using one [of "CHR ''}''" r] by (simp add: jsJoin_def)
  next
    case (Cons m' ms')
    then have "jsJoin '','' (map (memberText dtoa) (m # ms)) = memberText dtoa m @ CHR '','' # jsJoin '','' (map (memberText dtoa) ms)"
      by (simp add: jsJoin_def)
    with one [of "CHR '',''" "jsJoin '','' (map (memberText dtoa) ms) @ CHR ''}'' # r"] Cons.IH [of "Suc k'"] Cons.prems Cons k show ?thesis by simp
  qed
qed simp

lemma length_join: "length ms \<le> length (jsJoin '','' (map (memberText dtoa) ms))"
proof (induction ms)
  case (Cons m ms)
  then show ?case by (cases ms) (simp_all add: jsJoin_def memberText_def)
qed simp

lemma object_written:
  assumes "list_all (flatValue \<circ> snd) ms" and "ms \<noteq> []"
  shows "jsonParse (jsonText dtoa (JObj ms)) = Some (JObj ms)"
proof -
  let ?t = "jsJoin '','' (map (memberText dtoa) ms)"
  have written: "jsonText dtoa (JObj ms) = CHR ''{'' # ?t @ ''}''" by (simp add: memberText_def [abs_def] case_prod_unfold)
  obtain m ms' where ms: "ms = m # ms'" using assms(2) by (cases ms) auto
  have hd: "\<exists>q. ?t = CHR 0x22 # q" unfolding ms by (cases ms') (simp_all add: jsJoin_def memberText_def jsonQuote_def)
  then obtain q where q: "?t = CHR 0x22 # q" by blast
  have "jsonMembers (2 * length ?t + 5) (?t @ ''}'') = Some (ms, [])"
    using members_written [OF assms, of "2 * length ?t + 5" dtoa "[]"] length_join [of ms dtoa] by simp
  then show ?thesis unfolding written jsonParse_def using q by (simp add: jsonWhite_def eval_nat_numeral)
qed

end
