(* ===== verification/Crypto.thy ===== *)
theory Crypto
  imports "HOL-Library.Word" Utf8 Schema
begin

unbundle bit_operations_syntax

section \<open>Encryption of the stored bytes\<close>

text \<open>
  \<^verbatim>\<open>CryptoService\<close> (backend/src/crypto/crypto.service.ts) without its tokens, which are in \<open>Tokens\<close>: the keys of files,
  wrapped by the master secret, and the decryption of a stream that starts in the middle of a file. The block cipher
  (AES-256) is an argument, a function of the key and a block; the counter mode around it is the one of Node's
  \<^verbatim>\<open>crypto\<close> module. Buffers are lists of bytes, random bytes are arguments.
\<close>

type_synonym buffer = "8 word list"
type_synonym block_cipher = "buffer \<Rightarrow> buffer \<Rightarrow> buffer"

subsection \<open>Numbers as bytes\<close>

text \<open>Least significant byte first; a buffer is read from its end.\<close>

fun leVal :: "buffer \<Rightarrow> nat" where
  "leVal [] = 0"
| "leVal (w # ws) = unat w + 256 * leVal ws"

fun leBytes :: "nat \<Rightarrow> nat \<Rightarrow> buffer" where
  "leBytes 0 n = []"
| "leBytes (Suc k) n = of_nat n # leBytes k (n div 256)"

lemma length_leBytes [simp]: "length (leBytes k n) = k"
  by (induction k arbitrary: n) auto

subsection \<open>Counter mode\<close>

text \<open>Block \<open>j\<close> of the key stream is the cipher of the counter, the start value plus \<open>j\<close> modulo \<open>2 ^ 128\<close>, big endian.\<close>

definition counterBlock :: "buffer \<Rightarrow> nat \<Rightarrow> buffer" where
  "counterBlock iv j = rev (leBytes 16 ((leVal (rev iv) + j) mod 2 ^ 128))"

definition keyStream :: "block_cipher \<Rightarrow> buffer \<Rightarrow> buffer \<Rightarrow> nat \<Rightarrow> 8 word" where
  "keyStream E key iv i = E key (counterBlock iv (i div 16)) ! (i mod 16)"

text \<open>A cipher object: what it was created with and how many bytes it has processed. Encrypting and decrypting are the same.\<close>

record ctr_cipher =
  cc_key :: buffer
  cc_iv :: buffer
  cc_pos :: nat

definition createCipheriv :: "buffer \<Rightarrow> buffer \<Rightarrow> backend_error + ctr_cipher" where
  "createCipheriv key iv = (if length key \<noteq> 32 then Inl (PlainError ''Invalid key length'')
     else if length iv \<noteq> 16 then Inl (PlainError ''Invalid initialization vector'')
     else Inr \<lparr>cc_key = key, cc_iv = iv, cc_pos = 0\<rparr>)"

definition xorStream :: "block_cipher \<Rightarrow> buffer \<Rightarrow> buffer \<Rightarrow> nat \<Rightarrow> buffer \<Rightarrow> buffer" where
  "xorStream E key iv start bs = map2 xor bs (map (keyStream E key iv) [start..<start + length bs])"

definition cipherWrite :: "block_cipher \<Rightarrow> buffer \<Rightarrow> ctr_cipher \<Rightarrow> buffer \<times> ctr_cipher" where
  "cipherWrite E bs c = (xorStream E (cc_key c) (cc_iv c) (cc_pos c) bs, c\<lparr>cc_pos := cc_pos c + length bs\<rparr>)"

text \<open>A whole buffer: \<^verbatim>\<open>update\<close> and \<^verbatim>\<open>final\<close>; a stream in pieces.\<close>

definition ctrCrypt :: "block_cipher \<Rightarrow> buffer \<Rightarrow> buffer \<Rightarrow> buffer \<Rightarrow> backend_error + buffer" where
  "ctrCrypt E key iv bs = map_sum id (\<lambda>c. fst (cipherWrite E bs c)) (createCipheriv key iv)"

fun cipherPieces :: "block_cipher \<Rightarrow> buffer list \<Rightarrow> ctr_cipher \<Rightarrow> buffer" where
  "cipherPieces E [] c = []"
| "cipherPieces E (p # ps) c = (case cipherWrite E p c of (out, c') \<Rightarrow> out @ cipherPieces E ps c')"

subsection \<open>Decryption from an offset\<close>

text \<open>The loop that adds the block index to the IV, from the last byte on; it stops when nothing is carried.\<close>

fun addCarry :: "nat \<Rightarrow> buffer \<Rightarrow> buffer" where
  "addCarry carry [] = []"
| "addCarry carry (w # ws) = (if carry = 0 then w # ws else
     (let sum = unat w + carry in of_nat sum # addCarry (sum div 256) ws))"

definition advanceIv :: "buffer \<Rightarrow> nat \<Rightarrow> buffer" where
  "advanceIv iv blockIndex = rev (addCarry blockIndex (rev iv))"

record offset_stream =
  os_decipher :: ctr_cipher
  os_dropped :: nat
  os_bytesToDrop :: nat
  os_paddingInjected :: bool
  os_pushed :: buffer

definition newOffsetStream :: "buffer \<Rightarrow> buffer \<Rightarrow> nat \<Rightarrow> backend_error + offset_stream" where
  "newOffsetStream key iv byteOffset = map_sum id
     (\<lambda>c. \<lparr>os_decipher = c, os_dropped = 0, os_bytesToDrop = byteOffset mod 16, os_paddingInjected = False, os_pushed = []\<rparr>)
     (createCipheriv key (advanceIv iv (byteOffset div 16)))"

text \<open>The listener on the decipher's output.\<close>

definition onDeciphered :: "buffer \<Rightarrow> offset_stream \<Rightarrow> offset_stream" where
  "onDeciphered chunk s = (if os_dropped s < os_bytesToDrop s then
     (let toDrop = min (os_bytesToDrop s - os_dropped s) (length chunk); s' = s\<lparr>os_dropped := os_dropped s + toDrop\<rparr> in
      if toDrop < length chunk then s'\<lparr>os_pushed := os_pushed s' @ drop toDrop chunk\<rparr> else s')
     else s\<lparr>os_pushed := os_pushed s @ chunk\<rparr>)"

definition decipherInto :: "block_cipher \<Rightarrow> buffer \<Rightarrow> offset_stream \<Rightarrow> offset_stream" where
  "decipherInto E bs s = (case cipherWrite E bs (os_decipher s) of (out, c) \<Rightarrow> onDeciphered out (s\<lparr>os_decipher := c\<rparr>))"

definition offsetTransform :: "block_cipher \<Rightarrow> buffer \<Rightarrow> offset_stream \<Rightarrow> offset_stream" where
  "offsetTransform E chunk s =
     (let s' = (if \<not> os_paddingInjected s \<and> os_bytesToDrop s > 0
        then decipherInto E (replicate (os_bytesToDrop s) 0) (s\<lparr>os_paddingInjected := True\<rparr>) else s) in
      decipherInto E chunk s')"

definition createOffsetDecryptStream :: "block_cipher \<Rightarrow> buffer \<Rightarrow> buffer \<Rightarrow> nat \<Rightarrow> buffer list \<Rightarrow> backend_error + buffer" where
  "createOffsetDecryptStream E dek iv byteOffset pieces =
    (if byteOffset = 0 then map_sum id (cipherPieces E pieces) (createCipheriv dek iv)
     else map_sum id (\<lambda>s. os_pushed (fold (offsetTransform E) pieces s)) (newOffsetStream dek iv byteOffset))"

subsection \<open>Wrapped keys\<close>

definition hexLower :: "nat \<Rightarrow> char" where
  "hexLower n = char_of (if n < 10 then 48 + n else 87 + n)"

definition toHex :: "buffer \<Rightarrow> string" where
  "toHex bs = concat (map (\<lambda>w. [hexLower (unat w div 16), hexLower (unat w mod 16)]) bs)"

text \<open>\<^verbatim>\<open>Buffer.from(s, 'hex')\<close> stops at the first pair that is not hexadecimal.\<close>

fun fromHex :: "string \<Rightarrow> buffer" where
  "fromHex (c # d # s) = (if baseDigit 16 c \<and> baseDigit 16 d then of_nat (digitVal c * 16 + digitVal d) # fromHex s else [])"
| "fromHex _ = []"

definition encryptKey :: "block_cipher \<Rightarrow> buffer \<Rightarrow> buffer \<Rightarrow> buffer \<Rightarrow> backend_error + string" where
  "encryptKey E masterSecret iv dek = map_sum id (\<lambda>encrypted. toHex iv @ '':'' @ toHex encrypted) (ctrCrypt E masterSecret iv dek)"

definition decryptKey :: "block_cipher \<Rightarrow> buffer \<Rightarrow> string \<Rightarrow> backend_error + buffer" where
  "decryptKey E masterSecret encryptedDekHex = (case jsSplit (CHR '':'') encryptedDekHex of
     ivHex # encryptedHex # _ \<Rightarrow> ctrCrypt E masterSecret (fromHex ivHex) (fromHex encryptedHex)
   | _ \<Rightarrow> Inl (PlainError ''TypeError''))"


subsection \<open>The counter of a block\<close>

lemma of_nat_256 [simp]: "(of_nat (256 * n) :: 8 word) = 0"
  by (simp only: word_of_nat_eq_0_iff) simp

lemma of_nat_unat_add: "(of_nat (unat w + 256 * n) :: 8 word) = w"
  by (simp only: of_nat_add of_nat_256) simp

lemma unat_byte [simp]: "unat (w :: 8 word) < 256"
  using unsigned_less [of w] by simp

lemma leBytes_leVal: "leBytes (length ws) (leVal ws) = ws"
proof (induction ws)
  case (Cons w ws)
  have "(unat w + 256 * leVal ws) div 256 = leVal ws" by simp
  with Cons of_nat_unat_add [of w "leVal ws"] show ?case by simp
qed simp

lemma leVal_leBytes: "leVal (leBytes k n) = n mod 256 ^ k"
proof (induction k arbitrary: n)
  case (Suc k)
  have "unat (of_nat n :: 8 word) = n mod 256" by (simp add: unat_of_nat)
  with Suc show ?case by (simp add: mod_mult2_eq)
qed simp

lemma addCarry_adds: "addCarry carry ws = leBytes (length ws) (leVal ws + carry)"
proof (induction ws arbitrary: carry)
  case (Cons w ws)
  show ?case
  proof (cases "carry = 0")
    case True
    then show ?thesis using leBytes_leVal [of "w # ws"] by simp
  next
    case False
    have "(of_nat (unat w + 256 * leVal ws + carry) :: 8 word) = of_nat (unat w + carry)"
      by (simp only: of_nat_add of_nat_256) simp
    moreover have "(unat w + 256 * leVal ws + carry) div 256 = leVal ws + (unat w + carry) div 256"
      by (simp add: add.commute add.left_commute)
    ultimately show ?thesis using Cons False by (simp add: Let_def)
  qed
qed simp

lemma length_advanceIv [simp]: "length (advanceIv iv n) = length iv"
  by (simp add: advanceIv_def addCarry_adds)

lemma counter_advance: "length iv = 16 \<Longrightarrow> counterBlock (advanceIv iv n) j = counterBlock iv (n + j)"
proof -
  assume iv: "length iv = 16"
  have "leVal (rev (advanceIv iv n)) = (leVal (rev iv) + n) mod 2 ^ 128"
    using iv by (simp add: advanceIv_def addCarry_adds leVal_leBytes)
  then show ?thesis unfolding counterBlock_def by (simp only: mod_add_left_eq add.assoc)
qed

lemma keyStream_advance: "length iv = 16 \<Longrightarrow> keyStream E key (advanceIv iv n) i = keyStream E key iv (16 * n + i)"
  by (simp add: keyStream_def counter_advance)

subsection \<open>Pieces of a stream\<close>

lemma length_xorStream [simp]: "length (xorStream E k iv a bs) = length bs"
  by (simp add: xorStream_def)

lemma nth_xorStream: "i < length bs \<Longrightarrow> xorStream E k iv a bs ! i = bs ! i XOR keyStream E k iv (a + i)"
  by (simp add: xorStream_def)

lemma xorStream_append: "xorStream E k iv a (bs @ cs) = xorStream E k iv a bs @ xorStream E k iv (a + length bs) cs"
  by (rule nth_equalityI) (auto simp: nth_append nth_xorStream)

lemma xorStream_Nil [simp]: "xorStream E k iv a [] = []"
  by (simp add: xorStream_def)

lemma xorStream_twice: "xorStream E k iv a (xorStream E k iv a bs) = bs"
  by (rule nth_equalityI) (auto simp: nth_xorStream xor.assoc)

lemma xorStream_drop: "drop m (xorStream E k iv a bs) = xorStream E k iv (a + m) (drop m bs)"
  by (rule nth_equalityI) (auto simp: nth_xorStream add.assoc)

lemma xorStream_take: "take m (xorStream E k iv a bs) = xorStream E k iv a (take m bs)"
  by (rule nth_equalityI) (auto simp: nth_xorStream)

lemma xorStream_advance: "length iv = 16 \<Longrightarrow> xorStream E k (advanceIv iv n) a bs = xorStream E k iv (16 * n + a) bs"
  by (rule nth_equalityI) (auto simp: nth_xorStream keyStream_advance add.assoc)

lemma cipherPieces_concat: "cipherPieces E ps c = xorStream E (cc_key c) (cc_iv c) (cc_pos c) (concat ps)"
  by (induction ps arbitrary: c) (auto simp: cipherWrite_def xorStream_append)

lemma offset_flows:
  "os_bytesToDrop s \<le> os_dropped s \<Longrightarrow> os_paddingInjected s \<or> os_bytesToDrop s = 0 \<Longrightarrow>
   os_pushed (fold (offsetTransform E) ps s) = os_pushed s @ cipherPieces E ps (os_decipher s)"
  by (induction ps arbitrary: s)
    (auto simp: offsetTransform_def decipherInto_def onDeciphered_def Let_def split: prod.split)

lemma offset_first:
  assumes "0 < r" and "s = \<lparr>os_decipher = c, os_dropped = 0, os_bytesToDrop = r, os_paddingInjected = False, os_pushed = []\<rparr>"
  shows "os_pushed (fold (offsetTransform E) ps s) = cipherPieces E ps (c\<lparr>cc_pos := cc_pos c + r\<rparr>)"
proof (cases ps)
  case (Cons p qs)
  have "offsetTransform E p s = \<lparr>os_decipher = c\<lparr>cc_pos := cc_pos c + r + length p\<rparr>, os_dropped = r, os_bytesToDrop = r,
      os_paddingInjected = True, os_pushed = fst (cipherWrite E p (c\<lparr>cc_pos := cc_pos c + r\<rparr>))\<rparr>"
    using assms by (simp add: offsetTransform_def decipherInto_def onDeciphered_def cipherWrite_def Let_def)
  with Cons show ?thesis by (simp add: offset_flows cipherWrite_def)
qed (use assms in simp)

lemma offset_stream_output:
  assumes "length dek = 32" and "length iv = 16"
  shows "createOffsetDecryptStream E dek iv off pieces = Inr (xorStream E dek iv off (concat pieces))"
proof -
  have iv: "createCipheriv dek (advanceIv iv n) = Inr \<lparr>cc_key = dek, cc_iv = advanceIv iv n, cc_pos = 0\<rparr>" for n
    using assms by (simp add: createCipheriv_def)
  have off: "16 * (off div 16) + off mod 16 = off" by simp
  show ?thesis
  proof (cases "off mod 16 = 0")
    case True
    then show ?thesis using assms off
      by (auto simp: createOffsetDecryptStream_def newOffsetStream_def iv offset_flows cipherPieces_concat xorStream_advance createCipheriv_def)
  next
    case False
    then have r: "0 < off mod 16" and "off \<noteq> 0" by (simp, cases off, auto)
    show ?thesis using assms off
      unfolding createOffsetDecryptStream_def if_not_P [OF \<open>off \<noteq> 0\<close>]
      by (simp add: newOffsetStream_def iv offset_first [OF r refl] cipherPieces_concat xorStream_advance)
  qed
qed

lemma offset_stream_decrypts:
  assumes "ctrCrypt E dek iv plain = Inr stored" and "concat pieces = take n (drop off stored)"
  shows "createOffsetDecryptStream E dek iv off pieces = Inr (take n (drop off plain))"
proof -
  from assms(1) have len: "length dek = 32" "length iv = 16" and stored: "stored = xorStream E dek iv 0 plain"
    by (auto simp: ctrCrypt_def createCipheriv_def cipherWrite_def split: if_splits)
  show ?thesis
    unfolding offset_stream_output [OF len] assms(2) stored xorStream_drop xorStream_take by (simp add: xorStream_twice)
qed

text \<open>
  C19. Random access decrypts to the same bytes as reading from the start: when a stored file is encrypted in counter mode,
  the stream that is created for a byte offset and fed the ciphertext from there on, in pieces of any size, gives the
  plaintext from that offset on. The offset need not be aligned to a block and the counter may wrap around.
\<close>
theorem offset_decryption:
  assumes "ctrCrypt E dek iv plain = Inr stored" and "concat pieces = take n (drop off stored)"
  shows "createOffsetDecryptStream E dek iv off pieces = Inr (take n (drop off plain))"
  using assms by (rule offset_stream_decrypts)

definition demoCipher :: block_cipher where
  "demoCipher key block = map2 xor (take 16 key) block"

theorem offset_decryption_witness:
  "createOffsetDecryptStream demoCipher (map of_nat [0..<32]) (replicate 16 255) 18
     [take 2 (drop 18 (xorStream demoCipher (map of_nat [0..<32]) (replicate 16 255) 0 (map of_nat [0..<40]))),
      take 3 (drop 20 (xorStream demoCipher (map of_nat [0..<32]) (replicate 16 255) 0 (map of_nat [0..<40])))] = Inr [18, 19, 20, 21, 22]"
proof -
  let ?s = "xorStream demoCipher (map of_nat [0..<32]) (replicate 16 255) 0 (map of_nat [0..<40])"
  have "ctrCrypt demoCipher (map of_nat [0..<32]) (replicate 16 255) (map of_nat [0..<40]) = Inr ?s"
    by (simp add: ctrCrypt_def createCipheriv_def cipherWrite_def)
  moreover have "concat [take 2 (drop 18 ?s), take 3 (drop 20 ?s)] = take 5 (drop 18 ?s)"
    using take_add [of 2 3 "drop 18 ?s"] by simp
  ultimately show ?thesis
    using offset_decryption [of demoCipher "map of_nat [0..<32]" "replicate 16 255" "map of_nat [0..<40]" ?s] by (simp add: upt_rec)
qed

subsection \<open>Wrapped keys come back\<close>

lemma hexLower_digit: "n < 16 \<Longrightarrow> baseDigit 16 (hexLower n) \<and> digitVal (hexLower n) = n \<and> hexLower n \<noteq> CHR '':''"
proof -
  assume n: "n < 16"
  then have v: "(of_char (hexLower n) :: nat) = (if n < 10 then 48 + n else 87 + n)"
    by (simp add: hexLower_def of_char_of take_bit_nat_eq_self)
  have "hexLower n \<noteq> CHR '':''"
  proof
    assume "hexLower n = CHR '':''"
    then have "(of_char (hexLower n) :: nat) = 58" by simp
    with v n show False by (simp split: if_splits)
  qed
  with v n show ?thesis by (simp add: baseDigit_def digitVal_def Let_def)
qed

lemma toHex_chars: "CHR '':'' \<notin> set (toHex bs)"
proof -
  have "unat w div 16 < 16" "unat w mod 16 < 16" for w :: "8 word" by (simp_all add: less_mult_imp_div_less)
  then show ?thesis using hexLower_digit by (auto simp: toHex_def dest: sym)
qed

lemma fromHex_toHex: "fromHex (toHex bs) = bs"
proof (induction bs)
  case (Cons w bs)
  have w: "unat w div 16 < 16" "unat w mod 16 < 16" by (simp_all add: less_mult_imp_div_less)
  with hexLower_digit [OF w(1)] hexLower_digit [OF w(2)] Cons show ?case by (simp add: toHex_def)
qed (simp add: toHex_def)

text \<open>
  A wrapped key unwraps to the key: what the database stores of a file's key gives the key back under the same
  master secret, whatever IV was drawn.
\<close>
theorem wrapped_keys:
  "encryptKey E secret iv dek = Inr wrapped \<Longrightarrow> decryptKey E secret wrapped = Inr dek"
proof -
  assume "encryptKey E secret iv dek = Inr wrapped"
  then have len: "length secret = 32" "length iv = 16" and w: "wrapped = toHex iv @ CHR '':'' # toHex (xorStream E secret iv 0 dek)"
    by (auto simp: encryptKey_def ctrCrypt_def createCipheriv_def cipherWrite_def split: if_splits)
  show ?thesis
    using len unfolding w decryptKey_def
    by (simp add: jsSplit_prefix [OF toHex_chars] jsSplit_none [OF toHex_chars] fromHex_toHex ctrCrypt_def createCipheriv_def cipherWrite_def
        xorStream_twice)
qed

theorem wrapped_keys_witness:
  "\<exists>w. encryptKey demoCipher (replicate 32 7) (replicate 16 1) [1, 2, 3] = Inr w \<and> decryptKey demoCipher (replicate 32 7) w = Inr [1, 2, 3]"
proof -
  obtain w where "encryptKey demoCipher (replicate 32 7) (replicate 16 1) [1, 2, 3] = Inr w"
    by (simp add: encryptKey_def ctrCrypt_def createCipheriv_def)
  with wrapped_keys [OF this] show ?thesis by blast
qed

end
