(* ===== verification/Tokens.thy ===== *)
theory Tokens
  imports Json Crypto
begin

section \<open>Signed tokens\<close>

text \<open>
  The tokens of \<^verbatim>\<open>CryptoService\<close> (backend/src/crypto/crypto.service.ts): download links and the cookie of the player.
  A token is the base64url of a JSON object with a signature; the signature is the HMAC of the fields joined by colons.
  The HMAC is an argument, a function of the secret and the text to its hexadecimal digest, and so is what
  \<^verbatim>\<open>Buffer.from\<close> makes of a signature that is no string. Times are milliseconds, expiries seconds.
\<close>

record token_env =
  te_hmac :: "string \<Rightarrow> string \<Rightarrow> string"
  te_secret :: string
  te_dtoa :: "rat \<Rightarrow> string"
  te_bytesOf :: "json \<Rightarrow> buffer option"

record signed_payload =
  sp_fid :: json
  sp_exp :: json
  sp_t :: json
  sp_uid :: "json option"

record cookie_payload =
  cp_sub :: json
  cp_exp :: json

definition hmacSign :: "token_env \<Rightarrow> string \<Rightarrow> string" where
  "hmacSign env message = te_hmac env (te_secret env) message"

subsection \<open>Creating and verifying\<close>

definition tokenExpiry :: "int \<Rightarrow> int \<Rightarrow> int option \<Rightarrow> int" where
  "tokenExpiry now ttlSeconds expSeconds = (case expSeconds of Some e \<Rightarrow> e | None \<Rightarrow> now div 1000 + ttlSeconds)"

definition createSignedToken :: "token_env \<Rightarrow> int \<Rightarrow> string \<Rightarrow> string \<Rightarrow> int \<Rightarrow> string option \<Rightarrow> int option \<Rightarrow> string" where
  "createSignedToken env now fileId kind ttlSeconds userId expSeconds =
    (let expiry = tokenExpiry now ttlSeconds expSeconds;
         sigStr = jsJoin '':'' ([fileId, showInt expiry, kind] @ (if present userId then [the userId] else []));
         sig = hmacSign env sigStr in
     base64urlEncode (jsonText (te_dtoa env) (JObj ([(''fid'', JStr fileId), (''exp'', JNum (JsFin (of_int expiry))), (''t'', JStr kind),
       (''sig'', JStr sig)] @ (if present userId then [(''uid'', JStr (the userId))] else [])))))"

text \<open>Both buffers must have the same length, or the comparison throws.\<close>

definition signatureMatches :: "token_env \<Rightarrow> json \<Rightarrow> string \<Rightarrow> bool" where
  "signatureMatches env sig expected =
     ((case sig of JStr s \<Rightarrow> Some (fromHex s) | v \<Rightarrow> te_bytesOf env v) = Some (fromHex expected))"

definition expired :: "token_env \<Rightarrow> int \<Rightarrow> json \<Rightarrow> bool" where
  "expired env now expiry \<longleftrightarrow> jsLess (jsonToNumber (te_dtoa env) expiry) (JsFin (of_int (now div 1000)))"

definition tokenJson :: "string \<Rightarrow> json option" where
  "tokenJson token = jsonParse (utf8Text (base64urlDecode token))"

definition verifySignedToken :: "token_env \<Rightarrow> int \<Rightarrow> string \<Rightarrow> signed_payload option" where
  "verifySignedToken env now token = (case tokenJson token of None \<Rightarrow> None | Some v \<Rightarrow>
     if \<not> truthyField ''fid'' v \<or> \<not> truthyField ''exp'' v \<or> \<not> truthyField ''t'' v \<or> \<not> truthyField ''sig'' v then None
     else (let fid = the (jsonField ''fid'' v); expiry = the (jsonField ''exp'' v); kind = the (jsonField ''t'' v); str = jsonString (te_dtoa env);
         sigStr = jsJoin '':'' ([str fid, str expiry, str kind] @ (if truthyField ''uid'' v then [str (the (jsonField ''uid'' v))] else [])) in
       if \<not> signatureMatches env (the (jsonField ''sig'' v)) (hmacSign env sigStr) then None
       else if expired env now expiry then None
       else Some \<lparr>sp_fid = fid, sp_exp = expiry, sp_t = kind, sp_uid = jsonField ''uid'' v\<rparr>))"

definition createStreamCookieToken :: "token_env \<Rightarrow> int \<Rightarrow> string \<Rightarrow> int \<Rightarrow> string" where
  "createStreamCookieToken env now subject ttlSeconds =
    (let expiry = now div 1000 + ttlSeconds; sig = hmacSign env (jsJoin '':'' [''stream'', subject, showInt expiry]) in
     base64urlEncode (jsonText (te_dtoa env) (JObj [(''sub'', JStr subject), (''exp'', JNum (JsFin (of_int expiry))), (''sig'', JStr sig)])))"

definition verifyStreamCookieToken :: "token_env \<Rightarrow> int \<Rightarrow> string \<Rightarrow> cookie_payload option" where
  "verifyStreamCookieToken env now token = (case tokenJson token of None \<Rightarrow> None | Some v \<Rightarrow>
     if \<not> truthyField ''sub'' v \<or> \<not> truthyField ''exp'' v \<or> \<not> truthyField ''sig'' v then None
     else (let sub = the (jsonField ''sub'' v); expiry = the (jsonField ''exp'' v); str = jsonString (te_dtoa env) in
       if \<not> signatureMatches env (the (jsonField ''sig'' v)) (hmacSign env (jsJoin '':'' [''stream'', str sub, str expiry])) then None
       else if expired env now expiry then None
       else Some \<lparr>cp_sub = sub, cp_exp = expiry\<rparr>))"

text \<open>The guard of the player's routes.\<close>

definition streamCookieGuard :: "token_env \<Rightarrow> int \<Rightarrow> string option \<Rightarrow> backend_error + cookie_payload" where
  "streamCookieGuard env now cookie = (if \<not> present cookie then Inl (UnauthorizedException ''Stream cookie required'')
     else case verifyStreamCookieToken env now (the cookie) of
       None \<Rightarrow> Inl (UnauthorizedException ''Invalid or expired stream cookie'') | Some p \<Rightarrow> Inr p)"

subsection \<open>Tokens come back\<close>

definition asciiText :: "string \<Rightarrow> bool" where
  "asciiText s \<longleftrightarrow> list_all (\<lambda>c. byte c < 128) s"

lemma ascii_utf8: "asciiText s \<Longrightarrow> utf8Text s = s"
  using utf8Text_ascii_append [of s "[]"] by (simp add: asciiText_def list_all_iff)

lemma ascii_append [simp]: "asciiText (a @ b) = (asciiText a \<and> asciiText b)"
  by (simp add: asciiText_def)

lemma ascii_digits: "list_all jsDigit s \<Longrightarrow> asciiText s"
  by (auto simp: asciiText_def list_all_iff jsDigit_def)

lemma ascii_show: "asciiText (showNat n)"
  by (rule ascii_digits) (simp add: list_all_iff showNat_digits)

lemma ascii_escape: "byte c < 128 \<Longrightarrow> asciiText (jsonEscape c)"
proof -
  assume c: "byte c < 128"
  have "byte (char_of (87 + byte c mod 16)) < 128"
  proof -
    have "byte c mod 16 < 16" by simp
    then have "87 + byte c mod 16 < 128" by linarith
    then show ?thesis by (simp add: of_char_of take_bit_nat_eq_self)
  qed
  with c show ?thesis
    by (auto simp: jsonEscape_def asciiText_def Let_def natDigit_of_char)
qed

lemma ascii_quote: "asciiText s \<Longrightarrow> asciiText (jsonQuote s)"
proof -
  assume "asciiText s"
  then have "asciiText (concat (map jsonEscape s))"
    by (induction s) (auto simp: asciiText_def list_all_iff dest!: ascii_escape [unfolded asciiText_def list_all_iff])
  then show ?thesis by (simp add: jsonQuote_def asciiText_def)
qed

definition asciiMembers :: "(string \<times> json) list \<Rightarrow> bool" where
  "asciiMembers ms \<longleftrightarrow> list_all (\<lambda>(k, v). asciiText k \<and> (case v of JStr s \<Rightarrow> asciiText s | _ \<Rightarrow> True)) ms"

lemma ascii_flat: "flatValue v \<Longrightarrow> (case v of JStr s \<Rightarrow> asciiText s | _ \<Rightarrow> True) \<Longrightarrow> asciiText (jsonText dtoa v)"
proof (cases v)
  case (JNum x)
  assume "flatValue v"
  with JNum obtain n :: nat where n: "n < 10 ^ 21" "x = JsFin (of_nat n)" by auto
  then have "(of_nat n :: rat) < of_nat (10 ^ 21)" by (simp only: of_nat_less_iff)
  with JNum n(2) ascii_show show ?thesis by (simp add: numText_def showInt_def)
qed (auto simp: ascii_quote)

lemma ascii_object:
  assumes "list_all (flatValue \<circ> snd) ms" and "asciiMembers ms"
  shows "asciiText (jsonText dtoa (JObj ms))"
proof -
  have "asciiText (jsJoin '','' (map (memberText dtoa) ms))"
    using assms
  proof (induction ms)
    case (Cons m ms)
    then have "asciiText (memberText dtoa m)"
      using ascii_flat [of "snd m" dtoa] ascii_quote [of "fst m"]
      by (cases m) (auto simp: memberText_def asciiMembers_def asciiText_def)
    with Cons show ?case by (cases ms) (simp_all add: jsJoin_def asciiMembers_def asciiText_def)
  qed (simp add: jsJoin_def asciiText_def)
  then show ?thesis by (simp add: asciiText_def memberText_def [abs_def] case_prod_unfold)
qed

lemma token_written:
  assumes "list_all (flatValue \<circ> snd) ms" and "asciiMembers ms" and "ms \<noteq> []"
  shows "tokenJson (base64urlEncode (jsonText dtoa (JObj ms))) = Some (JObj ms)"
  using object_written [OF assms(1,3), of dtoa] ascii_utf8 [OF ascii_object [OF assms(1,2), of dtoa]]
  by (simp only: tokenJson_def base64url_decode_encode)


text \<open>A hexadecimal digest.\<close>

definition digestText :: "string \<Rightarrow> bool" where
  "digestText sig \<longleftrightarrow> sig \<noteq> [] \<and> asciiText sig"

lemma flat_int: "0 < e \<Longrightarrow> e < 10 ^ 21 \<Longrightarrow> flatValue (JNum (JsFin (of_int e)))"
  by (auto intro!: exI [of _ "nat e"])

lemma numText_int: "\<bar>e\<bar> < 10 ^ 21 \<Longrightarrow> numText dtoa (JsFin (of_int e)) = showInt e"
proof -
  assume "\<bar>e\<bar> < 10 ^ 21"
  then have "\<bar>of_int e :: rat\<bar> < of_int (10 ^ 21)" by (simp only: of_int_abs [symmetric] of_int_less_iff)
  then show ?thesis by (simp add: numText_def)
qed

definition issuedMembers :: "string \<Rightarrow> int \<Rightarrow> string \<Rightarrow> string \<Rightarrow> string option \<Rightarrow> (string \<times> json) list" where
  "issuedMembers fileId expiry kind sig userId = [(''fid'', JStr fileId), (''exp'', JNum (JsFin (of_int expiry))), (''t'', JStr kind),
     (''sig'', JStr sig)] @ (if present userId then [(''uid'', JStr (the userId))] else [])"

lemma issued_fields:
  "jsonField ''fid'' (JObj (issuedMembers f e k s u)) = Some (JStr f)"
  "jsonField ''exp'' (JObj (issuedMembers f e k s u)) = Some (JNum (JsFin (of_int e)))"
  "jsonField ''t'' (JObj (issuedMembers f e k s u)) = Some (JStr k)"
  "jsonField ''sig'' (JObj (issuedMembers f e k s u)) = Some (JStr s)"
  "jsonField ''uid'' (JObj (issuedMembers f e k s u)) = (if present u then Some (JStr (the u)) else None)"
  by (simp_all add: issuedMembers_def jsonField_def)

definition plainField :: "string \<Rightarrow> bool" where
  "plainField s \<longleftrightarrow> s \<noteq> [] \<and> asciiText s"

lemma issued_token:
  assumes "plainField fileId" and "plainField kind" and "present userId \<longrightarrow> asciiText (the userId)" and "digestText (hmacSign env sigStr)"
    and "expiry = tokenExpiry now ttl expSeconds" and "0 < expiry" and "expiry < 10 ^ 21"
    and "sigStr = jsJoin '':'' ([fileId, showInt expiry, kind] @ (if present userId then [the userId] else []))"
  shows "tokenJson (createSignedToken env now fileId kind ttl userId expSeconds) =
    Some (JObj (issuedMembers fileId expiry kind (hmacSign env sigStr) userId))"
proof -
  have "list_all (flatValue \<circ> snd) (issuedMembers fileId expiry kind (hmacSign env sigStr) userId)"
    using flat_int [OF assms(6,7)] by (simp add: issuedMembers_def)
  moreover have "asciiMembers (issuedMembers fileId expiry kind (hmacSign env sigStr) userId)"
    using assms(1-4) by (simp add: issuedMembers_def asciiMembers_def plainField_def digestText_def) (simp add: asciiText_def)
  ultimately have "tokenJson (base64urlEncode (jsonText (te_dtoa env) (JObj (issuedMembers fileId expiry kind (hmacSign env sigStr) userId)))) =
      Some (JObj (issuedMembers fileId expiry kind (hmacSign env sigStr) userId))"
    by (rule token_written) (simp add: issuedMembers_def)
  then show ?thesis using assms(5,8) by (simp only: createSignedToken_def Let_def issuedMembers_def)
qed

text \<open>
  C20. A download link works exactly until it expires: a token that the service has created verifies, with the file,
  kind and user it was created for, as long as the second of its expiry is not over, and then no more.
\<close>
theorem signed_token_roundtrip:
  assumes "plainField fileId" and "plainField kind" and "present userId \<longrightarrow> asciiText (the userId)" and "\<forall>d. digestText (hmacSign env d)"
    and "0 < tokenExpiry now ttl expSeconds" and "tokenExpiry now ttl expSeconds < 10 ^ 21"
  shows "verifySignedToken env later (createSignedToken env now fileId kind ttl userId expSeconds) =
    (if later div 1000 \<le> tokenExpiry now ttl expSeconds
     then Some \<lparr>sp_fid = JStr fileId, sp_exp = JNum (JsFin (of_int (tokenExpiry now ttl expSeconds))), sp_t = JStr kind,
       sp_uid = (if present userId then Some (JStr (the userId)) else None)\<rparr> else None)"
proof -
  define e where "e = tokenExpiry now ttl expSeconds"
  define sg where "sg = jsJoin '':'' ([fileId, showInt e, kind] @ (if present userId then [the userId] else []))"
  have tok: "tokenJson (createSignedToken env now fileId kind ttl userId expSeconds) = Some (JObj (issuedMembers fileId e kind (hmacSign env sg) userId))"
    using assms by (intro issued_token) (auto simp: e_def sg_def)
  have uid: "truthyField ''uid'' (JObj (issuedMembers fileId e kind s userId)) = present userId" for s
    by (cases userId) (simp_all add: truthyField_def issued_fields present_def)
  have "numText (te_dtoa env) (JsFin (of_int e)) = showInt e" using assms(5,6) by (simp add: numText_int e_def)
  moreover have "hmacSign env sg \<noteq> []" using assms(4) by (simp add: digestText_def)
  ultimately show ?thesis
    using assms(1,2,5) uid
    by (auto simp: verifySignedToken_def tok truthyField_def [of "''fid''"] truthyField_def [of "''exp''"] truthyField_def [of "''t''"]
        truthyField_def [of "''sig''"] issued_fields plainField_def signatureMatches_def Let_def sg_def expired_def
        jsonToNumber_def e_def [symmetric])
qed


definition demoEnv :: token_env where
  "demoEnv = \<lparr>te_hmac = (\<lambda>k d. ''ab''), te_secret = ''s'', te_dtoa = (\<lambda>q. []), te_bytesOf = (\<lambda>v. None)\<rparr>"

theorem signed_token_roundtrip_witness:
  "verifySignedToken demoEnv 900000 (createSignedToken demoEnv 0 ''f1'' ''u'' 300 (Some ''u1'') (Some 900)) =
     Some \<lparr>sp_fid = JStr ''f1'', sp_exp = JNum (JsFin 900), sp_t = JStr ''u'', sp_uid = Some (JStr ''u1'')\<rparr> \<and>
   verifySignedToken demoEnv 901000 (createSignedToken demoEnv 0 ''f1'' ''u'' 300 (Some ''u1'') (Some 900)) = None"
proof -
  have "plainField ''f1''" "plainField ''u''" "asciiText (the (Some ''u1''))" "\<forall>d. digestText (hmacSign demoEnv d)" "present (Some ''u1'')"
    by (simp_all add: plainField_def asciiText_def digestText_def hmacSign_def demoEnv_def present_def)
  then show ?thesis
    using signed_token_roundtrip [of "''f1''" "''u''" "Some ''u1''" demoEnv 0 300 "Some 900" 900000]
      signed_token_roundtrip [of "''f1''" "''u''" "Some ''u1''" demoEnv 0 300 "Some 900" 901000]
    by (simp add: tokenExpiry_def)
qed

subsection \<open>The fields of a signature run into each other\<close>

text \<open>
  What anyone who has seen a download link of a user can compute from it: the same signature over the same text, cut
  into fields at other colons. The expiry becomes a text that is no number.
\<close>

definition recut :: "string \<Rightarrow> string" where
  "recut token = (case tokenJson token of None \<Rightarrow> [] | Some v \<Rightarrow>
     (case (jsonField ''fid'' v, jsonField ''exp'' v, jsonField ''t'' v, jsonField ''sig'' v, jsonField ''uid'' v) of
        (Some fid, Some (JNum (JsFin q)), Some (JStr kind), Some sig, Some uid) \<Rightarrow>
          base64urlEncode (jsonText (\<lambda>_. []) (JObj [(''fid'', fid), (''exp'', JStr (showInt \<lfloor>q\<rfloor> @ '':'' @ kind)), (''t'', uid), (''sig'', sig)]))
      | _ \<Rightarrow> []))"

lemma trim_front: "jsDigit (hd s) \<Longrightarrow> s \<noteq> [] \<Longrightarrow> dropWhile jsWhite s = s"
  by (cases s) (auto simp: jsWhite_def jsDigit_def)

lemma expiry_not_number:
  assumes "kind \<noteq> []" and "\<not> jsWhite (last kind)"
  shows "jsNumber (showNat n @ CHR '':'' # kind) = JsNaN"
proof -
  obtain c q where s: "showNat n = c # q" "jsDigit c" by (rule showNat_Cons)
  have digits: "takeDigits (showNat n @ CHR '':'' # kind) = (showNat n, CHR '':'' # kind)"
    using showNat_digits by (auto simp: takeDigits_def jsDigit_def)
  have "jsTrim (showNat n @ CHR '':'' # kind) = showNat n @ CHR '':'' # kind"
  proof -
    have "dropWhile jsWhite (showNat n @ CHR '':'' # kind) = showNat n @ CHR '':'' # kind" using s by (intro trim_front) auto
    moreover have "dropWhile jsWhite (rev (showNat n @ CHR '':'' # kind)) = rev (showNat n @ CHR '':'' # kind)"
      using assms by (cases kind rule: rev_cases) auto
    ultimately show ?thesis by (simp add: jsTrim_def)
  qed
  moreover have "parsePrefixed (showNat n @ CHR '':'' # kind) = None"
  proof (cases q)
    case Nil
    with s show ?thesis by (simp add: parsePrefixed_def)
  next
    case (Cons d r)
    have "d \<noteq> CHR ''x''" "d \<noteq> CHR ''X''" "d \<noteq> CHR ''o''" "d \<noteq> CHR ''O''" "d \<noteq> CHR ''b''" "d \<noteq> CHR ''B''"
      using showNat_digits [of d n] s(1) Cons by (auto simp: jsDigit_def)
    with s(1) Cons show ?thesis by (simp add: parsePrefixed_def)
  qed
  moreover have "parseUnsigned (showNat n @ CHR '':'' # kind) = JsNaN"
  proof -
    have "showNat n @ CHR '':'' # kind \<noteq> ''Infinity''" using s by (auto simp: jsDigit_def)
    then show ?thesis by (simp add: parseUnsigned_def digits parseExponent_def)
  qed
  ultimately show ?thesis using s showNat_digit_char [OF s(2)] by (simp add: JsLib.jsNumber_def)
qed

text \<open>
  An expired download link can be revived by anyone who has it: the signature covers the fields joined by colons, so
  the expiry and the kind can be read as one field that is no number, the kind as the user; no comparison with it is
  true, and the link works at any time. No secret and no new signature is needed.
\<close>
theorem expired_link_revived:
  assumes "plainField fileId" and "kind \<in> {''u'', ''s'', ''sf''}" and "plainField uid" and "\<forall>d. digestText (hmacSign env d)"
    and "0 < tokenExpiry now ttl expSeconds" and "tokenExpiry now ttl expSeconds < 10 ^ 21"
  shows "\<exists>p. verifySignedToken env later (recut (createSignedToken env now fileId kind ttl (Some uid) expSeconds)) = Some p \<and> sp_fid p = JStr fileId"
proof -
  define e where "e = tokenExpiry now ttl expSeconds"
  define sg where "sg = jsJoin '':'' ([fileId, showInt e, kind] @ (if present (Some uid) then [the (Some uid)] else []))"
  have kind: "plainField kind" "kind \<noteq> []" "\<not> jsWhite (last kind)" using assms(2) by (auto simp: plainField_def asciiText_def jsWhite_def)
  have uid: "present (Some uid)" "uid \<noteq> []" "asciiText uid" using assms(3) by (auto simp: present_def plainField_def)
  have e: "0 < e" "e < 10 ^ 21" using assms(5,6) by (simp_all add: e_def)
  have digest: "digestText (hmacSign env sg)" using assms(4) by blast
  have tok: "tokenJson (createSignedToken env now fileId kind ttl (Some uid) expSeconds) =
      Some (JObj (issuedMembers fileId e kind (hmacSign env sg) (Some uid)))"
    using assms(1) kind uid e digest by (intro issued_token) (auto simp: e_def sg_def)
  define ms where "ms = [(''fid'', JStr fileId), (''exp'', JStr (showInt e @ '':'' @ kind)), (''t'', JStr uid), (''sig'', JStr (hmacSign env sg))]"
  have recut: "recut (createSignedToken env now fileId kind ttl (Some uid) expSeconds) = base64urlEncode (jsonText (\<lambda>_. []) (JObj ms))"
    using uid by (simp add: recut_def tok issued_fields ms_def)
  have show_e: "showInt e = showNat (nat e)" using e by (simp add: showInt_def)
  have "asciiMembers ms"
    using assms(1) kind uid digest ascii_show [of "nat e"] unfolding ms_def show_e
    by (simp add: asciiMembers_def plainField_def digestText_def) (simp add: asciiText_def)
  then have read: "tokenJson (recut (createSignedToken env now fileId kind ttl (Some uid) expSeconds)) = Some (JObj ms)"
    unfolding recut by (intro token_written) (simp_all add: ms_def)
  have fields: "jsonField ''fid'' (JObj ms) = Some (JStr fileId)" "jsonField ''exp'' (JObj ms) = Some (JStr (showInt e @ '':'' @ kind))"
    "jsonField ''t'' (JObj ms) = Some (JStr uid)" "jsonField ''sig'' (JObj ms) = Some (JStr (hmacSign env sg))" "jsonField ''uid'' (JObj ms) = None"
    by (simp_all add: ms_def jsonField_def)
  have "jsonToNumber (te_dtoa env) (JStr (showInt e @ '':'' @ kind)) = JsNaN"
    using expiry_not_number [OF kind(2,3), of "nat e"] show_e by (simp add: jsonToNumber_def)
  then have "\<not> expired env later (JStr (showInt e @ '':'' @ kind))" by (simp add: expired_def)
  moreover have "jsJoin '':'' [fileId, showInt e @ '':'' @ kind, uid] = sg" using uid(1) by (simp add: sg_def jsJoin_def)
  ultimately show ?thesis
    using assms(1) uid digest
    by (simp add: verifySignedToken_def read truthyField_def fields signatureMatches_def Let_def plainField_def digestText_def)
qed

theorem expired_link_revived_witness:
  "\<exists>p. verifySignedToken demoEnv 99000000 (recut (createSignedToken demoEnv 0 ''f1'' ''u'' 300 (Some ''u1'') (Some 900))) = Some p \<and>
     sp_fid p = JStr ''f1''"
proof -
  have "plainField ''f1''" "plainField ''u1''" "\<forall>d. digestText (hmacSign demoEnv d)"
    by (simp_all add: plainField_def asciiText_def digestText_def hmacSign_def demoEnv_def)
  then show ?thesis using expired_link_revived [of "''f1''" "''u''" "''u1''" demoEnv 0 300 "Some 900" 99000000] by (simp add: tokenExpiry_def)
qed

end
