(* ===== verification/TransferCache.thy ===== *)
theory TransferCache
  imports Schema JsLib
begin

section \<open>Cache headers of file responses\<close>

text \<open>
  backend/src/common/transfer-cache.util.ts: what a CDN may store of a response, its validator, and the expiry of a signed
  link rounded up to a window. SHA-256 is an argument, a function to the hexadecimal digest.
\<close>

datatype cache_scope = SignedScope | PrivateScope
datatype cache_mode = CacheDisabled | CacheRevalidate | CacheFull

record cache_directories =
  cd_mode :: cache_mode
  cd_ttlSeconds :: int

definition modeOfText :: "string \<Rightarrow> cache_mode option" where
  "modeOfText s = map_of [(''disabled'', CacheDisabled), (''revalidate'', CacheRevalidate), (''full'', CacheFull)] s"

text \<open>\<open>None\<close>: the global mode counts.\<close>

definition resolvePublicS3Mode :: "string option \<Rightarrow> cache_mode option" where
  "resolvePublicS3Mode override = (case override of None \<Rightarrow> None | Some s \<Rightarrow> if s = ''inherit'' \<or> s = [] then None else modeOfText s)"

definition TRANSFER_CACHE_MIN_TTL :: int where "TRANSFER_CACHE_MIN_TTL = 30"
definition TRANSFER_CACHE_MAX_TTL :: int where "TRANSFER_CACHE_MAX_TTL = 7 * 24 * 60 * 60"

definition clampTransferCacheTtl :: "int \<Rightarrow> int" where
  "clampTransferCacheTtl raw = (if raw \<le> 0 then 3600 else min (max raw TRANSFER_CACHE_MIN_TTL) TRANSFER_CACHE_MAX_TTL)"

definition transferCacheETag :: "(string \<Rightarrow> string) \<Rightarrow> string \<Rightarrow> int \<Rightarrow> string" where
  "transferCacheETag sha256 fileId sz = CHR 0x22 # ''td-'' @ take 32 (sha256 (fileId @ '':'' @ showInt sz)) @ [CHR 0x22]"

definition dropWeak :: "string \<Rightarrow> string" where
  "dropWeak s = (if jsStartsWith ''W/'' s then drop 2 s else s)"

definition ifNoneMatchSatisfied :: "string option \<Rightarrow> string \<Rightarrow> bool" where
  "ifNoneMatchSatisfied ifNoneMatch etag = (if \<not> present ifNoneMatch then False else
     (let candidate = dropWeak etag in
      list_ex (\<lambda>raw. let h = dropWeak (jsTrim raw) in h = ''*'' \<or> h = candidate) (jsSplit (CHR '','') (the ifNoneMatch))))"

definition cacheControl :: "cache_scope \<Rightarrow> cache_directories \<Rightarrow> string" where
  "cacheControl scope dirs = (if scope = PrivateScope \<or> cd_mode dirs = CacheDisabled then ''private, no-store''
     else if cd_mode dirs = CacheRevalidate then ''no-cache''
     else ''public, max-age='' @ showInt (clampTransferCacheTtl (cd_ttlSeconds dirs)))"

definition computeTransferCacheHeaders :: "(string \<Rightarrow> string) \<Rightarrow> cache_scope \<Rightarrow> cache_directories \<Rightarrow> string \<Rightarrow> int \<Rightarrow> (string \<times> string) list" where
  "computeTransferCacheHeaders sha256 scope dirs fileId sz =
     [(''Cache-Control'', cacheControl scope dirs), (''ETag'', transferCacheETag sha256 fileId sz)]"

definition quantizeTokenExp :: "int \<Rightarrow> int \<Rightarrow> int" where
  "quantizeTokenExp expSeconds windowSeconds = (if windowSeconds \<le> 0 then expSeconds
     else (expSeconds + windowSeconds - 1) div windowSeconds * windowSeconds)"

text \<open>A link lives at least its nominal time and less than one window more; links of one window expire together.\<close>

lemma quantize_window:
  assumes "0 < w"
  shows "e \<le> quantizeTokenExp e w" and "quantizeTokenExp e w < e + w" and "w dvd quantizeTokenExp e w"
    and "w * k < e \<Longrightarrow> e \<le> w * (k + 1) \<Longrightarrow> quantizeTokenExp e w = w * (k + 1)"
proof -
  let ?q = "(e + w - 1) div w"
  have q: "quantizeTokenExp e w = ?q * w" using assms by (simp add: quantizeTokenExp_def)
  have split: "e + w - 1 = ?q * w + (e + w - 1) mod w" by simp
  have m: "0 \<le> (e + w - 1) mod w" "(e + w - 1) mod w < w" using assms by simp_all
  show "e \<le> quantizeTokenExp e w" "quantizeTokenExp e w < e + w" using split m unfolding q by linarith+
  show "w dvd quantizeTokenExp e w" unfolding q by simp
  show "quantizeTokenExp e w = w * (k + 1)" if "w * k < e" "e \<le> w * (k + 1)"
  proof -
    have "?q = k + 1"
      by (rule int_div_pos_eq [where r = "e + w - 1 - w * (k + 1)"]) (use that assms in \<open>simp_all add: algebra_simps\<close>)
    then show ?thesis unfolding q by (simp add: mult.commute)
  qed
qed

lemma uncacheable: "scope = PrivateScope \<or> cd_mode dirs = CacheDisabled \<Longrightarrow> cacheControl scope dirs = ''private, no-store''"
  by (simp add: cacheControl_def)

end
