(* ===== verification/Settings.thy ===== *)
theory Settings
  imports Schema JsLib "HOL-Library.AList"
begin

section \<open>System settings\<close>

text \<open>
  \<^verbatim>\<open>SettingsService\<close> (backend/src/settings/settings.service.ts): the table of settings with its seeds, and the reader that
  keeps parsed values for a while. The cache belongs to one server process; other processes write the table without it.
  Times are milliseconds.
\<close>

subsection \<open>Seeding\<close>

definition DEFAULT_SETTINGS :: "(string \<times> string) list" where
  "DEFAULT_SETTINGS = [(''REGISTRATION_ENABLED'', ''true''), (''DEFAULT_USER_QUOTA'', ''15000000000''),
     (''DEFAULT_GUEST_BANDWIDTH'', ''1000000000''), (''DEFAULT_FILE_DOWNLOAD_LIMIT'', ''0''), (''DEFAULT_DAILY_BANDWIDTH_LIMIT'', ''0''),
     (''ENABLE_MULTI_THREAD_DOWNLOAD'', ''true''), (''MAX_CONCURRENT_CHUNKS'', ''3''), (''DOWNLOAD_URL_TTL_SECONDS'', ''300''),
     (''STREAM_COOKIE_TTL_SECONDS'', ''3600''), (''S3_PUBLIC_ACCESS_ENABLED'', ''true''), (''MAX_BUFFER_FILE_SIZE'', ''52428800''),
     (''MAX_BUFFER_DISK_MB'', ''2048''), (''DISPATCH_CONCURRENCY'', ''0''), (''BUFFER_TTL_HOURS'', ''24''), (''BUFFER_MAX_RETRIES'', ''3'')]"

definition ENV_SEEDED_SETTINGS :: "string list" where
  "ENV_SEEDED_SETTINGS = [''CDN_CACHE_MODE'', ''CDN_CACHE_TTL_SECONDS'', ''CDN_CACHE_WINDOW_SECONDS'', ''CDN_CACHE_MODE_PUBLIC_S3'']"

definition seedSetting :: "string \<Rightarrow> string \<Rightarrow> unit bop" where
  "seedSetting key val = bindOp (getsOp (findSetting key)) (\<lambda>existing. case existing of
     None \<Rightarrow> modifyOp (\<lambda>b. b\<lparr>bk_settings := bk_settings b @ [(key, val)]\<rparr>) | Some _ \<Rightarrow> returnOp ())"

definition settingsInit :: "(string \<Rightarrow> string option) \<Rightarrow> unit bop" where
  "settingsInit env =
     thenOp (forEachOp (\<lambda>(k, v). seedSetting k v) DEFAULT_SETTINGS)
     (thenOp (forEachOp (\<lambda>k. if present (env k) then seedSetting k (the (env k)) else returnOp ()) ENV_SEEDED_SETTINGS)
     (modifyOp (\<lambda>b. b\<lparr>bk_settings := filter (\<lambda>(k, v). k \<notin> {''MAX_BATCH_SIZE'', ''MAX_BATCH_TOTAL_SIZE''}) (bk_settings b)\<rparr>)))"

text \<open>\<open>settingLess\<close> is the order of keys in the database.\<close>

definition settingsFindAll :: "((string \<times> string) list \<Rightarrow> (string \<times> string) list) \<Rightarrow> backend \<Rightarrow> (string \<times> string) list" where
  "settingsFindAll orderByKey b = orderByKey (bk_settings b)"

subsection \<open>Reading through the cache\<close>

text \<open>What parsers give; \<open>None\<close> stands for NaN, \<^verbatim>\<open>null\<close> and \<^verbatim>\<open>undefined\<close>.\<close>

datatype setting_value = NumSetting int | TextSetting string | FlagSetting bool

type_synonym settings_cache = "string \<rightharpoonup> setting_value \<times> int"

record settings_state =
  ss_table :: "(string \<times> string) list"
  ss_cache :: settings_cache

definition settingUpsert :: "string \<Rightarrow> string \<Rightarrow> settings_state \<Rightarrow> settings_state" where
  "settingUpsert key val s = s\<lparr>ss_table := AList.update key val (ss_table s), ss_cache := (ss_cache s)(key := None)\<rparr>"

definition invalidateCache :: "string \<Rightarrow> settings_state \<Rightarrow> settings_state" where
  "invalidateCache key s = s\<lparr>ss_cache := (ss_cache s)(key := None)\<rparr>"

definition DEFAULT_CACHE_TTL_MS :: int where "DEFAULT_CACHE_TTL_MS = 30000"

definition parsedSetting :: "(string \<Rightarrow> setting_value option) \<Rightarrow> setting_value \<Rightarrow> string option \<Rightarrow> setting_value" where
  "parsedSetting parser defaultValue row = (case row of None \<Rightarrow> defaultValue
     | Some text' \<Rightarrow> (case parser text' of None \<Rightarrow> defaultValue | Some v \<Rightarrow> v))"

definition getCachedSetting ::
  "string \<Rightarrow> setting_value \<Rightarrow> (string \<Rightarrow> setting_value option) \<Rightarrow> int option \<Rightarrow> int \<Rightarrow> settings_state \<Rightarrow> setting_value \<times> settings_state" where
  "getCachedSetting key defaultValue parser cacheTtlMs now s = (case ss_cache s key of
     Some (v, expiry) \<Rightarrow> if expiry > now then (v, s) else
       (let v = parsedSetting parser defaultValue (map_of (ss_table s) key) in
        (v, s\<lparr>ss_cache := (ss_cache s)(key \<mapsto> (v, now + (case cacheTtlMs of None \<Rightarrow> DEFAULT_CACHE_TTL_MS | Some t \<Rightarrow> t)))\<rparr>))
   | None \<Rightarrow>
       (let v = parsedSetting parser defaultValue (map_of (ss_table s) key) in
        (v, s\<lparr>ss_cache := (ss_cache s)(key \<mapsto> (v, now + (case cacheTtlMs of None \<Rightarrow> DEFAULT_CACHE_TTL_MS | Some t \<Rightarrow> t)))\<rparr>)))"

text \<open>What happens to the settings of a process: its own reads and writes, and writes of other processes.\<close>

record setting_reader =
  sr_default :: setting_value
  sr_parser :: "string \<Rightarrow> setting_value option"
  sr_ttl :: "int option"

definition readerOf :: "setting_reader \<Rightarrow> string option \<Rightarrow> setting_value" where
  "readerOf r row = parsedSetting (sr_parser r) (sr_default r) row"

definition lifetime :: "setting_reader \<Rightarrow> int" where
  "lifetime r = (case sr_ttl r of None \<Rightarrow> DEFAULT_CACHE_TTL_MS | Some t \<Rightarrow> t)"

datatype settings_event = ReadSetting string | WriteSetting string string | WriteElsewhere string string | Passes nat

fun settingsStep :: "(string \<Rightarrow> setting_reader) \<Rightarrow> settings_event \<Rightarrow> int \<times> settings_state \<Rightarrow> int \<times> settings_state" where
  "settingsStep rd (ReadSetting k) (now, s) =
     (now, snd (getCachedSetting k (sr_default (rd k)) (sr_parser (rd k)) (sr_ttl (rd k)) now s))"
| "settingsStep rd (WriteSetting k v) (now, s) = (now, settingUpsert k v s)"
| "settingsStep rd (WriteElsewhere k v) (now, s) = (now, s\<lparr>ss_table := AList.update k v (ss_table s)\<rparr>)"
| "settingsStep rd (Passes n) (now, s) = (now + int n, s)"


fun settingsTrace :: "(string \<Rightarrow> setting_reader) \<Rightarrow> settings_event list \<Rightarrow> int \<times> settings_state \<Rightarrow> (int \<times> settings_state) list" where
  "settingsTrace rd [] x = [x]"
| "settingsTrace rd (e # es) x = x # settingsTrace rd es (settingsStep rd e x)"

subsection \<open>How old a setting can be\<close>

text \<open>A cached value was right at one of the given moments.\<close>

definition wasRight :: "(string \<Rightarrow> setting_reader) \<Rightarrow> string \<Rightarrow> (int \<times> settings_state) set \<Rightarrow> int \<Rightarrow> setting_value \<Rightarrow> int \<Rightarrow> bool" where
  "wasRight rd k H now v e \<longleftrightarrow> (\<exists>(t, s) \<in> H. t \<le> now \<and> e = t + lifetime (rd k) \<and> v = readerOf (rd k) (map_of (ss_table s) k))"

lemma wasRight_mono: "wasRight rd k H now v e \<Longrightarrow> H \<subseteq> H' \<Longrightarrow> now \<le> now' \<Longrightarrow> wasRight rd k H' now' v e"
  unfolding wasRight_def by (elim bexE) (rule bexI, auto)

definition cachedFrom :: "(string \<Rightarrow> setting_reader) \<Rightarrow> string \<Rightarrow> (int \<times> settings_state) set \<Rightarrow> int \<times> settings_state \<Rightarrow> bool" where
  "cachedFrom rd k H x \<longleftrightarrow> (\<forall>v e. ss_cache (snd x) k = Some (v, e) \<longrightarrow> wasRight rd k H (fst x) v e)"

lemma cachedFrom_step:
  assumes "cachedFrom rd k H x" and "x \<in> H"
  shows "cachedFrom rd k H (settingsStep rd e x)"
proof -
  obtain now s where x: "x = (now, s)" by (cases x)
  show ?thesis
  proof (cases e)
    case (ReadSetting k')
    show ?thesis
    proof (cases "k' = k")
      case True
      have new: "cachedFrom rd k H (now, s\<lparr>ss_cache := (ss_cache s)(k \<mapsto> (readerOf (rd k) (map_of (ss_table s) k), now + lifetime (rd k)))\<rparr>)"
        unfolding cachedFrom_def wasRight_def using assms(2) x by (auto intro!: bexI [of _ x])
      show ?thesis
        using new assms(1) x True ReadSetting
        by (auto simp: getCachedSetting_def readerOf_def lifetime_def Let_def split: option.split)
    qed (use assms x ReadSetting in \<open>auto simp: cachedFrom_def getCachedSetting_def Let_def split: option.split\<close>)
  next
    case (Passes n)
    with assms x show ?thesis by (auto simp: cachedFrom_def intro: wasRight_mono)
  qed (use assms x in \<open>auto simp: cachedFrom_def settingUpsert_def\<close>)
qed

lemma cachedFrom_mono: "cachedFrom rd k H x \<Longrightarrow> H \<subseteq> H' \<Longrightarrow> cachedFrom rd k H' x"
  unfolding cachedFrom_def using wasRight_mono by blast

lemma trace_ends: "settingsTrace rd es x \<noteq> []"
  by (cases es) auto

lemma cachedFrom_trace:
  "cachedFrom rd k H x \<Longrightarrow> cachedFrom rd k (H \<union> set (settingsTrace rd es x)) (last (settingsTrace rd es x))"
proof (induction es arbitrary: x H)
  case Nil
  from cachedFrom_mono [OF this subset_insertI] show ?case by simp
next
  case (Cons e es)
  have "cachedFrom rd k (insert x H) (settingsStep rd e x)"
    by (rule cachedFrom_step [OF cachedFrom_mono [OF Cons.prems]]) auto
  from Cons.IH [OF this] show ?case using trace_ends by simp
qed


definition demoReader :: "string \<Rightarrow> setting_reader" where
  "demoReader k = \<lparr>sr_default = NumSetting 300, sr_parser = (\<lambda>s. map_option NumSetting (jsParseInt s)), sr_ttl = None\<rparr>"

definition demoSettings :: settings_state where
  "demoSettings = \<lparr>ss_table = [(''TTL'', ''60'')], ss_cache = (\<lambda>_. None)\<rparr>"


end
