(* ===== verification/TransferRead.thy ===== *)
theory TransferRead
  imports Tokens TransferCache Settings FolderService
begin

section \<open>Reading files\<close>

text \<open>
  \<^verbatim>\<open>TransferReadService\<close> (backend/src/file/transfer-read.service.ts): who may read a file and by what link, where its bytes
  are, and the responses with a whole file or a range of it. The bytes come from Telegram, one message per chunk, or from
  the temp storage while a file is buffered; what these answer is the argument \<open>read_env\<close>. A body that arrives is a list
  of pieces and whether the stream ended well. Chunks are fetched in order; fetching links ahead only warms a cache and is
  left out. The values that the settings have are arguments as well (\<open>Settings\<close> says what they can be).
\<close>

subsection \<open>Settings\<close>

record read_settings =
  rds_multiThread :: bool
  rds_downloadTtl :: int
  rds_cacheMode :: cache_mode
  rds_cacheTtl :: int
  rds_window :: int
  rds_publicS3 :: string

definition numberReader :: "int \<Rightarrow> setting_reader" where
  "numberReader d = \<lparr>sr_default = NumSetting d, sr_parser = (\<lambda>s. map_option NumSetting (jsParseInt s)), sr_ttl = None\<rparr>"

definition multiThreadReader :: setting_reader where
  "multiThreadReader = \<lparr>sr_default = FlagSetting True, sr_parser = (\<lambda>s. Some (FlagSetting (s \<noteq> ''false''))), sr_ttl = None\<rparr>"

definition cacheModeReader :: setting_reader where
  "cacheModeReader = \<lparr>sr_default = TextSetting ''disabled'',
     sr_parser = (\<lambda>s. Some (TextSetting (if s = ''revalidate'' \<or> s = ''full'' then s else ''disabled''))), sr_ttl = None\<rparr>"

definition getCacheDirectories :: "read_settings \<Rightarrow> cache_directories" where
  "getCacheDirectories st = \<lparr>cd_mode = rds_cacheMode st, cd_ttlSeconds = rds_cacheTtl st\<rparr>"

definition getSignedTokenExpiry :: "read_settings \<Rightarrow> int \<Rightarrow> int \<Rightarrow> int" where
  "getSignedTokenExpiry st now ttlSeconds = (let e = now div 1000 + ttlSeconds in
     if cd_mode (getCacheDirectories st) = CacheDisabled \<or> rds_window st \<le> 0 then e else quantizeTokenExp e (rds_window st))"

subsection \<open>Where the bytes are\<close>

record stored_chunk =
  sk_id :: string
  sk_telegramFileId :: "string option"
  sk_botId :: int
  sk_telegramMessageId :: "int option"
  sk_iv :: "buffer option"
  sk_size :: int
  sk_isBuffered :: bool
  sk_tempStorageKey :: "string option"

datatype download_source =
    FromTemp string
  | FromMessage string int "int option" bool "buffer option" "buffer option"
  | FromChunks "stored_chunk list" bool "buffer option"

record download_info =
  di_fileId :: string
  di_filename :: string
  di_size :: int
  di_mimeType :: string
  di_source :: download_source

definition storedChunk :: "chunk_row \<Rightarrow> stored_chunk" where
  "storedChunk c = \<lparr>sk_id = ck_id c, sk_telegramFileId = ck_telegramFileId c, sk_botId = ck_botId c, sk_telegramMessageId = ck_telegramMessageId c,
     sk_iv = (if present (ck_encryptionIv c) then Some (fromHex (the (ck_encryptionIv c))) else None), sk_size = ck_size c,
     sk_isBuffered = (ck_status c = Buffered), sk_tempStorageKey = ck_tempStorageKey c\<rparr>"

definition getDownloadMetadata :: "block_cipher \<Rightarrow> buffer \<Rightarrow> file_row \<Rightarrow> chunk_row list \<Rightarrow> backend_error + download_info" where
  "getDownloadMetadata E masterSecret f chunks =
    (case (if fr_isEncrypted f \<and> present (fr_encryptedKey f) then map_sum id Some (decryptKey E masterSecret (the (fr_encryptedKey f)))
        else Inr None) of
       Inl e \<Rightarrow> Inl e
     | Inr dek \<Rightarrow> Inr \<lparr>di_fileId = fr_id f, di_filename = fr_filename f, di_size = fr_size f, di_mimeType = fr_mimeType f,
         di_source =
           (if fr_status f = Buffered \<and> present (fr_tempStorageKey f) then FromTemp (the (fr_tempStorageKey f))
            else if \<not> fr_isChunked f \<and> present (fr_telegramFileId f) then
              FromMessage (the (fr_telegramFileId f)) (fr_botId f) (fr_telegramMessageId f) (fr_isEncrypted f) dek
                (if present (fr_encryptionIv f) then Some (fromHex (the (fr_encryptionIv f))) else None)
            else FromChunks (map storedChunk chunks) (fr_isEncrypted f) dek)\<rparr>)"

definition chunkRowsOf :: "string \<Rightarrow> backend \<Rightarrow> chunk_row list" where
  "chunkRowsOf fid b = sort_key ck_chunkIndex (filter (\<lambda>c. ck_fileId c = fid) (bk_chunks b))"

definition metadataOf :: "block_cipher \<Rightarrow> buffer \<Rightarrow> file_row \<Rightarrow> download_info bop" where
  "metadataOf E masterSecret f = bindOp (getsOp (chunkRowsOf (fr_id f))) (\<lambda>chunks.
     case getDownloadMetadata E masterSecret f chunks of Inl e \<Rightarrow> throwOp e | Inr i \<Rightarrow> returnOp i)"

subsection \<open>Who may read\<close>

definition landed :: "file_row \<Rightarrow> bool" where
  "landed f \<longleftrightarrow> fr_status f = Complete \<or> fr_status f = Buffered"

definition readableFile :: "(file_row \<Rightarrow> bool) \<Rightarrow> backend \<Rightarrow> file_row option" where
  "readableFile P b = find (\<lambda>f. P f \<and> landed f \<and> fr_deletedAt f = None) (bk_files b)"

definition fileNotFound :: backend_error where
  "fileNotFound = NotFoundException ''File not found''"

definition orFail :: "backend_error \<Rightarrow> 'a option \<Rightarrow> 'a bop" where
  "orFail e x = (case x of None \<Rightarrow> throwOp e | Some y \<Rightarrow> returnOp y)"

text \<open>common/transfer-url.util.ts; the argument is the value of \<^verbatim>\<open>PUBLIC_TRANSFER_URL\<close>.\<close>

definition getPublicTransferOrigin :: "string option \<Rightarrow> string option" where
  "getPublicTransferOrigin base = (if \<not> present base then None
     else (let normalized = rev (dropWhile (\<lambda>c. c = CHR ''/'') (rev (the base))) in if normalized = [] then None else Some normalized))"

definition buildTransferUrl :: "string option \<Rightarrow> string \<Rightarrow> string" where
  "buildTransferUrl base path = (case getPublicTransferOrigin base of None \<Rightarrow> path | Some u \<Rightarrow> u @ path)"

definition downloadUrl :: "string option \<Rightarrow> string \<Rightarrow> string" where
  "downloadUrl base token = buildTransferUrl base (''/files/d/'' @ token)"

definition generateDownloadToken ::
  "token_env \<Rightarrow> read_settings \<Rightarrow> string option \<Rightarrow> int \<Rightarrow> string \<Rightarrow> string \<Rightarrow> (string \<times> string) bop" where
  "generateDownloadToken env st origin now fileId userId =
     bindOp (getsOp (readableFile (\<lambda>f. fr_id f = fileId \<and> fr_userId f = userId))) (\<lambda>row.
     bindOp (orFail fileNotFound row) (\<lambda>_.
       let ttl = rds_downloadTtl st; expiry = getSignedTokenExpiry st now ttl in
       returnOp (downloadUrl origin (createSignedToken env now fileId ''u'' ttl (Some userId) (Some expiry)), toISOString (expiry * 1000))))"

definition sharedFileRow :: "string \<Rightarrow> file_row bop" where
  "sharedFileRow shareToken = bindOp (getsOp (find (\<lambda>f. fr_shareToken f = Some shareToken) \<circ> bk_files)) (\<lambda>row. case row of
     None \<Rightarrow> throwOp (NotFoundException ''Shared file not found'')
   | Some f \<Rightarrow> if fr_deletedAt f \<noteq> None then throwOp (NotFoundException ''Shared file not found'')
       else if \<not> landed f then throwOp (BadRequestException ''File upload not completed yet'') else returnOp f)"

definition generateShareDownloadToken ::
  "token_env \<Rightarrow> read_settings \<Rightarrow> string option \<Rightarrow> int \<Rightarrow> string \<Rightarrow> (string \<times> string) bop" where
  "generateShareDownloadToken env st origin now shareToken = bindOp (sharedFileRow shareToken) (\<lambda>f.
     let ttl = rds_downloadTtl st; expiry = getSignedTokenExpiry st now ttl in
     returnOp (downloadUrl origin (createSignedToken env now (fr_id f) ''s'' ttl None (Some expiry)), toISOString (expiry * 1000)))"

text \<open>The link to a file below a shared folder (\<^verbatim>\<open>FolderService\<close>).\<close>

definition generateShareFolderDownloadToken ::
  "token_env \<Rightarrow> read_settings \<Rightarrow> string option \<Rightarrow> int \<Rightarrow> string \<Rightarrow> string \<Rightarrow> (string \<times> string) bop" where
  "generateShareFolderDownloadToken env st origin now shareToken fileId =
     bindOp (getsOp (find (\<lambda>d. fld_shareToken d = Some shareToken) \<circ> bk_folders)) (\<lambda>found.
     bindOp (orFail (NotFoundException ''Shared folder not found'') found) (\<lambda>shared.
     thenOp (unlessOp (fld_deletedAt shared = None) (NotFoundException ''Shared folder not found''))
     (bindOp (getsOp (find (\<lambda>f. fr_id f = fileId \<and> fr_deletedAt f = None) \<circ> bk_files)) (\<lambda>row.
     bindOp (orFail fileNotFound row) (\<lambda>f.
     thenOp (unlessOp (fr_status f = Complete) (BadRequestException ''File upload not completed yet''))
     (thenOp (unlessOp (present (fr_folderId f)) (BadRequestException ''File is not part of this shared link''))
     (bindOp (getsOp (\<lambda>b. isDescendantOf b (the (fr_folderId f)) (fld_id shared))) (\<lambda>walk.
     bindOp (orFail Diverges walk) (\<lambda>isChild.
     thenOp (unlessOp isChild (BadRequestException ''File is not part of this shared link''))
     (let ttl = rds_downloadTtl st; expiry = getSignedTokenExpiry st now ttl in
      returnOp (downloadUrl origin (createSignedToken env now fileId ''sf'' ttl None (Some expiry)), toISOString (expiry * 1000))))))))))))"

text \<open>A query for an id that is no string is refused by the database client.\<close>

definition downloadBySignedToken :: "token_env \<Rightarrow> block_cipher \<Rightarrow> buffer \<Rightarrow> int \<Rightarrow> string \<Rightarrow> download_info bop" where
  "downloadBySignedToken env E masterSecret now token = (case verifySignedToken env now token of
     None \<Rightarrow> throwOp (UnauthorizedException ''Invalid or expired download link'')
   | Some payload \<Rightarrow> (case sp_fid payload of
       JStr fid \<Rightarrow> bindOp (getsOp (readableFile (\<lambda>f. fr_id f = fid))) (\<lambda>row.
         bindOp (orFail fileNotFound row) (metadataOf E masterSecret))
     | _ \<Rightarrow> throwOp (PlainError ''PrismaClientValidationError'')))"

definition getStreamInfoByOwner :: "block_cipher \<Rightarrow> buffer \<Rightarrow> string \<Rightarrow> string \<Rightarrow> download_info bop" where
  "getStreamInfoByOwner E masterSecret fileId cookieSubject =
     bindOp (getsOp (readableFile (\<lambda>f. fr_id f = fileId \<and> fr_userId f = cookieSubject))) (\<lambda>row.
       bindOp (orFail fileNotFound row) (metadataOf E masterSecret))"

definition getStreamInfoByGuest :: "block_cipher \<Rightarrow> buffer \<Rightarrow> string \<Rightarrow> download_info bop" where
  "getStreamInfoByGuest E masterSecret fileId =
     bindOp (getsOp (readableFile (\<lambda>f. fr_id f = fileId \<and> fr_visibility f = PUBLIC_LINK))) (\<lambda>row.
       bindOp (orFail (NotFoundException ''File not found or not shared'') row) (metadataOf E masterSecret))"

definition getDownloadInfoByToken :: "block_cipher \<Rightarrow> buffer \<Rightarrow> string \<Rightarrow> download_info bop" where
  "getDownloadInfoByToken E masterSecret token = bindOp (sharedFileRow token) (metadataOf E masterSecret)"

definition getDownloadInfo :: "block_cipher \<Rightarrow> buffer \<Rightarrow> string \<Rightarrow> string \<Rightarrow> download_info bop" where
  "getDownloadInfo E masterSecret fileId userId =
     bindOp (getsOp (find (\<lambda>f. fr_id f = fileId \<and> fr_userId f = userId \<and> fr_deletedAt f = None) \<circ> bk_files)) (\<lambda>row.
     bindOp (orFail fileNotFound row) (\<lambda>f.
       if \<not> landed f then throwOp (BadRequestException ''File upload not completed yet'') else metadataOf E masterSecret f))"


subsection \<open>The response\<close>

text \<open>
  What Express's response object has been told. Its headers leave with the first byte of the body or with its end; a text
  that is sent as a message is kept apart, since Express adds headers of its own. Node refuses a header with a control
  character or a character above U+00FF, whose first byte in UTF-8 is at least 0xC4.
\<close>

record response =
  rsp_status :: int
  rsp_headers :: "string \<Rightarrow> string option"
  rsp_body :: buffer
  rsp_message :: "string option"
  rsp_sent :: bool
  rsp_ended :: bool
  rsp_revalidated :: bool

definition freshResponse :: response where
  "freshResponse = \<lparr>rsp_status = 200, rsp_headers = (\<lambda>_. None), rsp_body = [], rsp_message = None, rsp_sent = False, rsp_ended = False,
     rsp_revalidated = False\<rparr>"

record read_state =
  rs_backend :: backend
  rs_response :: response

type_synonym 'a rop = "(read_state, backend_error, 'a) op"

definition onResponse :: "(response \<Rightarrow> response) \<Rightarrow> unit rop" where
  "onResponse f = modifyOp (\<lambda>s. s\<lparr>rs_response := f (rs_response s)\<rparr>)"

definition headerChar :: "char \<Rightarrow> bool" where
  "headerChar c \<longleftrightarrow> of_char c = (9 :: nat) \<or> 32 \<le> (of_char c :: nat) \<and> of_char c \<noteq> (127 :: nat) \<and> of_char c < (196 :: nat)"

definition setHeader :: "string \<Rightarrow> string \<Rightarrow> unit rop" where
  "setHeader name v = thenOp (unlessOp (list_all headerChar v) (PlainError ''ERR_INVALID_CHAR''))
     (onResponse (\<lambda>r. r\<lparr>rsp_headers := (rsp_headers r)(name \<mapsto> v)\<rparr>))"

definition setStatus :: "int \<Rightarrow> unit rop" where
  "setStatus n = onResponse (\<lambda>r. r\<lparr>rsp_status := n\<rparr>)"

definition endResponse :: "unit rop" where
  "endResponse = onResponse (\<lambda>r. r\<lparr>rsp_sent := True, rsp_ended := True\<rparr>)"

definition sendMessage :: "int \<Rightarrow> string \<Rightarrow> unit rop" where
  "sendMessage status msg = onResponse (\<lambda>r. r\<lparr>rsp_status := status, rsp_message := Some msg, rsp_sent := True, rsp_ended := True\<rparr>)"

definition writeBody :: "buffer \<Rightarrow> unit rop" where
  "writeBody bs = onResponse (\<lambda>r. r\<lparr>rsp_body := rsp_body r @ bs, rsp_sent := (rsp_sent r \<or> bs \<noteq> [])\<rparr>)"

text \<open>The catch blocks: a plain 500 when nothing has left yet, otherwise the response just ends.\<close>

definition failResponse :: "unit rop" where
  "failResponse = bindOp (getsOp (rsp_sent \<circ> rs_response)) (\<lambda>sent.
     if \<not> sent then thenOp (setStatus 500) endResponse else endResponse)"

subsection \<open>The storage\<close>

text \<open>
  A stream is the pieces that arrive and, when it breaks off, the error. The argument answers for one request: whether a
  bot is known, the link of a file id, a message forwarded for a new file id, a fetch with an inclusive byte range, with
  its \<^verbatim>\<open>ok\<close> flag and body, and a read of the temp storage.
\<close>

type_synonym byte_stream = "buffer list \<times> backend_error option"

record read_env =
  rv_cipher :: block_cipher
  rv_sha256 :: "string \<Rightarrow> string"
  rv_botAvailable :: "int \<Rightarrow> bool"
  rv_mainBot :: int
  rv_fileLink :: "string option \<Rightarrow> int \<Rightarrow> backend_error + string"
  rv_recover :: "int \<Rightarrow> backend_error + (string \<times> int)"
  rv_fetch :: "string \<Rightarrow> (int \<times> int) option \<Rightarrow> backend_error + (bool \<times> byte_stream option)"
  rv_temp :: "string \<Rightarrow> (int \<times> int) option \<Rightarrow> backend_error + byte_stream"

definition liftSum :: "backend_error + 'a \<Rightarrow> 'a rop" where
  "liftSum r = (case r of Inl e \<Rightarrow> throwOp e | Inr x \<Rightarrow> returnOp x)"

definition recoveredChunk :: "string \<Rightarrow> string \<Rightarrow> int \<Rightarrow> backend \<Rightarrow> backend" where
  "recoveredChunk chunkDbId newFileId newBotId b =
     b\<lparr>bk_chunks := updateWhere (\<lambda>c. ck_id c = chunkDbId) (\<lambda>c. c\<lparr>ck_telegramFileId := Some newFileId, ck_botId := newBotId\<rparr>) (bk_chunks b)\<rparr>"

text \<open>A chunk row that is gone makes the update fail, which is only logged.\<close>

definition resolveFileLink :: "read_env \<Rightarrow> string option \<Rightarrow> int \<Rightarrow> int option \<Rightarrow> string option \<Rightarrow> string rop" where
  "resolveFileLink env telegramFileId botId messageId chunkDbId =
    (if rv_botAvailable env botId then liftSum (rv_fileLink env telegramFileId botId)
     else case rv_fileLink env telegramFileId (rv_mainBot env) of
       Inr url \<Rightarrow> returnOp url
     | Inl _ \<Rightarrow>
        (if messageId = None \<or> messageId = Some 0 then throwOp (PlainError ''Bot unavailable and no messageId for recovery'')
         else bindOp (liftSum (rv_recover env (the messageId))) (\<lambda>(newFileId, newBotId).
           thenOp (whenOp (present chunkDbId)
               (modifyOp (\<lambda>s. s\<lparr>rs_backend := recoveredChunk (the chunkDbId) newFileId newBotId (rs_backend s)\<rparr>)))
             (liftSum (rv_fileLink env (Some newFileId) newBotId)))))"

text \<open>The stream goes through the decryption, if any, into the response; on an error the response ends and the error is thrown.\<close>

definition pipeStreamToResponse :: "read_env \<Rightarrow> byte_stream \<Rightarrow> (buffer \<times> buffer \<times> int) option \<Rightarrow> bool \<Rightarrow> unit rop" where
  "pipeStreamToResponse env stream decrypt endAfter =
     bindOp (case decrypt of None \<Rightarrow> returnOp (concat (fst stream))
       | Some (dek, iv, off) \<Rightarrow> liftSum (createOffsetDecryptStream (rv_cipher env) dek iv (nat off) (fst stream))) (\<lambda>out.
     thenOp (writeBody out)
     (case snd stream of Some e \<Rightarrow> thenOp endResponse (throwOp e) | None \<Rightarrow> whenOp endAfter endResponse))"

definition applyTransferCacheHeaders ::
  "read_env \<Rightarrow> read_settings \<Rightarrow> download_info \<Rightarrow> cache_scope option \<Rightarrow> string option \<Rightarrow> bool \<Rightarrow> bool rop" where
  "applyTransferCacheHeaders env st info scopeArg ifNoneMatch publicS3 = (if di_fileId info = [] then returnOp False else
     (let scope = (case scopeArg of None \<Rightarrow> PrivateScope | Some x \<Rightarrow> x); baseDirs = getCacheDirectories st;
          mode = (if publicS3 \<and> scope = SignedScope
            then (case resolvePublicS3Mode (Some (rds_publicS3 st)) of Some m \<Rightarrow> m | None \<Rightarrow> cd_mode baseDirs) else cd_mode baseDirs);
          dirs = \<lparr>cd_mode = mode, cd_ttlSeconds = cd_ttlSeconds baseDirs\<rparr>;
          headers = map_of (computeTransferCacheHeaders (rv_sha256 env) scope dirs (di_fileId info) (di_size info)) in
      thenOp (setHeader ''Cache-Control'' (the (headers ''Cache-Control'')))
      (thenOp (setHeader ''ETag'' (the (headers ''ETag'')))
      (if mode \<noteq> CacheDisabled \<and> scope = SignedScope \<and> ifNoneMatchSatisfied ifNoneMatch (the (headers ''ETag''))
       then thenOp (onResponse (\<lambda>r. r\<lparr>rsp_revalidated := True\<rparr>)) (thenOp (setStatus 304) (thenOp endResponse (returnOp True)))
       else returnOp False))))"

definition quotedFilename :: "string \<Rightarrow> string" where
  "quotedFilename s = concat (map (\<lambda>c. if c = CHR 0x5C \<or> c = CHR 0x22 then [CHR 0x5C, c] else [c]) s)"

definition attachmentHeader :: "string \<Rightarrow> string" where
  "attachmentHeader filename = ''attachment; filename='' @ CHR 0x22 # quotedFilename filename @ CHR 0x22 # ''; filename*=UTF-8'' @ [CHR 0x27, CHR 0x27] @
     encodeURIComponent filename"


subsection \<open>A range\<close>

text \<open>\<^verbatim>\<open>/bytes=(\d+)-(\d*)/\<close>, matched anywhere in the header; the second number may be missing.\<close>

definition rangeHere :: "string \<Rightarrow> (int \<times> int option) option" where
  "rangeHere s = (if \<not> jsStartsWith ''bytes='' s then None else
     (let (ds, r) = takeDigits (drop 6 s) in
      if ds = [] \<or> r = [] \<or> hd r \<noteq> CHR ''-'' then None
      else (let es = takeWhile jsDigit (tl r) in Some (int (baseVal 10 ds), if es = [] then None else Some (int (baseVal 10 es))))))"

fun rangeMatch :: "string \<Rightarrow> (int \<times> int option) option" where
  "rangeMatch [] = None"
| "rangeMatch (c # s) = (case rangeHere (c # s) of Some m \<Rightarrow> Some m | None \<Rightarrow> rangeMatch s)"

definition requestedRange :: "string option \<Rightarrow> int \<Rightarrow> int \<times> int" where
  "requestedRange rangeHeader fileSize = (case (if present rangeHeader then rangeMatch (the rangeHeader) else None) of
     None \<Rightarrow> (0, fileSize - 1) | Some (s, e) \<Rightarrow> (s, case e of None \<Rightarrow> fileSize - 1 | Some x \<Rightarrow> x))"

record chunk_request =
  cr_chunk :: stored_chunk
  cr_fetchStart :: int
  cr_fetchEnd :: int

text \<open>The chunks that meet the range and the part of each, from the bytes before the chunk on.\<close>

fun planChunks :: "int \<Rightarrow> int \<Rightarrow> int \<Rightarrow> stored_chunk list \<Rightarrow> chunk_request list" where
  "planChunks start end' currentOffset [] = []"
| "planChunks start end' currentOffset (c # cs) =
    (let chunkStart = currentOffset; chunkEnd = currentOffset + sk_size c - 1 in
     (if start \<le> chunkEnd \<and> chunkStart \<le> end'
      then [\<lparr>cr_chunk = c, cr_fetchStart = max start chunkStart - chunkStart, cr_fetchEnd = min end' chunkEnd - chunkStart\<rparr>] else []) @
     planChunks start end' (currentOffset + sk_size c) cs)"

definition fetchBody :: "read_env \<Rightarrow> string \<Rightarrow> (int \<times> int) option \<Rightarrow> byte_stream option rop" where
  "fetchBody env url r = bindOp (liftSum (rv_fetch env url r)) (\<lambda>(ok, body). returnOp (if ok then body else None))"

definition chunkStream :: "read_env \<Rightarrow> stored_chunk \<Rightarrow> (int \<times> int) option \<Rightarrow> byte_stream rop" where
  "chunkStream env c r = (if sk_isBuffered c \<and> present (sk_tempStorageKey c) then liftSum (rv_temp env (the (sk_tempStorageKey c)) r)
     else bindOp (resolveFileLink env (sk_telegramFileId c) (sk_botId c) (sk_telegramMessageId c) (Some (sk_id c))) (\<lambda>url.
       bindOp (fetchBody env url r) (\<lambda>body. case body of None \<Rightarrow> throwOp (PlainError ''Fetch chunk error'') | Some st \<Rightarrow> returnOp st)))"

definition decryptWith :: "bool \<Rightarrow> buffer option \<Rightarrow> buffer option \<Rightarrow> int \<Rightarrow> (buffer \<times> buffer \<times> int) option" where
  "decryptWith enc dek iv off = (case (enc, dek, iv) of (True, Some d, Some i) \<Rightarrow> Some (d, i, off) | _ \<Rightarrow> None)"

definition rangeStart :: "(int \<times> int) option \<Rightarrow> int" where
  "rangeStart r = (case r of None \<Rightarrow> 0 | Some (start, e) \<Rightarrow> start)"

definition pipeChunk :: "read_env \<Rightarrow> bool \<Rightarrow> buffer option \<Rightarrow> stored_chunk \<Rightarrow> (int \<times> int) option \<Rightarrow> unit rop" where
  "pipeChunk env enc dek c r = bindOp (chunkStream env c r) (\<lambda>stream.
     pipeStreamToResponse env stream (decryptWith (\<not> sk_isBuffered c \<and> enc) dek (sk_iv c) (rangeStart r)) False)"

text \<open>A catch block around what serves the body.\<close>

definition orFailResponse :: "unit rop \<Rightarrow> unit rop" where
  "orFailResponse m = catchOp m (\<lambda>_. failResponse)"

text \<open>
  A link that cannot be resolved, or a fetch that throws, leaves the handler when the file is one message; a refusal from
  Telegram is answered here.
\<close>

definition serveRange :: "read_env \<Rightarrow> download_info \<Rightarrow> int \<Rightarrow> int \<Rightarrow> unit rop" where
  "serveRange env info start end' = (case di_source info of
     FromTemp key \<Rightarrow> orFailResponse (bindOp (liftSum (rv_temp env key (Some (start, end')))) (\<lambda>stream. pipeStreamToResponse env stream None True))
   | FromMessage fileId botId messageId enc dek iv \<Rightarrow>
       bindOp (resolveFileLink env (Some fileId) botId messageId None) (\<lambda>url.
       bindOp (fetchBody env url (Some (start, end'))) (\<lambda>body. case body of
         None \<Rightarrow> thenOp (setStatus 500) endResponse
       | Some stream \<Rightarrow> orFailResponse (pipeStreamToResponse env stream (decryptWith enc dek iv start) True)))
   | FromChunks chunks enc dek \<Rightarrow>
       orFailResponse (thenOp (forEachOp (\<lambda>q. pipeChunk env enc dek (cr_chunk q) (Some (cr_fetchStart q, cr_fetchEnd q)))
         (planChunks start end' 0 chunks)) endResponse))"

definition processRangeRequest :: "read_env \<Rightarrow> download_info \<Rightarrow> string option \<Rightarrow> bool \<Rightarrow> unit rop" where
  "processRangeRequest env info rangeHeader attachment =
    (let fileSize = di_size info; (start, e) = requestedRange rangeHeader fileSize in
     if fileSize \<le> start then
       thenOp (setStatus 416) (thenOp (setHeader ''Content-Range'' (''bytes */'' @ showInt fileSize)) endResponse)
     else (let end' = min e (fileSize - 1); contentLength = end' - start + 1 in
       thenOp (if present rangeHeader
           then thenOp (setStatus 206) (setHeader ''Content-Range'' (''bytes '' @ showInt start @ ''-'' @ showInt end' @ ''/'' @ showInt fileSize))
           else setStatus 200)
      (thenOp (setHeader ''Accept-Ranges'' ''bytes'')
      (thenOp (setHeader ''Content-Length'' (showInt contentLength))
      (thenOp (setHeader ''Content-Type'' (if di_mimeType info = [] then ''application/octet-stream'' else di_mimeType info))
      (thenOp (setHeader ''Content-Disposition'' (if attachment then attachmentHeader (di_filename info) else ''inline''))
         (serveRange env info start end')))))))"

subsection \<open>Whole files and streams\<close>

definition serveWhole :: "read_env \<Rightarrow> download_info \<Rightarrow> unit rop" where
  "serveWhole env info = (case di_source info of
     FromTemp key \<Rightarrow> orFailResponse (bindOp (liftSum (rv_temp env key None)) (\<lambda>stream. pipeStreamToResponse env stream None True))
   | FromMessage fileId botId messageId enc dek iv \<Rightarrow>
       bindOp (resolveFileLink env (Some fileId) botId messageId None) (\<lambda>url.
       bindOp (fetchBody env url None) (\<lambda>body. case body of
         None \<Rightarrow> sendMessage 500 ''Trich xuat file tu Telegram that bai''
       | Some stream \<Rightarrow> orFailResponse (pipeStreamToResponse env stream (decryptWith enc dek iv 0) True)))
   | FromChunks chunks enc dek \<Rightarrow>
       catchOp (thenOp (forEachOp (\<lambda>c. pipeChunk env enc dek c None) chunks) endResponse) (\<lambda>_.
         bindOp (getsOp (rsp_sent \<circ> rs_response)) (\<lambda>sent.
           if \<not> sent then sendMessage 500 ''Loi khi ghep file tu Telegram'' else endResponse)))"

definition processDownload ::
  "read_env \<Rightarrow> read_settings \<Rightarrow> download_info \<Rightarrow> string option \<Rightarrow> cache_scope option \<Rightarrow> string option \<Rightarrow> bool \<Rightarrow> unit rop" where
  "processDownload env st info rangeHeader scope ifNoneMatch publicS3 =
     bindOp (applyTransferCacheHeaders env st info scope ifNoneMatch publicS3) (\<lambda>served. if served then returnOp ()
     else if present rangeHeader \<and> rds_multiThread st then processRangeRequest env info rangeHeader True
     else thenOp (setHeader ''Content-Disposition'' (attachmentHeader (di_filename info)))
      (thenOp (setHeader ''Content-Type'' ''application/octet-stream'')
      (thenOp (setHeader ''Content-Length'' (showInt (di_size info)))
      (thenOp (whenOp (rds_multiThread st) (setHeader ''Accept-Ranges'' ''bytes''))
         (serveWhole env info)))))"

definition processStream ::
  "read_env \<Rightarrow> read_settings \<Rightarrow> download_info \<Rightarrow> string option \<Rightarrow> cache_scope option \<Rightarrow> string option \<Rightarrow> bool \<Rightarrow> unit rop" where
  "processStream env st info rangeHeader scope ifNoneMatch publicS3 =
     bindOp (applyTransferCacheHeaders env st info scope ifNoneMatch publicS3) (\<lambda>served. if served then returnOp ()
       else processRangeRequest env info rangeHeader False)"


subsection \<open>What the storage holds\<close>

definition slice :: "int \<Rightarrow> int \<Rightarrow> buffer \<Rightarrow> buffer" where
  "slice s e bs = take (nat (e + 1 - max 0 s)) (drop (nat s) bs)"

lemma slice_append: "slice s e (p @ q) = slice s e p @ slice (s - int (length p)) (e - int (length p)) q"
proof -
  let ?n = "int (length p)"
  have "nat s - length p = nat (s - ?n)" by simp
  moreover have "nat (e + 1 - max 0 s) - (length p - nat s) = nat (e - ?n + 1 - max 0 (s - ?n))"
    by (cases "s < 0"; cases "s < ?n") (simp_all add: max_def)
  ultimately show ?thesis by (simp only: slice_def drop_append take_append length_drop)
qed

lemma slice_Nil [simp]: "slice s e [] = []"
  by (simp add: slice_def)

lemma slice_clip: "s \<le> e \<Longrightarrow> s < int (length p) \<Longrightarrow> 0 \<le> e \<Longrightarrow> slice s e p = slice (max s 0) (min e (int (length p) - 1)) p"
  by (auto simp: slice_def min_def max_def)

lemma slice_before: "int (length p) \<le> s \<or> e < 0 \<Longrightarrow> slice s e p = []"
  by (auto simp: slice_def)

lemma slice_all: "int (length p) = n \<Longrightarrow> slice 0 (n - 1) p = p"
  by (simp add: slice_def)

lemma length_slice: "0 \<le> s \<Longrightarrow> s \<le> e \<Longrightarrow> e < int (length p) \<Longrightarrow> int (length (slice s e p)) = e - s + 1"
  by (simp add: slice_def)

text \<open>A stream source that answers ranges, and what a fetched message must hold.\<close>

definition pieceOf :: "(int \<times> int) option \<Rightarrow> buffer \<Rightarrow> buffer" where
  "pieceOf r bs = (case r of None \<Rightarrow> bs | Some (s, e) \<Rightarrow> slice s e bs)"

definition rangeOk :: "(int \<times> int) option \<Rightarrow> buffer \<Rightarrow> bool" where
  "rangeOk r bs = (case r of None \<Rightarrow> True | Some (s, e) \<Rightarrow> 0 \<le> s \<and> s \<le> e \<and> e < int (length bs))"

definition answersRanges :: "((int \<times> int) option \<Rightarrow> backend_error + byte_stream) \<Rightarrow> buffer \<Rightarrow> bool" where
  "answersRanges get content \<longleftrightarrow> (\<forall>r. rangeOk r content \<longrightarrow> (\<exists>ps. get r = Inr (ps, None) \<and> concat ps = pieceOf r content))"

definition okBody :: "backend_error + (bool \<times> byte_stream option) \<Rightarrow> backend_error + byte_stream" where
  "okBody r = (case r of Inr (True, Some st) \<Rightarrow> Inr st | _ \<Rightarrow> Inl (PlainError ''no body''))"

definition linkOf :: "read_env \<Rightarrow> string option \<Rightarrow> int \<Rightarrow> int option \<Rightarrow> backend_error + string" where
  "linkOf env fileId botId msg = (if rv_botAvailable env botId then rv_fileLink env fileId botId
     else case rv_fileLink env fileId (rv_mainBot env) of Inr url \<Rightarrow> Inr url
     | Inl _ \<Rightarrow> if msg = None \<or> msg = Some 0 then Inl (PlainError ''Bot unavailable and no messageId for recovery'')
        else case rv_recover env (the msg) of Inl e \<Rightarrow> Inl e | Inr (f, b) \<Rightarrow> rv_fileLink env (Some f) b)"

definition messageHolds :: "read_env \<Rightarrow> string option \<Rightarrow> int \<Rightarrow> int option \<Rightarrow> buffer \<Rightarrow> bool" where
  "messageHolds env fileId botId msg stored \<longleftrightarrow> (\<exists>url. linkOf env fileId botId msg = Inr url \<and> answersRanges (okBody \<circ> rv_fetch env url) stored)"

definition storedAs :: "block_cipher \<Rightarrow> bool \<Rightarrow> buffer option \<Rightarrow> buffer option \<Rightarrow> buffer \<Rightarrow> buffer \<Rightarrow> bool" where
  "storedAs E enc dek iv plain stored \<longleftrightarrow> (if enc then \<exists>d i. dek = Some d \<and> iv = Some i \<and> ctrCrypt E d i plain = Inr stored else stored = plain)"

definition chunkHolds :: "read_env \<Rightarrow> bool \<Rightarrow> buffer option \<Rightarrow> stored_chunk \<Rightarrow> buffer \<Rightarrow> bool" where
  "chunkHolds env enc dek c plain \<longleftrightarrow> plain \<noteq> [] \<and> sk_size c = int (length plain) \<and>
     (if sk_isBuffered c then present (sk_tempStorageKey c) \<and> answersRanges (rv_temp env (the (sk_tempStorageKey c))) plain
      else \<exists>stored. messageHolds env (sk_telegramFileId c) (sk_botId c) (sk_telegramMessageId c) stored \<and>
        storedAs (rv_cipher env) enc dek (sk_iv c) plain stored)"

definition sourceHolds :: "read_env \<Rightarrow> download_source \<Rightarrow> buffer \<Rightarrow> bool" where
  "sourceHolds env src plain = (case src of
     FromTemp key \<Rightarrow> answersRanges (rv_temp env key) plain
   | FromMessage fileId botId msg enc dek iv \<Rightarrow>
       (\<exists>stored. messageHolds env (Some fileId) botId msg stored \<and> storedAs (rv_cipher env) enc dek iv plain stored)
   | FromChunks chunks enc dek \<Rightarrow> (\<exists>parts. list_all2 (chunkHolds env enc dek) chunks parts \<and> concat parts = plain))"

subsection \<open>Bytes written\<close>

text \<open>The response after more of the body; the backend may have recovered a file id meanwhile.\<close>

definition wrote :: "buffer \<Rightarrow> read_state \<Rightarrow> read_state \<Rightarrow> bool" where
  "wrote bs st st' \<longleftrightarrow> rs_response st' =
     (rs_response st)\<lparr>rsp_body := rsp_body (rs_response st) @ bs, rsp_sent := (rsp_sent (rs_response st) \<or> bs \<noteq> [])\<rparr>"

definition writes :: "unit rop \<Rightarrow> buffer \<Rightarrow> bool" where
  "writes m bs \<longleftrightarrow> (\<forall>st. \<exists>st'. m st = (Inr (), st') \<and> wrote bs st st')"

lemma wrote_refl: "wrote [] st st"
  by (simp add: wrote_def)

lemma wrote_trans: "wrote as s1 s2 \<Longrightarrow> wrote bs s2 s3 \<Longrightarrow> wrote (as @ bs) s1 s3"
  by (simp add: wrote_def)

lemma then_Inr: "m s = (Inr x, s') \<Longrightarrow> thenOp m k s = k s'"
  by (simp add: op_unfold)

lemma bind_Inr: "m s = (Inr x, s') \<Longrightarrow> bindOp m k s = k x s'"
  by (simp add: op_unfold)

lemma writes_then: "writes m as \<Longrightarrow> writes m' bs \<Longrightarrow> writes (thenOp m m') (as @ bs)"
  unfolding writes_def by (metis wrote_trans then_Inr)

lemma resolve_link: "linkOf env f b m = Inr url \<Longrightarrow> \<exists>st'. resolveFileLink env f b m c st = (Inr url, st') \<and> rs_response st' = rs_response st"
  by (auto simp: linkOf_def resolveFileLink_def liftSum_def op_unfold split: if_splits sum.splits prod.splits)


lemma pipe_writes: "decrypt = None \<Longrightarrow> writes (pipeStreamToResponse env (ps, None) decrypt False) (concat ps)"
  by (auto simp: writes_def wrote_def pipeStreamToResponse_def writeBody_def onResponse_def op_unfold)

lemma pipe_decrypts:
  "createOffsetDecryptStream (rv_cipher env) dek iv (nat off) ps = Inr bs \<Longrightarrow>
    writes (pipeStreamToResponse env (ps, None) (Some (dek, iv, off)) False) bs"
  by (auto simp: writes_def wrote_def pipeStreamToResponse_def liftSum_def writeBody_def onResponse_def op_unfold)

lemma ok_body: "okBody r = Inr st \<Longrightarrow> r = Inr (True, Some st)"
  by (auto simp: okBody_def split: sum.splits prod.splits option.splits bool.splits)

lemma stored_length: "storedAs E enc dek iv plain stored \<Longrightarrow> length stored = length plain"
  by (auto simp: storedAs_def ctrCrypt_def cipherWrite_def createCipheriv_def split: if_splits)

lemma pieceOf_slice: "rangeOk r bs \<Longrightarrow> \<exists>n. pieceOf r bs = take n (drop (nat (rangeStart r)) bs) \<and>
    (\<forall>cs. length cs = length bs \<longrightarrow> pieceOf r cs = take n (drop (nat (rangeStart r)) cs))"
proof (cases r)
  case None
  then show ?thesis by (intro exI [of _ "length bs"]) (simp add: pieceOf_def rangeStart_def)
next
  case (Some se)
  moreover assume "rangeOk r bs"
  ultimately show ?thesis
    by (cases se) (auto simp: pieceOf_def rangeStart_def slice_def rangeOk_def intro!: exI [of _ "nat (snd se + 1 - fst se)"])
qed

lemma stored_piece:
  assumes "storedAs (rv_cipher env) enc dek iv plain stored" and "concat ps = pieceOf r stored" and "rangeOk r stored"
  shows "writes (pipeStreamToResponse env (ps, None) (decryptWith enc dek iv (rangeStart r)) False) (pieceOf r plain)"
proof (cases enc)
  case True
  with assms(1) obtain d i where di: "dek = Some d" "iv = Some i" and c: "ctrCrypt (rv_cipher env) d i plain = Inr stored"
    by (auto simp: storedAs_def)
  from pieceOf_slice [OF assms(3)] stored_length [OF assms(1)] obtain n where
    "pieceOf r stored = take n (drop (nat (rangeStart r)) stored)" "pieceOf r plain = take n (drop (nat (rangeStart r)) plain)" by metis
  with offset_stream_decrypts [OF c] assms(2)
  have "createOffsetDecryptStream (rv_cipher env) d i (nat (rangeStart r)) ps = Inr (pieceOf r plain)" by simp
  with True di show ?thesis by (simp add: decryptWith_def pipe_decrypts)
next
  case False
  with assms pipe_writes [of None env ps] show ?thesis by (simp add: decryptWith_def storedAs_def)
qed

lemma message_piece:
  assumes "messageHolds env f botId msg stored" and "rangeOk r stored"
  obtains url ps where "linkOf env f botId msg = Inr url" and "rv_fetch env url r = Inr (True, Some (ps, None))"
    and "concat ps = pieceOf r stored"
  using assms unfolding messageHolds_def answersRanges_def by (metis comp_apply ok_body)

lemma chunk_piece:
  assumes "chunkHolds env enc dek c plain" and "rangeOk r plain"
  shows "writes (pipeChunk env enc dek c r) (pieceOf r plain)"
proof (cases "sk_isBuffered c")
  case True
  with assms obtain ps where "rv_temp env (the (sk_tempStorageKey c)) r = Inr (ps, None)" "concat ps = pieceOf r plain"
    by (auto simp: chunkHolds_def answersRanges_def)
  with True assms(1) pipe_writes [of None env ps] show ?thesis
    by (simp add: pipeChunk_def chunkStream_def chunkHolds_def liftSum_def decryptWith_def writes_def op_unfold)
next
  case False
  with assms(1) obtain stored where m: "messageHolds env (sk_telegramFileId c) (sk_botId c) (sk_telegramMessageId c) stored"
    and st: "storedAs (rv_cipher env) enc dek (sk_iv c) plain stored" by (auto simp: chunkHolds_def)
  from assms(2) stored_length [OF st] have r: "rangeOk r stored" by (auto simp: rangeOk_def split: option.splits)
  from message_piece [OF m r] obtain url ps where url: "linkOf env (sk_telegramFileId c) (sk_botId c) (sk_telegramMessageId c) = Inr url"
    and ps: "rv_fetch env url r = Inr (True, Some (ps, None))" "concat ps = pieceOf r stored" by metis
  show ?thesis unfolding writes_def
  proof
    fix s
    obtain s' where s': "resolveFileLink env (sk_telegramFileId c) (sk_botId c) (sk_telegramMessageId c) (Some (sk_id c)) s = (Inr url, s')"
      "rs_response s' = rs_response s" using resolve_link [OF url] by blast
    moreover obtain s'' where "pipeStreamToResponse env (ps, None) (decryptWith enc dek (sk_iv c) (rangeStart r)) False s' = (Inr (), s'')"
      "wrote (pieceOf r plain) s' s''" using stored_piece [OF st ps(2) r] by (auto simp: writes_def)
    ultimately show "\<exists>st'. pipeChunk env enc dek c r s = (Inr (), st') \<and> wrote (pieceOf r plain) s st'"
      using False ps(1) by (simp add: pipeChunk_def chunkStream_def fetchBody_def liftSum_def op_unfold wrote_def)
  qed
qed

lemma writes_return: "writes (returnOp ()) []"
  by (simp add: writes_def returnOp_def wrote_refl)

lemma chunk_slice:
  assumes "chunkHolds env enc dek c p" and "0 \<le> a" and "a \<le> b" and "b < int (length p)"
  shows "writes (pipeChunk env enc dek c (Some (a, b))) (slice a b p)"
  using chunk_piece [OF assms(1), of "Some (a, b)"] assms(2-4) by (simp add: rangeOk_def pieceOf_def)

lemma plan_writes:
  assumes "list_all2 (chunkHolds env enc dek) cs ps" and "s \<le> e" and "0 \<le> e"
  shows "writes (forEachOp (\<lambda>q. pipeChunk env enc dek (cr_chunk q) (Some (cr_fetchStart q, cr_fetchEnd q))) (planChunks s e off cs))
    (slice (s - off) (e - off) (concat ps))"
  using assms(1)
proof (induction cs ps arbitrary: off rule: list_all2_induct)
  case Nil
  then show ?case by (simp add: writes_return)
next
  case (Cons c cs p ps)
  then have n: "sk_size c = int (length p)" "p \<noteq> []" by (auto simp: chunkHolds_def)
  have rest: "slice (s - off) (e - off) (concat (p # ps)) =
      slice (s - off) (e - off) p @ slice (s - (off + sk_size c)) (e - (off + sk_size c)) (concat ps)"
    by (simp add: slice_append n algebra_simps)
  show ?case
  proof (cases "s \<le> off + sk_size c - 1 \<and> off \<le> e")
    case True
    have ab: "max s off - off = max (s - off) 0" "min e (off + sk_size c - 1) - off = min (e - off) (int (length p) - 1)"
      using n by auto
    have "writes (pipeChunk env enc dek c (Some (max s off - off, min e (off + sk_size c - 1) - off))) (slice (s - off) (e - off) p)"
      using chunk_slice [OF Cons(1), of "max (s - off) 0" "min (e - off) (int (length p) - 1)"] slice_clip [of "s - off" "e - off" p]
        True n assms(2) unfolding ab by auto
    from writes_then [OF this Cons.IH, of "off + sk_size c"] show ?thesis
      using True unfolding rest by (simp add: Let_def)
  next
    case False
    then have "slice (s - off) (e - off) p = []" using n by (intro slice_before) linarith
    with False Cons.IH [of "off + sk_size c"] show ?thesis unfolding rest by (auto simp: Let_def)
  qed
qed

text \<open>A body that is served to its end.\<close>

definition serves :: "unit rop \<Rightarrow> buffer \<Rightarrow> bool" where
  "serves m bs \<longleftrightarrow> (\<forall>st. \<exists>st'. m st = (Inr (), st') \<and>
     rs_response st' = (rs_response st)\<lparr>rsp_body := rsp_body (rs_response st) @ bs, rsp_sent := True, rsp_ended := True\<rparr>)"

lemma writes_end: "writes m bs \<Longrightarrow> serves (thenOp m endResponse) bs"
  unfolding serves_def
proof
  fix st
  assume "writes m bs"
  then obtain s' where "m st = (Inr (), s')" "wrote bs st s'" unfolding writes_def by blast
  then show "\<exists>st'. thenOp m endResponse st = (Inr (), st') \<and>
     rs_response st' = (rs_response st)\<lparr>rsp_body := rsp_body (rs_response st) @ bs, rsp_sent := True, rsp_ended := True\<rparr>"
    by (simp add: then_Inr endResponse_def onResponse_def modify_apply wrote_def)
qed

lemma servesD:
  "serves m bs \<Longrightarrow> rs_response st = r \<Longrightarrow> \<exists>st'. m st = (Inr (), st') \<and> rs_response st' = r\<lparr>rsp_body := rsp_body r @ bs, rsp_sent := True, rsp_ended := True\<rparr>"
  unfolding serves_def by blast

lemma pipe_end: "pipeStreamToResponse env (ps, None) d True = thenOp (pipeStreamToResponse env (ps, None) d False) endResponse"
  by (rule ext) (simp add: pipeStreamToResponse_def op_unfold split: prod.split sum.split)

lemma serves_caught: "serves m bs \<Longrightarrow> serves (orFailResponse m) bs"
  unfolding serves_def orFailResponse_def catchOp_def by (metis (mono_tags, lifting) prod.case sum.case(2))

lemma serves_after_link:
  assumes "linkOf env f botId msg = Inr url" and "serves (k url) bs"
  shows "serves (bindOp (resolveFileLink env f botId msg c) k) bs"
  unfolding serves_def
proof
  fix s
  from resolve_link [OF assms(1)] obtain s' where "resolveFileLink env f botId msg c s = (Inr url, s')" "rs_response s' = rs_response s" by metis
  with assms(2) show "\<exists>st'. bindOp (resolveFileLink env f botId msg c) k s = (Inr (), st') \<and>
     rs_response st' = (rs_response s)\<lparr>rsp_body := rsp_body (rs_response s) @ bs, rsp_sent := True, rsp_ended := True\<rparr>"
    unfolding serves_def by (metis bind_Inr)
qed


lemma serve_range:
  assumes "sourceHolds env (di_source info) plain" and "0 \<le> s" and "s \<le> e" and "e < int (length plain)"
  shows "serves (serveRange env info s e) (slice s e plain)"
proof -
  have r: "rangeOk (Some (s, e)) plain" and piece: "pieceOf (Some (s, e)) plain = slice s e plain" "rangeStart (Some (s, e)) = s"
    using assms by (simp_all add: rangeOk_def pieceOf_def rangeStart_def)
  show ?thesis
  proof (cases "di_source info")
    case (FromTemp key)
    with assms(1) r obtain ps where ps: "rv_temp env key (Some (s, e)) = Inr (ps, None)" "concat ps = slice s e plain"
      using piece by (auto simp: sourceHolds_def answersRanges_def)
    have "serves (pipeStreamToResponse env (ps, None) None True) (slice s e plain)"
      using writes_end [OF pipe_writes [of None env ps]] ps(2) by (simp add: pipe_end)
    then have "serves (bindOp (liftSum (rv_temp env key (Some (s, e)))) (\<lambda>stream. pipeStreamToResponse env stream None True)) (slice s e plain)"
      by (simp add: ps(1) liftSum_def serves_def bind_return)
    from serves_caught [OF this] FromTemp show ?thesis by (simp add: serveRange_def)
  next
    case (FromMessage f botId msg enc dek iv)
    with assms(1) obtain stored where m: "messageHolds env (Some f) botId msg stored" and st: "storedAs (rv_cipher env) enc dek iv plain stored"
      by (auto simp: sourceHolds_def)
    from r stored_length [OF st] have r': "rangeOk (Some (s, e)) stored" by (simp add: rangeOk_def)
    from message_piece [OF m r'] obtain url ps where url: "linkOf env (Some f) botId msg = Inr url"
      and ps: "rv_fetch env url (Some (s, e)) = Inr (True, Some (ps, None))" "concat ps = pieceOf (Some (s, e)) stored" by metis
    have "serves (orFailResponse (pipeStreamToResponse env (ps, None) (decryptWith enc dek iv s) True)) (slice s e plain)"
      using serves_caught [OF writes_end [OF stored_piece [OF st ps(2) r']]] piece by (simp add: pipe_end)
    then have "serves (bindOp (fetchBody env url (Some (s, e))) (\<lambda>body. case body of None \<Rightarrow> thenOp (setStatus 500) endResponse
        | Some stream \<Rightarrow> orFailResponse (pipeStreamToResponse env stream (decryptWith enc dek iv s) True))) (slice s e plain)"
      by (simp add: fetchBody_def ps(1) liftSum_def serves_def bind_return bind_bind)
    with FromMessage show ?thesis by (simp add: serveRange_def) (rule serves_after_link [OF url])
  next
    case (FromChunks chunks enc dek)
    with assms(1) obtain parts where parts: "list_all2 (chunkHolds env enc dek) chunks parts" "concat parts = plain"
      by (auto simp: sourceHolds_def)
    from plan_writes [OF parts(1) assms(3), of 0] assms(2,3) parts(2) serves_caught [OF writes_end] FromChunks show ?thesis
      by (simp add: serveRange_def)
  qed
qed

lemma then_header:
  "list_all headerChar v \<Longrightarrow> thenOp (setHeader n v) k st =
    k (st\<lparr>rs_response := (rs_response st)\<lparr>rsp_headers := (rsp_headers (rs_response st))(n \<mapsto> v)\<rparr>\<rparr>)"
  by (simp add: setHeader_def onResponse_def op_simps)

lemma headerChar_digit: "jsDigit c \<Longrightarrow> headerChar c"
  by (auto simp: headerChar_def jsDigit_def)

lemma headerChar_showInt: "list_all headerChar (showInt n)"
  using headerChar_digit showNat_digits by (auto simp: showInt_def list_all_iff headerChar_def)


lemma rangeMatch_start: "rangeMatch h = Some (s, e) \<Longrightarrow> 0 \<le> s"
  by (induction h rule: rangeMatch.induct) (auto simp: rangeHere_def Let_def split: option.splits if_splits prod.splits)

lemma requestedRange_start: "requestedRange h n = (s, e) \<Longrightarrow> 0 \<le> s"
  by (auto simp: requestedRange_def dest: rangeMatch_start split: option.splits if_splits)

lemma headerChar_app [simp]: "list_all headerChar (a @ b) = (list_all headerChar a \<and> list_all headerChar b)"
  by (simp add: list_all_iff) blast

lemma headerChar_hex: "n < 16 \<Longrightarrow> headerChar (hexDigit n)"
  by (auto simp: headerChar_def hexDigit_def of_char_of take_bit_nat_eq_self)

lemma headerChar_uri: "list_all headerChar (encodeURIComponent s)"
proof -
  have "uriUnreserved c \<Longrightarrow> headerChar c" for c by (auto simp: uriUnreserved_def headerChar_def Let_def)
  moreover have "list_all headerChar (percentByte c)" for c
  proof -
    have "(of_char c :: nat) < 256" by simp
    then have "(of_char c :: nat) div 16 < 16" by (simp add: less_mult_imp_div_less)
    then show ?thesis by (simp add: percentByte_def Let_def headerChar_hex headerChar_def [of "CHR ''%''"])
  qed
  ultimately show ?thesis by (auto simp: encodeURIComponent_def list_all_iff)
qed

lemma headerChar_quoted: "list_all headerChar (quotedFilename s) = list_all headerChar s"
  by (induction s) (auto simp: quotedFilename_def headerChar_def [of "CHR 0x5C"])

lemma headerChar_attachment: "list_all headerChar (attachmentHeader s) = list_all headerChar s"
  by (simp add: attachmentHeader_def headerChar_quoted headerChar_uri) (simp add: headerChar_def)


text \<open>
  C22. A range of a file is exactly that range of its bytes: whatever the source of the file is, one encrypted message,
  encrypted chunks, chunks that are still buffered, or the temp storage, and however its bytes arrive in pieces, the
  response to a range that starts inside the file ends with the plaintext bytes of the range, cut at the end of the file,
  and its \<^verbatim>\<open>Content-Length\<close> and \<^verbatim>\<open>Content-Range\<close> say so.
\<close>
theorem range_request_exact:
  assumes "sourceHolds env (di_source info) plain" and "di_size info = int (length plain)"
    and "list_all headerChar (di_mimeType info)" and "attachment \<longrightarrow> list_all headerChar (di_filename info)"
    and "requestedRange rangeHeader (di_size info) = (s, e)" and "s < di_size info" and "s \<le> e" and "rsp_body (rs_response st) = []"
  shows "\<exists>st'. processRangeRequest env info rangeHeader attachment st = (Inr (), st') \<and> rsp_ended (rs_response st') \<and>
    rsp_body (rs_response st') = slice s (min e (di_size info - 1)) plain \<and>
    rsp_headers (rs_response st') ''Content-Length'' = Some (showInt (int (length (rsp_body (rs_response st'))))) \<and>
    rsp_status (rs_response st') = (if present rangeHeader then 206 else 200) \<and>
    (present rangeHeader \<longrightarrow> rsp_headers (rs_response st') ''Content-Range'' =
       Some (''bytes '' @ showInt s @ ''-'' @ showInt (min e (di_size info - 1)) @ ''/'' @ showInt (di_size info)))"
proof -
  let ?e = "min e (di_size info - 1)"
  have s0: "0 \<le> s" using assms(5) by (rule requestedRange_start)
  have e: "s \<le> ?e" "?e < int (length plain)" using assms(2,6,7) by auto
  have len: "int (length (slice s ?e plain)) = ?e - s + 1" using length_slice [OF s0 e] .
  have fixed: "list_all headerChar ''bytes''" "list_all headerChar ''inline''" "list_all headerChar ''application/octet-stream''"
    "list_all headerChar ''bytes ''" "headerChar (CHR ''-'')" "headerChar (CHR ''/'')"
    by (simp_all add: headerChar_def)
  note headers = fixed headerChar_showInt headerChar_attachment assms(3,4)
  let ?h = "(if present rangeHeader then (rsp_headers (rs_response st))(''Content-Range'' \<mapsto>
      ''bytes '' @ showInt s @ ''-'' @ showInt ?e @ ''/'' @ showInt (di_size info)) else rsp_headers (rs_response st))
    (''Accept-Ranges'' \<mapsto> ''bytes'', ''Content-Length'' \<mapsto> showInt (?e - s + 1),
     ''Content-Type'' \<mapsto> (if di_mimeType info = [] then ''application/octet-stream'' else di_mimeType info),
     ''Content-Disposition'' \<mapsto> (if attachment then attachmentHeader (di_filename info) else ''inline''))"
  let ?r = "(rs_response st)\<lparr>rsp_status := (if present rangeHeader then 206 else 200), rsp_headers := ?h\<rparr>"
  have "processRangeRequest env info rangeHeader attachment st = serveRange env info s ?e (st\<lparr>rs_response := ?r\<rparr>)"
    using assms(6) headers
    by (cases attachment; cases "present rangeHeader")
      (simp_all add: processRangeRequest_def Let_def assms(5) then_header then_then setStatus_def onResponse_def then_modify)
  moreover obtain st' where "serveRange env info s ?e (st\<lparr>rs_response := ?r\<rparr>) = (Inr (), st')"
    and "rs_response st' = ?r\<lparr>rsp_body := rsp_body ?r @ slice s ?e plain, rsp_sent := True, rsp_ended := True\<rparr>"
    using servesD [OF serve_range [OF assms(1) s0 e], of "st\<lparr>rs_response := ?r\<rparr>" ?r] by auto
  ultimately show ?thesis
    using assms(8) len by (intro exI [of _ st']) simp
qed

definition demoStoredChunk :: "string \<Rightarrow> int \<Rightarrow> string option \<Rightarrow> stored_chunk" where
  "demoStoredChunk i n key = \<lparr>sk_id = i, sk_telegramFileId = Some i, sk_botId = 1, sk_telegramMessageId = None, sk_iv = Some (replicate 16 3),
     sk_size = n, sk_isBuffered = (key \<noteq> None), sk_tempStorageKey = key\<rparr>"

definition demoInfo :: download_info where
  "demoInfo = \<lparr>di_fileId = ''f'', di_filename = ''a.txt'', di_size = 7, di_mimeType = ''text/plain'',
     di_source = FromChunks [demoStoredChunk ''c1'' 4 None, demoStoredChunk ''c2'' 3 (Some ''k'')] True (Some (replicate 32 9))\<rparr>"

definition demoReadEnv :: read_env where
  "demoReadEnv = \<lparr>rv_cipher = demoCipher, rv_sha256 = id, rv_botAvailable = (\<lambda>_. True), rv_mainBot = 1, rv_fileLink = (\<lambda>f b. Inr (the f)),
     rv_recover = (\<lambda>_. Inl Diverges),
     rv_fetch = (\<lambda>url r. Inr (True, Some ([pieceOf r (xorStream demoCipher (replicate 32 9) (replicate 16 3) 0 [1, 2, 3, 4])], None))),
     rv_temp = (\<lambda>key r. Inr (map (\<lambda>w. [w]) (pieceOf r [5, 6, 7]), None))\<rparr>"

theorem range_request_exact_witness:
  "\<exists>st'. processRangeRequest demoReadEnv demoInfo (Some ''bytes=2-5'') True \<lparr>rs_backend = emptyBackend, rs_response = freshResponse\<rparr> = (Inr (), st') \<and>
     rsp_body (rs_response st') = [3, 4, 5, 6] \<and> rsp_status (rs_response st') = 206"
proof -
  have "chunkHolds demoReadEnv True (Some (replicate 32 9)) (demoStoredChunk ''c1'' 4 None) [1, 2, 3, 4]"
    by (auto simp: chunkHolds_def demoStoredChunk_def messageHolds_def linkOf_def demoReadEnv_def answersRanges_def okBody_def storedAs_def
        ctrCrypt_def createCipheriv_def cipherWrite_def intro!: exI [of _ "xorStream demoCipher (replicate 32 9) (replicate 16 3) 0 [1, 2, 3, 4]"])
  moreover have "chunkHolds demoReadEnv True (Some (replicate 32 9)) (demoStoredChunk ''c2'' 3 (Some ''k'')) [5, 6, 7]"
    by (auto simp: chunkHolds_def demoStoredChunk_def demoReadEnv_def answersRanges_def present_def)
  ultimately have src: "sourceHolds demoReadEnv (di_source demoInfo) [1, 2, 3, 4, 5, 6, 7]"
    by (auto simp: sourceHolds_def demoInfo_def intro!: exI [of _ "[[1, 2, 3, 4], [5, 6, 7]]"])
  have "requestedRange (Some ''bytes=2-5'') (di_size demoInfo) = (2, 5)"
    by (simp add: requestedRange_def present_def rangeHere_def jsStartsWith_def takeDigits_def jsDigit_def baseVal_def digitVal_def Let_def)
  moreover have "list_all headerChar (di_mimeType demoInfo)" "list_all headerChar (di_filename demoInfo)"
    by (simp_all add: demoInfo_def headerChar_def)
  ultimately show ?thesis
    using range_request_exact [OF src, of True "Some ''bytes=2-5''" 2 5 "\<lparr>rs_backend = emptyBackend, rs_response = freshResponse\<rparr>"]
    by (auto simp: demoInfo_def freshResponse_def slice_def present_def)
qed


subsection \<open>Access\<close>

definition readable :: "backend \<Rightarrow> download_info \<Rightarrow> (file_row \<Rightarrow> bool) \<Rightarrow> bool" where
  "readable b info P \<longleftrightarrow> (\<exists>f \<in> set (bk_files b). fr_id f = di_fileId info \<and> landed f \<and> fr_deletedAt f = None \<and> P f)"

lemma metadata_id: "getDownloadMetadata E ms f cs = Inr info \<Longrightarrow> di_fileId info = fr_id f"
  by (auto simp: getDownloadMetadata_def split: sum.splits)

lemma readable_found:
  "fst (bindOp (getsOp (readableFile P)) (\<lambda>row. bindOp (orFail e row) (metadataOf E ms)) b) = Inr info \<Longrightarrow> readable b info P"
  by (fastforce simp: readableFile_def orFail_def metadataOf_def op_simps readable_def dest!: find_SomeD metadata_id split: option.splits sum.splits)

lemmas readable_row = readable_found [unfolded bind_gets]

lemma readable_mono: "readable b info P \<Longrightarrow> (\<And>f. P f \<Longrightarrow> Q f) \<Longrightarrow> readable b info Q"
  by (auto simp: readable_def)

definition guestFileDemo :: backend where
  "guestFileDemo = emptyBackend\<lparr>bk_files := [(newFileRow ''f1'' ''a.txt'' 5 None ''u1'' 0)\<lparr>fr_status := Complete, fr_deletedAt := Some 3\<rparr>,
     (newFileRow ''f2'' ''b.txt'' 5 None ''u1'' 0)\<lparr>fr_status := Complete, fr_visibility := PUBLIC_LINK\<rparr>]\<rparr>"



subsection \<open>Names that no header can carry\<close>

lemma foreign_char: "196 \<le> (of_char c :: nat) \<Longrightarrow> \<not> headerChar c"
  by (auto simp: headerChar_def)

lemma setHeader_bad: "\<not> list_all headerChar v \<Longrightarrow> setHeader n v st = (Inl (PlainError ''ERR_INVALID_CHAR''), st)"
  by (simp add: setHeader_def op_simps)

lemma cache_headers_body:
  "\<exists>r st'. applyTransferCacheHeaders env cfg info scope None pub st = (r, st') \<and> rsp_body (rs_response st') = rsp_body (rs_response st) \<and>
    (r = Inr False \<or> r = Inl (PlainError ''ERR_INVALID_CHAR''))"
  by (auto simp: applyTransferCacheHeaders_def Let_def ifNoneMatchSatisfied_def present_def setHeader_def onResponse_def op_unfold)

text \<open>
  A file whose name has a character above U+00FF cannot be downloaded: the name goes into \<^verbatim>\<open>Content-Disposition\<close> as it
  is, the header is refused, and the handler throws before any byte of the file is sent.
\<close>
theorem foreign_names_undownloadable:
  assumes "\<exists>c \<in> set (di_filename info). 196 \<le> (of_char c :: nat)"
  shows "\<exists>st'. processDownload env cfg info None scope None pub st = (Inl (PlainError ''ERR_INVALID_CHAR''), st') \<and>
    rsp_body (rs_response st') = rsp_body (rs_response st)"
proof -
  have "\<not> list_all headerChar (attachmentHeader (di_filename info))"
    using assms headerChar_attachment [of "di_filename info"] by (metis foreign_char list_all_iff)
  then have bad: "thenOp (setHeader n (attachmentHeader (di_filename info))) k s = (Inl (PlainError ''ERR_INVALID_CHAR''), s)" for n k s
    by (simp add: thenOp_def bindOp_def setHeader_bad)
  obtain r s where r: "applyTransferCacheHeaders env cfg info scope None pub st = (r, s)" "rsp_body (rs_response s) = rsp_body (rs_response st)"
    "r = Inr False \<or> r = Inl (PlainError ''ERR_INVALID_CHAR'')"
    using cache_headers_body by blast
  from r(3) show ?thesis
  proof
    assume "r = Inr False"
    with r(1,2) show ?thesis by (simp add: processDownload_def bindOp_def bad present_def)
  next
    assume "r = Inl (PlainError ''ERR_INVALID_CHAR'')"
    with r(1,2) show ?thesis by (simp add: processDownload_def bindOp_def)
  qed
qed

theorem foreign_names_undownloadable_witness:
  "\<exists>st'. processDownload demoReadEnv \<lparr>rds_multiThread = True, rds_downloadTtl = 300, rds_cacheMode = CacheDisabled, rds_cacheTtl = 0, rds_window = 0,
       rds_publicS3 = ''inherit''\<rparr> (demoInfo\<lparr>di_filename := [CHR 0xE1, CHR 0xBA, CHR 0xA5]\<rparr>) None None None False
     \<lparr>rs_backend = emptyBackend, rs_response = freshResponse\<rparr> = (Inl (PlainError ''ERR_INVALID_CHAR''), st') \<and> rsp_body (rs_response st') = []"
  using foreign_names_undownloadable [of "demoInfo\<lparr>di_filename := [CHR 0xE1, CHR 0xBA, CHR 0xA5]\<rparr>" demoReadEnv _ None False
      "\<lparr>rs_backend = emptyBackend, rs_response = freshResponse\<rparr>"]
  by (simp add: freshResponse_def)

text \<open>When nothing can be fetched for a file of one message, the empty answer still announces the file's length.\<close>

lemma failed_fetch_announces_body:
  assumes "di_source info = FromMessage f 1 None False None None" and "rv_botAvailable env 1" and "rv_fileLink env (Some f) 1 = Inr url"
    and "rv_fetch env url (Some (0, di_size info - 1)) = Inr (False, None)" and "0 < di_size info"
    and "list_all headerChar (di_mimeType info)" and "rsp_body (rs_response st) = []"
  shows "\<exists>st'. processRangeRequest env info None False st = (Inr (), st') \<and> rsp_status (rs_response st') = 500 \<and> rsp_body (rs_response st') = [] \<and>
    rsp_ended (rs_response st') \<and> rsp_headers (rs_response st') ''Content-Length'' = Some (showInt (di_size info))"
proof -
  have fixed: "list_all headerChar ''bytes''" "list_all headerChar ''inline''" "list_all headerChar ''application/octet-stream''"
    by (simp_all add: headerChar_def)
  show ?thesis
    using assms fixed
    by (cases "di_mimeType info = []")
      (simp_all add: processRangeRequest_def requestedRange_def present_def Let_def serveRange_def resolveFileLink_def fetchBody_def liftSum_def
        headerChar_showInt then_header then_then bind_return bind_bind setStatus_def onResponse_def then_modify endResponse_def modify_apply)
qed

text \<open>A range whose end lies before its start announces a negative length, and a range without a first byte is answered with the whole file.\<close>

lemma backward_range: "requestedRange (Some ''bytes=5-2'') 10 = (5, 2)" and suffix_range: "requestedRange (Some ''bytes=-3'') 10 = (0, 9)"
  by (simp_all add: requestedRange_def present_def rangeHere_def jsStartsWith_def takeDigits_def jsDigit_def baseVal_def digitVal_def Let_def)

end
