(* ===== verification/S3Multipart.thy ===== *)
theory S3Multipart
  imports Manifest S3Objects TransferRead
begin

section \<open>Multipart uploads of the S3 interface\<close>

text \<open>
  \<^verbatim>\<open>S3MultipartService\<close> (backend/src/s3/s3-multipart.service.ts): an upload is a file record without parts, whose id is
  the upload id; a part is a chunk. Fresh ids, keys and IVs, the MD5 function (to its hexadecimal digest) and the answers
  of Telegram and of the temp storage are arguments. A completion is cut in two: what it checks and computes, and its
  transaction; other requests may come between.
\<close>

definition SENTINEL_TOTAL_CHUNKS :: int where "SENTINEL_TOTAL_CHUNKS = 10000"

definition createMultipartUpload ::
  "string \<Rightarrow> upload_keys \<Rightarrow> (nat \<Rightarrow> string) \<Rightarrow> int \<Rightarrow> string \<Rightarrow> string \<Rightarrow> string \<Rightarrow> string \<Rightarrow> string bop" where
  "createMultipartUpload newId keys freshId now userId bucket key contentType =
     bindOp (resolveKey userId bucket key True freshId now) (\<lambda>(folderId, _).
       thenOp (createFile ((encrypted keys (newFileRow newId (lastSegment key) 0 (orNull (Some folderId)) userId now))
           \<lparr>fr_mimeType := (if contentType = [] then ''application/octet-stream'' else contentType), fr_isChunked := True,
            fr_totalChunks := SENTINEL_TOTAL_CHUNKS, fr_status := Uploading\<rparr>))
         (returnOp newId))"

text \<open>The bytes of text, for the MD5.\<close>

definition textBytes :: "string \<Rightarrow> buffer" where
  "textBytes s = map (\<lambda>c. of_nat (of_char c)) s"

definition indexEtag :: "(buffer \<Rightarrow> string) \<Rightarrow> int \<Rightarrow> string" where
  "indexEtag md5 chunkIndex = quoted (md5 (textBytes (showInt chunkIndex)))"

definition storedEtag :: "(buffer \<Rightarrow> string) \<Rightarrow> chunk_row \<Rightarrow> string" where
  "storedEtag md5 c = (if present (ck_etag c) then the (ck_etag c) else indexEtag md5 (ck_chunkIndex c))"

text \<open>
  The direct upload: the bytes are counted, hashed and encrypted on their way to Telegram, whose answer is a function of
  what it is sent.
\<close>

text \<open>\<open>pe_left\<close> is what a failed attempt at buffering has left of the body.\<close>

record part_env =
  pe_cipher :: block_cipher
  pe_secret :: buffer
  pe_md5 :: "buffer \<Rightarrow> string"
  pe_iv :: buffer
  pe_newId :: string
  pe_telegram :: "buffer \<Rightarrow> (string \<times> int \<times> int) option"
  pe_left :: buffer

definition uploadPartDirect :: "part_env \<Rightarrow> file_row \<Rightarrow> int \<Rightarrow> buffer \<Rightarrow> (string \<times> int) bop" where
  "uploadPartDirect env f chunkIndex data = (case fr_encryptedKey f of
     None \<Rightarrow> throwOp (PlainError ''TypeError'')
   | Some wrapped \<Rightarrow> (case decryptKey (pe_cipher env) (pe_secret env) wrapped of Inl e \<Rightarrow> throwOp e
     | Inr dek \<Rightarrow> (case ctrCrypt (pe_cipher env) dek (pe_iv env) data of Inl e \<Rightarrow> throwOp e
       | Inr sent \<Rightarrow> (case pe_telegram env sent of None \<Rightarrow> throwOp (PlainError ''Telegram upload failed'')
         | Some (tgFileId, messageId, botId) \<Rightarrow>
             thenOp (createChunk ((newChunkRow (pe_newId env) (fr_id f) chunkIndex (int (length data)))\<lparr>ck_telegramFileId := Some tgFileId,
                 ck_telegramMessageId := Some messageId, ck_botId := botId, ck_encryptionIv := Some (toHex (pe_iv env)),
                 ck_etag := Some (quoted (pe_md5 env data))\<rparr>))
               (returnOp (quoted (pe_md5 env data), int (length data)))))))"

definition uploadPart :: "part_env \<Rightarrow> buffer_env \<Rightarrow> bool \<Rightarrow> int \<Rightarrow> string \<Rightarrow> int \<Rightarrow> string \<Rightarrow> int \<Rightarrow> buffer \<Rightarrow> (string \<times> int) bop" where
  "uploadPart env benv canBuffer now uploadId partNumber userId contentLength data =
    (let chunkIndex = partNumber - 1 in
     if partNumber < 1 \<or> partNumber > 10000 then throwOp (BadRequestException ''Invalid part number'') else
     bindOp (getsOp (find (\<lambda>f. fr_id f = uploadId \<and> fr_userId f = userId \<and> fr_status f = Uploading) \<circ> bk_files)) (\<lambda>row. case row of
       None \<Rightarrow> throwOp (NotFoundException ''Upload not found or already completed'')
     | Some f \<Rightarrow> thenOp (updateFile uploadId (\<lambda>r. r\<lparr>fr_updatedAt := now\<rparr>))
        (bindOp (getsOp (findChunk uploadId chunkIndex)) (\<lambda>existing. case existing of
          Some c \<Rightarrow> returnOp (storedEtag (pe_md5 env) c, ck_size c)
        | None \<Rightarrow>
            if contentLength > 0 \<and> canBuffer then
              catchOp (bindOp (acceptChunk (pe_newId env) (toHex (pe_iv env)) benv contentLength uploadId chunkIndex)
                  (\<lambda>c. returnOp (the (ck_etag c), ck_size c)))
                (\<lambda>_. uploadPartDirect env f chunkIndex (if be_capacityOk benv then pe_left env else data))
            else uploadPartDirect env f chunkIndex data))))"

subsection \<open>Completion\<close>

record completion =
  cm_fileId :: string
  cm_userId :: string
  cm_count :: int
  cm_size :: int
  cm_etag :: string
  cm_replaced :: "string list"

definition partDigest :: "(buffer \<Rightarrow> string) \<Rightarrow> chunk_row \<Rightarrow> buffer" where
  "partDigest md5 c = (let hexMd5 = filter (\<lambda>x. x \<noteq> CHR 0x22) (case ck_etag c of None \<Rightarrow> [] | Some e \<Rightarrow> e) in
     if length hexMd5 \<noteq> 32 then fromHex (md5 (textBytes (showInt (ck_chunkIndex c)))) else fromHex hexMd5)"

definition finalEtag :: "(buffer \<Rightarrow> string) \<Rightarrow> chunk_row list \<Rightarrow> string" where
  "finalEtag md5 chunks = quoted (md5 (concat (map (partDigest md5) chunks)) @ ''-'' @ showInt (int (length chunks)))"

text \<open>\<open>Inl etag\<close>: already complete.\<close>

definition checkCompletion ::
  "(buffer \<Rightarrow> string) \<Rightarrow> string \<Rightarrow> string \<Rightarrow> string \<Rightarrow> string \<Rightarrow> completed_part list \<Rightarrow> (string + completion) bop" where
  "checkCompletion md5 uploadId userId bucket key declaredParts =
     bindOp (getsOp (\<lambda>b. (find (\<lambda>f. fr_id f = uploadId \<and> fr_userId f = userId) (bk_files b), chunkRowsOf uploadId b))) (\<lambda>(row, chunks). case row of
       None \<Rightarrow> throwOp (NotFoundException ''Upload not found'')
     | Some f \<Rightarrow> bindOp (resolveKey userId bucket key False unusedId 0) (\<lambda>(folderId, filename).
         if fr_deletedAt f \<noteq> None \<or> fr_folderId f \<noteq> Some folderId \<or> fr_filename f \<noteq> filename then throwOp (NotFoundException ''NoSuchUpload'')
         else (case validateMultipartManifest declaredParts (map (\<lambda>c. (ck_chunkIndex c, ck_etag c)) chunks) of
           Some e \<Rightarrow> throwOp e
         | None \<Rightarrow>
            if fr_status f = Complete then returnOp (Inl (if present (fr_etag f) then the (fr_etag f) else quoted uploadId))
            else bindOp (findObjectRecords userId bucket key) (\<lambda>existing.
              returnOp (Inr \<lparr>cm_fileId = uploadId, cm_userId = userId, cm_count = int (length chunks), cm_size = sum_list (map ck_size chunks),
                cm_etag = finalEtag md5 chunks, cm_replaced = filter (\<lambda>i. i \<noteq> uploadId) (map fr_id existing)\<rparr>)))))"

definition completedRow :: "completion \<Rightarrow> file_row \<Rightarrow> file_row" where
  "completedRow m r = r\<lparr>fr_status := Complete, fr_totalChunks := cm_count m, fr_size := cm_size m, fr_etag := Some (cm_etag m)\<rparr>"

definition completionTx :: "int \<Rightarrow> completion \<Rightarrow> unit bop" where
  "completionTx now m = transactionOp
     (thenOp (updateFile (cm_fileId m) (completedRow m))
     (thenOp (updateUser (cm_userId m) (\<lambda>u. u\<lparr>usr_usedSpace := usr_usedSpace u + cm_size m\<rparr>))
     (whenOp (cm_replaced m \<noteq> []) (writeFiles (updateWhere (\<lambda>r. fr_id r \<in> set (cm_replaced m) \<and> fr_userId r = cm_userId m \<and> fr_deletedAt r = None)
        (\<lambda>r. r\<lparr>fr_deletedAt := Some now\<rparr>))))))"

text \<open>The location and the entity tag.\<close>

definition completeMultipartUpload ::
  "(buffer \<Rightarrow> string) \<Rightarrow> int \<Rightarrow> string \<Rightarrow> string \<Rightarrow> string \<Rightarrow> string \<Rightarrow> completed_part list \<Rightarrow> (string \<times> string) bop" where
  "completeMultipartUpload md5 now uploadId userId bucket key declaredParts =
     bindOp (checkCompletion md5 uploadId userId bucket key declaredParts) (\<lambda>r. case r of
       Inl etag \<Rightarrow> returnOp (CHR ''/'' # uploadId, etag)
     | Inr m \<Rightarrow> thenOp (completionTx now m) (returnOp (CHR ''/'' # uploadId, cm_etag m)))"

subsection \<open>Abort and list\<close>

definition abortMultipartUpload :: "string \<Rightarrow> string \<Rightarrow> unit bop" where
  "abortMultipartUpload uploadId userId =
     bindOp (getsOp (\<lambda>b. (find (\<lambda>f. fr_id f = uploadId \<and> fr_userId f = userId) (bk_files b), chunksOf uploadId b))) (\<lambda>(row, chunks). case row of
       None \<Rightarrow> returnOp ()
     | Some f \<Rightarrow> thenOp (unlessOp (fr_status f \<noteq> Complete) (BadRequestException ''Cannot abort a completed upload. Use DeleteObject instead.''))
         (let messages = concat (map (\<lambda>c. messageOf (ck_telegramMessageId c) (ck_botId c)) chunks) in
          thenOp (modifyOp (emit (map (\<lambda>m. TelegramPurge [m]) messages))) (removeFile uploadId)))"

definition listParts :: "(buffer \<Rightarrow> string) \<Rightarrow> string \<Rightarrow> string \<Rightarrow> (int \<times> int \<times> string) list bop" where
  "listParts md5 uploadId userId =
     bindOp (getsOp (\<lambda>b. (find (\<lambda>f. fr_id f = uploadId \<and> fr_userId f = userId) (bk_files b), chunkRowsOf uploadId b))) (\<lambda>(row, chunks). case row of
       None \<Rightarrow> throwOp (NotFoundException ''Upload not found'')
     | Some _ \<Rightarrow> returnOp (map (\<lambda>c. (ck_chunkIndex c + 1, ck_size c, storedEtag md5 c)) chunks))"


subsection \<open>What is uploaded in parts is read as one file\<close>

definition openUpload :: "string \<Rightarrow> string \<Rightarrow> string \<Rightarrow> backend \<Rightarrow> bool" where
  "openUpload uploadId u wrapped b \<longleftrightarrow> distinct (map fr_id (bk_files b)) \<and>
     (\<exists>f \<in> set (bk_files b). fr_id f = uploadId \<and> fr_userId f = u \<and> fr_status f = Uploading \<and> fr_encryptedKey f = Some wrapped \<and>
        fr_isEncrypted f \<and> fr_isChunked f \<and> fr_deletedAt f = None)"

definition partsHeld :: "read_env \<Rightarrow> buffer \<Rightarrow> string \<Rightarrow> (int \<times> buffer) list \<Rightarrow> backend \<Rightarrow> bool" where
  "partsHeld renv dek uploadId D b \<longleftrightarrow>
     list_all2 (\<lambda>c (i, d). ck_chunkIndex c = i \<and> chunkHolds renv True (Some dek) (storedChunk c) d) (chunksOf uploadId b) D"

definition keepsParts :: "block_cipher \<Rightarrow> buffer \<Rightarrow> read_env \<Rightarrow> part_env \<Rightarrow> bool" where
  "keepsParts E secret renv env \<longleftrightarrow> pe_cipher env = E \<and> pe_secret env = secret \<and> rv_cipher renv = E \<and>
     (\<forall>sent tg m botId. pe_telegram env sent = Some (tg, m, botId) \<longrightarrow> messageHolds renv (Some tg) botId (Some m) sent)"

lemma find_by_id:
  assumes "distinct (map fr_id fs)" and "f \<in> set fs" and "P f" and "\<And>g. P g \<Longrightarrow> fr_id g = fr_id f"
  shows "find P fs = Some f"
proof -
  have "find P fs \<noteq> None" using assms(2,3) by (auto simp: find_None_iff)
  then obtain g where g: "find P fs = Some g" by blast
  from find_SomeD [OF g] assms(4) have "g \<in> set fs" "fr_id g = fr_id f" by auto
  with assms(1,2) have "g = f" by (auto simp: distinct_map inj_on_def)
  with g show ?thesis by simp
qed

lemma direct_row:
  assumes "ctrCrypt E dek iv d = Inr sent" and "d \<noteq> []" and "messageHolds renv (Some tg) botId (Some m) sent" and "rv_cipher renv = E"
  shows "chunkHolds renv True (Some dek) (storedChunk ((newChunkRow i fid k (int (length d)))\<lparr>ck_telegramFileId := Some tg,
     ck_telegramMessageId := Some m, ck_botId := botId, ck_encryptionIv := Some (toHex iv), ck_etag := e\<rparr>)) d"
proof -
  from assms(1) have "length iv = 16" by (auto simp: ctrCrypt_def createCipheriv_def split: if_splits)
  then have "toHex iv \<noteq> []" by (cases iv) (auto simp: toHex_def)
  with assms show ?thesis
    by (auto simp: chunkHolds_def storedChunk_def newChunkRow_def present_def storedAs_def fromHex_toHex)
qed

lemma held_index: "list_all2 (\<lambda>c (i, d). ck_chunkIndex c = i \<and> Q c d) cs D \<Longrightarrow> ck_chunkIndex ` set cs = fst ` set D"
  by (induction cs D rule: list_all2_induct) auto

lemma createChunk_result:
  assumes "createChunk c b = (Inr u, b')"
  shows "b' = setChunks (\<lambda>cs. cs @ [c]) b"
  using assms by (auto simp: createChunk_def op_simps split: if_splits)

lemma touch_result:
  assumes "updateFile uploadId g b = (Inr u, b')"
  shows "b' = setFiles (updateWhere (\<lambda>x. fr_id x = uploadId) g) b"
  using assms by (auto simp: updateFile_def writeFiles_def op_simps split: option.splits if_splits)

lemma openUpload_touched:
  assumes "openUpload uploadId u wrapped b"
  shows "openUpload uploadId u wrapped (setFiles (updateWhere (\<lambda>x. fr_id x = uploadId) (\<lambda>r. r\<lparr>fr_updatedAt := now\<rparr>)) b)"
proof -
  let ?g = "\<lambda>x :: file_row. if fr_id x = uploadId then x\<lparr>fr_updatedAt := now\<rparr> else x"
  have same: "fr_id (?g x) = fr_id x" for x by simp
  then have "fr_id \<circ> ?g = fr_id" by (simp only: fun_eq_iff comp_apply) simp
  then have ids: "map fr_id (map ?g fs) = map fr_id fs" for fs by (simp only: map_map)
  from assms obtain f where "distinct (map fr_id (bk_files b))" and f: "f \<in> set (bk_files b)" "fr_id f = uploadId" "fr_userId f = u"
    "fr_status f = Uploading" "fr_encryptedKey f = Some wrapped" "fr_isEncrypted f" "fr_isChunked f" "fr_deletedAt f = None"
    by (auto simp: openUpload_def)
  have "?g f \<in> set (map ?g (bk_files b))" unfolding list.set_map using f(1) by (rule imageI)
  moreover have "distinct (map fr_id (map ?g (bk_files b)))" unfolding ids by fact
  ultimately show ?thesis using f unfolding openUpload_def setFiles_def updateWhere_def by (intro conjI bexI [of _ "?g f"]) simp_all
qed

lemma then_return_result:
  assumes "thenOp m (returnOp v) b = (Inr r, b')"
  obtains u where "m b = (Inr u, b')"
  using assms by (cases "m b"; cases "fst (m b)") (auto simp: thenOp_def bindOp_def op_simps)

lemma part_direct:
  assumes "uploadPartDirect env f k d b = (Inr r, b')" and "fr_encryptedKey f = Some wrapped"
    and "decryptKey E secret wrapped = Inr dek" and "keepsParts E secret renv env" and "d \<noteq> []"
  shows "\<exists>c. b' = setChunks (\<lambda>cs. cs @ [c]) b \<and> ck_fileId c = fr_id f \<and> ck_chunkIndex c = k \<and> ck_size c = int (length d) \<and>
    chunkHolds renv True (Some dek) (storedChunk c) d"
proof -
  from assms(4) have env: "pe_cipher env = E" "pe_secret env = secret" "rv_cipher renv = E" by (simp_all add: keepsParts_def)
  have start: "(case ctrCrypt E dek (pe_iv env) d of Inl e \<Rightarrow> throwOp e
     | Inr sent \<Rightarrow> (case pe_telegram env sent of None \<Rightarrow> throwOp (PlainError ''Telegram upload failed'')
       | Some (tgFileId, messageId, botId) \<Rightarrow>
           thenOp (createChunk ((newChunkRow (pe_newId env) (fr_id f) k (int (length d)))\<lparr>ck_telegramFileId := Some tgFileId,
               ck_telegramMessageId := Some messageId, ck_botId := botId, ck_encryptionIv := Some (toHex (pe_iv env)),
               ck_etag := Some (quoted (pe_md5 env d))\<rparr>))
             (returnOp (quoted (pe_md5 env d), int (length d))))) b = (Inr r, b')"
    using assms(1) by (simp add: uploadPartDirect_def assms(2,3) env)
  show ?thesis
  proof (cases "ctrCrypt E dek (pe_iv env) d")
    case (Inl e)
    with start show ?thesis by (simp add: op_simps)
  next
    case sent: (Inr sent)
    show ?thesis
    proof (cases "pe_telegram env sent")
      case None
      with start sent show ?thesis by (simp add: op_simps)
    next
      case (Some ans)
      obtain tg m botId where ans: "ans = (tg, m, botId)" by (cases ans)
      let ?c = "(newChunkRow (pe_newId env) (fr_id f) k (int (length d)))\<lparr>ck_telegramFileId := Some tg,
        ck_telegramMessageId := Some m, ck_botId := botId, ck_encryptionIv := Some (toHex (pe_iv env)), ck_etag := Some (quoted (pe_md5 env d))\<rparr>"
      from start sent Some ans have "thenOp (createChunk ?c) (returnOp (quoted (pe_md5 env d), int (length d))) b = (Inr r, b')" by simp
      then obtain u where "createChunk ?c b = (Inr u, b')" by (rule then_return_result)
      then have b': "b' = setChunks (\<lambda>cs. cs @ [?c]) b" by (rule createChunk_result)
      have "messageHolds renv (Some tg) botId (Some m) sent" using assms(4) Some ans by (simp add: keepsParts_def)
      from direct_row [OF sent assms(5) this env(3)] b' show ?thesis by (intro exI [of _ ?c]) (simp add: newChunkRow_def)
    qed
  qed
qed

lemma part_step:
  assumes "openUpload uploadId u wrapped b" and "partsHeld renv dek uploadId D b" and "n - 1 \<notin> fst ` set D" and "d \<noteq> []"
    and "decryptKey E secret wrapped = Inr dek" and "keepsParts E secret renv env"
    and "uploadPart env benv False now uploadId n u cl d b = (Inr r, b')"
  shows "openUpload uploadId u wrapped b' \<and> partsHeld renv dek uploadId (D @ [(n - 1, d)]) b'"
proof -
  from assms(1) obtain f where dis: "distinct (map fr_id (bk_files b))" and f: "f \<in> set (bk_files b)" "fr_id f = uploadId" "fr_userId f = u"
    "fr_status f = Uploading" "fr_encryptedKey f = Some wrapped"
    by (auto simp: openUpload_def)
  have row: "find (\<lambda>f. fr_id f = uploadId \<and> fr_userId f = u \<and> fr_status f = Uploading) (bk_files b) = Some f"
    by (rule find_by_id [OF dis f(1)]) (simp_all add: f)
  let ?b = "setFiles (updateWhere (\<lambda>x. fr_id x = uploadId) (\<lambda>r. r\<lparr>fr_updatedAt := now\<rparr>)) b"
  have "n - 1 \<notin> ck_chunkIndex ` set (chunksOf uploadId b)"
    using assms(3) held_index [OF assms(2) [unfolded partsHeld_def]] by simp
  then have fresh: "findChunk uploadId (n - 1) ?b = None"
    by (auto simp: findChunk_def find_None_iff chunksOf_def setFiles_def image_iff)
  have "uploadPartDirect env f (n - 1) d ?b = (Inr r, b')"
  proof (cases "updateFile uploadId (\<lambda>r. r\<lparr>fr_updatedAt := now\<rparr>) b")
    case (Pair q b1)
    show ?thesis
    proof (cases q)
      case (Inl e)
      then show ?thesis using assms(7) Pair row by (simp add: uploadPart_def Let_def op_simps thenOp_def bindOp_def split: if_splits)
    next
      case (Inr v)
      with Pair touch_result have "b1 = ?b" by blast
      with Inr Pair assms(7) row fresh show ?thesis by (simp add: uploadPart_def Let_def op_simps thenOp_def bindOp_def split: if_splits)
    qed
  qed
  from part_direct [OF this f(5) assms(5,6,4)] f(2) obtain c where c: "b' = setChunks (\<lambda>cs. cs @ [c]) ?b" "ck_fileId c = uploadId"
    "ck_chunkIndex c = n - 1" "chunkHolds renv True (Some dek) (storedChunk c) d" by auto
  have "openUpload uploadId u wrapped b'" using openUpload_touched [OF assms(1), of now] c(1) by (simp add: openUpload_def setChunks_def)
  moreover have "chunksOf uploadId b' = chunksOf uploadId b @ [c]" using c(1,2) by (simp add: chunksOf_def setChunks_def setFiles_def)
  ultimately show ?thesis using assms(2) c(3,4) by (auto simp: partsHeld_def intro: list_all2_appendI)
qed


text \<open>Sorting the chunks sorts their contents with them.\<close>

lemma insort_related:
  "list_all2 (\<lambda>c (i, d). ck_chunkIndex c = i \<and> Q c d) cs D \<Longrightarrow> ck_chunkIndex c = i \<Longrightarrow> Q c d \<Longrightarrow>
   list_all2 (\<lambda>c (i, d). ck_chunkIndex c = i \<and> Q c d) (insort_key ck_chunkIndex c cs) (insort_key fst (i, d) D)"
  by (induction cs D rule: list_all2_induct) auto

lemma sort_related:
  "list_all2 (\<lambda>c (i, d). ck_chunkIndex c = i \<and> Q c d) cs D \<Longrightarrow>
   list_all2 (\<lambda>c (i, d). ck_chunkIndex c = i \<and> Q c d) (sort_key ck_chunkIndex cs) (sort_key fst D)"
  by (induction cs D rule: list_all2_induct) (auto simp: sort_key_def intro: insort_related [unfolded split_paired_all prod.case])

lemma held_sizes:
  assumes "list_all2 (\<lambda>c (i, d). ck_chunkIndex c = i \<and> chunkHolds renv enc dek (storedChunk c) d) cs D"
  shows "list_all2 (chunkHolds renv enc dek) (map storedChunk cs) (map snd D) \<and> sum_list (map ck_size cs) = int (length (concat (map snd D)))"
  using assms by (induction cs D rule: list_all2_induct) (auto simp: chunkHolds_def storedChunk_def)

definition uploadedParts :: "read_env \<Rightarrow> buffer \<Rightarrow> string \<Rightarrow> buffer \<Rightarrow> backend \<Rightarrow> bool" where
  "uploadedParts renv dek uploadId plain b \<longleftrightarrow> (\<exists>parts. list_all2 (chunkHolds renv True (Some dek)) (map storedChunk (chunkRowsOf uploadId b)) parts \<and>
     concat parts = plain) \<and> sum_list (map ck_size (chunkRowsOf uploadId b)) = int (length plain)"

lemma parts_uploaded:
  assumes "partsHeld renv dek uploadId D b"
  shows "uploadedParts renv dek uploadId (concat (map snd (sort_key fst D))) b"
  using held_sizes [OF sort_related [OF assms [unfolded partsHeld_def]]] unfolding uploadedParts_def chunkRowsOf_def chunksOf_def by blast


lemma keeps_resolve_reading: "keeps I (resolveKey u bucket key False g t)"
  unfolding resolveKey_def resolveKeyUnderFolder_def enterFolder_def Let_def
  by (intro keeps_intros) (auto split: prod.split option.split intro!: keeps_intros)

lemma keeps_object_records: "keeps I (findObjectRecords u bucket key)"
  unfolding findObjectRecords_def
  by (intro keeps_intros keeps_resolve_reading) (auto split: prod.split intro!: keeps_intros)

lemma keeps_check_completion: "keeps I (checkCompletion md5 uploadId u bucket key declaredParts)"
  unfolding checkCompletion_def
  by (intro keeps_intros) (auto split: prod.split option.split intro!: keeps_intros keeps_resolve_reading keeps_object_records)


text \<open>What a successful check says, and what the transaction then writes.\<close>

lemma check_result:
  assumes "checkCompletion md5 uploadId u bucket key declaredParts b = (Inr (Inr m), b1)"
  shows "b1 = b \<and> cm_fileId m = uploadId \<and> cm_userId m = u \<and> cm_size m = sum_list (map ck_size (chunkRowsOf uploadId b)) \<and> uploadId \<notin> set (cm_replaced m)"
proof -
  have b1: "b1 = b" using keeps_result [OF keeps_check_completion [of "(=) b"] refl assms] by simp
  from assms obtain f where "find (\<lambda>f. fr_id f = uploadId \<and> fr_userId f = u) (bk_files b) = Some f"
    by (cases "find (\<lambda>f. fr_id f = uploadId \<and> fr_userId f = u) (bk_files b)") (auto simp: checkCompletion_def op_simps)
  with assms obtain x b2 where "(case x of (folderId, filename) \<Rightarrow>
         if fr_deletedAt f \<noteq> None \<or> fr_folderId f \<noteq> Some folderId \<or> fr_filename f \<noteq> filename then throwOp (NotFoundException ''NoSuchUpload'')
         else (case validateMultipartManifest declaredParts (map (\<lambda>c. (ck_chunkIndex c, ck_etag c)) (chunkRowsOf uploadId b)) of
           Some e \<Rightarrow> throwOp e
         | None \<Rightarrow>
            if fr_status f = Complete then returnOp (Inl (if present (fr_etag f) then the (fr_etag f) else quoted uploadId))
            else bindOp (findObjectRecords u bucket key) (\<lambda>existing.
              returnOp (Inr \<lparr>cm_fileId = uploadId, cm_userId = u, cm_count = int (length (chunkRowsOf uploadId b)),
                cm_size = sum_list (map ck_size (chunkRowsOf uploadId b)),
                cm_etag = finalEtag md5 (chunkRowsOf uploadId b), cm_replaced = filter (\<lambda>i. i \<noteq> uploadId) (map fr_id existing)\<rparr>)))) b2 = (Inr (Inr m), b1)"
    unfolding checkCompletion_def bind_gets by (auto elim: bind_result)
  then obtain ids where "m = \<lparr>cm_fileId = uploadId, cm_userId = u, cm_count = int (length (chunkRowsOf uploadId b)),
                cm_size = sum_list (map ck_size (chunkRowsOf uploadId b)),
                cm_etag = finalEtag md5 (chunkRowsOf uploadId b), cm_replaced = filter (\<lambda>i. i \<noteq> uploadId) ids\<rparr>"
    by (cases "findObjectRecords u bucket key b2"; cases "fst (findObjectRecords u bucket key b2)")
      (fastforce simp: op_simps bindOp_def split: prod.splits if_splits option.splits)+
  with b1 show ?thesis by simp
qed

lemma writeFiles_result: "writeFiles g b = (Inr r, b') \<Longrightarrow> b' = setFiles g b"
  by (auto simp: writeFiles_def op_simps split: if_splits)

lemma updateUser_result: "updateUser i g b = (Inr r, b') \<Longrightarrow> b' = setUsers (updateWhere (\<lambda>u. usr_id u = i) g) b"
  by (auto simp: updateUser_def op_simps split: option.splits)

definition replacedBy :: "completion \<Rightarrow> file_row \<Rightarrow> bool" where
  "replacedBy m r \<longleftrightarrow> cm_replaced m \<noteq> [] \<and> fr_id r \<in> set (cm_replaced m) \<and> fr_userId r = cm_userId m \<and> fr_deletedAt r = None"

lemma completionTx_result:
  assumes "completionTx now m b = (Inr r, b')"
  shows "bk_chunks b' = bk_chunks b \<and>
    bk_users b' = updateWhere (\<lambda>u. usr_id u = cm_userId m) (\<lambda>u. u\<lparr>usr_usedSpace := usr_usedSpace u + cm_size m\<rparr>) (bk_users b) \<and>
    bk_files b' = updateWhere (replacedBy m) (\<lambda>r. r\<lparr>fr_deletedAt := Some now\<rparr>) (updateWhere (\<lambda>x. fr_id x = cm_fileId m) (completedRow m) (bk_files b))"
proof -
  from assms obtain b1 b2 r1 r2 r3 where "updateFile (cm_fileId m) (completedRow m) b = (Inr r1, b1)"
    "updateUser (cm_userId m) (\<lambda>u. u\<lparr>usr_usedSpace := usr_usedSpace u + cm_size m\<rparr>) b1 = (Inr r2, b2)"
    and w: "whenOp (cm_replaced m \<noteq> []) (writeFiles (updateWhere (\<lambda>r. fr_id r \<in> set (cm_replaced m) \<and> fr_userId r = cm_userId m \<and> fr_deletedAt r = None)
        (\<lambda>r. r\<lparr>fr_deletedAt := Some now\<rparr>))) b2 = (Inr r3, b')"
    by (auto simp: completionTx_def transactionOp_def thenOp_def split: prod.splits sum.splits elim!: bind_result)
  note b1 = touch_result [OF this(1)] and b2 = updateUser_result [OF this(2)]
  show ?thesis
  proof (cases "cm_replaced m = []")
    case True
    with w have "b' = b2" by (simp add: whenOp_def op_simps)
    with b1 b2 True show ?thesis by (auto simp: setFiles_def setUsers_def replacedBy_def updateWhere_none)
  next
    case False
    with w have "b' = setFiles (updateWhere (\<lambda>r. fr_id r \<in> set (cm_replaced m) \<and> fr_userId r = cm_userId m \<and> fr_deletedAt r = None)
        (\<lambda>r. r\<lparr>fr_deletedAt := Some now\<rparr>)) b2" by (simp add: whenOp_def writeFiles_result)
    with b1 b2 False show ?thesis by (auto simp: setFiles_def setUsers_def replacedBy_def [abs_def])
  qed
qed

text \<open>
  Uploads to one upload id: parts that are sent directly, in any order, the first upload of a number and repetitions of it,
  between any operations on other files.
\<close>

inductive partsSent :: "block_cipher \<Rightarrow> buffer \<Rightarrow> read_env \<Rightarrow> string \<Rightarrow> string \<Rightarrow> backend \<Rightarrow> (int \<times> buffer) list \<Rightarrow> backend \<Rightarrow> bool"
  for E secret renv uploadId u b0 where
  begun: "partsSent E secret renv uploadId u b0 [] b0"
| sent: "partsSent E secret renv uploadId u b0 D b \<Longrightarrow> n - 1 \<notin> fst ` set D \<Longrightarrow> d \<noteq> [] \<Longrightarrow> keepsParts E secret renv env \<Longrightarrow>
    uploadPart env benv False now uploadId n u cl d b = (Inr r, b') \<Longrightarrow> partsSent E secret renv uploadId u b0 (D @ [(n - 1, d)]) b'"
| again: "partsSent E secret renv uploadId u b0 D b \<Longrightarrow> n - 1 \<in> fst ` set D \<Longrightarrow>
    uploadPart env benv c now uploadId n u cl d b = (Inr r, b') \<Longrightarrow> partsSent E secret renv uploadId u b0 D b'"
| others: "partsSent E secret renv uploadId u b0 D b \<Longrightarrow> distinct (map fr_id (bk_files b')) \<Longrightarrow>
    filter (\<lambda>f. fr_id f = uploadId) (bk_files b') = filter (\<lambda>f. fr_id f = uploadId) (bk_files b) \<Longrightarrow>
    chunksOf uploadId b' = chunksOf uploadId b \<Longrightarrow> partsSent E secret renv uploadId u b0 D b'"

lemma openUpload_others:
  assumes "openUpload uploadId u wrapped b" and "distinct (map fr_id (bk_files b'))"
    and "filter (\<lambda>f. fr_id f = uploadId) (bk_files b') = filter (\<lambda>f. fr_id f = uploadId) (bk_files b)"
  shows "openUpload uploadId u wrapped b'"
proof -
  have "f \<in> set (bk_files b')" if "f \<in> set (bk_files b)" "fr_id f = uploadId" for f
    using that arg_cong [OF assms(3), of set] by auto
  with assms(1,2) show ?thesis unfolding openUpload_def by blast
qed

lemma part_again:
  assumes "openUpload uploadId u wrapped b" and "partsHeld renv dek uploadId D b" and "n - 1 \<in> fst ` set D"
    and "uploadPart env benv c now uploadId n u cl d b = (Inr r, b')"
  shows "openUpload uploadId u wrapped b' \<and> chunksOf uploadId b' = chunksOf uploadId b"
proof -
  have "n - 1 \<in> ck_chunkIndex ` set (chunksOf uploadId b)"
    using assms(3) held_index [OF assms(2) [unfolded partsHeld_def]] by simp
  then have "findChunk uploadId (n - 1) b \<noteq> None" by (auto simp: findChunk_def find_None_iff chunksOf_def)
  then obtain c' where old: "findChunk uploadId (n - 1) (setFiles g b) = Some c'" for g by (auto simp: findChunk_def setFiles_def)
  let ?b = "setFiles (updateWhere (\<lambda>x. fr_id x = uploadId) (\<lambda>r. r\<lparr>fr_updatedAt := now\<rparr>)) b"
  have "b' = ?b"
  proof (cases "find (\<lambda>f. fr_id f = uploadId \<and> fr_userId f = u \<and> fr_status f = Uploading) (bk_files b)")
    case None
    with assms(4) show ?thesis by (simp add: uploadPart_def Let_def op_simps split: if_splits)
  next
    case row: (Some f)
    show ?thesis
    proof (cases "updateFile uploadId (\<lambda>r. r\<lparr>fr_updatedAt := now\<rparr>) b")
      case (Pair q b1)
      show ?thesis
      proof (cases q)
        case (Inl e)
        then show ?thesis using assms(4) Pair row by (simp add: uploadPart_def Let_def op_simps thenOp_def bindOp_def split: if_splits)
      next
        case (Inr v)
        with Pair touch_result have "b1 = ?b" by blast
        with Inr Pair assms(4) row old show ?thesis by (simp add: uploadPart_def Let_def op_simps thenOp_def bindOp_def split: if_splits)
      qed
    qed
  qed
  with openUpload_touched [OF assms(1)] show ?thesis by (simp add: chunksOf_def setFiles_def)
qed

lemma parts_sent:
  assumes "partsSent E secret renv uploadId u b0 D b" and "openUpload uploadId u wrapped b0" and "chunksOf uploadId b0 = []"
    and "decryptKey E secret wrapped = Inr dek"
  shows "openUpload uploadId u wrapped b \<and> partsHeld renv dek uploadId D b"
  using assms(1)
proof induction
  case begun
  then show ?case using assms by (simp add: partsHeld_def)
next
  case (sent D b n d env benv now cl r b')
  then show ?case using part_step [OF _ _ sent(2,3) assms(4) sent(4,5)] by blast
next
  case (again D b n env benv c now cl d r b')
  then show ?case using part_again [OF _ _ again(2,3)] by (auto simp: partsHeld_def)
next
  case (others D b b')
  then show ?case using openUpload_others [OF _ others(2,3)] by (simp add: partsHeld_def)
qed


lemma complete_download:
  assumes "openUpload uploadId u wrapped b" and "uploadedParts renv dek uploadId plain b" and "decryptKey E secret wrapped = Inr dek"
    and "wrapped \<noteq> []" and "completeMultipartUpload md5 now uploadId u bucket key declaredParts b = (Inr r, b')"
  shows "\<exists>info. fst (getDownloadInfo E secret uploadId u b') = Inr info \<and> sourceHolds renv (di_source info) plain \<and> di_size info = int (length plain)"
proof -
  from assms(1) obtain f where dis: "distinct (map fr_id (bk_files b))" and f: "f \<in> set (bk_files b)" "fr_id f = uploadId" "fr_userId f = u"
    "fr_status f = Uploading" "fr_encryptedKey f = Some wrapped" "fr_isEncrypted f" "fr_isChunked f" "fr_deletedAt f = None"
    unfolding openUpload_def by auto
  have row: "find (\<lambda>f. fr_id f = uploadId \<and> fr_userId f = u) (bk_files b) = Some f"
    by (rule find_by_id [OF dis f(1)]) (simp_all add: f)
  from assms(5) obtain x b1 where check: "checkCompletion md5 uploadId u bucket key declaredParts b = (Inr x, b1)"
    and rest: "(case x of Inl etag \<Rightarrow> returnOp (CHR ''/'' # uploadId, etag)
     | Inr m \<Rightarrow> thenOp (completionTx now m) (returnOp (CHR ''/'' # uploadId, cm_etag m))) b1 = (Inr r, b')"
    unfolding completeMultipartUpload_def by (rule bind_result)
  show ?thesis
  proof (cases x)
    case (Inl e)
    with check row f(4) show ?thesis
      by (auto simp: checkCompletion_def op_simps split: if_splits option.splits prod.splits elim!: bind_result)
  next
    case (Inr m)
    from check_result [OF check [unfolded Inr]] have b1: "b1 = b" and m: "cm_fileId m = uploadId" "cm_userId m = u"
      "cm_size m = sum_list (map ck_size (chunkRowsOf uploadId b))" "uploadId \<notin> set (cm_replaced m)" by auto
    from rest Inr b1 have "thenOp (completionTx now m) (returnOp (CHR ''/'' # uploadId, cm_etag m)) b = (Inr r, b')" by simp
    then obtain v where "completionTx now m b = (Inr v, b')" by (rule then_return_result)
    from completionTx_result [OF this] have chunks: "bk_chunks b' = bk_chunks b" and files: "bk_files b' =
      updateWhere (replacedBy m) (\<lambda>r. r\<lparr>fr_deletedAt := Some now\<rparr>) (updateWhere (\<lambda>x. fr_id x = cm_fileId m) (completedRow m) (bk_files b))" by auto
    have ids: "distinct (map fr_id (bk_files b'))" unfolding files using dis by (simp add: map_updateWhere_key completedRow_def)
    have kept: "\<not> replacedBy m (completedRow m f)" using m(4) f(2) by (simp add: replacedBy_def completedRow_def)
    then have mem: "completedRow m f \<in> set (bk_files b')"
      unfolding files set_updateWhere image_image using f(1,2) m(1) by (intro image_eqI [of _ _ f]) simp_all
    have "find (\<lambda>f. fr_id f = uploadId \<and> fr_userId f = u \<and> fr_deletedAt f = None) (bk_files b') = Some (completedRow m f)"
      by (rule find_by_id [OF ids mem]) (simp_all add: f completedRow_def)
    moreover have "chunkRowsOf uploadId b' = chunkRowsOf uploadId b" by (simp add: chunkRowsOf_def chunks)
    ultimately show ?thesis using assms(2-4) f m
      by (auto simp: getDownloadInfo_def orFail_def landed_def metadataOf_def getDownloadMetadata_def op_simps completedRow_def present_def
          sourceHolds_def uploadedParts_def)
  qed
qed

text \<open>
  C27. What was uploaded in parts is read as one file: parts sent directly, in any order, some of them again, between
  operations that leave this upload alone, and then completed, are downloaded as the concatenation of their first versions in
  the order of their numbers, and the size of the file is its length.
\<close>
theorem multipart_download:
  assumes "partsSent E secret renv uploadId u b0 D b" and "openUpload uploadId u wrapped b0" and "chunksOf uploadId b0 = []"
    and "decryptKey E secret wrapped = Inr dek" and "wrapped \<noteq> []"
    and "completeMultipartUpload md5 now uploadId u bucket key declaredParts b = (Inr r, b')"
    and "plain = concat (map snd (sort_key fst D))"
  shows "\<exists>info. fst (getDownloadInfo E secret uploadId u b') = Inr info \<and> sourceHolds renv (di_source info) plain \<and> di_size info = int (length plain)"
  using complete_download [OF _ parts_uploaded assms(4,5,6)] parts_sent [OF assms(1-4)] assms(7) by blast


subsection \<open>A run\<close>

text \<open>A Telegram whose file ids spell the bytes they stand for.\<close>

definition spelled :: "buffer \<Rightarrow> string" where
  "spelled bs = map (\<lambda>w. char_of (unat w)) bs"

definition spellingEnv :: read_env where
  "spellingEnv = \<lparr>rv_cipher = demoCipher, rv_sha256 = id, rv_botAvailable = (\<lambda>_. True), rv_mainBot = 1, rv_fileLink = (\<lambda>f b. Inr (the f)),
     rv_recover = (\<lambda>_. Inl Diverges), rv_fetch = (\<lambda>url r. Inr (True, Some ([pieceOf r (textBytes url)], None))),
     rv_temp = (\<lambda>key r. Inl Diverges)\<rparr>"

definition spellingPart :: "string \<Rightarrow> part_env" where
  "spellingPart newId = \<lparr>pe_cipher = demoCipher, pe_secret = replicate 32 7, pe_md5 = (\<lambda>_. replicate 32 (CHR ''a'')), pe_iv = replicate 16 3,
     pe_newId = newId, pe_telegram = (\<lambda>sent. Some (spelled sent, 5, 1)), pe_left = []\<rparr>"

lemma textBytes_spelled: "textBytes (spelled bs) = bs"
proof (induction bs)
  case (Cons w bs)
  have "unat w < 256" using unsigned_less [of w] by simp
  with Cons show ?case by (simp add: textBytes_def spelled_def)
qed (simp add: textBytes_def spelled_def)

lemma spelling_keeps: "keepsParts demoCipher (replicate 32 7) spellingEnv (spellingPart newId)"
  by (auto simp: keepsParts_def spellingPart_def spellingEnv_def messageHolds_def linkOf_def answersRanges_def okBody_def textBytes_spelled)

definition multipartDemo :: "string \<Rightarrow> backend" where
  "multipartDemo wrapped = emptyBackend\<lparr>bk_users := [newUserRow ''u'' ''alice'' ''x'' 0], bk_folders := [newFolderRow ''bk'' ''docs'' None ''u'' 0],
     bk_files := [(newFileRow ''up'' ''a.bin'' 0 (Some ''bk'') ''u'' 0)\<lparr>fr_status := Uploading, fr_isChunked := True, fr_isEncrypted := True,
       fr_encryptedKey := Some wrapped\<rparr>]\<rparr>"

definition bufferOff :: buffer_env where
  "bufferOff = \<lparr>be_capacityOk = False, be_writeOk = False, be_md5 = [], be_dispatchToGo = False, be_accepted = None\<rparr>"

definition secondPart :: "(string \<times> int) bop" where
  "secondPart = uploadPart (spellingPart ''c2'') bufferOff False 3 ''up'' 2 ''u'' 1 [3]"

definition firstPart :: "(string \<times> int) bop" where
  "firstPart = uploadPart (spellingPart ''c1'') bufferOff False 4 ''up'' 1 ''u'' 2 [1, 2]"

definition demoManifest :: "completed_part list" where
  "demoManifest = [\<lparr>cp_partNumber = 1, cp_etag = replicate 32 (CHR ''a'')\<rparr>, \<lparr>cp_partNumber = 2, cp_etag = replicate 32 (CHR ''a'')\<rparr>]"

definition finishDemo :: "(string \<times> string) bop" where
  "finishDemo = completeMultipartUpload (\<lambda>_. replicate 32 (CHR ''a'')) 9 ''up'' ''u'' ''docs'' ''a.bin'' demoManifest"

definition demoPart :: "string \<Rightarrow> int \<Rightarrow> buffer \<Rightarrow> chunk_row" where
  "demoPart i k d = (newChunkRow i ''up'' k (int (length d)))\<lparr>
     ck_telegramFileId := Some (spelled (xorStream demoCipher (replicate 32 9) (replicate 16 3) 0 d)), ck_telegramMessageId := Some 5, ck_botId := 1,
     ck_encryptionIv := Some (toHex (replicate 16 3)), ck_etag := Some (quoted (replicate 32 (CHR ''a'')))\<rparr>"

definition demoState :: "string \<Rightarrow> int \<Rightarrow> chunk_row list \<Rightarrow> backend" where
  "demoState w now cs = (multipartDemo w)\<lparr>bk_files := updateWhere (\<lambda>x. fr_id x = ''up'') (\<lambda>r. r\<lparr>fr_updatedAt := now\<rparr>) (bk_files (multipartDemo w)), bk_chunks := cs\<rparr>"

lemma demo_crypt: "ctrCrypt demoCipher (replicate 32 9) (replicate 16 3) d = Inr (xorStream demoCipher (replicate 32 9) (replicate 16 3) 0 d)"
  by (simp add: ctrCrypt_def createCipheriv_def cipherWrite_def)

lemma demo_second:
  assumes "decryptKey demoCipher (replicate 32 7) w = Inr (replicate 32 9)"
  shows "secondPart (multipartDemo w) = (Inr (quoted (replicate 32 (CHR ''a'')), 1), demoState w 3 [demoPart ''c2'' 1 [3]])"
  unfolding secondPart_def uploadPart_def
  by (simp add: Let_def op_simps thenOp_def bindOp_def multipartDemo_def newFileRow_def updateFile_def findFile_def writeFiles_def activeUnique_def activeKeys_def
    setFiles_def findChunk_def emptyBackend_def uploadPartDirect_def spellingPart_def assms demo_crypt createChunk_def newChunkRow_def setChunks_def
    demoState_def demoPart_def)

lemma demo_first:
  assumes "decryptKey demoCipher (replicate 32 7) w = Inr (replicate 32 9)"
  shows "firstPart (demoState w 3 [demoPart ''c2'' 1 [3]]) = (Inr (quoted (replicate 32 (CHR ''a'')), 2), demoState w 4 [demoPart ''c2'' 1 [3], demoPart ''c1'' 0 [1, 2]])"
  unfolding firstPart_def uploadPart_def
  by (simp add: Let_def op_simps thenOp_def bindOp_def multipartDemo_def newFileRow_def updateFile_def findFile_def writeFiles_def activeUnique_def activeKeys_def
    setFiles_def findChunk_def emptyBackend_def uploadPartDirect_def spellingPart_def assms demo_crypt createChunk_def newChunkRow_def setChunks_def
    demoState_def demoPart_def)


definition demoFull :: "string \<Rightarrow> backend" where
  "demoFull w = demoState w 4 [demoPart ''c2'' 1 [3], demoPart ''c1'' 0 [1, 2]]"

lemma demo_check:
  obtains m where "checkCompletion (\<lambda>_. replicate 32 (CHR ''a'')) ''up'' ''u'' ''docs'' ''a.bin'' demoManifest (demoFull w) = (Inr (Inr m), demoFull w)"
    "cm_fileId m = ''up''" "cm_userId m = ''u''" "cm_size m = 3" "cm_replaced m = []"
proof -
  let ?b = "demoFull w"
  have parts: "pathParts ''a.bin'' = [''a.bin'']" by code_simp
  have "resolveKey ''u'' ''docs'' ''a.bin'' False unusedId 0 ?b = (Inr (''bk'', ''a.bin''), ?b)"
    by (simp add: resolveKey_def resolveKeyUnderFolder_def parts op_simps demoFull_def demoState_def multipartDemo_def emptyBackend_def newFolderRow_def
        liveChild_def unlessOp_def)
  moreover have "chunkRowsOf ''up'' ?b = [demoPart ''c1'' 0 [1, 2], demoPart ''c2'' 1 [3]]"
    by (simp add: chunkRowsOf_def demoFull_def demoState_def demoPart_def newChunkRow_def)
  moreover have "validateMultipartManifest demoManifest
      [(0, Some (quoted (replicate 32 (CHR ''a'')))), (1, Some (quoted (replicate 32 (CHR ''a''))))] = None"
    by code_simp
  moreover have "ck_chunkIndex (demoPart i k d) = k \<and> ck_etag (demoPart i k d) = Some (quoted (replicate 32 (CHR ''a''))) \<and> ck_size (demoPart i k d) = int (length d)"
    for i k d by (simp add: demoPart_def newChunkRow_def)
  moreover obtain f where "bk_files ?b = [f]" "fr_id f = ''up''" "fr_userId f = ''u''" "fr_deletedAt f = None" "fr_folderId f = Some ''bk''"
    "fr_filename f = ''a.bin''" "fr_status f = Uploading"
    by (simp add: demoFull_def demoState_def multipartDemo_def newFileRow_def)
  ultimately have "checkCompletion (\<lambda>_. replicate 32 (CHR ''a'')) ''up'' ''u'' ''docs'' ''a.bin'' demoManifest ?b =
      (Inr (Inr \<lparr>cm_fileId = ''up'', cm_userId = ''u'', cm_count = 2, cm_size = 3,
        cm_etag = finalEtag (\<lambda>_. replicate 32 CHR ''a'') [demoPart ''c1'' 0 [1, 2], demoPart ''c2'' 1 [3]], cm_replaced = []\<rparr>), ?b)"
    by (simp add: checkCompletion_def op_simps bindOp_def findObjectRecords_def catchOp_def)
  then show ?thesis by (rule that) simp_all
qed

text \<open>A completion of the only file of the only user succeeds.\<close>

lemma only_completion:
  assumes "bk_files b = [f]" and "bk_users b = [v]" and "fr_id f = cm_fileId m" and "usr_id v = cm_userId m" and "cm_replaced m = []"
  shows "completionTx now m b = (Inr (), b\<lparr>bk_files := [completedRow m f], bk_users := [v\<lparr>usr_usedSpace := usr_usedSpace v + cm_size m\<rparr>]\<rparr>)"
  using assms by (simp add: completionTx_def transactionOp_def thenOp_def bindOp_def op_simps updateFile_def findFile_def writeFiles_def activeUnique_def
    activeKeys_def updateUser_def findUser_def whenOp_def setFiles_def setUsers_def)

lemma demo_rows:
  obtains f where "bk_files (demoFull w) = [f]" "fr_id f = ''up''" "bk_users (demoFull w) = [newUserRow ''u'' ''alice'' ''x'' 0]"
  by (simp add: demoFull_def demoState_def multipartDemo_def newFileRow_def)

lemma demo_finish: "\<exists>r. fst (finishDemo (demoFull w)) = Inr r"
proof -
  obtain m where m: "checkCompletion (\<lambda>_. replicate 32 (CHR ''a'')) ''up'' ''u'' ''docs'' ''a.bin'' demoManifest (demoFull w) = (Inr (Inr m), demoFull w)"
    "cm_fileId m = ''up''" "cm_userId m = ''u''" "cm_replaced m = []" by (rule demo_check)
  obtain f where rows: "bk_files (demoFull w) = [f]" "fr_id f = ''up''" "bk_users (demoFull w) = [newUserRow ''u'' ''alice'' ''x'' 0]" by (rule demo_rows)
  show ?thesis
    using m(1) only_completion [OF rows(1,3), of m 9] m(2-4) rows(2)
    by (simp add: finishDemo_def completeMultipartUpload_def op_simps thenOp_def bindOp_def newUserRow_def)
qed

theorem multipart_download_witness:
  "\<exists>w b1 b2 b3 r info. secondPart (multipartDemo w) = (Inr (quoted (replicate 32 (CHR ''a'')), 1), b1) \<and>
     firstPart b1 = (Inr (quoted (replicate 32 (CHR ''a'')), 2), b2) \<and> finishDemo b2 = (Inr r, b3) \<and>
     fst (getDownloadInfo demoCipher (replicate 32 7) ''up'' ''u'' b3) = Inr info \<and>
     sourceHolds spellingEnv (di_source info) [1, 2, 3] \<and> di_size info = 3"
proof -
  obtain w where enc: "encryptKey demoCipher (replicate 32 7) (replicate 16 1) (replicate 32 9) = Inr w" "w \<noteq> []"
    by (simp add: encryptKey_def ctrCrypt_def createCipheriv_def)
  note w = wrapped_keys [OF enc(1)] enc(2)
  let ?b1 = "demoState w 3 [demoPart ''c2'' 1 [3]]" and ?b2 = "demoFull w"
  obtain r where "fst (finishDemo ?b2) = Inr r" using demo_finish by blast
  then obtain b3 where fin: "finishDemo ?b2 = (Inr r, b3)" by (cases "finishDemo ?b2") simp
  have "partsSent demoCipher (replicate 32 7) spellingEnv ''up'' ''u'' (multipartDemo w) ([] @ [(2 - 1, [3])]) ?b1"
    by (rule partsSent.sent [OF partsSent.begun _ _ spelling_keeps demo_second [OF w(1), unfolded secondPart_def]]) simp_all
  then have "partsSent demoCipher (replicate 32 7) spellingEnv ''up'' ''u'' (multipartDemo w) (([] @ [(2 - 1, [3])]) @ [(1 - 1, [1, 2])]) ?b2"
    by (rule partsSent.sent [OF _ _ _ spelling_keeps demo_first [OF w(1), unfolded firstPart_def, folded demoFull_def]]) simp_all
  then have "partsSent demoCipher (replicate 32 7) spellingEnv ''up'' ''u'' (multipartDemo w) [(1, [3]), (0, [1, 2])] ?b2" by simp
  moreover have "openUpload ''up'' ''u'' w (multipartDemo w)" "chunksOf ''up'' (multipartDemo w) = []"
    by (simp_all add: openUpload_def multipartDemo_def newFileRow_def chunksOf_def emptyBackend_def)
  moreover have "[1, 2, 3] = concat (map snd (sort_key fst [(1 :: int, [3 :: 8 word]), (0, [1, 2])]))" by simp
  ultimately obtain info where "fst (getDownloadInfo demoCipher (replicate 32 7) ''up'' ''u'' b3) = Inr info"
     "sourceHolds spellingEnv (di_source info) [1, 2, 3]" "di_size info = int (length [1 :: 8 word, 2, 3])"
    using multipart_download [OF _ _ _ w fin [unfolded finishDemo_def]] by blast
  then show ?thesis
    using demo_second [OF w(1)] demo_first [OF w(1), folded demoFull_def] fin by (intro exI conjI) (assumption | simp)+
qed


subsection \<open>What an upload is charged\<close>

definition countable :: "backend \<Rightarrow> bool" where
  "countable b \<longleftrightarrow> accounted b \<and> (\<forall>c \<in> set (bk_chunks b). 0 \<le> ck_size c)"

lemma charged_updateWhere:
  assumes "\<And>x. P x \<Longrightarrow> fr_userId (g x) = fr_userId x \<and> completeSize (g x) = completeSize x"
  shows "charged v (updateWhere P g fs) = charged v fs"
  using assms by (induction fs) auto

lemma charged_row:
  assumes "distinct (map fr_id fs)" and "f \<in> set fs" and "\<And>x. fr_userId (g x) = fr_userId x"
  shows "charged v (updateWhere (\<lambda>x. fr_id x = fr_id f) g fs) = charged v fs + (if v = fr_userId f then completeSize (g f) - completeSize f else 0)"
  using assms
proof (induction fs)
  case (Cons a fs)
  show ?case
  proof (cases "f = a")
    case True
    have "updateWhere (\<lambda>x. fr_id x = fr_id f) g fs = fs" using Cons.prems(1) True by (intro updateWhere_none) (auto simp: image_iff)
    with True Cons.prems(3) show ?thesis by simp
  next
    case False
    with Cons show ?thesis by auto
  qed
qed simp

lemma charged_completion:
  assumes "distinct (map fr_id fs)" and "f \<in> set fs" and "fr_id f = cm_fileId m"
  shows "charged v (updateWhere (replacedBy m) (\<lambda>r. r\<lparr>fr_deletedAt := Some now\<rparr>) (updateWhere (\<lambda>x. fr_id x = cm_fileId m) (completedRow m) fs)) =
    charged v fs + (if v = fr_userId f then cm_size m - completeSize f else 0)"
proof -
  have "charged v (updateWhere (\<lambda>x. fr_id x = fr_id f) (completedRow m) fs) = charged v fs + (if v = fr_userId f then completeSize (completedRow m f) - completeSize f else 0)"
    by (rule charged_row [OF assms(1,2)]) (simp add: completedRow_def)
  then show ?thesis
    by (subst charged_updateWhere) (simp_all add: assms(3) completeSize_def completedRow_def)
qed

text \<open>A completion of an upload, as a change of what the user is charged.\<close>

lemma completion_charge:
  assumes "completionTx now m b = (Inr r, b')" and "distinct (map fr_id (bk_files b))" and "f \<in> set (bk_files b)"
    and "fr_id f = cm_fileId m" and "fr_userId f = cm_userId m"
  shows "charged v (bk_files b') = charged v (bk_files b) + (if v = cm_userId m then cm_size m - completeSize f else 0) \<and>
    bk_users b' = updateWhere (\<lambda>u. usr_id u = cm_userId m) (\<lambda>u. u\<lparr>usr_usedSpace := usr_usedSpace u + cm_size m\<rparr>) (bk_users b)"
  using completionTx_result [OF assms(1)] charged_completion [OF assms(2-4)] assms(5) by simp


definition sameTables :: "backend \<Rightarrow> backend \<Rightarrow> bool" where
  "sameTables a b \<longleftrightarrow> bk_users b = bk_users a \<and> bk_files b = bk_files a \<and> bk_chunks b = bk_chunks a"

lemma keeps_resolve_tables: "keeps (sameTables a) (resolveKey u bucket key c g t)"
  unfolding resolveKey_def resolveKeyUnderFolder_def enterFolder_def Let_def
  by (intro keeps_intros)
    (auto split: prod.split option.split intro!: keeps_intros keeps_modify simp: insertFolder_def createBucket_def sameTables_def setFolders_def)

lemma keeps_countable_tables:
  assumes "\<And>a. keeps (sameTables a) m"
  shows "keeps countable m"
proof (rule keepsI)
  fix b assume "countable b"
  moreover have "sameTables b (snd (m b))" using keepsD [OF assms [of b], of b] by (simp add: sameTables_def)
  ultimately show "countable (snd (m b))" by (simp add: countable_def accounted_def sameTables_def)
qed

lemma countable_files:
  assumes "countable b" and "\<And>v. charged v fs = charged v (bk_files b)" and "distinct (map fr_id fs)" and "\<forall>f \<in> set fs. 0 \<le> fr_size f"
  shows "countable (b\<lparr>bk_files := fs\<rparr>)"
  using assms by (simp add: countable_def accounted_def)

lemma countable_touch:
  assumes "countable b"
  shows "countable (snd (updateFile uploadId (\<lambda>r. r\<lparr>fr_updatedAt := now\<rparr>) b))"
proof -
  have "countable (b\<lparr>bk_files := updateWhere (\<lambda>x. fr_id x = uploadId) (\<lambda>r. r\<lparr>fr_updatedAt := now\<rparr>) (bk_files b)\<rparr>)"
    using assms by (intro countable_files charged_updateWhere)
      (auto simp: completeSize_def countable_def accounted_def map_updateWhere_key set_updateWhere)
  with assms show ?thesis by (simp add: updateFile_def writeFiles_def op_simps setFiles_def split: option.split)
qed

lemma keeps_countable_touch: "keeps countable (updateFile uploadId (\<lambda>r. r\<lparr>fr_updatedAt := now\<rparr>))"
  by (rule keepsI) (rule countable_touch)

lemma keeps_createChunk: "0 \<le> ck_size c \<Longrightarrow> keeps countable (createChunk c)"
  unfolding createChunk_def by (intro keeps_intros) (auto intro!: keeps_intros keeps_modify simp: countable_def accounted_def setChunks_def)

lemma keeps_countable_side [keeps_intros]:
  "keeps countable (modifyOp (emit es))" "keeps countable (keepTemp key)" "keeps countable (dropTemp key)" "keeps countable (dropChunks P)"
  by (auto simp: keeps_def op_simps countable_def accounted_def emit_def keepTemp_def dropTemp_def dropChunks_def setChunks_def deleteWhere_def)

lemma keeps_acceptChunk: "0 \<le> sz \<Longrightarrow> keeps countable (acceptChunk newId iv env sz fid k)"
  unfolding acceptChunk_def Let_def
  by (intro keeps_intros keeps_createChunk) (simp_all add: newChunkRow_def)

lemma keeps_uploadPartDirect: "keeps countable (uploadPartDirect env f k d)"
  unfolding uploadPartDirect_def
  by (auto split: option.split sum.split prod.split intro!: keeps_intros keeps_createChunk simp: newChunkRow_def)

lemma keeps_uploadPart: "keeps countable (uploadPart env benv c now uploadId n u cl d)"
  unfolding uploadPart_def Let_def
  by (intro keeps_intros keeps_countable_touch keeps_acceptChunk keeps_uploadPartDirect) simp

lemma keeps_createMultipartUpload:
  assumes "countable b" and "newId \<notin> fr_id ` set (bk_files b)"
  shows "countable (snd (createMultipartUpload newId keys g now u bucket key ct b))"
proof -
  let ?r = "\<lambda>folderId. (encrypted keys (newFileRow newId (lastSegment key) 0 (orNull (Some folderId)) u now))
           \<lparr>fr_mimeType := (if ct = [] then ''application/octet-stream'' else ct), fr_isChunked := True,
            fr_totalChunks := SENTINEL_TOTAL_CHUNKS, fr_status := Uploading\<rparr>"
  have same: "sameTables b (snd (resolveKey u bucket key True g now b))"
    using keepsD [OF keeps_resolve_tables [of b], of b] by (simp add: sameTables_def)
  have row: "fr_id (?r x) = newId" "fr_size (?r x) = 0" "completeSize (?r x) = 0" for x
    by (simp_all add: encrypted_def newFileRow_def completeSize_def)
  have "countable (snd (thenOp (createFile (?r x)) (returnOp newId) b1))" if "sameTables b b1" for x b1
  proof -
    have c: "countable b1" "newId \<notin> fr_id ` set (bk_files b1)" using that assms by (auto simp: sameTables_def countable_def accounted_def)
    then have "countable (b1\<lparr>bk_files := bk_files b1 @ [?r x]\<rparr>)"
      by (intro countable_files) (use row in \<open>auto simp: charged_append countable_def accounted_def\<close>)
    with c(1) show ?thesis by (simp add: createFile_def writeFiles_def op_simps thenOp_def bindOp_def setFiles_def)
  qed
  with same show ?thesis
    by (cases "resolveKey u bucket key True g now b"; cases "fst (resolveKey u bucket key True g now b)")
      (use assms(1) in \<open>auto simp: createMultipartUpload_def bindOp_def countable_def accounted_def sameTables_def\<close>)
qed


lemma completed_sizes:
  assumes "\<forall>f \<in> set fs. 0 \<le> fr_size f" and "0 \<le> cm_size m"
  shows "\<forall>f \<in> set (updateWhere (replacedBy m) (\<lambda>r. r\<lparr>fr_deletedAt := Some now\<rparr>) (updateWhere (\<lambda>x. fr_id x = cm_fileId m) (completedRow m) fs)). 0 \<le> fr_size f"
  using assms by (auto simp: set_updateWhere completedRow_def)

lemma completed_ids:
  "map fr_id (updateWhere (replacedBy m) (\<lambda>r. r\<lparr>fr_deletedAt := Some now\<rparr>) (updateWhere (\<lambda>x. fr_id x = cm_fileId m) (completedRow m) fs)) = map fr_id fs"
  by (simp add: map_updateWhere_key completedRow_def)

text \<open>A checked upload is a row of the user that is not complete, and its parts are what it will be charged.\<close>

lemma check_row:
  assumes "checkCompletion md5 uploadId u bucket key declaredParts b = (Inr (Inr m), b1)"
  shows "\<exists>f \<in> set (bk_files b). fr_id f = cm_fileId m \<and> fr_userId f = cm_userId m \<and> completeSize f = 0"
proof -
  from assms obtain f where f: "find (\<lambda>f. fr_id f = uploadId \<and> fr_userId f = u) (bk_files b) = Some f"
    by (cases "find (\<lambda>f. fr_id f = uploadId \<and> fr_userId f = u) (bk_files b)") (auto simp: checkCompletion_def op_simps)
  with assms have "fr_status f \<noteq> Complete"
    by (auto simp: checkCompletion_def op_simps split: if_splits option.splits prod.splits elim!: bind_result)
  with find_SomeD [OF f] check_result [OF assms] show ?thesis by (auto simp: completeSize_def)
qed

lemma completion_countable:
  assumes "countable b" and "checkCompletion md5 uploadId u bucket key declaredParts b0 = (Inr (Inr m), b0')"
    and "completionTx now m b = (Inr r, b')" and "f \<in> set (bk_files b)" "fr_id f = cm_fileId m" "fr_userId f = cm_userId m" "completeSize f = 0"
    and "0 \<le> cm_size m"
  shows "countable b'"
proof -
  have dis: "distinct (map fr_id (bk_files b))" using assms(1) by (simp add: countable_def accounted_def)
  note tx = completionTx_result [OF assms(3)]
  note ch = completion_charge [OF assms(3) dis assms(4-6)]
  have "distinct (map usr_id (bk_users b'))" using tx assms(1) by (simp add: map_updateWhere_key countable_def accounted_def)
  moreover have "distinct (map fr_id (bk_files b'))" using tx dis completed_ids [of m now "bk_files b"] by simp
  moreover have "\<forall>f \<in> set (bk_files b'). 0 \<le> fr_size f"
    using tx completed_sizes [of "bk_files b" m now] assms(1,8) by (simp add: countable_def accounted_def)
  moreover have "\<forall>v \<in> set (bk_users b'). usr_usedSpace v = charged (usr_id v) (bk_files b')"
    using tx ch assms(1,7) by (auto simp: set_updateWhere countable_def accounted_def)
  moreover have "\<forall>c \<in> set (bk_chunks b'). 0 \<le> ck_size c" using tx assms(1) by (simp add: countable_def)
  ultimately show ?thesis by (simp add: countable_def accounted_def)
qed

lemma checked_size:
  assumes "checkCompletion md5 uploadId u bucket key declaredParts b = (Inr (Inr m), b1)" and "countable b"
  shows "0 \<le> cm_size m"
  using check_result [OF assms(1)] assms(2) by (auto simp: countable_def chunkRowsOf_def intro!: sum_list_nonneg)

lemma completionTx_error: "completionTx now m b = (Inl e, b') \<Longrightarrow> b' = b"
  by (auto simp: completionTx_def transactionOp_def split: prod.splits sum.splits)

lemma keeps_completeMultipartUpload: "keeps countable (completeMultipartUpload md5 now uploadId u bucket key declaredParts)"
proof (rule keepsI)
  fix b assume c: "countable b"
  let ?check = "checkCompletion md5 uploadId u bucket key declaredParts b"
  have same: "snd ?check = b" using keepsD [OF keeps_check_completion [of "(=) b"], of b] by simp
  show "countable (snd (completeMultipartUpload md5 now uploadId u bucket key declaredParts b))"
  proof (cases "\<exists>m. ?check = (Inr (Inr m), b)")
    case True
    then obtain m where m: "?check = (Inr (Inr m), b)" by blast
    from check_row [OF m] obtain f where "f \<in> set (bk_files b)" "fr_id f = cm_fileId m" "fr_userId f = cm_userId m" "completeSize f = 0" by blast
    note charged_once = completion_countable [OF c m _ this checked_size [OF m c]]
    obtain q b' where tx: "completionTx now m b = (q, b')" by (cases "completionTx now m b")
    show ?thesis
      using m tx charged_once completionTx_error [of now m b] c
      by (cases q) (auto simp: completeMultipartUpload_def bindOp_def thenOp_def op_simps)
  next
    case False
    with same c show ?thesis
      by (cases ?check; cases "fst ?check") (auto simp: completeMultipartUpload_def bindOp_def op_simps split: sum.split)
  qed
qed

lemma keeps_abortMultipartUpload: "keeps countable (abortMultipartUpload uploadId u)"
proof (rule keepsI)
  fix b assume c: "countable b"
  show "countable (snd (abortMultipartUpload uploadId u b))"
  proof (cases "find (\<lambda>f. fr_id f = uploadId \<and> fr_userId f = u) (bk_files b)")
    case None
    with c show ?thesis by (simp add: abortMultipartUpload_def op_simps)
  next
    case (Some f)
    from find_SomeD [OF Some] have f: "f \<in> set (bk_files b)" "fr_id f = uploadId" by auto
    let ?b = "emit (map (\<lambda>m. TelegramPurge [m]) (concat (map (\<lambda>c. messageOf (ck_telegramMessageId c) (ck_botId c)) (chunksOf uploadId b)))) b"
    have c': "countable ?b" using c by (simp add: countable_def accounted_def emit_def)
    have "countable (deleteFilesWhere (\<lambda>r. fr_id r = uploadId) ?b)" if "fr_status f \<noteq> Complete"
    proof -
      have "r = f" if "r \<in> set (bk_files b)" "fr_id r = uploadId" for r
        using c f that by (auto simp: countable_def accounted_def distinct_map inj_on_def)
      with that have "accounted (deleteFilesWhere (\<lambda>r. fr_id r = uploadId) ?b)"
        using c' by (intro accounted_free_delete) (auto simp: countable_def emit_def completeSize_def)
      moreover have "\<forall>c \<in> set (bk_chunks (deleteFilesWhere (\<lambda>r. fr_id r = uploadId) ?b)). 0 \<le> ck_size c"
        using c' by (auto simp: countable_def deleteFilesWhere_def Let_def deleteWhere_def)
      ultimately show ?thesis by (simp add: countable_def)
    qed
    with Some c c' show ?thesis
      by (auto simp: abortMultipartUpload_def op_simps thenOp_def bindOp_def unlessOp_def Let_def removeFile_def split: option.split)
  qed
qed


inductive multipartStep :: "backend \<Rightarrow> backend \<Rightarrow> bool" where
  creates: "newId \<notin> fr_id ` set (bk_files b) \<Longrightarrow> multipartStep b (snd (createMultipartUpload newId keys g now u bucket key ct b))"
| uploads: "multipartStep b (snd (uploadPart env benv c now uploadId n u cl d b))"
| completes: "multipartStep b (snd (completeMultipartUpload md5 now uploadId u bucket key declaredParts b))"
| aborts: "multipartStep b (snd (abortMultipartUpload uploadId u b))"

text \<open>
  C28. Whatever the order of uploads created, parts sent, uploads completed and uploads aborted one after another, every user
  is charged exactly the sizes of the complete files.
\<close>
theorem multipart_accounting:
  assumes "multipartStep\<^sup>*\<^sup>* b0 b" and "countable b0" and "v \<in> set (bk_users b)"
  shows "usr_usedSpace v = charged (usr_id v) (bk_files b)"
proof -
  have "countable b'" if "multipartStep b b'" "countable b" for b b'
    using that by (cases rule: multipartStep.cases)
      (auto intro: keeps_createMultipartUpload keepsD [OF keeps_uploadPart] keepsD [OF keeps_completeMultipartUpload] keepsD [OF keeps_abortMultipartUpload])
  with assms(1,2) have "countable b" by (induction rule: rtranclp_induct) blast+
  with assms(3) show ?thesis by (simp add: countable_def accounted_def)
qed

theorem multipart_accounting_witness:
  "\<exists>b v. multipartStep\<^sup>*\<^sup>* (demoFull ''k'') b \<and> bk_users b = [v] \<and> usr_usedSpace v = charged (usr_id v) (bk_files b) \<and> usr_usedSpace v = 3"
proof -
  let ?b0 = "demoFull ''k''"
  obtain m where m: "checkCompletion (\<lambda>_. replicate 32 (CHR ''a'')) ''up'' ''u'' ''docs'' ''a.bin'' demoManifest ?b0 = (Inr (Inr m), ?b0)"
    "cm_fileId m = ''up''" "cm_userId m = ''u''" "cm_size m = 3" "cm_replaced m = []" by (rule demo_check)
  obtain f where rows: "bk_files ?b0 = [f]" "fr_id f = ''up''" "bk_users ?b0 = [newUserRow ''u'' ''alice'' ''x'' 0]" by (rule demo_rows)
  obtain b where b: "completionTx 9 m ?b0 = (Inr (), b)" "bk_users b = [(newUserRow ''u'' ''alice'' ''x'' 0)\<lparr>usr_usedSpace := 3\<rparr>]"
    using only_completion [OF rows(1,3), of m 9] m(2-5) rows(2) by (simp add: newUserRow_def)
  then have "snd (finishDemo ?b0) = b"
    using m(1) by (simp add: finishDemo_def completeMultipartUpload_def op_simps thenOp_def bindOp_def)
  moreover have "multipartStep\<^sup>*\<^sup>* ?b0 (snd (finishDemo ?b0))"
    unfolding finishDemo_def by (rule r_into_rtranclp) (rule multipartStep.completes)
  ultimately have step: "multipartStep\<^sup>*\<^sup>* ?b0 b" by simp
  have "countable ?b0"
    by (simp add: countable_def accounted_def demoFull_def demoState_def multipartDemo_def newUserRow_def newFileRow_def completeSize_def demoPart_def
        newChunkRow_def)
  from multipart_accounting [OF step this] b(2) step show ?thesis by (intro exI [of _ b]) simp
qed

text \<open>
  Two completions of one upload that both check before either writes charge the user twice for it: nothing in the
  transaction looks at the status again.
\<close>
theorem completion_race:
  assumes "countable b" and "checkCompletion md5 uploadId u bucket key parts b = (Inr (Inr m), b)"
    and "checkCompletion md5' uploadId u bucket' key' parts' b = (Inr (Inr m'), b)"
    and "completionTx now m b = (Inr (), b1)" and "completionTx now' m' b1 = (Inr (), b2)"
    and "v \<in> set (bk_users b2)" and "usr_id v = u"
  shows "usr_usedSpace v = charged u (bk_files b2) + sum_list (map ck_size (chunkRowsOf uploadId b))"
proof -
  note m = check_result [OF assms(2)] and m' = check_result [OF assms(3)]
  from check_row [OF assms(2)] obtain f where f: "f \<in> set (bk_files b)" "fr_id f = cm_fileId m" "fr_userId f = cm_userId m" "completeSize f = 0" by blast
  have c: "countable b1" by (rule completion_countable [OF assms(1,2,4) f checked_size [OF assms(2,1)]])
  have "\<not> replacedBy m (completedRow m f)" using m f(2) by (simp add: replacedBy_def completedRow_def)
  then have mem: "completedRow m f \<in> set (bk_files b1)"
    using f(1,2) by (simp only: completionTx_result [OF assms(4)] set_updateWhere image_image) (intro image_eqI [of _ _ f]; simp)
  have dis: "distinct (map fr_id (bk_files b1))" using c by (simp add: countable_def accounted_def)
  have "fr_id (completedRow m f) = cm_fileId m'" "fr_userId (completedRow m f) = cm_userId m'" "completeSize (completedRow m f) = cm_size m'"
    using f m m' by (simp_all add: completedRow_def completeSize_def)
  note charge = completion_charge [OF assms(5) dis mem this(1,2)] this(3)
  have "charged u (bk_files b2) = charged u (bk_files b1)" using charge by simp
  moreover from assms(6) charge m' obtain x where "x \<in> set (bk_users b1)"
    "v = (if usr_id x = u then x\<lparr>usr_usedSpace := usr_usedSpace x + cm_size m'\<rparr> else x)" by (auto simp: set_updateWhere)
  moreover from this(2) assms(7) have "usr_id x = u" by (cases "usr_id x = u") simp_all
  ultimately show ?thesis using c m' by (simp add: countable_def accounted_def)
qed


theorem completion_race_witness:
  "\<exists>m b1 b2 v. checkCompletion (\<lambda>_. replicate 32 (CHR ''a'')) ''up'' ''u'' ''docs'' ''a.bin'' demoManifest (demoFull ''k'') = (Inr (Inr m), demoFull ''k'') \<and>
     completionTx 7 m (demoFull ''k'') = (Inr (), b1) \<and> completionTx 8 m b1 = (Inr (), b2) \<and> bk_users b2 = [v] \<and>
     usr_usedSpace v = 6 \<and> charged ''u'' (bk_files b2) = 3"
proof -
  obtain m where m: "checkCompletion (\<lambda>_. replicate 32 (CHR ''a'')) ''up'' ''u'' ''docs'' ''a.bin'' demoManifest (demoFull ''k'') = (Inr (Inr m), demoFull ''k'')"
    "cm_fileId m = ''up''" "cm_userId m = ''u''" "cm_size m = 3" "cm_replaced m = []" by (rule demo_check)
  obtain f where rows: "bk_files (demoFull ''k'') = [f]" "fr_id f = ''up''" "bk_users (demoFull ''k'') = [newUserRow ''u'' ''alice'' ''x'' 0]" by (rule demo_rows)
  let ?v = "(newUserRow ''u'' ''alice'' ''x'' 0)\<lparr>usr_usedSpace := 3\<rparr>" and ?w = "(newUserRow ''u'' ''alice'' ''x'' 0)\<lparr>usr_usedSpace := 6\<rparr>"
  obtain b1 where b1: "completionTx 7 m (demoFull ''k'') = (Inr (), b1)" "bk_files b1 = [completedRow m f]" "bk_users b1 = [?v]"
    using only_completion [OF rows(1,3), of m 7] m(2-5) rows(2) by (simp add: newUserRow_def)
  obtain b2 where b2: "completionTx 8 m b1 = (Inr (), b2)" "bk_users b2 = [?w]"
    using only_completion [OF b1(2,3), of m 8] m(2-5) rows(2) by (simp add: newUserRow_def completedRow_def)
  have "countable (demoFull ''k'')"
    by (simp add: countable_def accounted_def demoFull_def demoState_def multipartDemo_def newUserRow_def newFileRow_def completeSize_def demoPart_def
        newChunkRow_def)
  from completion_race [OF this m(1) m(1) b1(1) b2(1), of ?w] b2(2) check_result [OF m(1)] m(4)
  have "usr_usedSpace ?w = charged ''u'' (bk_files b2) + 3" by (simp add: newUserRow_def)
  then show ?thesis using m(1) b1(1) b2 by (intro exI conjI) (assumption | simp)+
qed

end
