(* ===== verification/Dispatch.thy ===== *)
theory Dispatch
  imports S3Multipart
begin

section \<open>Moving files to Telegram\<close>

text \<open>
  \<^verbatim>\<open>FileStorageUploadService\<close> (file/file-storage-upload.service.ts) and \<^verbatim>\<open>UploadQueueProcessor\<close>
  (file/upload-queue.processor.ts). Keys and IVs are drawn outside; what Telegram answers is a function of the name and the
  bytes it gets, what the temp storage holds a function of its keys. One run of a job or of an upload is one step, except
  for the counts of two chunk transactions that overlap.
\<close>

record dispatch_env =
  dp_cipher :: block_cipher
  dp_secret :: buffer
  dp_dek :: buffer
  dp_iv :: buffer
  dp_wrapIv :: buffer
  dp_telegram :: "string \<Rightarrow> buffer \<Rightarrow> (string \<times> int \<times> int) option"
  dp_temp :: "string \<Rightarrow> backend_error + buffer"

definition failWith :: "backend_error + 'a \<Rightarrow> 'a bop" where
  "failWith x = (case x of Inl e \<Rightarrow> throwOp e | Inr y \<Rightarrow> returnOp y)"

definition telegramFailed :: backend_error where
  "telegramFailed = PlainError ''Telegram upload failed''"

definition sendToTelegram :: "dispatch_env \<Rightarrow> string \<Rightarrow> buffer \<Rightarrow> (string \<times> int \<times> int) bop" where
  "sendToTelegram env name bytes = (case dp_telegram env name bytes of None \<Rightarrow> throwOp telegramFailed | Some answer \<Rightarrow> returnOp answer)"

text \<open>The fresh key of a file, wrapped, and the bytes under it.\<close>

definition sealBytes :: "dispatch_env \<Rightarrow> buffer \<Rightarrow> (string \<times> buffer) bop" where
  "sealBytes env plain = bindOp (failWith (encryptKey (dp_cipher env) (dp_secret env) (dp_wrapIv env) (dp_dek env))) (\<lambda>wrapped.
     bindOp (failWith (ctrCrypt (dp_cipher env) (dp_dek env) (dp_iv env) plain)) (\<lambda>bytes. returnOp (wrapped, bytes)))"

subsection \<open>Uploads in one piece\<close>

definition sealedRow :: "dispatch_env \<Rightarrow> string \<Rightarrow> file_row \<Rightarrow> file_row" where
  "sealedRow env wrapped r = r\<lparr>fr_isEncrypted := True, fr_encryptionAlgo := Some AES_CTR, fr_encryptionIv := Some (toHex (dp_iv env)),
     fr_encryptedKey := Some wrapped\<rparr>"

definition landedAt :: "string \<times> int \<times> int \<Rightarrow> file_row \<Rightarrow> file_row" where
  "landedAt answer r = (case answer of (fileId, messageId, botId) \<Rightarrow>
     r\<lparr>fr_telegramFileId := Some fileId, fr_telegramMessageId := Some messageId, fr_botId := botId, fr_status := Complete\<rparr>)"

text \<open>
  Over an existing record: the old messages go before the transaction. \<open>setEtag\<close> is what the caller writes of an entity tag.
\<close>

definition overwriteRecord ::
  "dispatch_env \<Rightarrow> string \<Rightarrow> string \<Rightarrow> string \<Rightarrow> string \<Rightarrow> (file_row \<times> chunk_row list) option \<Rightarrow> int \<Rightarrow> (file_row \<Rightarrow> file_row) \<Rightarrow>
   string \<Rightarrow> buffer \<Rightarrow> file_row bop" where
  "overwriteRecord env existingFileId filename mimeType userId old sz setEtag wrapped bytes =
    (let oldSize = (case old of None \<Rightarrow> 0 | Some (r, _) \<Rightarrow> fr_size r) in
     bindOp (sendToTelegram env existingFileId bytes) (\<lambda>answer.
     thenOp (case old of None \<Rightarrow> returnOp () | Some f \<Rightarrow> purgeFilesFromTelegram [f])
     (thenOp (transactionOp
        (thenOp (updateFile existingFileId (\<lambda>r. setEtag (sealedRow env wrapped (landedAt answer
            (r\<lparr>fr_filename := filename, fr_mimeType := mimeType, fr_size := sz, fr_isChunked := False, fr_totalChunks := 1\<rparr>)))))
          (whenOp (sz - oldSize \<noteq> 0) (chargeQuota userId (sz - oldSize)))))
      (bindOp (getsOp (findFile existingFileId)) (\<lambda>r. returnOp (the r))))))"

text \<open>The body of the transactions: one record becomes complete and its owner is charged.\<close>

definition flipAndCharge :: "string \<Rightarrow> (file_row \<Rightarrow> file_row) \<Rightarrow> string \<Rightarrow> int \<Rightarrow> unit bop" where
  "flipAndCharge fid g userId n = thenOp (updateFile fid g) (chargeQuota userId n)"

text \<open>A new record: created, sent, then complete and charged in one transaction; deleted when that fails.\<close>

definition createAndSend :: "dispatch_env \<Rightarrow> file_row \<Rightarrow> buffer \<Rightarrow> file_row bop" where
  "createAndSend env row bytes =
     thenOp (createFile row)
     (catchOp (bindOp (sendToTelegram env (fr_id row) bytes) (\<lambda>answer.
        thenOp (transactionOp (flipAndCharge (fr_id row) (landedAt answer) (fr_userId row) (fr_size row)))
        (bindOp (getsOp (findFile (fr_id row))) (\<lambda>r. returnOp (the r)))))
      (\<lambda>err. thenOp (removeFile (fr_id row)) (throwOp err)))"

definition oldRecord :: "string option \<Rightarrow> backend \<Rightarrow> (file_row \<times> chunk_row list) option" where
  "oldRecord existingFileId b = (if present existingFileId
     then map_option (\<lambda>r. (r, chunksOf (fr_id r) b)) (findFile (the existingFileId) b) else None)"

text \<open>Both uploads: the size is the length of the buffer or the one that was announced for the stream.\<close>

definition uploadBytes ::
  "dispatch_env \<Rightarrow> string \<Rightarrow> int \<Rightarrow> buffer \<Rightarrow> int \<Rightarrow> string \<Rightarrow> string \<Rightarrow> string \<Rightarrow> string option \<Rightarrow> string option \<Rightarrow>
   (file_row \<Rightarrow> file_row) \<Rightarrow> file_row bop" where
  "uploadBytes env newId now plain sz filename mimeType userId folderId existingFileId setEtag =
     bindOp (getsOp (oldRecord existingFileId)) (\<lambda>old.
     (let quotaDelta = sz - (case old of None \<Rightarrow> 0 | Some (r, _) \<Rightarrow> fr_size r) in
      thenOp (whenOp (quotaDelta > 0) (checkQuota userId quotaDelta))
      (bindOp (sealBytes env plain) (\<lambda>(wrapped, bytes).
        if present existingFileId then overwriteRecord env (the existingFileId) filename mimeType userId old sz setEtag wrapped bytes
        else createAndSend env (setEtag (sealedRow env wrapped ((newFileRow newId filename sz (orNull folderId) userId now)
            \<lparr>fr_mimeType := mimeType, fr_status := Uploading\<rparr>))) bytes))))"

definition uploadFromBuffer ::
  "dispatch_env \<Rightarrow> string \<Rightarrow> int \<Rightarrow> buffer \<Rightarrow> string \<Rightarrow> string \<Rightarrow> string \<Rightarrow> string option \<Rightarrow> string option \<Rightarrow> string option \<Rightarrow> file_row bop" where
  "uploadFromBuffer env newId now plain filename mimeType userId folderId existingFileId etag =
     uploadBytes env newId now plain (int (length plain)) filename mimeType userId folderId existingFileId
       (\<lambda>r. if etag = None then r else r\<lparr>fr_etag := etag\<rparr>)"

definition uploadFromStream ::
  "dispatch_env \<Rightarrow> string \<Rightarrow> int \<Rightarrow> buffer \<Rightarrow> int \<Rightarrow> string \<Rightarrow> string \<Rightarrow> string \<Rightarrow> string option \<Rightarrow> string option \<Rightarrow> string option \<Rightarrow> file_row bop" where
  "uploadFromStream env newId now plain sz filename mimeType userId folderId existingFileId etag =
     uploadBytes env newId now plain sz filename mimeType userId folderId existingFileId
       (\<lambda>r. if present etag then r\<lparr>fr_etag := etag\<rparr> else r)"

definition updateObjectEtag :: "string \<Rightarrow> string \<Rightarrow> unit bop" where
  "updateObjectEtag fileId etag = updateFile fileId (\<lambda>r. r\<lparr>fr_etag := Some etag\<rparr>)"

subsection \<open>Jobs\<close>

datatype job_data =
    FileJob (jd_record: string) (jd_key: string) (jd_user: string)
  | ChunkJob (jd_chunk: string) (jd_record: string) (jd_index: int) (jd_key: string) (jd_user: string)

record upload_job =
  uj_data :: job_data
  uj_attempts :: "int option"
  uj_attemptsMade :: int

definition readTemp :: "dispatch_env \<Rightarrow> string option \<Rightarrow> buffer bop" where
  "readTemp env key = (if \<not> present key then throwOp (PlainError ''tempStorageKey is missing'') else failWith (dp_temp env (the key)))"

definition readAndEncryptFile :: "dispatch_env \<Rightarrow> file_row \<Rightarrow> (string \<times> buffer) bop" where
  "readAndEncryptFile env r = bindOp (readTemp env (fr_tempStorageKey r)) (sealBytes env)"

definition processFileJob :: "dispatch_env \<Rightarrow> string \<Rightarrow> string \<Rightarrow> string \<Rightarrow> unit bop" where
  "processFileJob env recordId tempKey userId = bindOp (getsOp (findFile recordId)) (\<lambda>row. case row of
     None \<Rightarrow> returnOp ()
   | Some r \<Rightarrow> if fr_status r = Complete then returnOp () else if fr_status r \<noteq> Buffered then returnOp () else
       bindOp (readAndEncryptFile env r) (\<lambda>(wrapped, bytes).
       bindOp (sendToTelegram env (fr_id r) bytes) (\<lambda>answer.
       thenOp (transactionOp (flipAndCharge (fr_id r) (\<lambda>x. sealedRow env wrapped (landedAt answer x)\<lparr>fr_tempStorageKey := None\<rparr>)
          userId (fr_size r)))
       (dropTemp tempKey))))"

definition findChunkId :: "string \<Rightarrow> backend \<Rightarrow> chunk_row option" where
  "findChunkId cid b = find (\<lambda>c. ck_id c = cid) (bk_chunks b)"

definition updateChunk :: "string \<Rightarrow> (chunk_row \<Rightarrow> chunk_row) \<Rightarrow> unit bop" where
  "updateChunk cid f = bindOp (getsOp (findChunkId cid)) (\<lambda>c. case c of None \<Rightarrow> throwOp PrismaP2025
   | Some _ \<Rightarrow> modifyOp (setChunks (updateWhere (\<lambda>c. ck_id c = cid) f)))"

text \<open>A chunk is encrypted with the key of its file and the IV it was given, if it has one.\<close>

definition readAndEncryptChunk :: "dispatch_env \<Rightarrow> chunk_row \<Rightarrow> file_row \<Rightarrow> (buffer \<times> string option) bop" where
  "readAndEncryptChunk env c f = bindOp (readTemp env (ck_tempStorageKey c)) (\<lambda>plain.
     if \<not> fr_isEncrypted f \<or> \<not> present (fr_encryptedKey f) then returnOp (plain, None)
     else bindOp (failWith (decryptKey (dp_cipher env) (dp_secret env) (the (fr_encryptedKey f)))) (\<lambda>dek.
       (let iv = (if present (ck_encryptionIv c) then fromHex (the (ck_encryptionIv c)) else dp_iv env) in
        bindOp (failWith (ctrCrypt (dp_cipher env) dek iv plain)) (\<lambda>bytes. returnOp (bytes, Some (toHex iv))))))"

definition landedChunk :: "string \<times> int \<times> int \<Rightarrow> string option \<Rightarrow> chunk_row \<Rightarrow> chunk_row" where
  "landedChunk answer iv c = (case answer of (fileId, messageId, botId) \<Rightarrow>
     c\<lparr>ck_status := Complete, ck_telegramFileId := Some fileId, ck_telegramMessageId := Some messageId, ck_botId := botId,
       ck_encryptionIv := iv, ck_tempStorageKey := None\<rparr>)"

definition completedChunks :: "string \<Rightarrow> backend \<Rightarrow> int" where
  "completedChunks fileId b = int (countWhere (\<lambda>c. ck_fileId c = fileId \<and> ck_status c = Complete) (bk_chunks b))"

definition completeIfAll :: "string \<Rightarrow> string \<Rightarrow> int \<Rightarrow> unit bop" where
  "completeIfAll fileRecordId userId completedChunksCount = bindOp (getsOp (findFile fileRecordId)) (\<lambda>currentFile. case currentFile of
     None \<Rightarrow> returnOp ()
   | Some f \<Rightarrow> whenOp (fr_status f \<noteq> Complete \<and> fr_totalChunks f < 10000 \<and> completedChunksCount = fr_totalChunks f)
       (flipAndCharge fileRecordId (\<lambda>r. r\<lparr>fr_status := Complete\<rparr>) userId (fr_size f)))"

text \<open>A name with the index padded to three digits.\<close>

definition partName :: "string \<Rightarrow> int \<Rightarrow> string" where
  "partName fid i = fid @ ''.part'' @ pad0 3 i"

definition processChunkJob :: "dispatch_env \<Rightarrow> string \<Rightarrow> string \<Rightarrow> int \<Rightarrow> string \<Rightarrow> string \<Rightarrow> unit bop" where
  "processChunkJob env chunkId fileRecordId chunkIndex tempKey userId =
     bindOp (getsOp (\<lambda>b. map_option (\<lambda>c. (c, findFile (ck_fileId c) b)) (findChunkId chunkId b))) (\<lambda>found. case found of
       None \<Rightarrow> returnOp ()
     | Some (_, None) \<Rightarrow> returnOp ()
     | Some (c, Some f) \<Rightarrow> if ck_status c = Complete then returnOp () else if ck_status c \<noteq> Buffered then returnOp () else
         bindOp (readAndEncryptChunk env c f) (\<lambda>(bytes, iv).
         bindOp (sendToTelegram env (partName (fr_id f) chunkIndex) bytes) (\<lambda>answer.
         thenOp (transactionOp (thenOp (updateChunk (ck_id c) (landedChunk answer iv))
            (bindOp (getsOp (completedChunks fileRecordId)) (completeIfAll fileRecordId userId))))
         (dropTemp tempKey))))"

definition runJob :: "dispatch_env \<Rightarrow> job_data \<Rightarrow> unit bop" where
  "runJob env d = (case d of FileJob recordId key userId \<Rightarrow> processFileJob env recordId key userId
     | ChunkJob chunkId recordId i key userId \<Rightarrow> processChunkJob env chunkId recordId i key userId)"

definition handleJobFailure :: "upload_job \<Rightarrow> unit bop" where
  "handleJobFailure job =
    (let maxRetries = (case uj_attempts job of None \<Rightarrow> 3 | Some n \<Rightarrow> n);
         isFinalAttempt = (uj_attemptsMade job \<ge> maxRetries) in
     catchOp (updateFile (jd_record (uj_data job)) (\<lambda>r. if isFinalAttempt
         then r\<lparr>fr_status := Buffer_failed, fr_bufferRetries := uj_attemptsMade job\<rparr> else r\<lparr>fr_bufferRetries := uj_attemptsMade job\<rparr>))
       (\<lambda>_. returnOp ()))"

definition processJob :: "bool \<Rightarrow> dispatch_env \<Rightarrow> upload_job \<Rightarrow> unit bop" where
  "processJob goOwnsDispatch env job = (if goOwnsDispatch then returnOp () else
     catchOp (runJob env (uj_data job)) (\<lambda>err. thenOp (handleJobFailure job) (throwOp err)))"

subsection \<open>Recovery at startup\<close>

record handoff =
  ho_fileId :: string
  ho_key :: string
  ho_userId :: string
  ho_isChunk :: bool
  ho_chunkIndex :: int
  ho_size :: int

definition bufferedFiles :: "backend \<Rightarrow> file_row list" where
  "bufferedFiles b = filter (\<lambda>f. fr_status f = Buffered \<and> \<not> fr_isChunked f) (bk_files b)"

definition bufferedChunks :: "backend \<Rightarrow> (chunk_row \<times> file_row) list" where
  "bufferedChunks b = concat (map (\<lambda>c. case findFile (ck_fileId c) b of None \<Rightarrow> [] | Some f \<Rightarrow> [(c, f)])
     (filter (\<lambda>c. ck_status c = Buffered) (bk_chunks b)))"

text \<open>The calls to the transfer server, and the jobs of the queue with their ids.\<close>

definition recoveryHandoffs :: "backend \<Rightarrow> handoff list" where
  "recoveryHandoffs b =
     map (\<lambda>f. \<lparr>ho_fileId = fr_id f, ho_key = the (fr_tempStorageKey f), ho_userId = fr_userId f, ho_isChunk = False, ho_chunkIndex = 0, ho_size = fr_size f\<rparr>)
       (filter (\<lambda>f. present (fr_tempStorageKey f)) (bufferedFiles b)) @
     map (\<lambda>(c, f). \<lparr>ho_fileId = ck_fileId c, ho_key = the (ck_tempStorageKey c), ho_userId = fr_userId f, ho_isChunk = True,
         ho_chunkIndex = ck_chunkIndex c, ho_size = ck_size c\<rparr>)
       (filter (\<lambda>(c, _). present (ck_tempStorageKey c)) (bufferedChunks b))"

definition recoveryJobs :: "backend \<Rightarrow> (string \<times> job_data) list" where
  "recoveryJobs b =
     map (\<lambda>f. (''file-'' @ fr_id f, FileJob (fr_id f) (the (fr_tempStorageKey f)) (fr_userId f)))
       (filter (\<lambda>f. present (fr_tempStorageKey f)) (bufferedFiles b)) @
     map (\<lambda>(c, f). (''chunk-'' @ ck_id c, ChunkJob (ck_id c) (ck_fileId c) (ck_chunkIndex c) (the (ck_tempStorageKey c)) (fr_userId f)))
       (filter (\<lambda>(c, _). present (ck_tempStorageKey c)) (bufferedChunks b))"

text \<open>\<open>Inl\<close> the calls, \<open>Inr\<close> the jobs; nothing on a backend that is not the transfer service.\<close>

definition startupRecovery :: "string option \<Rightarrow> bool \<Rightarrow> backend \<Rightarrow> (handoff list + (string \<times> job_data) list)" where
  "startupRecovery isTransferService goOwnsDispatch b =
     (if isTransferService = Some ''false'' \<and> \<not> goOwnsDispatch then Inr []
      else if goOwnsDispatch then Inl (recoveryHandoffs b) else Inr (recoveryJobs b))"

definition dispatchOwnerIsGo :: "string option \<Rightarrow> bool" where
  "dispatchOwnerIsGo owner = ((if present owner then the owner else ''go'') = ''go'')"

text \<open>The environment values \<^verbatim>\<open>DISPATCH_CONCURRENCY\<close> and \<^verbatim>\<open>TELEGRAM_UPLOAD_BOT_TOKENS\<close>.\<close>

definition getConcurrency :: "string option \<Rightarrow> string option \<Rightarrow> int" where
  "getConcurrency envVal tokens =
    (let extra = filter (\<lambda>t. t \<noteq> []) (map jsTrim (jsSplit (CHR '','') (case tokens of None \<Rightarrow> [] | Some t \<Rightarrow> t)));
         fallback = 1 + int (length extra) in
     case envVal of None \<Rightarrow> fallback
     | Some v \<Rightarrow> (case jsParseInt v of None \<Rightarrow> fallback | Some n \<Rightarrow> if n > 0 then n else fallback))"


subsection \<open>Accounting\<close>

lemma in_found: "findFile fid b = Some f \<Longrightarrow> f \<in> set (bk_files b) \<and> fr_id f = fid"
  by (auto simp: findFile_def dest: find_SomeD)

lemma flip_result:
  assumes "flipAndCharge fid g u n b = (Inr r, b')"
  shows "bk_files b' = updateWhere (\<lambda>x. fr_id x = fid) g (bk_files b) \<and> bk_chunks b' = bk_chunks b \<and>
    bk_users b' = updateWhere (\<lambda>v. usr_id v = u) (\<lambda>v. v\<lparr>usr_usedSpace := usr_usedSpace v + n\<rparr>) (bk_users b)"
proof -
  from assms obtain v b1 where "updateFile fid g b = (Inr v, b1)" "chargeQuota u n b1 = (Inr r, b')"
    unfolding flipAndCharge_def by (rule then_result)
  from touch_result [OF this(1)] updateUser_result [OF this(2) [unfolded chargeQuota_def]] show ?thesis
    by (simp add: setFiles_def setUsers_def)
qed

definition completes :: "(file_row \<Rightarrow> file_row) \<Rightarrow> bool" where
  "completes g \<longleftrightarrow> (\<forall>x. fr_id (g x) = fr_id x \<and> fr_userId (g x) = fr_userId x \<and> fr_size (g x) = fr_size x \<and> fr_status (g x) = Complete)"

lemma flip_countable:
  assumes "countable b" and "f \<in> set (bk_files b)" and "fr_status f \<noteq> Complete" and "completes g"
    and "flipAndCharge (fr_id f) g (fr_userId f) (fr_size f) b = (Inr r, b')"
  shows "countable b'"
proof -
  note res = flip_result [OF assms(5)]
  have dis: "distinct (map fr_id (bk_files b))" using assms(1) by (simp add: countable_def accounted_def)
  have g: "fr_id (g x) = fr_id x" "fr_userId (g x) = fr_userId x" "fr_size (g x) = fr_size x" "completeSize (g x) = fr_size x" for x
    using assms(4) by (simp_all add: completes_def completeSize_def)
  have "charged v (bk_files b') = charged v (bk_files b) + (if v = fr_userId f then fr_size f else 0)" for v
    using charged_row [OF dis assms(2), of g v] g assms(3) res by (simp add: completeSize_def)
  moreover have "map fr_id (bk_files b') = map fr_id (bk_files b)" using res g by (simp add: map_updateWhere_key)
  moreover have "map usr_id (bk_users b') = map usr_id (bk_users b)" using res by (simp add: map_updateWhere_key)
  moreover have "\<forall>x \<in> set (bk_files b'). 0 \<le> fr_size x" using res g assms(1) by (auto simp: set_updateWhere countable_def accounted_def)
  ultimately show ?thesis
    using assms(1) res by (auto simp: countable_def accounted_def set_updateWhere)
qed

lemma flip_transaction:
  assumes "countable b" and "f \<in> set (bk_files b)" and "fr_status f \<noteq> Complete" and "completes g"
  shows "countable (snd (transactionOp (flipAndCharge (fr_id f) g (fr_userId f) (fr_size f)) b))"
proof (cases "transactionOp (flipAndCharge (fr_id f) g (fr_userId f) (fr_size f)) b")
  case (Pair r b')
  with assms flip_countable transaction_error transaction_result show ?thesis by (cases r) fastforce+
qed

lemma landed_completes: "completes (landedAt a)" "completes (\<lambda>x. sealedRow env w (landedAt a x)\<lparr>fr_tempStorageKey := None\<rparr>)"
  by (simp_all add: completes_def landedAt_def sealedRow_def split: prod.split)

lemma keeps_failWith [keeps_intros]: "keeps I (failWith x)"
  by (simp add: failWith_def keeps_return keeps_throw split: sum.split)

lemma keeps_sending [keeps_intros]: "keeps I (sendToTelegram env name bytes)" "keeps I (sealBytes env plain)" "keeps I (readTemp env key)"
  "keeps I (readAndEncryptFile env r)" "keeps I (readAndEncryptChunk env c f)"
  unfolding sendToTelegram_def sealBytes_def readTemp_def readAndEncryptFile_def readAndEncryptChunk_def Let_def
  by (auto intro!: keeps_intros split: option.split)

lemma reads_job: "reads (sendToTelegram env name bytes)" "reads (sealBytes env plain)" "reads (readAndEncryptFile env r)" "reads (readAndEncryptChunk env c f)"
  by (rule readsI; intro keeps_intros)+


lemma countable_dropTemp: "countable (snd (dropTemp key b)) = countable b"
  by (simp add: dropTemp_def op_simps countable_def accounted_def)

lemma then_countable:
  assumes "countable (snd (m b))" and "\<And>b'. countable b' \<Longrightarrow> countable (snd (k b'))"
  shows "countable (snd (thenOp m k b))"
  using assms by (cases "m b"; cases "fst (m b)") (auto simp: thenOp_def bindOp_def)

lemma file_job_countable:
  assumes "countable b" and "\<And>f. findFile rid b = Some f \<Longrightarrow> fr_userId f = u"
  shows "countable (snd (processFileJob env rid key u b))"
proof (cases "findFile rid b")
  case (Some f)
  then have f: "f \<in> set (bk_files b)" "fr_id f = rid" "fr_userId f = u" using in_found assms(2) by auto
  show ?thesis
  proof (cases "fr_status f = Buffered")
    case True
    then have "countable (snd (transactionOp (flipAndCharge (fr_id f) (\<lambda>x. sealedRow env w (landedAt a x)\<lparr>fr_tempStorageKey := None\<rparr>) u (fr_size f)) b))"
      for w a using flip_transaction [OF assms(1) f(1) _ landed_completes(2), of env w a] f(3) by simp
    then have "countable (snd (thenOp (transactionOp (flipAndCharge (fr_id f) (\<lambda>x. sealedRow env w (landedAt a x)\<lparr>fr_tempStorageKey := None\<rparr>) u (fr_size f)))
        (dropTemp key) b))" for w a by (rule then_countable) (simp add: countable_dropTemp)
    then show ?thesis using assms(1) Some True
      by (simp add: processFileJob_def op_simps reads_bind reads_job split: sum.split prod.split)
  qed (use Some assms(1) in \<open>simp add: processFileJob_def op_simps\<close>)
qed (simp add: processFileJob_def op_simps assms(1))

lemma updateChunk_countable:
  assumes "countable b" and "\<And>c. ck_size (g c) = ck_size c" and "updateChunk cid g b = (Inr r, b')"
  shows "countable b' \<and> bk_files b' = bk_files b"
  using assms by (auto simp: updateChunk_def op_simps countable_def accounted_def setChunks_def set_updateWhere split: option.splits)

lemma completeIfAll_countable:
  assumes "countable b" and "\<And>f. findFile rid b = Some f \<Longrightarrow> fr_userId f = u" and "completeIfAll rid u n b = (Inr r, b')"
  shows "countable b'"
proof (cases "findFile rid b")
  case (Some f)
  then have f: "f \<in> set (bk_files b)" "fr_id f = rid" "fr_userId f = u" using in_found assms(2) by auto
  have "completes (\<lambda>r. r\<lparr>fr_status := Complete\<rparr>)" by (simp add: completes_def)
  from flip_countable [OF assms(1) f(1) _ this] f Some assms(1,3) show ?thesis
    by (auto simp: completeIfAll_def op_simps whenOp_def split: if_splits)
qed (use assms in \<open>simp add: completeIfAll_def op_simps\<close>)

lemma chunk_job_countable:
  assumes "countable b" and "\<And>f. findFile rid b = Some f \<Longrightarrow> fr_userId f = u"
  shows "countable (snd (processChunkJob env cid rid i key u b))"
proof -
  let ?tx = "\<lambda>c iv a. transactionOp (thenOp (updateChunk (ck_id c) (landedChunk a iv)) (bindOp (getsOp (completedChunks rid)) (completeIfAll rid u)))"
  have tx: "countable (snd (?tx c iv a b))" for c iv a
  proof (cases "?tx c iv a b")
    case (Pair r b')
    show ?thesis
    proof (cases r)
      case (Inl e)
      with Pair transaction_error assms(1) show ?thesis by fastforce
    next
      case (Inr v)
      from transaction_result [OF Pair [unfolded Inr]] obtain w b1 where b1: "updateChunk (ck_id c) (landedChunk a iv) b = (Inr w, b1)"
        and fin: "bindOp (getsOp (completedChunks rid)) (completeIfAll rid u) b1 = (Inr v, b')" by (rule then_result)
      have "ck_size (landedChunk a iv c) = ck_size c" for c by (simp add: landedChunk_def split: prod.split)
      from updateChunk_countable [OF assms(1) this b1] have c1: "countable b1" "findFile rid b1 = findFile rid b" by (auto simp: findFile_def)
      have "completeIfAll rid u (completedChunks rid b1) b1 = (Inr v, b')" using fin by (simp add: op_simps)
      from completeIfAll_countable [OF c1(1) _ this] c1(2) assms(2) Pair show ?thesis by simp
    qed
  qed
  have "countable (snd (thenOp (?tx c iv a) (dropTemp key) b))" for c iv a
    using tx by (rule then_countable) (simp add: countable_dropTemp)
  then show ?thesis using assms(1)
    by (auto simp: processChunkJob_def op_simps reads_bind reads_job split: sum.split prod.split option.split)
qed


definition attemptsLeft :: "upload_job \<Rightarrow> bool" where
  "attemptsLeft job \<longleftrightarrow> uj_attemptsMade job < (case uj_attempts job of None \<Rightarrow> 3 | Some n \<Rightarrow> n)"

lemma countable_rows:
  assumes "countable b" and "\<And>x. fr_id (g x) = fr_id x \<and> fr_userId (g x) = fr_userId x \<and> fr_size (g x) = fr_size x \<and> fr_status (g x) = fr_status x"
  shows "countable (snd (updateFile fid g b))"
proof -
  have "countable (b\<lparr>bk_files := updateWhere (\<lambda>x. fr_id x = fid) g (bk_files b)\<rparr>)"
    using assms by (intro countable_files charged_updateWhere)
      (auto simp: completeSize_def countable_def accounted_def map_updateWhere_key set_updateWhere)
  with assms(1) show ?thesis by (simp add: updateFile_def writeFiles_def op_simps setFiles_def split: option.split)
qed

lemma catch_countable:
  assumes "countable (snd (m b))" and "\<And>e b'. countable b' \<Longrightarrow> countable (snd (h e b'))"
  shows "countable (snd (catchOp m h b))"
  using assms by (cases "m b"; cases "fst (m b)") (auto simp: catchOp_def)

lemma failure_countable: "attemptsLeft job \<Longrightarrow> countable b \<Longrightarrow> countable (snd (handleJobFailure job b))"
  unfolding handleJobFailure_def Let_def attemptsLeft_def not_le [symmetric]
  by (rule catch_countable, simp only: if_False, rule countable_rows) (simp_all add: op_simps)

lemma process_countable:
  assumes "countable b" and "\<And>f. findFile (jd_record (uj_data job)) b = Some f \<Longrightarrow> fr_userId f = jd_user (uj_data job)" and "attemptsLeft job"
  shows "countable (snd (processJob go env job b))"
proof -
  have "countable (snd (runJob env (uj_data job) b))"
    using assms(1,2) by (cases "uj_data job") (auto simp: runJob_def intro: file_job_countable chunk_job_countable)
  then have "countable (snd (catchOp (runJob env (uj_data job)) (\<lambda>err. thenOp (handleJobFailure job) (throwOp err)) b))"
    by (rule catch_countable) (rule then_countable, auto intro: failure_countable [OF assms(3)] simp: op_simps)
  with assms(1) show ?thesis by (simp add: processJob_def op_simps)
qed

text \<open>A direct upload.\<close>

lemma removeFile_countable:
  assumes "countable b" and "\<And>f. f \<in> set (bk_files b) \<Longrightarrow> fr_id f = fid \<Longrightarrow> completeSize f = 0"
  shows "countable (snd (removeFile fid b))"
proof -
  have "accounted (deleteFilesWhere (\<lambda>r. fr_id r = fid) b)"
    using assms by (intro accounted_free_delete) (auto simp: countable_def)
  moreover have "\<forall>c \<in> set (bk_chunks (deleteFilesWhere (\<lambda>r. fr_id r = fid) b)). 0 \<le> ck_size c"
    using assms(1) by (auto simp: countable_def deleteFilesWhere_def Let_def deleteWhere_def)
  ultimately show ?thesis using assms(1) by (simp add: removeFile_def op_simps countable_def split: option.split)
qed

lemma create_countable:
  assumes "countable b" and "fr_id row \<notin> fr_id ` set (bk_files b)" and "fr_status row \<noteq> Complete" and "0 \<le> fr_size row"
  shows "countable (snd (createFile row b))"
proof -
  have "countable (b\<lparr>bk_files := bk_files b @ [row]\<rparr>)"
    using assms by (intro countable_files) (auto simp: completeSize_def countable_def accounted_def)
  with assms(1) show ?thesis by (simp add: createFile_def writeFiles_def op_simps setFiles_def)
qed

lemma createAndSend_countable:
  assumes "countable b" and "fr_id row \<notin> fr_id ` set (bk_files b)" and "fr_status row \<noteq> Complete" and "0 \<le> fr_size row"
  shows "countable (snd (createAndSend env row bytes b))"
proof (cases "createFile row b")
  case (Pair r b1)
  have c: "countable b1" using create_countable [OF assms] Pair by simp
  show ?thesis
  proof (cases r)
    case (Inl e)
    with Pair c show ?thesis by (simp add: createAndSend_def thenOp_def bindOp_def)
  next
    case (Inr v)
    from writeFiles_result [OF Pair [unfolded Inr createFile_def]] have files: "bk_files b1 = bk_files b @ [row]" by (simp add: setFiles_def)
    let ?send = "bindOp (sendToTelegram env (fr_id row) bytes) (\<lambda>answer.
        thenOp (transactionOp (flipAndCharge (fr_id row) (landedAt answer) (fr_userId row) (fr_size row)))
        (bindOp (getsOp (findFile (fr_id row))) (\<lambda>r. returnOp (the r))))"
    have row: "row \<in> set (bk_files b1)" "\<And>f. f \<in> set (bk_files b1) \<Longrightarrow> fr_id f = fr_id row \<Longrightarrow> f = row"
      using files assms(2) by (auto simp: image_iff)
    have "countable (snd (transactionOp (flipAndCharge (fr_id row) (landedAt a) (fr_userId row) (fr_size row)) b1))" for a
      by (rule flip_transaction [OF c row(1) assms(3) landed_completes(1)])
    then have ok: "countable (snd (?send b1))"
      using c by (simp add: reads_bind reads_job split: sum.split) (auto intro!: then_countable simp: op_simps)
    have same: "snd (?send b1) = b1" if "fst (?send b1) = Inl e" for e
    proof -
      from that show ?thesis
        by (cases "dp_telegram env (fr_id row) bytes") (auto simp: sendToTelegram_def bindOp_def thenOp_def op_simps
            split: prod.splits sum.splits dest: transaction_error)
    qed
    have "countable (snd (removeFile (fr_id row) b1))"
      using c row(2) assms(3) by (intro removeFile_countable) (auto simp: completeSize_def)
    then have "countable (snd (catchOp ?send (\<lambda>err. thenOp (removeFile (fr_id row)) (throwOp err)) b1))"
      using ok same by (cases "?send b1"; cases "fst (?send b1)") (auto simp: catchOp_def op_simps intro!: then_countable)
    with Pair Inr show ?thesis by (simp add: createAndSend_def thenOp_def bindOp_def)
  qed
qed


lemma upload_countable:
  assumes "countable b" and "newId \<notin> fr_id ` set (bk_files b)" and "0 \<le> sz"
    and "\<And>r. fr_id (g r) = fr_id r \<and> fr_status (g r) = fr_status r \<and> fr_size (g r) = fr_size r"
  shows "countable (snd (uploadBytes env newId now plain sz filename mimeType u folderId None g b))"
proof -
  have "reads (whenOp c (checkQuota u n))" for c n
    by (rule readsI, unfold checkQuota_def) (intro keeps_intros)
  note check = this
  have "countable (snd (createAndSend env (g (sealedRow env w ((newFileRow newId filename sz (orNull folderId) u now)
      \<lparr>fr_mimeType := mimeType, fr_status := Uploading\<rparr>))) bytes b))" for w bytes
    using assms by (intro createAndSend_countable) (auto simp: sealedRow_def newFileRow_def)
  then show ?thesis
    using assms(1) by (simp add: uploadBytes_def op_simps oldRecord_def present_def Let_def thenOp_def reads_bind [OF check] reads_bind [OF reads_job(2)]
        split: sum.split prod.split)
qed

text \<open>
  Runs of jobs and new uploads, one after another. A job names the owner of its record, and while an attempt runs the queue
  has not yet counted it, which is what BullMQ documents of \<^verbatim>\<open>attemptsMade\<close>.
\<close>

inductive dispatchStep :: "backend \<Rightarrow> backend \<Rightarrow> bool" where
  jobs: "(\<And>f. findFile (jd_record (uj_data job)) b = Some f \<Longrightarrow> fr_userId f = jd_user (uj_data job)) \<Longrightarrow> attemptsLeft job \<Longrightarrow>
    dispatchStep b (snd (processJob go env job b))"
| buffers: "newId \<notin> fr_id ` set (bk_files b) \<Longrightarrow>
    dispatchStep b (snd (uploadFromBuffer env newId now plain filename mime u folderId None etag b))"
| streams: "newId \<notin> fr_id ` set (bk_files b) \<Longrightarrow> 0 \<le> sz \<Longrightarrow>
    dispatchStep b (snd (uploadFromStream env newId now plain sz filename mime u folderId None etag b))"

lemma dispatch_countable: "dispatchStep b b' \<Longrightarrow> countable b \<Longrightarrow> countable b'"
proof (induction rule: dispatchStep.induct)
  case (jobs job b go env)
  then show ?case by (intro process_countable) auto
qed (auto simp: uploadFromBuffer_def uploadFromStream_def intro!: upload_countable)

text \<open>
  C30. Whatever is dispatched, again or in vain, and whatever is uploaded directly, every user is charged exactly the sizes of
  the complete files: a file is charged when it lands and not again, and a failed attempt charges nothing.
\<close>
theorem dispatch_accounting:
  assumes "dispatchStep\<^sup>*\<^sup>* b0 b" and "countable b0" and "v \<in> set (bk_users b)"
  shows "usr_usedSpace v = charged (usr_id v) (bk_files b)"
proof -
  from assms(1,2) have "countable b" by (induction rule: rtranclp_induct) (auto intro: dispatch_countable)
  with assms(3) show ?thesis by (simp add: countable_def accounted_def)
qed

subsection \<open>What a dispatched file reads\<close>

text \<open>The storage around the dispatch is the one that downloads read from.\<close>

definition sameStorage :: "dispatch_env \<Rightarrow> read_env \<Rightarrow> bool" where
  "sameStorage env renv \<longleftrightarrow> rv_cipher renv = dp_cipher env \<and>
     (\<forall>name bytes tg m botId. dp_telegram env name bytes = Some (tg, m, botId) \<longrightarrow> tg \<noteq> [] \<and> messageHolds renv (Some tg) botId (Some m) bytes) \<and>
     (\<forall>key plain. answersRanges (rv_temp renv key) plain \<longrightarrow> dp_temp env key = Inr plain)"

lemma file_job_result:
  assumes "findFile rid b = Some f" and "fr_status f = Buffered" and "processFileJob env rid key u b = (Inr (), b')"
  shows "\<exists>plain w bytes a. present (fr_tempStorageKey f) \<and> dp_temp env (the (fr_tempStorageKey f)) = Inr plain \<and>
    encryptKey (dp_cipher env) (dp_secret env) (dp_wrapIv env) (dp_dek env) = Inr w \<and> ctrCrypt (dp_cipher env) (dp_dek env) (dp_iv env) plain = Inr bytes \<and>
    dp_telegram env (fr_id f) bytes = Some a \<and>
    bk_files b' = updateWhere (\<lambda>x. fr_id x = fr_id f) (\<lambda>x. sealedRow env w (landedAt a x)\<lparr>fr_tempStorageKey := None\<rparr>) (bk_files b)"
proof -
  have ok: "failWith x c = (Inr y, c') \<longleftrightarrow> x = Inr y \<and> c' = c" for x :: "backend_error + 'q" and y c c'
    by (auto simp: failWith_def op_simps split: sum.splits)
  have sent: "sendToTelegram env n bs c = (Inr y, c') \<longleftrightarrow> dp_telegram env n bs = Some y \<and> c' = c" for n bs y c c'
    by (auto simp: sendToTelegram_def op_simps split: option.splits)
  from assms obtain wb b1 where w: "readAndEncryptFile env f b = (Inr wb, b1)" and rest: "(case wb of (wrapped, bytes) \<Rightarrow>
       bindOp (sendToTelegram env (fr_id f) bytes) (\<lambda>answer.
       thenOp (transactionOp (flipAndCharge (fr_id f) (\<lambda>x. sealedRow env wrapped (landedAt answer x)\<lparr>fr_tempStorageKey := None\<rparr>) u (fr_size f)))
       (dropTemp key))) b1 = (Inr (), b')"
    by (auto simp: processFileJob_def op_simps elim: bind_result)
  obtain wrapped bytes where wb: "wb = (wrapped, bytes)" by (cases wb)
  from w wb obtain plain where "present (fr_tempStorageKey f)" "dp_temp env (the (fr_tempStorageKey f)) = Inr plain" "b1 = b"
    "encryptKey (dp_cipher env) (dp_secret env) (dp_wrapIv env) (dp_dek env) = Inr wrapped"
    "ctrCrypt (dp_cipher env) (dp_dek env) (dp_iv env) plain = Inr bytes"
    by (auto simp: readAndEncryptFile_def readTemp_def sealBytes_def ok op_simps split: if_splits elim!: bind_result)
  moreover from rest wb obtain a where "dp_telegram env (fr_id f) bytes = Some a"
    "thenOp (transactionOp (flipAndCharge (fr_id f) (\<lambda>x. sealedRow env wrapped (landedAt a x)\<lparr>fr_tempStorageKey := None\<rparr>) u (fr_size f)))
       (dropTemp key) b1 = (Inr (), b')"
    by (auto simp: sent elim!: bind_result)
  moreover from this(2) obtain v b2 where "transactionOp (flipAndCharge (fr_id f) (\<lambda>x. sealedRow env wrapped (landedAt a x)\<lparr>fr_tempStorageKey := None\<rparr>) u (fr_size f)) b1 = (Inr v, b2)"
    "dropTemp key b2 = (Inr (), b')" by (rule then_result)
  moreover from flip_result [OF transaction_result [OF this(1)]] this(2)
  have "bk_files b' = updateWhere (\<lambda>x. fr_id x = fr_id f) (\<lambda>x. sealedRow env wrapped (landedAt a x)\<lparr>fr_tempStorageKey := None\<rparr>) (bk_files b1)"
    by (auto simp: dropTemp_def op_simps)
  ultimately show ?thesis by blast
qed

lemma sealed_source:
  assumes "encryptKey E secret wiv dek = Inr w" and "ctrCrypt E dek iv plain = Inr bytes"
  shows "w \<noteq> []" and "toHex iv \<noteq> []"
proof -
  from assms(1) show "w \<noteq> []" unfolding encryptKey_def by (cases "ctrCrypt E secret wiv dek") auto
  from assms(2) have "length iv = 16" by (auto simp: ctrCrypt_def createCipheriv_def split: if_splits)
  then show "toHex iv \<noteq> []" by (cases iv) (auto simp: toHex_def)
qed

lemma sealed_download:
  assumes "sameStorage env renv" and "encryptKey (dp_cipher env) (dp_secret env) wiv (dp_dek env) = Inr w"
    and "ctrCrypt (dp_cipher env) (dp_dek env) (dp_iv env) plain = Inr bytes" and "dp_telegram env name bytes = Some a"
    and "g = sealedRow env w (landedAt a f)\<lparr>fr_tempStorageKey := None\<rparr>" and "\<not> fr_isChunked f"
  shows "\<exists>info. getDownloadMetadata (dp_cipher env) (dp_secret env) g cs = Inr info \<and> sourceHolds renv (di_source info) plain \<and> di_size info = fr_size f"
proof -
  obtain tg m botId where a: "a = (tg, m, botId)" by (cases a)
  with assms(1,4) have tg: "tg \<noteq> []" "messageHolds renv (Some tg) botId (Some m) bytes" "rv_cipher renv = dp_cipher env"
    by (auto simp: sameStorage_def)
  have "storedAs (dp_cipher env) True (Some (dp_dek env)) (Some (dp_iv env)) plain bytes" using assms(3) by (simp add: storedAs_def)
  with tg wrapped_keys [OF assms(2)] sealed_source [OF assms(2,3)] assms(5,6) a show ?thesis
    by (auto simp: getDownloadMetadata_def sealedRow_def landedAt_def present_def sourceHolds_def fromHex_toHex)
qed

text \<open>
  C31. Dispatching a buffered file changes where its bytes are and not what they are: when the job ends, its owner downloads
  from Telegram, decrypted, what was read from the temp storage before, and the job run again does nothing more.
\<close>
theorem dispatch_readable:
  assumes "sameStorage env renv" and "distinct (map fr_id (bk_files b))" and "findFile fid b = Some f"
    and "fr_status f = Buffered" and "\<not> fr_isChunked f" and "fr_deletedAt f = None"
    and "answersRanges (rv_temp renv (the (fr_tempStorageKey f))) plain"
    and "processFileJob env fid key (fr_userId f) b = (Inr (), b')"
  shows "(\<exists>info. fst (getDownloadInfo (dp_cipher env) (dp_secret env) fid (fr_userId f) b') = Inr info \<and>
      sourceHolds renv (di_source info) plain \<and> di_size info = fr_size f) \<and>
    processFileJob env2 fid key2 u2 b' = (Inr (), b')"
proof -
  from in_found [OF assms(3)] have f: "f \<in> set (bk_files b)" "fr_id f = fid" by auto
  from file_job_result [OF assms(3,4,8)] assms(1,7) obtain w bytes a where
    enc: "encryptKey (dp_cipher env) (dp_secret env) (dp_wrapIv env) (dp_dek env) = Inr w"
    "ctrCrypt (dp_cipher env) (dp_dek env) (dp_iv env) plain = Inr bytes" "dp_telegram env (fr_id f) bytes = Some a"
    and files: "bk_files b' = updateWhere (\<lambda>x. fr_id x = fr_id f) (\<lambda>x. sealedRow env w (landedAt a x)\<lparr>fr_tempStorageKey := None\<rparr>) (bk_files b)"
    by (auto simp: sameStorage_def)
  define g where "g = sealedRow env w (landedAt a f)\<lparr>fr_tempStorageKey := None\<rparr>"
  have same: "fr_id (sealedRow env w (landedAt a x)\<lparr>fr_tempStorageKey := None\<rparr>) = fr_id x" for x
    by (simp add: sealedRow_def landedAt_def split: prod.split)
  have dis: "distinct (map fr_id (bk_files b'))" unfolding files using assms(2) same by (simp add: map_updateWhere_key)
  have g: "g \<in> set (bk_files b')" unfolding files set_updateWhere g_def by (rule image_eqI [OF _ f(1)]) simp
  have row: "fr_id g = fid" "fr_userId g = fr_userId f" "fr_deletedAt g = None" "fr_status g = Complete"
    using f(2) assms(6) by (simp_all add: g_def sealedRow_def landedAt_def split: prod.split)
  have "find (\<lambda>x. fr_id x = fid \<and> fr_userId x = fr_userId f \<and> fr_deletedAt x = None) (bk_files b') = Some g"
    by (rule find_by_id [OF dis g]) (simp_all add: row)
  moreover obtain info where "getDownloadMetadata (dp_cipher env) (dp_secret env) g (chunkRowsOf fid b') = Inr info"
    "sourceHolds renv (di_source info) plain" "di_size info = fr_size f"
    using sealed_download [OF assms(1) enc g_def assms(5)] by blast
  moreover have "findFile fid b' = Some g" unfolding findFile_def by (rule find_by_id [OF dis g]) (simp_all add: row)
  ultimately show ?thesis using row
    by (simp add: getDownloadInfo_def orFail_def landed_def metadataOf_def op_simps processFileJob_def)
qed

text \<open>
  Two chunks of a file whose transactions overlap, each seeing its own write only: neither counts all, and the file, all of
  whose chunks are on Telegram, stays incomplete.
\<close>
lemma last_chunks_race:
  assumes "ck_status c1 = Buffered" and "ck_status c2 = Buffered" and "c1 \<in> set (bk_chunks b)" and "c2 \<in> set (bk_chunks b)"
    and "ck_id c1 \<noteq> ck_id c2" and "ck_fileId c1 = fid" and "ck_fileId c2 = fid" and "findFile fid b = Some f"
    and "fr_totalChunks f = int (length (filter (\<lambda>c. ck_fileId c = fid) (bk_chunks b)))"
    and "updateChunk (ck_id c1) (landedChunk a1 iv1) b = (Inr (), b1)"
  shows "completeIfAll fid u (completedChunks fid b1) b1 = (Inr (), b1)"
proof -
  let ?g = "\<lambda>c. if ck_id c = ck_id c1 then landedChunk a1 iv1 c else c"
  have landed: "ck_fileId (landedChunk a1 iv1 c) = ck_fileId c" "ck_id (landedChunk a1 iv1 c) = ck_id c" for c
    by (simp_all add: landedChunk_def split: prod.split)
  from assms(10) have b1: "bk_chunks b1 = map ?g (bk_chunks b)" "bk_files b1 = bk_files b"
    by (auto simp: updateChunk_def op_simps setChunks_def updateWhere_def split: option.splits)
  have "length (filter (\<lambda>c. ck_fileId c = fid \<and> ck_status c = Complete) (bk_chunks b1)) < length (filter (\<lambda>c. ck_fileId c = fid) (bk_chunks b1))"
  proof -
    have c2: "c2 \<in> set (bk_chunks b1)" using b1 assms(4,5) by (auto intro!: image_eqI [of _ _ c2])
    have "filter (\<lambda>c. ck_fileId c = fid \<and> ck_status c = Complete) (bk_chunks b1)
        = filter (\<lambda>c. ck_status c = Complete) (filter (\<lambda>c. ck_fileId c = fid) (bk_chunks b1))" by (simp add: conj_commute)
    moreover have "c2 \<in> set (filter (\<lambda>c. ck_fileId c = fid) (bk_chunks b1))" using c2 assms(7) by simp
    ultimately show ?thesis using assms(2) by (auto simp del: filter_filter intro!: length_filter_less [of c2])
  qed
  moreover have "length (filter (\<lambda>c. ck_fileId c = fid) (bk_chunks b1)) = length (filter (\<lambda>c. ck_fileId c = fid) (bk_chunks b))"
  proof -
    have "filter (\<lambda>c. ck_fileId c = fid) (map ?g cs) = map ?g (filter (\<lambda>c. ck_fileId c = fid) cs)" for cs
      by (induction cs) (auto simp: landed)
    then show ?thesis by (simp add: b1)
  qed
  ultimately have "completedChunks fid b1 < fr_totalChunks f" using assms(9) by (simp add: completedChunks_def countWhere_def)
  moreover have "findFile fid b1 = Some f" using assms(8) b1 by (simp add: findFile_def)
  ultimately show ?thesis by (simp add: completeIfAll_def op_simps whenOp_def)
qed

text \<open>While the queue has attempts left the file is not given up.\<close>

lemma never_given_up:
  assumes "attemptsLeft job" and "handleJobFailure job b = (r, b')"
  shows "map (\<lambda>f. (fr_id f, fr_status f)) (bk_files b') = map (\<lambda>f. (fr_id f, fr_status f)) (bk_files b)"
  using assms
  by (auto simp: handleJobFailure_def Let_def attemptsLeft_def catchOp_def updateFile_def writeFiles_def op_simps setFiles_def map_updateWhere_key not_le
      split: if_splits option.splits prod.splits sum.splits)

subsection \<open>A run\<close>

definition dispatchDemo :: dispatch_env where
  "dispatchDemo = \<lparr>dp_cipher = demoCipher, dp_secret = replicate 32 7, dp_dek = replicate 32 9, dp_iv = replicate 16 3, dp_wrapIv = replicate 16 1,
     dp_telegram = (\<lambda>name bytes. if bytes = [] then None else Some (spelled bytes, 5, 1)), dp_temp = (\<lambda>key. Inr [1, 2, 3])\<rparr>"

definition bufferedDemo :: file_row where
  "bufferedDemo = (newFileRow ''f'' ''a.bin'' 3 None ''u'' 0)\<lparr>fr_status := Buffered, fr_tempStorageKey := Some ''k''\<rparr>"

definition dispatchStore :: backend where
  "dispatchStore = emptyBackend\<lparr>bk_users := [newUserRow ''u'' ''alice'' ''x'' 0], bk_files := [bufferedDemo]\<rparr>"

lemma demo_storage: "sameStorage dispatchDemo (spellingEnv\<lparr>rv_temp := \<lambda>key r. Inr ([pieceOf r [1, 2, 3]], None)\<rparr>)"
proof -
  have "plain = [1, 2, 3]" if "answersRanges (\<lambda>r. Inr ([pieceOf r [1, 2, 3]], None)) plain" for plain :: buffer
    using that [unfolded answersRanges_def, rule_format, of None] by (simp add: rangeOk_def pieceOf_def)
  moreover have "spelled bs \<noteq> []" if "bs \<noteq> []" for bs using that by (simp add: spelled_def)
  ultimately show ?thesis
    by (auto simp: sameStorage_def dispatchDemo_def spellingEnv_def messageHolds_def linkOf_def answersRanges_def okBody_def textBytes_spelled)
qed

lemma demo_dispatch:
  obtains w bytes where "processFileJob dispatchDemo ''f'' ''k'' ''u'' dispatchStore =
     (Inr (), dispatchStore\<lparr>bk_users := [(newUserRow ''u'' ''alice'' ''x'' 0)\<lparr>usr_usedSpace := 3\<rparr>],
        bk_files := [sealedRow dispatchDemo w (landedAt (spelled bytes, 5, 1) bufferedDemo)\<lparr>fr_tempStorageKey := None\<rparr>]\<rparr>)"
proof -
  obtain w where w: "encryptKey demoCipher (replicate 32 7) (replicate 16 1) (replicate 32 9) = Inr w"
    by (simp add: encryptKey_def ctrCrypt_def createCipheriv_def)
  define bytes where "bytes = xorStream demoCipher (replicate 32 9) (replicate 16 3) 0 [1, 2, 3]"
  then have "length bytes = 3" by (simp only: length_xorStream) simp
  then have bytes: "ctrCrypt demoCipher (replicate 32 9) (replicate 16 3) [1, 2, 3] = Inr bytes" "bytes \<noteq> []"
    by (auto simp: bytes_def ctrCrypt_def createCipheriv_def cipherWrite_def simp del: length_xorStream)
  show ?thesis
    by (rule that [of w bytes], use w bytes in \<open>simp add: processFileJob_def readAndEncryptFile_def readTemp_def failWith_def sealBytes_def
      dispatchStore_def bufferedDemo_def
      emptyBackend_def newFileRow_def newUserRow_def findFile_def findUser_def op_simps thenOp_def bindOp_def dispatchDemo_def present_def sendToTelegram_def
      transactionOp_def flipAndCharge_def updateFile_def writeFiles_def setFiles_def setUsers_def activeUnique_def activeKeys_def chargeQuota_def
      updateUser_def landedAt_def sealedRow_def dropTemp_def\<close>)
qed

theorem dispatch_readable_witness:
  "\<exists>b' info. processFileJob dispatchDemo ''f'' ''k'' ''u'' dispatchStore = (Inr (), b') \<and>
     fst (getDownloadInfo demoCipher (replicate 32 7) ''f'' ''u'' b') = Inr info \<and>
     sourceHolds (spellingEnv\<lparr>rv_temp := \<lambda>key r. Inr ([pieceOf r [1, 2, 3]], None)\<rparr>) (di_source info) [1, 2, 3] \<and> di_size info = 3"
proof -
  obtain b' where run: "processFileJob dispatchDemo ''f'' ''k'' (fr_userId bufferedDemo) dispatchStore = (Inr (), b')"
    by (rule demo_dispatch) (simp add: bufferedDemo_def newFileRow_def)
  have "findFile ''f'' dispatchStore = Some bufferedDemo" "distinct (map fr_id (bk_files dispatchStore))"
    by (simp_all add: dispatchStore_def findFile_def bufferedDemo_def newFileRow_def)
  moreover have "answersRanges (rv_temp (spellingEnv\<lparr>rv_temp := \<lambda>key r. Inr ([pieceOf r [1, 2, 3]], None)\<rparr>) (the (fr_tempStorageKey bufferedDemo))) [1, 2, 3]"
    by (simp add: answersRanges_def)
  moreover have "fr_status bufferedDemo = Buffered" "\<not> fr_isChunked bufferedDemo" "fr_deletedAt bufferedDemo = None" "fr_userId bufferedDemo = ''u''"
    "fr_size bufferedDemo = 3" by (simp_all add: bufferedDemo_def newFileRow_def)
  ultimately show ?thesis
    using dispatch_readable [OF demo_storage _ _ _ _ _ _ run] run by (auto simp: dispatchDemo_def)
qed

theorem dispatch_accounting_witness:
  "\<exists>b1 b2 v. processJob False dispatchDemo \<lparr>uj_data = FileJob ''f'' ''k'' ''u'', uj_attempts = Some 3, uj_attemptsMade = 0\<rparr> dispatchStore = (Inr (), b1) \<and>
     processJob False dispatchDemo \<lparr>uj_data = FileJob ''f'' ''k'' ''u'', uj_attempts = Some 3, uj_attemptsMade = 1\<rparr> b1 = (Inr (), b2) \<and>
     bk_users b2 = [v] \<and> usr_usedSpace v = 3 \<and> charged (usr_id v) (bk_files b2) = 3"
proof -
  let ?job = "\<lambda>n. \<lparr>uj_data = FileJob ''f'' ''k'' ''u'', uj_attempts = Some 3, uj_attemptsMade = n\<rparr>"
  obtain w bytes where w: "processFileJob dispatchDemo ''f'' ''k'' ''u'' dispatchStore =
     (Inr (), dispatchStore\<lparr>bk_users := [(newUserRow ''u'' ''alice'' ''x'' 0)\<lparr>usr_usedSpace := 3\<rparr>],
        bk_files := [sealedRow dispatchDemo w (landedAt (spelled bytes, 5, 1) bufferedDemo)\<lparr>fr_tempStorageKey := None\<rparr>]\<rparr>)" (is "_ = (Inr (), ?b)")
    by (rule demo_dispatch)
  have runs: "processJob False dispatchDemo (?job 0) dispatchStore = (Inr (), ?b)" "processJob False dispatchDemo (?job 1) ?b = (Inr (), ?b)"
    using w by (simp_all add: processJob_def runJob_def catchOp_def)
      (simp add: processFileJob_def op_simps findFile_def sealedRow_def landedAt_def bufferedDemo_def newFileRow_def)
  have "dispatchStep dispatchStore (snd (processJob False dispatchDemo (?job 0) dispatchStore))"
    by (rule dispatchStep.jobs) (simp_all add: attemptsLeft_def dispatchStore_def findFile_def bufferedDemo_def newFileRow_def)
  then have "dispatchStep\<^sup>*\<^sup>* dispatchStore ?b" unfolding runs(1) by simp
  moreover have "countable dispatchStore"
    by (simp add: countable_def accounted_def dispatchStore_def emptyBackend_def newUserRow_def bufferedDemo_def newFileRow_def completeSize_def)
  ultimately have "usr_usedSpace v = charged (usr_id v) (bk_files ?b)" if "v \<in> set (bk_users ?b)" for v
    using dispatch_accounting that by blast
  then have "charged ''u'' (bk_files ?b) = 3" by (simp add: newUserRow_def)
  then show ?thesis using runs by (intro exI conjI) (assumption | simp add: newUserRow_def)+
qed

end
