(* ===== verification/Telegram.thy ===== *)
theory Telegram
  imports Schema JsLib Utf8
begin

section \<open>The Telegram client\<close>

text \<open>
  \<^verbatim>\<open>TelegramService\<close> (backend/src/telegram/telegram.service.ts): which bot sends, how often, which errors are tried again,
  and how many links are asked for at a time. What the Bot API answers is an argument. Times are milliseconds.
\<close>

subsection \<open>Errors and retries\<close>

text \<open>The fields of a thrown object that the service looks at.\<close>

record api_error =
  ae_code :: "string option"
  ae_causeCode :: "string option"
  ae_statusCode :: "int option"
  ae_errorCode :: "int option"
  ae_onStatusCode :: "int option"
  ae_responseDescription :: "string option"
  ae_description :: "string option"
  ae_message :: "string option"
  ae_retryAfter :: "int option"

definition RETRYABLE_CODES :: "string list" where
  "RETRYABLE_CODES = [''ECONNRESET'', ''ETIMEDOUT'', ''ECONNREFUSED'', ''EPIPE'', ''EAI_AGAIN'', ''ENOTFOUND'', ''ENETUNREACH'',
     ''EHOSTUNREACH'', ''UND_ERR_SOCKET'']"

definition RETRYABLE_HTTP :: "int list" where
  "RETRYABLE_HTTP = [429, 500, 502, 503, 504]"

definition orElse :: "'a option \<Rightarrow> 'a option \<Rightarrow> 'a option" where
  "orElse x y = (case x of None \<Rightarrow> y | Some v \<Rightarrow> Some v)"

definition textOr :: "string option \<Rightarrow> string" where
  "textOr x = (case x of None \<Rightarrow> [] | Some s \<Rightarrow> s)"

text \<open>\<^verbatim>\<open>/retry after (\d+)/i\<close>, the first match.\<close>

fun retryAfterMatch :: "string \<Rightarrow> nat option" where
  "retryAfterMatch [] = None"
| "retryAfterMatch (c # s) =
    (let ds = takeWhile jsDigit (drop 12 (c # s)) in
     if jsStartsWith ''retry after '' (asciiLower (c # s)) \<and> ds \<noteq> [] then Some (baseVal 10 ds) else retryAfterMatch s)"

definition getRetryAfterMs :: "api_error \<Rightarrow> int option" where
  "getRetryAfterMs err = (case ae_retryAfter err of
     Some secs \<Rightarrow> if secs > 0 then Some (secs * 1000) else
       (case retryAfterMatch (textOr (orElse (ae_responseDescription err) (orElse (ae_description err) (ae_message err)))) of
          Some n \<Rightarrow> if n > 0 then Some (int n * 1000) else None | None \<Rightarrow> None)
   | None \<Rightarrow>
       (case retryAfterMatch (textOr (orElse (ae_responseDescription err) (orElse (ae_description err) (ae_message err)))) of
          Some n \<Rightarrow> if n > 0 then Some (int n * 1000) else None | None \<Rightarrow> None))"

definition isRetryable :: "api_error \<Rightarrow> bool" where
  "isRetryable err = (let code = orElse (ae_code err) (ae_causeCode err);
       status = orElse (ae_statusCode err) (orElse (ae_errorCode err) (ae_onStatusCode err));
       desc = textOr (orElse (ae_responseDescription err) (ae_description err)); msg = textOr (ae_message err) in
     if present code \<and> the code \<in> set RETRYABLE_CODES then True
     else if status \<noteq> None \<and> the status \<in> set RETRYABLE_HTTP then True
     else if jsIncludes ''too many requests'' (asciiLower desc) then True
     else if jsIncludes ''ECONNRESET'' msg \<or> jsIncludes ''fetch failed'' msg \<or> jsIncludes ''terminated'' msg then True
     else jsIncludes ''too many requests'' (asciiLower msg))"

definition isBenignDeleteError :: "api_error \<Rightarrow> bool" where
  "isBenignDeleteError err = (let d = asciiLower (textOr (orElse (ae_responseDescription err) (orElse (ae_description err) (ae_message err)))) in
     jsIncludes (''message can'' @ [CHR 0x27] @ ''t be deleted'') d \<or> jsIncludes ''message to delete not found'' d \<or>
     jsIncludes ''message identifier is not specified'' d)"

definition MAX_RETRIES :: nat where "MAX_RETRIES = 3"
definition BASE_DELAY_MS :: int where "BASE_DELAY_MS = 1000"
definition INIT_MAX_RETRIES :: nat where "INIT_MAX_RETRIES = 10"
definition INIT_MAX_DELAY_MS :: int where "INIT_MAX_DELAY_MS = 15000"

text \<open>
  A call that is tried again: what each attempt answers is given by its number; the result comes with the waits between the
  attempts. \<open>retryLoop\<close> is the shape of the three loops: \<open>again\<close> gives the wait before the next attempt.
\<close>

fun retryLoop :: "(nat \<Rightarrow> 'e + 'a \<Rightarrow> int option) \<Rightarrow> (nat \<Rightarrow> 'e + 'a) \<Rightarrow> nat \<Rightarrow> nat \<Rightarrow> ('e + 'a) \<times> int list" where
  "retryLoop again answer attempt 0 = (answer attempt, [])"
| "retryLoop again answer attempt (Suc left) = (case again attempt (answer attempt) of
     None \<Rightarrow> (answer attempt, [])
   | Some delay \<Rightarrow> (case retryLoop again answer (Suc attempt) left of (r, ds) \<Rightarrow> (r, delay # ds)))"

definition backoff :: "nat \<Rightarrow> int" where
  "backoff attempt = BASE_DELAY_MS * 2 ^ attempt"

definition retryDecision :: "nat \<Rightarrow> api_error + 'a \<Rightarrow> int option" where
  "retryDecision attempt r = (case r of Inr _ \<Rightarrow> None
     | Inl err \<Rightarrow> if isRetryable err then Some (case getRetryAfterMs err of Some d \<Rightarrow> d | None \<Rightarrow> backoff attempt) else None)"

definition withRetry :: "(nat \<Rightarrow> api_error + 'a) \<Rightarrow> (api_error + 'a) \<times> int list" where
  "withRetry answer = retryLoop retryDecision answer 0 MAX_RETRIES"

definition getMeWithRetry :: "(nat \<Rightarrow> api_error + 'a) \<Rightarrow> (backend_error + 'a) \<times> int list" where
  "getMeWithRetry answer = map_prod (map_sum (\<lambda>_. PlainError ''Telegram main bot failed to initialize'') id) id (retryLoop (\<lambda>attempt r. case r of
       Inr _ \<Rightarrow> None | Inl _ \<Rightarrow> Some (min (backoff attempt) INIT_MAX_DELAY_MS)) answer 0 INIT_MAX_RETRIES)"

text \<open>A response of \<^verbatim>\<open>fetch\<close>: its status, the \<^verbatim>\<open>Retry-After\<close> header and the rest.\<close>

record 'b fetch_response =
  fe_status :: int
  fe_retryAfter :: "string option"
  fe_body :: 'b

definition fetchOk :: "'b fetch_response \<Rightarrow> bool" where
  "fetchOk r \<longleftrightarrow> 200 \<le> fe_status r \<and> fe_status r \<le> 299"

definition fetchDelay :: "int \<Rightarrow> nat \<Rightarrow> 'b fetch_response \<Rightarrow> int" where
  "fetchDelay baseDelay attempt res = (if fe_status res = 429 then
     (case (if present (fe_retryAfter res) then jsParseInt (the (fe_retryAfter res)) else None) of
        Some n \<Rightarrow> if n > 0 then n * 1000 else baseDelay * 2 ^ attempt | None \<Rightarrow> baseDelay * 2 ^ attempt)
     else baseDelay * 2 ^ attempt)"

definition fetchWithRetry :: "nat \<Rightarrow> int \<Rightarrow> (nat \<Rightarrow> api_error + 'b fetch_response) \<Rightarrow> (api_error + 'b fetch_response) \<times> int list" where
  "fetchWithRetry maxRetries baseDelay answer = retryLoop (\<lambda>attempt r. case r of
       Inr res \<Rightarrow> if \<not> fetchOk res \<and> fe_status res \<in> set RETRYABLE_HTTP then Some (fetchDelay baseDelay attempt res) else None
     | Inl err \<Rightarrow> if isRetryable err then Some (baseDelay * 2 ^ attempt) else None) answer 0 maxRetries"

lemma retryLoop_last:
  "\<exists>k \<le> left. fst (retryLoop again answer a left) = answer (a + k) \<and> length (snd (retryLoop again answer a left)) = k \<and>
     (\<forall>i < k. again (a + i) (answer (a + i)) = Some (snd (retryLoop again answer a left) ! i)) \<and> (k < left \<longrightarrow> again (a + k) (answer (a + k)) = None)"
proof (induction left arbitrary: a)
  case (Suc left)
  show ?case
  proof (cases "again a (answer a)")
    case None
    then show ?thesis by (intro exI [of _ 0]) simp
  next
    case (Some d)
    from Suc [of "Suc a"] obtain k where k: "k \<le> left" "fst (retryLoop again answer (Suc a) left) = answer (Suc a + k)"
      "length (snd (retryLoop again answer (Suc a) left)) = k"
      "\<forall>i < k. again (Suc a + i) (answer (Suc a + i)) = Some (snd (retryLoop again answer (Suc a) left) ! i)"
      "k < left \<longrightarrow> again (Suc a + k) (answer (Suc a + k)) = None" by blast
    have "\<forall>i < Suc k. again (a + i) (answer (a + i)) = Some ((d # snd (retryLoop again answer (Suc a) left)) ! i)"
      using k(4) Some by (auto simp: less_Suc_eq_0_disj)
    with k Some show ?thesis by (intro exI [of _ "Suc k"]) (simp add: case_prod_unfold)
  qed
qed simp


subsection \<open>The bots\<close>

text \<open>\<open>tg_ids\<close> lists the ids of the bots that answered \<^verbatim>\<open>getMe\<close>, the main bot first; \<open>None\<close> is a bot that did not.\<close>

record telegram_bots =
  tg_ids :: "int list"
  tg_main :: int

definition initBots :: "backend_error + int \<Rightarrow> int option list \<Rightarrow> backend_error + telegram_bots" where
  "initBots mainMe extraMe = (case mainMe of Inl e \<Rightarrow> Inl e
     | Inr m \<Rightarrow> Inr \<lparr>tg_ids = m # map the (filter (\<lambda>x. x \<noteq> None) extraMe), tg_main = m\<rparr>)"

definition extraTokens :: "string option \<Rightarrow> string list" where
  "extraTokens config = filter (\<lambda>t. t \<noteq> []) (map jsTrim (jsSplit (CHR '','') (textOr config)))"

definition isBotAvailable :: "telegram_bots \<Rightarrow> int \<Rightarrow> bool" where
  "isBotAvailable bots i \<longleftrightarrow> i \<in> set (tg_ids bots)"

subsection \<open>The rate limiter\<close>

text \<open>
  A sorted set of Redis with the slots of one bot, members with their times in ascending order. The script is atomic. That
  the key expires ten seconds after its last slot has left the window changes nothing.
\<close>

type_synonym slots = "(string \<times> int) list"

definition zremUpTo :: "int \<Rightarrow> slots \<Rightarrow> slots" where
  "zremUpTo t z = filter (\<lambda>e. t < snd e) z"

definition zadd :: "int \<Rightarrow> string \<Rightarrow> slots \<Rightarrow> slots" where
  "zadd score member z = insort_key snd (member, score) (filter (\<lambda>e. fst e \<noteq> member) z)"

definition acquireSlotScript :: "int \<Rightarrow> int \<Rightarrow> int \<Rightarrow> string \<Rightarrow> slots \<Rightarrow> bool \<times> slots" where
  "acquireSlotScript now windowMs limit uuid z0 = (let z = zremUpTo (now - windowMs) z0 in
     if z \<noteq> [] \<and> now - snd (last z) < 1000 then (False, z)
     else if int (length z) < limit then (True, zadd now uuid z) else (False, z))"

definition SEND_RATE_WINDOW_MS :: int where "SEND_RATE_WINDOW_MS = 60000"

definition botWait :: "int \<Rightarrow> int \<Rightarrow> slots \<Rightarrow> int" where
  "botWait limit now z = (if int (length z) < limit then (if z = [] then 0 else snd (last z) + 1000 - now)
     else if z = [] then SEND_RATE_WINDOW_MS else snd (hd z) + SEND_RATE_WINDOW_MS - now)"

text \<open>
  The wait until a bot is free, with the old slots removed on the way. A bot below its limit that can send now ends the
  search with 0; so does the maximum at the end, as the wait is then not positive.
\<close>

definition getWaitTimeMs :: "int \<Rightarrow> int list \<Rightarrow> int \<Rightarrow> (int \<Rightarrow> slots) \<Rightarrow> int \<times> (int \<Rightarrow> slots)" where
  "getWaitTimeMs limit ids now zs = (if ids = [] then (0, zs) else
     (let zs' = (\<lambda>b. if b \<in> set ids then zremUpTo (now - SEND_RATE_WINDOW_MS) (zs b) else zs b) in
      (if list_ex (\<lambda>b. int (length (zs' b)) < limit \<and> botWait limit now (zs' b) \<le> 0) ids then 0
       else max 0 (foldl (\<lambda>m b. min m (botWait limit now (zs' b))) SEND_RATE_WINDOW_MS ids), zs')))"

text \<open>One round over the bots, from a different one each time; a bot whose script fails is passed over.\<close>

fun tryBots :: "(int \<Rightarrow> bool) \<Rightarrow> int \<Rightarrow> int \<Rightarrow> string \<Rightarrow> int list \<Rightarrow> (int \<Rightarrow> slots) \<Rightarrow> int option \<times> (int \<Rightarrow> slots)" where
  "tryBots broken limit now uuid [] zs = (None, zs)"
| "tryBots broken limit now uuid (b # bs) zs = (if broken b then tryBots broken limit now uuid bs zs else
     (case acquireSlotScript now SEND_RATE_WINDOW_MS limit uuid (zs b) of (got, z) \<Rightarrow>
        if got then (Some b, zs(b := z)) else tryBots broken limit now uuid bs (zs(b := z))))"

text \<open>
  The loop. \<open>late\<close> is how late the timer fires, \<open>cancelled\<close> whether the client has gone by a time, and \<open>meanwhile\<close> what the
  scripts of others do to the slots during a wait. Without bots the loop only waits.
\<close>

record slot_env =
  sl_limit :: int
  sl_broken :: "int \<Rightarrow> int \<Rightarrow> bool"
  sl_late :: "int \<Rightarrow> nat"
  sl_cancelled :: "int \<Rightarrow> bool"
  sl_meanwhile :: "int \<Rightarrow> (int \<Rightarrow> slots) \<Rightarrow> (int \<Rightarrow> slots)"

partial_function (option) acquireUploadSlot ::
  "slot_env \<Rightarrow> int list \<Rightarrow> string \<Rightarrow> nat \<Rightarrow> int \<Rightarrow> (int \<Rightarrow> slots) \<Rightarrow> ((backend_error + int) \<times> nat \<times> int \<times> (int \<Rightarrow> slots)) option" where
  "acquireUploadSlot env ids uuid rr now zs = (if sl_cancelled env now then Some (Inl (PlainError ''Upload cancelled''), rr, now, zs) else
     (case tryBots (sl_broken env now) (sl_limit env) now uuid (rotate rr ids) zs of
        (Some b, zs') \<Rightarrow> Some (Inr b, rr + 1, now, zs')
      | (None, zs') \<Rightarrow> (case getWaitTimeMs (sl_limit env) ids now zs' of (minWait, zs'') \<Rightarrow>
          (let next = now + (if minWait > 0 then minWait + 100 else 1000) + int (sl_late env now) in
           acquireUploadSlot env ids uuid (rr + 1) next (sl_meanwhile env next zs'')))))"


subsection \<open>No bot sends too often\<close>

datatype slot_event = TrySlot int string | PruneSlots int

fun eventTime :: "slot_event \<Rightarrow> int" where
  "eventTime (TrySlot t u) = t"
| "eventTime (PruneSlots t) = t"

text \<open>The slots that the scripts of all processes grant on one bot, in order.\<close>

fun grants :: "int \<Rightarrow> slot_event list \<Rightarrow> slots \<Rightarrow> slots" where
  "grants limit [] z = []"
| "grants limit (TrySlot t u # es) z = (case acquireSlotScript t SEND_RATE_WINDOW_MS limit u z of (got, z') \<Rightarrow>
     (if got then [(u, t)] else []) @ grants limit es z')"
| "grants limit (PruneSlots t # es) z = grants limit es (zremUpTo (t - SEND_RATE_WINDOW_MS) z)"

definition inWindow :: "int \<Rightarrow> slots \<Rightarrow> slots" where
  "inWindow t gs = filter (\<lambda>e. t - SEND_RATE_WINDOW_MS < snd e \<and> snd e \<le> t) gs"

definition spaced :: "slots \<Rightarrow> bool" where
  "spaced gs \<longleftrightarrow> sorted_wrt (\<lambda>a b. snd a + 1000 \<le> snd b) gs"

definition rateKept :: "int \<Rightarrow> slots \<Rightarrow> bool" where
  "rateKept limit gs \<longleftrightarrow> spaced gs \<and> (\<forall>t. int (length (inWindow t gs)) \<le> max 0 limit)"

lemma zrem_zrem: "zremUpTo a (zremUpTo b z) = zremUpTo (max a b) z"
  by (auto simp: zremUpTo_def intro!: filter_cong)

lemma zrem_append: "zremUpTo a (x @ y) = zremUpTo a x @ zremUpTo a y"
  by (simp add: zremUpTo_def)

lemma insort_end: "\<forall>e \<in> set z. snd e < t \<Longrightarrow> insort_key snd (u, t :: int) z = z @ [(u, t)]"
  by (induction z) auto

lemma inWindow_append: "inWindow t (x @ y) = inWindow t x @ inWindow t y"
  by (simp add: inWindow_def)

lemma spaced_last: "spaced z \<Longrightarrow> e \<in> set z \<Longrightarrow> snd e \<le> snd (last z)"
proof (induction z)
  case (Cons a z)
  show ?case
  proof (cases "z = []")
    case False
    with Cons.prems(1) have a: "snd a + 1000 \<le> snd (last z)" by (simp add: spaced_def)
    from Cons.prems(1) have "spaced z" by (simp add: spaced_def)
    with Cons.IH Cons.prems(2) a False show ?thesis by (cases "e = a") simp_all
  qed (use Cons in simp)
qed simp

lemma spaced_zrem: "spaced gs \<Longrightarrow> spaced (zremUpTo t gs)"
  by (simp add: spaced_def zremUpTo_def sorted_wrt_filter)

text \<open>A slot that the script grants keeps the rate: what is still in the set are the grants of the last window.\<close>

lemma grant_kept:
  assumes "rateKept limit gs" and "\<forall>e \<in> set gs. snd e \<le> t" and "u \<notin> fst ` set gs"
    and "acquireSlotScript t SEND_RATE_WINDOW_MS limit u (zremUpTo q gs) = (True, z)" and "q \<le> t - SEND_RATE_WINDOW_MS"
  shows "rateKept limit (gs @ [(u, t)])" and "z = zremUpTo (t - SEND_RATE_WINDOW_MS) (gs @ [(u, t)])"
proof -
  let ?p = "t - SEND_RATE_WINDOW_MS"
  let ?z = "zremUpTo ?p gs"
  have W: "1000 \<le> SEND_RATE_WINDOW_MS" by (simp add: SEND_RATE_WINDOW_MS_def)
  from assms(5) have z1: "zremUpTo ?p (zremUpTo q gs) = ?z" by (simp add: zrem_zrem max_absorb1)
  from assms(4) have room: "int (length ?z) < limit" and late: "?z = [] \<or> snd (last ?z) + 1000 \<le> t" and z: "z = zadd t u ?z"
    by (auto simp: acquireSlotScript_def Let_def z1 split: if_splits)
  have before: "snd e + 1000 \<le> t" if "e \<in> set gs" for e
  proof (cases "e \<in> set ?z")
    case True
    then have "snd e \<le> snd (last ?z)" using spaced_last spaced_zrem assms(1) unfolding rateKept_def by blast
    with late True show ?thesis by auto
  next
    case False
    with that W show ?thesis by (auto simp: zremUpTo_def)
  qed
  have "zadd t u ?z = insort_key snd (u, t) ?z"
  proof -
    have "\<forall>e \<in> set ?z. fst e \<noteq> u" using assms(3) by (force simp: zremUpTo_def)
    then show ?thesis by (simp add: zadd_def filter_True)
  qed
  also have "\<dots> = ?z @ [(u, t)]"
    using before by (intro insort_end) (fastforce simp: zremUpTo_def)+
  finally show "z = zremUpTo ?p (gs @ [(u, t)])" using W z by (simp add: zrem_append) (simp add: zremUpTo_def)
  have "spaced (gs @ [(u, t)])" using assms(1) before by (auto simp: rateKept_def spaced_def sorted_wrt_append)
  moreover have "int (length (inWindow t' (gs @ [(u, t)]))) \<le> max 0 limit" for t'
  proof (cases "t - SEND_RATE_WINDOW_MS \<le> t' - SEND_RATE_WINDOW_MS \<and> t' - SEND_RATE_WINDOW_MS < t")
    case True
    have "length (inWindow t' gs) \<le> length ?z"
    proof -
      have "inWindow t' gs = filter (\<lambda>e. t' - SEND_RATE_WINDOW_MS < snd e \<and> snd e \<le> t') ?z"
        unfolding inWindow_def zremUpTo_def filter_filter using True by (intro filter_cong) auto
      then show ?thesis by simp
    qed
    with room show ?thesis by (auto simp: inWindow_append) (auto simp: inWindow_def)
  next
    case False
    then have "inWindow t' [(u, t)] = []" by (auto simp: inWindow_def)
    with assms(1) show ?thesis by (simp add: inWindow_append rateKept_def)
  qed
  ultimately show "rateKept limit (gs @ [(u, t)])" by (simp add: rateKept_def)
qed

lemma grants_kept:
  assumes "rateKept limit gs" and "z = zremUpTo q gs" and "sorted (map eventTime es)"
    and "\<forall>e \<in> set es. q \<le> eventTime e - SEND_RATE_WINDOW_MS" and "\<forall>e \<in> set es. \<forall>g \<in> set gs. snd g \<le> eventTime e"
    and "distinct (map fst (gs @ grants limit es z))"
  shows "rateKept limit (gs @ grants limit es z)"
  using assms
proof (induction es arbitrary: gs z q)
  case (Cons e es)
  show ?case
  proof (cases e)
    case (TrySlot t u)
    obtain got z' where r: "acquireSlotScript t SEND_RATE_WINDOW_MS limit u z = (got, z')" by (cases "acquireSlotScript t SEND_RATE_WINDOW_MS limit u z")
    from Cons.prems(3,4) TrySlot have q: "q \<le> t - SEND_RATE_WINDOW_MS" and later: "\<forall>e \<in> set es. t \<le> eventTime e" by auto
    show ?thesis
    proof (cases got)
      case True
      have e: "grants limit (e # es) z = (u, t) # grants limit es z'" using r TrySlot True by simp
      from Cons.prems(6) have fresh: "u \<notin> fst ` set gs" unfolding e by auto
      with Cons.prems r TrySlot q True have g: "rateKept limit (gs @ [(u, t)])" "z' = zremUpTo (t - SEND_RATE_WINDOW_MS) (gs @ [(u, t)])"
        using grant_kept [of limit gs t u q z'] by auto
      have "rateKept limit ((gs @ [(u, t)]) @ grants limit es z')"
        using Cons.prems(3,5,6) later TrySlot unfolding e by (intro Cons.IH [OF g]) auto
      then show ?thesis unfolding e by simp
    next
      case False
      with r have "z' = zremUpTo (t - SEND_RATE_WINDOW_MS) z" by (auto simp: acquireSlotScript_def Let_def split: if_splits)
      with Cons.prems(2) q have "z' = zremUpTo (t - SEND_RATE_WINDOW_MS) gs" by (simp add: zrem_zrem max_absorb1)
      moreover have e: "grants limit (e # es) z = grants limit es z'" using r TrySlot False by simp
      ultimately show ?thesis
        using Cons.prems(1,3,5,6) later TrySlot unfolding e by (intro Cons.IH [of gs z' "t - SEND_RATE_WINDOW_MS"]) auto
    qed
  next
    case (PruneSlots t)
    with Cons.prems have "q \<le> t - SEND_RATE_WINDOW_MS" "\<forall>e \<in> set es. t \<le> eventTime e" by auto
    with Cons.prems PruneSlots show ?thesis
      using Cons.IH [of gs "zremUpTo (t - SEND_RATE_WINDOW_MS) z" "t - SEND_RATE_WINDOW_MS"] by (auto simp: zrem_zrem max_absorb1)
  qed
qed simp

text \<open>
  C24. No bot sends too often, however many processes share it: of the slots that the script grants on a bot, in the order of
  the clock, two are at least a second apart, and no stretch of a minute holds more than the limit.
\<close>
theorem upload_rate_kept:
  assumes "sorted (map eventTime es)" and "distinct (map fst (grants limit es []))"
  shows "sorted_wrt (\<lambda>a b. snd a + 1000 \<le> snd b) (grants limit es []) \<and>
    (\<forall>t. int (length (filter (\<lambda>e. t - 60000 < snd e \<and> snd e \<le> t) (grants limit es []))) \<le> max 0 limit)"
proof (cases es)
  case (Cons e es')
  have "rateKept limit ([] @ grants limit es [])"
  proof (rule grants_kept [where q = "eventTime e - SEND_RATE_WINDOW_MS"])
    show "\<forall>x \<in> set es. eventTime e - SEND_RATE_WINDOW_MS \<le> eventTime x - SEND_RATE_WINDOW_MS" using Cons assms(1) by auto
  qed (use assms in \<open>auto simp: rateKept_def spaced_def inWindow_def zremUpTo_def\<close>)
  then show ?thesis by (simp add: rateKept_def spaced_def inWindow_def SEND_RATE_WINDOW_MS_def)
qed simp

theorem upload_rate_kept_witness:
  "grants 2 [TrySlot 0 ''a'', TrySlot 500 ''b'', TrySlot 1000 ''b'', TrySlot 3000 ''c'', TrySlot 60000 ''c''] [] = [(''a'', 0), (''b'', 1000), (''c'', 60000)] \<and>
   (\<forall>t. int (length (filter (\<lambda>e. t - 60000 < snd e \<and> snd e \<le> t)
      (grants 2 [TrySlot 0 ''a'', TrySlot 500 ''b'', TrySlot 1000 ''b'', TrySlot 3000 ''c'', TrySlot 60000 ''c''] []))) \<le> 2)"
proof -
  have g: "grants 2 [TrySlot 0 ''a'', TrySlot 500 ''b'', TrySlot 1000 ''b'', TrySlot 3000 ''c'', TrySlot 60000 ''c''] [] =
      [(''a'', 0), (''b'', 1000), (''c'', 60000)]"
    by (simp add: acquireSlotScript_def zremUpTo_def zadd_def SEND_RATE_WINDOW_MS_def)
  show ?thesis
    using upload_rate_kept [of "[TrySlot 0 ''a'', TrySlot 500 ''b'', TrySlot 1000 ''b'', TrySlot 3000 ''c'', TrySlot 60000 ''c'']" 2]
    unfolding g by simp
qed


subsection \<open>Waiting for a slot ends\<close>

lemma script_refused: "acquireSlotScript now w limit u z = (False, z') \<Longrightarrow> set z' \<subseteq> set z"
  by (auto simp: acquireSlotScript_def Let_def zremUpTo_def split: if_splits)

lemma tryBots_None: "tryBots broken limit now u bs zs = (None, zs') \<Longrightarrow> set (zs' b) \<subseteq> set (zs b)"
proof (induction bs arbitrary: zs)
  case (Cons a bs)
  show ?case
  proof (cases "broken a")
    case False
    obtain got z where r: "acquireSlotScript now SEND_RATE_WINDOW_MS limit u (zs a) = (got, z)" by fastforce
    with Cons.prems False have "\<not> got" "tryBots broken limit now u bs (zs(a := z)) = (None, zs')" by (auto split: if_splits)
    then have "set (zs' b) \<subseteq> set ((zs(a := z)) b)" using Cons.IH by blast
    also have "\<dots> \<subseteq> set (zs b)" using r \<open>\<not> got\<close> script_refused [of now SEND_RATE_WINDOW_MS limit u "zs a" z] by (cases "b = a") auto
    finally show ?thesis .
  qed (use Cons in auto)
qed simp

lemma tryBots_Some: "tryBots broken limit now u bs zs = (Some b, zs') \<Longrightarrow> b \<in> set bs"
  by (induction broken limit now u bs zs arbitrary: zs' rule: tryBots.induct) (auto split: if_splits prod.splits)

lemma getWait_subset: "set (snd (getWaitTimeMs limit ids now zs) b) \<subseteq> set (zs b)"
  by (auto simp: getWaitTimeMs_def Let_def zremUpTo_def)

lemma foldl_min_le: "foldl (\<lambda>m b. min m (f b)) (a :: int) bs \<le> a"
proof (induction bs arbitrary: a)
  case (Cons b bs)
  from Cons [of "min a (f b)"] show ?case by simp
qed simp

lemma getWait_bound: "fst (getWaitTimeMs limit ids now zs) \<le> SEND_RATE_WINDOW_MS"
  by (simp add: getWaitTimeMs_def Let_def foldl_min_le) (simp add: SEND_RATE_WINDOW_MS_def)

lemma script_grants_old:
  assumes "0 < limit" and "\<forall>e \<in> set z. snd e \<le> now - w"
  shows "fst (acquireSlotScript now w limit u z)"
proof -
  have "zremUpTo (now - w) z = []" using assms(2) by (auto simp: zremUpTo_def filter_empty_conv)
  with assms(1) show ?thesis by (simp add: acquireSlotScript_def)
qed

text \<open>
  C25. A sender gets its slot: when nobody else sends, Redis answers and the client stays, waiting for a slot ends with one of
  the bots, however full their windows were, at the latest a window, one more wait and the lateness of a timer after the
  last slot that was taken before. The loop has no counter; it is the clock that ends it.
\<close>
theorem slot_wait_ends:
  assumes "ids \<noteq> []" and "0 < sl_limit env" and "\<forall>t b. \<not> sl_broken env t b" and "\<forall>t. \<not> sl_cancelled env t"
    and "\<forall>t z. sl_meanwhile env t z = z" and "\<forall>t. sl_late env t \<le> L" and "\<forall>b. \<forall>e \<in> set (zs b). snd e \<le> T"
  shows "\<exists>b rr' t zs'. acquireUploadSlot env ids uuid rr now zs = Some (Inr b, rr', t, zs') \<and> b \<in> set ids \<and>
    t \<le> max now (T + 120100 + int L)"
  using assms(7)
proof (induction "nat (T + 60000 - now)" arbitrary: now rr zs rule: less_induct)
  case less
  obtain got zs' where tried: "tryBots (sl_broken env now) (sl_limit env) now uuid (rotate rr ids) zs = (got, zs')" by fastforce
  show ?case
  proof (cases got)
    case (Some b)
    with tried assms(4) tryBots_Some [of "sl_broken env now"] show ?thesis
      by (subst acquireUploadSlot.simps) (fastforce simp: max_def)
  next
    case None
    have early: "now < T + 60000"
    proof (rule ccontr)
      assume "\<not> now < T + 60000"
      with less.prems have "\<forall>e \<in> set (zs b). snd e \<le> now - SEND_RATE_WINDOW_MS" for b by (force simp: SEND_RATE_WINDOW_MS_def)
      then have grant: "fst (acquireSlotScript now SEND_RATE_WINDOW_MS (sl_limit env) uuid (zs b))" for b
        using script_grants_old assms(2) by blast
      obtain b bs where "rotate rr ids = b # bs" using assms(1) by (cases "rotate rr ids") auto
      with tried grant [of b] assms(3) None show False by (auto split: prod.splits)
    qed
    obtain minWait zs'' where w: "getWaitTimeMs (sl_limit env) ids now zs' = (minWait, zs'')" by fastforce
    define later where "later = now + (if minWait > 0 then minWait + 100 else 1000) + int (sl_late env now)"
    have "\<forall>b. \<forall>e \<in> set (zs'' b). snd e \<le> T"
      using less.prems tryBots_None [OF tried [unfolded None]] getWait_subset [of "sl_limit env" ids now zs'] w by fastforce
    moreover have "nat (T + 60000 - later) < nat (T + 60000 - now)" using early by (auto simp: later_def)
    ultimately obtain b rr' t fin where res: "acquireUploadSlot env ids uuid (rr + 1) later zs'' = Some (Inr b, rr', t, fin)" "b \<in> set ids"
      "t \<le> max later (T + 120100 + int L)" using less.hyps [of later zs'' "rr + 1"] by blast
    have "minWait \<le> 60000" using getWait_bound [of "sl_limit env" ids now zs'] w by (simp add: SEND_RATE_WINDOW_MS_def)
    moreover have "int (sl_late env now) \<le> int L" using assms(6) by simp
    ultimately have "later \<le> T + 120100 + int L" using early unfolding later_def by (auto split: if_splits)
    with res(3) have "t \<le> max now (T + 120100 + int L)" by (simp add: max_def split: if_splits)
    moreover have "acquireUploadSlot env ids uuid rr now zs = Some (Inr b, rr', t, fin)"
      using tried None w res(1) assms(4,5) by (subst acquireUploadSlot.simps) (simp add: later_def [symmetric] Let_def)
    ultimately show ?thesis using res(2) by blast
  qed
qed

definition quietSlots :: slot_env where
  "quietSlots = \<lparr>sl_limit = 1, sl_broken = (\<lambda>t b. False), sl_late = (\<lambda>t. 3), sl_cancelled = (\<lambda>t. False), sl_meanwhile = (\<lambda>t z. z)\<rparr>"

theorem slot_wait_ends_witness:
  "\<exists>b rr' t zs'. acquireUploadSlot quietSlots [7] ''u'' 0 30000 (\<lambda>b. [(''v'', 20000)]) = Some (Inr b, rr', t, zs') \<and> b = 7 \<and> t \<le> 140103"
  using slot_wait_ends [of "[7]" quietSlots 3 "\<lambda>b. [(''v'', 20000)]" 20000 "''u''" 0 30000] by (simp add: quietSlots_def)

text \<open>Without a bot the loop never ends.\<close>

lemma no_bots_wait: "\<not> sl_cancelled env now \<Longrightarrow> acquireUploadSlot env [] uuid rr now zs =
    acquireUploadSlot env [] uuid (rr + 1) (now + 1000 + int (sl_late env now)) (sl_meanwhile env (now + 1000 + int (sl_late env now)) zs)"
  by (subst acquireUploadSlot.simps) (simp add: getWaitTimeMs_def Let_def)


subsection \<open>Links of files\<close>

text \<open>
  Links are cached, requests for the same file id share one call, and only a few calls are open at a time. A request is
  named by its file id: it waits for the semaphore, holds it during the call, and is forgotten in a later step than the one
  that releases the semaphore.
\<close>

record link_client =
  lk_active :: nat
  lk_queue :: "string list"
  lk_running :: "string list"
  lk_cache :: "string \<Rightarrow> (string \<times> int) option"
  lk_pending :: "string list"

definition SEMAPHORE_LIMIT :: nat where "SEMAPHORE_LIMIT = 3"
definition LINK_CACHE_TTL_MS :: int where "LINK_CACHE_TTL_MS = 50 * 60 * 1000"

definition noLinks :: link_client where
  "noLinks = \<lparr>lk_active = 0, lk_queue = [], lk_running = [], lk_cache = (\<lambda>_. None), lk_pending = []\<rparr>"

definition acquireSemaphore :: "string \<Rightarrow> link_client \<Rightarrow> link_client" where
  "acquireSemaphore f c = (if lk_active c < SEMAPHORE_LIMIT then c\<lparr>lk_active := lk_active c + 1, lk_running := lk_running c @ [f]\<rparr>
     else c\<lparr>lk_queue := lk_queue c @ [f]\<rparr>)"

definition releaseSemaphore :: "string \<Rightarrow> link_client \<Rightarrow> link_client" where
  "releaseSemaphore f c = (let c' = c\<lparr>lk_active := lk_active c - 1, lk_running := remove1 f (lk_running c)\<rparr> in
     case lk_queue c' of [] \<Rightarrow> c'
     | g # q \<Rightarrow> c'\<lparr>lk_queue := q, lk_active := lk_active c' + 1, lk_running := lk_running c' @ [g]\<rparr>)"

definition cachedLink :: "int \<Rightarrow> string \<Rightarrow> link_client \<Rightarrow> string option" where
  "cachedLink now f c = (case lk_cache c f of Some (url, expiry) \<Rightarrow> if expiry > now then Some url else None | None \<Rightarrow> None)"

datatype link_answer = LinkCached string | LinkJoined | LinkStarted

definition getFileLink :: "int \<Rightarrow> string \<Rightarrow> link_client \<Rightarrow> link_answer \<times> link_client" where
  "getFileLink now f c = (case cachedLink now f c of Some url \<Rightarrow> (LinkCached url, c)
     | None \<Rightarrow> if f \<in> set (lk_pending c) then (LinkJoined, c)
         else (LinkStarted, acquireSemaphore f (c\<lparr>lk_pending := lk_pending c @ [f]\<rparr>)))"

text \<open>The request holds the semaphore: what the API answers is cached, and the semaphore is released in any case.\<close>

definition resolveWithSemaphore :: "int \<Rightarrow> string \<Rightarrow> api_error + string \<Rightarrow> link_client \<Rightarrow> (api_error + string) \<times> link_client" where
  "resolveWithSemaphore now f answer c = (case cachedLink now f c of
     Some url \<Rightarrow> (Inr url, releaseSemaphore f c)
   | None \<Rightarrow> (case answer of Inl e \<Rightarrow> (Inl e, releaseSemaphore f c)
       | Inr url \<Rightarrow> (Inr url, releaseSemaphore f (c\<lparr>lk_cache := (lk_cache c)(f \<mapsto> (url, now + LINK_CACHE_TTL_MS))\<rparr>))))"

definition forgetRequest :: "string \<Rightarrow> link_client \<Rightarrow> link_client" where
  "forgetRequest f c = c\<lparr>lk_pending := removeAll f (lk_pending c)\<rparr>"

text \<open>Local Bot API servers answer with a path, which becomes a URL of the server.\<close>

definition linkUrl :: "string \<Rightarrow> string \<Rightarrow> (string \<Rightarrow> string) \<Rightarrow> string \<Rightarrow> string" where
  "linkUrl apiRoot botToken pathname link =
     (if jsStartsWith ''file:'' link then apiRoot @ ''/file/bot'' @ botToken @ pathname link else link)"

inductive linkStep :: "int \<times> link_client \<Rightarrow> int \<times> link_client \<Rightarrow> bool" where
  Asked: "linkStep (now, c) (now, snd (getFileLink now f c))"
| Answered: "f \<in> set (lk_running c) \<Longrightarrow> linkStep (now, c) (now, snd (resolveWithSemaphore now f answer c))"
| Forgotten: "f \<in> set (lk_pending c) \<Longrightarrow> f \<notin> set (lk_running c) \<Longrightarrow> f \<notin> set (lk_queue c) \<Longrightarrow> linkStep (now, c) (now, forgetRequest f c)"
| Elapses: "now \<le> later \<Longrightarrow> linkStep (now, c) (later, c)"

inductive_cases linkStep_elim: "linkStep s s'"

inductive linkReach :: "int \<times> link_client \<Rightarrow> bool" where
  Start: "linkReach (now, noLinks)"
| Step: "linkReach s \<Longrightarrow> linkStep s s' \<Longrightarrow> linkReach s'"

definition linksOk :: "int \<times> link_client \<Rightarrow> bool" where
  "linksOk s \<longleftrightarrow> (case s of (now, c) \<Rightarrow> lk_active c = length (lk_running c) \<and> lk_active c \<le> SEMAPHORE_LIMIT \<and>
     (lk_queue c \<noteq> [] \<longrightarrow> lk_active c = SEMAPHORE_LIMIT) \<and> distinct (lk_running c @ lk_queue c) \<and>
     set (lk_running c @ lk_queue c) \<subseteq> set (lk_pending c) \<and> (\<forall>f url e. lk_cache c f = Some (url, e) \<longrightarrow> e \<le> now + LINK_CACHE_TTL_MS))"

lemma release_ok:
  assumes "linksOk (now, c)" and "f \<in> set (lk_running c)"
  shows "linksOk (now, releaseSemaphore f c)"
proof -
  from assms have n: "0 < lk_active c" "length (remove1 f (lk_running c)) = lk_active c - 1"
    by (auto simp: linksOk_def length_remove1 length_pos_if_in_set)
  show ?thesis
  proof (cases "lk_queue c")
    case Nil
    with assms n show ?thesis
      by (auto simp: linksOk_def releaseSemaphore_def Let_def dest: in_set_remove1 [THEN iffD1, rotated] notin_set_remove1 set_mp [OF set_remove1_subset])
  next
    case (Cons g q)
    with assms n show ?thesis
      by (auto simp: linksOk_def releaseSemaphore_def Let_def dest: set_mp [OF set_remove1_subset])
  qed
qed

lemma asked_ok: "linksOk (now, c) \<Longrightarrow> linksOk (now, snd (getFileLink now f c))"
  by (auto simp: getFileLink_def acquireSemaphore_def linksOk_def split: option.split)

lemma answered_ok: "linksOk (now, c) \<Longrightarrow> f \<in> set (lk_running c) \<Longrightarrow> linksOk (now, snd (resolveWithSemaphore now f answer c))"
proof -
  assume ok: "linksOk (now, c)" and f: "f \<in> set (lk_running c)"
  then have "linksOk (now, c\<lparr>lk_cache := (lk_cache c)(f \<mapsto> (url, now + LINK_CACHE_TTL_MS))\<rparr>)" for url
    by (auto simp: linksOk_def split: if_splits)
  with ok f show ?thesis
    by (auto simp: resolveWithSemaphore_def split: option.split sum.split intro!: release_ok)
qed

lemma step_ok: "linkStep s s' \<Longrightarrow> linksOk s \<Longrightarrow> linksOk s'"
proof (induction rule: linkStep.induct)
  case (Forgotten f c now)
  then show ?case by (auto simp: forgetRequest_def linksOk_def)
next
  case (Elapses now later c)
  then show ?case by (force simp: linksOk_def)
qed (simp_all add: asked_ok answered_ok)

lemma reach_ok: "linkReach s \<Longrightarrow> linksOk s"
  by (induction rule: linkReach.induct) (auto simp: step_ok, simp add: linksOk_def noLinks_def)


definition busyLinks :: link_client where
  "busyLinks = snd (getFileLink 0 ''d'' (snd (getFileLink 0 ''c'' (snd (getFileLink 0 ''b'' (snd (getFileLink 0 ''a'' noLinks)))))))"


subsection \<open>Sending, recovering and deleting\<close>

record sent_document =
  sd_fileId :: string
  sd_messageId :: int
  sd_botId :: int

text \<open>A response without a document is refused. A stream is sent once, a buffer may be sent again.\<close>

definition documentOf :: "int \<Rightarrow> (string option \<times> int) \<Rightarrow> backend_error + sent_document" where
  "documentOf botId response = (case response of (Some fileId, messageId) \<Rightarrow> Inr \<lparr>sd_fileId = fileId, sd_messageId = messageId, sd_botId = botId\<rparr>
     | (None, _) \<Rightarrow> Inl (PlainError ''Telegram Bot API did not return a valid document''))"

definition apiFailure :: "api_error \<Rightarrow> backend_error" where
  "apiFailure e = PlainError (textOr (ae_message e))"

definition uploadDocument :: "int \<Rightarrow> (nat \<Rightarrow> api_error + (string option \<times> int)) \<Rightarrow> backend_error + sent_document" where
  "uploadDocument botId answer = (case fst (withRetry answer) of Inl e \<Rightarrow> Inl (apiFailure e) | Inr r \<Rightarrow> documentOf botId r)"

definition uploadStream :: "int \<Rightarrow> api_error + (string option \<times> int) \<Rightarrow> backend_error + sent_document" where
  "uploadStream botId answer = (case answer of Inl e \<Rightarrow> Inl (apiFailure e) | Inr r \<Rightarrow> documentOf botId r)"

text \<open>The main bot forwards the message, takes the new file id from the copy and deletes the copy.\<close>

definition recoverFileId :: "telegram_bots \<Rightarrow> (nat \<Rightarrow> api_error + (string option \<times> int)) \<Rightarrow> (backend_error + (string \<times> int)) \<times> int list" where
  "recoverFileId bots answer = (if \<not> isBotAvailable bots (tg_main bots) then (Inl (PlainError ''main bot unavailable''), [])
     else (case fst (withRetry answer) of Inl e \<Rightarrow> (Inl (apiFailure e), [])
       | Inr (None, _) \<Rightarrow> (Inl (PlainError ''forwarded message has no document''), [])
       | Inr (Some f, messageId) \<Rightarrow> (Inr (f, tg_main bots), [messageId])))"

text \<open>A deletion never fails for the caller; the result says what is logged.\<close>

datatype delete_outcome = MessageDeleted | DeleteSkipped | DeleteFailed

definition deletingBot :: "telegram_bots \<Rightarrow> int option \<Rightarrow> int" where
  "deletingBot bots botId = (case botId of Some b \<Rightarrow> if b \<noteq> 0 \<and> isBotAvailable bots b then b else tg_main bots | None \<Rightarrow> tg_main bots)"

definition deleteMessage :: "telegram_bots \<Rightarrow> int option \<Rightarrow> (int \<Rightarrow> nat \<Rightarrow> api_error + unit) \<Rightarrow> delete_outcome" where
  "deleteMessage bots botId answer = (case fst (withRetry (answer (deletingBot bots botId))) of
     Inr _ \<Rightarrow> MessageDeleted | Inl e \<Rightarrow> if isBenignDeleteError e then DeleteSkipped else DeleteFailed)"

text \<open>
  Every call is made at most four times, each repetition after an error worth repeating and after the wait that the
  server asked for, or an exponential one; the answer is that of the last call, a success as soon as there is one.
\<close>
theorem retries_bounded:
  "\<exists>k \<le> 3. fst (withRetry answer) = answer k \<and> length (snd (withRetry answer)) = k \<and>
     (\<forall>i < k. \<exists>e. answer i = Inl e \<and> isRetryable e \<and>
        snd (withRetry answer) ! i = (case getRetryAfterMs e of Some d \<Rightarrow> d | None \<Rightarrow> 1000 * 2 ^ i)) \<and>
     (k < 3 \<longrightarrow> (\<exists>r. answer k = Inr r) \<or> (\<exists>e. answer k = Inl e \<and> \<not> isRetryable e))"
proof -
  obtain k where k: "k \<le> MAX_RETRIES" "fst (withRetry answer) = answer k" "length (snd (withRetry answer)) = k"
    "\<forall>i < k. retryDecision i (answer i) = Some (snd (withRetry answer) ! i)" "k < MAX_RETRIES \<longrightarrow> retryDecision k (answer k) = None"
    using retryLoop_last [of MAX_RETRIES retryDecision answer 0] unfolding withRetry_def add_0 by blast
  have "\<exists>e. answer i = Inl e \<and> isRetryable e \<and> snd (withRetry answer) ! i = (case getRetryAfterMs e of Some d \<Rightarrow> d | None \<Rightarrow> 1000 * 2 ^ i)"
    if "i < k" for i
  proof -
    from k(4) that have "retryDecision i (answer i) = Some (snd (withRetry answer) ! i)" by blast
    then show ?thesis by (cases "answer i") (auto simp: retryDecision_def backoff_def BASE_DELAY_MS_def split: if_splits option.splits)
  qed
  moreover have "k < 3 \<longrightarrow> (\<exists>r. answer k = Inr r) \<or> (\<exists>e. answer k = Inl e \<and> \<not> isRetryable e)"
    using k(5) by (cases "answer k") (auto simp: retryDecision_def MAX_RETRIES_def split: if_splits)
  ultimately show ?thesis using k(1-3) by (auto simp: MAX_RETRIES_def)
qed

end
