(* ===== verification/ZipJobs.thy ===== *)
theory ZipJobs
  imports Bandwidth Upload TransferRead
begin

section \<open>ZIP downloads\<close>

text \<open>
  \<^verbatim>\<open>DownloadZipService\<close> (download-zip/download-zip.service.ts) and \<^verbatim>\<open>DownloadZipProcessor\<close>
  (download-zip/download-zip.processor.ts): jobs that pack files and folders, for their owner or for a share link. New ids,
  the clock, the queue, the free disk space and the archiver are arguments. A run that never ends is the error \<open>Diverges\<close>.
\<close>

record zip_env =
  zx_zipOwner :: "string option"
  zx_publish :: "backend_error option"
  zx_availableSpace :: "int option"
  zx_newId :: string
  zx_now :: int

definition zipOwnerIsGo :: "string option \<Rightarrow> bool" where
  "zipOwnerIsGo owner = ((if present owner then the owner else ''go'') = ''go'')"

definition findJob :: "string \<Rightarrow> backend \<Rightarrow> job_row option" where
  "findJob jid b = find (\<lambda>j. job_id j = jid) (bk_jobs b)"

definition updateJob :: "string \<Rightarrow> (job_row \<Rightarrow> job_row) \<Rightarrow> unit bop" where
  "updateJob jid f = bindOp (getsOp (findJob jid)) (\<lambda>j. case j of None \<Rightarrow> throwOp PrismaP2025
     | Some _ \<Rightarrow> modifyOp (\<lambda>b. b\<lparr>bk_jobs := updateWhere (\<lambda>j. job_id j = jid) f (bk_jobs b)\<rparr>))"

definition newJobRow :: "string \<Rightarrow> string option \<Rightarrow> string option \<Rightarrow> string list \<Rightarrow> string list \<Rightarrow> int \<Rightarrow> int \<Rightarrow> int \<Rightarrow> job_row" where
  "newJobRow jid userId shareToken fileIds folderIds n sz now = \<lparr>job_id = jid, job_userId = userId, job_shareToken = shareToken,
     job_status = Job_pending, job_fileIds = fileIds, job_folderIds = folderIds, job_totalFiles = n, job_processedFiles = 0,
     job_totalSize = sz, job_zipParts = [], job_errorMessage = None, job_expiresAt = None, job_createdAt = now\<rparr>"

definition inProgress :: "job_row \<Rightarrow> bool" where
  "inProgress j \<longleftrightarrow> job_status j \<in> {Job_pending, Job_collecting, Job_zipping, Job_splitting}"

subsection \<open>What a job packs\<close>

record zip_entry =
  ze_fileRecordId :: string
  ze_relativePath :: string
  ze_size :: int

definition packable :: "file_row \<Rightarrow> bool" where
  "packable f \<longleftrightarrow> fr_deletedAt f = None \<and> fr_status f = Complete"

definition packedFiles :: "string \<Rightarrow> string \<Rightarrow> backend \<Rightarrow> file_row list" where
  "packedFiles folderId userId b = filter (\<lambda>f. fr_folderId f = Some folderId \<and> fr_userId f = userId \<and> packable f) (bk_files b)"

definition subfolders :: "string \<Rightarrow> backend \<Rightarrow> folder_row list" where
  "subfolders folderId b = filter (\<lambda>d. fld_parentId d = Some folderId \<and> fld_deletedAt d = None) (bk_folders b)"

fun allOrNone :: "'a option list \<Rightarrow> 'a list option" where
  "allOrNone [] = Some []"
| "allOrNone (None # xs) = None"
| "allOrNone (Some x # xs) = map_option ((#) x) (allOrNone xs)"

text \<open>The recursion into the live subfolders; without fuel it has no value.\<close>

fun collectFolderEntriesRecursive :: "nat \<Rightarrow> backend \<Rightarrow> string \<Rightarrow> string \<Rightarrow> string \<Rightarrow> zip_entry list option" where
  "collectFolderEntriesRecursive 0 b folderId currentPath userId = None"
| "collectFolderEntriesRecursive (Suc n) b folderId currentPath userId =
     map_option (\<lambda>below. map (\<lambda>f. \<lparr>ze_fileRecordId = fr_id f, ze_relativePath = currentPath @ CHR ''/'' # fr_filename f, ze_size = fr_size f\<rparr>)
         (packedFiles folderId userId b) @ concat below)
       (allOrNone (map (\<lambda>sub. collectFolderEntriesRecursive n b (fld_id sub) (currentPath @ CHR ''/'' # fld_name sub) userId) (subfolders folderId b)))"

fun calculateFolderSizeRecursive :: "nat \<Rightarrow> backend \<Rightarrow> string \<Rightarrow> string \<Rightarrow> (int \<times> int) option" where
  "calculateFolderSizeRecursive 0 b folderId userId = None"
| "calculateFolderSizeRecursive (Suc n) b folderId userId =
     map_option (\<lambda>below. (sum_list (map fr_size (packedFiles folderId userId b)) + sum_list (map fst below),
         int (length (packedFiles folderId userId b)) + sum_list (map snd below)))
       (allOrNone (map (\<lambda>sub. calculateFolderSizeRecursive n b (fld_id sub) userId) (subfolders folderId b)))"

definition folderFuel :: "backend \<Rightarrow> nat" where
  "folderFuel b = Suc (length (bk_folders b))"

text \<open>The files chosen one by one, and then folder by folder; a folder that is gone is left out.\<close>

definition jobEntries :: "string list \<Rightarrow> string list \<Rightarrow> backend \<Rightarrow> zip_entry list option" where
  "jobEntries fileIds folderIds b =
    (let direct = map (\<lambda>f. \<lparr>ze_fileRecordId = fr_id f, ze_relativePath = fr_filename f, ze_size = fr_size f\<rparr>)
       (filter (\<lambda>f. fr_id f \<in> set fileIds \<and> packable f) (bk_files b)) in
     map_option (\<lambda>parts. direct @ concat parts)
       (allOrNone (map (\<lambda>folderId. case findFolder folderId b of None \<Rightarrow> Some []
          | Some folder \<Rightarrow> collectFolderEntriesRecursive (folderFuel b) b folderId (fld_name folder) (fld_userId folder)) folderIds)))"

definition collectEntries :: "string \<Rightarrow> zip_entry list bop" where
  "collectEntries jobId = bindOp (getsOp (findJob jobId)) (\<lambda>row. case row of
     None \<Rightarrow> throwOp (NotFoundException ''Job not found'')
   | Some job \<Rightarrow> bindOp (getsOp (jobEntries (job_fileIds job) (job_folderIds job))) (\<lambda>found. bindOp (orFail Diverges found) (\<lambda>entries.
       thenOp (updateJob jobId (\<lambda>j. j\<lparr>job_totalFiles := int (length entries), job_totalSize := sum_list (map ze_size entries), job_status := Job_zipping\<rparr>))
         (returnOp entries))))"

definition calculateSizeAndCount :: "string list \<Rightarrow> string list \<Rightarrow> string \<Rightarrow> backend \<Rightarrow> (int \<times> int) option" where
  "calculateSizeAndCount fileIds folderIds userId b =
    (let files = filter (\<lambda>f. fr_id f \<in> set fileIds \<and> fr_userId f = userId \<and> packable f) (bk_files b) in
     map_option (\<lambda>parts. (sum_list (map fr_size files) + sum_list (map fst parts), int (length files) + sum_list (map snd parts)))
       (allOrNone (map (\<lambda>folderId. calculateFolderSizeRecursive (folderFuel b) b folderId userId) folderIds)))"

subsection \<open>New jobs\<close>

text \<open>Into the stream that one transfer server reads, or onto the queue of the local worker.\<close>

definition dispatchZipJob :: "zip_env \<Rightarrow> string \<Rightarrow> unit bop" where
  "dispatchZipJob env jobId = (case zx_publish env of Some e \<Rightarrow> throwOp e
     | None \<Rightarrow> modifyOp (emit [if zipOwnerIsGo (zx_zipOwner env) then QueueJob ''CREATE_ZIP'' jobId else QueueJob ''create-zip'' (''zip-'' @ jobId)]))"

definition checkDiskSpace :: "zip_env \<Rightarrow> int \<Rightarrow> unit bop" where
  "checkDiskSpace env totalSize = (case zx_availableSpace env of None \<Rightarrow> returnOp ()
     | Some available \<Rightarrow> unlessOp (totalSize \<le> available) (BadRequestException ''Insufficient server disk space to prepare ZIP''))"

definition zipLockDenied :: "backend_error \<Rightarrow> unit bop" where
  "zipLockDenied e = (case e of
     PlainError m \<Rightarrow> if jsIncludes ''BANDWIDTH_LIMIT'' m then
         (case jsSplit (CHR '':'') m of code # resetAt # _ \<Rightarrow> throwOp (QuotaExceeded code resetAt) | code # [] \<Rightarrow> throwOp (QuotaExceeded code [])
            | [] \<Rightarrow> throwOp e)
       else throwOp e
   | _ \<Rightarrow> throwOp e)"

definition lockZip :: "string option \<Rightarrow> int \<Rightarrow> string option \<Rightarrow> int \<Rightarrow> unit bop" where
  "lockZip userId totalSize ip now = whenOp (present ip)
     (catchOp (bindOp (lockBandwidth userId totalSize (the ip) now) (\<lambda>_. returnOp ())) zipLockDenied)"

definition createZipRow :: "zip_env \<Rightarrow> string \<Rightarrow> string option \<Rightarrow> string list \<Rightarrow> string list \<Rightarrow> int \<times> int \<Rightarrow> (string \<times> string) bop" where
  "createZipRow env userId shareToken fileIds folderIds totals =
     thenOp (modifyOp (\<lambda>b. b\<lparr>bk_jobs := bk_jobs b @ [newJobRow (zx_newId env) (Some userId) shareToken fileIds folderIds (snd totals) (fst totals) (zx_now env)]\<rparr>))
     (thenOp (dispatchZipJob env (zx_newId env)) (returnOp (zx_newId env, ''pending'')))"

definition createJob :: "zip_env \<Rightarrow> string \<Rightarrow> string list \<Rightarrow> string list \<Rightarrow> string option \<Rightarrow> (string \<times> string) bop" where
  "createJob env userId fileIds folderIds ip =
     thenOp (unlessOp (fileIds \<noteq> [] \<or> folderIds \<noteq> []) (BadRequestException ''At least one fileId or folderId required''))
     (bindOp (getsOp (find (\<lambda>j. job_userId j = Some userId \<and> inProgress j) \<circ> bk_jobs)) (\<lambda>existing.
      thenOp (unlessOp (existing = None) (ConflictException ''A download job is already in progress''))
     (bindOp (getsOp (\<lambda>b. (countWhere (\<lambda>f. fr_id f \<in> set fileIds \<and> fr_userId f = userId \<and> packable f) (bk_files b),
        countWhere (\<lambda>d. fld_id d \<in> set folderIds \<and> fld_userId d = userId \<and> fld_deletedAt d = None) (bk_folders b)))) (\<lambda>(nFiles, nFolders).
      thenOp (unlessOp (fileIds = [] \<or> nFiles = length fileIds) (BadRequestException ''Some files not found or not accessible''))
      (thenOp (unlessOp (folderIds = [] \<or> nFolders = length folderIds) (BadRequestException ''Some folders not found or not accessible''))
     (bindOp (getsOp (calculateSizeAndCount fileIds folderIds userId)) (\<lambda>found. bindOp (orFail Diverges found) (\<lambda>totals.
      thenOp (checkDiskSpace env (fst totals))
      (thenOp (lockZip (Some userId) (fst totals) ip (zx_now env))
        (createZipRow env userId None fileIds folderIds totals))))))))))"

definition checkSharedFile :: "string \<Rightarrow> string \<Rightarrow> unit bop" where
  "checkSharedFile rootId fid = bindOp (getsOp (find (\<lambda>f. fr_id f = fid \<and> packable f) \<circ> bk_files)) (\<lambda>row.
     case (case row of None \<Rightarrow> None | Some f \<Rightarrow> fr_folderId f) of
       None \<Rightarrow> throwOp (BadRequestException ''File not accessible'')
     | Some d \<Rightarrow> if d = [] then throwOp (BadRequestException ''File not accessible'') else
         bindOp (getsOp (\<lambda>b. isDescendantOf b d rootId)) (\<lambda>walk. bindOp (orFail Diverges walk) (\<lambda>below.
           unlessOp below (BadRequestException ''File is not in the shared folder''))))"

definition checkSharedFolder :: "string \<Rightarrow> string \<Rightarrow> unit bop" where
  "checkSharedFolder rootId d = (if d = rootId then returnOp () else
     bindOp (getsOp (\<lambda>b. isDescendantOf b d rootId)) (\<lambda>walk. bindOp (orFail Diverges walk) (\<lambda>below.
       unlessOp below (BadRequestException ''Folder is not in the shared folder''))))"

text \<open>The guest's bandwidth is locked before the search for a job in progress.\<close>

definition createSharedJob :: "zip_env \<Rightarrow> string \<Rightarrow> string list \<Rightarrow> string list \<Rightarrow> string option \<Rightarrow> (string \<times> string) bop" where
  "createSharedJob env shareToken fileIds folderIds0 ip =
     bindOp (getsOp (find (\<lambda>d. fld_shareToken d = Some shareToken) \<circ> bk_folders)) (\<lambda>found.
     case (case found of Some d \<Rightarrow> if fld_deletedAt d = None then Some d else None | None \<Rightarrow> None) of
       None \<Rightarrow> throwOp (NotFoundException ''Shared folder not found'')
     | Some rootFolder \<Rightarrow>
        (let folderIds = (if fileIds = [] \<and> folderIds0 = [] then [fld_id rootFolder] else folderIds0) in
         thenOp (forEachOp (checkSharedFile (fld_id rootFolder)) fileIds)
         (thenOp (forEachOp (checkSharedFolder (fld_id rootFolder)) folderIds)
         (bindOp (getsOp (calculateSizeAndCount fileIds folderIds (fld_userId rootFolder))) (\<lambda>found. bindOp (orFail Diverges found) (\<lambda>totals.
          thenOp (checkDiskSpace env (fst totals))
          (thenOp (lockZip None (fst totals) ip (zx_now env))
         (bindOp (getsOp (find (\<lambda>j. job_shareToken j = Some shareToken \<and> inProgress j) \<circ> bk_jobs)) (\<lambda>existing.
          thenOp (unlessOp (existing = None) (ConflictException ''A download job is already in progress for this share''))
            (createZipRow env (fld_userId rootFolder) (Some shareToken) fileIds folderIds totals))))))))))"

subsection \<open>Status and reports\<close>

record zip_status =
  zs_jobId :: string
  zs_status :: job_status
  zs_totalFiles :: int
  zs_processedFiles :: int
  zs_totalSize :: string
  zs_parts :: "(int \<times> string \<times> string) list"
  zs_expiresAt :: "string option"
  zs_error :: "string option"

definition getJobStatus :: "string option \<Rightarrow> string \<Rightarrow> zip_status bop" where
  "getJobStatus transferUrl jobId = bindOp (getsOp (findJob jobId)) (\<lambda>row. bindOp (orFail (NotFoundException ''Job not found'') row) (\<lambda>job.
     returnOp \<lparr>zs_jobId = job_id job, zs_status = job_status job, zs_totalFiles = job_totalFiles job, zs_processedFiles = job_processedFiles job,
       zs_totalSize = showInt (job_totalSize job),
       zs_parts = map (\<lambda>p. (zp_index p, showInt (zp_size p),
           buildTransferUrl transferUrl (''/transfer/download-zip/'' @ jobId @ ''/file/'' @ showInt (zp_index p)))) (job_zipParts job),
       zs_expiresAt = map_option toISOString (job_expiresAt job), zs_error = job_errorMessage job\<rparr>))"

record serve_info =
  sv_found :: bool
  sv_status :: "job_status option"
  sv_createdAt :: string
  sv_expiresAt :: string
  sv_parts :: "(string \<times> string \<times> int) list"

definition getServeInfo :: "string \<Rightarrow> backend \<Rightarrow> serve_info" where
  "getServeInfo jobId b = (case findJob jobId b of
     None \<Rightarrow> \<lparr>sv_found = False, sv_status = None, sv_createdAt = [], sv_expiresAt = [], sv_parts = []\<rparr>
   | Some job \<Rightarrow> \<lparr>sv_found = True, sv_status = Some (job_status job), sv_createdAt = toISOString (job_createdAt job),
       sv_expiresAt = (case job_expiresAt job of None \<Rightarrow> [] | Some t \<Rightarrow> toISOString t),
       sv_parts = map (\<lambda>p. (zp_key p, showInt (zp_size p), zp_index p)) (job_zipParts job)\<rparr>)"

text \<open>The counter that the transfer server keeps in Redis.\<close>

definition hasActiveStreams :: "string option \<Rightarrow> bool" where
  "hasActiveStreams raw = (case raw of None \<Rightarrow> False | Some s \<Rightarrow> (case jsNumber s of JsFin x \<Rightarrow> x > 0 | JsInf \<Rightarrow> True | _ \<Rightarrow> False))"

definition bestEffortZip :: "unit bop \<Rightarrow> unit bop" where
  "bestEffortZip m = catchOp m (\<lambda>_. returnOp ())"

definition reportProgress :: "string \<Rightarrow> int \<Rightarrow> unit bop" where
  "reportProgress jobId processedFiles = bestEffortZip (updateJob jobId (\<lambda>j. j\<lparr>job_processedFiles := processedFiles\<rparr>))"

definition zipExpiryMs :: int where
  "zipExpiryMs = 30 * 60 * 1000"

definition markReady :: "int \<Rightarrow> string \<Rightarrow> zip_part list \<Rightarrow> int \<Rightarrow> unit bop" where
  "markReady now jobId parts totalSize = updateJob jobId (\<lambda>j. j\<lparr>job_status := Job_ready, job_zipParts := parts, job_totalSize := totalSize,
     job_expiresAt := Some (now + zipExpiryMs)\<rparr>)"

definition zipDir :: "string \<Rightarrow> string" where
  "zipDir jobId = ''zip/'' @ jobId @ ''/''"

definition cleanupJobFiles :: "string \<Rightarrow> unit bop" where
  "cleanupJobFiles jobId = modifyOp (\<lambda>b. b\<lparr>bk_temp := filter (\<lambda>k. \<not> jsStartsWith (zipDir jobId) k) (bk_temp b)\<rparr>)"

definition markFailed :: "string \<Rightarrow> string \<Rightarrow> unit bop" where
  "markFailed jobId reason = thenOp (cleanupJobFiles jobId)
     (bestEffortZip (updateJob jobId (\<lambda>j. j\<lparr>job_status := Job_failed, job_errorMessage := Some reason\<rparr>)))"

subsection \<open>The archive\<close>

text \<open>\<^verbatim>\<open>path.parse\<close> (POSIX): directory, name and extension.\<close>

definition pathParse :: "string \<Rightarrow> string \<times> string \<times> string" where
  "pathParse s =
    (let absolute = (s \<noteq> [] \<and> hd s = CHR ''/''); core = rev (dropWhile (\<lambda>c. c = CHR ''/'') (rev s));
         base = rev (takeWhile (\<lambda>c. c \<noteq> CHR ''/'') (rev core)); startPart = length core - length base;
         dir = (if startPart \<le> (if absolute then 1 else 0) then (if absolute then ''/'' else []) else take (startPart - 1) s);
         afterDot = rev (takeWhile (\<lambda>c. c \<noteq> CHR ''.'') (rev base)); dot = length base - length afterDot - 1 in
     if CHR ''.'' \<notin> set base \<or> dot = 0 \<or> base = ''..'' then (dir, base, []) else (dir, take dot base, drop dot base))"

definition zipCandidate :: "string \<times> string \<times> string \<Rightarrow> nat \<Rightarrow> string" where
  "zipCandidate parsed counter = (case parsed of (dir, name, ext) \<Rightarrow>
     (if dir \<noteq> [] then dir @ CHR ''/'' # name else name) @ CHR ''_'' # showNat counter @ ext)"

partial_function (option) freePath :: "string \<times> string \<times> string \<Rightarrow> string list \<Rightarrow> string \<Rightarrow> nat \<Rightarrow> string option" where
  "freePath parsed seenPaths relPath counter =
     (if relPath \<in> set seenPaths then freePath parsed seenPaths (zipCandidate parsed counter) (Suc counter) else Some relPath)"

definition uniquePath :: "string \<Rightarrow> string list \<Rightarrow> string option" where
  "uniquePath relativePath seenPaths = freePath (pathParse relativePath) seenPaths relativePath 1"

text \<open>The streams of the files. A stream that breaks while it is piped into a decipher neither ends nor fails there.\<close>

definition zipFileLink :: "read_env \<Rightarrow> string option \<Rightarrow> int \<Rightarrow> int option \<Rightarrow> backend_error + string" where
  "zipFileLink env telegramFileId botId messageId =
    (if rv_botAvailable env botId then rv_fileLink env telegramFileId botId
     else case rv_fileLink env telegramFileId (rv_mainBot env) of
       Inr url \<Rightarrow> Inr url
     | Inl _ \<Rightarrow> if messageId = None \<or> messageId = Some 0 then Inl (PlainError ''Bot unavailable, no messageId'')
         else (case rv_recover env (the messageId) of Inl e \<Rightarrow> Inl e | Inr (fileId, _) \<Rightarrow> rv_fileLink env (Some fileId) (rv_mainBot env)))"

definition zipFetch :: "read_env \<Rightarrow> string option \<Rightarrow> int \<Rightarrow> int option \<Rightarrow> backend_error + byte_stream" where
  "zipFetch env telegramFileId botId messageId = (case zipFileLink env telegramFileId botId messageId of Inl e \<Rightarrow> Inl e
     | Inr url \<Rightarrow> (case rv_fetch env url None of Inl e \<Rightarrow> Inl e
         | Inr (ok, body) \<Rightarrow> (case (ok, body) of (True, Some st) \<Rightarrow> Inr st | _ \<Rightarrow> Inl (PlainError ''Telegram fetch failed''))))"

definition pipeDecipher :: "block_cipher \<Rightarrow> bool \<Rightarrow> buffer option \<Rightarrow> buffer option \<Rightarrow> byte_stream \<Rightarrow> backend_error + byte_stream" where
  "pipeDecipher E enc dek iv st = (case (enc, dek, iv) of
     (True, Some d, Some i) \<Rightarrow> map_sum id (\<lambda>out. ([out], map_option (\<lambda>_. Diverges) (snd st))) (ctrCrypt E d i (concat (fst st)))
   | _ \<Rightarrow> Inr st)"

definition zipChunk :: "read_env \<Rightarrow> bool \<Rightarrow> buffer option \<Rightarrow> stored_chunk \<Rightarrow> backend_error + byte_stream" where
  "zipChunk env enc dek c =
    (case (if sk_isBuffered c \<and> present (sk_tempStorageKey c) then rv_temp env (the (sk_tempStorageKey c)) None
        else zipFetch env (sk_telegramFileId c) (sk_botId c) (sk_telegramMessageId c)) of
       Inl e \<Rightarrow> Inl e | Inr st \<Rightarrow> pipeDecipher (rv_cipher env) (\<not> sk_isBuffered c \<and> enc) dek (sk_iv c) st)"

fun zipChunks :: "read_env \<Rightarrow> bool \<Rightarrow> buffer option \<Rightarrow> stored_chunk list \<Rightarrow> byte_stream" where
  "zipChunks env enc dek [] = ([], None)"
| "zipChunks env enc dek (c # cs) = (case zipChunk env enc dek c of
     Inl e \<Rightarrow> ([], Some e)
   | Inr (pieces, Some e) \<Rightarrow> (pieces, Some e)
   | Inr (pieces, None) \<Rightarrow> (let (more, e) = zipChunks env enc dek cs in (pieces @ more, e)))"

definition fetchFileStream :: "read_env \<Rightarrow> buffer \<Rightarrow> string \<Rightarrow> byte_stream bop" where
  "fetchFileStream env masterSecret fileRecordId = bindOp (getsOp (\<lambda>b. (findFile fileRecordId b, chunkRowsOf fileRecordId b))) (\<lambda>(row, chunks).
     bindOp (orFail (PlainError ''File not found'') row) (\<lambda>f.
     case getDownloadMetadata (rv_cipher env) masterSecret f chunks of Inl e \<Rightarrow> throwOp e
     | Inr info \<Rightarrow> (case (case di_source info of
           FromTemp key \<Rightarrow> rv_temp env key None
         | FromMessage fileId botId messageId enc dek iv \<Rightarrow>
             (case zipFetch env (Some fileId) botId messageId of Inl e \<Rightarrow> Inl e | Inr st \<Rightarrow> pipeDecipher (rv_cipher env) enc dek iv st)
         | FromChunks cs enc dek \<Rightarrow> Inr (zipChunks env enc dek cs)) of
         Inl e \<Rightarrow> throwOp e | Inr st \<Rightarrow> returnOp st)))"

text \<open>The archiver: whether an appended stream was read to its end, and the number of bytes written.\<close>

record 'z archiver =
  az_new :: 'z
  az_append :: "'z \<Rightarrow> string \<Rightarrow> byte_stream \<Rightarrow> backend_error option \<times> 'z"
  az_pointer :: "'z \<Rightarrow> int"
  az_finalize :: "'z \<Rightarrow> 'z"
  az_write :: "string \<Rightarrow> backend_error option"

record 'z zip_run =
  zr_archive :: 'z
  zr_index :: nat
  zr_parts :: "zip_part list"
  zr_seen :: "string list"
  zr_processed :: int

definition partSize :: int where
  "partSize = 2 * 1024 * 1024 * 1024"

definition partKey :: "string \<Rightarrow> nat \<Rightarrow> string" where
  "partKey jobId i = zipDir jobId @ ''part'' @ pad0 3 (int i) @ ''.zip''"

text \<open>A handler of errors does not see a run that never ends.\<close>

definition catchEnding :: "'a bop \<Rightarrow> (backend_error \<Rightarrow> 'a bop) \<Rightarrow> 'a bop" where
  "catchEnding m h = catchOp m (\<lambda>e. if e = Diverges then throwOp e else h e)"

definition finishPart :: "'z archiver \<Rightarrow> string \<Rightarrow> 'z zip_run \<Rightarrow> 'z zip_run bop" where
  "finishPart az jobId r = (let key = partKey jobId (zr_index r) in
     case az_write az key of Some e \<Rightarrow> throwOp e
     | None \<Rightarrow> thenOp (keepTemp key) (returnOp (r\<lparr>zr_parts := zr_parts r @
          [\<lparr>zp_key = key, zp_size = az_pointer az (az_finalize az (zr_archive r)), zp_index = int (zr_index r)\<rparr>]\<rparr>)))"

definition startPart :: "'z archiver \<Rightarrow> string \<Rightarrow> zip_entry \<Rightarrow> 'z zip_run \<Rightarrow> 'z zip_run bop" where
  "startPart az jobId entry r = (let currentSize = az_pointer az (zr_archive r) in
     if currentSize > 0 \<and> currentSize + ze_size entry > partSize
     then bindOp (finishPart az jobId r) (\<lambda>r. returnOp (r\<lparr>zr_index := Suc (zr_index r), zr_archive := az_new az\<rparr>))
     else returnOp r)"

definition packEntry :: "'z archiver \<Rightarrow> read_env \<Rightarrow> buffer \<Rightarrow> string \<Rightarrow> string \<Rightarrow> 'z \<Rightarrow> 'z bop" where
  "packEntry az env masterSecret fileRecordId relPath z =
     catchEnding (bindOp (fetchFileStream env masterSecret fileRecordId) (\<lambda>st.
       if snd st = Some Diverges then throwOp Diverges else returnOp (snd (az_append az z relPath st))))
     (\<lambda>_. returnOp z)"

text \<open>Packed or skipped, the entry is processed.\<close>

definition zipEntry :: "'z archiver \<Rightarrow> read_env \<Rightarrow> buffer \<Rightarrow> string \<Rightarrow> zip_entry \<Rightarrow> 'z zip_run \<Rightarrow> 'z zip_run bop" where
  "zipEntry az env masterSecret jobId entry r0 = bindOp (startPart az jobId entry r0) (\<lambda>r.
     bindOp (orFail Diverges (uniquePath (ze_relativePath entry) (zr_seen r))) (\<lambda>relPath.
     bindOp (packEntry az env masterSecret (ze_fileRecordId entry) relPath (zr_archive r)) (\<lambda>z.
       (let processed = zr_processed r + 1 in
        thenOp (updateJob jobId (\<lambda>j. j\<lparr>job_processedFiles := processed\<rparr>))
          (returnOp (r\<lparr>zr_archive := z, zr_seen := zr_seen r @ [relPath], zr_processed := processed\<rparr>))))))"

definition freshRun :: "'z archiver \<Rightarrow> 'z zip_run" where
  "freshRun az = \<lparr>zr_archive = az_new az, zr_index = 0, zr_parts = [], zr_seen = [], zr_processed = 0\<rparr>"

definition zipAll :: "'z archiver \<Rightarrow> read_env \<Rightarrow> buffer \<Rightarrow> string \<Rightarrow> zip_entry list \<Rightarrow> 'z zip_run bop" where
  "zipAll az env masterSecret jobId entries =
     bindOp (foldOp (zipEntry az env masterSecret jobId) entries (freshRun az)) (finishPart az jobId)"

definition createZip :: "'z archiver \<Rightarrow> read_env \<Rightarrow> buffer \<Rightarrow> string \<Rightarrow> zip_entry list \<Rightarrow> zip_part list bop" where
  "createZip az env masterSecret jobId entries = bindOp (zipAll az env masterSecret jobId entries) (\<lambda>r. returnOp (zr_parts r))"

subsection \<open>The worker\<close>

definition updateStatus :: "string \<Rightarrow> job_status \<Rightarrow> unit bop" where
  "updateStatus jobId status = updateJob jobId (\<lambda>j. j\<lparr>job_status := status\<rparr>)"

definition collectFiles :: "string \<Rightarrow> zip_entry list bop" where
  "collectFiles jobId = bindOp (getsOp (findJob jobId)) (\<lambda>row. bindOp (orFail (PlainError ''Job not found'') row) (\<lambda>job.
     bindOp (getsOp (jobEntries (job_fileIds job) (job_folderIds job))) (orFail Diverges)))"

definition zipJob :: "(backend_error \<Rightarrow> string) \<Rightarrow> bool \<Rightarrow> 'z archiver \<Rightarrow> read_env \<Rightarrow> buffer \<Rightarrow> int \<Rightarrow> string \<Rightarrow> unit bop" where
  "zipJob describe goOwnsZip az env masterSecret now jobId = (if goOwnsZip then returnOp () else
     catchEnding
      (thenOp (updateStatus jobId Job_collecting)
       (bindOp (collectFiles jobId) (\<lambda>entries.
        thenOp (updateJob jobId (\<lambda>j. j\<lparr>job_totalFiles := int (length entries), job_totalSize := sum_list (map ze_size entries)\<rparr>))
        (if entries = [] then updateJob jobId (\<lambda>j. j\<lparr>job_status := Job_failed, job_errorMessage := Some ''No files to download''\<rparr>)
         else thenOp (updateStatus jobId Job_zipping)
          (bindOp (createZip az env masterSecret jobId entries) (\<lambda>zipParts.
            updateJob jobId (\<lambda>j. j\<lparr>job_status := Job_ready, job_zipParts := zipParts, job_expiresAt := Some (now + zipExpiryMs)\<rparr>)))))))
      (\<lambda>err. thenOp (cleanupJobFiles jobId)
        (thenOp (bestEffortZip (updateJob jobId (\<lambda>j. j\<lparr>job_status := Job_failed, job_errorMessage := Some (describe err)\<rparr>)))
        (throwOp err))))"

definition expireJob :: "(string \<Rightarrow> string option) \<Rightarrow> job_row \<Rightarrow> unit bop" where
  "expireJob streams job = (if hasActiveStreams (streams (job_id job)) then returnOp () else
     thenOp (forEachOp (\<lambda>p. dropTemp (zp_key p)) (job_zipParts job))
     (thenOp (cleanupJobFiles (job_id job)) (updateStatus (job_id job) Job_expired)))"

definition timeoutJob :: "job_row \<Rightarrow> unit bop" where
  "timeoutJob job = thenOp (cleanupJobFiles (job_id job))
     (updateJob (job_id job) (\<lambda>j. j\<lparr>job_status := Job_failed, job_errorMessage := Some ''Job timed out''\<rparr>))"

definition cleanupExpiredZips :: "bool \<Rightarrow> (string \<Rightarrow> string option) \<Rightarrow> int \<Rightarrow> unit bop" where
  "cleanupExpiredZips acquired streams now = (if \<not> acquired then returnOp () else
     bindOp (getsOp (filter (\<lambda>j. job_status j = Job_ready \<and> (case job_expiresAt j of None \<Rightarrow> False | Some t \<Rightarrow> t < now)) \<circ> bk_jobs)) (\<lambda>expired.
     thenOp (forEachOp (expireJob streams) expired)
     (bindOp (getsOp (filter (\<lambda>j. job_status j \<in> {Job_pending, Job_collecting, Job_zipping} \<and> job_createdAt j < now - 2 * 60 * 60 * 1000) \<circ> bk_jobs))
       (forEachOp timeoutJob))))"


subsection \<open>The recursion over the folders\<close>

lemma allOrNone_Some: "allOrNone xs = Some ys \<longleftrightarrow> xs = map Some ys"
  by (induction xs arbitrary: ys rule: allOrNone.induct) auto

lemma allOrNone_map: "allOrNone (map (\<lambda>x. map_option f (g x)) xs) = map_option (map f) (allOrNone (map g xs))"
proof (induction xs)
  case (Cons x xs)
  then show ?case by (cases "g x"; cases "allOrNone (map g xs)") simp_all
qed simp

lemma allOrNone_total: "(\<And>x. x \<in> set xs \<Longrightarrow> \<exists>y. g x = Some y) \<Longrightarrow> \<exists>ys. allOrNone (map g xs) = Some ys"
proof (induction xs)
  case (Cons x xs)
  then obtain y ys where "g x = Some y" "allOrNone (map g xs) = Some ys" by (metis list.set_intros)
  then show ?case by simp
qed simp

text \<open>The size and the count of a folder are those of its entries.\<close>

lemma size_of_entries:
  "calculateFolderSizeRecursive n b x u = map_option (\<lambda>es. (sum_list (map ze_size es), int (length es))) (collectFolderEntriesRecursive n b x p u)"
proof (induction n arbitrary: x p)
  case (Suc n)
  let ?go = "\<lambda>sub. collectFolderEntriesRecursive n b (fld_id sub) (p @ CHR ''/'' # fld_name sub) u"
  have sum: "sum_list (map ze_size (concat ess)) = sum_list (map (\<lambda>es. sum_list (map ze_size es)) ess)"
    "int (length (concat ess)) = sum_list (map (\<lambda>es. int (length es)) ess)" for ess :: "zip_entry list list"
    by (induction ess) simp_all
  have "map (\<lambda>sub. calculateFolderSizeRecursive n b (fld_id sub) u) (subfolders x b)
      = map (\<lambda>sub. map_option (\<lambda>es. (sum_list (map ze_size es), int (length es))) (?go sub)) (subfolders x b)"
    by (rule map_cong [OF refl Suc.IH])
  then have "allOrNone (map (\<lambda>sub. calculateFolderSizeRecursive n b (fld_id sub) u) (subfolders x b))
      = map_option (map (\<lambda>es. (sum_list (map ze_size es), int (length es)))) (allOrNone (map ?go (subfolders x b)))"
    by (simp only: allOrNone_map)
  then show ?case by (cases "allOrNone (map ?go (subfolders x b))") (simp_all add: comp_def sum del: map_concat)
qed simp

definition strictlyBelow :: "backend \<Rightarrow> string \<Rightarrow> string set" where
  "strictlyBelow b x = {y. (y, x) \<in> (parentRel (bk_folders b))\<^sup>+}"

lemma strictlyBelow_ids: "strictlyBelow b x \<subseteq> fld_id ` set (bk_folders b)"
  unfolding strictlyBelow_def by (auto simp: parentRel_def elim: converse_tranclE)

lemma strictlyBelow_fuel: "card (strictlyBelow b x) < folderFuel b"
proof -
  have "card (strictlyBelow b x) \<le> card (fld_id ` set (bk_folders b))" by (rule card_mono [OF _ strictlyBelow_ids]) simp
  also have "\<dots> \<le> length (bk_folders b)" by (metis card_length length_map set_map)
  finally show ?thesis by (simp add: folderFuel_def)
qed

lemma strictlyBelow_child:
  assumes "folderForest b" and "d \<in> set (subfolders x b)"
  shows "card (strictlyBelow b (fld_id d)) < card (strictlyBelow b x)"
proof (rule psubset_card_mono)
  show "finite (strictlyBelow b x)" by (rule finite_subset [OF strictlyBelow_ids]) simp
  have edge: "(fld_id d, x) \<in> parentRel (bk_folders b)" using assms(2) by (auto simp: subfolders_def parentRel_def)
  then have "fld_id d \<in> strictlyBelow b x" by (simp add: strictlyBelow_def)
  moreover have "fld_id d \<notin> strictlyBelow b (fld_id d)" using assms(1) by (simp add: strictlyBelow_def folderForest_def acyclic_def)
  moreover have "strictlyBelow b (fld_id d) \<subseteq> strictlyBelow b x" using edge by (auto simp: strictlyBelow_def)
  ultimately show "strictlyBelow b (fld_id d) \<subset> strictlyBelow b x" by blast
qed

lemma collect_enough:
  assumes "folderForest b" and "card (strictlyBelow b x) < n"
  shows "\<exists>es. collectFolderEntriesRecursive n b x p u = Some es"
  using assms(2)
proof (induction n arbitrary: x p)
  case (Suc n)
  have "\<exists>es. collectFolderEntriesRecursive n b (fld_id d) (p @ CHR ''/'' # fld_name d) u = Some es" if "d \<in> set (subfolders x b)" for d
    by (rule Suc.IH) (use strictlyBelow_child [OF assms(1) that] Suc.prems in simp)
  from allOrNone_total [OF this] show ?case by fastforce
qed simp

lemma collect_total:
  assumes "folderForest b"
  obtains es where "collectFolderEntriesRecursive (folderFuel b) b x p u = Some es"
  using collect_enough [OF assms strictlyBelow_fuel] by blast

subsection \<open>What is packed of a folder\<close>

definition foldersNamed :: "backend \<Rightarrow> bool" where
  "foldersNamed b \<longleftrightarrow> [] \<notin> fld_id ` set (bk_folders b)"

lemma subfolder_row:
  assumes "folderForest b" and "d \<in> set (subfolders x b)"
  shows "findFolder (fld_id d) b = Some d" and "fld_deletedAt d = None" and "fld_parentId d = Some x"
  using assms find_key_unique [of fld_id "bk_folders b" d] by (auto simp: subfolders_def folderForest_def findFolder_def)

lemma liveBelow_trans: "liveBelow b y x \<Longrightarrow> liveBelow b x a \<Longrightarrow> liveBelow b y a"
  by (induction rule: liveBelow.induct) (auto intro: liveBelow.intros)

lemma liveBelow_sub:
  assumes "folderForest b" and "foldersNamed b" and "d \<in> set (subfolders x b)" and "x \<noteq> []"
  shows "liveBelow b (fld_id d) x"
proof (rule liveBelow.step [OF _ subfolder_row [OF assms(1,3)]])
  show "fld_id d \<noteq> []" using assms(2,3) by (force simp: foldersNamed_def subfolders_def)
  show "liveBelow b x x" by (rule liveBelow.self [OF assms(4)])
qed

lemma liveBelow_top: "liveBelow b y x \<Longrightarrow> y = x \<or> (\<exists>d \<in> set (subfolders x b). liveBelow b y (fld_id d))"
proof (induction rule: liveBelow.induct)
  case (step y f p a)
  from step(2) have f: "f \<in> set (bk_folders b)" "fld_id f = y" by (auto simp: findFolder_def dest: find_SomeD)
  from step.IH show ?case
  proof
    assume "p = a"
    with step f have "f \<in> set (subfolders a b)" by (simp add: subfolders_def)
    with f step(1) show ?thesis by (auto intro: liveBelow.self)
  next
    assume "\<exists>d\<in>set (subfolders a b). liveBelow b p (fld_id d)"
    with step show ?thesis by (auto intro: liveBelow.step)
  qed
qed simp

definition packedOf :: "backend \<Rightarrow> string \<Rightarrow> string \<Rightarrow> file_row \<Rightarrow> bool" where
  "packedOf b x u f \<longleftrightarrow> f \<in> set (bk_files b) \<and> packable f \<and> fr_userId f = u \<and> (\<exists>d. fr_folderId f = Some d \<and> liveBelow b d x)"

lemma collect_step:
  assumes "collectFolderEntriesRecursive (Suc n) b x p u = Some es"
  obtains ess where "es = map (\<lambda>f. \<lparr>ze_fileRecordId = fr_id f, ze_relativePath = p @ CHR ''/'' # fr_filename f, ze_size = fr_size f\<rparr>)
      (packedFiles x u b) @ concat ess"
    "map (\<lambda>sub. collectFolderEntriesRecursive n b (fld_id sub) (p @ CHR ''/'' # fld_name sub) u) (subfolders x b) = map Some ess"
  using assms by (auto simp: allOrNone_Some)

lemma in_collected:
  assumes "map g xs = map Some ess"
  shows "e \<in> set (concat ess) \<longleftrightarrow> (\<exists>x \<in> set xs. \<exists>es. g x = Some es \<and> e \<in> set es)"
  using assms
proof (induction xs arbitrary: ess)
  case (Cons x xs)
  then show ?case by (cases ess) auto
qed simp

lemma collected_rows:
  assumes "folderForest b" and "foldersNamed b" and "x \<noteq> []" and "collectFolderEntriesRecursive n b x p u = Some es"
  shows "i \<in> set (map ze_fileRecordId es) \<longleftrightarrow> (\<exists>f. packedOf b x u f \<and> fr_id f = i)"
  using assms(3,4)
proof (induction n arbitrary: x p es)
  case (Suc n)
  from collect_step [OF Suc.prems(2)] obtain ess where es: "es = map (\<lambda>f. \<lparr>ze_fileRecordId = fr_id f,
      ze_relativePath = p @ CHR ''/'' # fr_filename f, ze_size = fr_size f\<rparr>) (packedFiles x u b) @ concat ess"
    and below: "map (\<lambda>sub. collectFolderEntriesRecursive n b (fld_id sub) (p @ CHR ''/'' # fld_name sub) u) (subfolders x b) = map Some ess" .
  have id: "fld_id d \<noteq> []" if "d \<in> set (subfolders x b)" for d using that assms(2) by (force simp: foldersNamed_def subfolders_def)
  have "i \<in> set (map ze_fileRecordId (concat ess)) \<longleftrightarrow> (\<exists>d \<in> set (subfolders x b). \<exists>f. packedOf b (fld_id d) u f \<and> fr_id f = i)"
  proof -
    have sub: "\<exists>es. collectFolderEntriesRecursive n b (fld_id d) (p @ CHR ''/'' # fld_name d) u = Some es" if "d \<in> set (subfolders x b)" for d
      using that below by (metis (no_types, lifting) in_set_conv_nth length_map nth_map)
    then have "i \<in> set (map ze_fileRecordId (concat ess)) \<longleftrightarrow> (\<exists>d \<in> set (subfolders x b). \<exists>es.
        collectFolderEntriesRecursive n b (fld_id d) (p @ CHR ''/'' # fld_name d) u = Some es \<and> i \<in> set (map ze_fileRecordId es))"
      using in_collected [OF below] by (simp only: set_map image_iff) blast
    also have "\<dots> \<longleftrightarrow> (\<exists>d \<in> set (subfolders x b). \<exists>f. packedOf b (fld_id d) u f \<and> fr_id f = i)"
      using Suc.IH [OF id] sub by blast
    finally show ?thesis .
  qed
  moreover have "liveBelow b y x \<longleftrightarrow> y = x \<or> (\<exists>d \<in> set (subfolders x b). liveBelow b y (fld_id d))" for y
    using liveBelow_top liveBelow.self [OF Suc.prems(1)] liveBelow_trans [OF _ liveBelow_sub [OF assms(1,2) _ Suc.prems(1)]] by metis
  then have "packedOf b x u f \<longleftrightarrow> f \<in> set (packedFiles x u b) \<or> (\<exists>d \<in> set (subfolders x b). packedOf b (fld_id d) u f)" for f
    by (auto simp: packedOf_def packedFiles_def)
  ultimately show ?case by (auto simp: es comp_def)
qed simp

text \<open>Subtrees of different subfolders have nothing in common.\<close>

lemma liveBelow_path: "liveBelow b y a \<Longrightarrow> (y, a) \<in> (parentRel (bk_folders b))\<^sup>*"
  by (induction rule: liveBelow.induct) (auto intro: converse_rtrancl_into_rtrancl parentRel_find)

lemma parents_single: "folderForest b \<Longrightarrow> single_valued (parentRel (bk_folders b))"
  by (auto simp: single_valued_def folderForest_def parentRel_def distinct_map inj_on_def)

lemma subfolder_edge: "d \<in> set (subfolders x b) \<Longrightarrow> (fld_id d, x) \<in> parentRel (bk_folders b)"
  by (auto simp: subfolders_def parentRel_def)

lemma not_below_sub: "folderForest b \<Longrightarrow> d \<in> set (subfolders x b) \<Longrightarrow> (x, fld_id d) \<notin> (parentRel (bk_folders b))\<^sup>*"
  using subfolder_edge unfolding folderForest_def acyclic_def by (meson rtrancl_into_trancl1)

lemma subfolder_apart:
  assumes "folderForest b" and "d \<in> set (subfolders x b)" and "d' \<in> set (subfolders x b)" and "d \<noteq> d'"
  shows "(fld_id d, fld_id d') \<notin> (parentRel (bk_folders b))\<^sup>*"
proof
  let ?R = "parentRel (bk_folders b)"
  assume "(fld_id d, fld_id d') \<in> ?R\<^sup>*"
  moreover have "fld_id d \<noteq> fld_id d'" using assms by (auto simp: folderForest_def distinct_map inj_on_def subfolders_def)
  ultimately obtain z where "(fld_id d, z) \<in> ?R" "(z, fld_id d') \<in> ?R\<^sup>*" by (metis converse_rtranclE)
  moreover from this(1) subfolder_edge [OF assms(2)] have "z = x" using parents_single [OF assms(1)] by (auto simp: single_valued_def)
  ultimately show False using not_below_sub [OF assms(1,3)] by simp
qed

lemma siblings_disjoint:
  assumes "folderForest b" and "d \<in> set (subfolders x b)" and "d' \<in> set (subfolders x b)" and "liveBelow b y (fld_id d)" and "liveBelow b y (fld_id d')"
  shows "d = d'"
  using single_valued_confluent [OF parents_single [OF assms(1)] liveBelow_path [OF assms(4)] liveBelow_path [OF assms(5)]]
    subfolder_apart [OF assms(1)] assms(2,3) by blast

lemma distinct_collected:
  assumes "map g xs = map Some ess" and "distinct xs" and "\<And>x es. x \<in> set xs \<Longrightarrow> g x = Some es \<Longrightarrow> distinct (map k es)"
    and "\<And>x x' es es' i. x \<in> set xs \<Longrightarrow> x' \<in> set xs \<Longrightarrow> g x = Some es \<Longrightarrow> g x' = Some es' \<Longrightarrow> i \<in> set (map k es) \<Longrightarrow> i \<in> set (map k es') \<Longrightarrow> x = x'"
  shows "distinct (map k (concat ess))"
  using assms
proof (induction xs arbitrary: ess)
  case (Cons x xs)
  then obtain es ess' where ess: "ess = es # ess'" "g x = Some es" "map g xs = map Some ess'" by (cases ess) auto
  have "distinct (map k (concat ess'))" by (rule Cons.IH [OF ess(3)]) (use Cons.prems in auto)
  moreover have "distinct (map k es)" using Cons.prems(3) ess(2) by auto
  moreover have "i \<notin> set (map k (concat ess'))" if "i \<in> set (map k es)" for i
  proof
    assume "i \<in> set (map k (concat ess'))"
    then obtain e where "e \<in> set (concat ess')" "i = k e" by auto
    then obtain x' es' where "x' \<in> set xs" "g x' = Some es'" "i \<in> set (map k es')" using in_collected [OF ess(3)] by auto
    with that Cons.prems(4) [of x x' es es' i] Cons.prems(2) ess(2) show False by simp
  qed
  ultimately show ?case by (auto simp: ess(1))
qed simp

lemma collected_distinct:
  assumes "folderForest b" and "foldersNamed b" and "distinct (map fr_id (bk_files b))" and "x \<noteq> []"
    and "collectFolderEntriesRecursive n b x p u = Some es"
  shows "distinct (map ze_fileRecordId es)"
  using assms(4,5)
proof (induction n arbitrary: x p es)
  case (Suc n)
  from collect_step [OF Suc.prems(2)] obtain ess where es: "es = map (\<lambda>f. \<lparr>ze_fileRecordId = fr_id f,
      ze_relativePath = p @ CHR ''/'' # fr_filename f, ze_size = fr_size f\<rparr>) (packedFiles x u b) @ concat ess"
    and below: "map (\<lambda>sub. collectFolderEntriesRecursive n b (fld_id sub) (p @ CHR ''/'' # fld_name sub) u) (subfolders x b) = map Some ess" .
  have id: "fld_id d \<noteq> []" if "d \<in> set (subfolders x b)" for d using that assms(2) by (force simp: foldersNamed_def subfolders_def)
  have same: "f = f'" if "f \<in> set (bk_files b)" "f' \<in> set (bk_files b)" "fr_id f = fr_id f'" for f f'
    using that assms(3) by (auto simp: distinct_map inj_on_def)
  have "distinct (map ze_fileRecordId (concat ess))"
  proof (rule distinct_collected [OF below])
    show "distinct (subfolders x b)" using assms(1) by (simp add: subfolders_def folderForest_def distinct_map)
    show "distinct (map ze_fileRecordId es)" if "d \<in> set (subfolders x b)" "collectFolderEntriesRecursive n b (fld_id d) (p @ CHR ''/'' # fld_name d) u = Some es" for d es
      by (rule Suc.IH [OF id [OF that(1)] that(2)])
    show "d = d'" if "d \<in> set (subfolders x b)" "d' \<in> set (subfolders x b)"
      "collectFolderEntriesRecursive n b (fld_id d) (p @ CHR ''/'' # fld_name d) u = Some es"
      "collectFolderEntriesRecursive n b (fld_id d') (p @ CHR ''/'' # fld_name d') u = Some es'"
      "i \<in> set (map ze_fileRecordId es)" "i \<in> set (map ze_fileRecordId es')" for d d' es es' i
    proof -
      note rows = collected_rows [OF assms(1,2) id [OF that(1)] that(3)] collected_rows [OF assms(1,2) id [OF that(2)] that(4)]
      from that(5) obtain f where f: "packedOf b (fld_id d) u f" "fr_id f = i" using rows(1) by blast
      from that(6) obtain f' where f': "packedOf b (fld_id d') u f'" "fr_id f' = i" using rows(2) by blast
      from f f' have "f = f'" by (intro same) (simp_all add: packedOf_def)
      with f(1) f'(1) show ?thesis using siblings_disjoint [OF assms(1) that(1,2)] by (auto simp: packedOf_def)
    qed
  qed
  moreover have "distinct (map fr_id (packedFiles x u b))" using assms(3) by (simp add: packedFiles_def distinct_map_filter)
  moreover have "fr_id f \<notin> set (map ze_fileRecordId (concat ess))" if "f \<in> set (packedFiles x u b)" for f
  proof
    assume "fr_id f \<in> set (map ze_fileRecordId (concat ess))"
    then obtain e where "e \<in> set (concat ess)" "fr_id f = ze_fileRecordId e" by auto
    then obtain d es' where d: "d \<in> set (subfolders x b)" "collectFolderEntriesRecursive n b (fld_id d) (p @ CHR ''/'' # fld_name d) u = Some es'"
      "fr_id f \<in> set (map ze_fileRecordId es')" using in_collected [OF below] by auto
    from d(3) obtain f' where f': "packedOf b (fld_id d) u f'" "fr_id f' = fr_id f" using collected_rows [OF assms(1,2) id [OF d(1)] d(2)] by blast
    from f' that have "f' = f" by (intro same) (simp_all add: packedOf_def packedFiles_def)
    with f'(1) that have "liveBelow b x (fld_id d)" by (auto simp: packedOf_def packedFiles_def)
    then show False using not_below_sub [OF assms(1) d(1)] liveBelow_path by blast
  qed
  ultimately show ?case by (auto simp: es comp_def)
qed simp

text \<open>
  C33. A folder is packed exactly: in a forest of folders the recursion ends, and its entries are the complete files of the
  owner that lie in the folder, or below it through live folders, each of them once.
\<close>
theorem folder_packed_exactly:
  assumes "folderForest b" and "foldersNamed b" and "distinct (map fr_id (bk_files b))" and "x \<noteq> []"
  shows "\<exists>es. collectFolderEntriesRecursive (folderFuel b) b x p u = Some es \<and> distinct (map ze_fileRecordId es) \<and>
    set (map ze_fileRecordId es) = fr_id ` {f \<in> set (bk_files b). packable f \<and> fr_userId f = u \<and> (\<exists>d. fr_folderId f = Some d \<and> isDescendantOf b d x = Some True)}"
proof -
  obtain es where es: "collectFolderEntriesRecursive (folderFuel b) b x p u = Some es" using collect_total [OF assms(1)] .
  have "set (map ze_fileRecordId es) = {i. \<exists>f. packedOf b x u f \<and> fr_id f = i}"
    using collected_rows [OF assms(1,2,4) es] by blast
  with es collected_distinct [OF assms es] show ?thesis
    by (intro exI [of _ es]) (auto simp: packedOf_def isDescendantOf_iff [OF assms(1)])
qed

subsection \<open>What a new job announces\<close>

definition zipView :: "backend \<Rightarrow> file_row list \<times> folder_row list \<times> job_row list" where
  "zipView b = (bk_files b, bk_folders b, bk_jobs b)"

lemma keeps_view_update [keeps_intros]:
  "keeps (\<lambda>s. zipView s = v) (updateUser u f)" "keeps (\<lambda>s. zipView s = v) (updateGuest ip g)" "keeps (\<lambda>s. zipView s = v) (modifyOp (emit es))"
  "keeps (\<lambda>s. zipView s = v) (modifyOp (\<lambda>b. b\<lparr>bk_guests := bk_guests b @ gs\<rparr>))"
  by (auto simp: keeps_def zipView_def updateUser_def updateGuest_def op_simps setUsers_def emit_def split: option.split)

lemma keeps_view_lock [keeps_intros]: "keeps (\<lambda>s. zipView s = v) (lockBandwidth u n ip now)"
  unfolding lockBandwidth_def lockUserBandwidth_def lockUserCheck_def lockUserWrite_def lockGuestBandwidth_def resolveUserUsage_def
    readBigIntSetting_def throwLimitExceeded_def Let_def
  by (auto intro!: keeps_intros split: option.split prod.split)

lemma keeps_view_zip [keeps_intros]: "keeps (\<lambda>s. zipView s = v) (lockZip u n ip now)"
  unfolding lockZip_def zipLockDenied_def by (auto intro!: keeps_intros split: backend_error.split list.split)

lemma keeps_view_disk [keeps_intros]: "keeps (\<lambda>s. zipView s = v) (checkDiskSpace env n)"
  unfolding checkDiskSpace_def by (auto intro!: keeps_intros split: option.split)

lemma keeps_orFail [keeps_intros]: "keeps I (orFail e x)"
  unfolding orFail_def by (auto intro!: keeps_intros split: option.split)

lemma orFail_result: "orFail e x s = (Inr y, s') \<longleftrightarrow> x = Some y \<and> s' = s"
  by (auto simp: orFail_def op_simps split: option.splits)

lemma gets_result: "getsOp f s = (Inr y, s') \<longleftrightarrow> y = f s \<and> s' = s"
  by (auto simp: op_simps)

lemma view_result: "keeps (\<lambda>s. zipView s = zipView b) m \<Longrightarrow> m b = (r, b') \<Longrightarrow> zipView b' = zipView b"
  using keeps_result [of "\<lambda>s. zipView s = zipView b"] by blast

text \<open>The last step of both creations: the row with the totals, at the end of the table.\<close>

lemma zipRow_result:
  assumes "createZipRow env u tok fids dids totals b = (Inr r, b')"
  shows "r = (zx_newId env, ''pending'') \<and> bk_files b' = bk_files b \<and> bk_folders b' = bk_folders b \<and>
    bk_jobs b' = bk_jobs b @ [newJobRow (zx_newId env) (Some u) tok fids dids (snd totals) (fst totals) (zx_now env)]"
  using assms by (auto simp: createZipRow_def dispatchZipJob_def op_simps emit_def split: option.splits)

lemma reserved_row:
  assumes "thenOp (checkDiskSpace env n) (thenOp (lockZip u n ip now) (createZipRow env v tok fids dids totals)) b = (Inr r, b')"
  shows "r = (zx_newId env, ''pending'') \<and> bk_files b' = bk_files b \<and> bk_folders b' = bk_folders b \<and>
    bk_jobs b' = bk_jobs b @ [newJobRow (zx_newId env) (Some v) tok fids dids (snd totals) (fst totals) (zx_now env)]"
proof -
  from assms obtain b1 b2 where "checkDiskSpace env n b = (Inr (), b1)" "lockZip u n ip now b1 = (Inr (), b2)"
    and row: "createZipRow env v tok fids dids totals b2 = (Inr r, b')" by (auto elim!: then_result)
  then have "zipView b2 = zipView b" using view_result [OF keeps_view_disk] view_result [OF keeps_view_zip] by metis
  with zipRow_result [OF row] show ?thesis by (simp add: zipView_def)
qed

lemma createJob_result:
  assumes "createJob env u fids dids ip b = (Inr r, b')"
  shows "\<exists>totals. calculateSizeAndCount fids dids u b = Some totals \<and>
    (fids = [] \<or> countWhere (\<lambda>f. fr_id f \<in> set fids \<and> fr_userId f = u \<and> packable f) (bk_files b) = length fids) \<and>
    (dids = [] \<or> countWhere (\<lambda>d. fld_id d \<in> set dids \<and> fld_userId d = u \<and> fld_deletedAt d = None) (bk_folders b) = length dids) \<and>
    find (\<lambda>j. job_userId j = Some u \<and> inProgress j) (bk_jobs b) = None \<and>
    r = (zx_newId env, ''pending'') \<and> bk_files b' = bk_files b \<and> bk_folders b' = bk_folders b \<and>
    bk_jobs b' = bk_jobs b @ [newJobRow (zx_newId env) (Some u) None fids dids (snd totals) (fst totals) (zx_now env)]"
proof -
  note run = assms [unfolded createJob_def, simplified op_simps comp_apply split_beta fst_conv snd_conv]
  from run have "fids \<noteq> [] \<or> dids \<noteq> []" and none: "find (\<lambda>j. job_userId j = Some u \<and> inProgress j) (bk_jobs b) = None"
    and nf: "fids = [] \<or> countWhere (\<lambda>f. fr_id f \<in> set fids \<and> fr_userId f = u \<and> packable f) (bk_files b) = length fids"
    and nd: "dids = [] \<or> countWhere (\<lambda>d. fld_id d \<in> set dids \<and> fld_userId d = u \<and> fld_deletedAt d = None) (bk_folders b) = length dids"
    by (simp_all split: if_splits)
  note t = nf nd none
  from run t \<open>fids \<noteq> [] \<or> dids \<noteq> []\<close> obtain totals where tot: "calculateSizeAndCount fids dids u b = Some totals"
    and rest: "thenOp (checkDiskSpace env (fst totals)) (thenOp (lockZip (Some u) (fst totals) ip (zx_now env))
        (createZipRow env u None fids dids totals)) b = (Inr r, b')"
    by (cases "calculateSizeAndCount fids dids u b") (simp_all add: orFail_def op_simps)
  from reserved_row [OF rest] t tot show ?thesis by blast
qed

text \<open>All the ids asked for are found when as many rows are counted.\<close>

lemma all_found:
  assumes "distinct (map k rows)" and "countWhere (\<lambda>r. k r \<in> set ids \<and> Q r) rows = length ids"
  shows "i \<in> set ids \<Longrightarrow> \<exists>r \<in> set rows. k r = i \<and> Q r" and "r \<in> set rows \<Longrightarrow> k r \<in> set ids \<Longrightarrow> Q r"
proof -
  let ?found = "filter (\<lambda>r. k r \<in> set ids \<and> Q r) rows"
  have "card (k ` set ?found) = length ?found"
    using assms(1) by (metis (no_types, lifting) distinct_card distinct_map_filter length_map set_map)
  also have "\<dots> = length ids" using assms(2) by (simp add: countWhere_def)
  also have "\<dots> \<ge> card (set ids)" by (rule card_length)
  finally have "card (set ids) \<le> card (k ` set ?found)" .
  moreover have "k ` set ?found \<subseteq> set ids" by auto
  ultimately have all: "k ` set ?found = set ids" by (metis List.finite_set card_seteq)
  show found: "\<exists>r \<in> set rows. k r = i \<and> Q r" if "i \<in> set ids" for i
  proof -
    from that have "i \<in> k ` set ?found" by (simp only: all)
    then show ?thesis by auto
  qed
  show "Q r" if "r \<in> set rows" "k r \<in> set ids"
  proof -
    from found [OF that(2)] obtain r' where "r' \<in> set rows" "k r' = k r" "Q r'" by blast
    with that(1) assms(1) show ?thesis by (auto simp: distinct_map inj_on_def)
  qed
qed

lemma entries_totals:
  assumes "folderForest b" and "\<And>d. d \<in> set dids \<Longrightarrow> \<exists>row. findFolder d b = Some row \<and> fld_userId row = u"
    and "\<And>f. f \<in> set (bk_files b) \<Longrightarrow> fr_id f \<in> set fids \<Longrightarrow> packable f \<Longrightarrow> fr_userId f = u"
    and "calculateSizeAndCount fids dids u b = Some totals"
  shows "\<exists>es. jobEntries fids dids b = Some es \<and> totals = (sum_list (map ze_size es), int (length es))"
proof -
  let ?go = "\<lambda>d. case findFolder d b of None \<Rightarrow> Some [] | Some folder \<Rightarrow> collectFolderEntriesRecursive (folderFuel b) b d (fld_name folder) (fld_userId folder)"
  let ?sum = "\<lambda>es. (sum_list (map ze_size es), int (length es))"
  have go: "calculateFolderSizeRecursive (folderFuel b) b d u = map_option ?sum (?go d)" if "d \<in> set dids" for d
    using assms(2) [OF that] size_of_entries by fastforce
  have "\<exists>es. ?go d = Some es" if "d \<in> set dids" for d
    using assms(2) [OF that] collect_total [OF assms(1)] by (metis (no_types, lifting) option.simps(5))
  then have "\<exists>ess. allOrNone (map ?go dids) = Some ess" by (rule allOrNone_total)
  then obtain ess where ess: "allOrNone (map ?go dids) = Some ess" ..
  have "allOrNone (map (\<lambda>d. calculateFolderSizeRecursive (folderFuel b) b d u) dids) = Some (map ?sum ess)"
    using go ess allOrNone_map [of ?sum ?go dids] by (simp cong: map_cong)
  moreover have "filter (\<lambda>f. fr_id f \<in> set fids \<and> fr_userId f = u \<and> packable f) (bk_files b) = filter (\<lambda>f. fr_id f \<in> set fids \<and> packable f) (bk_files b)"
    using assms(3) by (intro filter_cong) auto
  moreover have "sum_list (map ze_size (concat ess)) = sum_list (map (\<lambda>es. sum_list (map ze_size es)) ess)"
    "int (length (concat ess)) = sum_list (map (\<lambda>es. int (length es)) ess)"
    by (induction ess) simp_all
  ultimately show ?thesis using assms(4) ess by (simp add: calculateSizeAndCount_def jobEntries_def comp_def Let_def del: map_concat)
qed


subsection \<open>What a share link packs\<close>

lemma each_result:
  assumes "forEachOp f xs b = (Inr (), b')" and "\<And>x s s' r. x \<in> set xs \<Longrightarrow> f x s = (Inr r, s') \<Longrightarrow> s' = s \<and> Q x s"
  shows "b' = b \<and> (\<forall>x \<in> set xs. Q x b)"
  using assms
proof (induction xs arbitrary: b)
  case (Cons x xs)
  from Cons.prems(1) obtain u b1 where "f x b = (Inr u, b1)" "forEachOp f xs b1 = (Inr (), b')" by (auto elim: then_result)
  with Cons.prems(2) Cons.IH [of b1] show ?case by simp blast
qed (simp add: op_simps)

lemma sharedFile_result:
  assumes "checkSharedFile rt fid b = (Inr u, b')"
  shows "b' = b \<and> (\<exists>f d. find (\<lambda>f. fr_id f = fid \<and> packable f) (bk_files b) = Some f \<and> fr_folderId f = Some d \<and> isDescendantOf b d rt = Some True)"
  using assms by (auto simp: checkSharedFile_def op_simps unlessOp_def orFail_def split: option.splits if_splits)

lemma sharedFolder_result:
  assumes "checkSharedFolder rt d b = (Inr u, b')"
  shows "b' = b \<and> (d = rt \<or> isDescendantOf b d rt = Some True)"
  using assms by (auto simp: checkSharedFolder_def op_simps unlessOp_def orFail_def split: option.splits if_splits)

lemma createSharedJob_result:
  assumes "createSharedJob env tok fids dids0 ip b = (Inr r, b')"
  obtains rt dids totals where "rt \<in> set (bk_folders b)" "fld_shareToken rt = Some tok" "fld_deletedAt rt = None"
    "\<forall>i \<in> set fids. \<exists>f d. find (\<lambda>f. fr_id f = i \<and> packable f) (bk_files b) = Some f \<and> fr_folderId f = Some d \<and> isDescendantOf b d (fld_id rt) = Some True"
    "\<forall>d \<in> set dids. d = fld_id rt \<or> isDescendantOf b d (fld_id rt) = Some True"
    "r = (zx_newId env, ''pending'')" "bk_files b' = bk_files b" "bk_folders b' = bk_folders b"
    "bk_jobs b' = bk_jobs b @ [newJobRow (zx_newId env) (Some (fld_userId rt)) (Some tok) fids dids (snd totals) (fst totals) (zx_now env)]"
    "find (\<lambda>j. job_shareToken j = Some tok \<and> inProgress j) (bk_jobs b) = None"
proof -
  from assms obtain rt where rt: "find (\<lambda>d. fld_shareToken d = Some tok) (bk_folders b) = Some rt" "fld_deletedAt rt = None"
    by (auto simp: createSharedJob_def op_simps split: option.splits if_splits)
  define dids where "dids = (if fids = [] \<and> dids0 = [] then [fld_id rt] else dids0)"
  from assms rt obtain b1 b2 where fs: "forEachOp (checkSharedFile (fld_id rt)) fids b = (Inr (), b1)"
    and ds: "forEachOp (checkSharedFolder (fld_id rt)) dids b1 = (Inr (), b2)"
    and rest: "bindOp (getsOp (calculateSizeAndCount fids dids (fld_userId rt))) (\<lambda>found. bindOp (orFail Diverges found) (\<lambda>totals.
          thenOp (checkDiskSpace env (fst totals))
          (thenOp (lockZip None (fst totals) ip (zx_now env))
         (bindOp (getsOp (find (\<lambda>j. job_shareToken j = Some tok \<and> inProgress j) \<circ> bk_jobs)) (\<lambda>existing.
          thenOp (unlessOp (existing = None) (ConflictException ''A download job is already in progress for this share''))
            (createZipRow env (fld_userId rt) (Some tok) fids dids totals)))))) b2 = (Inr r, b')"
    by (auto simp: createSharedJob_def dids_def Let_def bindOp_def getsOp_def elim!: then_result)
  have "b1 = b \<and> (\<forall>i \<in> set fids. \<exists>f d. find (\<lambda>f. fr_id f = i \<and> packable f) (bk_files b) = Some f \<and> fr_folderId f = Some d \<and>
    isDescendantOf b d (fld_id rt) = Some True)" by (rule each_result [OF fs]) (rule sharedFile_result)
  then have b1: "b1 = b" and files: "\<forall>i \<in> set fids. \<exists>f d. find (\<lambda>f. fr_id f = i \<and> packable f) (bk_files b) = Some f \<and> fr_folderId f = Some d \<and>
    isDescendantOf b d (fld_id rt) = Some True" by blast+
  have "b2 = b1 \<and> (\<forall>d \<in> set dids. d = fld_id rt \<or> isDescendantOf b1 d (fld_id rt) = Some True)"
    by (rule each_result [OF ds]) (rule sharedFolder_result)
  then have b2: "b2 = b" and folders: "\<forall>d \<in> set dids. d = fld_id rt \<or> isDescendantOf b d (fld_id rt) = Some True"
    by (simp_all add: b1)
  from rest b2 obtain totals where "thenOp (checkDiskSpace env (fst totals)) (thenOp (lockZip None (fst totals) ip (zx_now env))
         (bindOp (getsOp (find (\<lambda>j. job_shareToken j = Some tok \<and> inProgress j) \<circ> bk_jobs)) (\<lambda>existing.
          thenOp (unlessOp (existing = None) (ConflictException ''A download job is already in progress for this share''))
            (createZipRow env (fld_userId rt) (Some tok) fids dids totals)))) b = (Inr r, b')"
    by (cases "calculateSizeAndCount fids dids (fld_userId rt) b") (auto simp: op_simps orFail_def)
  then obtain b3 b4 where "checkDiskSpace env (fst totals) b = (Inr (), b3)" "lockZip None (fst totals) ip (zx_now env) b3 = (Inr (), b4)"
    and fin: "bindOp (getsOp (find (\<lambda>j. job_shareToken j = Some tok \<and> inProgress j) \<circ> bk_jobs)) (\<lambda>existing.
          thenOp (unlessOp (existing = None) (ConflictException ''A download job is already in progress for this share''))
            (createZipRow env (fld_userId rt) (Some tok) fids dids totals)) b4 = (Inr r, b')" by (auto elim!: then_result)
  then have view: "zipView b4 = zipView b" using view_result [OF keeps_view_disk] view_result [OF keeps_view_zip] by metis
  from fin have none: "find (\<lambda>j. job_shareToken j = Some tok \<and> inProgress j) (bk_jobs b4) = None"
    and row: "createZipRow env (fld_userId rt) (Some tok) fids dids totals b4 = (Inr r, b')" by (simp_all add: op_simps split: if_splits)
  from zipRow_result [OF row] view none find_SomeD [OF rt(1)] rt(2) files folders show ?thesis
    by (intro that [of rt dids totals]) (simp_all add: zipView_def)
qed

lemma entry_row:
  assumes "folderForest b" and "foldersNamed b" and "jobEntries fids dids b = Some es" and "e \<in> set es"
  shows "(\<exists>f \<in> set (bk_files b). fr_id f = ze_fileRecordId e \<and> packable f \<and> fr_id f \<in> set fids) \<or>
    (\<exists>d \<in> set dids. \<exists>u f. packedOf b d u f \<and> fr_id f = ze_fileRecordId e)"
proof -
  let ?go = "\<lambda>d. case findFolder d b of None \<Rightarrow> Some [] | Some folder \<Rightarrow> collectFolderEntriesRecursive (folderFuel b) b d (fld_name folder) (fld_userId folder)"
  from assms(3) obtain parts where parts: "map ?go dids = map Some parts"
    and es: "es = map (\<lambda>f. \<lparr>ze_fileRecordId = fr_id f, ze_relativePath = fr_filename f, ze_size = fr_size f\<rparr>)
       (filter (\<lambda>f. fr_id f \<in> set fids \<and> packable f) (bk_files b)) @ concat parts" by (auto simp: jobEntries_def Let_def allOrNone_Some)
  show ?thesis
  proof (cases "e \<in> set (concat parts)")
    case True
    then obtain d es' where d: "d \<in> set dids" "?go d = Some es'" "e \<in> set es'" using in_collected [OF parts] by blast
    then obtain row where row: "findFolder d b = Some row" "collectFolderEntriesRecursive (folderFuel b) b d (fld_name row) (fld_userId row) = Some es'"
      by (cases "findFolder d b") auto
    have "d \<noteq> []" using findFolder_SomeD [OF row(1)] assms(2) by (force simp: foldersNamed_def)
    then show ?thesis using collected_rows [OF assms(1,2) _ row(2), of "ze_fileRecordId e"] d by auto
  next
    case False
    then show ?thesis using assms(4) es by auto
  qed
qed

text \<open>
  C32. A share link packs nothing from outside its folder: every entry of a job that a guest starts is a complete, live file in
  the shared folder or below it through live folders, whatever ids the guest names.
\<close>
theorem shared_zip_confined:
  assumes "folderForest b" and "foldersNamed b" and "distinct (map fr_id (bk_files b))" and "zx_newId env \<notin> job_id ` set (bk_jobs b)"
    and "createSharedJob env tok fids dids ip b = (Inr r, b')" and "fst (collectEntries (fst r) b') = Inr es" and "e \<in> set es"
  shows "\<exists>rt f d. rt \<in> set (bk_folders b) \<and> fld_shareToken rt = Some tok \<and> fld_deletedAt rt = None \<and>
    f \<in> set (bk_files b) \<and> fr_id f = ze_fileRecordId e \<and> fr_deletedAt f = None \<and> fr_status f = Complete \<and>
    fr_folderId f = Some d \<and> isDescendantOf b d (fld_id rt) = Some True"
proof -
  from assms(5) obtain rt dids' totals where rt: "rt \<in> set (bk_folders b)" "fld_shareToken rt = Some tok" "fld_deletedAt rt = None"
    and files: "\<forall>i \<in> set fids. \<exists>f d. find (\<lambda>f. fr_id f = i \<and> packable f) (bk_files b) = Some f \<and> fr_folderId f = Some d \<and> isDescendantOf b d (fld_id rt) = Some True"
    and folders: "\<forall>d \<in> set dids'. d = fld_id rt \<or> isDescendantOf b d (fld_id rt) = Some True"
    and r: "r = (zx_newId env, ''pending'')" and b': "bk_files b' = bk_files b" "bk_folders b' = bk_folders b"
    "bk_jobs b' = bk_jobs b @ [newJobRow (zx_newId env) (Some (fld_userId rt)) (Some tok) fids dids' (snd totals) (fst totals) (zx_now env)]"
    by (rule createSharedJob_result)
  have "find (\<lambda>j. job_id j = zx_newId env) (bk_jobs b) = None" using assms(4) by (force simp: find_None_iff)
  then have job: "findJob (zx_newId env) b' = Some (newJobRow (zx_newId env) (Some (fld_userId rt)) (Some tok) fids dids' (snd totals) (fst totals) (zx_now env))"
    by (simp add: findJob_def b' find_append newJobRow_def)
  have same: "isDescendantOf b' x a = isDescendantOf b x a" if "isDescendantOf b' x a = Some True" for x a
  proof -
    have "folderForest b'" using assms(1) b' by (simp add: folderForest_def)
    from isDescendantOf_sound [OF this that] have "liveBelow b' x a" .
    then have "liveBelow b x a" by (induction rule: liveBelow.induct) (auto intro: liveBelow.intros simp: findFolder_def b')
    with that isDescendantOf_complete show ?thesis by metis
  qed
  have world: "folderForest b'" "foldersNamed b'" using assms(1,2) b' by (simp_all add: folderForest_def foldersNamed_def)
  have "jobEntries fids dids' b' = Some es"
    using assms(6) job r by (auto simp: collectEntries_def op_simps orFail_def newJobRow_def updateJob_def thenOp_def bindOp_def split: option.splits)
  from entry_row [OF world this assms(7)] show ?thesis
  proof
    assume "\<exists>f \<in> set (bk_files b'). fr_id f = ze_fileRecordId e \<and> packable f \<and> fr_id f \<in> set fids"
    then obtain f where f: "f \<in> set (bk_files b)" "fr_id f = ze_fileRecordId e" "packable f" "fr_id f \<in> set fids" by (auto simp: b')
    with files obtain g d where g: "find (\<lambda>x. fr_id x = fr_id f \<and> packable x) (bk_files b) = Some g" "fr_folderId g = Some d"
      "isDescendantOf b d (fld_id rt) = Some True" by metis
    from find_SomeD [OF g(1)] f(1) assms(3) have "g = f" by (auto simp: distinct_map inj_on_def)
    with f g rt show ?thesis by (auto simp: packable_def)
  next
    assume "\<exists>d \<in> set dids'. \<exists>u f. packedOf b' d u f \<and> fr_id f = ze_fileRecordId e"
    then obtain d u f c where d: "d \<in> set dids'" "f \<in> set (bk_files b)" "fr_id f = ze_fileRecordId e" "packable f" "fr_folderId f = Some c" "liveBelow b' c d"
      by (auto simp: packedOf_def b')
    have c: "isDescendantOf b c d = Some True" using same isDescendantOf_complete [OF d(6)] by metis
    have "isDescendantOf b c (fld_id rt) = Some True"
    proof (cases "d = fld_id rt")
      case False
      with folders d(1) have "isDescendantOf b d (fld_id rt) = Some True" by blast
      with c show ?thesis
        by (meson assms(1) isDescendantOf_complete isDescendantOf_sound liveBelow_trans)
    qed (use c in simp)
    with d rt show ?thesis by (auto simp: packable_def)
  qed
qed

subsection \<open>Names and parts\<close>

lemma zipCandidate_inj: "zipCandidate p m = zipCandidate p n \<Longrightarrow> m = n"
  by (auto simp: zipCandidate_def split: prod.splits if_splits dest: showNat_inj)

lemma finite_taken: "finite {k. c \<le> k \<and> zipCandidate p k \<in> set taken}"
proof -
  have "inj_on (zipCandidate p) {k. c \<le> k \<and> zipCandidate p k \<in> set taken}" by (auto intro: inj_onI zipCandidate_inj)
  then show ?thesis by (rule inj_on_finite [where B = "set taken"]) auto
qed

text \<open>The search for a free name ends: as many candidates as names given can be taken.\<close>

lemma freePath_ends: "\<exists>x. freePath p taken r c = Some x \<and> x \<notin> set taken"
proof (induction "card {k. c \<le> k \<and> zipCandidate p k \<in> set taken}" arbitrary: r c rule: less_induct)
  case less
  show ?case
  proof (cases "r \<in> set taken")
    case True
    show ?thesis
    proof (cases "zipCandidate p c \<in> set taken")
      case taken: True
      then have "card {k. Suc c \<le> k \<and> zipCandidate p k \<in> set taken} < card {k. c \<le> k \<and> zipCandidate p k \<in> set taken}"
        by (intro psubset_card_mono finite_taken) (force simp: psubset_eq set_eq_iff Suc_le_eq)
      from less.hyps [OF this, of "zipCandidate p c"] True show ?thesis by (subst freePath.simps) simp
    next
      case False
      with True show ?thesis by (subst freePath.simps, subst freePath.simps) simp
    qed
  qed (subst freePath.simps, simp)
qed

lemma uniquePath_total: "\<exists>x. uniquePath n taken = Some x \<and> x \<notin> set taken"
  by (simp add: uniquePath_def freePath_ends)

interpretation zip_name: name_chooser "\<lambda>n taken. the (uniquePath n taken)"
proof unfold_locales
  show "the (uniquePath n taken) \<notin> set taken" for n taken using uniquePath_total [of n taken] by auto
  show "the (uniquePath n taken) = n" if "n \<notin> set taken" for n taken
    using that by (simp add: uniquePath_def freePath.simps [of _ taken n])
qed

definition partsOk :: "string \<Rightarrow> nat \<Rightarrow> zip_part list \<Rightarrow> backend \<Rightarrow> bool" where
  "partsOk jobId n parts b \<longleftrightarrow> map zp_index parts = map int [0..<n] \<and> map zp_key parts = map (partKey jobId) [0..<n] \<and>
     zp_key ` set parts \<subseteq> set (bk_temp b)"

lemma finish_parts:
  assumes "partsOk jobId (zr_index r) (zr_parts r) b" and "finishPart az jobId r b = (Inr r', b')"
  shows "partsOk jobId (Suc (zr_index r)) (zr_parts r') b' \<and> zr_seen r' = zr_seen r \<and> zr_index r' = zr_index r"
  using assms by (auto simp: finishPart_def partsOk_def keepTemp_def op_simps Let_def subset_iff split: option.splits)

lemma start_parts:
  assumes "partsOk jobId (zr_index r) (zr_parts r) b" and "startPart az jobId e r b = (Inr r', b')"
  shows "partsOk jobId (zr_index r') (zr_parts r') b' \<and> zr_seen r' = zr_seen r"
proof (cases "startPart az jobId e r = returnOp r")
  case True
  with assms show ?thesis by (simp add: op_simps)
next
  case False
  with assms(2) obtain q b1 where "finishPart az jobId r b = (Inr q, b1)" "b' = b1" "r' = q\<lparr>zr_index := Suc (zr_index q), zr_archive := az_new az\<rparr>"
    by (auto simp: startPart_def Let_def op_simps bindOp_def split: if_splits prod.splits sum.splits)
  with finish_parts [OF assms(1) this(1)] show ?thesis by simp
qed

lemma pack_reads: "reads (packEntry az env ms fid path z)"
  unfolding packEntry_def catchEnding_def fetchFileStream_def
  by (rule readsI) (auto intro!: keeps_intros split: prod.split sum.split download_source.split)

lemma entry_parts:
  assumes "partsOk jobId (zr_index r) (zr_parts r) b" and "zipEntry az env ms jobId e r b = (Inr r', b')"
  shows "partsOk jobId (zr_index r') (zr_parts r') b' \<and> zr_seen r' = zr_seen r @ [the (uniquePath (ze_relativePath e) (zr_seen r))]"
proof -
  from assms(2) obtain q b1 where q: "startPart az jobId e r b = (Inr q, b1)"
    and rest: "bindOp (orFail Diverges (uniquePath (ze_relativePath e) (zr_seen q))) (\<lambda>relPath.
      bindOp (packEntry az env ms (ze_fileRecordId e) relPath (zr_archive q)) (\<lambda>z. (let processed = zr_processed q + 1 in
        thenOp (updateJob jobId (\<lambda>j. j\<lparr>job_processedFiles := processed\<rparr>))
          (returnOp (q\<lparr>zr_archive := z, zr_seen := zr_seen q @ [relPath], zr_processed := processed\<rparr>))))) b1 = (Inr r', b')"
    unfolding zipEntry_def by (rule bind_result)
  obtain x where x: "uniquePath (ze_relativePath e) (zr_seen q) = Some x" using uniquePath_total by blast
  from rest obtain z b2 where "packEntry az env ms (ze_fileRecordId e) x (zr_archive q) b1 = (Inr z, b2)"
    and up: "thenOp (updateJob jobId (\<lambda>j. j\<lparr>job_processedFiles := zr_processed q + 1\<rparr>))
          (returnOp (q\<lparr>zr_archive := z, zr_seen := zr_seen q @ [x], zr_processed := zr_processed q + 1\<rparr>)) b2 = (Inr r', b')"
    by (auto simp: x orFail_def op_simps Let_def elim!: bind_result)
  moreover from this(1) pack_reads have "b2 = b1" by (metis reads_def snd_conv)
  ultimately have "bk_temp b' = bk_temp b1" "r' = q\<lparr>zr_archive := z, zr_seen := zr_seen q @ [x], zr_processed := zr_processed q + 1\<rparr>"
    by (auto simp: updateJob_def op_simps split: option.splits)
  with start_parts [OF assms(1) q] x show ?thesis by (simp add: partsOk_def)
qed

lemma entries_parts:
  assumes "partsOk jobId (zr_index r) (zr_parts r) b" and "foldOp (zipEntry az env ms jobId) es r b = (Inr r', b')"
  shows "partsOk jobId (zr_index r') (zr_parts r') b' \<and>
    zr_seen r' = zr_seen r @ chooseAll (\<lambda>n taken. the (uniquePath n taken)) (zr_seen r) (map ze_relativePath es)"
  using assms
proof (induction es arbitrary: r b)
  case (Cons e es)
  from Cons.prems(2) obtain q b1 where "zipEntry az env ms jobId e r b = (Inr q, b1)" "foldOp (zipEntry az env ms jobId) es q b1 = (Inr r', b')"
    by (auto elim: bind_result)
  with entry_parts [OF Cons.prems(1)] Cons.IH [of q b1] show ?case by (simp add: Let_def)
qed (simp add: op_simps)

lemma zeros_value: "baseVal 10 (replicate n (CHR ''0'') @ s) = baseVal 10 s"
  by (induction n) (simp_all add: baseVal_def digitVal_def)

lemma partKey_inj: "partKey jobId m = partKey jobId n \<Longrightarrow> m = n"
proof -
  have "baseVal 10 (pad0 3 (int k)) = k" for k by (simp add: pad0_def Let_def zeros_value baseVal_showNat)
  then show "partKey jobId m = partKey jobId n \<Longrightarrow> m = n" by (simp add: partKey_def) metis
qed

lemma chooseAll_length: "length (chooseAll pick taken ns) = length ns"
  by (induction ns arbitrary: taken) (simp_all add: Let_def)

text \<open>
  Every entry of an archive gets a name of its own, the search for which ends, and the parts of a finished archive are
  numbered from zero, stored under keys of their own in the temp storage.
\<close>
theorem zip_names_and_parts:
  assumes "zipAll az env ms jobId entries b = (Inr r, b')"
  shows "distinct (zr_seen r) \<and> length (zr_seen r) = length entries \<and> zr_parts r \<noteq> [] \<and>
    map zp_index (zr_parts r) = map int [0..<length (zr_parts r)] \<and> distinct (map zp_key (zr_parts r)) \<and>
    zp_key ` set (zr_parts r) \<subseteq> set (bk_temp b')"
proof -
  from assms obtain q b1 where q: "foldOp (zipEntry az env ms jobId) entries (freshRun az) b = (Inr q, b1)" and fin: "finishPart az jobId q b1 = (Inr r, b')"
    unfolding zipAll_def by (rule bind_result)
  have "partsOk jobId (zr_index (freshRun az)) (zr_parts (freshRun az)) b" by (simp add: partsOk_def freshRun_def)
  from entries_parts [OF this q] have ok: "partsOk jobId (zr_index q) (zr_parts q) b1"
    and seen: "zr_seen q = chooseAll (\<lambda>n taken. the (uniquePath n taken)) [] (map ze_relativePath entries)" by (simp_all add: freshRun_def)
  from finish_parts [OF ok fin] have parts: "partsOk jobId (Suc (zr_index q)) (zr_parts r) b'" "zr_seen r = zr_seen q" by simp_all
  then have "length (zr_parts r) = Suc (zr_index q)" unfolding partsOk_def by (metis length_map length_upt minus_nat.diff_0)
  moreover have "distinct (map (partKey jobId) [0..<Suc (zr_index q)])"
    by (auto simp: distinct_map simp del: upt_Suc intro!: inj_onI partKey_inj)
  moreover have "distinct (zr_seen r)" using zip_name.distinct_chooseAll [of "[]" "map ze_relativePath entries"] parts(2) seen by simp
  ultimately show ?thesis using parts seen by (auto simp: partsOk_def chooseAll_length simp del: upt_Suc)
qed

subsection \<open>What goes into an archive\<close>

lemma ctr_back: "ctrCrypt E dek iv plain = Inr stored \<Longrightarrow> ctrCrypt E dek iv stored = Inr plain"
  by (auto simp: ctrCrypt_def createCipheriv_def cipherWrite_def xorStream_twice split: if_splits)

lemma fetched_whole:
  assumes "messageHolds env f botId msg stored" and "rv_botAvailable env botId"
  shows "\<exists>ps. zipFetch env f botId msg = Inr (ps, None) \<and> concat ps = stored"
proof -
  from assms obtain url where url: "rv_fileLink env f botId = Inr url" and body: "answersRanges (okBody \<circ> rv_fetch env url) stored"
    by (auto simp: messageHolds_def linkOf_def)
  from body [unfolded answersRanges_def, rule_format, of None] obtain ps where "okBody (rv_fetch env url None) = Inr (ps, None)" "concat ps = stored"
    by (auto simp: rangeOk_def pieceOf_def)
  then show ?thesis using url assms(2)
    by (auto simp: zipFetch_def zipFileLink_def okBody_def split: sum.splits prod.splits bool.splits option.splits)
qed

lemma deciphered:
  assumes "storedAs E enc dek iv plain stored" and "concat ps = stored"
  shows "\<exists>qs. pipeDecipher E enc dek iv (ps, None) = Inr (qs, None) \<and> concat qs = plain"
proof (cases enc)
  case True
  with assms(1) obtain d i where "dek = Some d" "iv = Some i" "ctrCrypt E d i plain = Inr stored" by (auto simp: storedAs_def)
  with ctr_back [OF this(3)] assms(2) True show ?thesis by (simp add: pipeDecipher_def)
next
  case False
  with assms show ?thesis by (simp add: storedAs_def pipeDecipher_def)
qed

lemma zipped_chunks:
  assumes "list_all2 (chunkHolds env enc dek) cs parts" and "\<And>i. rv_botAvailable env i"
  shows "\<exists>ps. zipChunks env enc dek cs = (ps, None) \<and> concat ps = concat parts"
  using assms(1)
proof (induction rule: list_all2_induct)
  case (Cons c cs p parts)
  then obtain ps where ps: "zipChunks env enc dek cs = (ps, None)" "concat ps = concat parts" by blast
  have "\<exists>qs. zipChunk env enc dek c = Inr (qs, None) \<and> concat qs = p"
  proof (cases "sk_isBuffered c")
    case True
    with Cons.hyps(1) have "present (sk_tempStorageKey c)" and ans: "answersRanges (rv_temp env (the (sk_tempStorageKey c))) p"
      by (auto simp: chunkHolds_def)
    moreover from ans [unfolded answersRanges_def, rule_format, of None] obtain qs where
      "rv_temp env (the (sk_tempStorageKey c)) None = Inr (qs, None)" "concat qs = p" by (auto simp: rangeOk_def pieceOf_def)
    ultimately show ?thesis using True by (simp add: zipChunk_def pipeDecipher_def)
  next
    case False
    with Cons.hyps(1) obtain stored where m: "messageHolds env (sk_telegramFileId c) (sk_botId c) (sk_telegramMessageId c) stored"
      and st: "storedAs (rv_cipher env) enc dek (sk_iv c) p stored" by (auto simp: chunkHolds_def)
    from fetched_whole [OF m assms(2)] obtain qs where "zipFetch env (sk_telegramFileId c) (sk_botId c) (sk_telegramMessageId c) = Inr (qs, None)"
      "concat qs = stored" by blast
    with deciphered [OF st this(2)] False show ?thesis by (auto simp: zipChunk_def)
  qed
  with ps show ?case by auto
qed simp

text \<open>
  C35. What goes into an archive is the plaintext: when the storage holds a file and its bots are known, the stream that is
  appended ends without an error and has the bytes of the file.
\<close>
theorem zipped_plaintext:
  assumes "findFile fid b = Some f" and "getDownloadMetadata (rv_cipher env) ms f (chunkRowsOf fid b) = Inr info"
    and "sourceHolds env (di_source info) plain" and "\<And>i. rv_botAvailable env i"
  shows "\<exists>ps. fetchFileStream env ms fid b = (Inr (ps, None), b) \<and> concat ps = plain"
proof (cases "di_source info")
  case (FromTemp key)
  with assms(3) obtain ps where "rv_temp env key None = Inr (ps, None)" "concat ps = plain"
    by (auto simp: sourceHolds_def answersRanges_def rangeOk_def pieceOf_def dest: spec [of _ None])
  with FromTemp assms(1,2) show ?thesis by (simp add: fetchFileStream_def op_simps orFail_def)
next
  case (FromMessage t botId m enc dek iv)
  with assms(3) obtain stored where m: "messageHolds env (Some t) botId m stored" and st: "storedAs (rv_cipher env) enc dek iv plain stored"
    by (auto simp: sourceHolds_def)
  from fetched_whole [OF m assms(4)] obtain ps where "zipFetch env (Some t) botId m = Inr (ps, None)" "concat ps = stored" by blast
  with deciphered [OF st this(2)] FromMessage assms(1,2) show ?thesis by (auto simp: fetchFileStream_def op_simps orFail_def)
next
  case (FromChunks cs enc dek)
  with assms(3) obtain parts where "list_all2 (chunkHolds env enc dek) cs parts" "concat parts = plain" by (auto simp: sourceHolds_def)
  with zipped_chunks [OF this(1) assms(4)] FromChunks assms(1,2) show ?thesis by (auto simp: fetchFileStream_def op_simps orFail_def)
qed

text \<open>An encrypted message whose stream breaks off: the run of the job never ends, and its handler is not reached.\<close>

lemma broken_stream_hangs:
  assumes "zipFetch env t botId m = Inr (ps, Some e)" and "ctrCrypt (rv_cipher env) dek iv (concat ps) = Inr out" and "findFile fid b = Some f"
    and "getDownloadMetadata (rv_cipher env) ms f (chunkRowsOf fid b) = Inr info"
    and "di_source info = FromMessage (the t) botId m True (Some dek) (Some iv)" and "t \<noteq> None"
  shows "fst (packEntry az env ms fid path z b) = Inl Diverges"
  using assms by (auto simp: packEntry_def catchEnding_def catchOp_def fetchFileStream_def pipeDecipher_def op_simps orFail_def)

subsection \<open>Jobs in progress\<close>

definition sharedActive :: "string \<Rightarrow> backend \<Rightarrow> nat" where
  "sharedActive tok b = length (filter (\<lambda>j. job_shareToken j = Some tok \<and> inProgress j) (bk_jobs b))"

definition oneShared :: "backend \<Rightarrow> bool" where
  "oneShared b \<longleftrightarrow> distinct (map job_id (bk_jobs b)) \<and> (\<forall>tok. sharedActive tok b \<le> 1)"

text \<open>A worker picks up a job in progress; the other reports and the clean-up come at any time.\<close>

inductive zipStep :: "backend \<Rightarrow> backend \<Rightarrow> bool" where
  created: "zx_newId env \<notin> job_id ` set (bk_jobs b) \<Longrightarrow> zipStep b (snd (createJob env u fids dids ip b))"
| shared: "zx_newId env \<notin> job_id ` set (bk_jobs b) \<Longrightarrow> zipStep b (snd (createSharedJob env tok fids dids ip b))"
| collected: "findJob jid b = Some j \<Longrightarrow> inProgress j \<Longrightarrow> zipStep b (snd (collectEntries jid b))"
| progressed: "zipStep b (snd (reportProgress jid n b))"
| readied: "zipStep b (snd (markReady now jid parts sz b))"
| failed: "zipStep b (snd (markFailed jid reason b))"
| cleaned: "zipStep b (snd (cleanupExpiredZips acquired streams now b))"

lemma updateWhere_count:
  assumes "\<And>r. r \<in> set rows \<Longrightarrow> P r \<Longrightarrow> Q (f r) \<Longrightarrow> Q r"
  shows "length (filter Q (updateWhere P f rows)) \<le> length (filter Q rows)"
  using assms
proof (induction rows)
  case (Cons r rows)
  then have "length (filter Q (updateWhere P f rows)) \<le> length (filter Q rows)" by simp
  with Cons.prems [of r] show ?case by (auto split: if_splits)
qed simp

lemma update_oneShared:
  assumes "oneShared b" and "\<And>j. j \<in> set (bk_jobs b) \<Longrightarrow> job_id j = jid \<Longrightarrow> inProgress (g j) \<Longrightarrow> inProgress j"
    and "\<And>j. job_id (g j) = job_id j \<and> job_shareToken (g j) = job_shareToken j"
  shows "oneShared (snd (updateJob jid g b))"
proof -
  have "sharedActive tok (b\<lparr>bk_jobs := updateWhere (\<lambda>j. job_id j = jid) g (bk_jobs b)\<rparr>) \<le> 1" for tok
  proof -
    have "length (filter (\<lambda>j. job_shareToken j = Some tok \<and> inProgress j) (updateWhere (\<lambda>j. job_id j = jid) g (bk_jobs b)))
        \<le> length (filter (\<lambda>j. job_shareToken j = Some tok \<and> inProgress j) (bk_jobs b))"
      by (rule updateWhere_count) (use assms(2,3) in auto)
    moreover have "sharedActive tok b \<le> 1" using assms(1) by (simp add: oneShared_def)
    ultimately show ?thesis by (simp add: sharedActive_def)
  qed
  with assms(1,3) show ?thesis by (auto simp: updateJob_def op_simps oneShared_def map_updateWhere_key split: option.split)
qed

lemma keeps_updateJob:
  assumes "\<And>j. \<not> inProgress (g j) \<or> inProgress (g j) = inProgress j" and "\<And>j. job_id (g j) = job_id j \<and> job_shareToken (g j) = job_shareToken j"
  shows "keeps oneShared (updateJob jid g)"
  by (rule keepsI, rule update_oneShared) (use assms in auto)

lemma jobs_oneShared: "bk_jobs b' = bk_jobs b \<Longrightarrow> oneShared b' = oneShared b"
  by (simp add: oneShared_def sharedActive_def)

lemma keeps_reports [keeps_intros]:
  "keeps oneShared (updateStatus jid Job_expired)"
  "keeps oneShared (updateJob jid (\<lambda>j. j\<lparr>job_processedFiles := n\<rparr>))"
  "keeps oneShared (updateJob jid (\<lambda>j. j\<lparr>job_status := Job_failed, job_errorMessage := e\<rparr>))"
  "keeps oneShared (markReady now jid parts sz)"
  unfolding updateStatus_def markReady_def by (rule keeps_updateJob; simp add: inProgress_def)+

lemma keeps_cleanup [keeps_intros]: "keeps oneShared (cleanupJobFiles jid)" "keeps oneShared (dropTemp key)"
  by (simp_all add: keeps_def cleanupJobFiles_def dropTemp_def op_simps oneShared_def sharedActive_def)

lemma job_added:
  assumes "oneShared b" and "bk_jobs b' = bk_jobs b @ [newJobRow jid u tok fids dids n sz now]" and "jid \<notin> job_id ` set (bk_jobs b)"
    and "\<And>t. tok = Some t \<Longrightarrow> find (\<lambda>j. job_shareToken j = Some t \<and> inProgress j) (bk_jobs b) = None"
  shows "oneShared b'"
proof -
  have "sharedActive t b = 0" if "tok = Some t" for t
    using assms(4) [OF that] by (auto simp: sharedActive_def find_None_iff filter_empty_conv)
  then show ?thesis using assms(1,2,3) by (auto simp: oneShared_def sharedActive_def newJobRow_def)
qed

lemma zipRow_jobs: "bk_jobs (snd (createZipRow env u tok fids dids totals b)) =
    bk_jobs b @ [newJobRow (zx_newId env) (Some u) tok fids dids (snd totals) (fst totals) (zx_now env)]"
  by (simp add: createZipRow_def dispatchZipJob_def op_simps emit_def split: option.split)

text \<open>What a run leaves when its first steps leave the view alone.\<close>

definition leaves :: "('s \<Rightarrow> bool) \<Rightarrow> ('s \<Rightarrow> bool) \<Rightarrow> ('s, 'e, 'a) op \<Rightarrow> bool" where
  "leaves P Q m \<longleftrightarrow> (\<forall>s. P s \<longrightarrow> Q (snd (m s)))"

lemma leaves_keeps: "keeps P m \<Longrightarrow> (\<And>s. P s \<Longrightarrow> Q s) \<Longrightarrow> leaves P Q m"
  by (simp add: leaves_def keeps_def)

lemma leaves_bind:
  assumes "keeps P m" and "\<And>x. leaves P Q (k x)" and "\<And>s. P s \<Longrightarrow> Q s"
  shows "leaves P Q (bindOp m k)"
  unfolding leaves_def
proof (intro allI impI)
  fix s assume "P s"
  with keepsD [OF assms(1)] have p: "P (snd (m s))" .
  show "Q (snd (bindOp m k s))"
    using p assms(2,3) by (cases "m s"; cases "fst (m s)") (auto simp: bindOp_def leaves_def)
qed

lemma leaves_then:
  "keeps P m \<Longrightarrow> leaves P Q k \<Longrightarrow> (\<And>s. P s \<Longrightarrow> Q s) \<Longrightarrow> leaves P Q (thenOp m k)"
  unfolding thenOp_def by (rule leaves_bind)

lemma keeps_shared_checks [keeps_intros]: "keeps I (checkSharedFile rt fid)" "keeps I (checkSharedFolder rt d)"
  unfolding checkSharedFile_def checkSharedFolder_def by (auto intro!: keeps_intros split: option.split)

lemma create_oneShared:
  assumes "oneShared b" and "zx_newId env \<notin> job_id ` set (bk_jobs b)"
  shows "oneShared (snd (createJob env u fids dids ip b))"
proof -
  let ?P = "\<lambda>s. zipView s = zipView b"
  have id: "?P s \<Longrightarrow> oneShared s" for s using assms(1) jobs_oneShared [of s b] by (simp add: zipView_def)
  have row: "leaves ?P oneShared (createZipRow env u None fids dids totals)" for totals
    unfolding leaves_def
  proof (intro allI impI)
    fix s assume s: "?P s"
    show "oneShared (snd (createZipRow env u None fids dids totals s))"
      by (rule job_added [OF id [OF s] zipRow_jobs]) (use s assms(2) in \<open>simp_all add: zipView_def\<close>)
  qed
  have "leaves ?P oneShared (createJob env u fids dids ip)"
    unfolding createJob_def case_prod_unfold
    by (intro leaves_then leaves_bind keeps_intros id row; assumption)
  then show ?thesis by (simp add: leaves_def)
qed

lemma shared_oneShared:
  assumes "oneShared b" and "zx_newId env \<notin> job_id ` set (bk_jobs b)"
  shows "oneShared (snd (createSharedJob env tok fids dids0 ip b))"
proof -
  let ?P = "\<lambda>s. zipView s = zipView b"
  let ?row = "\<lambda>u dids totals. bindOp (getsOp (find (\<lambda>j. job_shareToken j = Some tok \<and> inProgress j) \<circ> bk_jobs)) (\<lambda>existing.
          thenOp (unlessOp (existing = None) (ConflictException ''A download job is already in progress for this share''))
            (createZipRow env u (Some tok) fids dids totals))"
  have id: "?P s \<Longrightarrow> oneShared s" for s using assms(1) jobs_oneShared [of s b] by (simp add: zipView_def)
  have row: "leaves ?P oneShared (?row u dids totals)" for u dids totals
    unfolding leaves_def
  proof (intro allI impI)
    fix s assume s: "?P s"
    show "oneShared (snd (?row u dids totals s))"
    proof (cases "find (\<lambda>j. job_shareToken j = Some tok \<and> inProgress j) (bk_jobs s)")
      case None
      then have "snd (?row u dids totals s) = snd (createZipRow env u (Some tok) fids dids totals s)" by (simp add: op_simps)
      with job_added [OF id [OF s] zipRow_jobs, of env "Some tok"] None assms(2) s show ?thesis by (auto simp: zipView_def)
    qed (simp add: op_simps id [OF s])
  qed
  have found: "leaves ?P oneShared (case d of None \<Rightarrow> throwOp (NotFoundException ''Shared folder not found'') | Some rootFolder \<Rightarrow>
        (let folderIds = (if fids = [] \<and> dids0 = [] then [fld_id rootFolder] else dids0) in
         thenOp (forEachOp (checkSharedFile (fld_id rootFolder)) fids)
         (thenOp (forEachOp (checkSharedFolder (fld_id rootFolder)) folderIds)
         (bindOp (getsOp (calculateSizeAndCount fids folderIds (fld_userId rootFolder))) (\<lambda>found. bindOp (orFail Diverges found) (\<lambda>totals.
          thenOp (checkDiskSpace env (fst totals))
          (thenOp (lockZip None (fst totals) ip (zx_now env)) (?row (fld_userId rootFolder) folderIds totals))))))))" for d
  proof (cases d)
    case None
    then show ?thesis by (auto simp: op_simps leaves_def intro: id)
  next
    case (Some a)
    show ?thesis unfolding Some Let_def option.case by (intro leaves_then leaves_bind keeps_intros row id; assumption)
  qed
  have "leaves ?P oneShared (createSharedJob env tok fids dids0 ip)"
    unfolding createSharedJob_def by (rule leaves_bind) (rule keeps_intros, rule found, rule id)
  then show ?thesis by (simp add: leaves_def)
qed

lemma zip_oneShared: "zipStep b b' \<Longrightarrow> oneShared b \<Longrightarrow> oneShared b'"
proof (induction rule: zipStep.induct)
  case (created env b u fids dids ip)
  then show ?case by (intro create_oneShared)
next
  case (shared env b tok fids dids ip)
  then show ?case by (intro shared_oneShared)
next
  case (collected jid b j)
  show ?case
  proof (cases "jobEntries (job_fileIds j) (job_folderIds j) b")
    case (Some es)
    have "oneShared (snd (updateJob jid (\<lambda>j. j\<lparr>job_totalFiles := int (length es), job_totalSize := sum_list (map ze_size es), job_status := Job_zipping\<rparr>) b))"
    proof (rule update_oneShared [OF collected(3)])
      fix x assume x: "x \<in> set (bk_jobs b)" "job_id x = jid"
      from collected(1) have "j \<in> set (bk_jobs b)" "job_id j = jid" by (auto simp: findJob_def dest: find_SomeD)
      with x collected(3) have "x = j" by (auto simp: oneShared_def distinct_map inj_on_def)
      with collected(2) show "inProgress x" by simp
    qed simp
    moreover have "snd (thenOp m (returnOp x) b) = snd (m b)" for m :: "unit bop" and x :: "zip_entry list"
      by (cases "m b"; cases "fst (m b)") (simp_all add: thenOp_def bindOp_def op_simps)
    ultimately show ?thesis using collected(1) Some by (simp add: collectEntries_def op_simps orFail_def)
  qed (use collected in \<open>simp add: collectEntries_def op_simps orFail_def\<close>)
next
  case (progressed b jid n)
  have "keeps oneShared (reportProgress jid n)" unfolding reportProgress_def bestEffortZip_def by (intro keeps_intros)
  with progressed show ?case by (simp add: keepsD)
next
  case (readied b now jid parts sz)
  then show ?case by (intro keepsD [OF keeps_reports(4)])
next
  case (failed b jid reason)
  have "keeps oneShared (markFailed jid reason)" unfolding markFailed_def bestEffortZip_def by (intro keeps_intros)
  with failed show ?case by (simp add: keepsD)
next
  case (cleaned b acquired streams now)
  have "keeps oneShared (expireJob streams j)" "keeps oneShared (timeoutJob j)" for j
    unfolding expireJob_def timeoutJob_def by (auto intro!: keeps_intros)
  then have "keeps oneShared (cleanupExpiredZips acquired streams now)"
    unfolding cleanupExpiredZips_def by (auto intro!: keeps_intros)
  with cleaned show ?case by (simp add: keepsD)
qed


text \<open>A guest's job counts as one of the owner, who cannot start another.\<close>

lemma guest_blocks_owner:
  assumes "find (\<lambda>j. job_userId j = Some u \<and> inProgress j) (bk_jobs b) = Some j" and "fids \<noteq> [] \<or> dids \<noteq> []"
  shows "createJob env u fids dids ip b = (Inl (ConflictException ''A download job is already in progress''), b)"
  using assms by (simp add: createJob_def op_simps)

text \<open>A guest who asks again pays for a job that is refused.\<close>

lemma refused_job_charges:
  assumes "find (\<lambda>d. fld_shareToken d = Some tok) (bk_folders b) = Some rt" and "fld_deletedAt rt = None"
    and "calculateSizeAndCount [] [fld_id rt] (fld_userId rt) b = Some totals" and "zx_availableSpace env = None"
    and "lockZip None (fst totals) ip (zx_now env) b = (Inr (), b1)"
    and "find (\<lambda>j. job_shareToken j = Some tok \<and> inProgress j) (bk_jobs b1) = Some j"
  shows "createSharedJob env tok [] [] ip b = (Inl (ConflictException ''A download job is already in progress for this share''), b1)"
  using assms
  by (simp add: createSharedJob_def op_simps checkSharedFolder_def orFail_def checkDiskSpace_def Let_def thenOp_def [of "lockZip None (fst totals) ip (zx_now env)"]
    bindOp_def [of "lockZip None (fst totals) ip (zx_now env)"])

text \<open>A job that was given up, and whose files are deleted, becomes ready when its worker reports late.\<close>

lemma late_report_revives:
  assumes "findJob jid b = Some j" and "job_status j = Job_failed"
  shows "\<exists>j'. findJob jid (snd (markReady now jid parts sz b)) = Some j' \<and> job_status j' = Job_ready"
  using assms by (auto simp: markReady_def updateJob_def op_simps findJob_def find_updateWhere_same [where k = job_id])

subsection \<open>Runs\<close>

definition zipStore :: backend where
  "zipStore = emptyBackend\<lparr>
     bk_folders := [(newFolderRow ''r'' ''docs'' None ''u'' 0)\<lparr>fld_shareToken := Some ''tok''\<rparr>, newFolderRow ''s'' ''sub'' (Some ''r'') ''u'' 0],
     bk_files := [newFileRow ''f1'' ''a.txt'' 3 (Some ''r'') ''u'' 0, newFileRow ''f2'' ''b.txt'' 4 (Some ''s'') ''u'' 0,
       (newFileRow ''f3'' ''c.txt'' 5 (Some ''s'') ''u'' 0)\<lparr>fr_deletedAt := Some 1\<rparr>,
       (newFileRow ''f4'' ''d.txt'' 3 None ''u'' 0)\<lparr>fr_status := Buffered, fr_tempStorageKey := Some ''k''\<rparr>]\<rparr>"

definition zipDemoEnv :: "string \<Rightarrow> zip_env" where
  "zipDemoEnv i = \<lparr>zx_zipOwner = None, zx_publish = None, zx_availableSpace = None, zx_newId = i, zx_now = 9\<rparr>"

lemmas zipStore_simps = zipStore_def emptyBackend_def newFolderRow_def newFileRow_def newJobRow_def

lemma zipStore_world: "folderForest zipStore" "foldersNamed zipStore" "distinct (map fr_id (bk_files zipStore))"
  by (auto simp: folderForest_def foldersNamed_def zipStore_simps acyclic_insert)

lemma zipStore_entries:
  "collectFolderEntriesRecursive (folderFuel zipStore) zipStore ''r'' ''docs'' ''u'' =
     Some [\<lparr>ze_fileRecordId = ''f1'', ze_relativePath = ''docs/a.txt'', ze_size = 3\<rparr>, \<lparr>ze_fileRecordId = ''f2'', ze_relativePath = ''docs/sub/b.txt'', ze_size = 4\<rparr>]"
  by (simp add: folderFuel_def zipStore_simps packedFiles_def subfolders_def packable_def numeral_3_eq_3)

theorem folder_packed_exactly_witness:
  "\<exists>es. collectFolderEntriesRecursive (folderFuel zipStore) zipStore ''r'' ''docs'' ''u'' = Some es \<and> distinct (map ze_fileRecordId es) \<and> length es = 2 \<and>
     ''f2'' \<in> fr_id ` {f \<in> set (bk_files zipStore). packable f \<and> fr_userId f = ''u'' \<and> (\<exists>d. fr_folderId f = Some d \<and> isDescendantOf zipStore d ''r'' = Some True)}"
proof -
  from folder_packed_exactly [OF zipStore_world, of "''r''" "''docs''" "''u''"] obtain es where
    es: "collectFolderEntriesRecursive (folderFuel zipStore) zipStore ''r'' ''docs'' ''u'' = Some es" "distinct (map ze_fileRecordId es)"
    and ids: "set (map ze_fileRecordId es) = fr_id ` {f \<in> set (bk_files zipStore). packable f \<and> fr_userId f = ''u'' \<and>
      (\<exists>d. fr_folderId f = Some d \<and> isDescendantOf zipStore d ''r'' = Some True)}" by blast
  have "length es = 2" "''f2'' \<in> set (map ze_fileRecordId es)" using es(1) zipStore_entries by auto
  then show ?thesis using es unfolding ids by blast
qed


definition zipAsk :: "string \<Rightarrow> (string \<times> string) bop" where
  "zipAsk i = createSharedJob (zipDemoEnv i) ''tok'' [] [] None"

lemma zipAsk_first:
  obtains b' where "zipAsk ''j'' zipStore = (Inr (''j'', ''pending''), b')" "bk_folders b' = bk_folders zipStore" "bk_files b' = bk_files zipStore"
    "bk_jobs b' = [newJobRow ''j'' (Some ''u'') (Some ''tok'') [] [''r''] 2 7 9]"
proof -
  have size: "calculateFolderSizeRecursive (folderFuel zipStore) zipStore ''r'' ''u'' = Some (7, 2)"
    using size_of_entries [of "folderFuel zipStore" zipStore "''r''" "''u''" "''docs''"] zipStore_entries by simp
  have "calculateSizeAndCount [] [''r''] ''u'' zipStore = Some (7, 2)" by (simp add: calculateSizeAndCount_def size)
  moreover have "find (\<lambda>d. fld_shareToken d = Some ''tok'') (bk_folders zipStore) = Some ((newFolderRow ''r'' ''docs'' None ''u'' 0)\<lparr>fld_shareToken := Some ''tok''\<rparr>)"
    by (simp add: zipStore_simps)
  moreover have "bk_jobs zipStore = []" by (simp add: zipStore_simps)
  ultimately have "\<exists>b'. zipAsk ''j'' zipStore = (Inr (''j'', ''pending''), b') \<and> bk_folders b' = bk_folders zipStore \<and> bk_files b' = bk_files zipStore \<and>
    bk_jobs b' = [newJobRow ''j'' (Some ''u'') (Some ''tok'') [] [''r''] 2 7 9]"
    by (simp add: zipAsk_def createSharedJob_def op_simps orFail_def checkDiskSpace_def zipDemoEnv_def lockZip_def present_def createZipRow_def dispatchZipJob_def
        emit_def Let_def checkSharedFolder_def newFolderRow_def)
  then show ?thesis using that by blast
qed

theorem shared_zip_confined_witness:
  "\<exists>b' es e rt f d. zipAsk ''j'' zipStore = (Inr (''j'', ''pending''), b') \<and> fst (collectEntries ''j'' b') = Inr es \<and> e \<in> set es \<and>
     ze_fileRecordId e = ''f2'' \<and> rt \<in> set (bk_folders zipStore) \<and> fld_shareToken rt = Some ''tok'' \<and> f \<in> set (bk_files zipStore) \<and> fr_id f = ''f2'' \<and>
     fr_folderId f = Some d \<and> isDescendantOf zipStore d (fld_id rt) = Some True"
proof -
  obtain b' where b': "zipAsk ''j'' zipStore = (Inr (''j'', ''pending''), b')" "bk_folders b' = bk_folders zipStore" "bk_files b' = bk_files zipStore"
    "bk_jobs b' = [newJobRow ''j'' (Some ''u'') (Some ''tok'') [] [''r''] 2 7 9]" by (rule zipAsk_first)
  have "collectFolderEntriesRecursive (folderFuel b') b' ''r'' ''docs'' ''u'' =
     Some [\<lparr>ze_fileRecordId = ''f1'', ze_relativePath = ''docs/a.txt'', ze_size = 3\<rparr>, \<lparr>ze_fileRecordId = ''f2'', ze_relativePath = ''docs/sub/b.txt'', ze_size = 4\<rparr>]"
    by (simp add: folderFuel_def packedFiles_def subfolders_def b'(2,3)) (simp add: zipStore_simps packable_def numeral_3_eq_3 packedFiles_def subfolders_def b'(2,3))
  then have "jobEntries [] [''r''] b' = Some [\<lparr>ze_fileRecordId = ''f1'', ze_relativePath = ''docs/a.txt'', ze_size = 3\<rparr>, \<lparr>ze_fileRecordId = ''f2'', ze_relativePath = ''docs/sub/b.txt'', ze_size = 4\<rparr>]"
    by (simp add: jobEntries_def findFolder_def b'(2)) (simp add: zipStore_simps)
  then have es: "fst (collectEntries ''j'' b') = Inr [\<lparr>ze_fileRecordId = ''f1'', ze_relativePath = ''docs/a.txt'', ze_size = 3\<rparr>, \<lparr>ze_fileRecordId = ''f2'', ze_relativePath = ''docs/sub/b.txt'', ze_size = 4\<rparr>]"
    by (simp add: collectEntries_def op_simps findJob_def b'(4) newJobRow_def orFail_def updateJob_def thenOp_def bindOp_def)
  have "zx_newId (zipDemoEnv ''j'') \<notin> job_id ` set (bk_jobs zipStore)" by (simp add: zipDemoEnv_def zipStore_simps)
  from shared_zip_confined [OF zipStore_world this b'(1) [unfolded zipAsk_def], simplified fst_conv, OF es, of "\<lparr>ze_fileRecordId = ''f2'', ze_relativePath = ''docs/sub/b.txt'', ze_size = 4\<rparr>"]
  obtain rt f d where "rt \<in> set (bk_folders zipStore)" "fld_shareToken rt = Some ''tok''" "f \<in> set (bk_files zipStore)" "fr_id f = ''f2''"
    "fr_folderId f = Some d" "isDescendantOf zipStore d (fld_id rt) = Some True" by auto
  with b'(1) es show ?thesis
    by (intro exI [of _ b'] exI [of _ "[\<lparr>ze_fileRecordId = ''f1'', ze_relativePath = ''docs/a.txt'', ze_size = 3\<rparr>, \<lparr>ze_fileRecordId = ''f2'', ze_relativePath = ''docs/sub/b.txt'', ze_size = 4\<rparr>]"]
        exI [of _ "\<lparr>ze_fileRecordId = ''f2'', ze_relativePath = ''docs/sub/b.txt'', ze_size = 4\<rparr>"] exI [of _ rt] exI [of _ f] exI [of _ d]) simp
qed


definition countingArchiver :: "nat archiver" where
  "countingArchiver = \<lparr>az_new = 0, az_append = (\<lambda>z n st. (None, Suc z)), az_pointer = int, az_finalize = id, az_write = (\<lambda>_. None)\<rparr>"

definition tempEnv :: read_env where
  "tempEnv = \<lparr>rv_cipher = demoCipher, rv_sha256 = id, rv_botAvailable = (\<lambda>_. True), rv_mainBot = 1, rv_fileLink = (\<lambda>f b. Inl Diverges),
     rv_recover = (\<lambda>_. Inl Diverges), rv_fetch = (\<lambda>url r. Inl Diverges), rv_temp = (\<lambda>key r. Inr ([pieceOf r [1, 2, 3]], None))\<rparr>"

theorem zipped_plaintext_witness:
  "\<exists>ps. fetchFileStream tempEnv [] ''f4'' zipStore = (Inr (ps, None), zipStore) \<and> concat ps = [1, 2, 3]"
proof -
  let ?f = "(newFileRow ''f4'' ''d.txt'' 3 None ''u'' 0)\<lparr>fr_status := Buffered, fr_tempStorageKey := Some ''k''\<rparr>"
  have "findFile ''f4'' zipStore = Some ?f" by (simp add: findFile_def zipStore_simps)
  moreover have "getDownloadMetadata (rv_cipher tempEnv) [] ?f (chunkRowsOf ''f4'' zipStore) = Inr \<lparr>di_fileId = ''f4'', di_filename = ''d.txt'', di_size = 3,
      di_mimeType = ''application/octet-stream'', di_source = FromTemp ''k''\<rparr>"
    by (simp add: getDownloadMetadata_def newFileRow_def present_def)
  ultimately show ?thesis
    using zipped_plaintext [of "''f4''" zipStore ?f tempEnv "[]" _ "[1, 2, 3]"] by (simp add: sourceHolds_def answersRanges_def tempEnv_def)
qed

theorem zip_names_and_parts_witness:
  "\<exists>r b'. zipAll countingArchiver tempEnv [] ''j'' [\<lparr>ze_fileRecordId = ''f4'', ze_relativePath = ''d.txt'', ze_size = 3\<rparr>,
       \<lparr>ze_fileRecordId = ''gone'', ze_relativePath = ''d.txt'', ze_size = 3\<rparr>] (snd (zipAsk ''j'' zipStore)) = (Inr r, b') \<and>
     distinct (zr_seen r) \<and> length (zr_seen r) = 2 \<and> zr_seen r ! 0 = ''d.txt'' \<and> map zp_index (zr_parts r) = [0]"
proof -
  obtain b1 where b1: "zipAsk ''j'' zipStore = (Inr (''j'', ''pending''), b1)" "bk_files b1 = bk_files zipStore"
    "bk_jobs b1 = [newJobRow ''j'' (Some ''u'') (Some ''tok'') [] [''r''] 2 7 9]" by (rule zipAsk_first)
  let ?es = "[\<lparr>ze_fileRecordId = ''f4'', ze_relativePath = ''d.txt'', ze_size = 3\<rparr>, \<lparr>ze_fileRecordId = ''gone'', ze_relativePath = ''d.txt'', ze_size = 3\<rparr>]"
  have one: "uniquePath ''d.txt'' [] = Some ''d.txt''" by (simp add: uniquePath_def freePath.simps)
  obtain x where two: "uniquePath ''d.txt'' [''d.txt''] = Some x" using uniquePath_total by blast
  let ?f = "(newFileRow ''f4'' ''d.txt'' 3 None ''u'' 0)\<lparr>fr_status := Buffered, fr_tempStorageKey := Some ''k''\<rparr>"
  have found: "findFile ''f4'' s = Some ?f" "findFile ''gone'' s = None" if "bk_files s = bk_files zipStore" for s
    using that by (simp_all add: findFile_def zipStore_simps)
  have "getDownloadMetadata (rv_cipher tempEnv) [] ?f cs = Inr \<lparr>di_fileId = ''f4'', di_filename = ''d.txt'', di_size = 3,
      di_mimeType = ''application/octet-stream'', di_source = FromTemp ''k''\<rparr>" for cs by (simp add: getDownloadMetadata_def newFileRow_def present_def)
  then have packed: "packEntry countingArchiver tempEnv [] ''f4'' n z s = (Inr (Suc z), s)" "packEntry countingArchiver tempEnv [] ''gone'' n z s = (Inr z, s)"
    if "bk_files s = bk_files zipStore" for n z s
    using found [OF that] by (simp_all add: packEntry_def catchEnding_def catchOp_def fetchFileStream_def op_simps orFail_def tempEnv_def countingArchiver_def pieceOf_def)
  have "\<exists>r b'. zipAll countingArchiver tempEnv [] ''j'' ?es b1 = (Inr r, b') \<and> zr_seen r = [''d.txt'', x] \<and> map zp_index (zr_parts r) = [0]"
    using one two b1(2,3) packed
    by (simp add: zipAll_def freshRun_def zipEntry_def startPart_def finishPart_def countingArchiver_def op_simps orFail_def Let_def updateJob_def findJob_def
        newJobRow_def partSize_def thenOp_def bindOp_def keepTemp_def)
  then obtain r b' where run: "zipAll countingArchiver tempEnv [] ''j'' ?es b1 = (Inr r, b')" "zr_seen r = [''d.txt'', x]" "map zp_index (zr_parts r) = [0]"
    by (elim exE conjE)
  from zip_names_and_parts [OF run(1)] run show ?thesis by (intro exI [of _ r] exI [of _ b']) (simp add: b1(1))
qed

end
