(* ===== verification/S3Auth.thy ===== *)
theory S3Auth
  imports Crypto Settings S3Xml S3Multipart "HOL-Library.Multiset"
begin

section \<open>S3 authentication\<close>

text \<open>
  \<^verbatim>\<open>S3AuthService\<close> (s3/s3-auth.service.ts): AWS signatures, version 4, in the header and in the query of a presigned URL,
  with the guards s3/s3-auth.guard.ts and s3/s3-public.guard.ts and the credentials of s3/s3-credential.service.ts.
  SHA-256, the HMAC, the block cipher with its inverse, the collation of \<^verbatim>\<open>localeCompare\<close> and what \<^verbatim>\<open>new URL\<close> takes are
  arguments; so are random numbers and the clock, in milliseconds. \<open>None\<close> is the \<^verbatim>\<open>null\<close> of a request that is refused.
\<close>

record auth_env =
  ae_hmac :: "buffer \<Rightarrow> string \<Rightarrow> buffer"
  ae_sha256 :: "string \<Rightarrow> buffer"
  ae_collate :: "string \<Rightarrow> string \<Rightarrow> bool"
  ae_urlOk :: "string \<Rightarrow> string \<Rightarrow> bool"
  ae_masterSecret :: "string option"
  ae_cipher :: block_cipher
  ae_inverse :: block_cipher

text \<open>Node joins the values of a header that is sent twice.\<close>

record auth_request =
  aq_method :: string
  aq_url :: string
  aq_headers :: "string \<Rightarrow> string option"

subsection \<open>Decoding and encoding\<close>

text \<open>The bytes of a run of escapes.\<close>

fun escapedRun :: "string \<Rightarrow> string" where
  "escapedRun (p # h # l # s) = (if p = CHR ''%'' \<and> baseDigit 16 h \<and> baseDigit 16 l then char_of (16 * digitVal h + digitVal l) # escapedRun s else [])"
| "escapedRun _ = []"

text \<open>\<^verbatim>\<open>decodeURIComponent\<close> throws on a broken escape and on escapes that are not UTF-8.\<close>

function decodeURIComponent :: "string \<Rightarrow> string option" where
  "decodeURIComponent s = (case s of [] \<Rightarrow> Some []
     | c # r \<Rightarrow> if c \<noteq> CHR ''%'' then map_option ((#) c) (decodeURIComponent r)
       else (let run = escapedRun s; (ok, n) = utf8Front run in
         if run = [] \<or> \<not> ok then None else map_option ((@) (take n run)) (decodeURIComponent (drop (3 * n) s))))"
  by pat_completeness auto
termination
  by (relation "measure length") (auto dest: utf8Front_step)

declare decodeURIComponent.simps [simp del]

definition safeDecodeURIComponent :: "string \<Rightarrow> string" where
  "safeDecodeURIComponent value = (case decodeURIComponent value of None \<Rightarrow> value | Some s \<Rightarrow> s)"

definition awsUriEncode :: "string \<Rightarrow> string" where
  "awsUriEncode value = concat (map (\<lambda>c. if c \<in> set ''!()*'' \<or> c = CHR 0x27 then percentByte c else [c]) (encodeURIComponent value))"

definition getRequestTarget :: "auth_request \<Rightarrow> string \<times> string" where
  "getRequestTarget req = (let url = (if aq_url req = [] then ''/'' else aq_url req) in
     case jsCut (CHR ''?'') url of None \<Rightarrow> (url, []) | Some (path, query) \<Rightarrow> (if path = [] then ''/'' else path, query))"

definition buildCanonicalUri :: "string \<Rightarrow> string" where
  "buildCanonicalUri rawPath = jsJoin ''/'' (map (awsUriEncode \<circ> safeDecodeURIComponent) (jsSplit (CHR ''/'') (if rawPath = [] then ''/'' else rawPath)))"

text \<open>The sort is stable; equal encoded keys are ordered by their values.\<close>

definition pairLe :: "(string \<Rightarrow> string \<Rightarrow> bool) \<Rightarrow> string \<times> string \<Rightarrow> string \<times> string \<Rightarrow> bool" where
  "pairLe le a b = (if fst a = fst b then le (snd a) (snd b) else le (fst a) (fst b))"

fun insertPair :: "('a \<Rightarrow> 'a \<Rightarrow> bool) \<Rightarrow> 'a \<Rightarrow> 'a list \<Rightarrow> 'a list" where
  "insertPair le x [] = [x]"
| "insertPair le x (y # ys) = (if le x y then x # y # ys else y # insertPair le x ys)"

definition sortPairs :: "('a \<Rightarrow> 'a \<Rightarrow> bool) \<Rightarrow> 'a list \<Rightarrow> 'a list" where
  "sortPairs le xs = foldr (insertPair le) xs []"

definition queryPart :: "string \<Rightarrow> string \<times> string" where
  "queryPart part = (case jsCut (CHR ''='') part of None \<Rightarrow> (part, []) | Some (k, v) \<Rightarrow> (k, v))"

definition joinPairs :: "(string \<times> string) list \<Rightarrow> string" where
  "joinPairs pairs = jsJoin ''&'' (map (\<lambda>(k, v). k @ CHR ''='' # v) pairs)"

definition buildCanonicalQueryString :: "auth_env \<Rightarrow> string \<Rightarrow> string option \<Rightarrow> string" where
  "buildCanonicalQueryString env rawQuery excludedKey = (if rawQuery = [] then [] else
     (let decoded = map (\<lambda>part. case queryPart part of (k, v) \<Rightarrow> (safeDecodeURIComponent k, safeDecodeURIComponent v))
            (filter (\<lambda>part. part \<noteq> []) (jsSplit (CHR ''&'') rawQuery));
          pairs = map (\<lambda>(k, v). (awsUriEncode k, awsUriEncode v)) (filter (\<lambda>(k, v). Some k \<noteq> excludedKey) decoded) in
      joinPairs (sortPairs (pairLe (ae_collate env)) pairs)))"

text \<open>\<^verbatim>\<open>trim().replace(/\s+/g, ' ')\<close>\<close>

fun squeeze :: "string \<Rightarrow> string" where
  "squeeze [] = []"
| "squeeze (c # s) = (if jsWhite c then (case s of d # _ \<Rightarrow> if jsWhite d then squeeze s else CHR '' '' # squeeze s | [] \<Rightarrow> '' '') else c # squeeze s)"

definition normalizeHeaderValue :: "string option \<Rightarrow> string" where
  "normalizeHeaderValue value = (case value of None \<Rightarrow> [] | Some v \<Rightarrow> squeeze (jsTrim v))"

definition upChar :: "char \<Rightarrow> char" where
  "upChar c = (if 97 \<le> byte c \<and> byte c \<le> 122 then char_of (byte c - 32) else c)"

definition asciiUpper :: "string \<Rightarrow> string" where
  "asciiUpper s = map upChar s"

definition canonicalHeaders :: "auth_request \<Rightarrow> string list \<Rightarrow> (string \<Rightarrow> string option) \<Rightarrow> string" where
  "canonicalHeaders req signedHeaders overrides = jsJoin [LF] (map (\<lambda>h. let name = asciiLower h in
     name @ CHR '':'' # normalizeHeaderValue (case overrides name of Some v \<Rightarrow> Some v | None \<Rightarrow> aq_headers req name)) signedHeaders)"

definition canonicalRequest :: "string \<Rightarrow> string \<Rightarrow> string \<Rightarrow> string \<Rightarrow> string list \<Rightarrow> string \<Rightarrow> string" where
  "canonicalRequest method uri query headerLines signedHeaders payloadHash =
     jsJoin [LF] [asciiUpper method, uri, query, headerLines @ [LF], jsJoin '';'' signedHeaders, payloadHash]"

definition buildCanonicalRequest :: "auth_env \<Rightarrow> auth_request \<Rightarrow> string list \<Rightarrow> (string \<Rightarrow> string option) \<Rightarrow> string" where
  "buildCanonicalRequest env req signedHeaders overrides = (case getRequestTarget req of (path, query) \<Rightarrow>
     canonicalRequest (aq_method req) (buildCanonicalUri path) (buildCanonicalQueryString env query None)
       (canonicalHeaders req signedHeaders overrides) signedHeaders
       (if present (aq_headers req ''x-amz-content-sha256'') then the (aq_headers req ''x-amz-content-sha256'') else ''UNSIGNED-PAYLOAD''))"

definition buildCanonicalRequestPresigned :: "auth_env \<Rightarrow> auth_request \<Rightarrow> string list \<Rightarrow> string" where
  "buildCanonicalRequestPresigned env req signedHeaders = (case getRequestTarget req of (path, query) \<Rightarrow>
     canonicalRequest (aq_method req) (buildCanonicalUri path) (buildCanonicalQueryString env query (Some ''X-Amz-Signature''))
       (canonicalHeaders req signedHeaders (\<lambda>_. None)) signedHeaders ''UNSIGNED-PAYLOAD'')"

subsection \<open>The signature\<close>

definition deriveSigningKey :: "auth_env \<Rightarrow> string \<Rightarrow> string \<Rightarrow> string \<Rightarrow> string \<Rightarrow> buffer" where
  "deriveSigningKey env secretAccessKey date region service =
    (let kDate = ae_hmac env (textBytes (''AWS4'' @ secretAccessKey)) date; kRegion = ae_hmac env kDate region;
         kService = ae_hmac env kRegion service in ae_hmac env kService ''aws4_request'')"

definition stringToSign :: "auth_env \<Rightarrow> string \<Rightarrow> string \<Rightarrow> string \<Rightarrow> string" where
  "stringToSign env dateTime credentialScope request =
     jsJoin [LF] [''AWS4-HMAC-SHA256'', dateTime, credentialScope, toHex (ae_sha256 env request)]"

definition calculateSignature :: "auth_env \<Rightarrow> buffer \<Rightarrow> string \<Rightarrow> string \<Rightarrow> string \<Rightarrow> string" where
  "calculateSignature env signingKey dateTime credentialScope request =
     toHex (ae_hmac env signingKey (stringToSign env dateTime credentialScope request))"

text \<open>\<^verbatim>\<open>Date.parse\<close> of an ISO date and time: a day past the end of its month runs into the next one.\<close>

definition daysFromCivil :: "int \<Rightarrow> int \<Rightarrow> int \<Rightarrow> int" where
  "daysFromCivil y0 m d = (let y = (if m \<le> 2 then y0 - 1 else y0); era = y div 400; yoe = y mod 400;
     doy = (153 * (if m > 2 then m - 3 else m + 9) + 2) div 5 + d - 1; doe = yoe * 365 + yoe div 4 - yoe div 100 + doy in era * 146097 + doe - 719468)"

definition dateParse :: "int \<Rightarrow> int \<Rightarrow> int \<Rightarrow> int \<Rightarrow> int \<Rightarrow> int \<Rightarrow> int option" where
  "dateParse y mo d h mi s =
    (if 1 \<le> mo \<and> mo \<le> 12 \<and> 1 \<le> d \<and> d \<le> 31 \<and> (h < 24 \<and> mi < 60 \<and> s < 60 \<or> h = 24 \<and> mi = 0 \<and> s = 0)
     then Some (daysFromCivil y mo d * 86400000 + h * 3600000 + mi * 60000 + s * 1000) else None)"

definition signingForm :: "string \<Rightarrow> bool" where
  "signingForm value \<longleftrightarrow> length value = 16 \<and> list_all jsDigit (take 8 value) \<and> value ! 8 = CHR ''T'' \<and>
     list_all jsDigit (take 6 (drop 9 value)) \<and> value ! 15 = CHR ''Z''"

definition fieldOf :: "string \<Rightarrow> nat \<Rightarrow> nat \<Rightarrow> int" where
  "fieldOf value i n = int (baseVal 10 (take n (drop i value)))"

text \<open>\<^verbatim>\<open>toISOString().replace(/[-:]/g, '').replace('.000', '')\<close>; the times here have no milliseconds.\<close>

definition signingTime :: "int \<Rightarrow> string" where
  "signingTime t = (let (y, m, d) = civilFromDays (t div 86400000); r = t mod 86400000 in
     filter (\<lambda>c. c \<noteq> CHR ''-'') (isoYear y) @ pad0 2 m @ pad0 2 d @ ''T'' @ pad0 2 (r div 3600000) @ pad0 2 (r div 60000 mod 60) @
     pad0 2 (r div 1000 mod 60) @ ''Z'')"

definition parseSigningTime :: "string \<Rightarrow> int option" where
  "parseSigningTime value = (if \<not> signingForm value then None else
     (case dateParse (fieldOf value 0 4) (fieldOf value 4 2) (fieldOf value 6 2) (fieldOf value 9 2) (fieldOf value 11 2) (fieldOf value 13 2) of
        None \<Rightarrow> None | Some time \<Rightarrow> if signingTime time = value then Some time else None))"

subsection \<open>Stored secrets\<close>

text \<open>AES in cipher block chaining mode with the padding of PKCS#7.\<close>

definition xorBytes :: "buffer \<Rightarrow> buffer \<Rightarrow> buffer" where
  "xorBytes = map2 xor"

fun cbcEncrypt :: "(buffer \<Rightarrow> buffer) \<Rightarrow> buffer \<Rightarrow> buffer list \<Rightarrow> buffer" where
  "cbcEncrypt E iv [] = []"
| "cbcEncrypt E iv (p # ps) = (let c = E (xorBytes p iv) in c @ cbcEncrypt E c ps)"

fun cbcDecrypt :: "(buffer \<Rightarrow> buffer) \<Rightarrow> buffer \<Rightarrow> buffer list \<Rightarrow> buffer" where
  "cbcDecrypt D iv [] = []"
| "cbcDecrypt D iv (c # cs) = xorBytes (D c) iv @ cbcDecrypt D c cs"

definition padded :: "buffer \<Rightarrow> buffer" where
  "padded bs = (let n = 16 - length bs mod 16 in bs @ replicate n (of_nat n))"

definition unpadded :: "buffer \<Rightarrow> buffer option" where
  "unpadded bs = (if bs = [] \<or> length bs mod 16 \<noteq> 0 then None else
     (let n = unat (bs ! (length bs - 1)) in
      if n = 0 \<or> 16 < n \<or> drop (length bs - n) bs \<noteq> replicate n (of_nat n) then None else Some (take (length bs - n) bs)))"

definition getMasterKey :: "auth_env \<Rightarrow> buffer option" where
  "getMasterKey env = (if present (ae_masterSecret env) then Some (ae_sha256 env (the (ae_masterSecret env))) else None)"

definition encryptSecret :: "auth_env \<Rightarrow> buffer \<Rightarrow> string \<Rightarrow> string option" where
  "encryptSecret env iv secret = (case getMasterKey env of None \<Rightarrow> None
     | Some key \<Rightarrow> if length key \<noteq> 32 \<or> length iv \<noteq> 16 then None
         else Some (toHex iv @ '':'' @ toHex (cbcEncrypt (ae_cipher env key) iv (batchesOf 16 (padded (textBytes secret))))))"

text \<open>A secret without a colon was stored as it is.\<close>

definition decryptSecret :: "auth_env \<Rightarrow> string \<Rightarrow> string option" where
  "decryptSecret env encryptedSecret = (if CHR '':'' \<notin> set encryptedSecret then Some encryptedSecret
     else case getMasterKey env of None \<Rightarrow> None
       | Some key \<Rightarrow> (case jsSplit (CHR '':'') encryptedSecret of
           ivHex # encryptedHex # _ \<Rightarrow>
             (let iv = fromHex ivHex; encrypted = fromHex encryptedHex in
              if length key \<noteq> 32 \<or> length iv \<noteq> 16 \<or> length encrypted mod 16 \<noteq> 0 then None
              else map_option (utf8Text \<circ> spelled) (unpadded (cbcDecrypt (ae_inverse env key) iv (batchesOf 16 encrypted))))
         | _ \<Rightarrow> None))"

subsection \<open>Verification\<close>

record auth_header =
  ah_accessKeyId :: string
  ah_credentialScope :: string
  ah_signedHeaders :: "string list"
  ah_signature :: string
  ah_date :: string
  ah_region :: string
  ah_service :: string

definition credentialFields :: "string \<Rightarrow> (string \<times> string \<times> string \<times> string \<times> string) option" where
  "credentialFields credential = (case jsSplit (CHR ''/'') credential of
     accessKeyId # date # region # service # x # rest \<Rightarrow>
       Some (accessKeyId, date, region, service, jsJoin ''/'' (date # region # service # x # rest))
   | _ \<Rightarrow> None)"

text \<open>The fields between the commas; the last value of a field counts.\<close>

definition headerFields :: "string \<Rightarrow> (string \<times> string) list" where
  "headerFields content = concat (map (\<lambda>part. case jsCut (CHR ''='') part of None \<Rightarrow> [] | Some (k, v) \<Rightarrow> [(jsTrim k, jsTrim v)])
     (jsSplit (CHR '','') content))"

definition headerField :: "string \<Rightarrow> string \<Rightarrow> string" where
  "headerField k content = (case map_of (rev (headerFields content)) k of None \<Rightarrow> [] | Some v \<Rightarrow> v)"

definition parseAuthHeader :: "string \<Rightarrow> auth_header option" where
  "parseAuthHeader authHeader =
    (let content = drop (length ''AWS4-HMAC-SHA256 '') authHeader; credential = headerField ''Credential'' content;
         signedHeaders = headerField ''SignedHeaders'' content; signature = headerField ''Signature'' content in
     if credential = [] \<or> signedHeaders = [] \<or> signature = [] then None
     else map_option (\<lambda>(accessKeyId, date, region, service, scope).
       \<lparr>ah_accessKeyId = accessKeyId, ah_credentialScope = scope, ah_signedHeaders = jsSplit (CHR '';'') signedHeaders, ah_signature = signature,
        ah_date = date, ah_region = region, ah_service = service\<rparr>) (credentialFields credential))"

definition activeCredential :: "string \<Rightarrow> backend \<Rightarrow> cred_row option" where
  "activeCredential accessKeyId b = (case find (\<lambda>c. crd_accessKeyId c = accessKeyId) (bk_creds b) of
     None \<Rightarrow> None | Some c \<Rightarrow> if crd_isActive c then Some c else None)"

definition acceptedEncodings :: "auth_request \<Rightarrow> string list \<Rightarrow> string list" where
  "acceptedEncodings req signedHeaders = (if ''accept-encoding'' \<in> set signedHeaders
     then filter (\<lambda>v. normalizeHeaderValue (aq_headers req ''accept-encoding'') \<noteq> v) [''identity'', ''gzip''] else [])"

definition encodingOverride :: "string \<Rightarrow> string \<Rightarrow> string option" where
  "encodingOverride v name = (if name = ''accept-encoding'' then Some v else None)"

definition verifyHeader :: "auth_env \<Rightarrow> int \<Rightarrow> auth_request \<Rightarrow> string \<Rightarrow> backend \<Rightarrow> string option" where
  "verifyHeader env now req authHeader b = (case parseAuthHeader authHeader of None \<Rightarrow> None
   | Some p \<Rightarrow> (let dateTime = (case aq_headers req ''x-amz-date'' of None \<Rightarrow> [] | Some d \<Rightarrow> d) in
       case parseSigningTime dateTime of None \<Rightarrow> None
     | Some requestTime \<Rightarrow> if \<bar>now - requestTime\<bar> > 15 * 60 * 1000 then None else
       (case activeCredential (ah_accessKeyId p) b of None \<Rightarrow> None
        | Some credential \<Rightarrow> (case decryptSecret env (crd_secretAccessKey credential) of None \<Rightarrow> None
          | Some secret \<Rightarrow>
             (let signingKey = deriveSigningKey env secret (ah_date p) (ah_region p) (ah_service p);
                  calculate = (\<lambda>request. calculateSignature env signingKey dateTime (ah_credentialScope p) request);
                  expected = calculate (buildCanonicalRequest env req (ah_signedHeaders p) (\<lambda>_. None));
                  retries = map (\<lambda>v. calculate (buildCanonicalRequest env req (ah_signedHeaders p) (encodingOverride v)))
                    (acceptedEncodings req (ah_signedHeaders p)) in
              if ah_signature p = expected \<or> ah_signature p \<in> set retries then Some (crd_userId credential) else None)))))"

text \<open>\<^verbatim>\<open>URLSearchParams.get\<close>: plus signs are spaces, broken escapes stay, ill-formed UTF-8 is replaced.\<close>

fun formBytes :: "string \<Rightarrow> string" where
  "formBytes (p # h # l # s) = (if p = CHR ''%'' \<and> baseDigit 16 h \<and> baseDigit 16 l then char_of (16 * digitVal h + digitVal l) # formBytes s
     else (if p = CHR ''+'' then CHR '' '' else p) # formBytes (h # l # s))"
| "formBytes s = map (\<lambda>c. if c = CHR ''+'' then CHR '' '' else c) s"

definition searchParam :: "string \<Rightarrow> string \<Rightarrow> string option" where
  "searchParam query name = map_of (map (\<lambda>part. case queryPart part of (k, v) \<Rightarrow> (utf8Text (formBytes k), utf8Text (formBytes v)))
     (filter (\<lambda>part. part \<noteq> []) (jsSplit (CHR ''&'') (takeWhile (\<lambda>c. c \<noteq> CHR ''#'') query)))) name"

record presigned =
  ps_credential :: string
  ps_date :: string
  ps_expires :: string
  ps_signedHeaders :: "string list"
  ps_signature :: string

definition presignedParams :: "auth_request \<Rightarrow> presigned option" where
  "presignedParams req = (let query = snd (getRequestTarget req); get = searchParam query in
     if get ''X-Amz-Algorithm'' \<noteq> Some ''AWS4-HMAC-SHA256'' then None
     else if \<not> present (get ''X-Amz-Credential'') \<or> \<not> present (get ''X-Amz-Date'') \<or> \<not> present (get ''X-Amz-Expires'') \<or>
       \<not> present (get ''X-Amz-SignedHeaders'') \<or> \<not> present (get ''X-Amz-Signature'') then None
     else Some \<lparr>ps_credential = the (get ''X-Amz-Credential''), ps_date = the (get ''X-Amz-Date''), ps_expires = the (get ''X-Amz-Expires''),
       ps_signedHeaders = jsSplit (CHR '';'') (the (get ''X-Amz-SignedHeaders'')), ps_signature = the (get ''X-Amz-Signature'')\<rparr>)"

definition presignedValid :: "int \<Rightarrow> presigned \<Rightarrow> bool" where
  "presignedValid now p = (if \<not> list_all jsDigit (ps_expires p) then False else
     (let expires = int (baseVal 10 (ps_expires p)) in
      case parseSigningTime (ps_date p) of None \<Rightarrow> False
      | Some requestTime \<Rightarrow> 1 \<le> expires \<and> expires \<le> 604800 \<and> requestTime \<le> now + 15 * 60 * 1000 \<and> now \<le> requestTime + expires * 1000))"

definition verifyPresignedUrl :: "auth_env \<Rightarrow> int \<Rightarrow> auth_request \<Rightarrow> backend \<Rightarrow> string option" where
  "verifyPresignedUrl env now req b =
    (if \<not> ae_urlOk env (aq_url req) (if present (aq_headers req ''host'') then the (aq_headers req ''host'') else ''localhost'') then None
     else case presignedParams req of None \<Rightarrow> None
     | Some p \<Rightarrow> (case credentialFields (ps_credential p) of None \<Rightarrow> None
       | Some (accessKeyId, date, region, service, scope) \<Rightarrow> if \<not> presignedValid now p then None else
         (case activeCredential accessKeyId b of None \<Rightarrow> None
          | Some credential \<Rightarrow> (case decryptSecret env (crd_secretAccessKey credential) of None \<Rightarrow> None
            | Some secret \<Rightarrow> if calculateSignature env (deriveSigningKey env secret date region service) (ps_date p) scope
                  (buildCanonicalRequestPresigned env req (ps_signedHeaders p)) = ps_signature p
                then Some (crd_userId credential) else None))))"

definition signedInHeader :: "auth_request \<Rightarrow> bool" where
  "signedInHeader req \<longleftrightarrow> (case aq_headers req ''authorization'' of None \<Rightarrow> False | Some h \<Rightarrow> jsStartsWith ''AWS4-HMAC-SHA256 '' h)"

definition verifySignature :: "auth_env \<Rightarrow> int \<Rightarrow> auth_request \<Rightarrow> backend \<Rightarrow> string option" where
  "verifySignature env now req b = (if signedInHeader req then verifyHeader env now req (the (aq_headers req ''authorization'')) b
     else verifyPresignedUrl env now req b)"

text \<open>The guard of the S3 routes, which answers with the user the request acts for.\<close>

definition s3AuthGuard :: "auth_env \<Rightarrow> int \<Rightarrow> auth_request \<Rightarrow> backend \<Rightarrow> backend_error + string" where
  "s3AuthGuard env now req b = (case verifySignature env now req b of
     Some userId \<Rightarrow> if userId = [] then Inl (UnauthorizedException ''InvalidSignature'') else Inr userId
   | None \<Rightarrow> Inl (UnauthorizedException ''InvalidSignature''))"

subsection \<open>What a signature binds\<close>

text \<open>The key, the date, the scope and the canonical requests the server computes signatures of.\<close>

definition signingInput :: "auth_env \<Rightarrow> auth_request \<Rightarrow> backend \<Rightarrow> (buffer \<times> string \<times> string \<times> string list) option" where
  "signingInput env req b = (if signedInHeader req
     then case parseAuthHeader (the (aq_headers req ''authorization'')) of None \<Rightarrow> None
       | Some p \<Rightarrow> (case Option.bind (activeCredential (ah_accessKeyId p) b) (decryptSecret env \<circ> crd_secretAccessKey) of None \<Rightarrow> None
         | Some secret \<Rightarrow> Some (deriveSigningKey env secret (ah_date p) (ah_region p) (ah_service p),
             (case aq_headers req ''x-amz-date'' of None \<Rightarrow> [] | Some d \<Rightarrow> d), ah_credentialScope p,
             buildCanonicalRequest env req (ah_signedHeaders p) (\<lambda>_. None) #
               map (\<lambda>v. buildCanonicalRequest env req (ah_signedHeaders p) (encodingOverride v)) (acceptedEncodings req (ah_signedHeaders p))))
     else case presignedParams req of None \<Rightarrow> None
       | Some p \<Rightarrow> (case credentialFields (ps_credential p) of None \<Rightarrow> None
         | Some (accessKeyId, date, region, service, scope) \<Rightarrow>
             (case Option.bind (activeCredential accessKeyId b) (decryptSecret env \<circ> crd_secretAccessKey) of None \<Rightarrow> None
              | Some secret \<Rightarrow> Some (deriveSigningKey env secret date region service, ps_date p, scope,
                  [buildCanonicalRequestPresigned env req (ps_signedHeaders p)]))))"

definition hashedRequests :: "auth_env \<Rightarrow> auth_request \<Rightarrow> backend \<Rightarrow> string set" where
  "hashedRequests env req b = (case signingInput env req b of None \<Rightarrow> {} | Some (k, d, sc, rs) \<Rightarrow> set rs)"

definition signedMessages :: "auth_env \<Rightarrow> auth_request \<Rightarrow> backend \<Rightarrow> (buffer \<times> string) set" where
  "signedMessages env req b = (case signingInput env req b of None \<Rightarrow> {} | Some (k, d, sc, rs) \<Rightarrow> (\<lambda>r. (k, stringToSign env d sc r)) ` set rs)"

definition presentedSignature :: "auth_request \<Rightarrow> string option" where
  "presentedSignature req = (if signedInHeader req then map_option ah_signature (parseAuthHeader (the (aq_headers req ''authorization'')))
     else map_option ps_signature (presignedParams req))"

text \<open>Method, path and query as they are signed.\<close>

definition signedTarget :: "auth_env \<Rightarrow> auth_request \<Rightarrow> string \<times> string \<times> string" where
  "signedTarget env req = (case getRequestTarget req of (path, query) \<Rightarrow> (asciiUpper (aq_method req), buildCanonicalUri path,
     buildCanonicalQueryString env query (if signedInHeader req then None else Some ''X-Amz-Signature'')))"

lemma awsUriEncode_list: "awsUriEncode = encodeS3ListValue"
  by (rule ext) (simp add: awsUriEncode_def encodeS3ListValue_def)

lemma encoded_plain: "c \<in> set (awsUriEncode s) \<Longrightarrow> c = CHR ''%'' \<or> uriUnreserved c"
proof (unfold awsUriEncode_list, induction s)
  case (Cons a s)
  have "uriUnreserved (hexDigit n)" if "n < 16" for n
    using that by (auto simp: hexDigit_def uriUnreserved_def Let_def of_char_of take_bit_nat_eq_self)
  moreover have "byte a div 16 < 16" "byte a mod 16 < 16" by (simp_all add: less_mult_imp_div_less)
  ultimately have "c \<in> set (percentByte a) \<Longrightarrow> c = CHR ''%'' \<or> uriUnreserved c" by (auto simp: percentByte_def Let_def)
  with Cons show ?case by (auto simp: encodeS3ListValue_Cons listChar_def split: if_splits)
qed (simp add: encodeS3ListValue_def)

lemma encoded_no_break: "LF \<notin> set (awsUriEncode s)"
  using encoded_plain [of LF s] by (auto simp: uriUnreserved_def Let_def)

lemma jsJoin_set: "set (jsJoin d ws) \<subseteq> set d \<union> (\<Union>w \<in> set ws. set w)"
  by (cases ws) (auto simp: jsJoin_def)

lemma insertPair_set: "set (insertPair le x xs) = insert x (set xs)"
  by (induction xs) auto

lemma sortPairs_set: "set (sortPairs le xs) = set xs"
  by (induction xs) (simp_all add: sortPairs_def insertPair_set)

lemma uri_no_break: "LF \<notin> set (buildCanonicalUri path)"
proof -
  have "set (buildCanonicalUri path) \<subseteq> insert (CHR ''/'') (\<Union>w. set (awsUriEncode w))"
    using jsJoin_set [of "''/''"] by (fastforce simp: buildCanonicalUri_def)
  then show ?thesis using encoded_no_break by auto
qed

lemma query_no_break: "LF \<notin> set (buildCanonicalQueryString env q x)"
proof -
  have "set (joinPairs ps) \<subseteq> insert (CHR ''&'') (insert (CHR ''='') (\<Union>(k, v) \<in> set ps. set k \<union> set v))" for ps
    using jsJoin_set [of "''&''" "map (\<lambda>(k, v). k @ CHR ''='' # v) ps"] by (fastforce simp: joinPairs_def)
  then have "LF \<in> set (joinPairs ps) \<Longrightarrow> \<exists>(k, v) \<in> set ps. LF \<in> set k \<union> set v" for ps by fastforce
  then have "(\<And>k v. (k, v) \<in> set ps \<Longrightarrow> LF \<notin> set k \<and> LF \<notin> set v) \<Longrightarrow> LF \<notin> set (joinPairs ps)" for ps by fastforce
  note joined = this
  show ?thesis unfolding buildCanonicalQueryString_def Let_def
    by (auto intro!: joined simp: sortPairs_set encoded_no_break)
qed

lemma join_lines: "jsJoin d (w # v # ws) = w @ d @ jsJoin d (v # ws)"
  by (simp add: jsJoin_def)

lemma first_line: "LF \<notin> set a \<Longrightarrow> LF \<notin> set a' \<Longrightarrow> a @ [LF] @ s = a' @ [LF] @ s' \<longleftrightarrow> a = a' \<and> s = s'"
  using jsCut_append [of LF a s] jsCut_append [of LF a' s'] by (metis Pair_inject append_Cons append_Nil option.inject)

lemma upChar_break: "upChar c = LF \<Longrightarrow> c = LF"
proof -
  assume e: "upChar c = LF"
  then have "byte (upChar c) = byte LF" by (simp only:)
  then have "97 \<le> byte c \<Longrightarrow> byte c \<le> 122 \<Longrightarrow> False" by (simp add: upChar_def of_char_of take_bit_nat_eq_self mod_less)
  with e show "c = LF" by (cases "97 \<le> byte c \<and> byte c \<le> 122") (simp_all only: upChar_def if_False, blast)
qed

lemma asciiUpper_break: "LF \<notin> set m \<Longrightarrow> LF \<notin> set (asciiUpper m)"
proof
  assume m: "LF \<notin> set m" and "LF \<in> set (asciiUpper m)"
  then have "LF \<in> upChar ` set m" by (simp only: asciiUpper_def set_map)
  then obtain c where "upChar c = LF" "c \<in> set m" by (metis imageE)
  with m upChar_break show False by blast
qed

lemma signed_target:
  assumes "signingInput env req b = Some (k, d, sc, rs)" and "r \<in> set rs"
  shows "\<exists>rest. r = (case signedTarget env req of (m, u, q) \<Rightarrow> m @ [LF] @ u @ [LF] @ q @ [LF] @ rest)"
proof -
  obtain path query where t: "getRequestTarget req = (path, query)" by fastforce
  have c: "\<exists>rest. canonicalRequest m u q hs sh ph = asciiUpper m @ [LF] @ u @ [LF] @ q @ [LF] @ rest" for m u q hs sh ph
    by (simp add: canonicalRequest_def join_lines)
  show ?thesis using assms c t
    by (auto simp: signingInput_def signedTarget_def buildCanonicalRequest_def buildCanonicalRequestPresigned_def
      split: if_splits option.splits)
qed

lemma parsed_form: "parseSigningTime d = Some t \<Longrightarrow> signingForm d"
  by (simp add: parseSigningTime_def split: if_splits)

lemma presigned_form: "presignedValid now p \<Longrightarrow> signingForm (ps_date p)"
  by (auto simp: presignedValid_def Let_def dest: parsed_form split: if_splits option.splits)

lemma accepted_input:
  assumes "verifySignature env now req b = Some u"
  obtains k d sc rs r where "signingInput env req b = Some (k, d, sc, rs)" "r \<in> set rs" "signingForm d"
    "presentedSignature req = Some (toHex (ae_hmac env k (stringToSign env d sc r)))"
proof (cases "signedInHeader req")
  case True
  then show thesis using assms that
    by (auto simp: verifySignature_def verifyHeader_def signingInput_def presentedSignature_def calculateSignature_def Let_def
      dest: parsed_form split: option.splits if_splits)
next
  case False
  then show thesis using assms that
    by (auto simp: verifySignature_def verifyPresignedUrl_def signingInput_def presentedSignature_def calculateSignature_def presigned_form
      eq_commute [of "toHex bs" "ps_signature p" for bs p] split: option.splits if_splits)
qed

lemma toHex_inject: "toHex a = toHex c \<longleftrightarrow> a = c"
  by (metis fromHex_toHex)

lemma toHex_no_break: "LF \<notin> set (toHex bs)"
proof -
  have "unat w div 16 < 16" "unat w mod 16 < 16" for w :: "8 word" by (simp_all add: less_mult_imp_div_less)
  moreover have "n < 16 \<Longrightarrow> hexLower n \<noteq> LF" for n
    using hexLower_digit [of n] by (auto simp: baseDigit_def)
  ultimately show ?thesis by (auto simp: toHex_def dest: sym)
qed

lemma stringToSign_inject:
  assumes "length d = 16" and "length d' = 16" and eq: "stringToSign env d sc r = stringToSign env d' sc' r'"
  shows "d = d' \<and> sc = sc' \<and> ae_sha256 env r = ae_sha256 env r'"
proof -
  have s: "stringToSign env d sc r = ''AWS4-HMAC-SHA256'' @ [LF] @ d @ [LF] @ sc @ [LF] @ toHex (ae_sha256 env r)" for d sc r
    by (simp add: stringToSign_def join_lines) (simp add: jsJoin_def)
  from eq assms(1,2) have d: "d = d'" and e: "sc @ [LF] @ toHex (ae_sha256 env r) = sc' @ [LF] @ toHex (ae_sha256 env r')"
    unfolding s by auto
  from e have "rev (toHex (ae_sha256 env r)) @ [LF] @ rev sc = rev (toHex (ae_sha256 env r')) @ [LF] @ rev sc'"
    by (metis append_assoc rev_append rev_singleton_conv)
  then show ?thesis using d by (subst (asm) first_line) (auto simp: toHex_no_break toHex_inject)
qed

text \<open>
  C37. What a signature binds: two requests that are accepted with the same signature name the same method, path and query, the parameters in
  any order and however they are escaped, with the same date and scope, and are signed with the same key. That SHA-256 and the HMAC have no
  collision is asked of the texts the two verifications compute only.
\<close>
theorem signature_binds:
  assumes "verifySignature env now req b = Some u" and "verifySignature env now' req' b' = Some u'"
    and "presentedSignature req = presentedSignature req'"
    and "inj_on (case_prod (ae_hmac env)) (signedMessages env req b \<union> signedMessages env req' b')"
    and "inj_on (ae_sha256 env) (hashedRequests env req b \<union> hashedRequests env req' b')"
    and "LF \<notin> set (aq_method req)" and "LF \<notin> set (aq_method req')"
  shows "signedTarget env req = signedTarget env req' \<and>
    (\<exists>k d sc rs rs'. signingInput env req b = Some (k, d, sc, rs) \<and> signingInput env req' b' = Some (k, d, sc, rs'))"
proof -
  obtain k d sc rs r where a: "signingInput env req b = Some (k, d, sc, rs)" "r \<in> set rs" "signingForm d"
    "presentedSignature req = Some (toHex (ae_hmac env k (stringToSign env d sc r)))" using assms(1) by (rule accepted_input)
  obtain k' d' sc' rs' r' where a': "signingInput env req' b' = Some (k', d', sc', rs')" "r' \<in> set rs'" "signingForm d'"
    "presentedSignature req' = Some (toHex (ae_hmac env k' (stringToSign env d' sc' r')))" using assms(2) by (rule accepted_input)
  have "ae_hmac env k (stringToSign env d sc r) = ae_hmac env k' (stringToSign env d' sc' r')"
    using a(4) a'(4) assms(3) by (simp add: toHex_inject)
  moreover have "(k, stringToSign env d sc r) \<in> signedMessages env req b" "(k', stringToSign env d' sc' r') \<in> signedMessages env req' b'"
    using a a' by (auto simp: signedMessages_def)
  ultimately have m: "k = k'" "stringToSign env d sc r = stringToSign env d' sc' r'"
    using inj_onD [OF assms(4), of "(k, stringToSign env d sc r)" "(k', stringToSign env d' sc' r')"] by auto
  have s: "d = d' \<and> sc = sc' \<and> ae_sha256 env r = ae_sha256 env r'"
    using a(3) a'(3) m(2) by (intro stringToSign_inject) (simp_all add: signingForm_def)
  have "r = r'" using s a(1,2) a'(1,2) by (intro inj_onD [OF assms(5)]) (auto simp: hashedRequests_def)
  with signed_target [OF a(1,2)] signed_target [OF a'(1,2)] have "signedTarget env req = signedTarget env req'"
    using assms(6,7) asciiUpper_break [of "aq_method req"] asciiUpper_break [of "aq_method req'"] uri_no_break query_no_break
    by (auto simp: signedTarget_def first_line [simplified] split: prod.splits)
  with a a' m s show ?thesis by auto
qed

definition signedDemo :: "string \<Rightarrow> string \<Rightarrow> string \<Rightarrow> auth_request" where
  "signedDemo method url agent = \<lparr>aq_method = method, aq_url = url, aq_headers = map_of [
     (''authorization'', ''AWS4-HMAC-SHA256 Credential=AK/20240501/eu/s3/aws4_request, SignedHeaders=host, Signature=0240''),
     (''host'', ''h''), (''x-amz-date'', ''20240501T120000Z''), (''user-agent'', agent)]\<rparr>"

definition authDemo :: auth_env where
  "authDemo = \<lparr>ae_hmac = (\<lambda>k m. [of_nat (length k), of_nat (length m)]), ae_sha256 = (\<lambda>m. [of_nat (length m)]),
     ae_collate = (\<lambda>a b. length a \<le> length b), ae_urlOk = (\<lambda>_ _. True), ae_masterSecret = None, ae_cipher = demoCipher, ae_inverse = demoCipher\<rparr>"

definition credDemo :: backend where
  "credDemo = emptyBackend\<lparr>bk_creds := [\<lparr>crd_id = ''c1'', crd_userId = ''u1'', crd_accessKeyId = ''AK'', crd_secretAccessKey = ''s'',
     crd_label = ''Default'', crd_isActive = True\<rparr>]\<rparr>"

theorem signature_binds_witness:
  "signedTarget authDemo (signedDemo ''GET'' ''/b/k?x=1'' ''curl'') = signedTarget authDemo (signedDemo ''get'' ''/%62/k?%78=1'' ''rclone'')"
proof -
  let ?a = "signedDemo ''GET'' ''/b/k?x=1'' ''curl''" and ?c = "signedDemo ''get'' ''/%62/k?%78=1'' ''rclone''"
  have 1: "verifySignature authDemo 1714564800005 ?a credDemo = Some ''u1''" by code_simp
  have 2: "verifySignature authDemo 1714565700000 ?c credDemo = Some ''u1''" by code_simp
  have 3: "presentedSignature ?a = presentedSignature ?c" by code_simp
  have i: "signingInput authDemo ?c credDemo = signingInput authDemo ?a credDemo" by code_simp
  have "map_option (\<lambda>(k, d, sc, rs). length rs) (signingInput authDemo ?a credDemo) = Some (Suc 0)" by code_simp
  then obtain k d sc r where x: "signingInput authDemo ?a credDemo = Some (k, d, sc, [r])"
    by (cases "signingInput authDemo ?a credDemo") (auto simp: length_Suc_conv)
  have 4: "inj_on (case_prod (ae_hmac authDemo)) (signedMessages authDemo ?a credDemo \<union> signedMessages authDemo ?c credDemo)"
    by (simp add: signedMessages_def i x)
  have 5: "inj_on (ae_sha256 authDemo) (hashedRequests authDemo ?a credDemo \<union> hashedRequests authDemo ?c credDemo)"
    by (simp add: hashedRequests_def i x)
  have 6: "LF \<notin> set (aq_method ?a)" "LF \<notin> set (aq_method ?c)" by (simp_all add: signedDemo_def)
  show ?thesis using signature_binds [OF 1 2 3 4 5 6] by (rule conjunct1)
qed

subsection \<open>Requests an AWS client signs\<close>

text \<open>The order AWS sorts by, the code points of the encoded text.\<close>

fun codeLe :: "string \<Rightarrow> string \<Rightarrow> bool" where
  "codeLe [] t = True"
| "codeLe (c # s) [] = False"
| "codeLe (c # s) (d # t) = (byte c < byte d \<or> c = d \<and> codeLe s t)"

text \<open>
  Signature version 4 as AWS documents it, for a path of \<open>segments\<close>, parameters \<open>params\<close>, signed headers \<open>headers\<close> with
  lower-case names and plain values, and the text \<open>payload\<close> of \<^verbatim>\<open>x-amz-content-sha256\<close>.
\<close>

record aws_client =
  aw_method :: string
  aw_segments :: "string list"
  aw_params :: "(string \<times> string) list"
  aw_headers :: "(string \<times> string) list"
  aw_payload :: string
  aw_dateTime :: string
  aw_scope :: "string list"

definition encodePair :: "string \<times> string \<Rightarrow> string \<times> string" where
  "encodePair p = (awsUriEncode (fst p), awsUriEncode (snd p))"

definition awsQuery :: "aws_client \<Rightarrow> string" where
  "awsQuery w = joinPairs (sortPairs (pairLe codeLe) (map encodePair (aw_params w)))"

definition awsRequest :: "aws_client \<Rightarrow> string" where
  "awsRequest w = aw_method w @ [LF] @ jsJoin ''/'' ([] # map awsUriEncode (aw_segments w)) @ [LF] @ awsQuery w @ [LF] @
     concat (map (\<lambda>(n, v). n @ '':'' @ v @ [LF]) (aw_headers w)) @ [LF] @ jsJoin '';'' (map fst (aw_headers w)) @ [LF] @ aw_payload w"

definition awsSignature :: "auth_env \<Rightarrow> string \<Rightarrow> aws_client \<Rightarrow> string" where
  "awsSignature env secret w = toHex (ae_hmac env
     (foldl (ae_hmac env) (textBytes (''AWS4'' @ secret)) (aw_scope w @ [''aws4_request'']))
     (''AWS4-HMAC-SHA256'' @ [LF] @ aw_dateTime w @ [LF] @ jsJoin ''/'' (aw_scope w @ [''aws4_request'']) @ [LF] @
      toHex (ae_sha256 env (awsRequest w))))"

definition awsAuthorization :: "auth_env \<Rightarrow> string \<Rightarrow> string \<Rightarrow> aws_client \<Rightarrow> string" where
  "awsAuthorization env accessKeyId secret w = ''AWS4-HMAC-SHA256 Credential='' @ jsJoin ''/'' (accessKeyId # aw_scope w @ [''aws4_request'']) @
     '', SignedHeaders='' @ jsJoin '';'' (map fst (aw_headers w)) @ '', Signature='' @ awsSignature env secret w"

text \<open>What is sent: the parameters in any order, the headers with others.\<close>

definition awsSent :: "auth_env \<Rightarrow> string \<Rightarrow> string \<Rightarrow> aws_client \<Rightarrow> (string \<times> string) list \<Rightarrow> auth_request \<Rightarrow> bool" where
  "awsSent env accessKeyId secret w order req \<longleftrightarrow> aq_method req = aw_method w \<and> mset order = mset (aw_params w) \<and>
     aq_url req = jsJoin ''/'' ([] # map awsUriEncode (aw_segments w)) @ (if order = [] then [] else CHR ''?'' # joinPairs (map encodePair order)) \<and>
     (\<forall>(n, v) \<in> set (aw_headers w). aq_headers req n = Some v) \<and> aq_headers req ''x-amz-date'' = Some (aw_dateTime w) \<and>
     aq_headers req ''x-amz-content-sha256'' = Some (aw_payload w) \<and>
     aq_headers req ''authorization'' = Some (awsAuthorization env accessKeyId secret w)"

definition tokenText :: "string \<Rightarrow> bool" where
  "tokenText s \<longleftrightarrow> s \<noteq> [] \<and> list_all (\<lambda>c. graphic c \<and> c \<notin> set '',/=;:'') s"

definition awsReady :: "aws_client \<Rightarrow> bool" where
  "awsReady w \<longleftrightarrow> aw_segments w \<noteq> [] \<and> list_all validUtf8 (aw_segments w) \<and> list_all (\<lambda>(k, v). validUtf8 k \<and> validUtf8 v) (aw_params w) \<and>
     aw_headers w \<noteq> [] \<and> list_all (\<lambda>(n, v). tokenText n \<and> asciiLower n = n \<and> squeeze (jsTrim v) = v) (aw_headers w) \<and>
     asciiUpper (aw_method w) = aw_method w \<and> aw_payload w \<noteq> [] \<and> list_all tokenText (aw_scope w) \<and> length (aw_scope w) = 3"

definition collateAgrees :: "auth_env \<Rightarrow> aws_client \<Rightarrow> bool" where
  "collateAgrees env w \<longleftrightarrow> (let texts = map (fst \<circ> encodePair) (aw_params w) @ map (snd \<circ> encodePair) (aw_params w) in
     list_all (\<lambda>a. list_all (\<lambda>c. ae_collate env a c = codeLe a c) texts) texts)"

text \<open>What was encoded is decoded.\<close>

lemma utf8Front_take: "s \<noteq> [] \<Longrightarrow> utf8Front s = (True, n) \<Longrightarrow> utf8Front (take n s @ t) = (True, n)"
  by (cases s; cases "tl s"; cases "tl (tl s)"; cases "tl (tl (tl s))")
    (auto simp: utf8Front_def byteRange_def Let_def split: if_splits)

lemma utf8Front_high: "s \<noteq> [] \<Longrightarrow> utf8Front s = (True, n) \<Longrightarrow> 128 \<le> byte (hd s) \<Longrightarrow> c \<in> set (take n s) \<Longrightarrow> 128 \<le> byte c"
  by (cases s; cases "tl s"; cases "tl (tl s)"; cases "tl (tl (tl s))")
    (auto simp: utf8Front_def byteRange_def Let_def split: if_splits)

lemma utf8Front_one: "byte c < 128 \<Longrightarrow> utf8Front (c # s) = (True, 1)"
  by (simp add: utf8Front_def)

lemma encode_append: "awsUriEncode (s @ t) = awsUriEncode s @ awsUriEncode t"
  by (simp add: awsUriEncode_def encodeURIComponent_def)

definition escapedChars :: "string \<Rightarrow> bool" where
  "escapedChars s \<longleftrightarrow> list_all (\<lambda>c. listChar c = percentByte c) s"

lemma encode_escaped: "escapedChars s \<Longrightarrow> awsUriEncode s = concat (map percentByte s)"
  by (induction s) (simp_all add: escapedChars_def awsUriEncode_list encodeS3ListValue_Cons, simp add: encodeS3ListValue_def)

lemma percentByte_run: "escapedRun (percentByte c @ s) = c # escapedRun s"
proof -
  have "byte c div 16 < 16" by (simp add: less_mult_imp_div_less)
  moreover have "n < 16 \<Longrightarrow> baseDigit 16 (hexDigit n)" for n
    by (auto simp: baseDigit_def digitVal_def hexDigit_def of_char_of take_bit_nat_eq_self Let_def)
  ultimately show ?thesis by (simp add: percentByte_def Let_def percentDigit_val)
qed

lemma escaped_run: "escapedRun (concat (map percentByte u) @ s) = u @ escapedRun s"
  by (induction u) (simp_all add: percentByte_run)

lemma percentByte_length: "length (concat (map percentByte u)) = 3 * length u"
  by (induction u) (simp_all add: percentByte_def Let_def)

lemma decode_front:
  assumes "u \<noteq> []" and "escapedChars u" and "\<And>r. utf8Front (u @ r) = (True, length u)"
  shows "decodeURIComponent (awsUriEncode u @ s) = map_option ((@) u) (decodeURIComponent s)"
proof -
  have e: "awsUriEncode u @ s = concat (map percentByte u) @ s" using assms(2) by (simp add: encode_escaped)
  obtain r where r: "concat (map percentByte u) @ s = CHR ''%'' # r" using assms(1) by (cases u) (auto simp: percentByte_def Let_def)
  have run: "escapedRun (CHR ''%'' # r) = u @ escapedRun s" using escaped_run [of u s] r by simp
  have d: "drop (3 * length u) (CHR ''%'' # r) = s" unfolding r [symmetric] by (simp add: percentByte_length)
  show ?thesis unfolding e r
    by (subst decodeURIComponent.simps) (simp add: run d assms del: escapedRun.simps)
qed

lemma decode_plain: "listChar c = [c] \<Longrightarrow> c \<noteq> CHR ''%'' \<Longrightarrow> decodeURIComponent (awsUriEncode [c] @ s) = map_option ((#) c) (decodeURIComponent s)"
  by (simp add: awsUriEncode_list encodeS3ListValue_Cons) (simp add: encodeS3ListValue_def decodeURIComponent.simps [of "c # s"])

lemma decode_encoded: "validUtf8 s \<Longrightarrow> decodeURIComponent (awsUriEncode s) = Some s"
proof (induction s rule: validUtf8.induct)
  case (1 s)
  show ?case
  proof (cases "s = []")
    case True
    then show ?thesis by (simp add: awsUriEncode_def decodeURIComponent.simps)
  next
    case False
    obtain ok n where x: "utf8Front s = (ok, n)" by fastforce
    with 1(2) False have ok: "ok" "validUtf8 (drop n s)" by (subst (asm) validUtf8.simps, simp split: if_splits)+
    with 1(1) [OF False x [symmetric]] have ih: "decodeURIComponent (awsUriEncode (drop n s)) = Some (drop n s)" by simp
    have n: "0 < n" "n \<le> length s" using x utf8Front_pos [OF False] utf8Front_bound [of s] by simp_all
    have split: "awsUriEncode s = awsUriEncode (take n s) @ awsUriEncode (drop n s)"
      using encode_append [of "take n s" "drop n s"] by simp
    show ?thesis
    proof (cases "escapedChars (take n s)")
      case True
      have "decodeURIComponent (awsUriEncode s) = map_option ((@) (take n s)) (Some (drop n s))"
        unfolding split ih [symmetric]
        using False n ok x True utf8Front_take [OF False, of n] by (intro decode_front) simp_all
      then show ?thesis by simp
    next
      case no: False
      obtain c r where s: "s = c # r" using False by (cases s) auto
      have "uriUnreserved d \<Longrightarrow> byte d < 128" for d
        by (auto simp: uriUnreserved_def Let_def)
      then have high: "128 \<le> byte d \<Longrightarrow> listChar d = percentByte d" for d by (force simp: listChar_def)
      have low: "byte c < 128"
      proof (rule ccontr)
        assume "\<not> byte c < 128"
        with utf8Front_high [OF False, of n] x ok s high have "escapedChars (take n s)" by (simp add: escapedChars_def list_all_iff)
        with no show False by simp
      qed
      with x s have n1: "n = 1" by (simp add: utf8Front_one)
      with no s have "listChar c = [c]" "c \<noteq> CHR ''%''"
        by (auto simp: escapedChars_def listChar_def uriUnreserved_def Let_def split: if_splits)
      with decode_plain [of c "awsUriEncode r"] ih split s n1 show ?thesis by simp
    qed
  qed
qed

text \<open>The parameters in AWS's order, whatever the order they come in.\<close>

lemma codeLe_linear: "codeLe a c \<or> codeLe c a" "codeLe a c \<Longrightarrow> codeLe c a \<Longrightarrow> a = c"
    "codeLe a c \<Longrightarrow> codeLe c d \<Longrightarrow> codeLe a d" "codeLe a a"
proof -
  have inj: "byte x = byte y \<Longrightarrow> x = y" for x y :: char by simp
  show "codeLe a c \<or> codeLe c a"
    by (induction a c rule: codeLe.induct) (auto dest: inj simp: not_less_iff_gr_or_eq)
  show "codeLe a c \<Longrightarrow> codeLe c a \<Longrightarrow> a = c"
  proof (induction a c rule: codeLe.induct)
    case (1 t)
    then show ?case by (cases t) auto
  qed auto
  show "codeLe a c \<Longrightarrow> codeLe c d \<Longrightarrow> codeLe a d"
  proof (induction a c arbitrary: d rule: codeLe.induct)
    case (3 x s y t)
    then show ?case by (cases d) auto
  qed auto
  show "codeLe a a" by (induction a) auto
qed

lemma pairLe_linear: "pairLe codeLe a c \<or> pairLe codeLe c a" "pairLe codeLe a c \<Longrightarrow> pairLe codeLe c a \<Longrightarrow> a = c"
    "pairLe codeLe a c \<Longrightarrow> pairLe codeLe c d \<Longrightarrow> pairLe codeLe a d"
  using codeLe_linear by (auto simp: pairLe_def prod_eq_iff split: if_splits)

lemma insertPair_mset: "mset (insertPair le x xs) = add_mset x (mset xs)"
  by (induction xs) auto

lemma sortPairs_mset: "mset (sortPairs le xs) = mset xs"
  by (induction xs) (simp_all add: sortPairs_def insertPair_mset)

lemma insertPair_sorted: "sorted_wrt (pairLe codeLe) xs \<Longrightarrow> sorted_wrt (pairLe codeLe) (insertPair (pairLe codeLe) x xs)"
proof (induction xs)
  case (Cons y ys)
  then show ?case using pairLe_linear(1) [of x y] by (auto simp: insertPair_set intro: pairLe_linear(3))
qed simp

lemma sortPairs_sorted: "sorted_wrt (pairLe codeLe) (sortPairs (pairLe codeLe) xs)"
  by (induction xs) (simp_all add: sortPairs_def insertPair_sorted)

lemma sorted_unique: "sorted_wrt (pairLe codeLe) xs \<Longrightarrow> sorted_wrt (pairLe codeLe) ys \<Longrightarrow> mset xs = mset ys \<Longrightarrow> xs = ys"
proof (induction xs arbitrary: ys)
  case (Cons x xs)
  obtain y ys' where y: "ys = y # ys'" using Cons.prems(3) by (cases ys) auto
  have "x \<in> set ys" "y \<in> set (x # xs)" using mset_eq_setD [OF Cons.prems(3)] y by auto
  with Cons.prems(1,2) y have "x = y" by (auto dest: pairLe_linear(2))
  with Cons y show ?case by simp
qed simp

lemma insertPair_cong: "(\<And>y. y \<in> set xs \<Longrightarrow> le x y = le' x y) \<Longrightarrow> insertPair le x xs = insertPair le' x xs"
  by (induction xs) auto

lemma sortPairs_cong: "(\<And>x y. x \<in> set xs \<Longrightarrow> y \<in> set xs \<Longrightarrow> le x y = le' x y) \<Longrightarrow> sortPairs le xs = sortPairs le' xs"
proof (induction xs)
  case (Cons x xs)
  then have ih: "sortPairs le xs = sortPairs le' xs" by simp
  have "insertPair le x (sortPairs le' xs) = insertPair le' x (sortPairs le' xs)"
    using Cons.prems by (intro insertPair_cong) (auto simp: sortPairs_set)
  with ih show ?case by (simp add: sortPairs_def)
qed (simp add: sortPairs_def)

lemma sort_any_order:
  assumes "mset xs = mset ys" and "\<And>x y. x \<in> set ys \<Longrightarrow> y \<in> set ys \<Longrightarrow> le x y = pairLe codeLe x y"
  shows "sortPairs le xs = sortPairs (pairLe codeLe) ys"
proof -
  have "sortPairs le xs = sortPairs (pairLe codeLe) xs"
    using assms(2) mset_eq_setD [OF assms(1)] by (intro sortPairs_cong) auto
  also have "\<dots> = sortPairs (pairLe codeLe) ys"
    by (intro sorted_unique sortPairs_sorted) (simp add: sortPairs_mset assms(1))
  finally show ?thesis .
qed

text \<open>The parts of the canonical request.\<close>

lemma encoded_chars: "c \<in> set '' /?&=,:;'' \<Longrightarrow> c \<notin> set (awsUriEncode s)"
  using encoded_plain [of c s] by (auto simp: uriUnreserved_def Let_def)

lemma safe_encoded: "validUtf8 s \<Longrightarrow> safeDecodeURIComponent (awsUriEncode s) = s"
  by (simp add: safeDecodeURIComponent_def decode_encoded)

lemma canonical_uri:
  assumes "list_all validUtf8 segments" and "segments \<noteq> []"
  shows "buildCanonicalUri (jsJoin ''/'' ([] # map awsUriEncode segments)) = jsJoin ''/'' ([] # map awsUriEncode segments)"
proof -
  let ?ws = "[] # map awsUriEncode segments"
  have "CHR ''/'' \<notin> set v" if "v \<in> set ?ws" for v using that encoded_chars [of "CHR ''/''"] by auto
  then have "jsSplit (CHR ''/'') (jsJoin ''/'' ?ws) = ?ws" by (intro jsSplit_joined) simp_all
  moreover have "jsJoin ''/'' ?ws \<noteq> []" using assms(2) by (cases segments) (simp_all add: jsJoin_def)
  moreover have "map (awsUriEncode \<circ> safeDecodeURIComponent) ?ws = ?ws"
    using assms(1) by (auto simp: list_all_iff safe_encoded) (simp add: safeDecodeURIComponent_def decodeURIComponent.simps awsUriEncode_def)
  ultimately show ?thesis by (simp add: buildCanonicalUri_def del: list.map map_map)
qed

lemma join_pairs_split:
  assumes "ps \<noteq> []"
  shows "jsSplit (CHR ''&'') (joinPairs (map encodePair ps)) = map (\<lambda>(k, v). k @ CHR ''='' # v) (map encodePair ps)"
  unfolding joinPairs_def
proof (rule jsSplit_joined)
  fix v assume "v \<in> set (map (\<lambda>(k, v). k @ CHR ''='' # v) (map encodePair ps))"
  then show "CHR ''&'' \<notin> set v" using encoded_chars [of "CHR ''&''"] by (auto simp: encodePair_def)
qed (use assms in simp)

lemma canonical_query:
  assumes ps: "list_all (\<lambda>(k, v). validUtf8 k \<and> validUtf8 v) ps" and key: "x \<notin> Some ` fst ` set ps"
  shows "buildCanonicalQueryString env (joinPairs (map encodePair ps)) x = joinPairs (sortPairs (pairLe (ae_collate env)) (map encodePair ps))"
proof (cases "ps = []")
  case False
  let ?parts = "map (\<lambda>(k, v). k @ CHR ''='' # v) (map encodePair ps)"
  have f: "filter (\<lambda>part. part \<noteq> []) ?parts = ?parts" by (auto simp: filter_id_conv encodePair_def)
  have cut: "queryPart (k @ CHR ''='' # v) = (k, v)" if "(k, v) \<in> set (map encodePair ps)" for k v
    using that encoded_chars [of "CHR ''=''"] by (auto simp: queryPart_def encodePair_def jsCut_append)
  have "map (\<lambda>part. case queryPart part of (k, v) \<Rightarrow> (safeDecodeURIComponent k, safeDecodeURIComponent v)) ?parts = ps"
  proof -
    have "(case queryPart (case encodePair p of (k, v) \<Rightarrow> k @ CHR ''='' # v) of (k, v) \<Rightarrow> (safeDecodeURIComponent k, safeDecodeURIComponent v)) = p"
      if "p \<in> set ps" for p
      using that ps cut [of "fst (encodePair p)" "snd (encodePair p)"] by (auto simp: list_all_iff encodePair_def safe_encoded)
    then show ?thesis by (simp add: map_idI)
  qed
  moreover have "filter (\<lambda>(k, v). Some k \<noteq> x) ps = ps" using key by (force simp: filter_id_conv)
  moreover have "map (\<lambda>(k, v). (awsUriEncode k, awsUriEncode v)) ps = map encodePair ps" by (auto simp: encodePair_def)
  moreover have "joinPairs (map encodePair ps) \<noteq> []" using False by (cases ps) (simp_all add: joinPairs_def jsJoin_def split_beta)
  ultimately show ?thesis by (simp add: buildCanonicalQueryString_def Let_def join_pairs_split [OF False] f del: map_map map_eq_conv)
qed (simp add: buildCanonicalQueryString_def joinPairs_def jsJoin_def sortPairs_def)

lemma header_lines: "hs \<noteq> [] \<Longrightarrow> jsJoin [LF] (map (\<lambda>(n, v). n @ '':'' @ v) hs) @ [LF] = concat (map (\<lambda>(n, v). n @ '':'' @ v @ [LF]) hs)"
  by (induction hs rule: induct_list012) (auto simp: jsJoin_def)

lemma canonical_headers:
  assumes "hs \<noteq> []" and "\<forall>(n, v) \<in> set hs. aq_headers req n = Some v"
    and "list_all (\<lambda>(n, v). tokenText n \<and> asciiLower n = n \<and> squeeze (jsTrim v) = v) hs"
  shows "canonicalHeaders req (map fst hs) (\<lambda>_. None) @ [LF] = concat (map (\<lambda>(n, v). n @ '':'' @ v @ [LF]) hs)"
proof -
  have "map (\<lambda>h. let name = asciiLower h in name @ CHR '':'' # normalizeHeaderValue (aq_headers req name)) (map fst hs) =
    map (\<lambda>(n, v). n @ '':'' @ v) hs" using assms(2,3) by (fastforce simp: list_all_iff normalizeHeaderValue_def Let_def)
  then have "canonicalHeaders req (map fst hs) (\<lambda>_. None) = jsJoin [LF] (map (\<lambda>(n, v). n @ '':'' @ v) hs)"
    by (simp add: canonicalHeaders_def del: map_map map_eq_conv)
  with header_lines [OF assms(1)] show ?thesis by simp
qed

lemma request_target:
  assumes "CHR ''?'' \<notin> set path" and "path \<noteq> []"
  shows "aq_url req = path @ (if q = [] then [] else CHR ''?'' # q) \<Longrightarrow> getRequestTarget req = (path, q)"
proof -
  have "jsCut (CHR ''?'') path = None" using assms(1) by (induction path) auto
  then show "aq_url req = path @ (if q = [] then [] else CHR ''?'' # q) \<Longrightarrow> getRequestTarget req = (path, q)"
    using assms by (auto simp: getRequestTarget_def jsCut_append)
qed

lemma aws_canonical_request:
  assumes sent: "awsSent env ak secret w order req" and ready: "awsReady w" and agrees: "collateAgrees env w"
  shows "buildCanonicalRequest env req (map fst (aw_headers w)) (\<lambda>_. None) = awsRequest w"
proof -
  let ?path = "jsJoin ''/'' ([] # map awsUriEncode (aw_segments w))"
  have r: "aw_segments w \<noteq> []" "list_all validUtf8 (aw_segments w)" "list_all (\<lambda>(k, v). validUtf8 k \<and> validUtf8 v) (aw_params w)"
    "aw_headers w \<noteq> []" "list_all (\<lambda>(n, v). tokenText n \<and> asciiLower n = n \<and> squeeze (jsTrim v) = v) (aw_headers w)"
    "asciiUpper (aw_method w) = aw_method w" "aw_payload w \<noteq> []" using ready by (simp_all add: awsReady_def)
  have s: "aq_method req = aw_method w" "mset order = mset (aw_params w)" "\<forall>(n, v) \<in> set (aw_headers w). aq_headers req n = Some v"
    "aq_url req = ?path @ (if order = [] then [] else CHR ''?'' # joinPairs (map encodePair order))"
    "aq_headers req ''x-amz-content-sha256'' = Some (aw_payload w)" using sent by (simp_all add: awsSent_def)
  have o: "list_all (\<lambda>(k, v). validUtf8 k \<and> validUtf8 v) order" using r(3) mset_eq_setD [OF s(2)] by (simp add: list_all_iff)
  have q: "joinPairs (map encodePair order) = [] \<longleftrightarrow> order = []" by (cases order) (simp_all add: joinPairs_def jsJoin_def split_beta)
  have "set ?path \<subseteq> insert (CHR ''/'') (\<Union>v. set (awsUriEncode v))" using jsJoin_set [of "''/''"] by fastforce
  then have "CHR ''?'' \<notin> set ?path" using encoded_chars [of "CHR ''?''"] by auto
  moreover have "?path \<noteq> []" using r(1) by (cases "aw_segments w") (simp_all add: jsJoin_def)
  ultimately have t: "getRequestTarget req = (?path, joinPairs (map encodePair order))"
    by (rule request_target) (simp add: s(4) q)
  have "sortPairs (pairLe (ae_collate env)) (map encodePair order) = sortPairs (pairLe codeLe) (map encodePair (aw_params w))"
  proof (rule sort_any_order)
    fix x y assume "x \<in> set (map encodePair (aw_params w))" "y \<in> set (map encodePair (aw_params w))"
    then show "pairLe (ae_collate env) x y = pairLe codeLe x y"
      using agrees by (auto simp: collateAgrees_def Let_def list_all_iff pairLe_def)
  qed (simp add: s(2))
  then have "buildCanonicalQueryString env (joinPairs (map encodePair order)) None = awsQuery w"
    using canonical_query [OF o, of None env] by (simp add: awsQuery_def image_iff)
  then show ?thesis
    using r(6,7) s canonical_headers [OF r(4) s(3) r(5)] t canonical_uri [OF r(2,1)]
    by (simp add: buildCanonicalRequest_def canonicalRequest_def awsRequest_def join_lines present_def jsJoin_def [of "[LF]" "[_]"])
qed

text \<open>The header is read as it was written.\<close>

lemma trim_graphic: "list_all graphic s \<Longrightarrow> jsTrim s = s" "list_all graphic s \<Longrightarrow> jsTrim (CHR '' '' # s) = s"
proof -
  have w: "\<not> jsWhite c" if "graphic c" for c using that by (auto simp: graphic_def jsWhite_def)
  have d: "list_all graphic r \<Longrightarrow> dropWhile jsWhite r = r" for r using w by (cases r) auto
  show "list_all graphic s \<Longrightarrow> jsTrim s = s" using d [of s] d [of "rev s"] by (simp add: jsTrim_def)
  moreover have "jsTrim (CHR '' '' # s) = jsTrim s" by (simp add: jsTrim_def jsWhite_def)
  ultimately show "list_all graphic s \<Longrightarrow> jsTrim (CHR '' '' # s) = s" by simp
qed

definition fieldText :: "string \<Rightarrow> bool" where
  "fieldText s \<longleftrightarrow> list_all (\<lambda>c. graphic c \<and> c \<noteq> CHR '','') s"

lemma fieldText_graphic: "fieldText s \<Longrightarrow> list_all graphic s" "fieldText s \<Longrightarrow> CHR '','' \<notin> set s"
  by (auto simp: fieldText_def list_all_iff)

lemma header_fields:
  assumes "fieldText a" and "fieldText h" and "fieldText g"
  shows "headerFields (''Credential='' @ a @ '', SignedHeaders='' @ h @ '', Signature='' @ g) =
    [(''Credential'', a), (''SignedHeaders'', h), (''Signature'', g)]"
proof -
  have "jsSplit (CHR '','') (''Credential='' @ a @ '', SignedHeaders='' @ h @ '', Signature='' @ g) =
      [''Credential='' @ a, '' SignedHeaders='' @ h, '' Signature='' @ g]"
    using jsSplit_prefix [of "CHR '',''" "''Credential='' @ a"] jsSplit_prefix [of "CHR '',''" "'' SignedHeaders='' @ h"]
      jsSplit_none [of "CHR '',''" "'' Signature='' @ g"] fieldText_graphic(2) [OF assms(1)] fieldText_graphic(2) [OF assms(2)]
      fieldText_graphic(2) [OF assms(3)] by simp
  moreover have "jsTrim ''Credential'' = ''Credential''" "jsTrim '' SignedHeaders'' = ''SignedHeaders''" "jsTrim '' Signature'' = ''Signature''"
    by code_simp+
  ultimately show ?thesis
    using trim_graphic(1) [OF fieldText_graphic(1) [OF assms(1)]] trim_graphic(1) [OF fieldText_graphic(1) [OF assms(2)]]
      trim_graphic(1) [OF fieldText_graphic(1) [OF assms(3)]]
    by (simp add: headerFields_def)
qed

lemma tokenText_chars: "tokenText s \<Longrightarrow> fieldText s \<and> s \<noteq> [] \<and> CHR ''/'' \<notin> set s \<and> CHR '';'' \<notin> set s"
  by (auto simp: tokenText_def fieldText_def list_all_iff)

lemma fieldText_join: "list_all fieldText ws \<Longrightarrow> fieldText d \<Longrightarrow> fieldText (jsJoin d ws)"
  using jsJoin_set [of d ws] by (fastforce simp: fieldText_def list_all_iff)

lemma fieldText_hex: "fieldText (toHex bs)"
proof -
  have "unat w div 16 < 16" "unat w mod 16 < 16" for w :: "8 word" by (simp_all add: less_mult_imp_div_less)
  moreover have "n < 16 \<Longrightarrow> graphic (hexLower n) \<and> hexLower n \<noteq> CHR '',''" for n
    using hexLower_digit [of n] by (auto simp: baseDigit_def graphic_def Let_def)
  ultimately show ?thesis by (auto simp: toHex_def fieldText_def list_all_iff)
qed

lemma jsJoin_nonempty: "ws \<noteq> [] \<Longrightarrow> hd ws \<noteq> [] \<Longrightarrow> jsJoin d ws \<noteq> []"
  by (cases ws) (simp_all add: jsJoin_def)

lemma parse_fields:
  assumes "fieldText a" "fieldText h" "fieldText g" and "a \<noteq> []" "h \<noteq> []" "g \<noteq> []"
    and "credentialFields a = Some (ak, d, r, v, sc)" and "jsSplit (CHR '';'') h = names"
  shows "parseAuthHeader (''AWS4-HMAC-SHA256 Credential='' @ a @ '', SignedHeaders='' @ h @ '', Signature='' @ g) =
    Some \<lparr>ah_accessKeyId = ak, ah_credentialScope = sc, ah_signedHeaders = names, ah_signature = g, ah_date = d, ah_region = r, ah_service = v\<rparr>"
proof -
  let ?t = "''Credential='' @ a @ '', SignedHeaders='' @ h @ '', Signature='' @ g"
  have "drop (length ''AWS4-HMAC-SHA256 '') (''AWS4-HMAC-SHA256 Credential='' @ a @ '', SignedHeaders='' @ h @ '', Signature='' @ g) = ?t"
    by simp
  moreover have "headerField ''Credential'' ?t = a" "headerField ''SignedHeaders'' ?t = h" "headerField ''Signature'' ?t = g"
    unfolding headerField_def header_fields [OF assms(1-3)] by simp_all
  ultimately show ?thesis unfolding parseAuthHeader_def Let_def using assms(4-8) by (simp only:) simp
qed

lemma parsed_authorization:
  assumes "tokenText ak" and "list_all tokenText scope" and "length scope = 3" and "list_all tokenText names" and "names \<noteq> []" and "bs \<noteq> []"
  shows "parseAuthHeader (''AWS4-HMAC-SHA256 Credential='' @ jsJoin ''/'' (ak # scope @ [''aws4_request'']) @ '', SignedHeaders='' @
      jsJoin '';'' names @ '', Signature='' @ toHex bs) =
    Some \<lparr>ah_accessKeyId = ak, ah_credentialScope = jsJoin ''/'' (scope @ [''aws4_request'']), ah_signedHeaders = names, ah_signature = toHex bs,
      ah_date = scope ! 0, ah_region = scope ! 1, ah_service = scope ! 2\<rparr>"
proof -
  let ?cs = "ak # scope @ [''aws4_request'']" and ?g = "toHex bs"
  have aws: "fieldText ''aws4_request''" "CHR ''/'' \<notin> set ''aws4_request''" "fieldText ''/''" "fieldText '';''"
    by (simp_all add: fieldText_def graphic_def)
  have c: "fieldText (jsJoin ''/'' ?cs)" using assms(1,2) aws by (intro fieldText_join) (auto simp: list_all_iff tokenText_chars)
  have h: "fieldText (jsJoin '';'' names)" using assms(4) aws by (intro fieldText_join) (auto simp: list_all_iff tokenText_chars)
  have cs: "jsSplit (CHR ''/'') (jsJoin ''/'' ?cs) = ?cs"
    using assms(1,2) aws(2) by (intro jsSplit_joined) (auto simp: list_all_iff tokenText_chars)
  have hs: "jsSplit (CHR '';'') (jsJoin '';'' names) = names"
    using assms(4,5) by (intro jsSplit_joined) (auto simp: list_all_iff tokenText_chars)
  have ne: "jsJoin ''/'' ?cs \<noteq> []" "jsJoin '';'' names \<noteq> []" "?g \<noteq> []"
  proof -
    have "hd names \<noteq> []" using assms(4,5) by (cases names) (auto simp: tokenText_def)
    then show "jsJoin '';'' names \<noteq> []" by (rule jsJoin_nonempty [OF assms(5)])
    show "jsJoin ''/'' ?cs \<noteq> []" using assms(1) by (intro jsJoin_nonempty) (auto simp: tokenText_def)
    show "?g \<noteq> []" using assms(6) by (cases bs) (simp_all add: toHex_def)
  qed
  obtain d r v where sc: "scope = [d, r, v]" using assms(3) by (auto simp: length_Suc_conv numeral_3_eq_3)
  have "credentialFields (jsJoin ''/'' ?cs) = Some (ak, scope ! 0, scope ! 1, scope ! 2, jsJoin ''/'' (scope @ [''aws4_request'']))"
    using cs by (simp add: credentialFields_def sc)
  from parse_fields [OF c h fieldText_hex ne this hs] show ?thesis .
qed


definition clientDemo :: aws_client where
  "clientDemo = \<lparr>aw_method = ''GET'', aw_segments = [''b'', ''a +'' @ [char_of (195 :: nat), char_of (169 :: nat)]],
     aw_params = [(''prefix'', ''x/y''), (''delimiter'', ''/''), (''list-type'', ''2'')], aw_headers = [(''host'', ''h:80''), (''x-amz-date'', ''20240501T120000Z'')],
     aw_payload = ''UNSIGNED-PAYLOAD'', aw_dateTime = ''20240501T120000Z'', aw_scope = [''20240501'', ''eu'', ''s3'']\<rparr>"

definition clientEnv :: auth_env where
  "clientEnv = authDemo\<lparr>ae_collate := codeLe\<rparr>"

definition sentDemo :: auth_request where
  "sentDemo = \<lparr>aq_method = ''GET'', aq_url = ''/b/a%20%2B%C3%A9?prefix=x%2Fy&list-type=2&delimiter=%2F'', aq_headers = map_of [
     (''authorization'', awsAuthorization clientEnv ''AK'' ''s'' clientDemo), (''host'', ''h:80''), (''x-amz-date'', ''20240501T120000Z''),
     (''x-amz-content-sha256'', ''UNSIGNED-PAYLOAD'')]\<rparr>"


subsection \<open>Credentials\<close>

definition keyLetters :: string where
  "keyLetters = ''ABCDEFGHIJKLMNOPQRSTUVWXYZ0123456789''"

text \<open>\<open>picks\<close> are the sixteen random indices, \<open>bytes\<close> the thirty random bytes.\<close>

definition generateAccessKeyId :: "nat list \<Rightarrow> string" where
  "generateAccessKeyId picks = ''AKIA'' @ map (\<lambda>i. keyLetters ! (i mod length keyLetters)) (take 16 picks)"

definition generateSecretAccessKey :: "buffer \<Rightarrow> string" where
  "generateSecretAccessKey bytes = take 40 (base64urlEncode (spelled bytes))"

definition CRED_CACHE_PREFIX :: string where "CRED_CACHE_PREFIX = ''s3:cred:''"
definition CRED_CACHE_TTL_SEC :: int where "CRED_CACHE_TTL_SEC = 900"

text \<open>The value of a cached key and the time it expires, in seconds; \<open>up\<close> is whether the call to Redis succeeds.\<close>

record cred_state =
  cs_backend :: backend
  cs_redis :: "string \<Rightarrow> (string \<times> int) option"

record shown_credential =
  sc_id :: string
  sc_accessKeyId :: string
  sc_label :: string

definition listCredentials :: "string \<Rightarrow> backend \<Rightarrow> shown_credential list" where
  "listCredentials userId b = map (\<lambda>c. \<lparr>sc_id = crd_id c, sc_accessKeyId = crd_accessKeyId c, sc_label = crd_label c\<rparr>)
     (rev (filter (\<lambda>c. crd_userId c = userId \<and> crd_isActive c) (bk_creds b)))"

definition writeCache :: "bool \<Rightarrow> int \<Rightarrow> string \<Rightarrow> string \<Rightarrow> string \<Rightarrow> cred_state \<Rightarrow> cred_state" where
  "writeCache up now accessKeyId plainSecret userId s = (if \<not> up then s else s\<lparr>cs_redis := (cs_redis s)(CRED_CACHE_PREFIX @ accessKeyId \<mapsto>
     (jsonText (\<lambda>_. []) (JObj [(''accessKeyId'', JStr accessKeyId), (''secretAccessKey'', JStr plainSecret), (''userId'', JStr userId),
        (''isActive'', JBool True), (''found'', JBool True)]), now + CRED_CACHE_TTL_SEC))\<rparr>)"

definition evictCache :: "bool \<Rightarrow> string \<Rightarrow> cred_state \<Rightarrow> cred_state" where
  "evictCache up accessKeyId s = (if \<not> up then s else s\<lparr>cs_redis := (cs_redis s)(CRED_CACHE_PREFIX @ accessKeyId := None)\<rparr>)"

text \<open>The new row; the answer shows the secret once. Access keys are unique in the table.\<close>

definition createCredential ::
  "auth_env \<Rightarrow> nat list \<Rightarrow> buffer \<Rightarrow> buffer \<Rightarrow> string \<Rightarrow> bool \<Rightarrow> int \<Rightarrow> string \<Rightarrow> string option \<Rightarrow> cred_state \<Rightarrow>
     (backend_error + cred_row \<times> string) \<times> cred_state" where
  "createCredential env picks bytes iv newId up now userId label s =
    (let accessKeyId = generateAccessKeyId picks; plainSecret = generateSecretAccessKey bytes in
     case encryptSecret env iv plainSecret of None \<Rightarrow> (Inl (PlainError ''MASTER_SECRET environment variable is not set. S3 credential encryption requires it.''), s)
     | Some encryptedSecret \<Rightarrow>
         if accessKeyId \<in> set (map crd_accessKeyId (bk_creds (cs_backend s))) then (Inl PrismaP2002, s) else
         (let row = \<lparr>crd_id = newId, crd_userId = userId, crd_accessKeyId = accessKeyId, crd_secretAccessKey = encryptedSecret,
                crd_label = (if present label then the label else ''Default''), crd_isActive = True\<rparr>;
              b = (cs_backend s)\<lparr>bk_creds := bk_creds (cs_backend s) @ [row]\<rparr> in
          (Inr (row, plainSecret), writeCache up now accessKeyId plainSecret userId (s\<lparr>cs_backend := b\<rparr>))))"

definition deleteCredential :: "bool \<Rightarrow> string \<Rightarrow> string \<Rightarrow> cred_state \<Rightarrow> (backend_error + string) \<times> cred_state" where
  "deleteCredential up cid userId s = (case find (\<lambda>c. crd_id c = cid \<and> crd_userId c = userId) (bk_creds (cs_backend s)) of
     None \<Rightarrow> (Inl (NotFoundException ''Credential not found''), s)
   | Some credential \<Rightarrow>
       (let b = (cs_backend s)\<lparr>bk_creds := updateWhere (\<lambda>c. crd_id c = cid) (\<lambda>c. c\<lparr>crd_isActive := False\<rparr>) (bk_creds (cs_backend s))\<rparr> in
        (Inr ''Credential deactivated'', evictCache up (crd_accessKeyId credential) (s\<lparr>cs_backend := b\<rparr>))))"

text \<open>The guard of the public routes, with the path parameters of the request.\<close>

definition s3PublicGuard :: "string option \<Rightarrow> string option \<Rightarrow> int \<Rightarrow> settings_state \<Rightarrow> backend \<Rightarrow> (backend_error + string) \<times> settings_state" where
  "s3PublicGuard userId bucket now s b = (if \<not> present userId \<or> \<not> present bucket then (Inl (ForbiddenException ''AccessDenied''), s)
     else (let (enabled, s') = getCachedSetting ''S3_PUBLIC_ACCESS_ENABLED'' (FlagSetting True) (\<lambda>v. Some (FlagSetting (v \<noteq> ''false''))) None now s in
       if enabled \<noteq> FlagSetting True then (Inl (ForbiddenException ''AccessDenied''), s')
       else (case find (\<lambda>f. fld_userId f = the userId \<and> fld_name f = the bucket \<and> fld_parentId f = None \<and> fld_s3PublicAccess f \<and>
           fld_deletedAt f = None) (bk_folders b) of
         None \<Rightarrow> (Inl (ForbiddenException ''AccessDenied''), s') | Some _ \<Rightarrow> (Inr (the userId), s'))))"

subsection \<open>A stored secret comes back\<close>

lemma xorBytes_twice: "length p = length k \<Longrightarrow> xorBytes (xorBytes p k) k = p"
  by (induction p k rule: list_induct2) (simp_all add: xorBytes_def xor.assoc)

lemma xorBytes_length: "length (xorBytes p k) = min (length p) (length k)"
  by (simp add: xorBytes_def)

lemma batches_front: "length c = 16 \<Longrightarrow> batchesOf 16 (c @ r) = c # batchesOf 16 r"
  by (subst batchesOf.simps) auto

lemma cbc_round:
  assumes "\<And>x. length x = 16 \<Longrightarrow> length (E x) = 16 \<and> D (E x) = x"
  shows "length iv = 16 \<Longrightarrow> list_all (\<lambda>p. length p = 16) ps \<Longrightarrow> cbcDecrypt D iv (batchesOf 16 (cbcEncrypt E iv ps)) = concat ps"
proof (induction ps arbitrary: iv)
  case (Cons p ps)
  have x: "length (xorBytes p iv) = 16" using Cons.prems by (simp add: xorBytes_length)
  with Cons assms [OF x] show ?case by (simp add: batches_front xorBytes_twice Let_def)
qed (simp add: batchesOf.simps)

lemma cbc_length: "(\<And>x. length x = 16 \<Longrightarrow> length (E x) = 16) \<Longrightarrow> length iv = 16 \<Longrightarrow> list_all (\<lambda>p. length p = 16) ps \<Longrightarrow>
    length (cbcEncrypt E iv ps) = 16 * length ps"
  by (induction ps arbitrary: iv) (simp_all add: Let_def xorBytes_length)

lemma batches_exact: "length xs mod 16 = 0 \<Longrightarrow> list_all (\<lambda>p. length p = 16) (batchesOf 16 xs)"
proof (induction "16 :: nat" xs rule: batchesOf.induct)
  case (1 xs)
  show ?case
  proof (cases "xs = []")
    case False
    with 1(2) have "16 \<le> length xs" by (metis length_0_conv mod_less not_le_imp_less)
    with 1 False show ?thesis by (subst batchesOf.simps) (simp add: mod_if [of "length xs"])
  qed (simp add: batchesOf.simps)
qed

lemma padded_length: "length (padded bs) mod 16 = 0"
proof -
  have "(length bs + (16 - length bs mod 16)) mod 16 = 0" by presburger
  then show ?thesis by (simp add: padded_def Let_def)
qed

lemma unpadded_by: "0 < n \<Longrightarrow> n \<le> 16 \<Longrightarrow> (length bs + n) mod 16 = 0 \<Longrightarrow> unpadded (bs @ replicate n (of_nat n)) = Some bs"
proof -
  assume n: "0 < n" "n \<le> 16" "(length bs + n) mod 16 = 0"
  have "(bs @ replicate n (of_nat n)) ! (length bs + n - 1) = (of_nat n :: 8 word)"
    using n(1) nth_append_length_plus [of bs "replicate n (of_nat n)" "n - 1"] by simp
  moreover have "unat (of_nat n :: 8 word) = n" using n(2) by (simp add: unat_of_nat take_bit_nat_eq_self)
  ultimately show ?thesis using n by (simp add: unpadded_def Let_def)
qed

lemma unpadded_padded: "unpadded (padded bs) = Some bs"
proof -
  have "(length bs + (16 - length bs mod 16)) mod 16 = 0" by presburger
  then show ?thesis unfolding padded_def Let_def by (intro unpadded_by) simp_all
qed

lemma spelled_textBytes: "spelled (textBytes s) = s"
proof -
  have "unat (of_nat (byte c) :: 8 word) = byte c" for c by (simp add: unat_of_nat take_bit_nat_eq_self)
  then show ?thesis by (simp add: spelled_def textBytes_def comp_def)
qed

definition invertedCipher :: "auth_env \<Rightarrow> bool" where
  "invertedCipher env \<longleftrightarrow> (\<forall>key x. length key = 32 \<longrightarrow> length x = 16 \<longrightarrow>
     length (ae_cipher env key x) = 16 \<and> ae_inverse env key (ae_cipher env key x) = x)"

lemma secret_decrypts:
  assumes "invertedCipher env" and "encryptSecret env iv secret = Some stored" and "validUtf8 secret"
  shows "decryptSecret env stored = Some secret"
proof -
  obtain key where k: "getMasterKey env = Some key" "length key = 32" "length iv = 16"
    and stored: "stored = toHex iv @ '':'' @ toHex (cbcEncrypt (ae_cipher env key) iv (batchesOf 16 (padded (textBytes secret))))"
    using assms(2) by (auto simp: encryptSecret_def split: option.splits if_splits)
  let ?c = "cbcEncrypt (ae_cipher env key) iv (batchesOf 16 (padded (textBytes secret)))"
  have E: "length (ae_cipher env key x) = 16 \<and> ae_inverse env key (ae_cipher env key x) = x" if "length x = 16" for x
    using assms(1) k(2) that by (simp add: invertedCipher_def)
  have b: "list_all (\<lambda>p. length p = 16) (batchesOf 16 (padded (textBytes secret)))" by (rule batches_exact [OF padded_length])
  have "jsSplit (CHR '':'') stored = [toHex iv, toHex ?c]"
    using jsSplit_prefix [of "CHR '':''" "toHex iv" "toHex ?c"] jsSplit_none [of "CHR '':''" "toHex ?c"] by (simp add: stored toHex_chars)
  moreover have "length ?c mod 16 = 0" using cbc_length [of "ae_cipher env key" iv, OF _ k(3) b] E by simp
  moreover have "cbcDecrypt (ae_inverse env key) iv (batchesOf 16 ?c) = padded (textBytes secret)"
    using cbc_round [of "ae_cipher env key" "ae_inverse env key", OF E k(3) b] by (simp add: concat_batchesOf)
  ultimately show ?thesis using k assms(3)
    by (simp add: decryptSecret_def fromHex_toHex unpadded_padded spelled_textBytes utf8Text_valid) (simp add: stored)
qed

lemma ascii_valid: "list_all (\<lambda>c. byte c < 128) s \<Longrightarrow> validUtf8 s"
proof (induction s)
  case (Cons c s)
  then show ?case by (subst validUtf8.simps) (simp add: utf8Front_one)
qed (subst validUtf8.simps, simp)

lemma secretAccessKey_valid: "validUtf8 (generateSecretAccessKey bytes)"
proof -
  have "list_all (\<lambda>n. byte (b64urlChar n) < 128) [0..<64]" by code_simp
  then have "n < 64 \<Longrightarrow> byte (b64urlChar n) < 128" for n by (simp add: list_all_iff)
  then have "list_all (\<lambda>c. byte c < 128) (base64urlEncode (spelled bytes))"
    using b64Sextets_small [OF bytes_small] by (auto simp: base64urlEncode_def list_all_iff)
  then show ?thesis unfolding generateSecretAccessKey_def by (intro ascii_valid) (auto simp: list_all_iff dest: in_set_takeD)
qed

text \<open>
  C39. The secret a user is shown when a key is issued is the secret that requests with that key are verified with, and the key acts for that
  user: the stored secret decrypts to it under the same master secret. It is also the one in the cache of the data plane, unless Redis fails.
\<close>
theorem issued_secret_verifies:
  assumes "invertedCipher env" and "createCredential env picks bytes iv newId up now userId label s = (Inr (row, secret), s')"
  shows "(\<exists>c. activeCredential (crd_accessKeyId row) (cs_backend s') = Some c \<and> crd_userId c = userId \<and>
      decryptSecret env (crd_secretAccessKey c) = Some secret) \<and>
    (up \<longrightarrow> (\<exists>v. cs_redis s' (CRED_CACHE_PREFIX @ crd_accessKeyId row) = Some (v, now + 900) \<and>
      v = jsonText (\<lambda>_. []) (JObj [(''accessKeyId'', JStr (crd_accessKeyId row)), (''secretAccessKey'', JStr secret), (''userId'', JStr userId),
        (''isActive'', JBool True), (''found'', JBool True)])))"
proof -
  let ?ak = "generateAccessKeyId picks" and ?cs = "bk_creds (cs_backend s)"
  obtain stored where e: "encryptSecret env iv (generateSecretAccessKey bytes) = Some stored"
    and new: "?ak \<notin> set (map crd_accessKeyId ?cs)" and secret: "secret = generateSecretAccessKey bytes"
    and row: "row = \<lparr>crd_id = newId, crd_userId = userId, crd_accessKeyId = ?ak, crd_secretAccessKey = stored,
      crd_label = (if present label then the label else ''Default''), crd_isActive = True\<rparr>"
    and s': "s' = writeCache up now ?ak secret userId (s\<lparr>cs_backend := (cs_backend s)\<lparr>bk_creds := ?cs @ [row]\<rparr>\<rparr>)"
    using assms(2) by (auto simp: createCredential_def Let_def split: option.splits if_splits)
  have "find (\<lambda>c. crd_accessKeyId c = ?ak) ?cs = None" using new by (force simp: find_None_iff)
  then have "find (\<lambda>c. crd_accessKeyId c = ?ak) (?cs @ [row]) = Some row" by (simp add: find_append row)
  moreover have "cs_backend s' = (cs_backend s)\<lparr>bk_creds := ?cs @ [row]\<rparr>" by (simp add: s' writeCache_def)
  ultimately have "activeCredential ?ak (cs_backend s') = Some row" by (simp add: activeCredential_def) (simp add: row)
  moreover have "decryptSecret env stored = Some secret"
    unfolding secret by (rule secret_decrypts [OF assms(1) e secretAccessKey_valid])
  ultimately show ?thesis by (auto simp: row s' writeCache_def CRED_CACHE_TTL_SEC_def)
qed

definition demoIssuer :: auth_env where
  "demoIssuer = authDemo\<lparr>ae_masterSecret := Some ''m'', ae_sha256 := (\<lambda>_. replicate 32 7), ae_cipher := (\<lambda>k x. rev x), ae_inverse := (\<lambda>k x. rev x)\<rparr>"

theorem issued_secret_verifies_witness:
  "\<exists>c s'. createCredential demoIssuer (replicate 16 3) (replicate 30 5) (replicate 16 9) ''c2'' True 100 ''u2'' None
      \<lparr>cs_backend = credDemo, cs_redis = (\<lambda>_. None)\<rparr> = (Inr (c, generateSecretAccessKey (replicate 30 5)), s') \<and>
    (\<exists>d. activeCredential (crd_accessKeyId c) (cs_backend s') = Some d \<and> crd_userId d = ''u2'' \<and>
      decryptSecret demoIssuer (crd_secretAccessKey d) = Some (generateSecretAccessKey (replicate 30 5)))"
proof -
  let ?r = "createCredential demoIssuer (replicate 16 3) (replicate 30 5) (replicate 16 9) ''c2'' True 100 ''u2'' None
      \<lparr>cs_backend = credDemo, cs_redis = (\<lambda>_. None)\<rparr>"
  have i: "invertedCipher demoIssuer" by (simp add: invertedCipher_def demoIssuer_def)
  obtain stored where e: "encryptSecret demoIssuer (replicate 16 9) (generateSecretAccessKey (replicate 30 5)) = Some stored"
    by (simp add: encryptSecret_def getMasterKey_def demoIssuer_def present_def)
  have "generateAccessKeyId (replicate 16 3) \<noteq> ''AK''" by (simp add: generateAccessKeyId_def)
  then obtain c s' where x: "?r = (Inr (c, generateSecretAccessKey (replicate 30 5)), s')"
    by (simp add: createCredential_def e Let_def credDemo_def)
  with issued_secret_verifies [OF i x] show ?thesis by blast
qed

definition presentedKey :: "auth_request \<Rightarrow> string option" where
  "presentedKey req = (if signedInHeader req then map_option ah_accessKeyId (parseAuthHeader (the (aq_headers req ''authorization'')))
     else Option.bind (presignedParams req) (\<lambda>p. map_option fst (credentialFields (ps_credential p))))"

lemma verified_by_key:
  "(\<And>ak. presentedKey req = Some ak \<Longrightarrow> activeCredential ak b = activeCredential ak b') \<Longrightarrow>
    verifySignature env now req b = verifySignature env now req b'"
  by (auto simp: verifySignature_def verifyHeader_def verifyPresignedUrl_def presentedKey_def Let_def split: option.split)

lemma verified_with_key:
  assumes "\<And>ak. presentedKey req = Some ak \<Longrightarrow> activeCredential ak b = None"
  shows "verifySignature env now req b = None"
  using assms by (auto simp: verifySignature_def verifyHeader_def verifyPresignedUrl_def presentedKey_def Let_def split: option.split)

lemma active_after_update:
  assumes "distinct (map crd_id cs)" and "distinct (map crd_accessKeyId cs)" and "c \<in> set cs"
  shows "activeCredential ak (b\<lparr>bk_creds := updateWhere (\<lambda>x. crd_id x = crd_id c) (\<lambda>x. x\<lparr>crd_isActive := False\<rparr>) cs\<rparr>) =
    (if ak = crd_accessKeyId c then None else activeCredential ak (b\<lparr>bk_creds := cs\<rparr>))"
  using assms
proof (induction cs)
  case (Cons x cs)
  show ?case
  proof (cases "c = x")
    case True
    have "crd_id y \<noteq> crd_id c" if "y \<in> set cs" for y using Cons.prems(1) True imageI [OF that, of crd_id] by auto
    then have "updateWhere (\<lambda>x. crd_id x = crd_id c) (\<lambda>x. x\<lparr>crd_isActive := False\<rparr>) cs = cs"
      unfolding updateWhere_def by (intro map_idI) simp
    with True show ?thesis by (simp add: activeCredential_def updateWhere_def)
  next
    case False
    with Cons.prems have "c \<in> set cs" "crd_id x \<noteq> crd_id c" "crd_accessKeyId x \<noteq> crd_accessKeyId c" by auto
    with Cons show ?thesis by (auto simp: activeCredential_def updateWhere_def)
  qed
qed simp

text \<open>
  C40. A key that its owner deletes is dead: every request that presents it is refused from then on, whatever its signature, and requests with
  other keys are verified as before. Unless Redis fails, the copy the data plane reads is gone too.
\<close>
theorem deleted_key_refused:
  assumes "distinct (map crd_id (bk_creds (cs_backend s)))" and "distinct (map crd_accessKeyId (bk_creds (cs_backend s)))"
    and "c \<in> set (bk_creds (cs_backend s))" and "deleteCredential up (crd_id c) (crd_userId c) s = (Inr m, s')"
  shows "verifySignature env now req (cs_backend s') =
      (if presentedKey req = Some (crd_accessKeyId c) then None else verifySignature env now req (cs_backend s)) \<and>
    (up \<longrightarrow> cs_redis s' (CRED_CACHE_PREFIX @ crd_accessKeyId c) = None)"
proof -
  let ?cs = "bk_creds (cs_backend s)"
  have "find (\<lambda>x. crd_id x = crd_id c \<and> crd_userId x = crd_userId c) ?cs = Some c"
  proof -
    obtain d where d: "find (\<lambda>x. crd_id x = crd_id c \<and> crd_userId x = crd_userId c) ?cs = Some d"
      using assms(3) by (cases "find (\<lambda>x. crd_id x = crd_id c \<and> crd_userId x = crd_userId c) ?cs") (auto simp: find_None_iff)
    then have "d \<in> set ?cs" "crd_id d = crd_id c" by (auto simp: find_Some_iff)
    with assms(1,3) have "d = c" by (auto simp: distinct_map dest: inj_onD)
    with d show ?thesis by simp
  qed
  with assms(4) have s': "cs_backend s' = (cs_backend s)\<lparr>bk_creds := updateWhere (\<lambda>x. crd_id x = crd_id c) (\<lambda>x. x\<lparr>crd_isActive := False\<rparr>) ?cs\<rparr>"
      "up \<Longrightarrow> cs_redis s' (CRED_CACHE_PREFIX @ crd_accessKeyId c) = None"
    by (auto simp: deleteCredential_def evictCache_def Let_def split: if_splits)
  have a: "activeCredential ak (cs_backend s') = (if ak = crd_accessKeyId c then None else activeCredential ak (cs_backend s))" for ak
    using active_after_update [OF assms(1-3), of ak "cs_backend s"] by (simp add: s'(1))
  have "verifySignature env now req (cs_backend s') =
      (if presentedKey req = Some (crd_accessKeyId c) then None else verifySignature env now req (cs_backend s))"
  proof (cases "presentedKey req = Some (crd_accessKeyId c)")
    case True
    then have "verifySignature env now req (cs_backend s') = None" by (intro verified_with_key) (simp add: a)
    with True show ?thesis by simp
  next
    case False
    then have "verifySignature env now req (cs_backend s') = verifySignature env now req (cs_backend s)" by (intro verified_by_key) (auto simp: a)
    with False show ?thesis by simp
  qed
  with s'(2) show ?thesis by blast
qed

theorem deleted_key_refused_witness:
  "\<exists>s'. deleteCredential True ''c1'' ''u1'' \<lparr>cs_backend = credDemo, cs_redis = (\<lambda>_. None)\<rparr> = (Inr ''Credential deactivated'', s') \<and>
     verifySignature clientEnv 1714565000000 sentDemo credDemo = Some ''u1'' \<and> verifySignature clientEnv 1714565000000 sentDemo (cs_backend s') = None"
proof -
  let ?s = "\<lparr>cs_backend = credDemo, cs_redis = (\<lambda>_. None :: (string \<times> int) option)\<rparr>"
  let ?c = "\<lparr>crd_id = ''c1'', crd_userId = ''u1'', crd_accessKeyId = ''AK'', crd_secretAccessKey = ''s'', crd_label = ''Default'', crd_isActive = True\<rparr>"
  have d: "deleteCredential True (crd_id ?c) (crd_userId ?c) ?s =
      (Inr ''Credential deactivated'', snd (deleteCredential True (crd_id ?c) (crd_userId ?c) ?s))"
    by (simp add: deleteCredential_def credDemo_def Let_def)
  have c: "distinct (map crd_id (bk_creds (cs_backend ?s)))" "distinct (map crd_accessKeyId (bk_creds (cs_backend ?s)))"
      "?c \<in> set (bk_creds (cs_backend ?s))" by (simp_all add: credDemo_def)
  have "presentedKey sentDemo = Some (crd_accessKeyId ?c)" by code_simp
  moreover have "verifySignature clientEnv 1714565000000 sentDemo credDemo = Some ''u1''" by code_simp
  ultimately show ?thesis using d deleted_key_refused [OF c d, of clientEnv 1714565000000 sentDemo] by auto
qed

text \<open>
  \<^verbatim>\<open>localeCompare\<close> puts lower case before a capital that follows in the alphabet, where AWS puts every capital first: the part number of
  a presigned upload is sorted before \<^verbatim>\<open>X-Amz-Date\<close>, so the signature AWS clients compute is not the expected one.
\<close>

lemma locale_order_differs:
  assumes "ae_collate env ''partNumber'' ''X-Amz-Date''" and "\<not> ae_collate env ''X-Amz-Date'' ''partNumber''"
  shows "buildCanonicalQueryString env ''partNumber=2&X-Amz-Date=d'' x = (if x = Some ''partNumber'' then ''X-Amz-Date=d'' else
      if x = Some ''X-Amz-Date'' then ''partNumber=2'' else ''partNumber=2&X-Amz-Date=d'')"
    and "joinPairs (sortPairs (pairLe codeLe) (map encodePair [(''partNumber'', ''2''), (''X-Amz-Date'', ''d'')])) = ''X-Amz-Date=d&partNumber=2''"
proof -
  have e: "map (\<lambda>part. case queryPart part of (k, v) \<Rightarrow> (safeDecodeURIComponent k, safeDecodeURIComponent v))
     (filter (\<lambda>part. part \<noteq> []) (jsSplit (CHR ''&'') ''partNumber=2&X-Amz-Date=d'')) = [(''partNumber'', ''2''), (''X-Amz-Date'', ''d'')]"
    by code_simp
  have w: "awsUriEncode ''partNumber'' = ''partNumber''" "awsUriEncode ''2'' = ''2''" "awsUriEncode ''X-Amz-Date'' = ''X-Amz-Date''"
      "awsUriEncode ''d'' = ''d''" by code_simp+
  show "buildCanonicalQueryString env ''partNumber=2&X-Amz-Date=d'' x = (if x = Some ''partNumber'' then ''X-Amz-Date=d'' else
      if x = Some ''X-Amz-Date'' then ''partNumber=2'' else ''partNumber=2&X-Amz-Date=d'')"
    using assms unfolding buildCanonicalQueryString_def Let_def e by (auto simp: w sortPairs_def pairLe_def joinPairs_def jsJoin_def)
  show "joinPairs (sortPairs (pairLe codeLe) (map encodePair [(''partNumber'', ''2''), (''X-Amz-Date'', ''d'')])) = ''X-Amz-Date=d&partNumber=2''"
    by code_simp
qed

end
