(* ===== verification/Spec2Isabelle.thy ===== *)
theory Spec2Isabelle
  imports Bandwidth Interceptor NameConflict Cleanup FolderService FileMeta Listing Upload AwsChunked S3Listing S3Xml Dispatch Telegram ZipJobs S3Auth
begin

text \<open>
  \<^bold>\<open>The program.\<close> tele-drive stores files in Telegram and serves them through a web interface, share links and an
  S3 interface. The backend (backend/src, NestJS) keeps users, folders, file records and quotas in PostgreSQL; a
  transfer server in Go moves the bytes and reports back over gRPC; the frontend is a Next.js client. The development
  models the backend: the services as operations on one state, the tables of backend/prisma/schema.prisma, and the pure
  routines (ranges, tokens, listings, stream decoders) as functions.

  \<^bold>\<open>How it is modelled.\<close> \<open>Prelude\<close> has the operations: functions from a state to a result or an error and the state
  left behind; a transaction rolls back, nothing else does. \<open>Schema\<close> has the rows, the state \<open>backend\<close>, the errors and the
  external effects, which collect in an outbox. \<open>JsLib\<close> and \<open>Utf8\<close> have what the code uses of the JavaScript library: strings
  are lists of bytes, their UTF-8 text. Random ids, keys, clocks, the answers of Telegram, of the transfer server and of
  Redis, and the collation of the database are arguments. Each service method is one step of the model, except where
  requests are interleaved on purpose: \<open>Upload\<close> cuts the completion, report and abort handlers at every database access,
  and \<open>Bandwidth\<close>, \<open>S3Multipart\<close> and \<open>Telegram\<close> let requests overlap.

  \<^bold>\<open>The theories.\<close>
  \<^item> \<open>Bandwidth\<close>: common/bandwidth-lock.service.ts. A lock never takes a window past its limit, a refund leaves what was
    sent; the locale \<open>metered_account\<close> states the contract once for users and guests.
  \<^item> \<open>Interceptor\<close>: common/bandwidth.interceptor.ts. Range sizes, resolution of the request, the close handler and the
    traffic aggregates.
  \<^item> \<open>Forest\<close>, \<open>NameConflict\<close>, \<open>FolderService\<close>: folder/folder.service.ts, folder-deletion-queries.ts,
    common/name-conflict.service.ts. The folders stay a forest, walks end in it, chosen names are free, deletions are exact
    and share links give access to nothing else. The locale \<open>name_chooser\<close> is the contract of name generation.
  \<^item> \<open>Lifecycle\<close>, \<open>Cleanup\<close>: file/file-lifecycle.service.ts, common/cdn-purge.service.ts and the scheduled jobs. Deleting
    keeps every user's used space equal to the size of the complete files.
  \<^item> \<open>FileMeta\<close>, \<open>Listing\<close>: file/file-metadata.service.ts and the listings with cursors, with the clients of the frontend
    that follow them (locales \<open>dual_listing\<close> and \<open>resuming_listing\<close>).
  \<^item> \<open>Upload\<close>: file/upload-session.service.ts, file/upload-buffer.service.ts and the reports of grpc/grpc-core.controller.ts.
    However handlers interleave, a completed upload is charged once; the interleaved handlers refine the operations.
  \<^item> \<open>AwsChunked\<close>: s3/aws-chunked-decode.stream.ts, a state machine over the bytes that have arrived.
  \<^item> \<open>ListPages\<close>, \<open>S3Service\<close>, \<open>S3Keys\<close>, \<open>S3Listing\<close>, \<open>S3Objects\<close>: s3/s3-list-pagination.util.ts, s3/s3.service.ts, and the
    handlers of s3/s3.controller.ts and grpc-core.controller.ts for objects. Keys resolve to the folders created for
    them, listings agree with each other and with what can be read, and pages cover a listing (locale \<open>paged_listing\<close>).
  \<^item> \<open>Crypto\<close>, \<open>Json\<close>, \<open>Tokens\<close>: crypto/crypto.service.ts. Counter mode from any offset, wrapped keys, signed links and cookies.
  \<^item> \<open>TransferCache\<close>, \<open>Settings\<close>, \<open>TransferRead\<close>: common/transfer-cache.util.ts, settings/settings.service.ts and
    file/transfer-read.service.ts. Who may read a file, and responses with exactly the bytes of a range of its plaintext.
  \<^item> \<open>Manifest\<close>, \<open>S3Multipart\<close>: s3/s3-multipart-manifest.util.ts and s3/s3-multipart.service.ts. The parts of a completed upload
    are read as one file, and uploads are charged once unless two completions of one upload overlap.
  \<^item> \<open>Dispatch\<close>: file/file-storage-upload.service.ts and file/upload-queue.processor.ts. A buffered file is sent to Telegram and
    charged once, whatever is tried again, and is then read as the bytes that were buffered.
  \<^item> \<open>ZipJobs\<close>: download-zip/download-zip.service.ts and download-zip/download-zip.processor.ts. Folders are packed exactly, share
    links pack nothing from outside, and the totals that are charged are those of the entries.
  \<^item> \<open>S3Auth\<close>: s3/s3-auth.service.ts, s3/s3-credential.service.ts and the guards. What AWS clients sign is accepted, a signature
    binds method, path and query, and a deleted key is refused.
  \<^item> \<open>S3Xml\<close>: common/utils/xml.ts, the XML of s3/s3.service.ts and s3/s3-multipart.service.ts, s3/s3-error.util.ts. Clients read
    keys back, and requests to delete are read as they were meant.
  \<^item> \<open>Telegram\<close>: telegram/telegram.service.ts. Retries, the shared rate limit of the bots and its waiting loop, and the cache of
    download links, whose concurrent requests are a step relation.

  \<^bold>\<open>Loops and fuel.\<close> Loops that walk a finite table are structural or have a measure. A walk up the parents is a
  \<open>partial_function\<close> whose \<open>None\<close> is a walk that never ends, and is shown to end in a forest. The S3 traversal takes fuel,
  the number of folders plus two, which is shown to be enough, as is the number of folders plus one for \<open>ZipJobs\<close>; \<open>drainPages\<close> takes one more than the number of entries.

  \<^bold>\<open>Not modelled.\<close> Telegram, Redis, nginx, the Go server, the HTTP framework and the React components; texts of log
  messages and of most errors. The component list of the manifest names every part with its reason.
\<close>

end
